(* ===== verification/Prelude.thy ===== *)
theory Prelude
  imports Main "HOL-Library.Word" "HOL-Library.List_Lexorder" "HOL-Library.Char_ord"
    "HOL-Library.Sublist"
begin

unbundle bit_operations_syntax

text \<open>
  Shared vocabulary of the development: names for the machine types of the Rust sources, the
  error type of fallible functions, big-endian conversions, decimal formatting and parsing of
  unsigned integers (the \<open>{}\<close>, \<open>{:020}\<close> and \<open>parse::<u64>\<close> of the standard library), UTF-8
  validity, and the generic list facts that several components use. Rust's \<open>Vec<u8>\<close> and
  \<open>[u8; N]\<close> are lists of bytes, \<open>String\<close> is a list of characters read as its UTF-8 bytes (so
  \<open>length\<close> is Rust's \<open>len\<close> and the lexicographic order of the list is the order of \<open>str\<close>), and
  \<open>usize\<close> is \<open>nat\<close>.
\<close>

section \<open>Types\<close>

type_synonym byte = "8 word"
type_synonym u16 = "16 word"
type_synonym u32 = "32 word"
type_synonym u64 = "64 word"
type_synonym bytes = "8 word list"

text \<open>
  A fallible function (\<open>anyhow::Result\<close>) returns \<open>Inl\<close> of the message that the error displays,
  or \<open>Inr\<close> of its value. \<open>try_then\<close> is the \<open>?\<close> operator.
\<close>

type_synonym 'a res = "string + 'a"

fun try_then :: "'e + 'a \<Rightarrow> ('a \<Rightarrow> 'e + 'b) \<Rightarrow> 'e + 'b" where
  "try_then (Inl e) f = Inl e"
| "try_then (Inr x) f = f x"

named_theorems codec_simps \<open>equations that evaluate the byte-level encoders and decoders\<close>

lemma try_then_Inr_iff: "try_then m f = Inr y \<longleftrightarrow> (\<exists>x. m = Inr x \<and> f x = Inr y)"
  by (cases m) auto

lemma try_then_cong [fundef_cong]:
  "m = m' \<Longrightarrow> (\<And>x. m' = Inr x \<Longrightarrow> f x = g x) \<Longrightarrow> try_then m f = try_then m' g"
  by (cases m') auto

section \<open>Saturating and checked arithmetic\<close>

definition sat_add :: "'a::len word \<Rightarrow> 'a word \<Rightarrow> 'a word" where
  "sat_add a b = (if a \<le> a + b then a + b else - 1)"

definition sat_sub :: "'a::len word \<Rightarrow> 'a word \<Rightarrow> 'a word" where
  "sat_sub a b = (if b \<le> a then a - b else 0)"

definition checked_add :: "'a::len word \<Rightarrow> 'a word \<Rightarrow> 'a word option" where
  "checked_add a b = (if a \<le> a + b then Some (a + b) else None)"

lemma word_add_no_wrap: "(a \<le> a + b) = (unat a + unat b < 2 ^ LENGTH('a))"
  for a b :: "'a::len word"
  by (rule no_olen_add_nat)

lemma unat_minus_one_word_eq: "unat (- 1 :: 'a::len word) = 2 ^ LENGTH('a) - 1"
  by (simp add: unsigned_minus_1_eq_mask mask_eq_exp_minus_1)

lemma unat_sat_add: "unat (sat_add a b) = min (unat a + unat b) (2 ^ LENGTH('a) - 1)"
  for a b :: "'a::len word"
proof (cases "a \<le> a + b")
  case True
  then have "unat a + unat b < 2 ^ LENGTH('a)" by (simp add: word_add_no_wrap)
  with True show ?thesis by (simp add: sat_add_def unat_word_ariths)
next
  case False
  then have "\<not> unat a + unat b < 2 ^ LENGTH('a)" by (simp add: word_add_no_wrap)
  with False show ?thesis by (simp add: sat_add_def unat_minus_one_word_eq)
qed

lemma unat_sat_sub: "unat (sat_sub a b) = unat a - unat b"
  for a b :: "'a::len word"
  by (auto simp: sat_sub_def unat_sub word_le_nat_alt)

lemma checked_add_Some_iff:
  "checked_add a b = Some c \<longleftrightarrow> unat a + unat b < 2 ^ LENGTH('a) \<and> c = a + b"
  for a b c :: "'a::len word"
  by (auto simp: checked_add_def word_add_no_wrap)

lemma checked_add_one_None: "checked_add a 1 = None \<longleftrightarrow> a = - 1"
  for a :: "'a::len word"
proof -
  have "unat a \<le> 2 ^ LENGTH('a) - 1"
    using unsigned_less [where w = a and ?'a = nat] by linarith
  moreover have "a = - 1 \<longleftrightarrow> unat a = 2 ^ LENGTH('a) - 1"
    by (metis unat_minus_one_word_eq word_unat_eq_iff)
  ultimately show ?thesis
    by (cases "LENGTH('a) = 1")
      (auto simp: checked_add_def word_add_no_wrap)
qed

lemma unat_plus_one: "a < b \<Longrightarrow> unat (a + 1) = Suc (unat a)"
  for a b :: "'a::len word"
  by (metis Suc_eq_plus1 add.commute linorder_not_less max_word_max max_word_wrap unatSuc)

section \<open>Big-endian conversions\<close>

fun u16_to_be :: "u16 \<Rightarrow> bytes" where
  "u16_to_be w = [ucast (drop_bit 8 w), ucast w]"

definition u16_from_be :: "byte \<Rightarrow> byte \<Rightarrow> u16" where
  "u16_from_be b0 b1 = push_bit 8 (ucast b0) OR ucast b1"

fun u32_to_be :: "u32 \<Rightarrow> bytes" where
  "u32_to_be w = [ucast (drop_bit 24 w), ucast (drop_bit 16 w), ucast (drop_bit 8 w), ucast w]"

definition u32_from_be :: "byte \<Rightarrow> byte \<Rightarrow> byte \<Rightarrow> byte \<Rightarrow> u32" where
  "u32_from_be b0 b1 b2 b3 =
     push_bit 24 (ucast b0) OR push_bit 16 (ucast b1) OR push_bit 8 (ucast b2) OR ucast b3"

fun u64_to_be :: "u64 \<Rightarrow> bytes" where
  "u64_to_be w = u32_to_be (ucast (drop_bit 32 w)) @ u32_to_be (ucast w)"

definition u64_from_be :: "bytes \<Rightarrow> u64" where
  "u64_from_be bs =
     push_bit 32 (ucast (u32_from_be (bs ! 0) (bs ! 1) (bs ! 2) (bs ! 3)))
     OR ucast (u32_from_be (bs ! 4) (bs ! 5) (bs ! 6) (bs ! 7))"

lemma u16_be_roundtrip [codec_simps]:
  "u16_from_be (ucast (drop_bit 8 w)) (ucast w) = w"
  unfolding u16_from_be_def by (rule bit_word_eqI) (auto simp: bit_simps)

lemma u32_be_roundtrip [codec_simps]:
  "u32_from_be (ucast (drop_bit 24 w)) (ucast (drop_bit 16 w)) (ucast (drop_bit 8 w)) (ucast w) = w"
proof (rule bit_word_eqI)
  fix n assume "n < LENGTH(32)"
  then consider "n < 8" | "8 \<le> n" "n < 16" | "16 \<le> n" "n < 24" | "24 \<le> n" "n < 32"
    by force
  then show "bit (u32_from_be (ucast (drop_bit 24 w)) (ucast (drop_bit 16 w))
      (ucast (drop_bit 8 w)) (ucast w)) n = bit w n"
    by cases (auto simp: u32_from_be_def bit_simps less_diff_conv2)
qed

lemma u64_be_roundtrip: "u64_from_be (u64_to_be w) = w"
proof -
  have "push_bit 32 (ucast (ucast (drop_bit 32 w) :: u32)) OR ucast (ucast w :: u32) = w"
    by (rule bit_word_eqI) (auto simp: bit_simps)
  then show ?thesis by (simp add: u64_from_be_def codec_simps)
qed

lemma u16_from_be_inj:
  "u16_from_be a b = u16_from_be c d \<longleftrightarrow> a = c \<and> b = d"
proof -
  have hi: "ucast (drop_bit 8 (u16_from_be x y)) = x" and lo: "ucast (u16_from_be x y) = y" for x y
    unfolding u16_from_be_def by (rule bit_word_eqI, auto simp: bit_simps dest: bit_imp_le_length)+
  show ?thesis by (metis hi lo)
qed

lemma length_u32_to_be [simp]: "length (u32_to_be w) = 4"
  by simp

lemma length_u64_to_be [simp]: "length (u64_to_be w) = 8"
  by simp

lemma u64_to_be_inj: "u64_to_be a = u64_to_be b \<longleftrightarrow> a = b"
  by (metis u64_be_roundtrip)

section \<open>Decimal numbers\<close>

text \<open>
  \<open>show_nat\<close> is the \<open>{}\<close> of an unsigned integer, \<open>show_pad20\<close> is \<open>{:020}\<close> and \<open>parse_u64\<close> is
  \<open>str::parse::<u64>\<close>: an optional \<open>+\<close>, then at least one digit, and no overflow.
\<close>

definition digit :: "nat \<Rightarrow> char" where
  "digit n = char_of (48 + n mod 10)"

fun show_nat :: "nat \<Rightarrow> string" where
  "show_nat n = (if n < 10 then [digit n] else show_nat (n div 10) @ [digit n])"

declare show_nat.simps [simp del]

definition show_pad20 :: "nat \<Rightarrow> string" where
  "show_pad20 n = replicate (20 - length (show_nat n)) CHR ''0'' @ show_nat n"

definition digit_value :: "char \<Rightarrow> nat option" where
  "digit_value c = (let k = of_char c in if 48 \<le> k \<and> k \<le> 57 then Some (k - 48) else None)"

fun parse_digits :: "nat \<Rightarrow> string \<Rightarrow> nat option" where
  "parse_digits acc [] = Some acc"
| "parse_digits acc (c # cs) =
     (case digit_value c of None \<Rightarrow> None | Some d \<Rightarrow> parse_digits (10 * acc + d) cs)"

definition parse_u64 :: "string \<Rightarrow> u64 option" where
  "parse_u64 s =
     (let body = (case s of c # cs \<Rightarrow> if c = CHR ''+'' then cs else s | [] \<Rightarrow> [])
      in if body = [] then None
         else case parse_digits 0 body of
                None \<Rightarrow> None
              | Some n \<Rightarrow> if n < 2 ^ 64 then Some (of_nat n) else None)"

text \<open>Fixed-width decimal notation: the common form behind both formats.\<close>

fun dec_fixed :: "nat \<Rightarrow> nat \<Rightarrow> string" where
  "dec_fixed 0 n = []"
| "dec_fixed (Suc w) n = dec_fixed w (n div 10) @ [digit n]"

lemma of_char_digit [simp]: "(of_char (digit n) :: nat) = 48 + n mod 10"
proof -
  have "48 + n mod 10 < (256 :: nat)" by linarith
  then show ?thesis by (simp add: digit_def)
qed

lemma digit_value_digit [simp]: "digit_value (digit n) = Some (n mod 10)"
  by (simp add: digit_value_def)

lemma digit_mod [simp]: "digit (n mod 10) = digit n"
  by (simp add: digit_def)

lemma digit_eq_iff: "digit a = digit b \<longleftrightarrow> a mod 10 = b mod 10"
  by (metis add_left_cancel digit_def of_char_digit)

lemma digit_less_iff: "digit a < digit b \<longleftrightarrow> a mod 10 < b mod 10"
  by (simp add: less_char_def)

lemma length_dec_fixed [simp]: "length (dec_fixed w n) = w"
  by (induction w arbitrary: n) auto

lemma dec_fixed_zero: "dec_fixed w 0 = replicate w CHR ''0''"
proof (induction w)
  case (Suc w)
  have "digit 0 = CHR ''0''" by (rule of_char_eq_iff [where ?'a = nat, THEN iffD1]) simp
  with Suc show ?case by (simp add: replicate_append_same)
qed simp

lemma show_nat_dec_fixed:
  "n < 10 ^ w \<Longrightarrow> 0 < w \<Longrightarrow> replicate (w - length (show_nat n)) CHR ''0'' @ show_nat n = dec_fixed w n
     \<and> length (show_nat n) \<le> w"
proof (induction w arbitrary: n)
  case (Suc w)
  show ?case
  proof (cases "n < 10")
    case True
    then show ?thesis by (simp add: show_nat.simps [of n] dec_fixed_zero)
  next
    case False
    with Suc.prems have "n div 10 < 10 ^ w" "0 < w"
      by (auto simp: less_mult_imp_div_less mult.commute intro: gr0I)
    then show ?thesis using Suc.IH [of "n div 10"] False
      by (simp add: show_nat.simps [of n] Suc_diff_le flip: append_assoc)
  qed
qed simp

lemma show_pad20_eq: "n < 10 ^ 20 \<Longrightarrow> show_pad20 n = dec_fixed 20 n"
  using show_nat_dec_fixed [of n 20] by (simp add: show_pad20_def)

lemma append_last_less_iff:
  "length xs = length ys \<Longrightarrow> xs @ [a] < ys @ [b] \<longleftrightarrow> xs < ys \<or> xs = ys \<and> a < b"
  for a b :: "'a::order"
  by (induction xs ys rule: list_induct2) auto

lemma append_less_cancel [simp]: "p @ xs < p @ ys \<longleftrightarrow> xs < ys"
  for p :: "'a::order list"
  by (induction p) auto

lemma append_le_cancel [simp]: "p @ xs \<le> p @ ys \<longleftrightarrow> xs \<le> ys"
  for p :: "'a::order list"
  by (induction p) auto

lemma less_div_mod_10: "a < b \<longleftrightarrow> a div 10 < b div 10 \<or> a div 10 = b div 10 \<and> a mod 10 < b mod 10"
  for a b :: nat
proof -
  have lin: "10 * qa + ra < 10 * qb + rb \<longleftrightarrow> qa < qb \<or> qa = qb \<and> ra < rb"
    if "ra < 10" "rb < 10" for qa qb ra rb :: nat
    using that by arith
  have "a mod 10 < 10" "b mod 10 < 10" by simp_all
  from lin [OF this, of "a div 10" "b div 10"] show ?thesis by simp
qed

text \<open>The order of fixed-width numbers as strings is their order as numbers.\<close>

lemma dec_fixed_less_iff:
  "a < 10 ^ w \<Longrightarrow> b < 10 ^ w \<Longrightarrow> dec_fixed w a < dec_fixed w b \<longleftrightarrow> a < b"
proof (induction w arbitrary: a b)
  case (Suc w)
  from Suc.prems have "a div 10 < 10 ^ w" "b div 10 < 10 ^ w"
    by (auto simp: less_mult_imp_div_less mult.commute)
  then have IH: "dec_fixed w (a div 10) < dec_fixed w (b div 10) \<longleftrightarrow> a div 10 < b div 10"
    "dec_fixed w (b div 10) < dec_fixed w (a div 10) \<longleftrightarrow> b div 10 < a div 10"
    using Suc.IH by blast+
  have eq: "dec_fixed w (a div 10) = dec_fixed w (b div 10) \<longleftrightarrow> a div 10 = b div 10"
    using IH by (cases "dec_fixed w (a div 10)" "dec_fixed w (b div 10)" rule: linorder_cases)
      (auto simp: not_less_iff_gr_or_eq)
  show ?case
    by (simp add: append_last_less_iff IH eq digit_less_iff less_div_mod_10 [of a b])
qed simp

lemma parse_digits_append:
  "parse_digits acc (xs @ [digit n]) = map_option (\<lambda>a. 10 * a + n mod 10) (parse_digits acc xs)"
  by (induction xs arbitrary: acc) (auto split: option.splits)

lemma parse_digits_dec_fixed: "n < 10 ^ w \<Longrightarrow> parse_digits 0 (dec_fixed w n) = Some n"
proof (induction w arbitrary: n)
  case (Suc w)
  then have "n div 10 < 10 ^ w" by (auto simp: less_mult_imp_div_less mult.commute)
  with Suc.IH show ?case by (simp add: parse_digits_append)
qed simp

lemma dec_fixed_digits: "c \<in> set (dec_fixed w n) \<Longrightarrow> \<exists>k. c = digit k"
  by (induction w arbitrary: n) auto

lemma digit_not_plus: "digit k \<noteq> CHR ''+''"
proof
  assume "digit k = CHR ''+''"
  then have "of_char (digit k) = (of_char CHR ''+'' :: nat)" by simp
  then show False by (simp only: of_char_digit) simp
qed

lemma parse_u64_show_pad20 [simp]: "parse_u64 (show_pad20 (unat s)) = Some s"
  for s :: u64
proof -
  have lt: "unat s < 10 ^ 20" "unat s < 2 ^ 64"
    using unsigned_less [where w = s and ?'a = nat] by simp_all
  obtain c cs where c: "dec_fixed 20 (unat s) = c # cs"
    by (metis length_dec_fixed length_0_conv list.exhaust zero_neq_numeral)
  then have "c \<noteq> CHR ''+''"
    using dec_fixed_digits [of c 20 "unat s"] by (auto simp: digit_not_plus)
  with c lt show ?thesis
    using parse_digits_dec_fixed [OF lt(1)]
    by (simp add: parse_u64_def show_pad20_eq)
qed

lemma show_pad20_less_iff [simp]: "show_pad20 (unat a) < show_pad20 (unat b) \<longleftrightarrow> a < b"
  for a b :: u64
proof -
  have "unat x < 10 ^ 20" for x :: u64
    using unsigned_less [where w = x and ?'a = nat] by simp
  then show ?thesis
    by (simp add: show_pad20_eq dec_fixed_less_iff word_less_nat_alt)
qed

lemma show_pad20_le_iff [simp]: "show_pad20 (unat a) \<le> show_pad20 (unat b) \<longleftrightarrow> a \<le> b"
  for a b :: u64
  using show_pad20_less_iff [of b a] by (simp flip: linorder_not_less del: show_pad20_less_iff)

lemma show_pad20_eq_iff [simp]: "show_pad20 (unat a) = show_pad20 (unat b) \<longleftrightarrow> a = b"
  for a b :: u64
  by (metis option.inject parse_u64_show_pad20)

section \<open>Strings as bytes, UTF-8\<close>

definition as_bytes :: "string \<Rightarrow> bytes" where
  "as_bytes s = map of_char s"

lemma length_as_bytes [simp]: "length (as_bytes s) = length s"
  by (simp add: as_bytes_def)

lemma unat_of_char [simp]: "unat (of_char c :: byte) = of_char c"
proof -
  have "(of_char c :: byte) = of_nat (of_char c)" by (simp only: of_nat_of_char)
  moreover have "unat (of_nat (of_char c) :: byte) = of_char c mod 256"
    by (subst unat_of_nat) simp
  ultimately show ?thesis by simp
qed

lemma as_bytes_inj: "as_bytes s = as_bytes t \<longleftrightarrow> s = t"
proof -
  have "inj (of_char :: char \<Rightarrow> byte)"
    by (rule injI) (metis of_char_eq_iff unat_of_char)
  then show ?thesis by (simp add: as_bytes_def inj_map_eq_map)
qed

text \<open>
  \<open>std::str::from_utf8\<close> accepts the well-formed sequences of the Unicode standard (no overlong
  forms, no surrogates, nothing above U+10FFFF).
\<close>

definition utf8_cont :: "nat \<Rightarrow> bool" where
  "utf8_cont b \<longleftrightarrow> 128 \<le> b \<and> b \<le> 191"

fun utf8_codes :: "nat list \<Rightarrow> bool" where
  "utf8_codes [] = True"
| "utf8_codes (b # bs) =
     (if b < 128 then utf8_codes bs
      else if 194 \<le> b \<and> b \<le> 223 then
        (case bs of c # cs \<Rightarrow> utf8_cont c \<and> utf8_codes cs | _ \<Rightarrow> False)
      else if 224 \<le> b \<and> b \<le> 239 then
        (case bs of c # d # cs \<Rightarrow>
           (if b = 224 then 160 \<le> c \<and> c \<le> 191
            else if b = 237 then 128 \<le> c \<and> c \<le> 159 else utf8_cont c)
           \<and> utf8_cont d \<and> utf8_codes cs
         | _ \<Rightarrow> False)
      else if 240 \<le> b \<and> b \<le> 244 then
        (case bs of c # d # e # cs \<Rightarrow>
           (if b = 240 then 144 \<le> c \<and> c \<le> 191
            else if b = 244 then 128 \<le> c \<and> c \<le> 143 else utf8_cont c)
           \<and> utf8_cont d \<and> utf8_cont e \<and> utf8_codes cs
         | _ \<Rightarrow> False)
      else False)"

definition utf8_valid :: "string \<Rightarrow> bool" where
  "utf8_valid s = utf8_codes (map of_char s)"

lemma utf8_codes_append: "utf8_codes xs \<Longrightarrow> utf8_codes (xs @ ys) = utf8_codes ys"
  by (induction xs rule: utf8_codes.induct) (auto split: if_splits list.splits)

lemma utf8_valid_append: "utf8_valid s \<Longrightarrow> utf8_valid (s @ t) = utf8_valid t"
  by (simp add: utf8_valid_def utf8_codes_append)

lemma utf8_codes_ascii: "(\<And>b. b \<in> set bs \<Longrightarrow> b < 128) \<Longrightarrow> utf8_codes bs"
  by (induction bs) auto

lemma utf8_valid_ascii: "(\<And>c. c \<in> set s \<Longrightarrow> of_char c < (128::nat)) \<Longrightarrow> utf8_valid s"
  unfolding utf8_valid_def by (rule utf8_codes_ascii) auto

section \<open>Key ranges\<close>

text \<open>
  The strings with a given prefix form an interval of the lexicographic order, so a forward scan
  that starts inside the interval and stops at the first key without the prefix sees all of it.
\<close>

lemma prefix_between:
  "prefix p a \<Longrightarrow> a \<le> b \<Longrightarrow> b \<le> c \<Longrightarrow> prefix p c \<Longrightarrow> prefix p b"
  for p a b c :: "'a::linorder list"
proof (induction p arbitrary: a b c)
  case (Cons x p)
  obtain a' c' where ac: "a = x # a'" "prefix p a'" "c = x # c'" "prefix p c'"
    using Cons.prems(1,4) by (metis Cons_prefix_Cons prefix_Cons prefix_bot.extremum_uniqueI
        list.distinct(1) list.exhaust)
  with Cons.prems obtain b' where b: "b = x # b'" "a' \<le> b'" "b' \<le> c'"
    by (cases b) auto
  from Cons.IH [OF ac(2) b(2,3) ac(4)] b(1) show ?case by simp
qed simp

lemma takeWhile_prefix_sorted:
  fixes p :: "'a::linorder list"
  assumes "sorted_wrt (<) (map f xs)" and "\<And>x. x \<in> set xs \<Longrightarrow> p @ r \<le> f x"
  shows "takeWhile (\<lambda>x. prefix p (f x)) xs = filter (\<lambda>x. prefix p (f x)) xs"
  using assms
proof (induction xs)
  case (Cons x xs)
  show ?case
  proof (cases "prefix p (f x)")
    case False
    have "\<not> prefix p (f y)" if "y \<in> set xs" for y
      using that Cons.prems False prefix_between [of p "p @ r" "f x" "f y"]
      by (auto intro: less_imp_le)
    then show ?thesis using False by (simp add: filter_empty_conv)
  qed (use Cons in simp)
qed simp

lemma takeWhile_sorted_le:
  fixes f :: "'b \<Rightarrow> 'a::linorder"
  shows "sorted_wrt (<) (map f xs) \<Longrightarrow> takeWhile (\<lambda>x. f x \<le> b) xs = filter (\<lambda>x. f x \<le> b) xs"
  by (induction xs) (fastforce simp: empty_filter_conv not_le intro: less_trans)+

lemma take_drop_map_nth: "k + n \<le> length xs \<Longrightarrow> take n (drop k xs) = map ((!) xs) [k..<k + n]"
  by (rule nth_equalityI) auto

lemma sorted_wrt_less_distinct: "sorted_wrt (<) (map f xs) \<Longrightarrow> distinct (map f xs)"
  for f :: "'b \<Rightarrow> 'a::linorder"
  by (simp add: strict_sorted_iff)

lemma sorted_wrt_filter_map: "sorted_wrt P (map f xs) \<Longrightarrow> sorted_wrt P (map f (filter Q xs))"
  by (induction xs) auto

section \<open>The end of a list\<close>

text \<open>The last \<open>c\<close> elements: what a bounded buffer that drops its oldest element still holds.\<close>

definition latest :: "nat \<Rightarrow> 'a list \<Rightarrow> 'a list" where
  "latest c xs = drop (length xs - c) xs"

lemma latest_snoc: "0 < c \<Longrightarrow> latest c (xs @ [x]) =
    (if length (latest c xs) = c then tl (latest c xs) else latest c xs) @ [x]"
  by (auto simp: latest_def drop_Suc [symmetric] tl_drop Suc_diff_le not_le)

lemma length_latest [simp]: "length (latest c xs) = min c (length xs)"
  by (auto simp: latest_def)

lemma set_tl: "x \<in> set (tl xs) \<Longrightarrow> x \<in> set xs"
  by (cases xs) auto

section \<open>Codecs\<close>

text \<open>
  The contract of an encoder and a decoder: what is encoded from a well-formed value decodes to
  it. A strict codec also accepts nothing else, so that the wire format is unambiguous.
\<close>

locale codec =
  fixes enc :: "'a \<Rightarrow> 'w" and dec :: "'w \<Rightarrow> 'a option" and wf :: "'a \<Rightarrow> bool"
  assumes dec_enc: "wf x \<Longrightarrow> dec (enc x) = Some x"
begin

lemma enc_inj: "wf x \<Longrightarrow> wf y \<Longrightarrow> enc x = enc y \<Longrightarrow> x = y"
  by (metis dec_enc option.inject)

lemma dec_other: "wf x \<Longrightarrow> dec w \<noteq> Some x \<Longrightarrow> enc x \<noteq> w"
  by (auto simp: dec_enc)

end

locale strict_codec = codec +
  assumes dec_sound: "dec w = Some x \<Longrightarrow> wf x \<and> enc x = w"
begin

lemma dec_iff: "dec w = Some x \<longleftrightarrow> wf x \<and> enc x = w"
  by (auto simp: dec_enc dec_sound)

lemma dec_inj: "dec v = Some x \<Longrightarrow> dec w = Some x \<Longrightarrow> v = w"
  by (auto simp: dec_iff)

end

lemma byte_bit_high [simp]: "8 \<le> n \<Longrightarrow> \<not> bit (b :: byte) n"
  by (auto dest: bit_imp_le_length)

interpretation be64: strict_codec u64_to_be
  "\<lambda>bs. if length bs = 8 then Some (u64_from_be bs) else None" "\<lambda>_. True"
proof unfold_locales
  fix w :: bytes and x :: u64
  assume "(if length w = 8 then Some (u64_from_be w) else None) = Some x"
  then have len: "length w = 8" and x: "x = u64_from_be w" by (auto split: if_splits)
  from len obtain a b c d e f g h where w: "w = [a, b, c, d, e, f, g, h]"
    by (auto simp: length_Suc_conv numeral_eq_Suc)
  show "True \<and> u64_to_be x = w"
    unfolding x w u64_from_be_def u32_from_be_def
    by (auto intro!: bit_word_eqI simp: bit_simps)
next
  fix x :: u64
  show "(if length (u64_to_be x) = 8 then Some (u64_from_be (u64_to_be x)) else None) = Some x"
    by (simp only: u64_be_roundtrip length_u64_to_be if_True refl)
qed

section \<open>Searching in strings\<close>

text \<open>\<open>str::find\<close>: the byte offset of the first occurrence. \<open>str::contains\<close> and \<open>to_ascii_lowercase\<close>.\<close>

fun str_find :: "string \<Rightarrow> string \<Rightarrow> nat option" where
  "str_find pat [] = (if pat = [] then Some 0 else None)"
| "str_find pat (c # cs) = (if prefix pat (c # cs) then Some 0 else map_option Suc (str_find pat cs))"

definition str_contains :: "string \<Rightarrow> string \<Rightarrow> bool" where
  "str_contains pat s \<longleftrightarrow> str_find pat s \<noteq> None"

definition ascii_lower :: "char \<Rightarrow> char" where
  "ascii_lower c = (let k = (of_char c :: nat) in if 65 \<le> k \<and> k \<le> 90 then char_of (k + 32) else c)"

definition to_ascii_lowercase :: "string \<Rightarrow> string" where
  "to_ascii_lowercase s = map ascii_lower s"

lemma str_find_Some: "str_find pat s = Some i \<Longrightarrow> \<exists>pre post. s = pre @ pat @ post \<and> length pre = i"
proof (induction pat s arbitrary: i rule: str_find.induct)
  case (2 pat c cs)
  show ?case
  proof (cases "prefix pat (c # cs)")
    case True
    then obtain post where post: "c # cs = pat @ post" by (auto simp: prefix_def)
    from True 2(2) have "i = 0" by simp
    with post show ?thesis by (intro exI [of _ "[]"] exI [of _ post]) simp
  next
    case False
    with 2(2) obtain j where j: "str_find pat cs = Some j" "i = Suc j" by auto
    from 2(1) [OF False j(1)] obtain pre post where "cs = pre @ pat @ post" "length pre = j" by blast
    with j show ?thesis by (metis append_Cons length_Cons)
  qed
qed (auto split: if_splits)

lemma str_find_exists: "\<exists>i \<le> length pre. str_find pat (pre @ pat @ post) = Some i"
proof (induction pre)
  case Nil
  have "prefix pat (pat @ post)" by simp
  then have "str_find pat (pat @ post) = Some 0" by (cases "pat @ post") simp_all
  then show ?case by simp
next
  case (Cons c pre)
  then obtain i where "i \<le> length pre" "str_find pat (pre @ pat @ post) = Some i" by blast
  then show ?case by (cases "prefix pat (c # pre @ pat @ post)") auto
qed

lemma str_contains_iff: "str_contains pat s \<longleftrightarrow> (\<exists>pre post. s = pre @ pat @ post)"
  unfolding str_contains_def using str_find_Some [of pat s] str_find_exists [where pat = pat] by fastforce

end
