(* ===== verification/Voip_Crypto.thy ===== *)
theory Voip_Crypto
  imports Prelude
begin

text \<open>
  The cryptographic core of calls (\<open>ParanoiaLibrary/src/voip/crypto.rs\<close>): stream, direction and
  role, the HKDF labels, the session keys of the two sides, the nonce layout and the wrappers of
  the AEAD. HKDF-SHA256 and ChaCha20-Poly1305 are third-party crates: they are the parameters
  \<open>hkdf\<close> (salt, input key, info; 32 bytes out) and \<open>aead\<close>, with what the code relies on in
  \<open>aead_ok\<close> and \<open>hkdf_ok\<close>.
\<close>

section \<open>Streams, directions, roles\<close>

definition VOIP_KEY_LEN :: nat where "VOIP_KEY_LEN = 32"
definition VOIP_SESSION_ID_LEN :: nat where "VOIP_SESSION_ID_LEN = 16"
definition VOIP_NONCE_LEN :: nat where "VOIP_NONCE_LEN = 12"
definition VOIP_TAG_LEN :: nat where "VOIP_TAG_LEN = 16"

datatype stream_id = Voice | Video

fun stream_as_byte :: "stream_id \<Rightarrow> byte" where
  "stream_as_byte Voice = 0"
| "stream_as_byte Video = 1"

datatype direction = InitiatorToResponder | ResponderToInitiator

fun direction_as_byte :: "direction \<Rightarrow> byte" where
  "direction_as_byte InitiatorToResponder = 0"
| "direction_as_byte ResponderToInitiator = 1"

datatype role = Initiator | Responder

fun tx_direction :: "role \<Rightarrow> direction" where
  "tx_direction Initiator = InitiatorToResponder"
| "tx_direction Responder = ResponderToInitiator"

fun rx_direction :: "role \<Rightarrow> direction" where
  "rx_direction Initiator = ResponderToInitiator"
| "rx_direction Responder = InitiatorToResponder"

text \<open>The other side of a call; it appears in the properties only.\<close>

fun peer_role :: "role \<Rightarrow> role" where
  "peer_role Initiator = Responder"
| "peer_role Responder = Initiator"

lemma peer_directions [simp]:
  "rx_direction (peer_role r) = tx_direction r" "tx_direction (peer_role r) = rx_direction r"
  by (cases r; simp)+

lemma stream_as_byte_inj [simp]: "stream_as_byte s = stream_as_byte t \<longleftrightarrow> s = t"
  by (cases s; cases t) simp_all

lemma direction_as_byte_inj [simp]: "direction_as_byte d = direction_as_byte e \<longleftrightarrow> d = e"
  by (cases d; cases e) simp_all

section \<open>Session keys\<close>

fun hkdf_info :: "stream_id \<Rightarrow> bool \<Rightarrow> bytes" where
  "hkdf_info Voice True = as_bytes ''paranoia-voice-tx''"
| "hkdf_info Voice False = as_bytes ''paranoia-voice-rx''"
| "hkdf_info Video True = as_bytes ''paranoia-video-tx''"
| "hkdf_info Video False = as_bytes ''paranoia-video-rx''"

record session_keys =
  tx :: bytes
  rx :: bytes

type_synonym hkdf = "bytes \<Rightarrow> bytes \<Rightarrow> bytes \<Rightarrow> bytes"

definition derive_session_keys ::
    "hkdf \<Rightarrow> bytes \<Rightarrow> bytes \<Rightarrow> stream_id \<Rightarrow> role \<Rightarrow> session_keys" where
  "derive_session_keys H master sid stream r =
     (let (info_tx, info_rx) =
        (case r of Initiator \<Rightarrow> (hkdf_info stream True, hkdf_info stream False)
                 | Responder \<Rightarrow> (hkdf_info stream False, hkdf_info stream True))
      in \<lparr>tx = H sid master info_tx, rx = H sid master info_rx\<rparr>)"

definition zeroize_now :: "session_keys \<Rightarrow> session_keys" where
  "zeroize_now k = \<lparr>tx = replicate VOIP_KEY_LEN 0, rx = replicate VOIP_KEY_LEN 0\<rparr>"

text \<open>\<open>StreamKeys\<close>: an array indexed by the stream (voice 0, video 1).\<close>

record stream_keys =
  streams :: "session_keys list"

definition derive_stream_keys :: "hkdf \<Rightarrow> bytes \<Rightarrow> bytes \<Rightarrow> role \<Rightarrow> stream_keys" where
  "derive_stream_keys H master sid r =
     \<lparr>streams = [derive_session_keys H master sid Voice r, derive_session_keys H master sid Video r]\<rparr>"

definition for_stream :: "stream_keys \<Rightarrow> stream_id \<Rightarrow> session_keys" where
  "for_stream k s = streams k ! (case s of Voice \<Rightarrow> 0 | Video \<Rightarrow> 1)"

definition zeroize_streams_now :: "stream_keys \<Rightarrow> stream_keys" where
  "zeroize_streams_now k = k\<lparr>streams := map zeroize_now (streams k)\<rparr>"

text \<open>
  What the code relies on of HKDF-SHA256: 32 bytes come out, and for one salt and input key different
  labels give different keys (collision freedom). The law is about all labels of fewer than 32
  bytes, whatever the program uses; longer ones could not all be told apart by 32 bytes.
\<close>

definition hkdf_ok :: "hkdf \<Rightarrow> bool" where
  "hkdf_ok H \<longleftrightarrow>
     (\<forall>salt ikm info. length (H salt ikm info) = VOIP_KEY_LEN) \<and>
     (\<forall>salt ikm x y. length x < VOIP_KEY_LEN \<longrightarrow> length y < VOIP_KEY_LEN \<longrightarrow> H salt ikm x = H salt ikm y \<longrightarrow> x = y)"

text \<open>The four labels of the program are short and pairwise different.\<close>

lemma hkdf_info_short: "length (hkdf_info s b) < VOIP_KEY_LEN"
  by (cases s; cases b) (simp_all add: VOIP_KEY_LEN_def)

lemma hkdf_info_inj: "hkdf_info s b = hkdf_info t c \<longleftrightarrow> s = t \<and> b = c"
  by (cases s; cases t; cases b; cases c) (simp_all add: as_bytes_def)

lemma hkdf_labels_apart: "hkdf_ok H \<Longrightarrow> H salt ikm (hkdf_info s b) = H salt ikm (hkdf_info t c) \<longleftrightarrow> s = t \<and> b = c"
  using hkdf_info_short hkdf_info_inj unfolding hkdf_ok_def by metis

lemma for_stream_derive [simp]:
  "for_stream (derive_stream_keys H m sid r) s = derive_session_keys H m sid s r"
  by (cases s) (simp_all add: for_stream_def derive_stream_keys_def)

lemma derive_mirror:
  "tx (derive_session_keys H m sid s (peer_role r)) = rx (derive_session_keys H m sid s r)"
  "rx (derive_session_keys H m sid s (peer_role r)) = tx (derive_session_keys H m sid s r)"
  by (cases r; simp add: derive_session_keys_def)+

section \<open>Nonces\<close>

definition build_nonce :: "stream_id \<Rightarrow> direction \<Rightarrow> u64 \<Rightarrow> bytes" where
  "build_nonce stream dir s =
     [stream_as_byte stream, direction_as_byte dir] @ u64_to_be s @ [0, 0]"

lemma length_build_nonce [simp]: "length (build_nonce s d q) = VOIP_NONCE_LEN"
  by (simp add: build_nonce_def VOIP_NONCE_LEN_def)

lemma build_nonce_inj:
  "build_nonce s d q = build_nonce s' d' q' \<longleftrightarrow> s = s' \<and> d = d' \<and> q = q'"
proof -
  have "u64_to_be q @ [0, 0] = u64_to_be q' @ [0, 0] \<longleftrightarrow> q = q'"
    using u64_to_be_inj by blast
  then show ?thesis by (simp add: build_nonce_def del: u64_to_be.simps)
qed

section \<open>AEAD\<close>

record aead =
  aead_seal :: "bytes \<Rightarrow> bytes \<Rightarrow> bytes \<Rightarrow> bytes \<Rightarrow> bytes option"
  aead_open :: "bytes \<Rightarrow> bytes \<Rightarrow> bytes \<Rightarrow> bytes \<Rightarrow> bytes option"

text \<open>
  What the code relies on of ChaCha20-Poly1305 (RFC 8439): sealing a plaintext below the length
  limit succeeds and appends a 16-byte tag, what was sealed opens, and opening succeeds on nothing
  but the (deterministic) sealing of the plaintext it returns.
\<close>

definition aead_ok :: "aead \<Rightarrow> bool" where
  "aead_ok A \<longleftrightarrow>
     (\<forall>k n a p. length p < 2 ^ 32 \<longrightarrow> aead_seal A k n a p \<noteq> None) \<and>
     (\<forall>k n a p c. aead_seal A k n a p = Some c \<longrightarrow>
        length c = length p + VOIP_TAG_LEN \<and> aead_open A k n a c = Some p) \<and>
     (\<forall>k n a p c. aead_open A k n a c = Some p \<longrightarrow> aead_seal A k n a p = Some c)"

definition aead_encrypt :: "aead \<Rightarrow> bytes \<Rightarrow> bytes \<Rightarrow> bytes \<Rightarrow> bytes \<Rightarrow> bytes res" where
  "aead_encrypt A key nonce aad plaintext =
     (case aead_seal A key nonce aad plaintext of
        None \<Rightarrow> Inl ''AEAD encrypt failed: aead::Error''
      | Some ct \<Rightarrow> Inr ct)"

definition aead_decrypt :: "aead \<Rightarrow> bytes \<Rightarrow> bytes \<Rightarrow> bytes \<Rightarrow> bytes \<Rightarrow> bytes res" where
  "aead_decrypt A key nonce aad ciphertext =
     (if length ciphertext < VOIP_TAG_LEN then Inl ''VoIP ciphertext shorter than Poly1305 tag''
      else case aead_open A key nonce aad ciphertext of
             None \<Rightarrow> Inl ''VoIP AEAD decrypt failed''
           | Some p \<Rightarrow> Inr p)"

lemma aead_okD:
  assumes "aead_ok A"
  shows "length p < 2 ^ 32 \<Longrightarrow> aead_seal A k n a p \<noteq> None"
    and "aead_seal A k n a p = Some c \<Longrightarrow> length c = length p + VOIP_TAG_LEN"
    and "aead_open A k n a c = Some p \<longleftrightarrow> aead_seal A k n a p = Some c"
  using assms unfolding aead_ok_def by blast+

lemma aead_encrypt_iff: "aead_encrypt A k n a p = Inr c \<longleftrightarrow> aead_seal A k n a p = Some c"
  by (simp add: aead_encrypt_def split: option.split)

lemma aead_decrypt_iff:
  assumes "aead_ok A"
  shows "aead_decrypt A k n a c = Inr p \<longleftrightarrow> aead_encrypt A k n a p = Inr c"
proof -
  have "aead_decrypt A k n a c = Inr p
      \<longleftrightarrow> VOIP_TAG_LEN \<le> length c \<and> aead_open A k n a c = Some p"
    by (auto simp: aead_decrypt_def split: option.split)
  then show ?thesis
    using aead_okD(2,3) [OF assms] by (auto simp: aead_encrypt_iff)
qed

lemma aead_encrypt_length:
  "aead_ok A \<Longrightarrow> aead_encrypt A k n a p = Inr c \<Longrightarrow> length c = length p + VOIP_TAG_LEN"
  by (simp add: aead_encrypt_iff aead_okD(2))

lemma aead_encrypt_total:
  "aead_ok A \<Longrightarrow> length p < 2 ^ 32 \<Longrightarrow> \<exists>c. aead_encrypt A k n a p = Inr c"
  using aead_okD(1) by (fastforce simp: aead_encrypt_iff)

text \<open>
  A concrete AEAD and HKDF for witnesses: the tag is a fixed function of all inputs of at most
  sixteen bytes, padded; no secrecy, but the laws above hold.
\<close>

definition demo_seal :: "bytes \<Rightarrow> bytes \<Rightarrow> bytes \<Rightarrow> bytes \<Rightarrow> bytes option" where
  "demo_seal k n a p = Some (p @ take 16 (n @ k @ replicate 16 0))"

definition demo_open :: "bytes \<Rightarrow> bytes \<Rightarrow> bytes \<Rightarrow> bytes \<Rightarrow> bytes option" where
  "demo_open k n a c =
     (let p = take (length c - 16) c in if demo_seal k n a p = Some c then Some p else None)"

definition demo_aead :: aead where
  "demo_aead = \<lparr>aead_seal = demo_seal, aead_open = demo_open\<rparr>"

lemma demo_aead_ok: "aead_ok demo_aead"
  by (auto simp: aead_ok_def demo_aead_def demo_seal_def demo_open_def VOIP_TAG_LEN_def Let_def
      split: if_splits)

definition demo_hkdf :: hkdf where
  "demo_hkdf salt ikm info = take 32 (info @ 1 # replicate 32 0)"

lemma zeros: "x @ 1 # y \<noteq> replicate n (0 :: byte)"
proof
  assume "x @ 1 # y = replicate n (0 :: byte)"
  then have "1 \<in> set (replicate n (0 :: byte))" by (metis in_set_conv_decomp)
  then show False by simp
qed

lemma padded_inj: "x @ 1 # replicate m 0 = y @ 1 # replicate n (0 :: byte) \<Longrightarrow> x = y"
proof (induction x arbitrary: y)
  case Nil
  show ?case
  proof (cases y)
    case (Cons b z)
    with Nil have "replicate m 0 = z @ 1 # replicate n 0" by simp
    then show ?thesis using zeros [of z "replicate n 0" m] by metis
  qed simp
next
  case (Cons b x)
  show ?case
  proof (cases y)
    case Nil
    with Cons.prems have "x @ 1 # replicate m 0 = replicate n 0" by simp
    then show ?thesis using zeros [of x "replicate m 0" n] by metis
  qed (use Cons in auto)
qed

lemma demo_hkdf_ok: "hkdf_ok demo_hkdf"
proof -
  have out: "demo_hkdf salt ikm x = x @ 1 # replicate (31 - length x) 0" if "length x < 32" for salt ikm x
  proof -
    have "32 - length x = Suc (31 - length x)" using that by simp
    then show ?thesis using that by (simp add: demo_hkdf_def min_def)
  qed
  have "x = y" if "length x < 32" "length y < 32" "demo_hkdf salt ikm x = demo_hkdf salt ikm y" for salt ikm x y
    using that(3) unfolding out [OF that(1)] out [OF that(2)] by (rule padded_inj)
  then show ?thesis by (auto simp: hkdf_ok_def VOIP_KEY_LEN_def) (simp add: demo_hkdf_def)
qed

section \<open>Properties\<close>

text \<open>
  C31. The two sides of a call derive mirrored keys for each stream: what one side sends with is
  what the other receives with, so the peers agree without further messages; and the four keys of
  a call (voice and video, both directions) are pairwise different, because the labels are: the law
  assumed of HKDF knows nothing of the labels, it only says that it does not collide on short ones.
\<close>

theorem session_keys_mirror:
  assumes "hkdf_ok H"
  shows "tx (for_stream (derive_stream_keys H m sid r) s)
           = rx (for_stream (derive_stream_keys H m sid (peer_role r)) s)
         \<and> tx (for_stream (derive_stream_keys H m sid r) s)
             \<noteq> rx (for_stream (derive_stream_keys H m sid r) t)
         \<and> (s \<noteq> t \<longrightarrow> tx (for_stream (derive_stream_keys H m sid r) s)
             \<noteq> tx (for_stream (derive_stream_keys H m sid r) t))"
  using hkdf_labels_apart [OF assms] by (cases r; simp add: derive_session_keys_def)

theorem session_keys_mirror_witness:
  "tx (for_stream (derive_stream_keys demo_hkdf [1] [2] Initiator) Voice)
     = rx (for_stream (derive_stream_keys demo_hkdf [1] [2] Responder) Voice) \<and>
   tx (for_stream (derive_stream_keys demo_hkdf [1] [2] Initiator) Voice)
     \<noteq> tx (for_stream (derive_stream_keys demo_hkdf [1] [2] Initiator) Video)"
  using session_keys_mirror [OF demo_hkdf_ok, of "[1]" "[2]" Initiator Voice Video]
  unfolding peer_role.simps by (metis stream_id.distinct(1))

text \<open>
  The nonce never repeats for one key: two packets get the same 96-bit nonce only if stream,
  direction and sequence number all agree, for every value of the 64-bit counter.
\<close>

lemma build_nonce_unique:
  "build_nonce s d q = build_nonce s' d' q' \<longleftrightarrow> (s, d, q) = (s', d', q')"
  by (simp add: build_nonce_inj)

end
