(* ===== verification/Guards.thy ===== *)
theory Guards
  imports Prelude
begin

text \<open>
  The contract that every replay filter of the program provides (the sliding window of a call, the
  nonce table of the admin interface): a stateful predicate that accepts an input or rejects it.
  \<open>blocked s\<close> is the set of keys that state \<open>s\<close> refuses; accepting a key blocks it, and nothing
  blocked is ever released. What is proved here holds for every filter that is interpreted.
\<close>

fun guard_run :: "('s \<Rightarrow> 'i \<Rightarrow> bool \<times> 's) \<Rightarrow> 's \<Rightarrow> 'i list \<Rightarrow> 'i list \<times> 's" where
  "guard_run step s [] = ([], s)"
| "guard_run step s (x # xs) =
     (case step s x of (ok, s') \<Rightarrow>
        (case guard_run step s' xs of (acc, s'') \<Rightarrow> (if ok then x # acc else acc, s'')))"

abbreviation accepted :: "('s \<Rightarrow> 'i \<Rightarrow> bool \<times> 's) \<Rightarrow> 's \<Rightarrow> 'i list \<Rightarrow> 'i list" where
  "accepted step s xs \<equiv> fst (guard_run step s xs)"

lemma guard_run_snoc:
  "guard_run step s (xs @ [x]) = (case guard_run step s xs of (acc, s') \<Rightarrow>
     (case step s' x of (ok, s'') \<Rightarrow> (if ok then acc @ [x] else acc, s'')))"
  by (induction xs arbitrary: s) (auto split: prod.splits)

locale replay_guard =
  fixes step :: "'s \<Rightarrow> 'i \<Rightarrow> bool \<times> 's"
    and key :: "'i \<Rightarrow> 'k"
    and blocked :: "'s \<Rightarrow> 'k set"
    and inv :: "'s \<Rightarrow> bool"
  assumes step_inv: "inv s \<Longrightarrow> inv (snd (step s x))"
    and accept_fresh: "inv s \<Longrightarrow> fst (step s x) \<Longrightarrow> key x \<notin> blocked s"
    and accept_blocks: "inv s \<Longrightarrow> fst (step s x) \<Longrightarrow> key x \<in> blocked (snd (step s x))"
    and step_keeps: "inv s \<Longrightarrow> blocked s \<subseteq> blocked (snd (step s x))"
begin

lemma run_inv: "inv s \<Longrightarrow> inv (snd (guard_run step s xs))"
proof (induction xs arbitrary: s)
  case (Cons x xs)
  from Cons.IH [OF step_inv [OF Cons.prems, of x]] show ?case by (auto split: prod.splits)
qed simp

lemma accepted_not_blocked: "inv s \<Longrightarrow> x \<in> set (accepted step s xs) \<Longrightarrow> key x \<notin> blocked s"
proof (induction xs arbitrary: s)
  case (Cons y ys)
  obtain ok s' where st: "step s y = (ok, s')" by fastforce
  then have s': "inv s'" "blocked s \<subseteq> blocked s'"
    using step_inv [OF Cons.prems(1), of y] step_keeps [OF Cons.prems(1), of y] by auto
  from Cons.prems(2) st have "x = y \<and> ok \<or> x \<in> set (accepted step s' ys)"
    by (auto split: prod.splits if_splits)
  then show ?case
    using accept_fresh [OF Cons.prems(1), of y] st Cons.IH [OF s'(1)] s'(2) by auto
qed simp

text \<open>No key is accepted twice, whatever the inputs are and however they are ordered.\<close>

lemma accepted_distinct: "inv s \<Longrightarrow> distinct (map key (accepted step s xs))"
proof (induction xs arbitrary: s)
  case (Cons y ys)
  obtain ok s' where st: "step s y = (ok, s')" by fastforce
  have s': "inv s'" using step_inv [OF Cons.prems, of y] st by simp
  have "key y \<notin> key ` set (accepted step s' ys)" if ok
    using accept_blocks [OF Cons.prems, of y] st that accepted_not_blocked [OF s'] by auto
  with Cons.IH [OF s'] st show ?case by (auto split: prod.splits)
qed simp

lemma blocked_after_run: "inv s \<Longrightarrow> x \<in> set (accepted step s xs)
    \<Longrightarrow> key x \<in> blocked (snd (guard_run step s xs))"
proof (induction xs arbitrary: s)
  case (Cons y ys)
  obtain ok s' where st: "step s y = (ok, s')" by fastforce
  have s': "inv s'" using step_inv [OF Cons.prems(1), of y] st by simp
  have mono: "blocked t \<subseteq> blocked (snd (guard_run step t zs))" if "inv t" for t zs
    using that
  proof (induction zs arbitrary: t)
    case (Cons z zs)
    then show ?case
      using step_keeps [of t z] step_inv [of t z] by (fastforce split: prod.splits)
  qed simp
  from Cons.prems(2) st consider "x = y" ok | "x \<in> set (accepted step s' ys)"
    by (auto split: prod.splits if_splits)
  then show ?case
  proof cases
    case 1
    then show ?thesis
      using accept_blocks [OF Cons.prems(1), of y] st mono [OF s', of ys]
      by (auto split: prod.splits)
  next
    case 2
    then show ?thesis using Cons.IH [OF s'] st by (auto split: prod.splits)
  qed
qed simp

end

end
