(* ===== verification/Voip_Packet.thy ===== *)
theory Voip_Packet
  imports Voip_Crypto Guards
begin

text \<open>
  The media packet of a call (\<open>ParanoiaLibrary/src/voip/packet.rs\<close>): the 16-byte header and its
  decoder, sealing and opening of a packet, and the 64-packet replay window.
\<close>

section \<open>Header\<close>

definition VOIP_HEADER_LEN :: nat where "VOIP_HEADER_LEN = 16"
definition VOIP_VERSION :: byte where "VOIP_VERSION = 1"
definition COMFORT_NOISE :: byte where "COMFORT_NOISE = 1"
definition FRAME_START :: byte where "FRAME_START = 2"
definition RESERVED_MASK :: byte where "RESERVED_MASK = NOT (COMFORT_NOISE OR FRAME_START)"

record voip_header =
  version :: byte
  header_stream :: stream_id
  flags :: byte
  sequence :: u64
  rtp_timestamp :: u32

definition new_header :: "stream_id \<Rightarrow> u64 \<Rightarrow> u32 \<Rightarrow> byte \<Rightarrow> voip_header" where
  "new_header stream s ts fl =
     \<lparr>version = VOIP_VERSION, header_stream = stream, flags = fl, sequence = s, rtp_timestamp = ts\<rparr>"

definition encode_header :: "voip_header \<Rightarrow> bytes" where
  "encode_header h =
     [version h, stream_as_byte (header_stream h), flags h, 0]
     @ u64_to_be (sequence h) @ u32_to_be (rtp_timestamp h)"

definition hex_digit :: "nat \<Rightarrow> char" where
  "hex_digit n = (if n < 10 then char_of (48 + n) else char_of (87 + n))"

definition show_hex_byte :: "byte \<Rightarrow> string" where
  "show_hex_byte b = ''0x'' @ [hex_digit (unat b div 16), hex_digit (unat b mod 16)]"

definition decode_header :: "bytes \<Rightarrow> voip_header res" where
  "decode_header bs =
     (if length bs < VOIP_HEADER_LEN then Inl ''VoIP packet shorter than header''
      else if bs ! 0 \<noteq> VOIP_VERSION then
        Inl (''Unsupported VoIP version: '' @ show_nat (unat (bs ! 0)))
      else try_then
        (if bs ! 1 = 0 then Inr Voice
         else if bs ! 1 = 1 then Inr Video
         else Inl (''Unknown VoIP stream id: '' @ show_nat (unat (bs ! 1))))
        (\<lambda>stream.
          if bs ! 2 AND RESERVED_MASK \<noteq> 0 then
            Inl (''Reserved VoIP flag bits set: '' @ show_hex_byte (bs ! 2))
          else if bs ! 3 \<noteq> 0 then Inl ''Reserved VoIP header byte non-zero''
          else Inr \<lparr>version = bs ! 0, header_stream = stream, flags = bs ! 2,
                 sequence = u64_from_be (take 8 (drop 4 bs)),
                 rtp_timestamp = u32_from_be (bs ! 12) (bs ! 13) (bs ! 14) (bs ! 15)\<rparr>))"

definition header_ok :: "voip_header \<Rightarrow> bool" where
  "header_ok h \<longleftrightarrow> version h = VOIP_VERSION \<and> flags h AND RESERVED_MASK = 0"

lemma length_encode_header [simp]: "length (encode_header h) = VOIP_HEADER_LEN"
  by (simp add: encode_header_def VOIP_HEADER_LEN_def)

lemma decode_encode_header:
  assumes "header_ok h"
  shows "decode_header (encode_header h @ rest) = Inr h"
proof -
  let ?bs = "encode_header h @ rest"
  have bytes: "?bs ! 0 = version h" "?bs ! 1 = stream_as_byte (header_stream h)"
    "?bs ! 2 = flags h" "?bs ! 3 = 0"
    "u32_from_be (?bs ! 12) (?bs ! 13) (?bs ! 14) (?bs ! 15) = rtp_timestamp h"
    by (simp_all add: encode_header_def nth_append codec_simps)
  have seq: "u64_from_be (take 8 (drop 4 ?bs)) = sequence h"
    by (simp add: encode_header_def u64_be_roundtrip del: u64_to_be.simps)
  show ?thesis
    using assms unfolding decode_header_def bytes seq header_ok_def
    by (cases "header_stream h") (simp_all add: VOIP_HEADER_LEN_def)
qed

lemma decode_header_sound:
  assumes "decode_header bs = Inr h"
  shows "header_ok h \<and> encode_header h = take VOIP_HEADER_LEN bs"
proof -
  from assms have len: "16 \<le> length bs" and v: "bs ! 0 = VOIP_VERSION" and r: "bs ! 3 = 0"
    and fl: "bs ! 2 AND RESERVED_MASK = 0"
    and st: "stream_as_byte (header_stream h) = bs ! 1"
    and h: "version h = bs ! 0" "flags h = bs ! 2" "sequence h = u64_from_be (take 8 (drop 4 bs))"
      "rtp_timestamp h = u32_from_be (bs ! 12) (bs ! 13) (bs ! 14) (bs ! 15)"
    by (auto simp: decode_header_def VOIP_HEADER_LEN_def try_then_Inr_iff split: if_splits)
  have seq: "u64_to_be (sequence h) = take 8 (drop 4 bs)"
    using be64.dec_sound [of "take 8 (drop 4 bs)" "sequence h"] len h(3)
    by (simp del: u64_to_be.simps)
  have ts: "u32_to_be (rtp_timestamp h) = [bs ! 12, bs ! 13, bs ! 14, bs ! 15]"
    unfolding h(4) u32_from_be_def by (auto intro!: bit_word_eqI simp: bit_simps)
  have "take 16 bs = map ((!) bs) [0..<16]"
    using take_drop_map_nth [of 0 16 bs] len by simp
  moreover have "take 8 (drop 4 bs) = map ((!) bs) [4..<12]"
    using take_drop_map_nth [of 4 8 bs] len by simp
  ultimately have "encode_header h = take 16 bs"
    unfolding encode_header_def seq ts using st r by (simp add: h upt_rec numeral_eq_Suc)
  with v fl h show ?thesis by (simp add: header_ok_def VOIP_HEADER_LEN_def)
qed

interpretation header_codec: strict_codec encode_header
  "\<lambda>bs. if length bs = VOIP_HEADER_LEN then (case decode_header bs of Inl _ \<Rightarrow> None | Inr h \<Rightarrow> Some h) else None"
  header_ok
  using decode_encode_header [where rest = "[]"]
  by unfold_locales (auto split: if_splits sum.splits dest: decode_header_sound)

section \<open>Sealing and opening packets\<close>

definition pack :: "aead \<Rightarrow> voip_header \<Rightarrow> bytes \<Rightarrow> direction \<Rightarrow> bytes \<Rightarrow> bytes res" where
  "pack A header key dir opus =
     (let header_bytes = encode_header header;
          nonce = build_nonce (header_stream header) dir (sequence header)
      in try_then (aead_encrypt A key nonce header_bytes opus) (\<lambda>ct. Inr (header_bytes @ ct)))"

definition unpack :: "aead \<Rightarrow> bytes \<Rightarrow> bytes \<Rightarrow> direction \<Rightarrow> (voip_header \<times> bytes) res" where
  "unpack A bs key dir =
     (if length bs < VOIP_HEADER_LEN + VOIP_TAG_LEN then Inl ''VoIP packet too short''
      else try_then (decode_header (take VOIP_HEADER_LEN bs)) (\<lambda>header.
        let nonce = build_nonce (header_stream header) dir (sequence header)
        in try_then (aead_decrypt A key nonce (take VOIP_HEADER_LEN bs) (drop VOIP_HEADER_LEN bs))
             (\<lambda>plain. Inr (header, plain))))"

lemma unpack_iff_pack:
  assumes A: "aead_ok A"
  shows "unpack A bs key dir = Inr (h, p) \<longleftrightarrow> header_ok h \<and> pack A h key dir p = Inr bs"
proof
  assume "unpack A bs key dir = Inr (h, p)"
  then have dec: "decode_header (take VOIP_HEADER_LEN bs) = Inr h"
    and ct: "aead_decrypt A key (build_nonce (header_stream h) dir (sequence h))
      (take VOIP_HEADER_LEN bs) (drop VOIP_HEADER_LEN bs) = Inr p"
    by (auto simp: unpack_def try_then_Inr_iff Let_def split: if_splits)
  from dec have h: "header_ok h" "encode_header h = take VOIP_HEADER_LEN bs"
    using decode_header_sound by fastforce+
  with ct show "header_ok h \<and> pack A h key dir p = Inr bs"
    by (simp add: pack_def aead_decrypt_iff [OF A] Let_def)
next
  assume a: "header_ok h \<and> pack A h key dir p = Inr bs"
  then obtain ct where ct: "aead_encrypt A key (build_nonce (header_stream h) dir (sequence h))
      (encode_header h) p = Inr ct" and bs: "bs = encode_header h @ ct"
    by (auto simp: pack_def try_then_Inr_iff Let_def)
  have "length ct = length p + VOIP_TAG_LEN"
    by (rule aead_encrypt_length [OF A ct])
  with a show "unpack A bs key dir = Inr (h, p)"
    using decode_encode_header [of h "[]"] aead_decrypt_iff [OF A, THEN iffD2, OF ct]
    by (simp add: unpack_def bs Let_def)
qed

section \<open>Replay window\<close>

record replay_window =
  highest :: u64
  bitmap :: u64
  seen_any :: bool

definition new_window :: replay_window where
  "new_window = \<lparr>highest = 0, bitmap = 0, seen_any = False\<rparr>"

definition check_and_update :: "replay_window \<Rightarrow> u64 \<Rightarrow> bool \<times> replay_window" where
  "check_and_update w s =
     (if \<not> seen_any w then (True, w\<lparr>seen_any := True, highest := s, bitmap := 1\<rparr>)
      else if s > highest w then
        (let shift = s - highest w;
             bm = (if shift \<ge> 64 then 1 else push_bit (unat shift) (bitmap w) OR 1)
         in (True, w\<lparr>bitmap := bm, highest := s\<rparr>))
      else
        (let delta = highest w - s in
           if delta \<ge> 64 then (False, w)
           else let mask = push_bit (unat delta) 1 in
             if bitmap w AND mask \<noteq> 0 then (False, w)
             else (True, w\<lparr>bitmap := bitmap w OR mask\<rparr>)))"

definition highest_seen :: "replay_window \<Rightarrow> u64 option" where
  "highest_seen w = (if seen_any w then Some (highest w) else None)"

text \<open>
  The specification: the numbers accepted so far, as a set. A number is accepted when it is new
  and less than 64 below the largest one.
\<close>

definition window_spec :: "nat set \<Rightarrow> nat \<Rightarrow> bool" where
  "window_spec A n \<longleftrightarrow> A = {} \<or> n \<notin> A \<and> Max A < n + 64"

definition window_rel :: "replay_window \<Rightarrow> nat set \<Rightarrow> bool" where
  "window_rel w A \<longleftrightarrow> finite A \<and> (seen_any w \<longleftrightarrow> A \<noteq> {}) \<and>
     (A \<noteq> {} \<longrightarrow> unat (highest w) = Max A \<and>
        (\<forall>i < 64. bit (bitmap w) i \<longleftrightarrow> (\<exists>a \<in> A. a + i = Max A)))"

definition window_blocked :: "replay_window \<Rightarrow> u64 set" where
  "window_blocked w =
     {s. seen_any w \<and> s \<le> highest w \<and> (64 \<le> highest w - s \<or> bit (bitmap w) (unat (highest w - s)))}"

lemma and_mask_iff: "b AND 2 ^ n = 0 \<longleftrightarrow> \<not> bit b n" for b :: u64
proof
  assume "b AND 2 ^ n = 0"
  then have "\<not> bit (b AND push_bit n 1) n" by (simp add: push_bit_of_1)
  then show "\<not> bit b n" by (auto simp: bit_simps dest: bit_imp_le_length)
next
  assume "\<not> bit b n"
  then have "b AND push_bit n 1 = 0" by (auto intro!: bit_word_eqI simp: bit_simps)
  then show "b AND 2 ^ n = 0" by (simp add: push_bit_of_1)
qed

lemma window_refines_newer:
  assumes rel: "window_rel w A" and ne: "A \<noteq> {}" and gt: "s > highest w"
    and d: "d = unat (s - highest w)"
  shows "unat s \<notin> A \<and> Max A < unat s \<and>
    window_rel (w\<lparr>bitmap := (if 64 \<le> d then 1 else push_bit d (bitmap w) OR 1), highest := s\<rparr>)
      (insert (unat s) A)"
proof -
  from rel ne have fin: "finite A" and H: "unat (highest w) = Max A" and seen: "seen_any w"
    and bm: "\<And>i. i < 64 \<Longrightarrow> bit (bitmap w) i \<longleftrightarrow> (\<exists>a \<in> A. a + i = Max A)"
    by (auto simp: window_rel_def)
  have le: "a \<le> Max A" if "a \<in> A" for a using fin that by simp
  have S: "Max A < unat s" using gt H by (simp add: word_less_nat_alt)
  have d': "d = unat s - Max A" "0 < d"
    using gt H S by (auto simp: d unat_sub less_imp_le)
  have Max': "Max (insert (unat s) A) = unat s"
    using Max_insert [OF fin ne, of "unat s"] S by simp
  have "bit (if 64 \<le> d then 1 else push_bit d (bitmap w) OR 1) i
      \<longleftrightarrow> (\<exists>a \<in> insert (unat s) A. a + i = unat s)" if i: "i < 64" for i
  proof (cases "i = 0")
    case False
    have "a + i = unat s \<longleftrightarrow> d \<le> i \<and> a + (i - d) = Max A" if "a \<in> A" for a
      using le [OF that] d' S by arith
    then have "(\<exists>a \<in> insert (unat s) A. a + i = unat s) \<longleftrightarrow> d \<le> i \<and> (\<exists>a \<in> A. a + (i - d) = Max A)"
      using False by simp
    also have "\<dots> \<longleftrightarrow> bit (if 64 \<le> d then 1 else push_bit d (bitmap w) OR 1) i"
      using i False bm [of "i - d"] by (auto simp: bit_simps)
    finally show ?thesis by simp
  qed (auto simp: bit_simps)
  with fin S le seen Max' show ?thesis by (fastforce simp: window_rel_def)
qed

lemma window_refines_older:
  assumes rel: "window_rel w A" and ne: "A \<noteq> {}" and le: "s \<le> highest w"
    and d: "d = unat (highest w - s)"
  shows "d + unat s = Max A \<and> (d < 64 \<longrightarrow> (bit (bitmap w) d \<longleftrightarrow> unat s \<in> A) \<and>
    window_rel (w\<lparr>bitmap := bitmap w OR push_bit d 1\<rparr>) (insert (unat s) A))"
proof -
  from rel ne have fin: "finite A" and H: "unat (highest w) = Max A" and seen: "seen_any w"
    and bm: "\<And>i. i < 64 \<Longrightarrow> bit (bitmap w) i \<longleftrightarrow> (\<exists>a \<in> A. a + i = Max A)"
    by (auto simp: window_rel_def)
  have sH: "unat s \<le> Max A" using le H by (simp add: word_le_nat_alt)
  then have d': "d + unat s = Max A" using le H by (simp add: d unat_sub)
  have Max': "Max (insert (unat s) A) = Max A" using fin ne sH by (simp add: max_def)
  have "bit (bitmap w) d \<longleftrightarrow> unat s \<in> A" if "d < 64"
    using bm [OF that] d' by (metis add.commute add_right_cancel)
  moreover have "bit (bitmap w OR push_bit d 1) i \<longleftrightarrow> (\<exists>a \<in> insert (unat s) A. a + i = Max A)"
    if "i < 64" for i
    using that bm [of i] d' by (auto simp: bit_simps)
  ultimately show ?thesis using d' fin seen H Max' by (auto simp: window_rel_def)
qed

lemma window_refines:
  assumes rel: "window_rel w A" and step: "check_and_update w s = (ok, w')"
  shows "ok = window_spec A (unat s) \<and> window_rel w' (if ok then insert (unat s) A else A)"
proof (cases "seen_any w")
  case False
  with assms show ?thesis
    by (auto simp: check_and_update_def window_rel_def window_spec_def bit_1_iff)
next
  case True
  with rel have ne: "A \<noteq> {}" by (simp add: window_rel_def)
  show ?thesis
  proof (cases "s > highest w")
    case gt: True
    define d where "d = unat (s - highest w)"
    have "64 \<le> s - highest w \<longleftrightarrow> 64 \<le> d" by (simp add: d_def word_le_nat_alt)
    with step gt True have "ok" "w' = w\<lparr>bitmap := (if 64 \<le> d then 1 else push_bit d (bitmap w) OR 1),
        highest := s\<rparr>"
      by (auto simp: check_and_update_def Let_def d_def split: if_splits)
    with window_refines_newer [OF rel ne gt d_def] show ?thesis by (simp add: window_spec_def)
  next
    case le: False
    define d where "d = unat (highest w - s)"
    have d64: "64 \<le> highest w - s \<longleftrightarrow> 64 \<le> d" by (simp add: d_def word_le_nat_alt)
    have old: "d + unat s = Max A" "d < 64 \<Longrightarrow> bit (bitmap w) d \<longleftrightarrow> unat s \<in> A"
      "d < 64 \<Longrightarrow> window_rel (w\<lparr>bitmap := bitmap w OR push_bit d 1\<rparr>) (insert (unat s) A)"
      using window_refines_older [OF rel ne _ d_def] le by auto
    have "check_and_update w s =
        (if 64 \<le> d \<or> bit (bitmap w) d then (False, w)
         else (True, w\<lparr>bitmap := bitmap w OR push_bit d 1\<rparr>))"
      using le True by (auto simp: check_and_update_def Let_def d64 and_mask_iff simp flip: d_def)
    with step old rel ne show ?thesis
      by (auto simp: window_spec_def split: if_splits)
  qed
qed

lemma window_rel_new: "window_rel new_window {}"
  by (simp add: window_rel_def new_window_def)

definition window_inv :: "replay_window \<Rightarrow> bool" where
  "window_inv w \<longleftrightarrow> (\<exists>A. window_rel w A)"

lemma window_blocked_iff:
  assumes rel: "window_rel w A"
  shows "s \<in> window_blocked w \<longleftrightarrow> A \<noteq> {} \<and> unat s \<le> Max A \<and> \<not> window_spec A (unat s)"
proof (cases "A \<noteq> {} \<and> unat s \<le> Max A")
  case True
  with rel have H: "unat (highest w) = Max A" and seen: "seen_any w"
    and bm: "\<And>i. i < 64 \<Longrightarrow> bit (bitmap w) i \<longleftrightarrow> (\<exists>a \<in> A. a + i = Max A)"
    by (auto simp: window_rel_def)
  from True H have le: "s \<le> highest w" by (simp add: word_le_nat_alt)
  then have d: "unat (highest w - s) + unat s = Max A" using H True by (simp add: unat_sub)
  have "64 \<le> highest w - s \<longleftrightarrow> unat s + 64 \<le> Max A" using d by (simp add: word_le_nat_alt) arith
  moreover have "bit (bitmap w) (unat (highest w - s)) \<longleftrightarrow> unat s \<in> A"
    if "Max A < unat s + 64"
    using bm [of "unat (highest w - s)"] d that
    by (metis add.commute add_less_cancel_right add_right_cancel)
  ultimately show ?thesis using True seen le by (auto simp: window_blocked_def window_spec_def not_less)
next
  case False
  with rel show ?thesis by (auto simp: window_blocked_def window_rel_def word_le_nat_alt)
qed

interpretation rw: replay_guard check_and_update "\<lambda>s. s" window_blocked window_inv
proof unfold_locales
  fix w s assume "window_inv w"
  then obtain A where rel: "window_rel w A" by (auto simp: window_inv_def)
  obtain ok w' where st: "check_and_update w s = (ok, w')" by fastforce
  note ref = window_refines [OF rel st]
  define A' where "A' = (if ok then insert (unat s) A else A)"
  have rel': "window_rel w' A'" using ref unfolding A'_def by (rule conjunct2)
  show "window_inv (snd (check_and_update w s))" using st rel' by (auto simp: window_inv_def)
  show "s \<notin> window_blocked w" if "fst (check_and_update w s)"
    using that st ref by (simp add: window_blocked_iff [OF rel])
  have fin: "finite A" using rel by (simp add: window_rel_def)
  show "s \<in> window_blocked (snd (check_and_update w s))" if "fst (check_and_update w s)"
    using that st fin by (auto simp: window_blocked_iff [OF rel'] A'_def window_spec_def)
  have mono: "Max A \<le> Max A'" if "A \<noteq> {}"
    using fin that by (auto simp: A'_def intro: Max_mono)
  show "window_blocked w \<subseteq> window_blocked (snd (check_and_update w s))"
  proof
    fix t assume "t \<in> window_blocked w"
    then have t: "A \<noteq> {}" "unat t \<le> Max A" "\<not> window_spec A (unat t)"
      by (simp_all add: window_blocked_iff [OF rel])
    then have "A' \<noteq> {}" "unat t \<le> Max A'" using mono by (auto simp: A'_def)
    moreover have "\<not> window_spec A' (unat t)"
      using t mono by (auto simp: window_spec_def A'_def)
    ultimately show "t \<in> window_blocked (snd (check_and_update w s))"
      using st by (simp add: window_blocked_iff [OF rel'])
  qed
qed

section \<open>Properties\<close>

fun spec_accepted :: "nat set \<Rightarrow> u64 list \<Rightarrow> u64 list" where
  "spec_accepted A [] = []"
| "spec_accepted A (s # ss) =
     (if window_spec A (unat s) then s # spec_accepted (insert (unat s) A) ss
      else spec_accepted A ss)"

lemma accepted_refines_spec:
  "window_rel w A \<Longrightarrow> accepted check_and_update w ss = spec_accepted A ss"
proof (induction ss arbitrary: w A)
  case (Cons s ss)
  obtain ok w' where st: "check_and_update w s = (ok, w')" by fastforce
  from window_refines [OF Cons.prems st] have ok: "ok = window_spec A (unat s)"
    and rel: "window_rel w' (if ok then insert (unat s) A else A)" by auto
  from Cons.IH [OF rel] st ok show ?case by (simp add: case_prod_beta)
qed simp

text \<open>
  The header decoder is strict: it accepts a buffer exactly when the first 16 bytes are the
  encoding of the header it returns and that header is a valid one (version 1, no reserved bit).
\<close>

lemma decode_header_iff:
  "decode_header bs = Inr h \<longleftrightarrow>
     header_ok h \<and> VOIP_HEADER_LEN \<le> length bs \<and> take VOIP_HEADER_LEN bs = encode_header h"
proof
  assume a: "decode_header bs = Inr h"
  then have "VOIP_HEADER_LEN \<le> length bs" by (auto simp: decode_header_def split: if_splits)
  with decode_header_sound [OF a] show "header_ok h \<and> VOIP_HEADER_LEN \<le> length bs
    \<and> take VOIP_HEADER_LEN bs = encode_header h" by simp
next
  assume "header_ok h \<and> VOIP_HEADER_LEN \<le> length bs \<and> take VOIP_HEADER_LEN bs = encode_header h"
  then show "decode_header bs = Inr h"
    using decode_encode_header [of h "drop VOIP_HEADER_LEN bs"] by (metis append_take_drop_id)
qed

text \<open>
  C16. A receiver opens a datagram exactly when it is what a sender with the same key and direction
  packed from a valid header: the header is authenticated, nothing else is accepted, and what was
  packed comes back unchanged.
\<close>

theorem unpack_exactly_packed:
  assumes "aead_ok A"
  shows "unpack A bs key dir = Inr (h, p) \<longleftrightarrow> header_ok h \<and> pack A h key dir p = Inr bs"
  by (rule unpack_iff_pack [OF assms])

theorem unpack_exactly_packed_witness:
  "\<exists>bs. pack demo_aead (new_header Video 7 90000 FRAME_START) [1, 2] InitiatorToResponder [3, 4] = Inr bs
     \<and> unpack demo_aead bs [1, 2] InitiatorToResponder
         = Inr (new_header Video 7 90000 FRAME_START, [3, 4])"
proof -
  let ?h = "new_header Video 7 90000 FRAME_START"
  have "header_ok ?h"
    by (simp add: header_ok_def new_header_def FRAME_START_def RESERVED_MASK_def COMFORT_NOISE_def)
  moreover obtain bs where "pack demo_aead ?h [1, 2] InitiatorToResponder [3, 4] = Inr bs"
    by (simp add: pack_def Let_def aead_encrypt_def demo_aead_def demo_seal_def)
  ultimately show ?thesis
    using unpack_exactly_packed [OF demo_aead_ok, of bs "[1, 2]" InitiatorToResponder ?h "[3, 4]"]
    by blast
qed

text \<open>
  C17. The 64-bit bitmap window accepts exactly what its specification over the whole set of
  accepted numbers accepts (new, and less than 64 below the largest), for every order of arrival
  and every 64-bit number; so no sequence number is accepted twice in a call.
\<close>

theorem replay_window_correct:
  "accepted check_and_update new_window ss = spec_accepted {} ss
   \<and> distinct (accepted check_and_update new_window ss)"
  using accepted_refines_spec [OF window_rel_new, of ss]
    rw.accepted_distinct [of new_window ss] window_rel_new
  by (auto simp: window_inv_def)

end
