(* ===== verification/Voip_Nal.thy ===== *)
theory Voip_Nal
  imports Voip_Packet
begin

text \<open>
  Fragmentation of video frames into packets and their reassembly
  (\<open>ParanoiaLibrary/src/voip/nal.rs\<close>).
\<close>

section \<open>Fragmenter\<close>

definition MAX_DATAGRAM :: nat where "MAX_DATAGRAM = 1200"
definition FRAGMENT_END_BIT :: byte where "FRAGMENT_END_BIT = COMFORT_NOISE"
definition MAX_FRAGMENT_PAYLOAD :: nat where
  "MAX_FRAGMENT_PAYLOAD = MAX_DATAGRAM - VOIP_HEADER_LEN - VOIP_TAG_LEN"

record fragment_out =
  frag_header :: voip_header
  payload :: bytes

record fragmenter =
  frag_stream :: stream_id
  max_payload :: nat
  next_seq :: u64

definition new_fragmenter :: "stream_id \<Rightarrow> fragmenter" where
  "new_fragmenter s = \<lparr>frag_stream = s, max_payload = MAX_FRAGMENT_PAYLOAD, next_seq = 0\<rparr>"

text \<open>\<open>None\<close> is the panic of the assertion.\<close>

definition with_max_payload :: "fragmenter \<Rightarrow> nat \<Rightarrow> fragmenter option" where
  "with_max_payload f m = (if 0 < m then Some (f\<lparr>max_payload := m\<rparr>) else None)"

definition flag_bits :: "bool \<Rightarrow> bool \<Rightarrow> byte" where
  "flag_bits is_first is_last =
     (let fl = 0; fl = (if is_first then fl OR FRAME_START else fl)
      in if is_last then fl OR FRAGMENT_END_BIT else fl)"

text \<open>
  The loop of \<open>fragment\<close>. Both constructors leave \<open>max_payload\<close> positive, so the guard on it
  never stops the loop of the code.
\<close>

function fragment_loop :: "fragmenter \<Rightarrow> bytes \<Rightarrow> u32 \<Rightarrow> nat \<Rightarrow> fragment_out list \<times> fragmenter" where
  "fragment_loop f nal ts start =
     (if start < length nal \<and> 0 < max_payload f then
        (let stop = min (start + max_payload f) (length nal);
             header = new_header (frag_stream f) (next_seq f) ts (flag_bits (start = 0) (stop = length nal));
             out = \<lparr>frag_header = header, payload = take (stop - start) (drop start nal)\<rparr>;
             (rest, f') = fragment_loop (f\<lparr>next_seq := sat_add (next_seq f) 1\<rparr>) nal ts stop
         in (out # rest, f'))
      else ([], f))"
  by auto
termination by (relation "measure (\<lambda>(f, nal, ts, start). length nal - start)") auto

declare fragment_loop.simps [simp del]

definition fragment :: "fragmenter \<Rightarrow> bytes \<Rightarrow> u32 \<Rightarrow> fragment_out list \<times> fragmenter" where
  "fragment f nal ts = (if nal = [] then ([], f) else fragment_loop f nal ts 0)"

section \<open>Reassembler\<close>

record reassembler =
  current_ts :: "u32 option"
  buffer :: bytes
  expecting :: bool
  max_nal_size :: nat

definition new_reassembler :: reassembler where
  "new_reassembler =
     \<lparr>current_ts = None, buffer = [], expecting = False, max_nal_size = 4 * 1024 * 1024\<rparr>"

definition with_max_nal_size :: "reassembler \<Rightarrow> nat \<Rightarrow> reassembler" where
  "with_max_nal_size r m = r\<lparr>max_nal_size := m\<rparr>"

definition reassembler_reset :: "reassembler \<Rightarrow> reassembler" where
  "reassembler_reset r = r\<lparr>current_ts := None, buffer := [], expecting := False\<rparr>"

text \<open>The first part of \<open>push\<close>: a change of the timestamp hands out what was collected.\<close>

definition flush_on_change :: "reassembler \<Rightarrow> u32 \<Rightarrow> bytes option \<times> reassembler" where
  "flush_on_change r ts =
     (case current_ts r of
        Some prev \<Rightarrow>
          if ts \<noteq> prev then
            (if buffer r \<noteq> [] \<and> expecting r then Some (buffer r) else None,
             r\<lparr>buffer := [], expecting := False, current_ts := None\<rparr>)
          else (None, r)
      | None \<Rightarrow> (None, r))"

definition reassembler_push :: "reassembler \<Rightarrow> voip_header \<Rightarrow> bytes \<Rightarrow> bytes option \<times> reassembler" where
  "reassembler_push r0 header pl =
     (let ts = rtp_timestamp header;
          first = (flags header AND FRAME_START \<noteq> 0);
          last = (flags header AND FRAGMENT_END_BIT \<noteq> 0);
          (completed, r) = flush_on_change r0 ts
      in if \<not> first \<and> \<not> expecting r then (completed, r)
         else if \<not> first \<and> current_ts r = None then
           (completed, r\<lparr>buffer := [], expecting := False\<rparr>)
         else
           let r = (if first then r\<lparr>buffer := [], expecting := True, current_ts := Some ts\<rparr> else r)
           in if length (buffer r) + length pl > max_nal_size r then
                (completed, r\<lparr>buffer := [], expecting := False, current_ts := None\<rparr>)
              else if last then
                (Some (buffer r @ pl), r\<lparr>buffer := [], expecting := False, current_ts := None\<rparr>)
              else (completed, r\<lparr>buffer := buffer r @ pl\<rparr>))"

fun push_fragments :: "reassembler \<Rightarrow> fragment_out list \<Rightarrow> bytes option list \<times> reassembler" where
  "push_fragments r [] = ([], r)"
| "push_fragments r (f # fs) =
     (let (out, r') = reassembler_push r (frag_header f) (payload f);
          (outs, r'') = push_fragments r' fs
      in (out # outs, r''))"

section \<open>Fragments of one frame\<close>

lemma flag_bits_test [simp]:
  "flag_bits a b AND FRAME_START \<noteq> 0 \<longleftrightarrow> a" "flag_bits a b AND FRAGMENT_END_BIT \<noteq> 0 \<longleftrightarrow> b"
  "flag_bits a b AND RESERVED_MASK = 0"
  by (cases a; cases b; simp add: flag_bits_def FRAME_START_def FRAGMENT_END_BIT_def
      COMFORT_NOISE_def RESERVED_MASK_def Let_def)+

text \<open>
  What the fragmenter emits, without the loop: a fragment, whether it is the first, and the rest
  of the frame in consecutive chunks.
\<close>

fun chain_ok :: "u32 \<Rightarrow> bool \<Rightarrow> fragment_out list \<Rightarrow> bytes \<Rightarrow> bool" where
  "chain_ok ts first [] rest = False"
| "chain_ok ts first [f] rest \<longleftrightarrow> rtp_timestamp (frag_header f) = ts \<and>
     flags (frag_header f) = flag_bits first True \<and> payload f = rest"
| "chain_ok ts first (f # fs) rest \<longleftrightarrow> rtp_timestamp (frag_header f) = ts \<and>
     flags (frag_header f) = flag_bits first False \<and>
     (\<exists>rest'. rest = payload f @ rest' \<and> chain_ok ts False fs rest')"

lemma chain_ok_Cons:
  "fs \<noteq> [] \<Longrightarrow> chain_ok ts first (f # fs) rest \<longleftrightarrow> rtp_timestamp (frag_header f) = ts \<and>
     flags (frag_header f) = flag_bits first False \<and>
     (\<exists>rest'. rest = payload f @ rest' \<and> chain_ok ts False fs rest')"
  by (cases fs) auto

lemma fragment_loop_meta:
  "max_payload (snd (fragment_loop f nal ts start)) = max_payload f"
  by (induction f nal ts start rule: fragment_loop.induct)
    (subst fragment_loop.simps, auto simp: Let_def split: prod.splits)

lemma fragment_loop_chain:
  "start < length nal \<Longrightarrow> 0 < max_payload f \<Longrightarrow>
     chain_ok ts (start = 0) (fst (fragment_loop f nal ts start)) (drop start nal) \<and>
     fst (fragment_loop f nal ts start) \<noteq> []"
proof (induction f nal ts start rule: fragment_loop.induct)
  case (1 f nal ts start)
  let ?stop = "min (start + max_payload f) (length nal)"
  let ?f' = "f\<lparr>next_seq := sat_add (next_seq f) 1\<rparr>"
  let ?out = "\<lparr>frag_header = new_header (frag_stream f) (next_seq f) ts
      (flag_bits (start = 0) (?stop = length nal)), payload = take (?stop - start) (drop start nal)\<rparr>"
  have eq: "fst (fragment_loop f nal ts start) = ?out # fst (fragment_loop ?f' nal ts ?stop)"
    using 1(2,3) by (subst fragment_loop.simps) (simp add: Let_def case_prod_beta)
  show ?case
  proof (cases "?stop = length nal")
    case True
    then have "fst (fragment_loop ?f' nal ts ?stop) = []" by (subst fragment_loop.simps) simp
    with True show ?thesis unfolding eq by (simp add: new_header_def)
  next
    case False
    then have lt: "?stop < length nal" and pos: "?stop \<noteq> 0" using 1(2,3) by auto
    from 1(1) [OF _ refl refl refl lt] 1(2,3) pos
    have IH: "chain_ok ts False (fst (fragment_loop ?f' nal ts ?stop)) (drop ?stop nal)"
      "fst (fragment_loop ?f' nal ts ?stop) \<noteq> []" by auto
    have "drop start nal = take (?stop - start) (drop start nal) @ drop ?stop nal"
      using 1(2) lt by (metis append_take_drop_id drop_drop le_add_diff_inverse2 less_imp_le_nat
          min.bounded_iff trans_le_add1 order_refl)
    moreover have "start + max_payload f \<noteq> length nal" using lt by auto
    ultimately show ?thesis using IH False unfolding eq by (auto simp: chain_ok_Cons new_header_def)
  qed
qed

lemma fragment_chain:
  "nal \<noteq> [] \<Longrightarrow> 0 < max_payload f \<Longrightarrow> chain_ok ts True (fst (fragment f nal ts)) nal"
  using fragment_loop_chain [of 0 nal f ts] by (simp add: fragment_def)

text \<open>The packets of a frame: their payloads fit and their sequence numbers are consecutive.\<close>

lemma fragment_loop_packets:
  "(fs, f') = fragment_loop f nal ts start \<Longrightarrow> unat (next_seq f) + (length nal - start) < 2 ^ 64 \<Longrightarrow>
     (\<forall>x \<in> set fs. header_ok (frag_header x) \<and> length (payload x) \<le> max_payload f \<and>
        header_stream (frag_header x) = frag_stream f \<and> unat (next_seq f) \<le> unat (sequence (frag_header x)) \<and>
        unat (sequence (frag_header x)) < unat (next_seq f')) \<and>
     sorted_wrt (<) (map (sequence \<circ> frag_header) fs) \<and> unat (next_seq f) \<le> unat (next_seq f')"
proof (induction f nal ts start arbitrary: fs f' rule: fragment_loop.induct)
  case (1 f nal ts start)
  show ?case
  proof (cases "start < length nal \<and> 0 < max_payload f")
    case True
    let ?stop = "min (start + max_payload f) (length nal)"
    let ?g = "f\<lparr>next_seq := sat_add (next_seq f) 1\<rparr>"
    obtain gs g' where rec: "(gs, g') = fragment_loop ?g nal ts ?stop"
      by (metis surj_pair)
    have eq: "f' = g'" "fs = \<lparr>frag_header = new_header (frag_stream f) (next_seq f) ts
        (flag_bits (start = 0) (?stop = length nal)), payload = take (?stop - start) (drop start nal)\<rparr> # gs"
      using 1(2) True rec by (subst (asm) fragment_loop.simps, simp add: Let_def split: prod.splits)+
    have nxt: "unat (next_seq ?g) = Suc (unat (next_seq f))"
    proof -
      have "Suc (unat (next_seq f)) < 2 ^ 64" using 1(3) True by linarith
      then show ?thesis by (simp add: unat_sat_add)
    qed
    have "unat (next_seq ?g) + (length nal - ?stop) < 2 ^ 64"
      unfolding nxt using 1(3) True by auto
    note IH = 1(1) [OF True refl refl refl rec this]
    show ?thesis unfolding eq using IH nxt
      by (auto simp: header_ok_def new_header_def word_less_nat_alt Suc_le_eq)
  qed (use 1(2) in \<open>subst (asm) fragment_loop.simps, auto\<close>)
qed

section \<open>Reassembly of a chain\<close>

lemma push_chain_rest:
  "chain_ok ts False fs rest \<Longrightarrow> current_ts r = Some ts \<Longrightarrow> expecting r \<Longrightarrow>
   length (buffer r) + length rest \<le> max_nal_size r \<Longrightarrow>
   push_fragments r fs =
     (replicate (length fs - 1) None @ [Some (buffer r @ rest)], reassembler_reset r)"
proof (induction ts "False" fs rest arbitrary: r rule: chain_ok.induct)
  case (2 ts f rest)
  then show ?case
    by (simp add: reassembler_push_def flush_on_change_def reassembler_reset_def)
next
  case (3 ts f g gs rest)
  then obtain rest' where rest: "rest = payload f @ rest'" and ch: "chain_ok ts False (g # gs) rest'"
    by auto
  let ?r = "r\<lparr>buffer := buffer r @ payload f\<rparr>"
  have "reassembler_push r (frag_header f) (payload f) = (None, ?r)"
    using 3 rest by (simp add: reassembler_push_def flush_on_change_def)
  then show ?case
    using 3(1) [OF ch, of ?r] 3(3-5) rest by (simp add: reassembler_reset_def)
qed auto

lemma push_chain:
  assumes ch: "chain_ok ts True fs nal" and len: "length nal \<le> max_nal_size r"
  shows "push_fragments r fs =
    ((if length fs = 1 then [] else fst (flush_on_change r ts) # replicate (length fs - 2) None) @ [Some nal],
     reassembler_reset r)"
proof (cases fs)
  case (Cons f gs)
  obtain c r1 where fl: "flush_on_change r ts = (c, r1)" by fastforce
  have r1: "max_nal_size r1 = max_nal_size r" "reassembler_reset r1 = reassembler_reset r"
    using fl by (auto simp: flush_on_change_def reassembler_reset_def split: option.splits if_splits)
  show ?thesis
  proof (cases "gs = []")
    case True
    with ch len fl r1 show ?thesis
      by (simp add: Cons reassembler_push_def) (simp add: reassembler_reset_def)
  next
    case False
    with ch obtain rest where f: "rtp_timestamp (frag_header f) = ts"
        "flags (frag_header f) = flag_bits True False" and nal: "nal = payload f @ rest"
      and rest: "chain_ok ts False gs rest"
      by (auto simp: Cons chain_ok_Cons)
    let ?r = "r1\<lparr>buffer := payload f, expecting := True, current_ts := Some ts\<rparr>"
    have "reassembler_push r (frag_header f) (payload f) = (c, ?r)"
      using f len nal fl r1 by (simp add: reassembler_push_def)
    moreover have "push_fragments ?r gs = (replicate (length gs - 1) None @ [Some nal], reassembler_reset r1)"
      using push_chain_rest [OF rest, of ?r] len nal r1 by (simp add: reassembler_reset_def)
    ultimately show ?thesis using False fl r1 by (simp add: Cons)
  qed
qed (use ch in simp)

text \<open>The chain that is left when one fragment after the first and before the last is lost.\<close>

lemma chain_delete_rest:
  "chain_ok ts False fs rest \<Longrightarrow> Suc k < length fs \<Longrightarrow>
   chain_ok ts False (take k fs @ drop (Suc k) fs) (concat (map payload (take k fs @ drop (Suc k) fs)))"
proof (induction fs arbitrary: k rest)
  case (Cons f fs)
  then have ne: "fs \<noteq> []" by auto
  with Cons.prems(1) obtain rest' where ch: "chain_ok ts False fs rest'" "rest = payload f @ rest'"
    and f: "rtp_timestamp (frag_header f) = ts" "flags (frag_header f) = flag_bits False False"
    by (auto simp: chain_ok_Cons)
  show ?case
  proof (cases k)
    case 0
    have "chain_ok ts False xs r \<Longrightarrow> concat (map payload xs) = r" for xs r
      by (induction ts False xs r rule: chain_ok.induct) auto
    with 0 ch show ?thesis by simp
  next
    case (Suc j)
    with Cons.prems(2) have "take j fs @ drop (Suc j) fs \<noteq> []" by auto
    with Cons.IH [OF ch(1), of j] Cons.prems(2) Suc f show ?thesis by (simp add: chain_ok_Cons)
  qed
qed simp

lemma chain_delete:
  assumes ch: "chain_ok ts True fs nal" and k: "0 < k" "Suc k < length fs"
  shows "chain_ok ts True (take k fs @ drop (Suc k) fs) (concat (map payload (take k fs @ drop (Suc k) fs)))"
proof -
  obtain f gs where fs: "fs = f # gs" using k by (cases fs) auto
  obtain j where j: "k = Suc j" using k by (cases k) auto
  have "gs \<noteq> []" using k fs by auto
  with ch obtain rest' where "chain_ok ts False gs rest'"
    "rtp_timestamp (frag_header f) = ts" "flags (frag_header f) = flag_bits True False"
    by (auto simp: fs chain_ok_Cons)
  moreover from this chain_delete_rest [of ts gs rest' j] k
  have "chain_ok ts False (take j gs @ drop (Suc j) gs) (concat (map payload (take j gs @ drop (Suc j) gs)))"
    by (simp add: fs j)
  moreover have "take j gs @ drop (Suc j) gs \<noteq> []" using k fs j by auto
  ultimately show ?thesis by (simp add: fs j chain_ok_Cons)
qed

section \<open>Streams of frames\<close>

fun fragment_all :: "fragmenter \<Rightarrow> (bytes \<times> u32) list \<Rightarrow> fragment_out list \<times> fragmenter" where
  "fragment_all f [] = ([], f)"
| "fragment_all f ((nal, ts) # nals) =
     (let (fs, f') = fragment f nal ts; (gs, f'') = fragment_all f' nals in (fs @ gs, f''))"

definition received :: "bytes option list \<Rightarrow> bytes list" where
  "received outs = map the (filter (\<lambda>out. out \<noteq> None) outs)"

lemma received_simps [simp]:
  "received [] = []" "received (None # outs) = received outs"
  "received (Some b # outs) = b # received outs"
  "received (xs @ ys) = received xs @ received ys" "received (replicate n None) = []"
  by (auto simp: received_def)

lemma push_fragments_append:
  "push_fragments r (fs @ gs) =
     (let (outs, r') = push_fragments r fs; (outs', r'') = push_fragments r' gs in (outs @ outs', r''))"
  by (induction fs arbitrary: r) (auto simp: Let_def split: prod.splits)

lemma fragment_max_payload: "max_payload (snd (fragment f nal ts)) = max_payload f"
  by (simp add: fragment_def fragment_loop_meta)

lemma stream_roundtrip:
  "0 < max_payload f \<Longrightarrow> current_ts r = None \<Longrightarrow>
   (\<And>nal ts. (nal, ts) \<in> set nals \<Longrightarrow> nal \<noteq> [] \<and> length nal \<le> max_nal_size r) \<Longrightarrow>
   received (fst (push_fragments r (fst (fragment_all f nals)))) = map fst nals"
proof (induction nals arbitrary: f r)
  case (Cons x nals)
  obtain nal ts where x: "x = (nal, ts)" by fastforce
  obtain fs f' where fr: "fragment f nal ts = (fs, f')" by fastforce
  have nal: "nal \<noteq> []" "length nal \<le> max_nal_size r" using Cons.prems(3) x by auto
  have ch: "chain_ok ts True fs nal" using fragment_chain [OF nal(1) Cons.prems(1), of ts] fr by simp
  have push: "push_fragments r fs =
      ((if length fs = 1 then [] else None # replicate (length fs - 2) None) @ [Some nal], reassembler_reset r)"
    using push_chain [OF ch nal(2)] Cons.prems(2) by (simp add: flush_on_change_def)
  have f': "0 < max_payload f'" using fragment_max_payload [of f nal ts] fr Cons.prems(1) by simp
  have reset: "current_ts (reassembler_reset r) = None"
    "max_nal_size (reassembler_reset r) = max_nal_size r"
    by (simp_all add: reassembler_reset_def)
  have "received (fst (push_fragments (reassembler_reset r) (fst (fragment_all f' nals)))) = map fst nals"
    by (rule Cons.IH [OF f' reset(1)]) (use Cons.prems(3) in \<open>auto simp: reset\<close>)
  then show ?case
    by (simp add: x fr push push_fragments_append case_prod_beta)
qed simp

section \<open>Properties\<close>

text \<open>
  C27. A stream of video frames comes back frame by frame: when the packets arrive in order, the
  reassembler hands out exactly the frames that were fragmented, for every fragment size and every
  timestamps, as long as no frame is empty or larger than the receiver's limit.
\<close>

theorem nal_stream_roundtrip:
  assumes "with_max_payload f0 m = Some f" and "current_ts r = None"
    and "\<And>nal ts. (nal, ts) \<in> set nals \<Longrightarrow> nal \<noteq> [] \<and> length nal \<le> max_nal_size r"
  shows "received (fst (push_fragments r (fst (fragment_all f nals)))) = map fst nals"
  using stream_roundtrip [of f r nals] assms by (auto simp: with_max_payload_def split: if_splits)

theorem nal_stream_roundtrip_witness:
  "received (fst (push_fragments new_reassembler (fst (fragment_all
     ((new_fragmenter Video)\<lparr>max_payload := 2\<rparr>) [([1, 2, 3, 4, 5], 90), ([6], 180)])))) = [[1, 2, 3, 4, 5], [6]]"
  using nal_stream_roundtrip [of "new_fragmenter Video" 2 "(new_fragmenter Video)\<lparr>max_payload := 2\<rparr>"
      new_reassembler "[([1, 2, 3, 4, 5], 90), ([6], 180)]"]
  by (fastforce simp: with_max_payload_def new_reassembler_def)

text \<open>
  The packets of a frame are well formed: each has a valid header, its sealed datagram is at
  most \<open>MAX_DATAGRAM\<close> bytes, and the sequence numbers are distinct and follow the ones used
  before, so that no nonce is used twice (as long as the counter does not reach its end).
\<close>

lemma fragment_packets_ok:
  assumes "aead_ok A" and "fragment (new_fragmenter s\<lparr>next_seq := q\<rparr>) nal ts = (fs, f')"
    and "unat q + length nal < 2 ^ 64"
  shows "distinct (map (sequence \<circ> frag_header) fs) \<and>
    (\<forall>x \<in> set fs. header_ok (frag_header x) \<and> q \<le> sequence (frag_header x) \<and>
       (\<forall>key dir dg. pack A (frag_header x) key dir (payload x) = Inr dg \<longrightarrow> length dg \<le> MAX_DATAGRAM))"
proof (cases "nal = []")
  case False
  let ?f = "new_fragmenter s\<lparr>next_seq := q\<rparr>"
  have mp: "max_payload ?f = 1168"
    by (simp add: new_fragmenter_def MAX_FRAGMENT_PAYLOAD_def MAX_DATAGRAM_def VOIP_HEADER_LEN_def
        VOIP_TAG_LEN_def)
  from assms(2) False have "(fs, f') = fragment_loop ?f nal ts 0" by (simp add: fragment_def)
  from fragment_loop_packets [OF this] assms(3)
  have pk: "\<And>x. x \<in> set fs \<Longrightarrow> header_ok (frag_header x) \<and> length (payload x) \<le> 1168 \<and>
      q \<le> sequence (frag_header x)" "sorted_wrt (<) (map (sequence \<circ> frag_header) fs)"
    by (auto simp: mp word_le_nat_alt)
  have "length dg \<le> MAX_DATAGRAM" if "x \<in> set fs" "pack A (frag_header x) key dir (payload x) = Inr dg"
    for x key dir dg
    using that pk(1) [OF that(1)]
    by (auto simp: pack_def try_then_Inr_iff Let_def MAX_DATAGRAM_def VOIP_HEADER_LEN_def VOIP_TAG_LEN_def
        dest!: aead_encrypt_length [OF assms(1)])
  with pk show ?thesis by (auto dest: sorted_wrt_less_distinct)
qed (use assms in \<open>simp add: fragment_def\<close>)

lemma fragment_packets_ok_example:
  "list_all (\<lambda>x. header_ok (frag_header x) \<and> 7 \<le> sequence (frag_header x))
     (fst (fragment (new_fragmenter Video\<lparr>next_seq := 7\<rparr>) [1, 2, 3] 90))"
  using fragment_packets_ok [OF demo_aead_ok, where s = Video and q = 7 and nal = "[1, 2, 3]" and ts = 90
      and fs = "fst (fragment (new_fragmenter Video\<lparr>next_seq := 7\<rparr>) [1, 2, 3] 90)"
      and f' = "snd (fragment (new_fragmenter Video\<lparr>next_seq := 7\<rparr>) [1, 2, 3] 90)"]
  by (simp add: list_all_iff)

text \<open>
  What happens when a packet inside a frame is lost: the reassembler does not notice, and hands
  out the frame with that piece cut out (the module's comment says that such a frame is dropped).
\<close>

lemma nal_lost_middle:
  assumes "fragment f nal ts = (fs, f')" and "0 < max_payload f" and "current_ts r = None"
    and "length nal \<le> max_nal_size r" and "0 < k" and "Suc k < length fs"
  shows "received (fst (push_fragments r (take k fs @ drop (Suc k) fs)))
    = [concat (map payload (take k fs @ drop (Suc k) fs))]"
proof -
  let ?gs = "take k fs @ drop (Suc k) fs"
  have "nal \<noteq> []" using assms(1,6) by (auto simp: fragment_def)
  then have ch: "chain_ok ts True fs nal" using fragment_chain [of nal f ts] assms(1,2) by simp
  have all: "chain_ok ts b xs rest \<Longrightarrow> concat (map payload xs) = rest" for b xs rest
    by (induction ts b xs rest rule: chain_ok.induct) auto
  have "length (concat (map payload ?gs)) \<le> length (concat (map payload fs))"
    using assms(6) by (subst (3) id_take_nth_drop [of k fs]) auto
  then have "length (concat (map payload ?gs)) \<le> max_nal_size r" using all [OF ch] assms(4) by simp
  from push_chain [OF chain_delete [OF ch assms(5,6)] this] assms(3) show ?thesis
    by (simp add: flush_on_change_def)
qed

lemma nal_lost_middle_example:
  "\<exists>f1 f2 f3 f'. fragment (new_fragmenter Video\<lparr>max_payload := 2\<rparr>) [1, 2, 3, 4, 5] 90 = ([f1, f2, f3], f')
     \<and> received (fst (push_fragments new_reassembler [f1, f3])) = [[1, 2, 5]]"
proof -
  let ?f = "new_fragmenter Video\<lparr>max_payload := 2\<rparr>"
  have "\<exists>f1 f2 f3 f'. fragment ?f [1, 2, 3, 4, 5] 90 = ([f1, f2, f3], f')
      \<and> payload f1 = [1, 2] \<and> payload f3 = [5]"
    by (simp add: fragment_def fragment_loop.simps Let_def)
  then obtain f1 f2 f3 f' where fr: "fragment ?f [1, 2, 3, 4, 5] 90 = ([f1, f2, f3], f')"
    "payload f1 = [1, 2]" "payload f3 = [5]" by blast
  with nal_lost_middle [OF fr(1), of new_reassembler 1] show ?thesis
    by (simp add: new_reassembler_def)
qed

end
