(* ===== verification/Ordered_Map.thy ===== *)
theory Ordered_Map
  imports Prelude
begin

text \<open>
  The ordered map of the standard library (\<open>BTreeMap\<close>), as the list of its entries in key order.
  The operations are the ones the program uses: insert-or-replace, insert if absent
  (\<open>entry(k).or_insert(v)\<close>), remove, and the first entry. Each is characterised by its effect on
  \<open>map_of\<close>, on the set of keys and on the order.
\<close>

abbreviation om_keys :: "('k \<times> 'v) list \<Rightarrow> 'k list" where
  "om_keys m \<equiv> map fst m"

definition om_ok :: "('k::linorder \<times> 'v) list \<Rightarrow> bool" where
  "om_ok m \<longleftrightarrow> sorted_wrt (<) (om_keys m)"

fun om_insert :: "'k::linorder \<Rightarrow> 'v \<Rightarrow> ('k \<times> 'v) list \<Rightarrow> ('k \<times> 'v) list" where
  "om_insert k v [] = [(k, v)]"
| "om_insert k v ((k', v') # m) =
     (if k < k' then (k, v) # (k', v') # m
      else if k = k' then (k, v) # m
      else (k', v') # om_insert k v m)"

definition om_or_insert :: "'k::linorder \<Rightarrow> 'v \<Rightarrow> ('k \<times> 'v) list \<Rightarrow> ('k \<times> 'v) list" where
  "om_or_insert k v m = (if map_of m k = None then om_insert k v m else m)"

definition om_remove :: "'k \<Rightarrow> ('k \<times> 'v) list \<Rightarrow> ('k \<times> 'v) list" where
  "om_remove k m = filter (\<lambda>p. fst p \<noteq> k) m"

fun om_first :: "('k \<times> 'v) list \<Rightarrow> ('k \<times> 'v) option" where
  "om_first [] = None"
| "om_first (p # m) = Some p"

lemma om_ok_Nil [simp]: "om_ok []"
  by (simp add: om_ok_def)

lemma om_ok_Cons: "om_ok (p # m) \<longleftrightarrow> (\<forall>q \<in> set m. fst p < fst q) \<and> om_ok m"
  by (simp add: om_ok_def)

lemma om_ok_distinct: "om_ok m \<Longrightarrow> distinct (om_keys m)"
  by (simp add: om_ok_def strict_sorted_iff)

lemma set_om_insert: "fst ` set (om_insert k v m) = insert k (fst ` set m)"
  by (induction k v m rule: om_insert.induct) auto

lemma om_insert_ok [simp]: "om_ok m \<Longrightarrow> om_ok (om_insert k v m)"
proof (induction k v m rule: om_insert.induct)
  case (2 k v k' v' m)
  then have "\<forall>x \<in> fst ` set (om_insert k v m). k' < x" if "k' < k"
    using that by (auto simp: set_om_insert om_ok_Cons)
  with 2 show ?case by (auto simp: om_ok_Cons)
qed (simp add: om_ok_Cons)

lemma map_of_om_insert [simp]: "om_ok m \<Longrightarrow> map_of (om_insert k v m) = (map_of m)(k \<mapsto> v)"
proof (induction k v m rule: om_insert.induct)
  case (2 k v k' v' m)
  then show ?case by (auto simp: om_ok_Cons fun_upd_twist)
qed simp

lemma length_om_insert:
  "om_ok m \<Longrightarrow> length (om_insert k v m) = (if map_of m k = None then Suc (length m) else length m)"
proof (induction k v m rule: om_insert.induct)
  case (2 k v k' v' m)
  have "map_of m k = None" if "k < k'"
    using that 2(2) by (fastforce simp: om_ok_Cons map_of_eq_None_iff)
  with 2 show ?case by (auto simp: om_ok_Cons)
qed simp

lemma om_or_insert_ok [simp]: "om_ok m \<Longrightarrow> om_ok (om_or_insert k v m)"
  by (simp add: om_or_insert_def)

lemma map_of_om_or_insert:
  "om_ok m \<Longrightarrow> map_of (om_or_insert k v m) = (if map_of m k = None then (map_of m)(k \<mapsto> v) else map_of m)"
  by (simp add: om_or_insert_def)

lemma set_om_or_insert: "fst ` set (om_or_insert k v m) = insert k (fst ` set m)"
  by (auto simp: om_or_insert_def set_om_insert map_of_eq_None_iff)

lemma om_remove_ok [simp]: "om_ok m \<Longrightarrow> om_ok (om_remove k m)"
  unfolding om_ok_def om_remove_def by (rule sorted_wrt_filter_map)

lemma map_of_om_remove: "map_of (om_remove k m) = (map_of m)(k := None)"
  by (induction m) (auto simp: om_remove_def)

lemma set_om_remove: "fst ` set (om_remove k m) = fst ` set m - {k}"
  by (auto simp: om_remove_def)

lemma length_om_remove_le: "length (om_remove k m) \<le> length m"
  by (simp add: om_remove_def)

lemma om_first_least: "om_ok m \<Longrightarrow> om_first m = Some (k, v) \<Longrightarrow>
    map_of m k = Some v \<and> (\<forall>k' \<in> fst ` set m. k \<le> k')"
  by (cases m) (auto simp: om_ok_Cons)

lemma om_first_None [simp]: "om_first m = None \<longleftrightarrow> m = []"
  by (cases m) auto

lemma om_remove_first:
  "om_ok m \<Longrightarrow> om_first m = Some (k, v) \<Longrightarrow> Suc (length (om_remove k m)) = length m"
proof (cases m)
  case (Cons p m')
  assume a: "om_ok m" "om_first m = Some (k, v)"
  then have "filter (\<lambda>q. fst q \<noteq> k) m' = m'"
    by (auto simp: Cons om_ok_Cons filter_id_conv)
  with a show ?thesis by (simp add: Cons om_remove_def)
qed simp

lemma om_remove_absent: "map_of m k = None \<Longrightarrow> om_remove k m = m"
  by (auto simp: om_remove_def filter_id_conv map_of_eq_None_iff)

lemma om_ext: "om_ok m \<Longrightarrow> om_ok m' \<Longrightarrow> map_of m = map_of m' \<Longrightarrow> m = m'"
proof -
  assume a: "om_ok m" "om_ok m'" "map_of m = map_of m'"
  then have d: "distinct (om_keys m)" "distinct (om_keys m')" by (auto dest: om_ok_distinct)
  then have s: "set m = set m'" using a(3) by (metis map_of_inject_set)
  moreover have "inj_on fst (set m \<union> set m')" using d s by (simp add: distinct_map)
  ultimately show ?thesis
    using a d by (intro map_sorted_distinct_set_unique [of fst]) (auto simp: om_ok_def strict_sorted_iff)
qed

end
