(* ===== verification/Voip_Jitter.thy ===== *)
theory Voip_Jitter
  imports Ordered_Map
begin

text \<open>
  The jitter buffer of the voice stream (\<open>ParanoiaLibrary/src/voip/jitter.rs\<close>). \<open>items\<close> is the
  \<open>BTreeMap\<close> of the frames that wait, \<open>expected\<close> the next sequence number to play, \<open>plc_streak\<close>
  the number of concealed frames in a row. \<open>pop_next\<close> returns \<open>None\<close> where the code panics (the
  \<open>unwrap\<close> on an empty map); \<open>exp + 1\<close> wraps, as in the release profile.
\<close>

section \<open>State and operations\<close>

record jitter_config =
  initial_delay :: nat
  max_depth :: nat

definition default_jitter_config :: jitter_config where
  "default_jitter_config = \<lparr>initial_delay = 3, max_depth = 16\<rparr>"

datatype jitter_out = Frame bytes | Plc | Wait

record jitter =
  cfg :: jitter_config
  items :: "(u64 \<times> bytes) list"
  expected :: "u64 option"
  plc_streak :: nat

definition new_jitter :: "jitter_config \<Rightarrow> jitter" where
  "new_jitter c = \<lparr>cfg = c, items = [], expected = None, plc_streak = 0\<rparr>"

definition make_room :: "nat \<Rightarrow> u64 \<Rightarrow> (u64 \<times> bytes) list \<Rightarrow> (u64 \<times> bytes) list" where
  "make_room depth s its =
     (if depth \<le> length its \<and> map_of its s = None then
        (case om_first its of Some (oldest, _) \<Rightarrow> om_remove oldest its | None \<Rightarrow> its)
      else its)"

definition jitter_push :: "jitter \<Rightarrow> u64 \<Rightarrow> bytes \<Rightarrow> jitter" where
  "jitter_push jb s opus =
     (if (case expected jb of Some e \<Rightarrow> s < e | None \<Rightarrow> False) then jb
      else jb\<lparr>items := om_or_insert s opus (make_room (max_depth (cfg jb)) s (items jb))\<rparr>)"

definition pop_expected :: "jitter \<Rightarrow> u64 \<Rightarrow> jitter_out \<times> jitter" where
  "pop_expected jb e =
     (case map_of (items jb) e of
        Some frame \<Rightarrow>
          (Frame frame, jb\<lparr>items := om_remove e (items jb), expected := Some (e + 1), plc_streak := 0\<rparr>)
      | None \<Rightarrow>
          (let have_later = (case om_first (items jb) of Some (s, _) \<Rightarrow> s > e | None \<Rightarrow> False)
           in if \<not> have_later then (Wait, jb\<lparr>expected := Some e\<rparr>)
              else if plc_streak jb + 1 > initial_delay (cfg jb) * 4 then
                (Plc, jb\<lparr>expected := None, plc_streak := 0\<rparr>)
              else (Plc, jb\<lparr>expected := Some (e + 1), plc_streak := plc_streak jb + 1\<rparr>)))"

definition pop_next :: "jitter \<Rightarrow> (jitter_out \<times> jitter) option" where
  "pop_next jb =
     (case expected jb of
        Some e \<Rightarrow> Some (pop_expected jb e)
      | None \<Rightarrow>
          if length (items jb) < initial_delay (cfg jb) then Some (Wait, jb)
          else (case om_first (items jb) of
                  None \<Rightarrow> None
                | Some (first, _) \<Rightarrow> Some (pop_expected jb first)))"

definition jitter_reset :: "jitter \<Rightarrow> jitter" where
  "jitter_reset jb = jb\<lparr>items := [], expected := None, plc_streak := 0\<rparr>"

definition jitter_depth :: "jitter \<Rightarrow> nat" where
  "jitter_depth jb = length (items jb)"

section \<open>Invariant\<close>

text \<open>
  The depth bound is \<open>max_depth\<close>, but at least one frame is kept even when \<open>max_depth\<close> is 0.
\<close>

definition jitter_ok :: "jitter \<Rightarrow> bool" where
  "jitter_ok jb \<longleftrightarrow> om_ok (items jb) \<and> length (items jb) \<le> max 1 (max_depth (cfg jb)) \<and>
     plc_streak jb \<le> 4 * initial_delay (cfg jb) \<and>
     (\<forall>e. expected jb = Some e \<longrightarrow> (\<forall>k \<in> fst ` set (items jb). e \<le> k))"

lemma new_jitter_ok: "jitter_ok (new_jitter c)"
  by (simp add: jitter_ok_def new_jitter_def)

lemma jitter_reset_ok: "jitter_ok (jitter_reset jb)"
  by (simp add: jitter_ok_def jitter_reset_def)

lemma make_room_ok:
  assumes om: "om_ok its"
  shows "om_ok (make_room d s its)" and "set (make_room d s its) \<subseteq> set its"
    and "map_of (make_room d s its) s = map_of its s"
  using om by (auto simp: make_room_def om_remove_def map_of_om_remove [unfolded om_remove_def]
      om_remove_ok [unfolded om_remove_def] split: option.splits dest: om_first_least)

lemma make_room_length:
  assumes om: "om_ok its" and len: "length its \<le> max 1 d"
  shows "length (make_room d s its) + (if map_of its s = None then 1 else 0) \<le> max 1 d"
proof (cases "d \<le> length its \<and> map_of its s = None")
  case True
  show ?thesis
  proof (cases "om_first its")
    case (Some p)
    obtain k v where p: "p = (k, v)" by fastforce
    from om_remove_first [OF om Some [unfolded p]] True len show ?thesis
      by (simp add: make_room_def Some p)
  qed (use True len in \<open>simp add: make_room_def\<close>)
qed (use len in \<open>auto simp: make_room_def\<close>)

lemma jitter_push_ok:
  assumes ok: "jitter_ok jb"
  shows "jitter_ok (jitter_push jb s opus)"
proof (cases "case expected jb of Some e \<Rightarrow> s < e | None \<Rightarrow> False")
  case False
  define its where "its = make_room (max_depth (cfg jb)) s (items jb)"
  from ok have om: "om_ok (items jb)" by (simp add: jitter_ok_def)
  note mr = make_room_ok [OF om, of "max_depth (cfg jb)" s, folded its_def]
  have len: "length (om_or_insert s opus its) \<le> max 1 (max_depth (cfg jb))"
    using make_room_length [OF om, of "max_depth (cfg jb)" s] ok mr
    by (auto simp: jitter_ok_def om_or_insert_def length_om_insert simp flip: its_def split: if_splits)
  have keys: "fst ` set (om_or_insert s opus its) \<subseteq> insert s (fst ` set (items jb))"
    using mr(2) by (auto simp: set_om_or_insert)
  have "jitter_push jb s opus = jb\<lparr>items := om_or_insert s opus its\<rparr>"
    using False by (simp add: jitter_push_def its_def)
  moreover have "e \<le> k" if "expected jb = Some e" "k \<in> fst ` set (om_or_insert s opus its)" for e k
    using subsetD [OF keys that(2)] that(1) ok False by (auto simp: jitter_ok_def)
  ultimately show ?thesis using ok mr(1) len by (simp add: jitter_ok_def)
qed (simp add: jitter_push_def ok)

lemma pop_expected_ok:
  assumes ok: "jitter_ok jb" and e: "\<forall>k \<in> fst ` set (items jb). e \<le> k"
  shows "jitter_ok (snd (pop_expected jb e))"
proof (cases "map_of (items jb) e")
  case None
  have "e + 1 \<le> k" if "k \<in> fst ` set (items jb)" for k
    using that e None by (metis inc_le map_of_eq_None_iff order_le_less)
  with ok None show ?thesis
    by (auto simp: pop_expected_def jitter_ok_def Let_def e split: option.splits)
next
  case (Some f)
  have "e + 1 \<le> k" if "k \<in> fst ` set (items jb) - {e}" for k
    using that e by (metis DiffE inc_le insertI1 order_le_less)
  with ok Some show ?thesis
    using length_om_remove_le [of e "items jb"]
    by (auto simp: pop_expected_def jitter_ok_def set_om_remove)
qed

lemma pop_next_ok:
  assumes ok: "jitter_ok jb" and pop: "pop_next jb = Some (out, jb')"
  shows "jitter_ok jb'"
proof (cases "expected jb")
  case None
  show ?thesis
  proof (cases "length (items jb) < initial_delay (cfg jb)")
    case False
    with pop None obtain k v where k: "om_first (items jb) = Some (k, v)"
      and jb': "jb' = snd (pop_expected jb k)"
      by (auto simp: pop_next_def split: option.splits dest: sym)
    have "\<forall>q \<in> fst ` set (items jb). k \<le> q"
      using om_first_least [OF _ k] ok by (simp add: jitter_ok_def)
    from pop_expected_ok [OF ok this] show ?thesis by (simp add: jb')
  qed (use None pop ok in \<open>auto simp: pop_next_def\<close>)
next
  case (Some e)
  then have "\<forall>k \<in> fst ` set (items jb). e \<le> k" using ok by (simp add: jitter_ok_def)
  from pop_expected_ok [OF ok this] Some pop show ?thesis by (auto simp: pop_next_def dest: sym)
qed

section \<open>Runs\<close>

text \<open>
  The receiver pushes what arrives and a ticker asks for the next frame; a run lists the answers
  to the ticks, and is \<open>None\<close> when a tick panics.
\<close>

datatype jitter_op = Push u64 bytes | Tick

fun jitter_run :: "jitter_op list \<Rightarrow> jitter \<Rightarrow> (jitter_out list \<times> jitter) option" where
  "jitter_run [] jb = Some ([], jb)"
| "jitter_run (Push s b # ops) jb = jitter_run ops (jitter_push jb s b)"
| "jitter_run (Tick # ops) jb =
     (case pop_next jb of
        None \<Rightarrow> None
      | Some (out, jb') \<Rightarrow> map_option (\<lambda>(outs, jb''). (out # outs, jb'')) (jitter_run ops jb'))"

definition played :: "jitter_out list \<Rightarrow> jitter_out list" where
  "played outs = filter (\<lambda>out. out \<noteq> Wait) outs"

text \<open>How many frames in a row are concealed at the end of the answers, when \<open>n\<close> were before them; a wait does not end the row.\<close>

fun plc_row :: "nat \<Rightarrow> jitter_out list \<Rightarrow> nat" where
  "plc_row n [] = n"
| "plc_row n (Plc # outs) = plc_row (Suc n) outs"
| "plc_row n (Frame f # outs) = plc_row 0 outs"
| "plc_row n (Wait # outs) = plc_row n outs"

text \<open>At no point there are more than \<open>d\<close> in a row.\<close>

fun rows_within :: "nat \<Rightarrow> nat \<Rightarrow> jitter_out list \<Rightarrow> bool" where
  "rows_within d n [] = (n \<le> d)"
| "rows_within d n (out # outs) = (n \<le> d \<and> rows_within d (plc_row n [out]) outs)"

definition pushed :: "jitter_op list \<Rightarrow> (u64 \<times> bytes) set" where
  "pushed ops = {(s, b). Push s b \<in> set ops}"

lemma cfg_const [simp]:
  "cfg (jitter_push jb s b) = cfg jb" "cfg (snd (pop_expected jb e)) = cfg jb"
  by (auto simp: jitter_push_def pop_expected_def Let_def split: option.splits)

lemma pop_expected_cfg: "pop_expected jb e = (out, jb') \<Longrightarrow> cfg jb' = cfg jb"
  using cfg_const(2) [of jb e] by simp

lemma cfg_pop_next: "pop_next jb = Some (out, jb') \<Longrightarrow> cfg jb' = cfg jb"
  using pop_expected_cfg by (auto simp: pop_next_def split: option.splits if_splits)

lemma pop_next_total: "0 < initial_delay (cfg jb) \<Longrightarrow> pop_next jb \<noteq> None"
  by (auto simp: pop_next_def split: option.splits)

lemma jitter_run_total:
  "jitter_ok jb \<Longrightarrow> 0 < initial_delay (cfg jb) \<Longrightarrow>
     \<exists>outs jb'. jitter_run ops jb = Some (outs, jb') \<and> jitter_ok jb' \<and> cfg jb' = cfg jb"
proof (induction ops jb rule: jitter_run.induct)
  case (2 s b ops jb)
  then show ?case using jitter_push_ok [of jb s b] by simp
next
  case (3 ops jb)
  obtain out jb' where pop: "pop_next jb = Some (out, jb')"
    using pop_next_total [OF 3(3)] by auto
  from 3(1) [OF pop refl] pop_next_ok [OF 3(2) pop] cfg_pop_next [OF pop] 3(3)
  show ?case by (auto simp: pop)
qed simp

text \<open>One tick of a buffer that plays: it plays the expected frame, waits when nothing is there, or conceals the frame.\<close>

lemma pop_playing:
  assumes ok: "jitter_ok jb" and e: "expected jb = Some e"
  shows "pop_next jb = Some (case map_of (items jb) e of
      Some f \<Rightarrow> (Frame f, jb\<lparr>items := om_remove e (items jb), expected := Some (e + 1), plc_streak := 0\<rparr>)
    | None \<Rightarrow> if items jb = [] then (Wait, jb)
        else if plc_streak jb < 4 * initial_delay (cfg jb) then (Plc, jb\<lparr>expected := Some (e + 1), plc_streak := Suc (plc_streak jb)\<rparr>)
        else (Plc, jb\<lparr>expected := None, plc_streak := 0\<rparr>))"
proof (cases "map_of (items jb) e")
  case None
  have "jb\<lparr>expected := Some e\<rparr> = jb" using e by simp
  moreover have "e < s" if "items jb = (s, f) # rest" for s f rest
  proof -
    have "e \<le> s" using ok e that by (simp add: jitter_ok_def)
    moreover have "e \<noteq> s" using None that by auto
    ultimately show ?thesis by simp
  qed
  ultimately show ?thesis using None e
    by (cases "items jb") (auto simp: pop_next_def pop_expected_def Let_def)
qed (simp add: pop_next_def pop_expected_def e)

lemma push_playing:
  "om_ok (items jb) \<Longrightarrow> set (items (jitter_push jb s b)) \<subseteq> insert (s, b) (set (items jb))"
proof -
  assume om: "om_ok (items jb)"
  have ins: "set (om_insert k v m) \<subseteq> insert (k, v) (set m)" for k :: u64 and v :: bytes and m
    by (induction k v m rule: om_insert.induct) auto
  show ?thesis
    using make_room_ok(2) [OF om] ins by (auto simp: jitter_push_def om_or_insert_def split: if_splits) blast+
qed

lemma push_meta [simp]:
  "expected (jitter_push jb s b) = expected jb" "plc_streak (jitter_push jb s b) = plc_streak jb"
  by (simp_all add: jitter_push_def)

lemma rows_within_start: "rows_within d n outs \<Longrightarrow> n \<le> d"
  by (cases outs) simp_all

lemma played_Cons: "played (out # outs) = (if out = Wait then played outs else out # played outs)"
  by (simp add: played_def)

lemma plc_row_Cons: "plc_row n (out # outs) = plc_row (plc_row n [out]) outs"
  by (cases out) simp_all

text \<open>What a tick leaves, when the buffer still plays afterwards.\<close>

lemma pop_playing_on:
  assumes ok: "jitter_ok jb" and e: "expected jb = Some e" and pop: "pop_next jb = Some (out, jb')"
    and row: "plc_row (plc_streak jb) [out] \<le> 4 * initial_delay (cfg jb)"
  shows "set (items jb') \<subseteq> set (items jb)" and "plc_streak jb' = plc_row (plc_streak jb) [out]"
    and "expected jb' = Some (if out = Wait then e else e + 1)" and "out = Frame f \<Longrightarrow> (e, f) \<in> set (items jb)"
  using row pop [unfolded pop_playing [OF ok e]] e
  by (auto simp: om_remove_def dest: map_of_SomeD split: option.splits if_splits)

lemma jitter_run_in_order:
  "jitter_ok jb \<Longrightarrow> expected jb = Some e \<Longrightarrow> jitter_run ops jb = Some (outs, jb') \<Longrightarrow>
   rows_within (4 * initial_delay (cfg jb)) (plc_streak jb) outs \<Longrightarrow>
   expected jb' = Some (e + of_nat (length (played outs))) \<and> plc_streak jb' = plc_row (plc_streak jb) outs \<and>
   jitter_ok jb' \<and> cfg jb' = cfg jb \<and> set (items jb') \<subseteq> set (items jb) \<union> pushed ops \<and>
   (\<forall>k f. k < length (played outs) \<longrightarrow> played outs ! k = Frame f \<longrightarrow>
      (e + of_nat k, f) \<in> set (items jb) \<union> pushed ops)"
proof (induction ops jb arbitrary: e outs rule: jitter_run.induct)
  case (1 jb)
  then show ?case by (simp add: played_def)
next
  case (2 s b ops jb)
  have om: "om_ok (items jb)" using 2(2) by (simp add: jitter_ok_def)
  have more: "set (items (jitter_push jb s b)) \<union> pushed ops \<subseteq> set (items jb) \<union> pushed (Push s b # ops)"
    using push_playing [OF om, of s b] by (auto simp: pushed_def)
  have "expected (jitter_push jb s b) = Some e" "jitter_run ops (jitter_push jb s b) = Some (outs, jb')"
    "rows_within (4 * initial_delay (cfg (jitter_push jb s b))) (plc_streak (jitter_push jb s b)) outs" using 2(3-5) by simp_all
  note IH = 2(1) [OF jitter_push_ok [OF 2(2)] this]
  then have "set (items jb') \<subseteq> set (items jb) \<union> pushed (Push s b # ops)" using more by blast
  moreover have "(e + of_nat k, f) \<in> set (items jb) \<union> pushed (Push s b # ops)"
    if "k < length (played outs)" "played outs ! k = Frame f" for k f using IH more that by blast
  ultimately show ?case using IH by simp
next
  case (3 ops jb)
  from 3(4) obtain out jb1 outs1 where pop: "pop_next jb = Some (out, jb1)"
    and run: "jitter_run ops jb1 = Some (outs1, jb')" and outs: "outs = out # outs1"
    by (auto split: option.splits)
  have rest: "rows_within (4 * initial_delay (cfg jb)) (plc_row (plc_streak jb) [out]) outs1" using 3(5) outs by simp
  note one = pop_playing_on [OF 3(2,3) pop rows_within_start [OF rest]]
  have "rows_within (4 * initial_delay (cfg jb1)) (plc_streak jb1) outs1"
    using rest one(2) cfg_pop_next [OF pop] by simp
  note IH = 3(1) [OF pop refl pop_next_ok [OF 3(2) pop] one(3) run this]
  have same: "pushed (Tick # ops) = pushed ops" by (simp add: pushed_def)
  have "(e + of_nat k, f) \<in> set (items jb) \<union> pushed (Tick # ops)"
    if k: "k < length (played outs)" "played outs ! k = Frame f" for k f
  proof (cases "out = Wait")
    case True
    with k outs have "k < length (played outs1)" "played outs1 ! k = Frame f" by (simp_all add: played_Cons)
    with IH True have "(e + of_nat k, f) \<in> set (items jb1) \<union> pushed ops" by simp
    with one(1) same show ?thesis by blast
  next
    case False
    show ?thesis
    proof (cases k)
      case 0
      with k(2) False outs one(4) show ?thesis by (simp add: played_Cons)
    next
      case (Suc j)
      with k False outs have "j < length (played outs1)" "played outs1 ! j = Frame f" by (simp_all add: played_Cons)
      with IH False have "(e + 1 + of_nat j, f) \<in> set (items jb1) \<union> pushed ops" by simp
      with one(1) same have "(e + 1 + of_nat j, f) \<in> set (items jb) \<union> pushed (Tick # ops)" by blast
      with Suc show ?thesis by (simp add: add.assoc)
    qed
  qed
  moreover have "expected jb' = Some (e + of_nat (length (played outs)))"
    using IH outs by (simp add: played_Cons add.assoc)
  moreover have "plc_streak jb' = plc_row (plc_streak jb) outs"
    using IH outs one(2) plc_row_Cons [of "plc_streak jb" out outs1] by simp
  ultimately show ?case using IH one(1) cfg_pop_next [OF pop] same by auto
qed

text \<open>A push into a buffer that plays and has room: late frames and known numbers change nothing.\<close>

lemma push_with_room:
  assumes "om_ok (items jb)" and "expected jb = Some e" and "length (items jb) < max_depth (cfg jb)"
  shows "map_of (items (jitter_push jb s b)) = (if s < e \<or> map_of (items jb) s \<noteq> None then map_of (items jb) else (map_of (items jb))(s \<mapsto> b))"
  using assms by (auto simp: jitter_push_def make_room_def om_or_insert_def)

section \<open>Properties\<close>

text \<open>
  With an initial delay of at least one frame no tick ever panics, whatever arrives and
  whenever the ticker fires, and the buffer never holds more than \<open>max_depth\<close> frames (one, when
  \<open>max_depth\<close> is 0).
\<close>

lemma jitter_bounded:
  assumes "0 < initial_delay c"
  shows "\<exists>outs jb. jitter_run ops (new_jitter c) = Some (outs, jb)
    \<and> jitter_depth jb \<le> max 1 (max_depth c)"
  using jitter_run_total [OF new_jitter_ok, of c ops] assms
  by (auto simp: jitter_depth_def jitter_ok_def new_jitter_def)

lemma jitter_bounded_example:
  "\<exists>outs jb. jitter_run [Push 5 [1], Push 3 [2], Tick, Push 4 [3], Tick] (new_jitter default_jitter_config)
     = Some (outs, jb) \<and> jitter_depth jb \<le> 16"
  using jitter_bounded [of default_jitter_config "[Push 5 [1], Push 3 [2], Tick, Push 4 [3], Tick]"]
  by (simp add: default_jitter_config_def)

text \<open>
  C35. Playout is in order and complete. While the buffer plays, that is until more than
  \<open>4 * initial_delay\<close> frames in a row have been concealed (a frame that is played ends the row, a wait
  does not), every tick that does not wait advances by exactly one sequence number, and the k-th such
  tick conceals the frame or plays the bytes that were pushed under the k-th number. The next tick
  plays the frame of the expected number when it is there, and takes only it out; otherwise it waits
  exactly when the buffer is empty and conceals exactly when other frames wait; the buffer gives up
  exactly when the row was full before a concealed frame. A push that finds room keeps its frame
  unless it is late or the number is known. Nothing is played late, twice or out of order.
\<close>

theorem jitter_plays_in_order:
  assumes "jitter_ok jb" and "expected jb = Some e"
    and "jitter_run ops jb = Some (outs, jb1)"
    and "rows_within (4 * initial_delay (cfg jb)) (plc_streak jb) outs"
    and "due = e + of_nat (length (played outs))" and "waiting = map_of (items jb1)"
  shows "expected jb1 = Some due \<and>
    (\<forall>k f. k < length (played outs) \<longrightarrow> played outs ! k = Frame f \<longrightarrow>
      (e + of_nat k, f) \<in> set (items jb) \<union> pushed ops) \<and>
    (\<exists>out jb2. pop_next jb1 = Some (out, jb2) \<and> map_of (items jb2) = waiting(due := None) \<and>
      (case waiting due of Some f \<Rightarrow> out = Frame f \<and> (due, f) \<in> set (items jb) \<union> pushed ops
       | None \<Rightarrow> out = (if waiting = Map.empty then Wait else Plc)) \<and>
      (expected jb2 = None \<longleftrightarrow> out = Plc \<and> plc_row (plc_streak jb) outs = 4 * initial_delay (cfg jb))) \<and>
    (\<forall>s b. length (items jb1) < max_depth (cfg jb) \<longrightarrow> map_of (items (jitter_push jb1 s b)) =
      (if s < due \<or> waiting s \<noteq> None then waiting else waiting(s \<mapsto> b)))"
proof -
  note run = jitter_run_in_order [OF assms(1-4)]
  then have now: "expected jb1 = Some due" "plc_streak jb1 = plc_row (plc_streak jb) outs" "jitter_ok jb1" "cfg jb1 = cfg jb"
    and there: "set (items jb1) \<subseteq> set (items jb) \<union> pushed ops" by (simp_all add: assms(5))
  have om: "om_ok (items jb1)" and row: "plc_streak jb1 \<le> 4 * initial_delay (cfg jb)" using now by (simp_all add: jitter_ok_def)
  have empty: "waiting = Map.empty \<longleftrightarrow> items jb1 = []" by (simp add: assms(6))
  have "\<exists>out jb2. pop_next jb1 = Some (out, jb2) \<and> map_of (items jb2) = waiting(due := None) \<and>
      (case waiting due of Some f \<Rightarrow> out = Frame f \<and> (due, f) \<in> set (items jb) \<union> pushed ops
       | None \<Rightarrow> out = (if waiting = Map.empty then Wait else Plc)) \<and>
      (expected jb2 = None \<longleftrightarrow> out = Plc \<and> plc_row (plc_streak jb) outs = 4 * initial_delay (cfg jb))"
  proof (cases "map_of (items jb1) due")
    case None
    then have "waiting(due := None) = waiting" by (simp add: assms(6) fun_upd_idem)
    with None pop_playing [OF now(3,1)] now row empty show ?thesis by (auto simp: assms(6))
  next
    case (Some f)
    with there have "(due, f) \<in> set (items jb) \<union> pushed ops" by (auto dest: map_of_SomeD)
    with Some pop_playing [OF now(3,1)] om show ?thesis by (simp add: assms(6) map_of_om_remove)
  qed
  with run now push_with_room [OF om now(1)] show ?thesis by (simp add: assms(5,6))
qed

text \<open>A buffer of three frames in which number 8 is lost: it is concealed, the row ends with 9, and then the buffer waits.\<close>

theorem jitter_plays_in_order_witness:
  "(\<lambda>jb. jitter_run [Push 9 [9], Tick, Tick, Tick] jb = Some ([Frame [7], Plc, Frame [9]],
        jb\<lparr>items := [], expected := Some (7 + of_nat 3), plc_streak := 0\<rparr>) \<and>
      pop_next (jb\<lparr>items := [], expected := Some (7 + of_nat 3), plc_streak := 0\<rparr>) =
        Some (Wait, jb\<lparr>items := [], expected := Some (7 + of_nat 3), plc_streak := 0\<rparr>))
     \<lparr>cfg = default_jitter_config, items = [(7, [7])], expected = Some 7, plc_streak = 0\<rparr>"
proof -
  let ?jb = "\<lparr>cfg = default_jitter_config, items = [(7, [7])], expected = Some 7, plc_streak = 0\<rparr>"
  let ?ops = "[Push 9 [9], Tick, Tick, Tick]" let ?outs = "[Frame [7], Plc, Frame [9]]"
  have run: "\<exists>jb'. jitter_run ?ops ?jb = Some (?outs, jb') \<and>
      jb' = ?jb\<lparr>items := [], expected := expected jb', plc_streak := 0\<rparr>"
    by (simp add: jitter_push_def make_room_def om_or_insert_def pop_next_def pop_expected_def
        om_remove_def default_jitter_config_def)
  then obtain jb' where jb': "jitter_run ?ops ?jb = Some (?outs, jb')"
    "jb' = ?jb\<lparr>items := [], expected := expected jb', plc_streak := 0\<rparr>" by blast
  have ok: "jitter_ok ?jb" "rows_within (4 * initial_delay (cfg ?jb)) (plc_streak ?jb) ?outs"
    by (simp_all add: jitter_ok_def om_ok_def default_jitter_config_def)
  note playing = jitter_plays_in_order [OF ok(1) _ jb'(1) ok(2) refl refl, of 7]
  have next_number: "expected jb' = Some (7 + of_nat (length (played ?outs)))" using playing by simp
  with jb' have final: "jb' = ?jb\<lparr>items := [], expected := Some (7 + of_nat 3), plc_streak := 0\<rparr>" by (simp add: played_def)
  then have "map_of (items jb') = Map.empty" by simp
  with playing obtain jb2 where "pop_next jb' = Some (Wait, jb2)" by auto
  moreover have "pop_next jb' = Some (Wait, jb')" using final by (simp add: pop_next_def pop_expected_def)
  ultimately show ?thesis using jb'(1) final by simp
qed

end
