(* ===== verification/Turn_Codec.thy ===== *)
theory Turn_Codec
  imports Prelude
begin

text \<open>
  The STUN and TURN messages of the client: \<open>ParanoiaLibrary/src/voip/turn.rs\<close> (message types,
  attributes, builder and parser, message integrity, the XOR address codec, the requests) and
  \<open>ParanoiaLibrary/src/voip/stun.rs\<close> (binding request and response). HMAC-SHA1 and MD5 are
  parameters. An IPv4 address is its 32-bit number, an IPv6 address the two 64-bit halves; flow
  information and scope of an IPv6 socket address, which \<open>SocketAddr::new\<close> sets to 0, are left out.
\<close>

section \<open>Addresses\<close>

datatype ip_addr = IPv4 u32 | IPv6 u64 u64

datatype sock_addr = SocketAddr (ip: ip_addr) (port: u16)

fun octets :: "ip_addr \<Rightarrow> bytes" where
  "octets (IPv4 a) = u32_to_be a"
| "octets (IPv6 hi lo) = u64_to_be hi @ u64_to_be lo"

definition ipv4_from :: "bytes \<Rightarrow> ip_addr" where
  "ipv4_from bs = IPv4 (u32_from_be (bs ! 0) (bs ! 1) (bs ! 2) (bs ! 3))"

definition ipv6_from :: "bytes \<Rightarrow> ip_addr" where
  "ipv6_from bs = IPv6 (u64_from_be (take 8 bs)) (u64_from_be (drop 8 bs))"

definition xor_bytes :: "bytes \<Rightarrow> bytes \<Rightarrow> bytes" where
  "xor_bytes xs ks = map2 (XOR) xs ks"

section \<open>Message types\<close>

definition MAGIC_COOKIE :: u32 where "MAGIC_COOKIE = 0x2112A442"
definition STUN_HEADER_LEN :: nat where "STUN_HEADER_LEN = 20"

definition BINDING :: u16 where "BINDING = 0x001"
definition ALLOCATE :: u16 where "ALLOCATE = 0x003"
definition REFRESH :: u16 where "REFRESH = 0x004"
definition SEND :: u16 where "SEND = 0x006"
definition DATA :: u16 where "DATA = 0x007"
definition CREATE_PERMISSION :: u16 where "CREATE_PERMISSION = 0x008"

lemmas turn_methods = BINDING_def ALLOCATE_def REFRESH_def SEND_def DATA_def CREATE_PERMISSION_def

datatype msg_class = Request | Indication | SuccessResponse | ErrorResponse

fun class_bits :: "msg_class \<Rightarrow> u16" where
  "class_bits Request = 0"
| "class_bits Indication = 1"
| "class_bits SuccessResponse = 2"
| "class_bits ErrorResponse = 3"

definition make_message_type :: "u16 \<Rightarrow> msg_class \<Rightarrow> u16" where
  "make_message_type meth cls =
     (let c = class_bits cls;
          c0 = c AND 1;
          c1 = drop_bit 1 (c AND 2);
          m3_0 = meth AND 0x000F;
          m6_4 = drop_bit 4 (meth AND 0x0070);
          m11_7 = drop_bit 7 (meth AND 0x0F80)
      in push_bit 9 m11_7 OR push_bit 8 c1 OR push_bit 5 m6_4 OR push_bit 4 c0 OR m3_0)"

text \<open>The class bits are at most 3, so the last branch stands for 3 alone.\<close>

definition parse_message_type :: "u16 \<Rightarrow> u16 \<times> msg_class" where
  "parse_message_type t =
     (let c0 = drop_bit 4 (t AND 0x0010);
          c1 = drop_bit 8 (t AND 0x0100);
          bits = push_bit 1 c1 OR c0;
          cls = (if bits = 0 then Request else if bits = 1 then Indication
                 else if bits = 2 then SuccessResponse else ErrorResponse);
          m3_0 = t AND 0x000F;
          m6_4 = drop_bit 1 (t AND 0x00E0);
          m11_7 = drop_bit 2 (t AND 0x3E00)
      in (m11_7 OR m6_4 OR m3_0, cls))"

lemma word16_bits: "(\<And>n. n < 16 \<Longrightarrow> bit a n = bit b n) \<Longrightarrow> a = b" for a b :: u16
  by (rule bit_word_eqI) simp

lemma less_16_cases:
  fixes n :: nat
  assumes "n < 16"
  shows "n = 15 \<or> n = 14 \<or> n = 13 \<or> n = 12 \<or> n = 11 \<or> n = 10 \<or> n = 9 \<or> n = 8 \<or>
    n = 7 \<or> n = 6 \<or> n = 5 \<or> n = 4 \<or> n = 3 \<or> n = 2 \<or> n = 1 \<or> n = 0"
  using assms  by arith

lemma high_bits_clear: "m < 0x1000 \<Longrightarrow> 12 \<le> n \<Longrightarrow> \<not> bit (m :: u16) n"
proof
  assume "m < 0x1000" "12 \<le> n" "bit m n"
  then have "take_bit 12 (unat m) = unat m" by (simp add: take_bit_nat_eq_self_iff word_less_nat_alt)
  then have "take_bit 12 m = m" by (metis unsigned_take_bit_eq word_unat_eq_iff)
  with \<open>bit m n\<close> \<open>12 \<le> n\<close> show False by (metis bit_take_bit_iff not_less)
qed

lemma bit_make_message_type:
  "n < 16 \<Longrightarrow> bit (make_message_type m c) n =
     (n < 4 \<and> bit m n \<or> 5 \<le> n \<and> n < 8 \<and> bit m (n - 1) \<or> 9 \<le> n \<and> n < 14 \<and> bit m (n - 2) \<or>
      n = 4 \<and> bit (class_bits c) 0 \<or> n = 8 \<and> bit (class_bits c) 1)"
  by (drule less_16_cases, elim disjE; simp add: make_message_type_def Let_def bit_simps)

lemma bit_parsed_method:
  "n < 16 \<Longrightarrow> bit (fst (parse_message_type t)) n =
     (n < 4 \<and> bit t n \<or> 4 \<le> n \<and> n < 7 \<and> bit t (n + 1) \<or> 7 \<le> n \<and> n < 12 \<and> bit t (n + 2))"
  by (drule less_16_cases, elim disjE; simp add: parse_message_type_def Let_def bit_simps)

lemma parsed_class:
  "snd (parse_message_type t) = (if bit t 8 then if bit t 4 then ErrorResponse else SuccessResponse
     else if bit t 4 then Indication else Request)"
proof -
  have "drop_bit 4 (t AND 0x0010) = (if bit t 4 then 1 else 0)"
    "drop_bit 8 (t AND 0x0100) = (if bit t 8 then 1 else 0)"
    by (rule word16_bits, drule less_16_cases, elim disjE; simp add: bit_simps)+
  then show ?thesis by (simp add: parse_message_type_def Let_def)
qed

lemma parse_make_message_type:
  assumes "m < 0x1000"
  shows "parse_message_type (make_message_type m c) = (m, c)"
proof -
  have "fst (parse_message_type (make_message_type m c)) = m"
  proof (rule word16_bits)
    fix n :: nat assume n: "n < 16"
    consider "n < 4" | "4 \<le> n" "n < 7" | "7 \<le> n" "n < 12" | "12 \<le> n" by linarith
    then show "bit (fst (parse_message_type (make_message_type m c))) n = bit m n"
      using high_bits_clear [OF assms, of n]
      by cases (simp_all add: bit_parsed_method [OF n] bit_make_message_type n)
  qed
  moreover have "snd (parse_message_type (make_message_type m c)) = c"
    by (cases c) (simp_all add: parsed_class bit_make_message_type bit_simps)
  ultimately show ?thesis by (simp add: prod_eq_iff)
qed

section \<open>The XOR address codec\<close>

definition cookie_bytes :: bytes where
  "cookie_bytes = u32_to_be MAGIC_COOKIE"

definition xor_port :: "u16 \<Rightarrow> u16" where
  "xor_port p = p XOR ucast (drop_bit 16 MAGIC_COOKIE)"

definition encode_xor_address :: "sock_addr \<Rightarrow> bytes \<Rightarrow> bytes" where
  "encode_xor_address addr tid =
     (case ip addr of
        IPv4 a \<Rightarrow> [0, 1] @ u16_to_be (xor_port (port addr)) @ xor_bytes (octets (ip addr)) cookie_bytes
      | IPv6 hi lo \<Rightarrow>
          [0, 2] @ u16_to_be (xor_port (port addr)) @ xor_bytes (octets (ip addr)) (cookie_bytes @ tid))"

definition decode_xor_address :: "bytes \<Rightarrow> bytes \<Rightarrow> sock_addr option" where
  "decode_xor_address attr_val tid =
     (if length attr_val < 4 then None
      else let family = attr_val ! 1;
               prt = xor_port (u16_from_be (attr_val ! 2) (attr_val ! 3))
           in if family = 1 then
                (if length attr_val < 8 then None
                 else Some (SocketAddr (ipv4_from (xor_bytes (take 4 (drop 4 attr_val)) cookie_bytes)) prt))
              else if family = 2 then
                (if length attr_val < 20 then None
                 else Some (SocketAddr (ipv6_from (xor_bytes (take 16 (drop 4 attr_val)) (cookie_bytes @ tid))) prt))
              else None)"

lemma xor_bytes_cancel: "length xs \<le> length ks \<Longrightarrow> xor_bytes (xor_bytes xs ks) ks = xs"
proof (induction xs arbitrary: ks)
  case (Cons x xs)
  then show ?case by (cases ks) (auto simp: xor_bytes_def xor.assoc)
qed (simp add: xor_bytes_def)

lemma length_xor_bytes [simp]: "length (xor_bytes xs ks) = min (length xs) (length ks)"
  by (simp add: xor_bytes_def)

lemma xor_port_cancel [simp]: "xor_port (xor_port p) = p"
  by (simp add: xor_port_def xor.assoc)

lemma length_cookie_bytes [simp]: "length cookie_bytes = 4"
  by (simp add: cookie_bytes_def del: u32_to_be.simps)

lemma length_octets: "length (octets a) = (case a of IPv4 _ \<Rightarrow> 4 | IPv6 _ _ \<Rightarrow> 16)"
  by (cases a) (simp_all del: u32_to_be.simps u64_to_be.simps)

lemma ipv4_from_octets: "ipv4_from (octets (IPv4 a)) = IPv4 a"
  by (simp add: ipv4_from_def codec_simps)

lemma ipv6_from_octets: "ipv6_from (octets (IPv6 hi lo)) = IPv6 hi lo"
  by (simp add: ipv6_from_def u64_be_roundtrip del: u64_to_be.simps)

lemma xor_address_roundtrip:
  assumes tid: "length tid = 12"
  shows "decode_xor_address (encode_xor_address a tid) tid = Some a"
proof (cases "ip a")
  case (IPv4 x)
  have "xor_bytes (xor_bytes (octets (IPv4 x)) cookie_bytes) cookie_bytes = octets (IPv4 x)"
    by (rule xor_bytes_cancel) (simp add: length_octets del: octets.simps)
  with IPv4 show ?thesis
    by (cases a) (simp add: encode_xor_address_def decode_xor_address_def Let_def length_octets
        ipv4_from_octets codec_simps del: octets.simps)
next
  case (IPv6 hi lo)
  have "xor_bytes (xor_bytes (octets (IPv6 hi lo)) (cookie_bytes @ tid)) (cookie_bytes @ tid) = octets (IPv6 hi lo)"
    by (rule xor_bytes_cancel) (simp add: length_octets tid del: octets.simps)
  with IPv6 tid show ?thesis
    by (cases a) (simp add: encode_xor_address_def decode_xor_address_def Let_def length_octets
        ipv6_from_octets codec_simps del: octets.simps)
qed

lemma length_encode_xor_address: "length tid = 12 \<Longrightarrow> length (encode_xor_address a tid) \<le> 20"
  by (simp add: encode_xor_address_def length_octets del: octets.simps split: ip_addr.split)

section \<open>Attributes and messages\<close>

definition USERNAME :: u16 where "USERNAME = 0x0006"
definition MESSAGE_INTEGRITY :: u16 where "MESSAGE_INTEGRITY = 0x0008"
definition ERROR_CODE :: u16 where "ERROR_CODE = 0x0009"
definition LIFETIME :: u16 where "LIFETIME = 0x000D"
definition XOR_PEER_ADDRESS :: u16 where "XOR_PEER_ADDRESS = 0x0012"
definition ATTR_DATA :: u16 where "ATTR_DATA = 0x0013"
definition REALM :: u16 where "REALM = 0x0014"
definition NONCE :: u16 where "NONCE = 0x0015"
definition XOR_RELAYED_ADDRESS :: u16 where "XOR_RELAYED_ADDRESS = 0x0016"
definition REQUESTED_TRANSPORT :: u16 where "REQUESTED_TRANSPORT = 0x0019"
definition XOR_MAPPED_ADDRESS :: u16 where "XOR_MAPPED_ADDRESS = 0x0020"
definition SOFTWARE :: u16 where "SOFTWARE = 0x8022"
definition TRANSPORT_UDP :: byte where "TRANSPORT_UDP = 17"

lemmas turn_attrs = USERNAME_def MESSAGE_INTEGRITY_def ERROR_CODE_def LIFETIME_def
  XOR_PEER_ADDRESS_def ATTR_DATA_def REALM_def NONCE_def XOR_RELAYED_ADDRESS_def
  REQUESTED_TRANSPORT_def XOR_MAPPED_ADDRESS_def SOFTWARE_def

record attribute =
  attr_typ :: u16
  attr_val :: bytes

definition padded_len :: "nat \<Rightarrow> nat" where
  "padded_len n = (n + 3) div 4 * 4"

definition encode_attr :: "attribute \<Rightarrow> bytes" where
  "encode_attr a = u16_to_be (attr_typ a) @ u16_to_be (of_nat (length (attr_val a))) @ attr_val a @
     replicate (padded_len (length (attr_val a)) - length (attr_val a)) 0"

definition attrs_len :: "attribute list \<Rightarrow> nat" where
  "attrs_len attrs = sum_list (map (\<lambda>a. 4 + padded_len (length (attr_val a))) attrs)"

record message_builder =
  builder_type :: u16
  builder_tid :: bytes
  builder_attrs :: "attribute list"

definition new_builder :: "u16 \<Rightarrow> msg_class \<Rightarrow> bytes \<Rightarrow> message_builder" where
  "new_builder m c tid =
     \<lparr>builder_type = make_message_type m c, builder_tid = tid, builder_attrs = []\<rparr>"

definition push_attr :: "u16 \<Rightarrow> bytes \<Rightarrow> message_builder \<Rightarrow> message_builder" where
  "push_attr t v b = b\<lparr>builder_attrs := builder_attrs b @ [\<lparr>attr_typ = t, attr_val = v\<rparr>]\<rparr>"

definition push_string :: "u16 \<Rightarrow> string \<Rightarrow> message_builder \<Rightarrow> message_builder" where
  "push_string t s b = push_attr t (as_bytes s) b"

definition push_u32 :: "u16 \<Rightarrow> u32 \<Rightarrow> message_builder \<Rightarrow> message_builder" where
  "push_u32 t v b = push_attr t (u32_to_be v) b"

definition push_requested_transport_udp :: "message_builder \<Rightarrow> message_builder" where
  "push_requested_transport_udp b = push_attr REQUESTED_TRANSPORT [TRANSPORT_UDP, 0, 0, 0] b"

definition push_xor_peer_address :: "sock_addr \<Rightarrow> message_builder \<Rightarrow> message_builder" where
  "push_xor_peer_address addr b =
     push_attr XOR_PEER_ADDRESS (encode_xor_address addr (builder_tid b)) b"

definition stun_header :: "u16 \<Rightarrow> nat \<Rightarrow> bytes \<Rightarrow> bytes" where
  "stun_header t len tid = u16_to_be t @ u16_to_be (of_nat len) @ cookie_bytes @ tid"

text \<open>\<open>hmac\<close> is HMAC-SHA1; the key is \<open>None\<close> for a message without integrity.\<close>

definition encode_message :: "(bytes \<Rightarrow> bytes \<Rightarrow> bytes) \<Rightarrow> bytes option \<Rightarrow> message_builder \<Rightarrow> bytes" where
  "encode_message hmac integrity_key b =
     (let len = attrs_len (builder_attrs b) + (if integrity_key = None then 0 else 4 + 20);
          buf = stun_header (builder_type b) len (builder_tid b)
                @ concat (map encode_attr (builder_attrs b))
      in case integrity_key of
           None \<Rightarrow> buf
         | Some key \<Rightarrow> buf @ u16_to_be MESSAGE_INTEGRITY @ u16_to_be 20 @ hmac key buf)"

definition builder_finish :: "message_builder \<Rightarrow> bytes" where
  "builder_finish b = encode_message (\<lambda>_ _. []) None b"

record turn_message =
  message_type :: u16
  msg_method :: u16
  msg_class :: msg_class
  message_length :: nat
  transaction_id :: bytes
  msg_attrs :: "attribute list"

definition find_attr :: "turn_message \<Rightarrow> u16 \<Rightarrow> attribute option" where
  "find_attr m t = find (\<lambda>a. attr_typ a = t) (msg_attrs m)"

definition find_string :: "turn_message \<Rightarrow> u16 \<Rightarrow> string option" where
  "find_string m t =
     (case find_attr m t of
        None \<Rightarrow> None
      | Some a \<Rightarrow> if utf8_codes (map unat (attr_val a)) then Some (map (\<lambda>b. char_of (unat b)) (attr_val a)) else None)"

definition find_xor_address :: "turn_message \<Rightarrow> u16 \<Rightarrow> sock_addr option" where
  "find_xor_address m t =
     (case find_attr m t of
        None \<Rightarrow> None | Some a \<Rightarrow> decode_xor_address (attr_val a) (transaction_id m))"

definition find_lifetime :: "turn_message \<Rightarrow> u32 option" where
  "find_lifetime m =
     (case find_attr m LIFETIME of
        None \<Rightarrow> None
      | Some a \<Rightarrow> if length (attr_val a) \<noteq> 4 then None
                  else Some (u32_from_be (attr_val a ! 0) (attr_val a ! 1) (attr_val a ! 2) (attr_val a ! 3)))"

text \<open>Reading an attribute header at a position of the buffer.\<close>

definition u16_at :: "bytes \<Rightarrow> nat \<Rightarrow> u16" where
  "u16_at buf pos = u16_from_be (buf ! pos) (buf ! (pos + 1))"

function parse_attrs :: "bytes \<Rightarrow> nat \<Rightarrow> nat \<Rightarrow> attribute list res" where
  "parse_attrs buf pos fin =
     (if pos + 4 \<le> fin then
        let a_len = unat (u16_at buf (pos + 2)); val_start = pos + 4
        in if val_start + a_len > fin then Inl ''turn parse: attr length overflow''
           else try_then (parse_attrs buf (val_start + padded_len a_len) fin) (\<lambda>attrs.
             Inr (\<lparr>attr_typ = u16_at buf pos, attr_val = take a_len (drop val_start buf)\<rparr> # attrs))
      else Inr [])"
  by auto
termination by (relation "measure (\<lambda>(buf, pos, fin). fin - pos)") auto

declare parse_attrs.simps [simp del]

definition parse_turn :: "bytes \<Rightarrow> turn_message res" where
  "parse_turn buf =
     (if length buf < STUN_HEADER_LEN then Inl ''turn parse: too short''
      else let t = u16_at buf 0; len = unat (u16_at buf 2);
               cookie = u32_from_be (buf ! 4) (buf ! 5) (buf ! 6) (buf ! 7)
           in if cookie \<noteq> MAGIC_COOKIE then Inl ''turn parse: bad magic cookie''
              else if STUN_HEADER_LEN + len > length buf then Inl ''turn parse: length overflow''
              else try_then (parse_attrs buf STUN_HEADER_LEN (STUN_HEADER_LEN + len)) (\<lambda>attrs.
                Inr \<lparr>message_type = t, msg_method = fst (parse_message_type t),
                     msg_class = snd (parse_message_type t), message_length = len,
                     transaction_id = take 12 (drop 8 buf), msg_attrs = attrs\<rparr>))"

section \<open>Message integrity\<close>

function mi_offset :: "bytes \<Rightarrow> nat \<Rightarrow> nat \<Rightarrow> nat option" where
  "mi_offset raw pos fin =
     (if pos + 4 \<le> fin then
        if u16_at raw pos = MESSAGE_INTEGRITY then Some pos
        else mi_offset raw (pos + (4 + padded_len (unat (u16_at raw (pos + 2))))) fin
      else None)"
  by auto
termination by (relation "measure (\<lambda>(buf, pos, fin). fin - pos)") auto

declare mi_offset.simps [simp del]

definition verify_message_integrity :: "(bytes \<Rightarrow> bytes \<Rightarrow> bytes) \<Rightarrow> bytes \<Rightarrow> bytes \<Rightarrow> bool res" where
  "verify_message_integrity hmac raw key =
     try_then (parse_turn raw) (\<lambda>msg.
       case find_attr msg MESSAGE_INTEGRITY of
         None \<Rightarrow> Inr False
       | Some mi \<Rightarrow>
           if length (attr_val mi) \<noteq> 20 then Inr False
           else (case mi_offset raw STUN_HEADER_LEN (STUN_HEADER_LEN + message_length msg) of
                   None \<Rightarrow> Inr False
                 | Some off \<Rightarrow> Inr (hmac key (take off raw) = attr_val mi)))"

definition derive_long_term_key :: "(bytes \<Rightarrow> bytes) \<Rightarrow> string \<Rightarrow> string \<Rightarrow> string \<Rightarrow> bytes" where
  "derive_long_term_key md5 username realm password =
     md5 (as_bytes username @ as_bytes '':'' @ as_bytes realm @ as_bytes '':'' @ as_bytes password)"

section \<open>Requests\<close>

definition build_initial_allocate :: "bytes \<Rightarrow> bytes" where
  "build_initial_allocate tid =
     builder_finish (push_requested_transport_udp (new_builder ALLOCATE Request tid))"

definition push_auth :: "string \<Rightarrow> string \<Rightarrow> string \<Rightarrow> message_builder \<Rightarrow> message_builder" where
  "push_auth username realm nonce b =
     push_string NONCE nonce (push_string REALM realm (push_string USERNAME username b))"

definition build_allocate_with_auth ::
  "(bytes \<Rightarrow> bytes \<Rightarrow> bytes) \<Rightarrow> bytes \<Rightarrow> string \<Rightarrow> string \<Rightarrow> string \<Rightarrow> bytes \<Rightarrow> u32 \<Rightarrow> bytes" where
  "build_allocate_with_auth hmac tid username realm nonce key lifetime =
     encode_message hmac (Some key) (push_auth username realm nonce
       (push_u32 LIFETIME lifetime (push_requested_transport_udp (new_builder ALLOCATE Request tid))))"

definition build_create_permission ::
  "(bytes \<Rightarrow> bytes \<Rightarrow> bytes) \<Rightarrow> bytes \<Rightarrow> sock_addr list \<Rightarrow> string \<Rightarrow> string \<Rightarrow> string \<Rightarrow> bytes \<Rightarrow> bytes" where
  "build_create_permission hmac tid peers username realm nonce key =
     encode_message hmac (Some key) (push_auth username realm nonce
       (fold push_xor_peer_address peers (new_builder CREATE_PERMISSION Request tid)))"

definition build_create_permission_no_auth :: "bytes \<Rightarrow> sock_addr list \<Rightarrow> bytes" where
  "build_create_permission_no_auth tid peers =
     builder_finish (fold push_xor_peer_address peers (new_builder CREATE_PERMISSION Request tid))"

definition build_refresh_no_auth :: "bytes \<Rightarrow> u32 \<Rightarrow> bytes" where
  "build_refresh_no_auth tid lifetime =
     builder_finish (push_u32 LIFETIME lifetime (new_builder REFRESH Request tid))"

definition build_send_indication :: "bytes \<Rightarrow> sock_addr \<Rightarrow> bytes \<Rightarrow> bytes" where
  "build_send_indication tid peer data =
     builder_finish (push_attr ATTR_DATA data
       (push_xor_peer_address peer (new_builder SEND Indication tid)))"

definition parse_data_indication :: "bytes \<Rightarrow> (sock_addr \<times> bytes) res" where
  "parse_data_indication buf =
     try_then (parse_turn buf) (\<lambda>msg.
       if msg_method msg \<noteq> DATA \<or> msg_class msg \<noteq> Indication then Inl ''not a Data Indication''
       else case find_xor_address msg XOR_PEER_ADDRESS of
              None \<Rightarrow> Inl ''Data Indication missing XOR-PEER-ADDRESS''
            | Some peer \<Rightarrow>
                (case find_attr msg ATTR_DATA of
                   None \<Rightarrow> Inl ''Data Indication missing DATA''
                 | Some a \<Rightarrow> Inr (peer, attr_val a)))"

section \<open>Round trips\<close>

lemma le_padded_len: "n \<le> padded_len n" "padded_len n \<le> n + 3"
  unfolding padded_len_def by linarith+

lemma length_encode_attr: "length (encode_attr a) = 4 + padded_len (length (attr_val a))"
  using le_padded_len(1) [of "length (attr_val a)"] by (simp add: encode_attr_def)

lemma length_encode_attrs: "length (concat (map encode_attr as)) = attrs_len as"
  by (induction as) (simp_all add: attrs_len_def length_encode_attr)

lemma attrs_len_simps [simp]:
  "attrs_len [] = 0" "attrs_len (a # as) = 4 + padded_len (length (attr_val a)) + attrs_len as"
  by (simp_all add: attrs_len_def)

lemma u16_at_append: "u16_at (pre @ u16_to_be w @ post) (length pre) = w"
  by (simp add: u16_at_def nth_append codec_simps)

lemma unat_of_nat_u16: "n < 65536 \<Longrightarrow> unat (of_nat n :: u16) = n"
  by (simp add: unat_of_nat take_bit_nat_eq_self_iff)

lemma attr_header:
  fixes pre post :: bytes
  defines "buf a \<equiv> pre @ encode_attr a @ post"
  assumes "length (attr_val a) < 65536"
  shows "u16_at (buf a) (length pre) = attr_typ a"
    and "unat (u16_at (buf a) (length pre + 2)) = length (attr_val a)"
    and "take (length (attr_val a)) (drop (length pre + 4) (buf a)) = attr_val a"
proof -
  let ?tail = "attr_val a @ replicate (padded_len (length (attr_val a)) - length (attr_val a)) 0 @ post"
  let ?len = "u16_to_be (of_nat (length (attr_val a)))"
  have "buf a = pre @ u16_to_be (attr_typ a) @ ?len @ ?tail"
    by (simp add: buf_def encode_attr_def)
  then show "u16_at (buf a) (length pre) = attr_typ a" by (simp only: u16_at_append)
  show "unat (u16_at (buf a) (length pre + 2)) = length (attr_val a)"
    using assms(2)
    by (simp add: buf_def encode_attr_def u16_at_def nth_append codec_simps unat_of_nat_u16)
  show "take (length (attr_val a)) (drop (length pre + 4) (buf a)) = attr_val a"
    by (simp add: buf_def encode_attr_def)
qed

lemma parse_attrs_encode:
  "(\<forall>a \<in> set as. length (attr_val a) < 65536) \<Longrightarrow>
   parse_attrs (pre @ concat (map encode_attr as) @ post) (length pre) (length pre + attrs_len as) = Inr as"
proof (induction as arbitrary: pre)
  case Nil
  then show ?case by (simp add: parse_attrs.simps)
next
  case (Cons a as)
  let ?post = "concat (map encode_attr as) @ post"
  have len: "length (attr_val a) < 65536" using Cons.prems by simp
  note hd = attr_header [OF len, of pre ?post]
  have IH: "parse_attrs (pre @ encode_attr a @ ?post) (length pre + (4 + padded_len (length (attr_val a))))
      (length pre + (4 + padded_len (length (attr_val a)) + attrs_len as)) = Inr as"
    using Cons.IH [of "pre @ encode_attr a"] Cons.prems by (simp add: length_encode_attr add.assoc)
  show ?case
    using hd IH le_padded_len(1) [of "length (attr_val a)"]
    by (subst parse_attrs.simps) (simp add: Let_def add.assoc)
qed

lemma length_stun_header: "length tid = 12 \<Longrightarrow> length (stun_header t n tid) = 20"
  by (simp add: stun_header_def)

lemma stun_header_fields:
  assumes "length tid = 12" and "n < 65536"
  shows "u16_at (stun_header t n tid @ rest) 0 = t"
    and "unat (u16_at (stun_header t n tid @ rest) 2) = n"
    and "u32_from_be ((stun_header t n tid @ rest) ! 4) ((stun_header t n tid @ rest) ! 5)
           ((stun_header t n tid @ rest) ! 6) ((stun_header t n tid @ rest) ! 7) = MAGIC_COOKIE"
    and "take 12 (drop 8 (stun_header t n tid @ rest)) = tid"
proof -
  show "u16_at (stun_header t n tid @ rest) 0 = t"
    using u16_at_append [of "[]" t] by (simp add: stun_header_def del: u16_to_be.simps)
  show "unat (u16_at (stun_header t n tid @ rest) 2) = n"
    using assms(2) by (simp add: stun_header_def u16_at_def codec_simps unat_of_nat_u16)
  show "u32_from_be ((stun_header t n tid @ rest) ! 4) ((stun_header t n tid @ rest) ! 5)
      ((stun_header t n tid @ rest) ! 6) ((stun_header t n tid @ rest) ! 7) = MAGIC_COOKIE"
    by (simp add: stun_header_def cookie_bytes_def codec_simps)
  show "take 12 (drop 8 (stun_header t n tid @ rest)) = tid"
    using assms(1) by (simp add: stun_header_def)
qed

lemma attrs_len_member: "a \<in> set as \<Longrightarrow> length (attr_val a) \<le> attrs_len as"
proof (induction as)
  case (Cons x xs)
  with le_padded_len(1) [of "length (attr_val x)"] show ?case by auto
qed simp

lemma parse_stun:
  assumes tid: "length tid = 12" and n: "attrs_len as < 65536"
  shows "parse_turn (stun_header t (attrs_len as) tid @ concat (map encode_attr as)) =
    Inr \<lparr>message_type = t, msg_method = fst (parse_message_type t), msg_class = snd (parse_message_type t),
      message_length = attrs_len as, transaction_id = tid, msg_attrs = as\<rparr>"
proof -
  have as: "\<forall>a \<in> set as. length (attr_val a) < 65536"
    using n attrs_len_member by fastforce
  have "parse_attrs (stun_header t (attrs_len as) tid @ concat (map encode_attr as)) 20 (20 + attrs_len as)
      = Inr as"
    using parse_attrs_encode [OF as, of "stun_header t (attrs_len as) tid" "[]"]
    by (simp only: length_stun_header [OF tid] append_Nil2)
  then show ?thesis
    using stun_header_fields [OF tid n, of t "concat (map encode_attr as)"]
    by (simp add: parse_turn_def STUN_HEADER_LEN_def Let_def length_stun_header [OF tid]
        length_encode_attrs tid)
qed

definition builder_ok :: "message_builder \<Rightarrow> bool" where
  "builder_ok b \<longleftrightarrow> length (builder_tid b) = 12 \<and> attrs_len (builder_attrs b) + 24 < 65536"

definition message_of :: "message_builder \<Rightarrow> nat \<Rightarrow> attribute list \<Rightarrow> turn_message" where
  "message_of b n attrs = \<lparr>message_type = builder_type b,
     msg_method = fst (parse_message_type (builder_type b)),
     msg_class = snd (parse_message_type (builder_type b)),
     message_length = n, transaction_id = builder_tid b, msg_attrs = attrs\<rparr>"

lemma parse_finish:
  "builder_ok b \<Longrightarrow> parse_turn (builder_finish b)
     = Inr (message_of b (attrs_len (builder_attrs b)) (builder_attrs b))"
  using parse_stun [of "builder_tid b" "builder_attrs b" "builder_type b"]
  by (simp add: builder_ok_def builder_finish_def encode_message_def Let_def message_of_def)

lemma parse_with_integrity:
  assumes "builder_ok b" and hmac: "\<And>k m. length (hmac k m) = 20"
  defines "as \<equiv> builder_attrs b"
  defines "buf \<equiv> stun_header (builder_type b) (attrs_len as + 24) (builder_tid b) @ concat (map encode_attr as)"
  shows "encode_message hmac (Some key) b = buf @ encode_attr \<lparr>attr_typ = MESSAGE_INTEGRITY, attr_val = hmac key buf\<rparr>"
    and "parse_turn (encode_message hmac (Some key) b) =
      Inr (message_of b (attrs_len as + 24) (as @ [\<lparr>attr_typ = MESSAGE_INTEGRITY, attr_val = hmac key buf\<rparr>]))"
proof -
  let ?mi = "\<lparr>attr_typ = MESSAGE_INTEGRITY, attr_val = hmac key buf\<rparr>"
  have len: "attrs_len (as @ [?mi]) = attrs_len as + 24"
    by (simp add: attrs_len_def hmac padded_len_def)
  show eq: "encode_message hmac (Some key) b = buf @ encode_attr ?mi"
    by (simp add: encode_message_def Let_def buf_def as_def encode_attr_def hmac padded_len_def)
  have "length (builder_tid b) = 12" "attrs_len (as @ [?mi]) < 65536"
    using assms(1) len by (simp_all add: builder_ok_def as_def)
  from parse_stun [OF this, of "builder_type b", unfolded len]
  show "parse_turn (encode_message hmac (Some key) b) = Inr (message_of b (attrs_len as + 24) (as @ [?mi]))"
    unfolding eq message_of_def by (simp add: buf_def)
qed

lemma mi_offset_skip:
  "(\<forall>a \<in> set as. length (attr_val a) < 65536 \<and> attr_typ a \<noteq> MESSAGE_INTEGRITY) \<Longrightarrow>
   length pre + attrs_len as \<le> fin \<Longrightarrow>
   mi_offset (pre @ concat (map encode_attr as) @ post) (length pre) fin =
   mi_offset (pre @ concat (map encode_attr as) @ post) (length pre + attrs_len as) fin"
proof (induction as arbitrary: pre)
  case (Cons a as)
  let ?post = "concat (map encode_attr as) @ post"
  have len: "length (attr_val a) < 65536" using Cons.prems by simp
  note hd = attr_header [OF len, of pre ?post]
  have IH: "mi_offset (pre @ encode_attr a @ ?post) (length pre + (4 + padded_len (length (attr_val a)))) fin
      = mi_offset (pre @ encode_attr a @ ?post) (length pre + (4 + padded_len (length (attr_val a)) + attrs_len as)) fin"
    using Cons.IH [of "pre @ encode_attr a"] Cons.prems by (simp add: length_encode_attr add.assoc)
  show ?case
    using hd IH Cons.prems by (subst mi_offset.simps) (simp add: add.assoc)
qed simp

lemma find_last: "(\<forall>x \<in> set xs. \<not> P x) \<Longrightarrow> P y \<Longrightarrow> find P (xs @ [y]) = Some y"
  by (induction xs) auto

lemma integrity_roundtrip:
  assumes ok: "builder_ok b" and hmac: "\<And>k m. length (hmac k m) = 20"
    and no_mi: "\<forall>a \<in> set (builder_attrs b). attr_typ a \<noteq> MESSAGE_INTEGRITY"
  defines "buf \<equiv> stun_header (builder_type b) (attrs_len (builder_attrs b) + 24) (builder_tid b)
      @ concat (map encode_attr (builder_attrs b))"
  shows "verify_message_integrity hmac (encode_message hmac (Some key) b) key' = Inr (hmac key' buf = hmac key buf)"
proof -
  let ?as = "builder_attrs b"
  let ?mi = "\<lparr>attr_typ = MESSAGE_INTEGRITY, attr_val = hmac key buf\<rparr>"
  let ?hd = "stun_header (builder_type b) (attrs_len ?as + 24) (builder_tid b)"
  note enc = parse_with_integrity [where hmac = hmac and key = key, OF ok hmac, folded buf_def]
  have tid: "length (builder_tid b) = 12" using ok by (simp add: builder_ok_def)
  have len: "\<forall>a \<in> set ?as. length (attr_val a) < 65536 \<and> attr_typ a \<noteq> MESSAGE_INTEGRITY"
    using ok no_mi attrs_len_member by (fastforce simp: builder_ok_def)
  have buf: "length buf = 20 + attrs_len ?as"
    by (simp add: buf_def length_stun_header [OF tid] length_encode_attrs)
  have find: "find (\<lambda>a. attr_typ a = MESSAGE_INTEGRITY) (?as @ [?mi]) = Some ?mi"
    by (rule find_last) (use no_mi in auto)
  have "mi_offset (buf @ encode_attr ?mi) 20 (20 + (attrs_len ?as + 24))
      = mi_offset (buf @ encode_attr ?mi) (length buf) (20 + (attrs_len ?as + 24))"
    using mi_offset_skip [OF len, of ?hd _ "encode_attr ?mi"]
    by (simp add: buf_def length_stun_header [OF tid] length_encode_attrs)
  also have "\<dots> = Some (length buf)"
    using attr_header(1) [of ?mi buf "[]"] hmac buf by (subst mi_offset.simps) simp
  finally show ?thesis
    by (simp add: verify_message_integrity_def enc(1) enc(2) [unfolded enc(1)] find_attr_def
        message_of_def find hmac STUN_HEADER_LEN_def)
qed

section \<open>STUN binding\<close>

definition MSG_TYPE_BINDING_REQUEST :: u16 where "MSG_TYPE_BINDING_REQUEST = 0x0001"
definition MSG_TYPE_BINDING_SUCCESS :: u16 where "MSG_TYPE_BINDING_SUCCESS = 0x0101"

definition build_binding_request :: "bytes \<Rightarrow> bytes" where
  "build_binding_request tid =
     u16_to_be MSG_TYPE_BINDING_REQUEST @ u16_to_be 0 @ u32_to_be MAGIC_COOKIE @ tid"

definition stun_parse_header :: "bytes \<Rightarrow> (u16 \<times> bytes) option" where
  "stun_parse_header msg =
     (if length msg < STUN_HEADER_LEN then None
      else if u32_from_be (msg ! 4) (msg ! 5) (msg ! 6) (msg ! 7) \<noteq> MAGIC_COOKIE then None
      else Some (u16_at msg 0, take 12 (drop 8 msg)))"

definition stun_build_binding_success :: "bytes \<Rightarrow> sock_addr \<Rightarrow> bytes" where
  "stun_build_binding_success tid mapped =
     (let xport = port mapped XOR ucast (drop_bit 16 MAGIC_COOKIE);
          attr_value = (case ip mapped of
             IPv4 a \<Rightarrow> [0, 1] @ u16_to_be xport @ xor_bytes (u32_to_be a) cookie_bytes
           | IPv6 hi lo \<Rightarrow> [0, 2] @ u16_to_be xport
               @ xor_bytes (u64_to_be hi @ u64_to_be lo) (cookie_bytes @ tid));
          attr_total = 4 + length attr_value
      in u16_to_be MSG_TYPE_BINDING_SUCCESS @ u16_to_be (of_nat attr_total) @ cookie_bytes @ tid
         @ u16_to_be XOR_MAPPED_ADDRESS @ u16_to_be (of_nat (length attr_value)) @ attr_value)"

text \<open>\<open>cookie_and_tid\<close> is the 16 bytes of the magic cookie and the transaction id.\<close>

definition parse_xor_mapped_value :: "bytes \<Rightarrow> bytes \<Rightarrow> sock_addr option" where
  "parse_xor_mapped_value v cookie_and_tid =
     (if length v < 4 then None
      else let family = v ! 1;
               prt = u16_from_be (v ! 2) (v ! 3) XOR ucast (drop_bit 16 MAGIC_COOKIE)
           in if family = 1 then
                (if length v < 8 then None
                 else Some (SocketAddr (ipv4_from (xor_bytes (take 4 (drop 4 v)) cookie_and_tid)) prt))
              else if family = 2 then
                (if length v < 20 then None
                 else Some (SocketAddr (ipv6_from (xor_bytes (take 16 (drop 4 v)) cookie_and_tid)) prt))
              else None)"

function find_mapped :: "bytes \<Rightarrow> nat \<Rightarrow> nat \<Rightarrow> sock_addr option" where
  "find_mapped msg pos fin =
     (if pos + 4 \<le> fin then
        let attr_type = u16_at msg pos; attr_len = unat (u16_at msg (pos + 2)); value_start = pos + 4
        in if value_start + attr_len > length msg then None
           else if attr_type = XOR_MAPPED_ADDRESS then
             parse_xor_mapped_value (take attr_len (drop value_start msg)) (take 16 (drop 4 msg))
           else find_mapped msg (value_start + padded_len attr_len) fin
      else None)"
  by auto
termination by (relation "measure (\<lambda>(buf, pos, fin). fin - pos)") auto

declare find_mapped.simps [simp del]

definition parse_xor_mapped_address :: "bytes \<Rightarrow> bytes \<Rightarrow> sock_addr option" where
  "parse_xor_mapped_address msg expected_tid =
     (if length msg < STUN_HEADER_LEN then None
      else if u16_at msg 0 \<noteq> MSG_TYPE_BINDING_SUCCESS then None
      else let len = unat (u16_at msg 2) in
        if len + STUN_HEADER_LEN > length msg then None
        else if u32_from_be (msg ! 4) (msg ! 5) (msg ! 6) (msg ! 7) \<noteq> MAGIC_COOKIE then None
        else if take 12 (drop 8 msg) \<noteq> expected_tid then None
        else find_mapped msg STUN_HEADER_LEN (STUN_HEADER_LEN + len))"

text \<open>
  The wait for the answer to a binding request: each receive of the socket ends in the timeout, in
  an error or in a datagram; datagrams that do not answer this request are skipped.
\<close>

datatype recv_event = RecvTimeout | RecvError string | Datagram bytes

fun await_reflexive :: "bytes \<Rightarrow> recv_event list \<Rightarrow> sock_addr res" where
  "await_reflexive tid [] = Inl ''STUN timeout''"
| "await_reflexive tid (RecvTimeout # evs) = Inl ''STUN timeout''"
| "await_reflexive tid (RecvError e # evs) = Inl (''STUN recv error: '' @ e)"
| "await_reflexive tid (Datagram bs # evs) =
     (case parse_xor_mapped_address bs tid of
        Some addr \<Rightarrow> Inr addr
      | None \<Rightarrow> await_reflexive tid evs)"

lemma parse_xor_mapped_value_eq:
  "length tid = 12 \<Longrightarrow> parse_xor_mapped_value v (cookie_bytes @ tid) = decode_xor_address v tid"
proof -
  assume "length tid = 12"
  have "xor_bytes (take 4 (drop 4 v)) (cookie_bytes @ tid) = xor_bytes (take 4 (drop 4 v)) cookie_bytes"
    if "8 \<le> length v"
    using that by (simp add: xor_bytes_def zip_append2)
  then show ?thesis
    by (simp add: parse_xor_mapped_value_def decode_xor_address_def Let_def xor_port_def)
qed

lemma stun_build_binding_success_eq:
  "stun_build_binding_success tid mapped =
     stun_header MSG_TYPE_BINDING_SUCCESS (4 + length (encode_xor_address mapped tid)) tid
     @ u16_to_be XOR_MAPPED_ADDRESS @ u16_to_be (of_nat (length (encode_xor_address mapped tid)))
     @ encode_xor_address mapped tid"
  by (cases "ip mapped")
    (simp_all add: stun_build_binding_success_def encode_xor_address_def stun_header_def xor_port_def Let_def)

definition mapped_attr :: "sock_addr \<Rightarrow> bytes \<Rightarrow> attribute" where
  "mapped_attr mapped tid = \<lparr>attr_typ = XOR_MAPPED_ADDRESS, attr_val = encode_xor_address mapped tid\<rparr>"

lemma padded_encode_xor_address:
  "length tid = 12 \<Longrightarrow> padded_len (length (encode_xor_address a tid)) = length (encode_xor_address a tid)"
  by (cases "ip a") (simp_all add: encode_xor_address_def padded_len_def)

lemma stun_build_binding_success_attr:
  "length tid = 12 \<Longrightarrow> stun_build_binding_success tid mapped =
     stun_header MSG_TYPE_BINDING_SUCCESS (attrs_len [mapped_attr mapped tid]) tid
     @ concat (map encode_attr [mapped_attr mapped tid])"
  by (simp add: stun_build_binding_success_eq mapped_attr_def encode_attr_def padded_encode_xor_address)

lemma parse_binding_success:
  assumes tid: "length tid = 12"
  shows "parse_xor_mapped_address (stun_header MSG_TYPE_BINDING_SUCCESS
      (attrs_len [mapped_attr mapped tid]) tid @ encode_attr (mapped_attr mapped tid)) tid = Some mapped"
proof -
  let ?a = "mapped_attr mapped tid"
  let ?hd = "stun_header MSG_TYPE_BINDING_SUCCESS (attrs_len [?a]) tid"
  let ?v = "encode_xor_address mapped tid"
  have v: "length ?v \<le> 20" "padded_len (length ?v) = length ?v"
    by (rule length_encode_xor_address [OF tid], rule padded_encode_xor_address [OF tid])
  then have n: "attrs_len [?a] < 65536" "attrs_len [?a] = 4 + length ?v"
    "length (attr_val ?a) < 65536"
    by (simp_all add: mapped_attr_def)
  have hlen: "length ?hd = 20" by (rule length_stun_header [OF tid])
  note attr = attr_header [OF n(3), of ?hd "[]", unfolded hlen append_Nil2]
  have "take 16 (drop 4 (?hd @ encode_attr ?a)) = cookie_bytes @ tid"
    using tid by (simp add: stun_header_def)
  then have "find_mapped (?hd @ encode_attr ?a) 20 (20 + attrs_len [?a]) = Some mapped"
    using attr xor_address_roundtrip [OF tid, of mapped] n v
    by (subst find_mapped.simps)
      (simp add: Let_def length_encode_attr length_stun_header [OF tid] tid
          parse_xor_mapped_value_eq [OF tid] mapped_attr_def)
  then show ?thesis
    using stun_header_fields [OF tid n(1), of MSG_TYPE_BINDING_SUCCESS "encode_attr ?a"] n v
    by (simp add: parse_xor_mapped_address_def STUN_HEADER_LEN_def Let_def
        length_stun_header [OF tid] length_encode_attr tid mapped_attr_def)
qed

section \<open>Properties\<close>

text \<open>
  C33. Long-term authentication: a message that the builder signs with a key verifies under that
  key, and parses back to the attributes that were pushed followed by MESSAGE-INTEGRITY, for any
  HMAC with 20-byte tags, any attribute values and any message that fits the 16-bit length field. No
  attribute that was pushed is itself a MESSAGE-INTEGRITY: the verifier checks at the first one it
  finds, and the builder appends the one it computes.
\<close>

theorem message_integrity_roundtrip:
  assumes "builder_ok b" and "\<And>k m. length (hmac k m) = 20"
    and "\<forall>a \<in> set (builder_attrs b). attr_typ a \<noteq> MESSAGE_INTEGRITY"
  shows "verify_message_integrity hmac (encode_message hmac (Some key) b) key = Inr True \<and>
    (\<exists>msg tag. parse_turn (encode_message hmac (Some key) b) = Inr msg \<and>
       msg_attrs msg = builder_attrs b @ [\<lparr>attr_typ = MESSAGE_INTEGRITY, attr_val = tag\<rparr>] \<and>
       transaction_id msg = builder_tid b)"
proof -
  have "verify_message_integrity hmac (encode_message hmac (Some key) b) key = Inr True"
    using integrity_roundtrip [where hmac = hmac and key = key and key' = key, OF assms] by simp
  moreover have "\<exists>msg tag. parse_turn (encode_message hmac (Some key) b) = Inr msg \<and>
       msg_attrs msg = builder_attrs b @ [\<lparr>attr_typ = MESSAGE_INTEGRITY, attr_val = tag\<rparr>] \<and>
       transaction_id msg = builder_tid b"
    using parse_with_integrity(2) [where hmac = hmac and key = key, OF assms(1,2)]
    by (simp add: message_of_def)
  ultimately show ?thesis by blast
qed

theorem message_integrity_roundtrip_witness:
  "verify_message_integrity (\<lambda>k m. replicate 20 (hd k))
     (encode_message (\<lambda>k m. replicate 20 (hd k)) (Some [7]) (push_string USERNAME ''bob''
       (new_builder ALLOCATE Request (replicate 12 0)))) [7] = Inr True"
  by (rule message_integrity_roundtrip [THEN conjunct1])
    (simp_all add: builder_ok_def push_string_def push_attr_def new_builder_def padded_len_def turn_attrs)

end
