(* ===== verification/Turn_Server.thy ===== *)
theory Turn_Server
  imports Turn_Codec "HOL-Library.AList"
begin

text \<open>
  The STUN/TURN relay of the server (\<open>ParanoiaServer/src/voip_stun.rs\<close>): its own copy of the
  message codec, the table of allocations with its reverse index, the handlers of the packet loop,
  and the garbage collector that runs beside it. A handler takes the table and returns the new one
  with the effects on sockets, in order; failures of \<open>send_to\<close> are only logged by the code and have
  no branch here. The operating system is a parameter: \<open>bind\<close> gives the local address of a newly
  bound socket or an error. Instants are natural numbers of nanoseconds.
\<close>

section \<open>Codec\<close>

definition srv_padded_len :: "nat \<Rightarrow> nat" where
  "srv_padded_len len = (len + 3) div 4 * 4"

definition srv_make_message_type :: "u16 \<Rightarrow> msg_class \<Rightarrow> u16" where
  "srv_make_message_type meth cls =
     (let c = (case cls of Request \<Rightarrow> 0 | Indication \<Rightarrow> 1 | SuccessResponse \<Rightarrow> 2 | ErrorResponse \<Rightarrow> 3);
          c0 = c AND 1;
          c1 = drop_bit 1 (c AND 2);
          m3_0 = meth AND 0x000F;
          m6_4 = drop_bit 4 (meth AND 0x0070);
          m11_7 = drop_bit 7 (meth AND 0x0F80)
      in push_bit 9 m11_7 OR push_bit 8 c1 OR push_bit 5 m6_4 OR push_bit 4 c0 OR m3_0)"

definition srv_parse_message_type :: "u16 \<Rightarrow> u16 \<times> msg_class" where
  "srv_parse_message_type t =
     (let c0 = drop_bit 4 (t AND 0x0010);
          c1 = drop_bit 8 (t AND 0x0100);
          bits = push_bit 1 c1 OR c0;
          cls = (if bits = 0 then Request else if bits = 1 then Indication
                 else if bits = 2 then SuccessResponse else ErrorResponse);
          m3_0 = t AND 0x000F;
          m6_4 = drop_bit 1 (t AND 0x00E0);
          m11_7 = drop_bit 2 (t AND 0x3E00)
      in (m11_7 OR m6_4 OR m3_0, cls))"

record srv_message =
  m_method :: u16
  m_class :: msg_class
  m_tid :: bytes
  m_attrs :: "attribute list"

definition srv_find :: "srv_message \<Rightarrow> u16 \<Rightarrow> bytes option" where
  "srv_find m t = map_option attr_val (find (\<lambda>a. attr_typ a = t) (m_attrs m))"

definition parse_header :: "bytes \<Rightarrow> (u16 \<times> bytes) option" where
  "parse_header msg =
     (if length msg < STUN_HEADER_LEN then None
      else if u32_from_be (msg ! 4) (msg ! 5) (msg ! 6) (msg ! 7) \<noteq> MAGIC_COOKIE then None
      else if length msg < STUN_HEADER_LEN + unat (u16_at msg 2) then None
      else if msg ! 0 AND 0xC0 \<noteq> 0 then None
      else Some (u16_at msg 0, take 12 (drop 8 msg)))"

function srv_parse_attrs :: "bytes \<Rightarrow> nat \<Rightarrow> nat \<Rightarrow> attribute list option" where
  "srv_parse_attrs msg pos fin =
     (if pos + 4 \<le> fin then
        let len = unat (u16_at msg (pos + 2)); value_start = pos + 4
        in if value_start + len > fin then None
           else map_option (\<lambda>attrs. \<lparr>attr_typ = u16_at msg pos, attr_val = take len (drop value_start msg)\<rparr> # attrs)
                  (srv_parse_attrs msg (value_start + srv_padded_len len) fin)
      else Some [])"
  by auto
termination by (relation "measure (\<lambda>(msg, pos, fin). fin - pos)") auto

declare srv_parse_attrs.simps [simp del]

definition parse_message :: "bytes \<Rightarrow> srv_message option" where
  "parse_message msg =
     (case parse_header msg of
        None \<Rightarrow> None
      | Some (mtype, tid) \<Rightarrow>
          map_option (\<lambda>attrs. \<lparr>m_method = fst (srv_parse_message_type mtype),
              m_class = snd (srv_parse_message_type mtype), m_tid = tid, m_attrs = attrs\<rparr>)
            (srv_parse_attrs msg STUN_HEADER_LEN (STUN_HEADER_LEN + unat (u16_at msg 2))))"

definition build_message :: "u16 \<Rightarrow> msg_class \<Rightarrow> bytes \<Rightarrow> (u16 \<times> bytes) list \<Rightarrow> bytes" where
  "build_message meth cls tid attrs =
     (let len = sum_list (map (\<lambda>(_, v). 4 + srv_padded_len (length v)) attrs)
      in u16_to_be (srv_make_message_type meth cls) @ u16_to_be (of_nat len) @ u32_to_be MAGIC_COOKIE @ tid
         @ concat (map (\<lambda>(t, v). u16_to_be t @ u16_to_be (of_nat (length v)) @ v
             @ replicate (srv_padded_len (length v) - length v) 0) attrs))"

definition srv_encode_xor_address :: "sock_addr \<Rightarrow> bytes \<Rightarrow> bytes" where
  "srv_encode_xor_address addr tid =
     (let cookie = u32_to_be MAGIC_COOKIE;
          port_xor = port addr XOR ucast (drop_bit 16 MAGIC_COOKIE)
      in case ip addr of
           IPv4 a \<Rightarrow> [0, 1] @ u16_to_be port_xor @ xor_bytes (octets (ip addr)) cookie
         | IPv6 hi lo \<Rightarrow> [0, 2] @ u16_to_be port_xor @ xor_bytes (octets (ip addr)) (cookie @ tid))"

definition srv_decode_xor_address :: "bytes \<Rightarrow> bytes \<Rightarrow> sock_addr option" where
  "srv_decode_xor_address v tid =
     (if length v < 4 then None
      else let family = v ! 1;
               prt = u16_from_be (v ! 2) (v ! 3) XOR ucast (drop_bit 16 MAGIC_COOKIE);
               cookie = u32_to_be MAGIC_COOKIE
           in if family = 1 then
                (if length v < 8 then None
                 else Some (SocketAddr (ipv4_from (xor_bytes (take 4 (drop 4 v)) cookie)) prt))
              else if family = 2 then
                (if length v < 20 then None
                 else Some (SocketAddr (ipv6_from (xor_bytes (take 16 (drop 4 v)) (cookie @ tid))) prt))
              else None)"

definition build_success :: "u16 \<Rightarrow> bytes \<Rightarrow> (u16 \<times> bytes) list \<Rightarrow> bytes" where
  "build_success meth tid attrs = build_message meth SuccessResponse tid attrs"

definition build_binding_success :: "bytes \<Rightarrow> sock_addr \<Rightarrow> bytes" where
  "build_binding_success tid mapped =
     build_message BINDING SuccessResponse tid [(XOR_MAPPED_ADDRESS, srv_encode_xor_address mapped tid)]"

definition build_error :: "u16 \<Rightarrow> bytes \<Rightarrow> nat \<Rightarrow> string \<Rightarrow> bytes" where
  "build_error meth tid code reason =
     build_message meth ErrorResponse tid
       [(ERROR_CODE, [0, 0, of_nat (code div 100), of_nat (code mod 100)] @ as_bytes reason),
        (SOFTWARE, as_bytes ''Paranoia TURN'')]"

text \<open>The low 96 bits of the clock in nanoseconds.\<close>

definition pseudo_transaction_id :: "128 word \<Rightarrow> bytes" where
  "pseudo_transaction_id nanos =
     u32_to_be (ucast (drop_bit 64 nanos)) @ u32_to_be (ucast (drop_bit 32 nanos)) @ u32_to_be (ucast nanos)"

definition build_data_indication :: "128 word \<Rightarrow> sock_addr \<Rightarrow> bytes \<Rightarrow> bytes" where
  "build_data_indication nanos peer data =
     (let tid = pseudo_transaction_id nanos
      in build_message DATA Indication tid
           [(XOR_PEER_ADDRESS, srv_encode_xor_address peer tid), (ATTR_DATA, data)])"

definition MAX_UDP_PACKET :: nat where "MAX_UDP_PACKET = 2048"

definition TURN_LIFETIME_SECONDS :: u32 where "TURN_LIFETIME_SECONDS = 600"

definition parse_lifetime :: "srv_message \<Rightarrow> u32" where
  "parse_lifetime msg =
     (case srv_find msg LIFETIME of
        Some v \<Rightarrow> if length v = 4 then u32_from_be (v ! 0) (v ! 1) (v ! 2) (v ! 3) else TURN_LIFETIME_SECONDS
      | None \<Rightarrow> TURN_LIFETIME_SECONDS)"

section \<open>Relay sockets\<close>

fun is_unspecified :: "ip_addr \<Rightarrow> bool" where
  "is_unspecified (IPv4 a) = (a = 0)"
| "is_unspecified (IPv6 hi lo) = (hi = 0 \<and> lo = 0)"

definition relay_bind_addr :: "sock_addr \<Rightarrow> sock_addr \<Rightarrow> sock_addr" where
  "relay_bind_addr control_bind client =
     SocketAddr
       (case (ip client, ip control_bind) of
          (IPv4 _, IPv4 b) \<Rightarrow> if \<not> is_unspecified (IPv4 b) then IPv4 b else IPv4 0
        | (IPv4 _, _) \<Rightarrow> IPv4 0
        | (IPv6 _ _, IPv6 hi lo) \<Rightarrow> if \<not> is_unspecified (IPv6 hi lo) then IPv6 hi lo else IPv6 0 0
        | (IPv6 _ _, _) \<Rightarrow> IPv6 0 0) 0"

fun try_ports :: "(sock_addr \<Rightarrow> sock_addr res) \<Rightarrow> ip_addr \<Rightarrow> u16 list \<Rightarrow> string \<Rightarrow> sock_addr res" where
  "try_ports bind a [] last_err = Inl last_err"
| "try_ports bind a (p # ps) last_err =
     (case bind (SocketAddr a p) of Inr sock \<Rightarrow> Inr sock | Inl e \<Rightarrow> try_ports bind a ps e)"

definition bind_relay_socket ::
  "(sock_addr \<Rightarrow> sock_addr res) \<Rightarrow> sock_addr \<Rightarrow> sock_addr \<Rightarrow> (u16 \<times> u16) option \<Rightarrow> sock_addr res" where
  "bind_relay_socket bind control_bind client port_range =
     (let base = relay_bind_addr control_bind client
      in case port_range of
           None \<Rightarrow> bind base
         | Some (lo, hi) \<Rightarrow>
             try_ports bind (ip base) (map of_nat [unat lo ..< Suc (unat hi)])
               (''all ports in relay range '' @ show_nat (unat lo) @ ''-'' @ show_nat (unat hi) @ '' are busy''))"

definition public_addr :: "sock_addr \<Rightarrow> ip_addr option \<Rightarrow> sock_addr" where
  "public_addr loc public_ip =
     (case public_ip of Some i \<Rightarrow> SocketAddr i (port loc) | None \<Rightarrow> loc)"

section \<open>Allocations\<close>

type_synonym instant = nat

definition from_secs :: "nat \<Rightarrow> nat" where
  "from_secs n = n * 1000000000"

text \<open>\<open>relay_socket\<close> stands for the socket by its local address.\<close>

record allocation =
  relay_socket :: sock_addr
  relayed_addr :: sock_addr
  expires_at :: instant

record alloc_table =
  by_client :: "(sock_addr \<times> allocation) list"
  by_relayed :: "(sock_addr \<times> sock_addr) list"

definition empty_table :: alloc_table where
  "empty_table = \<lparr>by_client = [], by_relayed = []\<rparr>"

datatype turn_effect =
    ToClient sock_addr bytes
  | FromRelay sock_addr sock_addr bytes
  | SpawnRelay sock_addr sock_addr
  | StopRelay sock_addr

definition remove_allocation :: "sock_addr \<Rightarrow> allocation \<Rightarrow> alloc_table \<Rightarrow> alloc_table" where
  "remove_allocation client a tbl =
     tbl\<lparr>by_client := AList.delete client (by_client tbl),
         by_relayed := AList.delete (relayed_addr a) (by_relayed tbl)\<rparr>"

definition touch_allocation :: "sock_addr \<Rightarrow> allocation \<Rightarrow> instant \<Rightarrow> alloc_table \<Rightarrow> alloc_table" where
  "touch_allocation client a expiry tbl =
     tbl\<lparr>by_client := AList.update client (a\<lparr>expires_at := expiry\<rparr>) (by_client tbl)\<rparr>"

text \<open>
  The two critical sections of \<open>get_or_create_allocation\<close>: the first finds a live allocation and
  renews it, or drops an expired one; the second enters the new one.
\<close>

definition alloc_lookup ::
  "instant \<Rightarrow> sock_addr \<Rightarrow> alloc_table \<Rightarrow> allocation option \<times> alloc_table \<times> turn_effect list" where
  "alloc_lookup now client tbl =
     (case map_of (by_client tbl) client of
        None \<Rightarrow> (None, tbl, [])
      | Some existing \<Rightarrow>
          if expires_at existing > now then
            let expiry = now + from_secs (unat TURN_LIFETIME_SECONDS)
            in (Some (existing\<lparr>expires_at := expiry\<rparr>), touch_allocation client existing expiry tbl, [])
          else (None, remove_allocation client existing tbl, [StopRelay (relay_socket existing)]))"

definition alloc_insert :: "sock_addr \<Rightarrow> allocation \<Rightarrow> alloc_table \<Rightarrow> alloc_table" where
  "alloc_insert client a tbl =
     tbl\<lparr>by_client := AList.update client a (by_client tbl),
         by_relayed := AList.update (relayed_addr a) client (by_relayed tbl)\<rparr>"

definition new_allocation :: "instant \<Rightarrow> ip_addr option \<Rightarrow> sock_addr \<Rightarrow> allocation" where
  "new_allocation now public_ip loc =
     \<lparr>relay_socket = loc, relayed_addr = public_addr loc public_ip,
      expires_at = now + from_secs (unat TURN_LIFETIME_SECONDS)\<rparr>"

text \<open>What the listener was started with, and the sockets the system gives it.\<close>

record turn_env =
  control_bind :: sock_addr
  turn_public_ip :: "ip_addr option"
  relay_port_range :: "(u16 \<times> u16) option"
  os_bind :: "sock_addr \<Rightarrow> sock_addr res"

definition get_or_create_allocation ::
  "turn_env \<Rightarrow> instant \<Rightarrow> sock_addr \<Rightarrow> alloc_table \<Rightarrow> allocation res \<times> alloc_table \<times> turn_effect list" where
  "get_or_create_allocation env now client tbl =
     (case alloc_lookup now client tbl of
        (Some a, tbl', effs) \<Rightarrow> (Inr a, tbl', effs)
      | (None, tbl', effs) \<Rightarrow>
          (case bind_relay_socket (os_bind env) (control_bind env) client (relay_port_range env) of
             Inl e \<Rightarrow> (Inl e, tbl', effs)
           | Inr loc \<Rightarrow>
               let a = new_allocation now (turn_public_ip env) loc
               in (Inr a, alloc_insert client a tbl', effs @ [SpawnRelay client loc])))"

section \<open>Handlers\<close>

definition relay_packet :: "128 word \<Rightarrow> sock_addr \<Rightarrow> sock_addr \<Rightarrow> bytes \<Rightarrow> turn_effect" where
  "relay_packet nanos client peer buf = ToClient client (build_data_indication nanos peer buf)"

definition handle_allocate ::
  "turn_env \<Rightarrow> instant \<Rightarrow> sock_addr \<Rightarrow> srv_message \<Rightarrow> alloc_table \<Rightarrow> alloc_table \<times> turn_effect list" where
  "handle_allocate env now from_addr msg tbl =
     (let requested_udp = (case srv_find msg REQUESTED_TRANSPORT of
                             Some v \<Rightarrow> length v = 4 \<and> v ! 0 = TRANSPORT_UDP | None \<Rightarrow> False)
      in if \<not> requested_udp then
           (tbl, [ToClient from_addr (build_error ALLOCATE (m_tid msg) 400 ''Bad Request'')])
         else case get_or_create_allocation env now from_addr tbl of
           (Inr a, tbl', effs) \<Rightarrow>
             (tbl', effs @ [ToClient from_addr (build_success ALLOCATE (m_tid msg)
               [(XOR_RELAYED_ADDRESS, srv_encode_xor_address (relayed_addr a) (m_tid msg)),
                (XOR_MAPPED_ADDRESS, srv_encode_xor_address from_addr (m_tid msg)),
                (LIFETIME, u32_to_be TURN_LIFETIME_SECONDS),
                (SOFTWARE, as_bytes ''Paranoia TURN'')])])
         | (Inl e, tbl', effs) \<Rightarrow>
             (tbl', effs @ [ToClient from_addr (build_error ALLOCATE (m_tid msg) 508 ''Insufficient Capacity'')]))"

text \<open>The critical section of \<open>handle_refresh\<close>.\<close>

definition refresh_table ::
  "instant \<Rightarrow> sock_addr \<Rightarrow> u32 \<Rightarrow> alloc_table \<Rightarrow> alloc_table \<times> turn_effect list" where
  "refresh_table now from_addr lifetime tbl =
     (case map_of (by_client tbl) from_addr of
        None \<Rightarrow> (tbl, [])
      | Some a \<Rightarrow>
          if lifetime = 0 then (remove_allocation from_addr a tbl, [StopRelay (relay_socket a)])
          else (touch_allocation from_addr a (now + from_secs (unat lifetime)) tbl, []))"

definition handle_refresh ::
  "instant \<Rightarrow> sock_addr \<Rightarrow> srv_message \<Rightarrow> alloc_table \<Rightarrow> alloc_table \<times> turn_effect list" where
  "handle_refresh now from_addr msg tbl =
     (let lifetime = parse_lifetime msg;
          (tbl', effs) = refresh_table now from_addr lifetime tbl
      in (tbl', effs @ [ToClient from_addr (build_success REFRESH (m_tid msg) [(LIFETIME, u32_to_be lifetime)])]))"

definition handle_create_permission :: "sock_addr \<Rightarrow> srv_message \<Rightarrow> turn_effect list" where
  "handle_create_permission from_addr msg =
     [ToClient from_addr (build_success CREATE_PERMISSION (m_tid msg) [])]"

text \<open>The critical section of \<open>handle_send\<close>: the relay socket, its public address, the local addressee.\<close>

definition send_table ::
  "instant \<Rightarrow> sock_addr \<Rightarrow> sock_addr \<Rightarrow> alloc_table \<Rightarrow>
     (sock_addr \<times> sock_addr \<times> sock_addr option) option \<times> alloc_table" where
  "send_table now from_addr peer tbl =
     (case map_of (by_client tbl) from_addr of
        None \<Rightarrow> (None, tbl)
      | Some a \<Rightarrow>
          (Some (relay_socket a, relayed_addr a, map_of (by_relayed tbl) peer),
           touch_allocation from_addr a (now + from_secs (unat TURN_LIFETIME_SECONDS)) tbl))"

definition handle_send ::
  "instant \<Rightarrow> 128 word \<Rightarrow> sock_addr \<Rightarrow> srv_message \<Rightarrow> alloc_table \<Rightarrow> alloc_table \<times> turn_effect list" where
  "handle_send now nanos from_addr msg tbl =
     (case Option.bind (srv_find msg XOR_PEER_ADDRESS) (\<lambda>v. srv_decode_xor_address v (m_tid msg)) of
        None \<Rightarrow> (tbl, [])
      | Some peer \<Rightarrow>
          (case srv_find msg ATTR_DATA of
             None \<Rightarrow> (tbl, [])
           | Some data \<Rightarrow>
               (case send_table now from_addr peer tbl of
                  (None, tbl') \<Rightarrow> (tbl', [])
                | (Some (relay, source_relay, Some destination_client), tbl') \<Rightarrow>
                    (tbl', [ToClient destination_client (build_data_indication nanos source_relay data)])
                | (Some (relay, source_relay, None), tbl') \<Rightarrow> (tbl', [FromRelay relay peer data]))))"

text \<open>One iteration of the packet loop of \<open>run\<close>.\<close>

definition handle_packet ::
  "turn_env \<Rightarrow> instant \<Rightarrow> 128 word \<Rightarrow> sock_addr \<Rightarrow> bytes \<Rightarrow> alloc_table \<Rightarrow> alloc_table \<times> turn_effect list" where
  "handle_packet env now nanos from_addr data tbl =
     (case parse_message data of
        None \<Rightarrow> (tbl, [])
      | Some msg \<Rightarrow>
          if m_method msg = BINDING \<and> m_class msg = Request then
            (tbl, [ToClient from_addr (build_binding_success (m_tid msg) from_addr)])
          else if m_method msg = ALLOCATE \<and> m_class msg = Request then
            handle_allocate env now from_addr msg tbl
          else if m_method msg = REFRESH \<and> m_class msg = Request then
            handle_refresh now from_addr msg tbl
          else if m_method msg = CREATE_PERMISSION \<and> m_class msg = Request then
            (tbl, handle_create_permission from_addr msg)
          else if m_method msg = SEND \<and> m_class msg = Indication then
            handle_send now nanos from_addr msg tbl
          else (tbl, []))"

section \<open>Garbage collection\<close>

text \<open>
  \<open>spawn_gc\<close> takes the lock twice: it collects the expired clients under the first lock and removes
  them under the second.
\<close>

definition gc_expired :: "instant \<Rightarrow> alloc_table \<Rightarrow> sock_addr list" where
  "gc_expired now tbl = map fst (filter (\<lambda>(c, a). expires_at a \<le> now) (by_client tbl))"

fun gc_remove :: "sock_addr list \<Rightarrow> alloc_table \<Rightarrow> alloc_table \<times> turn_effect list" where
  "gc_remove [] tbl = (tbl, [])"
| "gc_remove (c # cs) tbl =
     (case map_of (by_client tbl) c of
        None \<Rightarrow> gc_remove cs tbl
      | Some a \<Rightarrow>
          (let (tbl', effs) = gc_remove cs (remove_allocation c a tbl)
           in (tbl', StopRelay (relay_socket a) # effs)))"

section \<open>The two codecs agree\<close>

lemma srv_padded_len_eq: "srv_padded_len = padded_len"
  by (simp add: fun_eq_iff srv_padded_len_def padded_len_def)

lemma srv_make_message_type_eq: "srv_make_message_type = make_message_type"
proof -
  have "(case c of Request \<Rightarrow> 0 | Indication \<Rightarrow> 1 | SuccessResponse \<Rightarrow> 2 | ErrorResponse \<Rightarrow> 3) = class_bits c" for c
    by (cases c) simp_all
  then show ?thesis by (simp add: fun_eq_iff srv_make_message_type_def make_message_type_def)
qed

lemma srv_parse_message_type_eq: "srv_parse_message_type = parse_message_type"
  by (simp add: fun_eq_iff srv_parse_message_type_def parse_message_type_def)

lemma srv_encode_xor_address_eq: "srv_encode_xor_address = encode_xor_address"
  by (simp add: fun_eq_iff srv_encode_xor_address_def encode_xor_address_def xor_port_def cookie_bytes_def
      split: ip_addr.split)

lemma srv_decode_xor_address_eq: "srv_decode_xor_address = decode_xor_address"
  by (simp add: fun_eq_iff srv_decode_xor_address_def decode_xor_address_def xor_port_def cookie_bytes_def Let_def)

lemma srv_parse_attrs_eq:
  "srv_parse_attrs msg pos fin = (case parse_attrs msg pos fin of Inl _ \<Rightarrow> None | Inr as \<Rightarrow> Some as)"
proof (induction msg pos fin rule: parse_attrs.induct)
  case (1 msg pos fin)
  show ?case
  proof (cases "pos + 4 \<le> fin \<and> \<not> pos + 4 + unat (u16_at msg (pos + 2)) > fin")
    case True
    then have c: "pos + 4 \<le> fin" "\<not> pos + 4 + unat (u16_at msg (pos + 2)) > fin" by simp_all
    from 1 [OF c(1) refl refl c(2)] c show ?thesis
      by (subst srv_parse_attrs.simps, subst parse_attrs.simps)
        (cases "parse_attrs msg (pos + 4 + padded_len (unat (u16_at msg (pos + 2)))) fin",
          simp_all add: Let_def srv_padded_len_eq)
  qed (subst srv_parse_attrs.simps, subst parse_attrs.simps, auto simp: Let_def)
qed

definition srv_of_turn :: "turn_message \<Rightarrow> srv_message" where
  "srv_of_turn m = \<lparr>m_method = msg_method m, m_class = msg_class m, m_tid = transaction_id m,
     m_attrs = msg_attrs m\<rparr>"

lemma parse_message_eq:
  "parse_message msg =
     (if STUN_HEADER_LEN \<le> length msg \<and> msg ! 0 AND 0xC0 = 0 then
        (case parse_turn msg of Inl _ \<Rightarrow> None | Inr m \<Rightarrow> Some (srv_of_turn m))
      else None)"
proof (cases "STUN_HEADER_LEN \<le> length msg \<and> msg ! 0 AND 0xC0 = 0 \<and>
    u32_from_be (msg ! 4) (msg ! 5) (msg ! 6) (msg ! 7) = MAGIC_COOKIE \<and>
    STUN_HEADER_LEN + unat (u16_at msg 2) \<le> length msg")
  case True
  then show ?thesis
    by (cases "parse_attrs msg STUN_HEADER_LEN (STUN_HEADER_LEN + unat (u16_at msg 2))")
      (simp_all add: parse_message_def parse_header_def parse_turn_def Let_def srv_parse_attrs_eq
        srv_parse_message_type_eq srv_of_turn_def)
next
  case False
  then show ?thesis
    by (auto simp: parse_message_def parse_header_def parse_turn_def Let_def not_le)
qed

definition builder_of :: "u16 \<Rightarrow> msg_class \<Rightarrow> bytes \<Rightarrow> (u16 \<times> bytes) list \<Rightarrow> message_builder" where
  "builder_of m c tid attrs = \<lparr>builder_type = make_message_type m c, builder_tid = tid,
     builder_attrs = map (\<lambda>(t, v). \<lparr>attr_typ = t, attr_val = v\<rparr>) attrs\<rparr>"

lemma build_message_eq: "build_message m c tid attrs = builder_finish (builder_of m c tid attrs)"
proof -
  have "sum_list (map (\<lambda>(_, v). 4 + padded_len (length v)) attrs)
      = attrs_len (map (\<lambda>(t, v). \<lparr>attr_typ = t, attr_val = v\<rparr>) attrs)"
    by (induction attrs) auto
  moreover have "(\<lambda>(t, v). u16_to_be t @ u16_to_be (of_nat (length v)) @ v @ replicate (padded_len (length v) - length v) 0)
      = encode_attr \<circ> (\<lambda>(t, v). \<lparr>attr_typ = t, attr_val = v\<rparr>)"
    by (auto simp: fun_eq_iff encode_attr_def)
  ultimately show ?thesis
    by (simp add: build_message_def builder_finish_def builder_of_def encode_message_def stun_header_def
        srv_padded_len_eq srv_make_message_type_eq cookie_bytes_def Let_def)
qed

lemma message_type_top_bits: "ucast (drop_bit 8 (make_message_type m c)) AND (0xC0 :: byte) = 0"
proof (rule bit_word_eqI)
  fix n assume n: "n < LENGTH(8)"
  then have "n = 7 \<or> n = 6 \<or> n = 5 \<or> n = 4 \<or> n = 3 \<or> n = 2 \<or> n = 1 \<or> n = 0" by auto
  then show "bit (ucast (drop_bit 8 (make_message_type m c)) AND (0xC0 :: byte)) n = bit 0 n"
    by (elim disjE) (simp_all add: bit_simps bit_make_message_type)
qed

text \<open>The server reads what the client builds, and the client reads what the server builds.\<close>

lemma server_reads_client:
  assumes "builder_ok b" and "builder_type b = make_message_type m c" and "m < 0x1000"
  shows "parse_message (builder_finish b) =
    Some \<lparr>m_method = m, m_class = c, m_tid = builder_tid b, m_attrs = builder_attrs b\<rparr>"
proof -
  have "builder_finish b ! 0 = ucast (drop_bit 8 (make_message_type m c))"
    using assms(2) by (simp add: builder_finish_def encode_message_def stun_header_def Let_def)
  moreover have "STUN_HEADER_LEN \<le> length (builder_finish b)"
    using assms(1) by (simp add: builder_finish_def encode_message_def Let_def builder_ok_def
        length_stun_header STUN_HEADER_LEN_def)
  ultimately show ?thesis
    using assms(2) by (simp add: parse_message_eq parse_finish [OF assms(1)] message_type_top_bits
        srv_of_turn_def message_of_def parse_make_message_type [OF assms(3)])
qed

lemma client_reads_server:
  assumes "builder_ok (builder_of m c tid attrs)" and "m < 0x1000"
  shows "\<exists>msg. parse_turn (build_message m c tid attrs) = Inr msg \<and> msg_method msg = m \<and> msg_class msg = c \<and>
    transaction_id msg = tid \<and> msg_attrs msg = map (\<lambda>(t, v). \<lparr>attr_typ = t, attr_val = v\<rparr>) attrs"
  using parse_finish [OF assms(1)]
  by (simp add: build_message_eq message_of_def builder_of_def parse_make_message_type [OF assms(2)])

section \<open>Table invariant\<close>

definition table_ok :: "alloc_table \<Rightarrow> bool" where
  "table_ok tbl \<longleftrightarrow> distinct (map fst (by_client tbl)) \<and>
     (\<forall>r c. map_of (by_relayed tbl) r = Some c \<longleftrightarrow>
        (\<exists>a. map_of (by_client tbl) c = Some a \<and> relayed_addr a = r))"

lemma table_okD:
  "table_ok tbl \<Longrightarrow> map_of (by_relayed tbl) r = Some c \<longleftrightarrow>
     (\<exists>a. map_of (by_client tbl) c = Some a \<and> relayed_addr a = r)"
  by (simp add: table_ok_def)

lemma empty_table_ok: "table_ok empty_table"
  by (simp add: table_ok_def empty_table_def)

lemma remove_allocation_maps [simp]:
  "map_of (by_client (remove_allocation c a tbl)) = (map_of (by_client tbl))(c := None)"
  "map_of (by_relayed (remove_allocation c a tbl)) = (map_of (by_relayed tbl))(relayed_addr a := None)"
  by (simp_all add: remove_allocation_def delete_conv')

lemma touch_allocation_maps [simp]:
  "map_of (by_client (touch_allocation c a t tbl)) = (map_of (by_client tbl))(c \<mapsto> a\<lparr>expires_at := t\<rparr>)"
  "by_relayed (touch_allocation c a t tbl) = by_relayed tbl"
  by (simp_all add: touch_allocation_def update_conv')

lemma remove_allocation_ok:
  assumes ok: "table_ok tbl" and a: "map_of (by_client tbl) c = Some a"
  shows "table_ok (remove_allocation c a tbl)"
proof -
  have "((map_of (by_relayed tbl))(relayed_addr a := None)) r = Some c' \<longleftrightarrow>
      (\<exists>b. ((map_of (by_client tbl))(c := None)) c' = Some b \<and> relayed_addr b = r)" for r c'
    using table_okD [OF ok, of r c'] table_okD [OF ok, of "relayed_addr a" c] a by (auto split: if_splits)
  moreover have "distinct (map fst (by_client (remove_allocation c a tbl)))"
    using ok by (simp add: table_ok_def remove_allocation_def distinct_delete)
  ultimately show ?thesis by (simp add: table_ok_def)
qed

lemma touch_allocation_ok:
  assumes ok: "table_ok tbl" and a: "map_of (by_client tbl) c = Some a"
  shows "table_ok (touch_allocation c a t tbl)"
proof -
  have "distinct (map fst (by_client (touch_allocation c a t tbl)))"
    using ok by (simp add: table_ok_def touch_allocation_def distinct_update)
  moreover have "map_of (by_relayed tbl) r = Some c' \<longleftrightarrow>
      (\<exists>b. ((map_of (by_client tbl))(c \<mapsto> a\<lparr>expires_at := t\<rparr>)) c' = Some b \<and> relayed_addr b = r)" for r c'
    using table_okD [OF ok, of r c'] a by auto
  ultimately show ?thesis by (simp add: table_ok_def)
qed

lemma alloc_insert_ok:
  assumes ok: "table_ok tbl" and c: "map_of (by_client tbl) c = None"
    and r: "map_of (by_relayed tbl) (relayed_addr a) = None"
  shows "table_ok (alloc_insert c a tbl)"
proof -
  have "distinct (map fst (by_client (alloc_insert c a tbl)))"
    using ok by (simp add: table_ok_def alloc_insert_def distinct_update)
  moreover have "((map_of (by_relayed tbl))(relayed_addr a \<mapsto> c)) r' = Some c' \<longleftrightarrow>
      (\<exists>b. ((map_of (by_client tbl))(c \<mapsto> a)) c' = Some b \<and> relayed_addr b = r')" for r' c'
    using table_okD [OF ok, of r' c'] table_okD [OF ok, of "relayed_addr a" c'] c r by auto
  ultimately show ?thesis by (simp add: table_ok_def alloc_insert_def update_conv')
qed

lemma alloc_lookup_ok:
  assumes ok: "table_ok tbl" and l: "alloc_lookup now c tbl = (found, tbl', effs)"
  shows "table_ok tbl' \<and> (found = None \<longrightarrow> map_of (by_client tbl') c = None) \<and>
    (\<forall>r. map_of (by_relayed tbl) r = None \<longrightarrow> map_of (by_relayed tbl') r = None)"
  using l remove_allocation_ok [OF ok] touch_allocation_ok [OF ok] ok
  by (auto simp: alloc_lookup_def Let_def split: option.splits if_splits)

lemma refresh_table_ok: "table_ok tbl \<Longrightarrow> table_ok (fst (refresh_table now c lt tbl))"
  by (auto simp: refresh_table_def remove_allocation_ok touch_allocation_ok split: option.splits)

lemma send_table_ok: "table_ok tbl \<Longrightarrow> table_ok (snd (send_table now c peer tbl))"
  by (auto simp: send_table_def touch_allocation_ok split: option.splits)

lemma gc_remove_ok: "table_ok tbl \<Longrightarrow> table_ok (fst (gc_remove cs tbl))"
  by (induction cs tbl rule: gc_remove.induct)
    (auto simp: remove_allocation_ok case_prod_beta split: option.splits)

lemma gc_remove_maps:
  "table_ok tbl \<Longrightarrow> map_of (by_client (fst (gc_remove cs tbl))) c =
     (if c \<in> set cs then None else map_of (by_client tbl) c)"
proof (induction cs tbl rule: gc_remove.induct)
  case (2 d cs tbl)
  then show ?case by (auto simp: case_prod_beta remove_allocation_ok split: option.splits)
qed simp

lemma gc_remove_relayed:
  "map_of (by_relayed tbl) r = None \<Longrightarrow> map_of (by_relayed (fst (gc_remove cs tbl))) r = None"
  by (induction cs tbl rule: gc_remove.induct) (auto simp: case_prod_beta split: option.splits)

section \<open>Interleaving\<close>

text \<open>
  The packet loop handles one packet at a time; the collector runs beside it. A state is the clock,
  the table, the clients the collector has found but not removed yet, and the allocation for which
  the packet loop has bound a socket but not entered it yet. Each step is one critical section (or
  the passing of time). The system gives a new relay socket an address that no allocation has.
\<close>

record turn_state =
  clock :: instant
  table :: alloc_table
  gc_pending :: "sock_addr list option"
  alloc_pending :: "(sock_addr \<times> allocation) option"

definition turn_init :: turn_state where
  "turn_init = \<lparr>clock = 0, table = empty_table, gc_pending = None, alloc_pending = None\<rparr>"

inductive turn_step :: "turn_state \<Rightarrow> turn_state \<Rightarrow> bool" where
  advance: "clock s \<le> t \<Longrightarrow> turn_step s (s\<lparr>clock := t\<rparr>)"
| gc_collect: "gc_pending s = None \<Longrightarrow>
    turn_step s (s\<lparr>gc_pending := Some (gc_expired (clock s) (table s))\<rparr>)"
| gc_sweep: "gc_pending s = Some cs \<Longrightarrow>
    turn_step s (s\<lparr>table := fst (gc_remove cs (table s)), gc_pending := None\<rparr>)"
| allocate_lookup: "alloc_pending s = None \<Longrightarrow> alloc_lookup (clock s) c (table s) = (found, tbl, effs) \<Longrightarrow>
    turn_step s (s\<lparr>table := tbl\<rparr>)"
| allocate_bind: "alloc_pending s = None \<Longrightarrow> map_of (by_client (table s)) c = None \<Longrightarrow>
    a = new_allocation (clock s) public_ip loc \<Longrightarrow>
    map_of (by_relayed (table s)) (relayed_addr a) = None \<Longrightarrow>
    turn_step s (s\<lparr>alloc_pending := Some (c, a)\<rparr>)"
| allocate_enter: "alloc_pending s = Some (c, a) \<Longrightarrow>
    turn_step s (s\<lparr>table := alloc_insert c a (table s), alloc_pending := None\<rparr>)"
| refresh: "alloc_pending s = None \<Longrightarrow>
    turn_step s (s\<lparr>table := fst (refresh_table (clock s) c lt (table s))\<rparr>)"
| send: "alloc_pending s = None \<Longrightarrow>
    turn_step s (s\<lparr>table := snd (send_table (clock s) c peer (table s))\<rparr>)"

definition turn_ok :: "turn_state \<Rightarrow> bool" where
  "turn_ok s \<longleftrightarrow> table_ok (table s) \<and>
     (\<forall>c a. alloc_pending s = Some (c, a) \<longrightarrow> map_of (by_client (table s)) c = None \<and>
        map_of (by_relayed (table s)) (relayed_addr a) = None)"

lemma turn_init_ok: "turn_ok turn_init"
  by (simp add: turn_ok_def turn_init_def empty_table_ok)

lemma turn_step_ok: "turn_step s s' \<Longrightarrow> turn_ok s \<Longrightarrow> turn_ok s'"
proof (induction rule: turn_step.induct)
  case (gc_sweep s cs)
  then show ?case
    by (auto simp: turn_ok_def gc_remove_ok gc_remove_maps gc_remove_relayed)
next
  case (allocate_lookup s c found tbl effs)
  then show ?case using alloc_lookup_ok [of "table s"] by (auto simp: turn_ok_def)
next
  case (allocate_enter s c a)
  then show ?case by (auto simp: turn_ok_def alloc_insert_ok)
qed (auto simp: turn_ok_def refresh_table_ok send_table_ok)

lemma turn_reach_ok: "turn_step\<^sup>*\<^sup>* turn_init s \<Longrightarrow> turn_ok s"
  by (induction rule: rtranclp_induct) (auto simp: turn_init_ok dest: turn_step_ok)

text \<open>A packet handled by \<open>handle_packet\<close> is a sequence of these steps.\<close>

lemma get_or_create_steps:
  assumes g: "get_or_create_allocation env (clock s) c (table s) = (res, tbl', effs)"
    and p: "alloc_pending s = None" and ok: "table_ok (table s)"
    and fresh: "\<And>loc. bind_relay_socket (os_bind env) (control_bind env) c (relay_port_range env) = Inr loc \<Longrightarrow>
      map_of (by_relayed (table s)) (public_addr loc (turn_public_ip env)) = None"
  shows "turn_step\<^sup>*\<^sup>* s (s\<lparr>table := tbl'\<rparr>)"
proof -
  obtain found tbl1 effs1 where l: "alloc_lookup (clock s) c (table s) = (found, tbl1, effs1)"
    by (metis prod_cases3)
  let ?s1 = "s\<lparr>table := tbl1\<rparr>"
  have one: "turn_step s ?s1" by (rule turn_step.allocate_lookup [OF p l])
  note lok = alloc_lookup_ok [OF ok l]
  show ?thesis
  proof (cases "found = None \<and> (\<exists>loc. bind_relay_socket (os_bind env) (control_bind env) c (relay_port_range env) = Inr loc)")
    case True
    then obtain loc where loc: "found = None"
      "bind_relay_socket (os_bind env) (control_bind env) c (relay_port_range env) = Inr loc" by blast
    let ?a = "new_allocation (clock s) (turn_public_ip env) loc"
    have tbl': "tbl' = alloc_insert c ?a tbl1"
      using g l loc by (simp add: get_or_create_allocation_def Let_def)
    have "turn_step ?s1 (?s1\<lparr>alloc_pending := Some (c, ?a)\<rparr>)"
      by (rule turn_step.allocate_bind [where public_ip = "turn_public_ip env" and loc = loc])
        (use p lok loc fresh in \<open>simp_all add: new_allocation_def\<close>)
    moreover have "turn_step (?s1\<lparr>alloc_pending := Some (c, ?a)\<rparr>) (s\<lparr>table := tbl'\<rparr>)"
      using turn_step.allocate_enter [of "?s1\<lparr>alloc_pending := Some (c, ?a)\<rparr>" c ?a] p tbl'
      by (cases s) simp
    ultimately show ?thesis using one by (meson rtranclp.rtrancl_into_rtrancl r_into_rtranclp)
  next
    case False
    with g l have "tbl' = tbl1"
      by (auto simp: get_or_create_allocation_def split: option.splits sum.splits)
    with one show ?thesis by auto
  qed
qed

lemma handle_packet_steps:
  assumes h: "handle_packet env (clock s) nanos c data (table s) = (tbl', effs)"
    and p: "alloc_pending s = None" and ok: "table_ok (table s)"
    and fresh: "\<And>loc. bind_relay_socket (os_bind env) (control_bind env) c (relay_port_range env) = Inr loc \<Longrightarrow>
      map_of (by_relayed (table s)) (public_addr loc (turn_public_ip env)) = None"
  shows "turn_step\<^sup>*\<^sup>* s (s\<lparr>table := tbl'\<rparr>)"
proof -
  have stay: "turn_step\<^sup>*\<^sup>* s (s\<lparr>table := table s\<rparr>)" by simp
  have alloc: "turn_step\<^sup>*\<^sup>* s (s\<lparr>table := fst (handle_allocate env (clock s) c msg (table s))\<rparr>)" for msg
    using get_or_create_steps [OF _ p ok fresh] stay
    by (cases "get_or_create_allocation env (clock s) c (table s)")
      (auto simp: handle_allocate_def Let_def split: option.splits sum.splits)
  have refr: "turn_step\<^sup>*\<^sup>* s (s\<lparr>table := fst (handle_refresh (clock s) c msg (table s))\<rparr>)" for msg
    using turn_step.refresh [OF p] by (auto simp: handle_refresh_def Let_def case_prod_beta)
  have snd: "turn_step\<^sup>*\<^sup>* s (s\<lparr>table := fst (handle_send (clock s) nanos c msg (table s))\<rparr>)" for msg
  proof -
    have "fst (handle_send (clock s) nanos c msg (table s)) \<in>
        insert (table s) (range (\<lambda>peer. snd (send_table (clock s) c peer (table s))))"
      by (auto simp: handle_send_def split: option.splits prod.splits) (metis rangeI snd_conv)+
    then show ?thesis using stay turn_step.send [OF p, of c] by fastforce
  qed
  have "tbl' = fst (handle_packet env (clock s) nanos c data (table s))" by (simp add: h)
  then show ?thesis
    using stay alloc refr snd by (simp add: handle_packet_def split: option.splits if_splits)
qed

section \<open>Properties\<close>

text \<open>
  The server's copy of the STUN/TURN codec is the client's: it parses a datagram exactly when
  the client's parser does and the two top bits are clear, to the same method, class, transaction
  and attributes; it builds the same bytes; and the address codecs are the same functions.
\<close>

lemma server_client_codec_agree:
  "parse_message msg =
     (if STUN_HEADER_LEN \<le> length msg \<and> msg ! 0 AND 0xC0 = 0 then
        (case parse_turn msg of Inl _ \<Rightarrow> None | Inr m \<Rightarrow> Some (srv_of_turn m))
      else None) \<and>
   build_message meth cls tid attrs = builder_finish (builder_of meth cls tid attrs) \<and>
   srv_encode_xor_address addr tid = encode_xor_address addr tid \<and>
   srv_decode_xor_address v tid = decode_xor_address v tid"
  by (simp add: parse_message_eq build_message_eq srv_encode_xor_address_eq srv_decode_xor_address_eq)

text \<open>
  C34. The reverse index is exact in every reachable state of the packet loop and the collector, in
  whatever order their critical sections interleave: a relayed address is indexed to a client
  exactly when that client has an allocation with that address.
\<close>

theorem relay_index_exact:
  assumes "turn_step\<^sup>*\<^sup>* turn_init s"
  shows "map_of (by_relayed (table s)) r = Some c \<longleftrightarrow>
    (\<exists>a. map_of (by_client (table s)) c = Some a \<and> relayed_addr a = r)"
  using turn_reach_ok [OF assms] by (simp add: turn_ok_def table_okD)

lemma turn_example_reach:
  "turn_step\<^sup>*\<^sup>* turn_init (turn_init\<lparr>table := alloc_insert c (new_allocation 0 None r) empty_table\<rparr>)"
proof -
  let ?a = "new_allocation 0 None r"
  have "turn_step turn_init (turn_init\<lparr>alloc_pending := Some (c, ?a)\<rparr>)"
    by (rule turn_step.allocate_bind [where public_ip = None and loc = r])
      (simp_all add: turn_init_def empty_table_def)
  moreover have "turn_step (turn_init\<lparr>alloc_pending := Some (c, ?a)\<rparr>)
      (turn_init\<lparr>table := alloc_insert c ?a empty_table\<rparr>)"
    using turn_step.allocate_enter [of "turn_init\<lparr>alloc_pending := Some (c, ?a)\<rparr>" c ?a]
    by (simp add: turn_init_def)
  ultimately show ?thesis by (meson rtranclp.rtrancl_into_rtrancl r_into_rtranclp)
qed

theorem relay_index_exact_witness:
  "map_of (by_relayed (alloc_insert (SocketAddr (IPv4 5) 6) (new_allocation 0 None (SocketAddr (IPv4 1) 2)) empty_table))
     (SocketAddr (IPv4 1) 2) = Some (SocketAddr (IPv4 5) 6)"
  using relay_index_exact [OF turn_example_reach [of "SocketAddr (IPv4 5) 6" "SocketAddr (IPv4 1) 2"],
      of "SocketAddr (IPv4 1) 2" "SocketAddr (IPv4 5) 6"]
  by (simp add: turn_init_def alloc_insert_def empty_table_def new_allocation_def public_addr_def)

text \<open>
  A collection round that is not interrupted removes exactly the allocations that are expired:
  every other client keeps its allocation unchanged.
\<close>

lemma gc_round_exact:
  assumes "table_ok tbl"
  shows "map_of (by_client (fst (gc_remove (gc_expired now tbl) tbl))) c =
    (case map_of (by_client tbl) c of
       Some a \<Rightarrow> if now < expires_at a then Some a else None | None \<Rightarrow> None)"
proof -
  have "c \<in> set (gc_expired now tbl) \<longleftrightarrow> (\<exists>a. map_of (by_client tbl) c = Some a \<and> expires_at a \<le> now)"
    using assms by (force simp: gc_expired_def table_ok_def)
  then show ?thesis by (auto simp: gc_remove_maps [OF assms] split: option.split)
qed

lemma gc_round_exact_example:
  "map_of (by_client (fst (gc_remove (gc_expired 7 empty_table) empty_table))) (SocketAddr (IPv4 5) 6) = None"
  using gc_round_exact [OF empty_table_ok, of 7 "SocketAddr (IPv4 5) 6"] by (simp add: empty_table_def)

text \<open>
  What the two locks of the collector allow: between collecting and removing, the owner can
  refresh its allocation, and the collector then removes the live allocation. There is a reachable
  state in which the pending removal drops an allocation that is not expired.
\<close>

lemma gc_drops_renewed:
  "\<exists>s cs c a. turn_step\<^sup>*\<^sup>* turn_init s \<and> gc_pending s = Some cs \<and>
     map_of (by_client (table s)) c = Some a \<and> clock s < expires_at a \<and>
     map_of (by_client (fst (gc_remove cs (table s)))) c = None"
proof -
  define c where "c = SocketAddr (IPv4 5) 6"
  define a where "a = new_allocation 0 None (SocketAddr (IPv4 1) 2)"
  define now where "now = from_secs 600"
  define s1 where "s1 = turn_init\<lparr>table := alloc_insert c a empty_table\<rparr>"
  define s2 where "s2 = s1\<lparr>clock := now\<rparr>"
  define s3 where "s3 = s2\<lparr>gc_pending := Some (gc_expired now (table s2))\<rparr>"
  define s4 where "s4 = s3\<lparr>table := fst (refresh_table now c 600 (table s3))\<rparr>"
  have r1: "turn_step\<^sup>*\<^sup>* turn_init s1" unfolding s1_def a_def by (rule turn_example_reach)
  have r2: "turn_step s1 s2" unfolding s2_def by (rule turn_step.advance) (simp add: s1_def turn_init_def)
  have r3: "turn_step s2 s3"
    using turn_step.gc_collect [of s2] by (simp add: s3_def s2_def s1_def turn_init_def)
  have r4: "turn_step s3 s4"
    using turn_step.refresh [of s3 c 600] by (simp add: s4_def s3_def s2_def s1_def turn_init_def)
  have tbl: "by_client (table s1) = [(c, a)]" by (simp add: s1_def alloc_insert_def empty_table_def)
  have exp: "expires_at a = now"
    by (simp add: a_def new_allocation_def now_def TURN_LIFETIME_SECONDS_def)
  have "gc_pending s4 = Some [c]" using tbl exp by (simp add: s4_def s3_def s2_def gc_expired_def)
  moreover have "by_client (table s4) = [(c, a\<lparr>expires_at := now + from_secs 600\<rparr>)]" "clock s4 = now"
    using tbl by (simp_all add: s4_def s3_def s2_def refresh_table_def touch_allocation_def)
  ultimately have "gc_pending s4 = Some [c] \<and>
      map_of (by_client (table s4)) c = Some (a\<lparr>expires_at := now + from_secs 600\<rparr>) \<and>
      clock s4 < now + from_secs 600 \<and> map_of (by_client (fst (gc_remove [c] (table s4)))) c = None"
    by (simp add: remove_allocation_def from_secs_def)
  moreover have "turn_step\<^sup>*\<^sup>* turn_init s4"
    using r1 r2 r3 r4 by (meson rtranclp.rtrancl_into_rtrancl)
  ultimately show ?thesis
    by (metis (no_types, lifting) allocation.select_convs(3) allocation.surjective allocation.update_convs(3))
qed

lemma length_pseudo_transaction_id [simp]: "length (pseudo_transaction_id nanos) = 12"
  by (simp add: pseudo_transaction_id_def del: u32_to_be.simps)

lemma send_indication_builder:
  defines "b tid peer data \<equiv> push_attr ATTR_DATA data (push_xor_peer_address peer (new_builder SEND Indication tid))"
  assumes "length tid = 12" and "length (build_send_indication tid peer data) \<le> MAX_UDP_PACKET"
  shows "builder_ok (b tid peer data)" and "length data \<le> MAX_UDP_PACKET"
proof -
  let ?attrs = "[\<lparr>attr_typ = XOR_PEER_ADDRESS, attr_val = encode_xor_address peer tid\<rparr>,
      \<lparr>attr_typ = ATTR_DATA, attr_val = data\<rparr>]"
  have "builder_attrs (b tid peer data) = ?attrs" "builder_tid (b tid peer data) = tid"
    by (simp_all add: b_def push_attr_def push_xor_peer_address_def new_builder_def)
  moreover from this have "length (build_send_indication tid peer data) = 20 + attrs_len ?attrs"
    using assms(2) by (simp add: build_send_indication_def builder_finish_def encode_message_def Let_def
        length_stun_header length_encode_attr b_def)
  ultimately show "builder_ok (b tid peer data)" and "length data \<le> MAX_UDP_PACKET"
    using assms(2,3) le_padded_len(1) [of "length data"]
    by (simp_all add: builder_ok_def MAX_UDP_PACKET_def)
qed

lemma data_indication_roundtrip:
  assumes "length data \<le> MAX_UDP_PACKET"
  shows "parse_data_indication (build_data_indication nanos peer data) = Inr (peer, data)"
proof -
  let ?tid = "pseudo_transaction_id nanos"
  let ?attrs = "[(XOR_PEER_ADDRESS, encode_xor_address peer ?tid), (ATTR_DATA, data)]"
  have "builder_ok (builder_of DATA Indication ?tid ?attrs)"
    using le_padded_len [of "length data"] le_padded_len [of "length (encode_xor_address peer ?tid)"]
      length_encode_xor_address [of ?tid peer] assms
    by (simp add: builder_ok_def builder_of_def MAX_UDP_PACKET_def)
  from client_reads_server [OF this] obtain msg where
    "parse_turn (build_message DATA Indication ?tid ?attrs) = Inr msg" "msg_method msg = DATA"
    "msg_class msg = Indication" "transaction_id msg = ?tid"
    "msg_attrs msg = map (\<lambda>(t, v). \<lparr>attr_typ = t, attr_val = v\<rparr>) ?attrs"
    by (auto simp: DATA_def)
  then show ?thesis
    using xor_address_roundtrip [of ?tid peer]
    by (simp add: parse_data_indication_def build_data_indication_def Let_def srv_encode_xor_address_eq
        find_xor_address_def find_attr_def XOR_PEER_ADDRESS_def ATTR_DATA_def)
qed

text \<open>
  C32. Media crosses the relay end to end: when client A sends to the relayed address of client B,
  one datagram leaves the server, to B, and B's parser reads from it A's relayed address and the
  bytes that A sent. Nothing goes out through a relay socket.
\<close>

theorem media_relayed_end_to_end:
  assumes "table_ok tbl" and "map_of (by_client tbl) A = Some a" and "map_of (by_client tbl) B = Some b"
    and "length tid = 12" and "length (build_send_indication tid (relayed_addr b) data) \<le> MAX_UDP_PACKET"
  shows "\<exists>tbl' ind. handle_packet env now nanos A (build_send_indication tid (relayed_addr b) data) tbl
      = (tbl', [ToClient B ind]) \<and> parse_data_indication ind = Inr (relayed_addr a, data)"
proof -
  let ?b = "push_attr ATTR_DATA data (push_xor_peer_address (relayed_addr b) (new_builder SEND Indication tid))"
  note bok = send_indication_builder [OF assms(4,5)]
  have "parse_message (build_send_indication tid (relayed_addr b) data) = Some \<lparr>m_method = SEND,
      m_class = Indication, m_tid = tid, m_attrs = builder_attrs ?b\<rparr>"
    using server_reads_client [OF bok(1), of SEND Indication]
    by (simp add: build_send_indication_def push_attr_def push_xor_peer_address_def new_builder_def SEND_def)
  moreover have "map_of (by_relayed tbl) (relayed_addr b) = Some B"
    using table_okD [OF assms(1)] assms(3) by blast
  ultimately show ?thesis
    using assms(2) xor_address_roundtrip [OF assms(4), of "relayed_addr b"] data_indication_roundtrip [OF bok(2)]
    by (simp add: handle_packet_def handle_send_def send_table_def srv_find_def srv_decode_xor_address_eq
        push_attr_def push_xor_peer_address_def new_builder_def turn_methods
        XOR_PEER_ADDRESS_def ATTR_DATA_def)
qed

theorem media_relayed_end_to_end_witness:
  "\<exists>tbl' ind. handle_packet \<lparr>control_bind = SocketAddr (IPv4 9) 9, turn_public_ip = None,
        relay_port_range = None, os_bind = Inr\<rparr> 0 0 (SocketAddr (IPv4 5) 6)
        (build_send_indication (replicate 12 0) (SocketAddr (IPv4 1) 2) [1, 2, 3])
        (alloc_insert (SocketAddr (IPv4 5) 6) (new_allocation 0 None (SocketAddr (IPv4 1) 2)) empty_table)
      = (tbl', [ToClient (SocketAddr (IPv4 5) 6) ind])
      \<and> parse_data_indication ind = Inr (SocketAddr (IPv4 1) 2, [1, 2, 3])"
proof -
  let ?c = "SocketAddr (IPv4 5) 6" and ?a = "new_allocation 0 None (SocketAddr (IPv4 1) 2)"
  have ok: "table_ok (alloc_insert ?c ?a empty_table)"
    using turn_reach_ok [OF turn_example_reach [of ?c "SocketAddr (IPv4 1) 2"]] by (simp add: turn_ok_def)
  have c: "map_of (by_client (alloc_insert ?c ?a empty_table)) ?c = Some ?a"
    by (simp add: alloc_insert_def update_conv')
  have r: "relayed_addr ?a = SocketAddr (IPv4 1) 2" by (simp add: new_allocation_def public_addr_def)
  have len: "length (build_send_indication (replicate 12 0) (relayed_addr ?a) [1, 2, 3]) \<le> MAX_UDP_PACKET"
    by (simp add: r build_send_indication_def builder_finish_def encode_message_def push_attr_def
        push_xor_peer_address_def new_builder_def length_stun_header length_encode_attr
        encode_xor_address_def padded_len_def MAX_UDP_PACKET_def Let_def)
  show ?thesis
    using media_relayed_end_to_end [OF ok c c _ len, of _ 0 0] by (simp add: r)
qed

lemma binding_end_to_end:
  assumes "length tid = 12"
  shows "\<exists>resp. handle_packet env now nanos c (build_binding_request tid) tbl = (tbl, [ToClient c resp]) \<and>
    parse_xor_mapped_address resp tid = Some c"
proof -
  have bind_req: "build_binding_request tid = builder_finish (new_builder BINDING Request tid)"
    by (simp add: build_binding_request_def builder_finish_def encode_message_def new_builder_def
        stun_header_def cookie_bytes_def MSG_TYPE_BINDING_REQUEST_def make_message_type_def BINDING_def)
  have "builder_ok (new_builder BINDING Request tid)"
    using assms by (simp add: builder_ok_def new_builder_def)
  from server_reads_client [OF this, of BINDING Request]
  have "handle_packet env now nanos c (build_binding_request tid) tbl = (tbl, [ToClient c (build_binding_success tid c)])"
    by (simp add: handle_packet_def bind_req new_builder_def BINDING_def)
  moreover have "build_binding_success tid c = stun_header MSG_TYPE_BINDING_SUCCESS
      (attrs_len [mapped_attr c tid]) tid @ encode_attr (mapped_attr c tid)"
    by (simp add: build_binding_success_def build_message_eq builder_of_def builder_finish_def
        encode_message_def mapped_attr_def srv_encode_xor_address_eq Let_def
        MSG_TYPE_BINDING_SUCCESS_def make_message_type_def BINDING_def)
  ultimately show ?thesis using parse_binding_success [OF assms, of c] by simp
qed

text \<open>
  Allocation and address discovery end to end: the answer to a client's allocation request,
  read with the client's parser, carries the relayed address that the table now holds for that
  client, its reflexive address and the lifetime; and the answer to a binding request is decoded by
  the client to the address the request came from.
\<close>

lemma allocate_and_bind_end_to_end:
  assumes "length tid = 12" and "map_of (by_client tbl) c = None"
    and "bind_relay_socket (os_bind env) (control_bind env) c (relay_port_range env) = Inr loc"
  shows "(\<exists>resp msg. handle_packet env now nanos c (build_initial_allocate tid) tbl =
      (alloc_insert c (new_allocation now (turn_public_ip env) loc) tbl, [SpawnRelay c loc, ToClient c resp]) \<and>
      parse_turn resp = Inr msg \<and> msg_method msg = ALLOCATE \<and> msg_class msg = SuccessResponse \<and>
      find_xor_address msg XOR_RELAYED_ADDRESS = Some (public_addr loc (turn_public_ip env)) \<and>
      find_xor_address msg XOR_MAPPED_ADDRESS = Some c \<and> find_lifetime msg = Some 600) \<and>
    (\<exists>resp. handle_packet env now nanos c (build_binding_request tid) tbl = (tbl, [ToClient c resp]) \<and>
      parse_xor_mapped_address resp tid = Some c)"
    (is "?alloc \<and> ?bind")
proof
  let ?b = "push_requested_transport_udp (new_builder ALLOCATE Request tid)"
  let ?rel = "public_addr loc (turn_public_ip env)"
  let ?attrs = "[(XOR_RELAYED_ADDRESS, encode_xor_address ?rel tid), (XOR_MAPPED_ADDRESS, encode_xor_address c tid),
      (LIFETIME, u32_to_be TURN_LIFETIME_SECONDS), (SOFTWARE, as_bytes ''Paranoia TURN'')]"
  have "builder_ok ?b"
    using assms(1) by (simp add: builder_ok_def push_requested_transport_udp_def push_attr_def new_builder_def padded_len_def)
  from server_reads_client [OF this, of ALLOCATE Request]
  have req: "parse_message (build_initial_allocate tid) = Some \<lparr>m_method = ALLOCATE, m_class = Request,
      m_tid = tid, m_attrs = [\<lparr>attr_typ = REQUESTED_TRANSPORT, attr_val = [TRANSPORT_UDP, 0, 0, 0]\<rparr>]\<rparr>"
    by (simp add: build_initial_allocate_def push_requested_transport_udp_def push_attr_def new_builder_def ALLOCATE_def)
  have "builder_ok (builder_of ALLOCATE SuccessResponse tid ?attrs)"
    using assms(1) length_encode_xor_address [OF assms(1), of ?rel] length_encode_xor_address [OF assms(1), of c]
      le_padded_len(2) [of "length (encode_xor_address ?rel tid)"]
      le_padded_len(2) [of "length (encode_xor_address c tid)"]
    by (simp add: builder_ok_def builder_of_def padded_len_def)
  from client_reads_server [OF this] obtain msg where
    msg: "parse_turn (build_message ALLOCATE SuccessResponse tid ?attrs) = Inr msg" "msg_method msg = ALLOCATE"
    "msg_class msg = SuccessResponse" "transaction_id msg = tid"
    "msg_attrs msg = map (\<lambda>(t, v). \<lparr>attr_typ = t, attr_val = v\<rparr>) ?attrs"
    by (auto simp: ALLOCATE_def)
  have "find_lifetime msg = Some TURN_LIFETIME_SECONDS"
    using msg(5) by (simp add: find_lifetime_def find_attr_def turn_attrs codec_simps)
  then have "find_lifetime msg = Some 600" by (simp add: TURN_LIFETIME_SECONDS_def)
  moreover have "find_xor_address msg XOR_RELAYED_ADDRESS = Some ?rel"
    "find_xor_address msg XOR_MAPPED_ADDRESS = Some c"
    using msg(4,5) xor_address_roundtrip [OF assms(1)]
    by (simp_all add: find_xor_address_def find_attr_def turn_attrs)
  moreover have "handle_packet env now nanos c (build_initial_allocate tid) tbl =
      (alloc_insert c (new_allocation now (turn_public_ip env) loc) tbl,
       [SpawnRelay c loc, ToClient c (build_message ALLOCATE SuccessResponse tid ?attrs)])"
    using assms(2,3)
    by (simp add: handle_packet_def req handle_allocate_def srv_find_def get_or_create_allocation_def
        alloc_lookup_def turn_methods build_success_def srv_encode_xor_address_eq Let_def new_allocation_def)
  ultimately show ?alloc using msg(1-3) by blast
  show ?bind using binding_end_to_end [OF assms(1)] by blast
qed

lemma allocate_and_bind_end_to_end_example:
  "\<exists>resp. handle_packet \<lparr>control_bind = SocketAddr (IPv4 9) 9, turn_public_ip = None,
        relay_port_range = None, os_bind = Inr\<rparr> 0 0 (SocketAddr (IPv4 5) 6)
        (build_binding_request (replicate 12 0)) empty_table
      = (empty_table, [ToClient (SocketAddr (IPv4 5) 6) resp])
      \<and> parse_xor_mapped_address resp (replicate 12 0) = Some (SocketAddr (IPv4 5) 6)"
  by (rule allocate_and_bind_end_to_end [where loc = "SocketAddr (IPv4 9) 0", THEN conjunct2])
    (simp_all add: empty_table_def bind_relay_socket_def relay_bind_addr_def)

end
