(* ===== verification/Packet_Store.thy ===== *)
theory Packet_Store
  imports Ordered_Map
begin

text \<open>
  The packet store of the server (\<open>ParanoiaServer/src/store.rs\<close>): packets of dialogues, read
  receipts and ephemeral files, as keys of one RocksDB database. RocksDB and the JSON codec are
  third-party: they are the fields of \<open>store_env\<close>, over an abstract database type, and \<open>store_ok\<close>
  (in \<open>Store_Log\<close>) states what the code relies on, with the help of the two last fields, the contents
  of the database and its internal invariant, which no operation here uses. An iterator is the list of the items it yields, an item
  is an error or a key with its value. Keys are strings, since all keys are built from strings; the
  check of \<open>from_utf8\<close> stays. The clock is an argument.
\<close>

section \<open>Types\<close>

record receipt_state =
  last_seq_seen :: u64
  receipts_enabled :: bool
  updated_at :: u64

definition default_receipt_state :: receipt_state where
  "default_receipt_state = \<lparr>last_seq_seen = 0, receipts_enabled = True, updated_at = 0\<rparr>"

record map_result =
  runs :: "(u64 \<times> u64) list"
  map_last_seq :: u64
  truncated :: bool

record ephemeral_meta =
  chunk_count :: u32
  total_size :: u64
  eph_expires_at :: u64

type_synonym db_item = "string + (string \<times> bytes)"

record 'db store_env =
  db_get :: "'db \<Rightarrow> string \<Rightarrow> bytes option res"
  db_put :: "'db \<Rightarrow> string \<Rightarrow> bytes \<Rightarrow> 'db res"
  db_delete_batch :: "'db \<Rightarrow> string list \<Rightarrow> 'db res"
  db_iter_from :: "'db \<Rightarrow> string \<Rightarrow> db_item list"
  db_iter_rev :: "'db \<Rightarrow> string \<Rightarrow> db_item list"
  db_iter_start :: "'db \<Rightarrow> db_item list"
  receipt_to_json :: "receipt_state \<Rightarrow> bytes res"
  receipt_from_json :: "bytes \<Rightarrow> receipt_state res"
  meta_to_json :: "ephemeral_meta \<Rightarrow> bytes res"
  meta_from_json :: "bytes \<Rightarrow> ephemeral_meta res"
  db_view :: "'db \<Rightarrow> (string \<times> bytes) list"
  db_valid :: "'db \<Rightarrow> bool"

text \<open>\<open>Context::context\<close> replaces the displayed message of an error.\<close>

definition with_context :: "string \<Rightarrow> 'a res \<Rightarrow> 'a res" where
  "with_context c m = (case m of Inl _ \<Rightarrow> Inl c | Inr x \<Rightarrow> Inr x)"

section \<open>Keys\<close>

definition EPH_CHUNK_PREFIX :: string where "EPH_CHUNK_PREFIX = ''eph:''"
definition EPH_META_PREFIX :: string where "EPH_META_PREFIX = ''ephmeta:''"

definition make_eph_chunk_key :: "string \<Rightarrow> string \<Rightarrow> u32 \<Rightarrow> string" where
  "make_eph_chunk_key did fid chunk_index =
     EPH_CHUNK_PREFIX @ did @ '':'' @ fid @ '':'' @ show_pad20 (unat chunk_index)"

definition make_eph_meta_key :: "string \<Rightarrow> string \<Rightarrow> string" where
  "make_eph_meta_key did fid = EPH_META_PREFIX @ did @ '':'' @ fid"

definition make_key :: "string \<Rightarrow> u64 \<Rightarrow> string" where
  "make_key did s = did @ '':'' @ show_pad20 (unat s)"

definition make_receipt_key :: "string \<Rightarrow> string \<Rightarrow> string" where
  "make_receipt_key username did = ''receipt:'' @ username @ '':'' @ did"

definition parse_seq :: "string \<Rightarrow> string \<Rightarrow> u64 res" where
  "parse_seq key did =
     (case parse_u64 (drop (length did + 1) key) of
        Some s \<Rightarrow> Inr s
      | None \<Rightarrow> Inl (''Cannot parse seq from key: '' @ key))"

section \<open>Packets\<close>

definition push :: "'db store_env \<Rightarrow> 'db \<Rightarrow> string \<Rightarrow> u64 \<Rightarrow> bytes \<Rightarrow> 'db res" where
  "push K db did s data =
     (let key = make_key did s
      in try_then (db_get K db key) (\<lambda>found.
           if found \<noteq> None then Inl (''Duplicate seq '' @ show_nat (unat s))
           else with_context ''RocksDB put failed'' (db_put K db key data)))"

text \<open>
  The common part of every scan: the next item, its key as a string. The continuation gets the key
  and the value.
\<close>

definition on_item :: "db_item \<Rightarrow> (string \<Rightarrow> bytes \<Rightarrow> 'a res) \<Rightarrow> 'a res" where
  "on_item item f =
     (case item of
        Inl _ \<Rightarrow> Inl ''RocksDB iterator error''
      | Inr (k, v) \<Rightarrow> if \<not> utf8_valid k then Inl ''Non-UTF8 key in RocksDB'' else f k v)"

fun pull_loop :: "string \<Rightarrow> u64 \<Rightarrow> db_item list \<Rightarrow> (u64 \<times> bytes) list \<Rightarrow> (u64 \<times> bytes) list res" where
  "pull_loop did to_seq [] result = Inr result"
| "pull_loop did to_seq (item # items) result =
     on_item item (\<lambda>k v.
       if \<not> prefix (did @ '':'') k then Inr result
       else try_then (parse_seq k did) (\<lambda>s.
         if s > to_seq then Inr result else pull_loop did to_seq items (result @ [(s, v)])))"

definition pull :: "'db store_env \<Rightarrow> 'db \<Rightarrow> string \<Rightarrow> u64 \<Rightarrow> u64 \<Rightarrow> (u64 \<times> bytes) list res" where
  "pull K db did after_seq to_seq =
     (if to_seq = 0 \<or> to_seq \<le> after_seq then Inl ''Invalid pull range''
      else case checked_add after_seq 1 of
             None \<Rightarrow> Inr []
           | Some start \<Rightarrow> pull_loop did to_seq (db_iter_from K db (make_key did start)) [])"

fun count_loop :: "string \<Rightarrow> db_item list \<Rightarrow> u64 \<Rightarrow> u64 res" where
  "count_loop did [] cnt = Inr cnt"
| "count_loop did (item # items) cnt =
     on_item item (\<lambda>k v.
       if \<not> prefix (did @ '':'') k then Inr cnt else count_loop did items (sat_add cnt 1))"

definition count_after :: "'db store_env \<Rightarrow> 'db \<Rightarrow> string \<Rightarrow> u64 \<Rightarrow> u64 res" where
  "count_after K db did after_seq =
     count_loop did (db_iter_from K db (make_key did (sat_add after_seq 1))) 0"

definition last_seq :: "'db store_env \<Rightarrow> 'db \<Rightarrow> string \<Rightarrow> u64 res" where
  "last_seq K db did =
     (case db_iter_rev K db (did @ '';'') of
        [] \<Rightarrow> Inr 0
      | item # _ \<Rightarrow>
          on_item item (\<lambda>k v. if prefix (did @ '':'') k then parse_seq k did else Inr 0))"

definition lookup_receipt :: "'db store_env \<Rightarrow> 'db \<Rightarrow> string \<Rightarrow> string \<Rightarrow> receipt_state res" where
  "lookup_receipt K db username did =
     try_then (db_get K db (make_receipt_key username did)) (\<lambda>found.
       case found of
         None \<Rightarrow> Inr default_receipt_state
       | Some v \<Rightarrow> with_context ''Cannot decode receipt state'' (receipt_from_json K v))"

definition count_new_for_user :: "'db store_env \<Rightarrow> 'db \<Rightarrow> string \<Rightarrow> u64 \<Rightarrow> string \<Rightarrow> u64 res" where
  "count_new_for_user K db did after_seq username =
     try_then (lookup_receipt K db username did) (\<lambda>st.
       let effective_floor = max after_seq (last_seq_seen st)
       in try_then (last_seq K db did) (\<lambda>l.
            if l \<le> effective_floor then Inr 0 else count_after K db did effective_floor))"

fun map_loop :: "string \<Rightarrow> u64 \<Rightarrow> nat \<Rightarrow> db_item list \<Rightarrow> (u64 \<times> u64) list \<Rightarrow> (u64 \<times> u64) option \<Rightarrow>
    ((u64 \<times> u64) list \<times> (u64 \<times> u64) option \<times> bool) res" where
  "map_loop did to_seq max_runs [] rs current = Inr (rs, current, False)"
| "map_loop did to_seq max_runs (item # items) rs current =
     on_item item (\<lambda>k v.
       if \<not> prefix (did @ '':'') k then Inr (rs, current, False)
       else try_then (parse_seq k did) (\<lambda>s.
         if to_seq \<noteq> 0 \<and> s > to_seq then Inr (rs, current, False)
         else case current of
                Some (b, l) \<Rightarrow>
                  if s = l + 1 then map_loop did to_seq max_runs items rs (Some (b, s))
                  else if length (rs @ [(b, l)]) \<ge> max_runs then Inr (rs @ [(b, l)], None, True)
                  else map_loop did to_seq max_runs items (rs @ [(b, l)]) (Some (s, s))
              | None \<Rightarrow>
                  if length rs \<ge> max_runs then Inr (rs, None, True)
                  else map_loop did to_seq max_runs items rs (Some (s, s))))"

definition map_dialogue :: "'db store_env \<Rightarrow> 'db \<Rightarrow> string \<Rightarrow> u64 \<Rightarrow> u64 \<Rightarrow> nat \<Rightarrow> map_result res" where
  "map_dialogue K db did after_seq to_seq max_runs =
     (if to_seq \<noteq> 0 \<and> to_seq \<le> after_seq then Inl ''Invalid map range''
      else case checked_add after_seq 1 of
             None \<Rightarrow> try_then (last_seq K db did) (\<lambda>l.
               Inr \<lparr>runs = [], map_last_seq = l, truncated = False\<rparr>)
           | Some start \<Rightarrow>
               try_then (map_loop did to_seq max_runs (db_iter_from K db (make_key did start)) [] None)
                 (\<lambda>(rs, current, trunc).
                   let rs' = (if trunc then rs else case current of Some r \<Rightarrow> rs @ [r] | None \<Rightarrow> rs)
                   in try_then (last_seq K db did) (\<lambda>l.
                        Inr \<lparr>runs = rs', map_last_seq = l, truncated = trunc\<rparr>)))"

fun remove_loop :: "string \<Rightarrow> u64 \<Rightarrow> db_item list \<Rightarrow> string list \<Rightarrow> string list res" where
  "remove_loop did to_seq [] batch = Inr batch"
| "remove_loop did to_seq (item # items) batch =
     on_item item (\<lambda>k v.
       if \<not> prefix (did @ '':'') k then Inr batch
       else try_then (parse_seq k did) (\<lambda>s.
         if s > to_seq then Inr batch else remove_loop did to_seq items (batch @ [k])))"

definition remove_range :: "'db store_env \<Rightarrow> 'db \<Rightarrow> string \<Rightarrow> u64 \<Rightarrow> u64 \<Rightarrow> 'db res" where
  "remove_range K db did from_seq to_seq =
     (if from_seq > to_seq \<and> from_seq \<noteq> 0 then Inl ''Invalid range''
      else try_then (remove_loop did to_seq (db_iter_from K db (make_key did (max from_seq 1))) [])
             (\<lambda>batch. with_context ''RocksDB write batch failed'' (db_delete_batch K db batch)))"

text \<open>\<open>split_once(':')\<close>.\<close>

fun split_once :: "string \<Rightarrow> (string \<times> string) option" where
  "split_once [] = None"
| "split_once (c # cs) =
     (if c = CHR '':'' then Some ([], cs) else map_option (\<lambda>(a, b). (c # a, b)) (split_once cs))"

fun list_loop :: "db_item list \<Rightarrow> (string \<times> u64 \<times> u64) list \<Rightarrow> (string \<times> u64 \<times> u64) option \<Rightarrow>
    ((string \<times> u64 \<times> u64) list \<times> (string \<times> u64 \<times> u64) option) res" where
  "list_loop [] result current = Inr (result, current)"
| "list_loop (item # items) result current =
     on_item item (\<lambda>k v.
       if prefix ''receipt:'' k then list_loop items result current
       else case split_once k of
              None \<Rightarrow> list_loop items result current
            | Some (did, seq_str) \<Rightarrow>
                (case parse_u64 seq_str of
                   None \<Rightarrow> list_loop items result current
                 | Some s \<Rightarrow>
                     let val_len = of_nat (length v) in
                     (case current of
                        Some (cur, l, b) \<Rightarrow>
                          if cur = did then
                            list_loop items result (Some (cur, if s > l then s else l, sat_add b val_len))
                          else list_loop items (result @ [(cur, l, b)]) (Some (did, s, val_len))
                      | None \<Rightarrow> list_loop items result (Some (did, s, val_len)))))"

definition list_dialogues :: "'db store_env \<Rightarrow> 'db \<Rightarrow> (string \<times> u64 \<times> u64) list res" where
  "list_dialogues K db =
     try_then (list_loop (db_iter_start K db) [] None) (\<lambda>(result, current).
       Inr (case current of Some p \<Rightarrow> result @ [p] | None \<Rightarrow> result))"

section \<open>Receipts\<close>

definition write_receipt_state :: "'db store_env \<Rightarrow> 'db \<Rightarrow> string \<Rightarrow> string \<Rightarrow> receipt_state \<Rightarrow> 'db res" where
  "write_receipt_state K db username did st =
     try_then (receipt_to_json K st) (\<lambda>v.
       with_context ''RocksDB put receipt failed'' (db_put K db (make_receipt_key username did) v))"

definition update_last_seq :: "'db store_env \<Rightarrow> u64 \<Rightarrow> 'db \<Rightarrow> string \<Rightarrow> string \<Rightarrow> u64 \<Rightarrow> 'db res" where
  "update_last_seq K now db username did pulled_seq =
     try_then (lookup_receipt K db username did) (\<lambda>st.
       if \<not> receipts_enabled st then Inr db
       else write_receipt_state K db username did
              (st\<lparr>last_seq_seen := max (last_seq_seen st) pulled_seq, updated_at := now\<rparr>))"

definition set_receipts_enabled :: "'db store_env \<Rightarrow> u64 \<Rightarrow> 'db \<Rightarrow> string \<Rightarrow> string \<Rightarrow> bool \<Rightarrow> 'db res" where
  "set_receipts_enabled K now db username did enabled =
     try_then (lookup_receipt K db username did) (\<lambda>st.
       write_receipt_state K db username did (st\<lparr>receipts_enabled := enabled, updated_at := now\<rparr>))"

section \<open>Ephemeral files\<close>

definition ephemeral_put_chunk ::
  "'db store_env \<Rightarrow> u64 \<Rightarrow> 'db \<Rightarrow> string \<Rightarrow> string \<Rightarrow> u32 \<Rightarrow> u32 \<Rightarrow> u64 \<Rightarrow> bytes \<Rightarrow> u64 \<Rightarrow> 'db res" where
  "ephemeral_put_chunk K now db did fid chunk_index total_chunks file_size data retention_secs =
     try_then (with_context ''RocksDB put ephemeral chunk failed''
         (db_put K db (make_eph_chunk_key did fid chunk_index) data)) (\<lambda>db1.
       try_then (meta_to_json K \<lparr>chunk_count = total_chunks, total_size = file_size,
           eph_expires_at = sat_add now retention_secs\<rparr>) (\<lambda>v.
         with_context ''RocksDB put ephemeral meta failed'' (db_put K db1 (make_eph_meta_key did fid) v)))"

definition lookup_meta :: "'db store_env \<Rightarrow> u64 \<Rightarrow> 'db \<Rightarrow> string \<Rightarrow> string \<Rightarrow> ephemeral_meta option res" where
  "lookup_meta K now db did fid =
     try_then (db_get K db (make_eph_meta_key did fid)) (\<lambda>found.
       case found of
         None \<Rightarrow> Inr None
       | Some v \<Rightarrow> try_then (with_context ''Bad ephemeral meta'' (meta_from_json K v)) (\<lambda>meta.
           if eph_expires_at meta \<le> now then Inr None else Inr (Some meta)))"

definition ephemeral_get_chunk :: "'db store_env \<Rightarrow> u64 \<Rightarrow> 'db \<Rightarrow> string \<Rightarrow> string \<Rightarrow> u32 \<Rightarrow> bytes option res" where
  "ephemeral_get_chunk K now db did fid chunk_index =
     try_then (lookup_meta K now db did fid) (\<lambda>m.
       if m = None then Inr None else db_get K db (make_eph_chunk_key did fid chunk_index))"

text \<open>
  \<open>ephemeral_reap\<close>: the first loop collects \<open>did:fid\<close> of the expired files (a meta record that does
  not parse counts as expired), the second collects the chunks of one file.
\<close>

definition on_item_short :: "db_item \<Rightarrow> (string \<Rightarrow> bytes \<Rightarrow> 'a res) \<Rightarrow> 'a res" where
  "on_item_short item f =
     (case item of
        Inl _ \<Rightarrow> Inl ''RocksDB iterator error''
      | Inr (k, v) \<Rightarrow> if \<not> utf8_valid k then Inl ''Non-UTF8 key'' else f k v)"

fun reap_scan :: "'db store_env \<Rightarrow> u64 \<Rightarrow> db_item list \<Rightarrow> string list \<Rightarrow> string list res" where
  "reap_scan K now [] expired = Inr expired"
| "reap_scan K now (item # items) expired =
     on_item_short item (\<lambda>k v.
       if \<not> prefix EPH_META_PREFIX k then Inr expired
       else let expires = (case meta_from_json K v of Inr m \<Rightarrow> eph_expires_at m | Inl _ \<Rightarrow> 0)
            in reap_scan K now items
                 (if expires \<le> now then expired @ [drop (length EPH_META_PREFIX) k] else expired))"

fun chunk_scan :: "string \<Rightarrow> db_item list \<Rightarrow> string list \<Rightarrow> string list res" where
  "chunk_scan chunk_prefix [] batch = Inr batch"
| "chunk_scan chunk_prefix (item # items) batch =
     on_item_short item (\<lambda>k v.
       if \<not> prefix chunk_prefix k then Inr batch else chunk_scan chunk_prefix items (batch @ [k]))"

fun reap_files :: "'db store_env \<Rightarrow> 'db \<Rightarrow> string list \<Rightarrow> u64 \<Rightarrow> ('db \<times> u64) res" where
  "reap_files K db [] removed = Inr (db, removed)"
| "reap_files K db (did_fid # rest) removed =
     (let chunk_prefix = EPH_CHUNK_PREFIX @ did_fid @ '':''
      in try_then (chunk_scan chunk_prefix (db_iter_from K db chunk_prefix) [EPH_META_PREFIX @ did_fid]) (\<lambda>batch.
           try_then (with_context ''RocksDB ephemeral reap failed'' (db_delete_batch K db batch)) (\<lambda>db'.
             reap_files K db' rest (removed + 1))))"

definition ephemeral_reap :: "'db store_env \<Rightarrow> u64 \<Rightarrow> 'db \<Rightarrow> ('db \<times> u64) res" where
  "ephemeral_reap K now db =
     try_then (reap_scan K now (db_iter_from K db EPH_META_PREFIX) []) (\<lambda>expired.
       reap_files K db expired 0)"

end
