(* ===== verification/Server_State.thy ===== *)
theory Server_State
  imports Packet_Store
begin

text \<open>
  What the request handlers of the server share: the cryptographic primitives
  (\<open>ParanoiaServer/src/crypto.rs\<close>), the configuration (\<open>config.rs\<close>) and the environment of a
  handler. Base64, Ed25519, SHA-256 and hex encoding are third-party crates: the fields of
  \<open>crypto_env\<close>, with \<open>crypto_ok\<close> the laws that some properties need.
\<close>

section \<open>Cryptography\<close>

record crypto_env =
  b64_decode :: "string \<Rightarrow> bytes res"
  b64_encode :: "bytes \<Rightarrow> string"
  ed_from_bytes :: "bytes \<Rightarrow> bytes res"
  ed_verify :: "bytes \<Rightarrow> bytes \<Rightarrow> bytes \<Rightarrow> bool"
  sha256 :: "bytes \<Rightarrow> bytes"
  hex_encode :: "bytes \<Rightarrow> string"

definition verify_signature :: "crypto_env \<Rightarrow> bytes \<Rightarrow> bytes \<Rightarrow> bytes \<Rightarrow> unit res" where
  "verify_signature C pubkey_bytes message sig_bytes =
     (if length sig_bytes \<noteq> 64 then Inl (''Signature must be 64 bytes, got '' @ show_nat (length sig_bytes))
      else case ed_from_bytes C pubkey_bytes of
             Inl e \<Rightarrow> Inl (''Bad public key: '' @ e)
           | Inr key \<Rightarrow> if ed_verify C key message sig_bytes then Inr () else Inl ''Invalid signature'')"

abbreviation signed_by :: "crypto_env \<Rightarrow> bytes \<Rightarrow> string \<Rightarrow> bytes \<Rightarrow> bool" where
  "signed_by C key msg sig \<equiv> verify_signature C key (as_bytes msg) sig = Inr ()"

definition make_dialogue_id :: "crypto_env \<Rightarrow> string \<Rightarrow> string \<Rightarrow> string" where
  "make_dialogue_id C a b =
     (let (first, second) = (if a < b then (a, b) else (b, a))
      in hex_encode C (sha256 C (as_bytes (first @ '':'' @ second))))"

definition decode_b64 :: "crypto_env \<Rightarrow> string \<Rightarrow> bytes res" where
  "decode_b64 C s = (case b64_decode C s of Inl e \<Rightarrow> Inl (''Base64 decode error: '' @ e) | Inr v \<Rightarrow> Inr v)"

definition encode_b64 :: "crypto_env \<Rightarrow> bytes \<Rightarrow> string" where
  "encode_b64 C data = b64_encode C data"

lemma make_dialogue_id_sym: "make_dialogue_id C a b = make_dialogue_id C b a"
  by (cases a b rule: linorder_cases) (auto simp: make_dialogue_id_def)

section \<open>Trimming\<close>

text \<open>\<open>str::trim\<close>: the encodings of the characters with the property White_Space, at both ends.\<close>

definition white_space :: "string list" where
  "white_space = map (map char_of) ([[9], [10], [11], [12], [13], [32], [194, 133], [194, 160], [225, 154, 128],
     [226, 128, 168], [226, 128, 169], [226, 128, 175], [226, 129, 159], [227, 128, 128]] @
     map (\<lambda>n. [226, 128, n]) [128..<139 :: nat])"

lemma white_space_nonempty: "w \<in> set white_space \<Longrightarrow> w \<noteq> []"
  by (auto simp: white_space_def)

lemma diff_less_iff_pos: "n \<le> m \<Longrightarrow> m - n < m \<longleftrightarrow> 0 < n" for m n :: nat
  by auto

function trim_start :: "string \<Rightarrow> string" where
  "trim_start s = (case find (\<lambda>w. prefix w s) white_space of
     None \<Rightarrow> s | Some w \<Rightarrow> trim_start (drop (length w) s))"
  by auto

termination
proof (relation "measure length")
  fix s w assume "find (\<lambda>w. prefix w s) white_space = Some w"
  then have w: "w \<in> set white_space" "prefix w s" by (auto simp: find_Some_iff)
  then show "(drop (length w) s, s) \<in> measure length"
    using white_space_nonempty [OF w(1)] prefix_length_le [OF w(2)] by (simp add: diff_less_iff_pos)
qed simp

function trim_end :: "string \<Rightarrow> string" where
  "trim_end s = (case find (\<lambda>w. suffix w s) white_space of
     None \<Rightarrow> s | Some w \<Rightarrow> trim_end (take (length s - length w) s))"
  by auto

termination
proof (relation "measure length")
  fix s w assume "find (\<lambda>w. suffix w s) white_space = Some w"
  then have w: "w \<in> set white_space" "suffix w s" by (auto simp: find_Some_iff)
  then show "(take (length s - length w) s, s) \<in> measure length"
    using white_space_nonempty [OF w(1)] suffix_length_le [OF w(2)] by (simp add: diff_less_iff_pos)
qed simp

declare trim_start.simps [simp del] and trim_end.simps [simp del]

definition trim :: "string \<Rightarrow> string" where
  "trim s = trim_end (trim_start s)"

lemma white_space_bytes: "w \<in> set white_space \<Longrightarrow> c \<in> set w \<Longrightarrow> of_char c < (33 :: nat) \<or> 127 < (of_char c :: nat)"
  by (auto simp: white_space_def)
lemma trim_ascii:
  assumes "list_all (\<lambda>c. 33 \<le> (of_char c :: nat) \<and> (of_char c :: nat) \<le> 127) s"
  shows "trim s = s"
proof -
  have no: "\<not> set w \<subseteq> set s" if "w \<in> set white_space" for w
    using white_space_bytes [OF that] white_space_nonempty [OF that] assms
    by (cases w) (fastforce simp: list_all_iff)+
  then have "find (\<lambda>w. prefix w s) white_space = None" "find (\<lambda>w. suffix w s) white_space = None"
    by (auto simp: find_None_iff dest: set_mono_prefix set_mono_suffix)
  then show ?thesis by (simp add: trim_def trim_start.simps trim_end.simps)
qed

section \<open>Configuration\<close>

record server_config =
  port :: u16
  store_path :: string
  admin_key :: string
  extended_admin_key :: string
  users :: "string \<rightharpoonup> string"
  stun_bind :: "string option"
  turn_public_ip :: "string option"
  turn_relay_port_range :: "string option"
  masking_profile_path :: "string option"
  nginx_config_path :: "string option"
  nginx_reload_command :: "string option"
  max_history_file_size :: u64
  large_file_max :: u64
  ephemeral_retention_secs :: u64
  notify_long_poll_max_ms :: u32

definition default_config :: server_config where
  "default_config = \<lparr>port = 1455, store_path = ''store'', admin_key = [], extended_admin_key = [],
     users = Map.empty, stun_bind = Some ''0.0.0.0:3478'', turn_public_ip = None, turn_relay_port_range = None,
     masking_profile_path = None, nginx_config_path = None, nginx_reload_command = None,
     max_history_file_size = 20 * 1024 * 1024, large_file_max = 2 * 1024 * 1024 * 1024,
     ephemeral_retention_secs = 24 * 60 * 60, notify_long_poll_max_ms = 25000\<rparr>"

text \<open>\<open>try_into\<close> from a vector to 32 bytes succeeds exactly on that length.\<close>

definition admin_pubkey_bytes :: "crypto_env \<Rightarrow> server_config \<Rightarrow> bytes res" where
  "admin_pubkey_bytes C cfg = try_then (b64_decode C (admin_key cfg)) (\<lambda>v.
     if length v = 32 then Inr v else Inl ''Bad admin key len'')"

definition extended_admin_pubkey_bytes :: "crypto_env \<Rightarrow> server_config \<Rightarrow> bytes option" where
  "extended_admin_pubkey_bytes C cfg =
     (let key = trim (extended_admin_key cfg)
      in if key = [] then None
         else case b64_decode C key of
                Inl _ \<Rightarrow> None
              | Inr v \<Rightarrow> if length v = 32 then Some v else None)"

definition user_pubkey_bytes :: "crypto_env \<Rightarrow> server_config \<Rightarrow> string \<Rightarrow> bytes option" where
  "user_pubkey_bytes C cfg username =
     (case users cfg username of
        None \<Rightarrow> None
      | Some b64 \<Rightarrow> (case b64_decode C b64 of
                       Inl _ \<Rightarrow> None
                     | Inr v \<Rightarrow> if length v = 32 then Some v else None))"

text \<open>The validation that \<open>Config::load\<close> makes of a configuration that it has parsed.\<close>

definition check_config :: "crypto_env \<Rightarrow> server_config \<Rightarrow> server_config res" where
  "check_config C cfg = try_then (with_context ''admin_key is not valid base64'' (b64_decode C (admin_key cfg))) (\<lambda>v.
     if length v \<noteq> 32 then Inl (''admin_key must be 32 bytes, got '' @ show_nat (length v)) else Inr cfg)"

section \<open>The environment of the handlers\<close>

record 'db server_env =
  crypto :: crypto_env
  kv :: "'db store_env"

record api_response =
  success :: bool
  message :: string

definition api_ok :: "string \<Rightarrow> api_response" where "api_ok msg = \<lparr>success = True, message = msg\<rparr>"
definition api_fail :: "string \<Rightarrow> api_response" where "api_fail msg = \<lparr>success = False, message = msg\<rparr>"

lemma api_simps [simp]: "success (api_ok m)" "\<not> success (api_fail m)" "message (api_ok m) = m" "message (api_fail m) = m"
  by (simp_all add: api_ok_def api_fail_def)

section \<open>Laws of the primitives\<close>

text \<open>
  A SHA-256 digest has 32 bytes, hex doubles the length and uses the sixteen lower-case digits, and
  base64 decodes what it encodes.
\<close>

definition crypto_ok :: "crypto_env \<Rightarrow> bool" where
  "crypto_ok C \<longleftrightarrow> (\<forall>m. length (sha256 C m) = 32) \<and>
     (\<forall>bs. length (hex_encode C bs) = 2 * length bs \<and> set (hex_encode C bs) \<subseteq> set ''0123456789abcdef'') \<and>
     (\<forall>bs. b64_decode C (b64_encode C bs) = Inr bs)"

lemma admin_key_of_loaded: "check_config C cfg = Inr cfg' \<Longrightarrow> cfg' = cfg \<and> (\<exists>k. admin_pubkey_bytes C cfg = Inr k \<and> length k = 32)"
  by (auto simp: check_config_def admin_pubkey_bytes_def with_context_def try_then_Inr_iff split: sum.splits if_splits)

lemma user_pubkey_length: "user_pubkey_bytes C cfg u = Some k \<Longrightarrow> length k = 32"
  by (auto simp: user_pubkey_bytes_def split: option.splits sum.splits if_splits)

end
