(* ===== verification/Packet_Routes.thy ===== *)
theory Packet_Routes
  imports Server_State
begin

text \<open>
  The request handlers over the packet store (\<open>routes/push.rs\<close>, \<open>pull.rs\<close>, \<open>map.rs\<close>,
  \<open>determinate.rs\<close>, \<open>notify.rs\<close>, \<open>arrived.rs\<close>), after the cover layer has produced the request. Every
  handler takes the environment, the configuration and the database it runs on; those that write
  return the database they leave. The configuration is read under a lock once per handler.
\<close>

section \<open>push\<close>

record push_request =
  psh_sender :: string
  psh_recver :: string
  psh_seq :: u64
  psh_payload :: string
  psh_sig :: string

text \<open>
  The third component is the dialogue whose waiting long polls are woken. A failure to raise the
  read mark of the sender is only logged.
\<close>

definition store_packet :: "'db store_env \<Rightarrow> u64 \<Rightarrow> 'db \<Rightarrow> string \<Rightarrow> string \<Rightarrow> u64 \<Rightarrow> bytes \<Rightarrow> 'db res" where
  "store_packet K now db sender did s payload =
     try_then (push K db did s payload) (\<lambda>db1.
       case update_last_seq K now db1 sender did s of
         Inl _ \<Rightarrow> Inr db1
       | Inr db2 \<Rightarrow> Inr db2)"

definition push_msg :: "push_request \<Rightarrow> string" where
  "push_msg req = psh_sender req @ psh_recver req @ show_nat (unat (psh_seq req)) @ psh_payload req"

definition do_push :: "'db server_env \<Rightarrow> server_config \<Rightarrow> u64 \<Rightarrow> 'db \<Rightarrow> push_request \<Rightarrow>
    api_response \<times> 'db \<times> string option" where
  "do_push E cfg now db req =
     (let C = crypto E; failed = (\<lambda>msg. (api_fail msg, db, None)) in
      case decode_b64 C (psh_sig req) of Inl _ \<Rightarrow> failed ''Bad sig encoding''
      | Inr sig \<Rightarrow>
      case decode_b64 C (psh_payload req) of Inl _ \<Rightarrow> failed ''Bad payload encoding''
      | Inr payload_bytes \<Rightarrow>
      if users cfg (psh_recver req) = None then failed ''One user in pair not registered''
      else case user_pubkey_bytes C cfg (psh_sender req) of None \<Rightarrow> failed ''One user in pair not registered''
      | Some sender_pubkey \<Rightarrow>
      case verify_signature C sender_pubkey (as_bytes (push_msg req)) sig of Inl _ \<Rightarrow> failed ''Invalid signature''
      | Inr _ \<Rightarrow>
      let did = make_dialogue_id C (psh_sender req) (psh_recver req) in
      case store_packet (kv E) now db (psh_sender req) did (psh_seq req) payload_bytes of
        Inl e \<Rightarrow> failed e
      | Inr db' \<Rightarrow> (api_ok ''OK'', db', Some did))"

section \<open>pull\<close>

text \<open>The requests of pull, map and determinate have the same fields.\<close>

record range_request =
  rq_sender :: string
  rq_recver :: string
  rq_from :: u64
  rq_to :: u64
  rq_sig :: string

text \<open>\<open>format!("{}{}{}{}", sender, recver, after_seq, to_seq)\<close>, the same in the three handlers.\<close>

definition range_msg :: "range_request \<Rightarrow> string" where
  "range_msg req = rq_sender req @ rq_recver req @ show_nat (unat (rq_from req)) @ show_nat (unat (rq_to req))"

definition pair_keys :: "crypto_env \<Rightarrow> server_config \<Rightarrow> range_request \<Rightarrow> (bytes \<times> bytes) option" where
  "pair_keys C cfg req =
     (case (user_pubkey_bytes C cfg (rq_sender req), user_pubkey_bytes C cfg (rq_recver req)) of
        (Some s, Some r) \<Rightarrow> Some (s, r)
      | _ \<Rightarrow> None)"

record pull_response =
  pl_success :: bool
  packets :: "(u64 \<times> string) list"
  pl_message :: string

definition pull_fail :: "string \<Rightarrow> pull_response" where
  "pull_fail msg = \<lparr>pl_success = False, packets = [], pl_message = msg\<rparr>"

definition fetch_packets :: "'db server_env \<Rightarrow> u64 \<Rightarrow> 'db \<Rightarrow> string \<Rightarrow> string \<Rightarrow> u64 \<Rightarrow> u64 \<Rightarrow> ((u64 \<times> string) list \<times> 'db) res" where
  "fetch_packets E now db signer did after_seq to_seq =
     try_then (pull (kv E) db did after_seq to_seq) (\<lambda>ps.
       try_then (if ps = [] then Inr db
                 else update_last_seq (kv E) now db signer did (Max (fst ` set ps))) (\<lambda>db'.
         Inr (map (\<lambda>(s, v). (s, encode_b64 (crypto E) v)) ps, db')))"

definition do_pull :: "'db server_env \<Rightarrow> server_config \<Rightarrow> u64 \<Rightarrow> 'db \<Rightarrow> range_request \<Rightarrow> pull_response \<times> 'db" where
  "do_pull E cfg now db req =
     (let C = crypto E; failed = (\<lambda>msg. (pull_fail msg, db)) in
      case decode_b64 C (rq_sig req) of Inl _ \<Rightarrow> failed ''Bad sig encoding''
      | Inr sig \<Rightarrow>
      if rq_to req = 0 \<or> rq_to req \<le> rq_from req then failed ''Invalid pull range''
      else case pair_keys C cfg req of None \<Rightarrow> failed ''One user in pair not registered''
      | Some (s, r) \<Rightarrow>
      let msg = as_bytes (range_msg req);
          signer = (if verify_signature C s msg sig = Inr () then Some (rq_sender req)
                    else if verify_signature C r msg sig = Inr () then Some (rq_recver req) else None)
      in case signer of None \<Rightarrow> failed ''Invalid signature''
      | Some who \<Rightarrow>
      case fetch_packets E now db who (make_dialogue_id C (rq_sender req) (rq_recver req)) (rq_from req) (rq_to req) of
        Inl e \<Rightarrow> failed e
      | Inr (ps, db') \<Rightarrow> (\<lparr>pl_success = True, packets = ps, pl_message = []\<rparr>, db'))"

section \<open>map and determinate\<close>

definition MAP_MAX_RUNS :: nat where "MAP_MAX_RUNS = 8192"

record map_response =
  mp_success :: bool
  mp_runs :: "(u64 \<times> u64) list"
  mp_last_seq :: u64
  mp_truncated :: bool
  mp_message :: string

definition map_fail :: "string \<Rightarrow> map_response" where
  "map_fail msg = \<lparr>mp_success = False, mp_runs = [], mp_last_seq = 0, mp_truncated = False, mp_message = msg\<rparr>"

definition signed_by_either :: "crypto_env \<Rightarrow> bytes \<times> bytes \<Rightarrow> range_request \<Rightarrow> bytes \<Rightarrow> bool" where
  "signed_by_either C sr req sig \<longleftrightarrow>
     verify_signature C (fst sr) (as_bytes (range_msg req)) sig = Inr () \<or>
     verify_signature C (snd sr) (as_bytes (range_msg req)) sig = Inr ()"

definition do_map :: "'db server_env \<Rightarrow> server_config \<Rightarrow> 'db \<Rightarrow> range_request \<Rightarrow> map_response" where
  "do_map E cfg db req =
     (let C = crypto E in
      case decode_b64 C (rq_sig req) of Inl _ \<Rightarrow> map_fail ''Bad sig encoding''
      | Inr sig \<Rightarrow>
      if rq_to req \<noteq> 0 \<and> rq_to req \<le> rq_from req then map_fail ''Invalid map range''
      else case pair_keys C cfg req of None \<Rightarrow> map_fail ''One user in pair not registered''
      | Some sr \<Rightarrow>
      if \<not> signed_by_either C sr req sig then map_fail ''Invalid signature''
      else case map_dialogue (kv E) db (make_dialogue_id C (rq_sender req) (rq_recver req)) (rq_from req) (rq_to req) MAP_MAX_RUNS of
        Inl e \<Rightarrow> map_fail e
      | Inr r \<Rightarrow> \<lparr>mp_success = True, mp_runs = runs r, mp_last_seq = map_last_seq r,
                   mp_truncated = truncated r, mp_message = []\<rparr>)"

definition do_determinate :: "'db server_env \<Rightarrow> server_config \<Rightarrow> 'db \<Rightarrow> range_request \<Rightarrow> api_response \<times> 'db" where
  "do_determinate E cfg db req =
     (let C = crypto E; failed = (\<lambda>msg. (api_fail msg, db)) in
      case decode_b64 C (rq_sig req) of Inl _ \<Rightarrow> failed ''Bad sig encoding''
      | Inr sig \<Rightarrow>
      if rq_to req = 0 then failed ''to_seq must be > 0''
      else if rq_from req \<noteq> 0 \<and> rq_from req > rq_to req then failed ''Invalid range''
      else case pair_keys C cfg req of None \<Rightarrow> failed ''One user in pair not registered''
      | Some sr \<Rightarrow>
      if \<not> signed_by_either C sr req sig then failed ''Invalid signature''
      else case remove_range (kv E) db (make_dialogue_id C (rq_sender req) (rq_recver req)) (rq_from req) (rq_to req) of
        Inl e \<Rightarrow> failed e
      | Inr db' \<Rightarrow> (api_ok ''OK'', db'))"

section \<open>notify\<close>

record notify_item =
  ni_partner :: string
  ni_seq :: u64

record notify_request =
  nt_sender :: string
  nt_partner :: string
  nt_seq :: u64
  nt_sig :: string
  nt_long_poll_ms :: u32
  nt_items :: "notify_item list"

record notify_response =
  nt_success :: bool
  nt_n :: u64
  nt_message :: string
  nt_lit :: "(string \<times> u64) list"

definition MAX_NOTIFY_ITEMS :: nat where "MAX_NOTIFY_ITEMS = 512"

definition notify_ok :: "u64 \<Rightarrow> notify_response" where
  "notify_ok n = \<lparr>nt_success = True, nt_n = n, nt_message = [], nt_lit = []\<rparr>"
definition notify_ok_multi :: "(string \<times> u64) list \<Rightarrow> notify_response" where
  "notify_ok_multi lit = \<lparr>nt_success = True, nt_n = 0, nt_message = [], nt_lit = lit\<rparr>"
definition notify_fail :: "string \<Rightarrow> notify_response" where
  "notify_fail msg = \<lparr>nt_success = False, nt_n = 0, nt_message = msg, nt_lit = []\<rparr>"

text \<open>
  A long poll counts up to three times: at once, after it has taken the waker, and after it was
  woken or timed out. The database can differ each time: the handler gets the three. The result is
  the response and the number of the count that produced it (0 if none did).
\<close>

definition notify_msg :: "notify_request \<Rightarrow> string" where
  "notify_msg req = nt_sender req @ nt_partner req @ show_nat (unat (nt_seq req))"

definition do_notify :: "'db server_env \<Rightarrow> server_config \<Rightarrow> 'db \<Rightarrow> 'db \<Rightarrow> 'db \<Rightarrow> notify_request \<Rightarrow> notify_response \<times> nat" where
  "do_notify E cfg db0 db1 db2 req =
     (let C = crypto E; failed = (\<lambda>msg. (notify_fail msg, 0)) in
      case decode_b64 C (nt_sig req) of Inl _ \<Rightarrow> failed ''Bad sig encoding''
      | Inr sig \<Rightarrow>
      if users cfg (nt_partner req) = None then failed ''One user in pair not registered''
      else case user_pubkey_bytes C cfg (nt_sender req) of None \<Rightarrow> failed ''One user in pair not registered''
      | Some sender_pubkey \<Rightarrow>
      case verify_signature C sender_pubkey (as_bytes (notify_msg req)) sig of Inl _ \<Rightarrow> failed ''Invalid signature''
      | Inr _ \<Rightarrow>
      let did = make_dialogue_id C (nt_sender req) (nt_partner req);
          count = (\<lambda>db. count_new_for_user (kv E) db did (nt_seq req) (nt_sender req));
          wait_ms = min (nt_long_poll_ms req) (notify_long_poll_max_ms cfg)
      in case count db0 of Inl e \<Rightarrow> (notify_fail e, 1)
      | Inr n0 \<Rightarrow>
      if n0 > 0 then (notify_ok n0, 1)
      else if wait_ms = 0 then (notify_ok 0, 1)
      else case count db1 of Inl e \<Rightarrow> (notify_fail e, 2)
      | Inr n1 \<Rightarrow>
      if n1 > 0 then (notify_ok n1, 2)
      else case count db2 of Inl e \<Rightarrow> (notify_fail e, 3)
      | Inr n2 \<Rightarrow> (notify_ok n2, 3))"

fun scan_pairs :: "'db store_env \<Rightarrow> 'db \<Rightarrow> string \<Rightarrow> (string \<times> string \<times> u64) list \<Rightarrow> (string \<times> u64) list res" where
  "scan_pairs K db sender [] = Inr []"
| "scan_pairs K db sender ((partner, did, s) # pairs) =
     (case count_new_for_user K db did s sender of
        Inl e \<Rightarrow> Inl e
      | Inr n \<Rightarrow> try_then (scan_pairs K db sender pairs) (\<lambda>lit. Inr (if n > 0 then (partner, n) # lit else lit)))"

definition notify_multi_msg :: "notify_request \<Rightarrow> string" where
  "notify_multi_msg req = nt_sender req @
     concat (map (\<lambda>it. ni_partner it @ show_nat (unat (ni_seq it))) (nt_items req))"

definition resolve_pairs :: "crypto_env \<Rightarrow> server_config \<Rightarrow> notify_request \<Rightarrow> (string \<times> string \<times> u64) list" where
  "resolve_pairs C cfg req =
     map (\<lambda>it. (ni_partner it, make_dialogue_id C (nt_sender req) (ni_partner it), ni_seq it))
       (filter (\<lambda>it. users cfg (ni_partner it) \<noteq> None) (nt_items req))"

text \<open>The configuration is read twice: for the key of the sender, then to resolve the partners.\<close>

definition do_notify_multi :: "'db server_env \<Rightarrow> server_config \<Rightarrow> server_config \<Rightarrow> 'db \<Rightarrow> 'db \<Rightarrow> 'db \<Rightarrow>
    notify_request \<Rightarrow> notify_response \<times> nat" where
  "do_notify_multi E cfg0 cfg1 db0 db1 db2 req =
     (let C = crypto E; failed = (\<lambda>msg. (notify_fail msg, 0)) in
      if length (nt_items req) > MAX_NOTIFY_ITEMS
      then failed (''too many items (>'' @ show_nat MAX_NOTIFY_ITEMS @ '')'')
      else case decode_b64 C (nt_sig req) of Inl _ \<Rightarrow> failed ''Bad sig encoding''
      | Inr sig \<Rightarrow>
      case user_pubkey_bytes C cfg0 (nt_sender req) of None \<Rightarrow> failed ''sender not registered''
      | Some sender_pubkey \<Rightarrow>
      case verify_signature C sender_pubkey (as_bytes (notify_multi_msg req)) sig of Inl _ \<Rightarrow> failed ''Invalid signature''
      | Inr _ \<Rightarrow>
      let pairs = resolve_pairs C cfg1 req;
          scan = (\<lambda>db. scan_pairs (kv E) db (nt_sender req) pairs);
          wait_ms = min (nt_long_poll_ms req) (notify_long_poll_max_ms cfg0)
      in if pairs = [] then (notify_ok_multi [], 0)
      else case scan db0 of Inl e \<Rightarrow> (notify_fail e, 1)
      | Inr l0 \<Rightarrow>
      if l0 \<noteq> [] then (notify_ok_multi l0, 1)
      else if wait_ms = 0 then (notify_ok_multi [], 1)
      else case scan db1 of Inl e \<Rightarrow> (notify_fail e, 2)
      | Inr l1 \<Rightarrow>
      if l1 \<noteq> [] then (notify_ok_multi l1, 2)
      else case scan db2 of Inl e \<Rightarrow> (notify_fail e, 3)
      | Inr l2 \<Rightarrow> (notify_ok_multi l2, 3))"

section \<open>arrived\<close>

datatype arrived_response =
  Arrived_Failed string
| Arrived_Info "u64 option" u64 u64
| Arrived_Set

text \<open>
  The header is absent, or not printable ASCII (\<open>Some None\<close>), or a string. The token is what follows
  the last space.
\<close>

definition after_last_space :: "string \<Rightarrow> string" where
  "after_last_space raw = rev (takeWhile (\<lambda>c. c \<noteq> CHR '' '') (rev raw))"

definition parse_authorization :: "crypto_env \<Rightarrow> string option option \<Rightarrow> (string \<times> string) res" where
  "parse_authorization C header =
     (case header of None \<Rightarrow> Inl ''Missing authorization''
      | Some None \<Rightarrow> Inl ''Invalid authorization''
      | Some (Some raw) \<Rightarrow>
      case decode_b64 C (trim (after_last_space raw)) of Inl _ \<Rightarrow> Inl ''Invalid authorization''
      | Inr decoded \<Rightarrow>
      let token = map (\<lambda>b. char_of (unat b)) decoded in
      if \<not> utf8_valid token then Inl ''Invalid authorization''
      else case split_once token of None \<Rightarrow> Inl ''Invalid authorization''
      | Some (username, sig) \<Rightarrow>
          if username = [] \<or> sig = [] then Inl ''Invalid authorization'' else Inr (username, sig))"

definition verify_user_signature :: "crypto_env \<Rightarrow> server_config \<Rightarrow> string \<Rightarrow> string \<Rightarrow> string \<Rightarrow> string \<Rightarrow> unit res" where
  "verify_user_signature C cfg username partner signed_msg sig_b64 =
     (case decode_b64 C sig_b64 of Inl _ \<Rightarrow> Inl ''Bad sig encoding''
      | Inr sig \<Rightarrow>
      if users cfg partner = None then Inl ''One user in pair not registered''
      else case user_pubkey_bytes C cfg username of None \<Rightarrow> Inl ''One user in pair not registered''
      | Some key \<Rightarrow>
      case verify_signature C key (as_bytes signed_msg) sig of
        Inl _ \<Rightarrow> Inl ''Invalid signature'' | Inr _ \<Rightarrow> Inr ())"

definition arrived_get_signed_msg :: "string \<Rightarrow> string \<Rightarrow> string \<Rightarrow> string" where
  "arrived_get_signed_msg sender partner did = ''arrived:get:'' @ sender @ '':'' @ partner @ '':'' @ did"

definition arrived_put_signed_msg :: "string \<Rightarrow> string \<Rightarrow> bool \<Rightarrow> string" where
  "arrived_put_signed_msg sender did enabled =
     ''arrived:put:'' @ sender @ '':'' @ did @ '':'' @ (if enabled then ''true'' else ''false'')"

definition arrived_get :: "'db server_env \<Rightarrow> server_config \<Rightarrow> u64 \<Rightarrow> 'db \<Rightarrow> string option option \<Rightarrow> string \<Rightarrow> string \<Rightarrow> arrived_response" where
  "arrived_get E cfg now db header did partner =
     (let C = crypto E in
      case parse_authorization C header of Inl e \<Rightarrow> Arrived_Failed e
      | Inr (username, sig) \<Rightarrow>
      if did = [] \<or> partner = [] then Arrived_Failed ''Invalid arrived request''
      else if make_dialogue_id C username partner \<noteq> did then Arrived_Failed ''Invalid dialogue_id''
      else case verify_user_signature C cfg username partner (arrived_get_signed_msg username partner did) sig of
        Inl e \<Rightarrow> Arrived_Failed e
      | Inr _ \<Rightarrow>
      let own = (case lookup_receipt (kv E) db username did of Inl _ \<Rightarrow> 0 | Inr r \<Rightarrow> last_seq_seen r)
      in case lookup_receipt (kv E) db partner did of Inl e \<Rightarrow> Arrived_Failed e
      | Inr r \<Rightarrow> Arrived_Info (if receipts_enabled r then Some (last_seq_seen r) else None) own
                   (if updated_at r = 0 then now else updated_at r))"

definition arrived_put :: "'db server_env \<Rightarrow> server_config \<Rightarrow> u64 \<Rightarrow> 'db \<Rightarrow> string option option \<Rightarrow> string \<Rightarrow> bool \<Rightarrow> string \<Rightarrow>
    arrived_response \<times> 'db" where
  "arrived_put E cfg now db header did enabled body_sig =
     (let C = crypto E; failed = (\<lambda>e. (Arrived_Failed e, db)) in
      case parse_authorization C header of Inl e \<Rightarrow> failed e
      | Inr (username, sig) \<Rightarrow>
      if did = [] then failed ''Invalid arrived request''
      else if sig \<noteq> body_sig then failed ''Signature mismatch''
      else case verify_user_signature C cfg username username (arrived_put_signed_msg username did enabled) sig of
        Inl e \<Rightarrow> failed e
      | Inr _ \<Rightarrow>
      case set_receipts_enabled (kv E) now db username did enabled of
        Inl e \<Rightarrow> failed e
      | Inr db' \<Rightarrow> (Arrived_Set, db'))"

end
