(* ===== verification/Store_Log.thy ===== *)
theory Store_Log
  imports Packet_Store
begin

text \<open>
  What the packet store promises, over the contents of the database: a dialogue is an ordered log
  from sequence numbers to packets, and every operation of \<open>Packet_Store\<close> is its counterpart on that
  log. \<open>store_ok\<close> states the behaviour of RocksDB (a sorted map; iterators in key order, from a key
  forward or backward; atomic batches) and of the JSON codec (what is written is read back) that the
  code relies on.
\<close>

section \<open>Assumptions on the database\<close>

definition store_ok :: "'db store_env \<Rightarrow> bool" where
  "store_ok K \<longleftrightarrow>
     (\<forall>db. db_valid K db \<longrightarrow> om_ok (db_view K db)) \<and>
     (\<forall>db k. db_valid K db \<longrightarrow> db_get K db k = Inr (map_of (db_view K db) k)) \<and>
     (\<forall>db k v. db_valid K db \<longrightarrow> (\<exists>db'. db_put K db k v = Inr db' \<and> db_valid K db' \<and> db_view K db' = om_insert k v (db_view K db))) \<and>
     (\<forall>db ks. db_valid K db \<longrightarrow> (\<exists>db'. db_delete_batch K db ks = Inr db' \<and> db_valid K db' \<and>
        db_view K db' = filter (\<lambda>p. fst p \<notin> set ks) (db_view K db))) \<and>
     (\<forall>db k. db_valid K db \<longrightarrow> db_iter_from K db k = map Inr (filter (\<lambda>p. k \<le> fst p) (db_view K db))) \<and>
     (\<forall>db k. db_valid K db \<longrightarrow> db_iter_rev K db k = map Inr (rev (filter (\<lambda>p. fst p \<le> k) (db_view K db)))) \<and>
     (\<forall>db. db_valid K db \<longrightarrow> db_iter_start K db = map Inr (db_view K db)) \<and>
     (\<forall>st. \<exists>v. receipt_to_json K st = Inr v \<and> receipt_from_json K v = Inr st) \<and>
     (\<forall>m. \<exists>v. meta_to_json K m = Inr v \<and> meta_from_json K v = Inr m)"

lemma store_okD:
  assumes "store_ok K"
  shows "db_valid K db \<Longrightarrow> om_ok (db_view K db)"
    and "db_valid K db \<Longrightarrow> db_get K db k = Inr (map_of (db_view K db) k)"
    and "db_valid K db \<Longrightarrow> \<exists>db'. db_put K db k v = Inr db' \<and> db_valid K db' \<and> db_view K db' = om_insert k v (db_view K db)"
    and "db_valid K db \<Longrightarrow> \<exists>db'. db_delete_batch K db ks = Inr db' \<and> db_valid K db' \<and>
      db_view K db' = filter (\<lambda>p. fst p \<notin> set ks) (db_view K db)"
    and "db_valid K db \<Longrightarrow> db_iter_from K db k = map Inr (filter (\<lambda>p. k \<le> fst p) (db_view K db))"
    and "db_valid K db \<Longrightarrow> db_iter_rev K db k = map Inr (rev (filter (\<lambda>p. fst p \<le> k) (db_view K db)))"
    and "db_valid K db \<Longrightarrow> db_iter_start K db = map Inr (db_view K db)"
    and "\<exists>v. receipt_to_json K st = Inr v \<and> receipt_from_json K v = Inr st"
    and "\<exists>v. meta_to_json K m = Inr v \<and> meta_from_json K v = Inr m"
  using assms unfolding store_ok_def by blast+

section \<open>Keys\<close>

text \<open>A dialogue id is a SHA-256 digest in hex.\<close>

definition hex_chars :: "char set" where
  "hex_chars = set ''0123456789abcdef''"

definition did_ok :: "string \<Rightarrow> bool" where
  "did_ok d \<longleftrightarrow> length d = 64 \<and> set d \<subseteq> hex_chars"

lemma hex_chars_ascii: "c \<in> hex_chars \<Longrightarrow> of_char c < (128 :: nat)"
  by (auto simp: hex_chars_def)

lemma not_hex_chars: "CHR ''r'' \<notin> hex_chars" "CHR ''p'' \<notin> hex_chars" "CHR '':'' \<notin> hex_chars"
  by (simp_all add: hex_chars_def)

definition key_form :: "string \<Rightarrow> bool" where
  "key_form k \<longleftrightarrow> (\<exists>d s. did_ok d \<and> k = make_key d s) \<or>
     prefix ''receipt:'' k \<or>
     (\<exists>d r. did_ok d \<and> (k = EPH_CHUNK_PREFIX @ d @ '':'' @ r \<or> k = EPH_META_PREFIX @ d @ '':'' @ r))"

definition keys_ok :: "(string \<times> bytes) list \<Rightarrow> bool" where
  "keys_ok m \<longleftrightarrow> om_ok m \<and> (\<forall>k \<in> fst ` set m. utf8_valid k \<and> key_form k)"

lemma make_key_less [simp]: "make_key d a < make_key d b \<longleftrightarrow> a < b"
  unfolding make_key_def by (simp only: append_less_cancel show_pad20_less_iff)

lemma make_key_le [simp]: "make_key d a \<le> make_key d b \<longleftrightarrow> a \<le> b"
  unfolding make_key_def by (simp only: append_le_cancel show_pad20_le_iff)

lemma make_key_eq [simp]: "make_key d a = make_key d b \<longleftrightarrow> a = b"
  unfolding make_key_def by simp

lemma make_key_prefix [simp]: "prefix (d @ '':'') (make_key d s)"
  by (simp add: make_key_def)

lemma parse_seq_make_key [simp]: "parse_seq (make_key d s) d = Inr s"
  by (simp add: parse_seq_def make_key_def)

lemma did_ok_chars: "did_ok d \<Longrightarrow> i < 64 \<Longrightarrow> d ! i \<in> hex_chars"
  unfolding did_ok_def by (metis nth_mem subsetD)

lemma did_utf8: "did_ok d \<Longrightarrow> utf8_valid d"
  by (rule utf8_valid_ascii) (auto simp: did_ok_def intro: hex_chars_ascii)

lemma digit_ascii: "of_char (digit n) < (128 :: nat)"
  by simp

lemma pad20_utf8: "n < 10 ^ 20 \<Longrightarrow> utf8_valid (show_pad20 n)"
  by (rule utf8_valid_ascii) (auto simp: show_pad20_eq dest!: dec_fixed_digits)

lemma make_key_utf8: "did_ok d \<Longrightarrow> utf8_valid (make_key d s)"
proof -
  assume d: "did_ok d"
  have "unat s < 10 ^ 20" using unsigned_less [where w = s and ?'a = nat] by simp
  moreover have "utf8_valid '':''" by (simp add: utf8_valid_def)
  ultimately show ?thesis
    unfolding make_key_def using did_utf8 [OF d] pad20_utf8 by (simp only: utf8_valid_append)
qed

lemma not_service_key:
  assumes d: "did_ok d" and p: "prefix d k"
  shows "\<not> prefix ''receipt:'' k" and "\<not> prefix EPH_CHUNK_PREFIX k" and "\<not> prefix EPH_META_PREFIX k"
proof -
  obtain r where r: "k = d @ r" using p by (auto simp: prefix_def)
  have k: "k ! 0 \<in> hex_chars" "k ! 1 \<in> hex_chars"
    using did_ok_chars [OF d, of 0] did_ok_chars [OF d, of 1] d
    by (simp_all add: r nth_append did_ok_def)
  show "\<not> prefix ''receipt:'' k" using k(1) not_hex_chars by (auto simp: prefix_def)
  show "\<not> prefix EPH_CHUNK_PREFIX k"
    using k(2) not_hex_chars by (auto simp: prefix_def EPH_CHUNK_PREFIX_def)
  show "\<not> prefix EPH_META_PREFIX k"
    using k(2) not_hex_chars by (auto simp: prefix_def EPH_META_PREFIX_def)
qed

text \<open>Among the keys of the database, those of a dialogue are recognised by their prefix.\<close>

lemma key_of_dialogue:
  assumes "did_ok d" and "key_form k" and "prefix d k" 
  shows "\<exists>s. k = make_key d s"
proof -
  from not_service_key [OF assms(1,3)] assms(2) obtain d' s where
    d': "did_ok d'" "k = make_key d' s" by (auto simp: key_form_def)
  then have "take 64 k = d'" by (simp add: make_key_def did_ok_def)
  moreover have "take 64 k = d" using assms(1,3) by (auto simp: did_ok_def prefix_def)
  ultimately show ?thesis using d' by auto
qed

section \<open>The log of a dialogue\<close>

definition packet_log :: "string \<Rightarrow> (string \<times> bytes) list \<Rightarrow> (u64 \<times> bytes) list" where
  "packet_log d m = map (\<lambda>(k, v). (the (parse_u64 (drop (length d + 1) k)), v))
     (filter (\<lambda>p. prefix (d @ '':'') (fst p)) m)"

abbreviation entry :: "string \<Rightarrow> u64 \<times> bytes \<Rightarrow> string \<times> bytes" where
  "entry d \<equiv> \<lambda>(s, v). (make_key d s, v)"

lemma parse_u64_of_key [simp]: "parse_u64 (drop (Suc (length d)) (make_key d s)) = Some s"
  by (simp add: make_key_def)

lemma entries_of_log:
  assumes m: "keys_ok m" and d: "did_ok d"
  shows "filter (\<lambda>p. prefix (d @ '':'') (fst p)) m = map (entry d) (packet_log d m)"
proof -
  have "map (entry d) (map (\<lambda>(k, v). (the (parse_u64 (drop (length d + 1) k)), v)) xs) = xs"
    if "\<And>p. p \<in> set xs \<Longrightarrow> \<exists>s. fst p = make_key d s" for xs
    using that
  proof (induction xs)
    case (Cons p xs)
    from Cons.prems [of p] obtain s where "fst p = make_key d s" by auto
    with Cons show ?case by (cases p) simp
  qed simp
  moreover have "\<exists>s. fst p = make_key d s" if "p \<in> set (filter (\<lambda>p. prefix (d @ '':'') (fst p)) m)" for p
    using that key_of_dialogue [OF d, of "fst p"] m append_prefixD by (fastforce simp: keys_ok_def)
  ultimately show ?thesis unfolding packet_log_def by (metis (no_types, lifting))
qed

lemma packet_log_ok: "keys_ok m \<Longrightarrow> did_ok d \<Longrightarrow> om_ok (packet_log d m)"
proof -
  assume m: "keys_ok m" and d: "did_ok d"
  have "sorted_wrt (<) (map fst (filter (\<lambda>p. prefix (d @ '':'') (fst p)) m))"
    using m by (intro sorted_wrt_filter_map) (simp add: keys_ok_def om_ok_def)
  then show ?thesis
    unfolding entries_of_log [OF m d] by (simp add: om_ok_def sorted_wrt_map case_prod_beta)
qed

lemma map_of_packet_log:
  assumes m: "keys_ok m" and d: "did_ok d"
  shows "map_of (packet_log d m) s = map_of m (make_key d s)"
proof -
  have "map_of m (make_key d s) = map_of (filter (\<lambda>p. prefix (d @ '':'') (fst p)) m) (make_key d s)"
    by (induction m) auto
  also have "\<dots> = map_of (map (entry d) (packet_log d m)) (make_key d s)"
    by (simp only: entries_of_log [OF m d])
  also have "\<dots> = map_of (packet_log d m) s"
  proof -
    have "map_of (map (entry d) l) (make_key d s) = map_of l s" for l by (induction l) auto
    then show ?thesis .
  qed
  finally show ?thesis by simp
qed

lemma filter_dropWhile_Nil: "takeWhile P xs = filter P xs \<Longrightarrow> filter P (dropWhile P xs) = []"
  by (induction xs) (auto split: if_splits)

text \<open>A forward scan from a key of the dialogue: the rest of its log, then keys of others.\<close>

lemma scan_from:
  assumes m: "keys_ok m" and d: "did_ok d"
  obtains rest where "filter (\<lambda>p. make_key d s \<le> fst p) m =
      map (entry d) (filter (\<lambda>p. s \<le> fst p) (packet_log d m)) @ rest"
    and "\<forall>p \<in> set rest. utf8_valid (fst p) \<and> \<not> prefix (d @ '':'') (fst p)"
proof -
  let ?F = "filter (\<lambda>p. make_key d s \<le> fst p) m" and ?P = "\<lambda>p. prefix (d @ '':'') (fst p)"
  have "sorted_wrt (<) (map fst ?F)"
    using m by (intro sorted_wrt_filter_map) (simp add: keys_ok_def om_ok_def)
  then have tw: "takeWhile ?P ?F = filter ?P ?F"
    by (rule takeWhile_prefix_sorted [where r = "show_pad20 (unat s)"]) (simp add: make_key_def)
  have "filter ?P ?F = filter (\<lambda>p. make_key d s \<le> fst p) (filter ?P m)"
    by (simp add: conj_commute)
  also have "\<dots> = map (entry d) (filter (\<lambda>p. s \<le> fst p) (packet_log d m))"
    by (simp only: entries_of_log [OF m d]) (simp add: filter_map comp_def case_prod_beta)
  finally have head: "takeWhile ?P ?F = map (entry d) (filter (\<lambda>p. s \<le> fst p) (packet_log d m))"
    unfolding tw .
  have eq: "?F = map (entry d) (filter (\<lambda>p. s \<le> fst p) (packet_log d m)) @ dropWhile ?P ?F"
    unfolding head [symmetric] by (rule takeWhile_dropWhile_id [symmetric])
  have none: "\<forall>p \<in> set (dropWhile ?P ?F). \<not> ?P p"
    by (rule filter_dropWhile_Nil [OF tw, unfolded filter_empty_conv])
  have "set (dropWhile ?P ?F) \<subseteq> set m"
    using set_dropWhileD [of _ ?P ?F] by (meson filter_is_subset subset_iff)
  then have "\<forall>p \<in> set (dropWhile ?P ?F). utf8_valid (fst p)"
    using m by (meson imageI keys_ok_def subsetD)
  with that [OF eq] none show thesis by blast
qed

section \<open>The loops over a scan\<close>

text \<open>
  Each loop runs over the entries of one dialogue followed by keys of others; sorted numbers turn
  its stopping test into a filter.
\<close>

lemma on_item_ok [simp]: "utf8_valid k \<Longrightarrow> on_item (Inr (k, v)) f = f k v"
  by (simp add: on_item_def)

lemma pull_loop_scan:
  "did_ok d \<Longrightarrow> (\<forall>p \<in> set rest. utf8_valid (fst p) \<and> \<not> prefix (d @ '':'') (fst p)) \<Longrightarrow>
   pull_loop d to_seq (map Inr (map (entry d) L @ rest)) acc = Inr (acc @ takeWhile (\<lambda>p. fst p \<le> to_seq) L)"
proof (induction L arbitrary: acc)
  case Nil
  then show ?case by (cases rest) auto
next
  case (Cons p L)
  then show ?case by (cases p) (simp add: make_key_utf8 not_le)
qed

lemma count_loop_scan:
  "did_ok d \<Longrightarrow> (\<forall>p \<in> set rest. utf8_valid (fst p) \<and> \<not> prefix (d @ '':'') (fst p)) \<Longrightarrow>
   count_loop d (map Inr (map (entry d) L @ rest)) c = Inr (((\<lambda>x. sat_add x 1) ^^ length L) c)"
proof (induction L arbitrary: c)
  case Nil
  then show ?case by (cases rest) auto
next
  case (Cons p L)
  then show ?case by (cases p) (simp add: make_key_utf8 funpow_swap1 [of "\<lambda>x. sat_add x 1"])
qed

lemma remove_loop_scan:
  "did_ok d \<Longrightarrow> (\<forall>p \<in> set rest. utf8_valid (fst p) \<and> \<not> prefix (d @ '':'') (fst p)) \<Longrightarrow>
   remove_loop d to_seq (map Inr (map (entry d) L @ rest)) acc =
     Inr (acc @ map (\<lambda>p. make_key d (fst p)) (takeWhile (\<lambda>p. fst p \<le> to_seq) L))"
proof (induction L arbitrary: acc)
  case Nil
  then show ?case by (cases rest) auto
next
  case (Cons p L)
  then show ?case by (cases p) (simp add: make_key_utf8 not_le)
qed

lemma unat_sat_count: "unat (((\<lambda>x. sat_add x 1) ^^ n) (0 :: u64)) = min n (2 ^ 64 - 1)"
  by (induction n) (simp_all add: unat_sat_add)

text \<open>The runs of consecutive numbers of an ascending list.\<close>

fun runs_from :: "u64 \<Rightarrow> u64 \<Rightarrow> u64 list \<Rightarrow> (u64 \<times> u64) list" where
  "runs_from b l [] = [(b, l)]"
| "runs_from b l (s # ss) = (if s = l + 1 then runs_from b s ss else (b, l) # runs_from s s ss)"

fun runs_of :: "u64 list \<Rightarrow> (u64 \<times> u64) list" where
  "runs_of [] = []"
| "runs_of (s # ss) = runs_from s s ss"

definition map_answer :: "(u64 \<times> u64) list \<times> (u64 \<times> u64) option \<times> bool \<Rightarrow> (u64 \<times> u64) list" where
  "map_answer = (\<lambda>(rs, current, trunc). if trunc then rs else case current of Some r \<Rightarrow> rs @ [r] | None \<Rightarrow> rs)"

lemma runs_from_nonempty [simp]: "runs_from b l ss \<noteq> []"
  by (induction ss arbitrary: b l) auto

definition within :: "u64 \<Rightarrow> (u64 \<times> bytes) list \<Rightarrow> (u64 \<times> bytes) list" where
  "within to_seq L = takeWhile (\<lambda>p. to_seq = 0 \<or> fst p \<le> to_seq) L"

lemma map_loop_stop:
  "(\<forall>p \<in> set rest. utf8_valid (fst p) \<and> \<not> prefix (d @ '':'') (fst p)) \<Longrightarrow>
   map_loop d to_seq max_runs (map Inr rest) rs cur = Inr (rs, cur, False)"
  by (cases rest) auto

lemma map_loop_scan:
  assumes d: "did_ok d" and rest: "\<forall>p \<in> set rest. utf8_valid (fst p) \<and> \<not> prefix (d @ '':'') (fst p)"
  shows "length rs < max_runs \<Longrightarrow> \<exists>r. map_loop d to_seq max_runs (map Inr (map (entry d) L @ rest)) rs (Some (b, l)) = Inr r \<and>
    map_answer r = take max_runs (rs @ runs_from b l (map fst (within to_seq L))) \<and>
    snd (snd r) = (max_runs < length (rs @ runs_from b l (map fst (within to_seq L))))"
proof (induction L arbitrary: rs b l)
  case Nil
  then show ?case using map_loop_stop [OF rest] by (simp add: map_answer_def within_def)
next
  case (Cons p L)
  obtain s v where p: "p = (s, v)" by fastforce
  note key = make_key_utf8 [OF d, of s]
  consider "to_seq \<noteq> 0 \<and> s > to_seq" | "\<not> (to_seq \<noteq> 0 \<and> s > to_seq)" "s = l + 1"
    | "\<not> (to_seq \<noteq> 0 \<and> s > to_seq)" "s \<noteq> l + 1" "max_runs \<le> Suc (length rs)"
    | "\<not> (to_seq \<noteq> 0 \<and> s > to_seq)" "s \<noteq> l + 1" "Suc (length rs) < max_runs" by linarith
  then show ?case
  proof cases
    case 1
    then show ?thesis using key Cons.prems by (auto simp: p map_answer_def within_def)
  next
    case 2
    then show ?thesis using key Cons.IH [OF Cons.prems, of b s] by (auto simp: p within_def)
  next
    case 3
    then have "max_runs = Suc (length rs)" using Cons.prems by simp
    with 3 key show ?thesis
      by (auto simp: p map_answer_def within_def Suc_le_eq)
  next
    case 4
    then show ?thesis using key Cons.IH [of "rs @ [(b, l)]" s s] by (auto simp: p within_def)
  qed
qed

lemma map_loop_start:
  assumes d: "did_ok d" and rest: "\<forall>p \<in> set rest. utf8_valid (fst p) \<and> \<not> prefix (d @ '':'') (fst p)"
  shows "\<exists>r. map_loop d to_seq max_runs (map Inr (map (entry d) L @ rest)) [] None = Inr r \<and>
    map_answer r = take max_runs (runs_of (map fst (within to_seq L))) \<and>
    snd (snd r) = (max_runs < length (runs_of (map fst (within to_seq L))))"
proof (cases L)
  case Nil
  then show ?thesis using map_loop_stop [OF rest] by (simp add: map_answer_def within_def)
next
  case (Cons p L')
  obtain s v where p: "p = (s, v)" by fastforce
  note key = make_key_utf8 [OF d, of s]
  show ?thesis
  proof (cases "\<not> (to_seq \<noteq> 0 \<and> s > to_seq) \<and> 0 < max_runs")
    case True
    then show ?thesis
      using key map_loop_scan [OF d rest, of "[]" max_runs to_seq L' s s]
      by (auto simp: Cons p within_def)
  qed (use key in \<open>auto simp: Cons p map_answer_def within_def not_le word_gt_0\<close>)
qed

section \<open>The operations on the log\<close>

definition db_inv :: "'db store_env \<Rightarrow> 'db \<Rightarrow> bool" where
  "db_inv K db \<longleftrightarrow> store_ok K \<and> db_valid K db \<and> keys_ok (db_view K db)"

definition log_of :: "'db store_env \<Rightarrow> 'db \<Rightarrow> string \<Rightarrow> (u64 \<times> bytes) list" where
  "log_of K db d = packet_log d (db_view K db)"

lemma db_invD:
  assumes "db_inv K db"
  shows "store_ok K" and "db_valid K db" and "keys_ok (db_view K db)"
  using assms by (simp_all add: db_inv_def)

lemma log_of_ok: "db_inv K db \<Longrightarrow> did_ok d \<Longrightarrow> om_ok (log_of K db d)"
  by (simp add: log_of_def packet_log_ok db_inv_def)

lemma map_of_log_of:
  "db_inv K db \<Longrightarrow> did_ok d \<Longrightarrow> map_of (log_of K db d) s = map_of (db_view K db) (make_key d s)"
  by (simp add: log_of_def map_of_packet_log db_inv_def)

lemma iter_from_log:
  assumes "db_inv K db" and "did_ok d"
  obtains rest where "db_iter_from K db (make_key d s)
      = map Inr (map (entry d) (filter (\<lambda>p. s \<le> fst p) (log_of K db d)) @ rest)"
    and "\<forall>p \<in> set rest. utf8_valid (fst p) \<and> \<not> prefix (d @ '':'') (fst p)"
  using scan_from [OF db_invD(3) [OF assms(1)] assms(2), of s] store_okD(5) [OF db_invD(1,2) [OF assms(1)]]
  by (metis assms(1) log_of_def)

lemma sorted_takeWhile_le:
  "om_ok L \<Longrightarrow> takeWhile (\<lambda>p. fst p \<le> t) L = filter (\<lambda>p. fst p \<le> t) L"
  for L :: "(u64 \<times> bytes) list"
  unfolding om_ok_def by (rule takeWhile_sorted_le)

lemma om_ok_filter: "om_ok L \<Longrightarrow> om_ok (filter P L)"
  for L :: "('k::linorder \<times> 'v) list"
  unfolding om_ok_def by (rule sorted_wrt_filter_map)

lemma checked_succ_le: "checked_add a 1 = Some c \<Longrightarrow> c \<le> b \<longleftrightarrow> a < b" for a b :: u64
  by (auto simp: checked_add_Some_iff word_le_nat_alt word_less_nat_alt unat_word_ariths)

lemma checked_succ_None: "checked_add a 1 = None \<Longrightarrow> \<not> a < b" for a b :: u64
  by (simp add: checked_add_one_None word_order.not_eq_extremum flip: word_order.not_eq_extremum)

lemma sat_succ_le: "a \<noteq> - 1 \<Longrightarrow> sat_add a 1 \<le> b \<longleftrightarrow> a < b" for a b :: u64
proof -
  assume "a \<noteq> - 1"
  then obtain c where c: "checked_add a 1 = Some c" using checked_add_one_None by fastforce
  then have "sat_add a 1 = c"
    by (auto simp: sat_add_def checked_add_def split: if_splits)
  with checked_succ_le [OF c] show ?thesis by simp
qed

text \<open>\<open>pull\<close>: the packets of the range, in order.\<close>

lemma pull_spec:
  assumes inv: "db_inv K db" and d: "did_ok d"
  shows "pull K db d a t = (if t = 0 \<or> t \<le> a then Inl ''Invalid pull range''
    else Inr (filter (\<lambda>p. a < fst p \<and> fst p \<le> t) (log_of K db d)))"
proof (cases "checked_add a 1")
  case None
  then have "filter (\<lambda>p. a < fst p \<and> fst p \<le> t) (log_of K db d) = []"
    by (simp add: filter_empty_conv checked_succ_None)
  with None show ?thesis by (simp add: pull_def)
next
  case (Some start)
  obtain rest where it: "db_iter_from K db (make_key d start)
      = map Inr (map (entry d) (filter (\<lambda>p. start \<le> fst p) (log_of K db d)) @ rest)"
    and rest: "\<forall>p \<in> set rest. utf8_valid (fst p) \<and> \<not> prefix (d @ '':'') (fst p)"
    by (rule iter_from_log [OF inv d])
  have "om_ok (filter (\<lambda>p. start \<le> fst p) (log_of K db d))"
    by (rule om_ok_filter [OF log_of_ok [OF inv d]])
  then show ?thesis
    using pull_loop_scan [OF d rest, of t _ "[]"] checked_succ_le [OF Some]
    by (simp add: pull_def Some it sorted_takeWhile_le conj_commute)
qed

text \<open>
  \<open>count_after\<close>: the packets above the floor, saturating. At the largest floor the code counts from
  the floor itself.
\<close>

lemma count_after_scan:
  assumes inv: "db_inv K db" and d: "did_ok d"
  shows "count_after K db d a = Inr (((\<lambda>x. sat_add x 1) ^^
    length (filter (\<lambda>p. sat_add a 1 \<le> fst p) (log_of K db d))) 0)"
proof -
  obtain rest where it: "db_iter_from K db (make_key d (sat_add a 1))
      = map Inr (map (entry d) (filter (\<lambda>p. sat_add a 1 \<le> fst p) (log_of K db d)) @ rest)"
    and rest: "\<forall>p \<in> set rest. utf8_valid (fst p) \<and> \<not> prefix (d @ '':'') (fst p)"
    by (rule iter_from_log [OF inv d])
  show ?thesis unfolding count_after_def it by (rule count_loop_scan [OF d rest])
qed

lemma count_after_spec:
  assumes "db_inv K db" and "did_ok d" and "a \<noteq> - 1"
  shows "\<exists>n. count_after K db d a = Inr n \<and>
    unat n = min (length (filter (\<lambda>p. a < fst p) (log_of K db d))) (2 ^ 64 - 1)"
  using count_after_scan [OF assms(1,2)] unat_sat_count sat_succ_le [OF assms(3)] by simp

text \<open>\<open>last_seq\<close>: the largest number of the log.\<close>

lemma last_entry:
  assumes m: "keys_ok m" and d: "did_ok d"
  defines "G \<equiv> filter (\<lambda>p. fst p \<le> d @ '';'') m"
  shows "packet_log d m \<noteq> [] \<Longrightarrow> G \<noteq> [] \<and> last G = entry d (last (packet_log d m))"
    and "packet_log d m = [] \<Longrightarrow> G = [] \<or> \<not> prefix (d @ '':'') (fst (last G))"
proof -
  let ?P = "\<lambda>p. prefix (d @ '':'') (fst p)"
  have ent: "filter ?P m = map (entry d) (packet_log d m)" by (rule entries_of_log [OF m d])
  have colon: "fst p \<le> d @ '';''" if "?P p" for p :: "string \<times> bytes"
    using that by (auto simp: prefix_def less_eq_char_def)
  then have GP: "filter ?P G = map (entry d) (packet_log d m)"
    unfolding ent [symmetric] G_def by (auto intro: filter_cong)
  show "packet_log d m = [] \<Longrightarrow> G = [] \<or> \<not> ?P (last G)"
    using GP by (auto simp: filter_empty_conv)
  assume ne: "packet_log d m \<noteq> []"
  then obtain q where q: "q \<in> set G" "?P q" using GP by (metis filter_empty_conv map_is_Nil_conv)
  then have G: "G \<noteq> []" by auto
  then obtain G' x where Gx: "G = G' @ [x]" by (metis append_butlast_last_id)
  have "sorted_wrt (<) (map fst G)"
    unfolding G_def using m by (intro sorted_wrt_filter_map) (simp add: keys_ok_def om_ok_def)
  then have "fst q \<le> fst x" using q(1) by (auto simp: Gx sorted_wrt_append)
  moreover have "x \<in> set G" by (simp add: Gx)
  then have x: "fst x \<le> d @ '';''" "x \<in> set m" by (simp_all add: G_def)
  ultimately have pd: "prefix d (fst x)"
    using prefix_between [of d "fst q" "fst x" "d @ '';''"] q(2) by (auto dest: append_prefixD)
  have "key_form (fst x)" using x(2) m by (auto simp: keys_ok_def)
  from key_of_dialogue [OF d this pd] have "?P x" by auto
  then have "filter ?P G = filter ?P G' @ [x]" by (simp add: Gx)
  with GP ne have "x = entry d (last (packet_log d m))"
    by (metis last_map last_snoc)
  with G Gx show "G \<noteq> [] \<and> last G = entry d (last (packet_log d m))" by simp
qed

definition top_seq :: "(u64 \<times> bytes) list \<Rightarrow> u64" where
  "top_seq L = (if L = [] then 0 else fst (last L))"

lemma last_seq_spec:
  assumes inv: "db_inv K db" and d: "did_ok d"
  shows "last_seq K db d = Inr (top_seq (log_of K db d))"
proof -
  let ?m = "db_view K db" and ?G = "filter (\<lambda>p. fst p \<le> d @ '';'') (db_view K db)"
  have it: "db_iter_rev K db (d @ '';'') = map Inr (rev ?G)"
    by (rule store_okD(6) [OF db_invD(1,2) [OF inv]])
  note le = last_entry [OF db_invD(3) [OF inv] d]
  show ?thesis
  proof (cases "?G = []")
    case True
    then have "log_of K db d = []" using le(1) by (auto simp: log_of_def)
    with True show ?thesis by (simp add: last_seq_def it top_seq_def)
  next
    case False
    then obtain k v G' where G: "?G = G' @ [(k, v)]" by (metis append_butlast_last_id surj_pair)
    then have "(k, v) \<in> set ?m" by (metis filter_is_subset in_set_conv_decomp subsetD)
    then have "utf8_valid k" using db_invD(3) [OF inv] by (force simp: keys_ok_def)
    with le G show ?thesis
      by (cases "packet_log d ?m = []")
        (auto simp: last_seq_def it top_seq_def log_of_def case_prod_beta)
  qed
qed

lemma make_key_inj:
  "did_ok d \<Longrightarrow> did_ok d' \<Longrightarrow> make_key d s = make_key d' s' \<longleftrightarrow> d = d' \<and> s = s'"
  by (auto simp: make_key_def did_ok_def)

lemma insert_packet_ok: "keys_ok m \<Longrightarrow> did_ok d \<Longrightarrow> keys_ok (om_insert (make_key d s) v m)"
  using make_key_utf8 [of d s] by (auto simp: keys_ok_def set_om_insert key_form_def)

lemma packet_log_insert:
  assumes m: "keys_ok m" and d: "did_ok d" and d': "did_ok d'"
  shows "packet_log d' (om_insert (make_key d s) v m) =
    (if d' = d then om_insert s v (packet_log d m) else packet_log d' m)"
proof -
  note m' = insert_packet_ok [OF m d, of s v]
  have om: "om_ok m" using m by (simp add: keys_ok_def)
  have "map_of (packet_log d' (om_insert (make_key d s) v m)) =
      map_of (if d' = d then om_insert s v (packet_log d m) else packet_log d' m)"
    using om packet_log_ok [OF m d]
    by (auto simp: fun_eq_iff map_of_packet_log [OF m' d'] map_of_packet_log [OF m d'] map_of_packet_log [OF m d]
        make_key_inj [OF d' d])
  then show ?thesis
    using packet_log_ok [OF m' d'] packet_log_ok [OF m d] packet_log_ok [OF m d'] by (intro om_ext) auto
qed

lemma push_spec:
  assumes inv: "db_inv K db" and d: "did_ok d"
  shows "if map_of (log_of K db d) s \<noteq> None then push K db d s v = Inl (''Duplicate seq '' @ show_nat (unat s))
    else \<exists>db'. push K db d s v = Inr db' \<and> db_inv K db' \<and>
      db_view K db' = om_insert (make_key d s) v (db_view K db)"
proof -
  note K = db_invD [OF inv]
  obtain db' where "db_put K db (make_key d s) v = Inr db'" "db_valid K db'"
    "db_view K db' = om_insert (make_key d s) v (db_view K db)"
    using store_okD(3) [OF K(1,2)] by blast
  then show ?thesis
    using insert_packet_ok [OF K(3) d, of s v] K(1)
    by (auto simp: push_def map_of_log_of [OF inv d] store_okD(2) [OF K(1,2)] with_context_def db_inv_def)
qed

lemma push_log:
  assumes "db_inv K db" and "did_ok d" and "push K db d s v = Inr db'"
  shows "db_inv K db' \<and> map_of (log_of K db d) s = None \<and>
    (\<forall>d'. did_ok d' \<longrightarrow> log_of K db' d' = (if d' = d then om_insert s v (log_of K db d) else log_of K db d'))"
  using push_spec [OF assms(1,2), of s v] assms packet_log_insert [OF db_invD(3) [OF assms(1)] assms(2)]
  by (auto simp: log_of_def split: if_splits)

lemma remove_range_spec:
  assumes inv: "db_inv K db" and d: "did_ok d"
  shows "if a > t \<and> a \<noteq> 0 then remove_range K db d a t = Inl ''Invalid range''
    else \<exists>db'. remove_range K db d a t = Inr db' \<and> db_inv K db' \<and>
      db_view K db' = filter (\<lambda>p. fst p \<notin> make_key d ` {s. max a 1 \<le> s \<and> s \<le> t}) (db_view K db)"
proof (cases "a > t \<and> a \<noteq> 0")
  case False
  note K = db_invD [OF inv]
  let ?L = "filter (\<lambda>p. max a 1 \<le> fst p) (log_of K db d)" and ?m = "db_view K db"
  obtain rest where it: "db_iter_from K db (make_key d (max a 1)) = map Inr (map (entry d) ?L @ rest)"
    and rest: "\<forall>p \<in> set rest. utf8_valid (fst p) \<and> \<not> prefix (d @ '':'') (fst p)"
    by (rule iter_from_log [OF inv d])
  define ks where "ks = map (\<lambda>p. make_key d (fst p)) (filter (\<lambda>p. fst p \<le> t) ?L)"
  have "remove_loop d t (db_iter_from K db (make_key d (max a 1))) [] = Inr ks"
    unfolding it ks_def
    using remove_loop_scan [OF d rest, of t ?L "[]"] sorted_takeWhile_le [OF om_ok_filter [OF log_of_ok [OF inv d]]]
    by simp
  moreover obtain db' where db': "db_delete_batch K db ks = Inr db'" "db_valid K db'"
    "db_view K db' = filter (\<lambda>p. fst p \<notin> set ks) ?m"
    using store_okD(4) [OF K(1,2)] by blast
  moreover have "fst p \<in> set ks \<longleftrightarrow> fst p \<in> make_key d ` {s. max a 1 \<le> s \<and> s \<le> t}" if p: "p \<in> set ?m" for p
  proof -
    have "s \<in> fst ` set (log_of K db d)" if "fst p = make_key d s" for s
      using map_of_log_of [OF inv d, of s] p that
      by (metis domI dom_map_of_conv_image_fst map_of_eq_None_iff imageI option.exhaust)
    then show ?thesis by (fastforce simp: ks_def)
  qed
  then have "filter (\<lambda>p. fst p \<notin> set ks) ?m
      = filter (\<lambda>p. fst p \<notin> make_key d ` {s. max a 1 \<le> s \<and> s \<le> t}) ?m"
    by (intro filter_cong) auto
  moreover have "keys_ok (filter (\<lambda>p. fst p \<notin> set ks) ?m)"
    using K(3) by (auto simp: keys_ok_def om_ok_filter)
  ultimately show ?thesis using False K(1) by (simp add: remove_range_def with_context_def db_inv_def)
qed (simp add: remove_range_def)

lemma packet_log_remove:
  assumes d: "did_ok d" and d': "did_ok d'" and m: "keys_ok m"
  shows "packet_log d' (filter (\<lambda>p. fst p \<notin> make_key d ` S) m) =
    (if d' = d then filter (\<lambda>p. fst p \<notin> S) (packet_log d m) else packet_log d' m)"
proof -
  let ?m' = "filter (\<lambda>p. fst p \<notin> make_key d ` S) m"
  have m': "keys_ok ?m'" using m by (auto simp: keys_ok_def om_ok_filter)
  have flt: "map_of (filter (\<lambda>p. fst p \<notin> T) xs) k = (if k \<in> T then None else map_of xs k)"
    for T :: "'k set" and xs :: "('k \<times> bytes) list" and k
    by (induction xs) auto
  have mem: "make_key d' x \<in> make_key d ` S \<longleftrightarrow> d' = d \<and> x \<in> S" for x
    using make_key_inj [OF d' d] by auto
  have "map_of (packet_log d' ?m') = map_of (if d' = d then filter (\<lambda>p. fst p \<notin> S) (packet_log d m) else packet_log d' m)"
    by (simp add: fun_eq_iff map_of_packet_log [OF m' d'] map_of_packet_log [OF m d']
        map_of_packet_log [OF m d] flt mem)
  then show ?thesis
    using packet_log_ok [OF m' d'] packet_log_ok [OF m d'] om_ok_filter [OF packet_log_ok [OF m d]]
    by (intro om_ext) auto
qed

lemma remove_range_log:
  assumes "db_inv K db" and "did_ok d" and "remove_range K db d a t = Inr db'"
  shows "db_inv K db' \<and> (\<forall>d'. did_ok d' \<longrightarrow> log_of K db' d' =
    (if d' = d then filter (\<lambda>p. \<not> (max a 1 \<le> fst p \<and> fst p \<le> t)) (log_of K db d) else log_of K db d'))"
proof -
  let ?S = "{s. max a 1 \<le> s \<and> s \<le> t}"
  note spec = remove_range_spec [OF assms(1,2), of t a]
  have "db_inv K db' \<and> db_view K db' = filter (\<lambda>p. fst p \<notin> make_key d ` ?S) (db_view K db)"
  proof (cases "a > t \<and> a \<noteq> 0")
    case True
    with spec assms(3) show ?thesis by (simp only: if_True) simp
  next
    case False
    with spec obtain db'' where "remove_range K db d a t = Inr db''" "db_inv K db''"
      "db_view K db'' = filter (\<lambda>p. fst p \<notin> make_key d ` ?S) (db_view K db)"
      by (simp only: if_False) blast
    with assms(3) show ?thesis by (simp only: sum.inject)
  qed
  then show ?thesis
    using packet_log_remove [OF assms(2) _ db_invD(3) [OF assms(1)], of _ ?S] by (simp add: log_of_def)
qed

section \<open>Receipts\<close>

definition receipt_of :: "'db store_env \<Rightarrow> 'db \<Rightarrow> string \<Rightarrow> string \<Rightarrow> receipt_state res" where
  "receipt_of K db u d =
     (case map_of (db_view K db) (make_receipt_key u d) of
        None \<Rightarrow> Inr default_receipt_state
      | Some v \<Rightarrow> (case receipt_from_json K v of Inl _ \<Rightarrow> Inl ''Cannot decode receipt state'' | Inr st \<Rightarrow> Inr st))"

lemma lookup_receipt_spec: "db_inv K db \<Longrightarrow> lookup_receipt K db u d = receipt_of K db u d"
  by (simp add: lookup_receipt_def receipt_of_def with_context_def store_okD(2) [OF db_invD(1,2)]
      split: option.split sum.split)

lemma receipt_key_not_packet: "did_ok d' \<Longrightarrow> make_receipt_key u d \<noteq> make_key d' s"
proof
  assume d': "did_ok d'" and eq: "make_receipt_key u d = make_key d' s"
  have "prefix d' (make_key d' s)" by (simp add: make_key_def)
  from not_service_key(1) [OF d' this] show False
    unfolding eq [symmetric] by (simp add: make_receipt_key_def)
qed

lemma receipt_key_utf8: "utf8_valid u \<Longrightarrow> utf8_valid d \<Longrightarrow> utf8_valid (make_receipt_key u d)"
proof -
  assume u: "utf8_valid u" and d: "utf8_valid d"
  have c: "utf8_valid ''receipt:''" "utf8_valid '':''" by (simp_all add: utf8_valid_def)
  show ?thesis unfolding make_receipt_key_def using u d c by (simp only: utf8_valid_append)
qed

lemma insert_receipt_ok:
  assumes "keys_ok m" and "utf8_valid u" and "utf8_valid d"
  shows "keys_ok (om_insert (make_receipt_key u d) v m)"
  using assms receipt_key_utf8 [OF assms(2,3)]
  by (auto simp: keys_ok_def set_om_insert key_form_def make_receipt_key_def)

lemma packet_log_receipt:
  assumes m: "keys_ok m" and u: "utf8_valid u" "utf8_valid d" and d': "did_ok d'"
  shows "packet_log d' (om_insert (make_receipt_key u d) v m) = packet_log d' m"
proof -
  note m' = insert_receipt_ok [OF m u, of v]
  have "map_of (packet_log d' (om_insert (make_receipt_key u d) v m)) = map_of (packet_log d' m)"
    using m receipt_key_not_packet [OF d', of u d]
    by (auto simp: fun_eq_iff map_of_packet_log [OF m' d'] map_of_packet_log [OF m d'] keys_ok_def
        dest: not_sym)
  then show ?thesis using packet_log_ok [OF m' d'] packet_log_ok [OF m d'] by (intro om_ext) auto
qed

text \<open>Writing a receipt changes that receipt and no packet.\<close>

lemma write_receipt_spec:
  assumes inv: "db_inv K db" and u: "utf8_valid u" "utf8_valid d"
  shows "\<exists>db'. write_receipt_state K db u d st = Inr db' \<and> db_inv K db' \<and>
    receipt_of K db' u d = Inr st \<and> (\<forall>d'. did_ok d' \<longrightarrow> log_of K db' d' = log_of K db d') \<and>
    (\<forall>u' d'. make_receipt_key u' d' \<noteq> make_receipt_key u d \<longrightarrow> receipt_of K db' u' d' = receipt_of K db u' d')"
proof -
  note K = db_invD [OF inv]
  obtain v where v: "receipt_to_json K st = Inr v" "receipt_from_json K v = Inr st"
    using store_okD(8) [OF K(1)] by blast
  obtain db' where db': "db_put K db (make_receipt_key u d) v = Inr db'" "db_valid K db'"
    "db_view K db' = om_insert (make_receipt_key u d) v (db_view K db)"
    using store_okD(3) [OF K(1,2)] by blast
  have "om_ok (db_view K db)" using K(3) by (simp add: keys_ok_def)
  then show ?thesis
    using v db' insert_receipt_ok [OF K(3) u, of v] packet_log_receipt [OF K(3) u, of _ v] K(1)
    by (auto simp: write_receipt_state_def with_context_def db_inv_def receipt_of_def log_of_def)
qed

lemma update_last_seq_spec:
  assumes inv: "db_inv K db" and u: "utf8_valid u" "utf8_valid d" and st: "receipt_of K db u d = Inr st"
  shows "\<exists>db'. update_last_seq K now db u d s = Inr db' \<and> db_inv K db' \<and>
    receipt_of K db' u d = Inr (if receipts_enabled st
      then st\<lparr>last_seq_seen := max (last_seq_seen st) s, updated_at := now\<rparr> else st) \<and>
    (\<forall>d'. did_ok d' \<longrightarrow> log_of K db' d' = log_of K db d') \<and>
    (\<forall>u' d'. make_receipt_key u' d' \<noteq> make_receipt_key u d \<longrightarrow> receipt_of K db' u' d' = receipt_of K db u' d')"
  using write_receipt_spec [OF inv u, of "st\<lparr>last_seq_seen := max (last_seq_seen st) s, updated_at := now\<rparr>"]
    inv st by (auto simp: update_last_seq_def lookup_receipt_spec [OF inv])

text \<open>\<open>count_new_for_user\<close> is exact at every floor: the short cut covers the saturating case.\<close>

lemma fst_le_top: "om_ok L \<Longrightarrow> p \<in> set L \<Longrightarrow> fst p \<le> top_seq L"
  for L :: "(u64 \<times> bytes) list"
proof -
  assume a: "om_ok L" "p \<in> set L"
  then obtain L' x where "L = L' @ [x]" by (metis append_butlast_last_id empty_iff empty_set)
  with a show ?thesis by (auto simp: om_ok_def sorted_wrt_append top_seq_def)
qed

lemma count_new_spec:
  assumes inv: "db_inv K db" and d: "did_ok d" and st: "receipt_of K db u d = Inr st"
  shows "\<exists>n. count_new_for_user K db d a u = Inr n \<and>
    unat n = min (length (filter (\<lambda>p. max a (last_seq_seen st) < fst p) (log_of K db d))) (2 ^ 64 - 1)"
proof -
  let ?f = "max a (last_seq_seen st)" and ?L = "log_of K db d"
  have eq: "count_new_for_user K db d a u = (if top_seq ?L \<le> ?f then Inr 0 else count_after K db d ?f)"
    by (simp add: count_new_for_user_def lookup_receipt_spec [OF inv] st last_seq_spec [OF inv d] Let_def)
  show ?thesis
  proof (cases "top_seq ?L \<le> ?f")
    case True
    have "\<not> ?f < fst p" if "p \<in> set ?L" for p
      using fst_le_top [OF log_of_ok [OF inv d] that] True by (meson leD order_trans)
    then have nil: "filter (\<lambda>p. ?f < fst p) ?L = []" by (simp only: filter_empty_conv) blast
    show ?thesis unfolding nil using True by (simp add: eq)
  next
    case False
    then have "?f \<noteq> - 1" by (metis word_n1_ge)
    from count_after_spec [OF inv d this] False show ?thesis by (simp add: eq)
  qed
qed

section \<open>Runs\<close>

lemma takeWhile_True: "takeWhile (\<lambda>p. True) xs = xs"
  by (induction xs) auto

lemma map_spec:
  assumes inv: "db_inv K db" and d: "did_ok d"
  defines "live a t \<equiv> map fst (filter (\<lambda>p. a < fst p \<and> (t = 0 \<or> fst p \<le> t)) (log_of K db d))"
  shows "map_dialogue K db d a t max_runs =
    (if t \<noteq> 0 \<and> t \<le> a then Inl ''Invalid map range''
     else Inr \<lparr>runs = take max_runs (runs_of (live a t)), map_last_seq = top_seq (log_of K db d),
            truncated = (max_runs < length (runs_of (live a t)))\<rparr>)"
proof (cases "checked_add a 1")
  case None
  then have "live a t = []" by (simp add: live_def filter_empty_conv checked_succ_None)
  then show ?thesis using None by (simp add: map_dialogue_def last_seq_spec [OF inv d])
next
  case (Some start)
  let ?L = "filter (\<lambda>p. start \<le> fst p) (log_of K db d)"
  obtain rest where it: "db_iter_from K db (make_key d start) = map Inr (map (entry d) ?L @ rest)"
    and rest: "\<forall>p \<in> set rest. utf8_valid (fst p) \<and> \<not> prefix (d @ '':'') (fst p)"
    by (rule iter_from_log [OF inv d])
  have L: "map fst (within t ?L) = live a t"
    using sorted_takeWhile_le [OF om_ok_filter [OF log_of_ok [OF inv d]]] checked_succ_le [OF Some]
    by (cases "t = 0") (simp_all add: within_def live_def conj_commute takeWhile_True)
  obtain rs cur tr where r: "map_loop d t max_runs (db_iter_from K db (make_key d start)) [] None = Inr (rs, cur, tr)"
    "map_answer (rs, cur, tr) = take max_runs (runs_of (live a t))" "tr = (max_runs < length (runs_of (live a t)))"
    using map_loop_start [OF d rest, of t max_runs ?L] unfolding it L by auto
  then show ?thesis
    by (cases "t = 0") (simp_all add: map_dialogue_def Some last_seq_spec [OF inv d] map_answer_def)
qed

text \<open>The runs are the maximal intervals of the live numbers.\<close>

definition covered :: "(u64 \<times> u64) list \<Rightarrow> u64 set" where
  "covered rs = (\<Union>(b, e) \<in> set rs. {b..e})"

lemma runs_from_cover:
  "b \<le> l \<Longrightarrow> sorted_wrt (<) (l # ss) \<Longrightarrow> covered (runs_from b l ss) = {b..l} \<union> set ss"
proof (induction ss arbitrary: b l)
  case (Cons s ss)
  then have ls: "l < s" and srt: "sorted_wrt (<) (s # ss)" by auto
  show ?case
  proof (cases "s = l + 1")
    case True
    have "{b..s} = insert s {b..l}"
    proof -
      have "x < s \<longleftrightarrow> x \<le> l" for x
        by (simp add: True word_le_nat_alt word_less_nat_alt unat_plus_one [OF ls] less_Suc_eq_le)
      then have "x \<le> s \<longleftrightarrow> x = s \<or> x \<le> l" for x by (simp only: order_le_less [of x s]) blast
      moreover have "b \<le> s" using Cons.prems(1) ls by (meson less_imp_le order_trans)
      ultimately show ?thesis by (simp only: set_eq_iff atLeastAtMost_iff insert_iff) blast
    qed
    with Cons.IH [of b s] Cons.prems(1) ls srt True show ?thesis by auto
  next
    case False
    with Cons.IH [of s s] srt show ?thesis by (auto simp: covered_def)
  qed
qed (simp add: covered_def)

lemma runs_of_cover: "sorted_wrt (<) ss \<Longrightarrow> covered (runs_of ss) = set ss"
  using runs_from_cover by (cases ss) (auto simp: covered_def)

end
