(* ===== verification/Store_Listing.thy ===== *)
theory Store_Listing
  imports Store_Log
begin

text \<open>
  \<open>list_dialogues\<close> of the packet store is exact: one entry per dialogue that has packets, with its
  last sequence number and its size, although packets, receipts and ephemeral files share one key
  space and the loop sees them in key order.
\<close>

section \<open>One key\<close>

lemma split_once_append: "CHR '':'' \<notin> set a \<Longrightarrow> split_once (a @ CHR '':'' # b) = Some (a, b)"
  by (induction a) auto

lemma digit_value_colon: "digit_value CHR '':'' = None"
  by (simp add: digit_value_def)

lemma parse_digits_colon: "CHR '':'' \<in> set s \<Longrightarrow> parse_digits acc s = None"
  by (induction s arbitrary: acc) (auto simp: digit_value_colon split: option.splits)

lemma parse_u64_colon: "CHR '':'' \<in> set s \<Longrightarrow> parse_u64 s = None"
proof -
  define body where "body = (case s of c # cs \<Rightarrow> if c = CHR ''+'' then cs else s | [] \<Rightarrow> [])"
  assume "CHR '':'' \<in> set s"
  then have "CHR '':'' \<in> set body" by (cases s) (auto simp: body_def)
  then show ?thesis by (simp add: parse_u64_def parse_digits_colon flip: body_def)
qed

lemma split_make_key: "did_ok d \<Longrightarrow> split_once (make_key d s) = Some (d, show_pad20 (unat s))"
  using not_hex_chars(3) split_once_append [of d] by (auto simp: make_key_def did_ok_def subset_iff)

lemma list_loop_append:
  "list_loop (xs @ ys) r c = try_then (list_loop xs r c) (\<lambda>(r', c'). list_loop ys r' c')"
proof (induction xs arbitrary: r c)
  case (Cons item xs)
  then show ?case
    by (cases item) (auto simp: on_item_def Let_def split: option.splits)
qed simp

lemma list_loop_packet:
  assumes "did_ok d"
  shows "list_loop [Inr (make_key d s, v)] r c =
    (case c of
       Some (cur, l, b) \<Rightarrow>
         if cur = d then Inr (r, Some (cur, max l s, sat_add b (of_nat (length v))))
         else Inr (r @ [(cur, l, b)], Some (d, s, of_nat (length v)))
     | None \<Rightarrow> Inr (r, Some (d, s, of_nat (length v))))"
proof -
  have "prefix d (make_key d s)" by (simp add: make_key_def)
  note key = not_service_key(1) [OF assms this] make_key_utf8 [OF assms, of s] split_make_key [OF assms, of s]
  show ?thesis by (cases c) (auto simp: key max_def not_le Let_def)
qed

lemma list_loop_other:
  assumes k: "utf8_valid k" "key_form k" and other: "\<And>d s. did_ok d \<Longrightarrow> k \<noteq> make_key d s"
  shows "list_loop [Inr (k, v)] r c = Inr (r, c)"
proof (cases "prefix ''receipt:'' k")
  case False
  with k(2) other obtain d q where q: "k = EPH_CHUNK_PREFIX @ d @ '':'' @ q \<or> k = EPH_META_PREFIX @ d @ '':'' @ q"
    by (auto simp: key_form_def)
  have "split_once k = Some (''eph'', d @ '':'' @ q) \<or> split_once k = Some (''ephmeta'', d @ '':'' @ q)"
    using q by (auto simp: EPH_CHUNK_PREFIX_def EPH_META_PREFIX_def)
  moreover have "parse_u64 (d @ '':'' @ q) = None" by (rule parse_u64_colon) simp
  ultimately show ?thesis using k(1) False by auto
qed (use k(1) in simp)

section \<open>The whole database\<close>

definition total_of :: "(u64 \<times> bytes) list \<Rightarrow> u64" where
  "total_of L = foldl (\<lambda>b p. sat_add b (of_nat (length (snd p)))) 0 L"

definition listed :: "(string \<times> bytes) list \<Rightarrow> (string \<times> u64 \<times> u64) list \<Rightarrow> bool" where
  "listed m R \<longleftrightarrow> distinct (map fst R) \<and> (\<forall>d l b. (d, l, b) \<in> set R \<longleftrightarrow>
     did_ok d \<and> packet_log d m \<noteq> [] \<and> l = top_seq (packet_log d m) \<and> b = total_of (packet_log d m))"

definition last_packet :: "(string \<times> bytes) list \<Rightarrow> (string \<times> u64 \<times> u64) option \<Rightarrow> bool" where
  "last_packet m c \<longleftrightarrow>
     (case c of
        None \<Rightarrow> \<forall>d. did_ok d \<longrightarrow> packet_log d m = []
      | Some (d, l, b) \<Rightarrow> did_ok d \<and>
          (\<forall>d' s. did_ok d' \<and> make_key d' s \<in> fst ` set m \<longrightarrow> make_key d' s \<le> make_key d l))"

definition opt_list :: "'a option \<Rightarrow> 'a list" where
  "opt_list c = (case c of None \<Rightarrow> [] | Some x \<Rightarrow> [x])"

lemma packet_log_snoc:
  assumes "did_ok d"
  shows "packet_log d (m @ [(make_key d s, v)]) = packet_log d m @ [(s, v)]"
    and "did_ok d' \<Longrightarrow> d' \<noteq> d \<Longrightarrow> packet_log d' (m @ [(make_key d s, v)]) = packet_log d' m"
    and "\<not> prefix (d' @ '':'') k \<Longrightarrow> packet_log d' (m @ [(k, v)]) = packet_log d' m"
proof -
  have "\<not> prefix (d' @ '':'') (make_key d s)" if "did_ok d'" "d' \<noteq> d"
    using that assms by (auto simp: make_key_def did_ok_def prefix_def append_eq_append_conv)
  then show "did_ok d' \<Longrightarrow> d' \<noteq> d \<Longrightarrow> packet_log d' (m @ [(make_key d s, v)]) = packet_log d' m"
    by (simp add: packet_log_def)
qed (simp_all add: packet_log_def)

lemma keys_ok_snoc:
  "keys_ok (m @ [(k, v)]) \<Longrightarrow> keys_ok m \<and> utf8_valid k \<and> key_form k \<and> (\<forall>k' \<in> fst ` set m. k' < k)"
  by (auto simp: keys_ok_def om_ok_def sorted_wrt_append)

lemma log_member: "keys_ok m \<Longrightarrow> did_ok d \<Longrightarrow> packet_log d m \<noteq> [] \<Longrightarrow>
    make_key d (top_seq (packet_log d m)) \<in> fst ` set m"
proof -
  assume m: "keys_ok m" and d: "did_ok d" and ne: "packet_log d m \<noteq> []"
  have "fst (last (packet_log d m)) \<in> fst ` set (packet_log d m)" using ne by simp
  then have "map_of (packet_log d m) (top_seq (packet_log d m)) \<noteq> None"
    using ne by (simp add: top_seq_def map_of_eq_None_iff)
  then show ?thesis by (simp add: map_of_packet_log [OF m d] map_of_eq_None_iff)
qed

lemma sat_add_0 [simp]: "sat_add 0 x = x" for x :: u64
  by (simp add: sat_add_def)

text \<open>A packet of a dialogue that is not the current one belongs to a dialogue not seen yet.\<close>

lemma new_dialogue:
  assumes m: "keys_ok (m @ [(make_key d s, v)])" and d: "did_ok d"
    and last: "last_packet m (Some (cur, l, b))" and ne: "cur \<noteq> d"
    and cur: "make_key cur l \<in> fst ` set m"
  shows "packet_log d m = []"
proof (rule ccontr)
  assume "packet_log d m \<noteq> []"
  have m': "keys_ok m" and lt: "\<forall>k' \<in> fst ` set m. k' < make_key d s" using keys_ok_snoc [OF m] by auto
  let ?t = "top_seq (packet_log d m)"
  have "make_key d ?t \<in> fst ` set m" using log_member [OF m' d] \<open>packet_log d m \<noteq> []\<close> by blast
  then have "make_key d ?t \<le> make_key cur l" "make_key cur l \<le> make_key d s"
    using last d lt cur by (auto simp: last_packet_def intro: less_imp_le)
  then have "prefix (d @ '':'') (make_key cur l)"
    using prefix_between [of "d @ '':''" "make_key d ?t" "make_key cur l" "make_key d s"] by simp
  then show False
    using ne d last by (auto simp: last_packet_def make_key_def did_ok_def prefix_def append_eq_append_conv)
qed

text \<open>What one more packet does to the listing.\<close>

lemma listedD:
  "listed m R \<Longrightarrow> (d, l, b) \<in> set R \<longleftrightarrow> did_ok d \<and> packet_log d m \<noteq> [] \<and>
     l = top_seq (packet_log d m) \<and> b = total_of (packet_log d m)"
  by (simp add: listed_def)

lemma listed_new:
  assumes R: "listed m R" and m: "keys_ok (m @ [(make_key d s, v)])" and d: "did_ok d"
    and fresh: "packet_log d m = []"
  shows "listed (m @ [(make_key d s, v)]) (R @ [(d, s, of_nat (length v))])"
proof -
  let ?m' = "m @ [(make_key d s, v)]"
  have "d \<notin> fst ` set R" using R fresh by (auto simp: listed_def)
  moreover have "(d', l, b) \<in> set (R @ [(d, s, of_nat (length v))]) \<longleftrightarrow> did_ok d' \<and> packet_log d' ?m' \<noteq> [] \<and>
      l = top_seq (packet_log d' ?m') \<and> b = total_of (packet_log d' ?m')" for d' l b
  proof (cases "d' = d")
    case True
    have "packet_log d ?m' = [(s, v)]" using fresh by (simp add: packet_log_snoc(1) [OF d])
    moreover have "(d, l, b) \<notin> set R" using R fresh by (auto simp: listed_def)
    ultimately show ?thesis using True d by (simp add: top_seq_def total_of_def)
  next
    case False
    then show ?thesis using R packet_log_snoc(2) [OF d, of d' m s v] by (auto simp: listed_def)
  qed
  ultimately show ?thesis using R by (simp add: listed_def)
qed

lemma listed_more:
  assumes R: "listed m (R @ [(d, l, b)])" and m: "keys_ok (m @ [(make_key d s, v)])"
  shows "listed (m @ [(make_key d s, v)]) (R @ [(d, max l s, sat_add b (of_nat (length v)))])"
proof -
  let ?m' = "m @ [(make_key d s, v)]"
  have d: "did_ok d" and ne: "packet_log d m \<noteq> []" and l: "l = top_seq (packet_log d m)"
    and b: "b = total_of (packet_log d m)" using R by (auto simp: listed_def)
  have m': "keys_ok m" and lt: "\<forall>k' \<in> fst ` set m. k' < make_key d s" using keys_ok_snoc [OF m] by auto
  have ls: "l < s" using bspec [OF lt log_member [OF m' d ne]] by (simp add: l)
  have dR: "d \<notin> fst ` set R" using R by (auto simp: listed_def)
  have "(d', l', b') \<in> set (R @ [(d, max l s, sat_add b (of_nat (length v)))]) \<longleftrightarrow> did_ok d' \<and>
      packet_log d' ?m' \<noteq> [] \<and> l' = top_seq (packet_log d' ?m') \<and> b' = total_of (packet_log d' ?m')" for d' l' b'
  proof (cases "d' = d")
    case True
    moreover have "(d, l', b') \<notin> set R" using dR by force
    ultimately show ?thesis
      using d ls b by (simp add: packet_log_snoc(1) [OF d] top_seq_def total_of_def max.absorb2 less_imp_le)
  next
    case False
    then show ?thesis
      using listedD [OF R, of d' l' b'] packet_log_snoc(2) [OF d, of d' m s v] by (cases "did_ok d'") simp_all
  qed
  then show ?thesis using R by (simp add: listed_def)
qed

lemma listed_other:
  assumes "listed m R" and "last_packet m c" and "\<And>d s. did_ok d \<Longrightarrow> k \<noteq> make_key d s" and "key_form k"
  shows "listed (m @ [(k, v)]) R" and "last_packet (m @ [(k, v)]) c"
proof -
  have np: "\<not> prefix (d @ '':'') k" if "did_ok d" for d
    using key_of_dialogue [OF that assms(4)] assms(3) [OF that] append_prefixD by blast
  then have log: "packet_log d (m @ [(k, v)]) = packet_log d m" if "did_ok d" for d
    using that by (simp add: packet_log_snoc(3))
  then show "listed (m @ [(k, v)]) R" using assms(1) by (auto simp: listed_def)
  show "last_packet (m @ [(k, v)]) c"
  proof -
    have "make_key d' s \<in> fst ` set (m @ [(k, v)]) \<longleftrightarrow> make_key d' s \<in> fst ` set m" if "did_ok d'" for d' s
      using assms(3) [OF that] by auto
    then show ?thesis
      using assms(2) log unfolding last_packet_def by (cases c) (simp_all cong: conj_cong split: prod.splits)
  qed
qed

lemma list_loop_listed:
  "keys_ok m \<Longrightarrow> \<exists>r c. list_loop (map Inr m) [] None = Inr (r, c) \<and> listed m (r @ opt_list c) \<and> last_packet m c"
proof (induction m rule: rev_induct)
  case Nil
  then show ?case by (auto simp: listed_def last_packet_def opt_list_def packet_log_def)
next
  case (snoc x m)
  obtain k v where x: "x = (k, v)" by fastforce
  have m: "keys_ok m" and k: "utf8_valid k" "key_form k" and lt: "\<forall>k' \<in> fst ` set m. k' < k"
    using keys_ok_snoc [OF snoc.prems [unfolded x]] by auto
  from snoc.IH [OF m] obtain r c where IH: "list_loop (map Inr m) [] None = Inr (r, c)"
    "listed m (r @ opt_list c)" "last_packet m c" by blast
  have loop: "list_loop (map Inr (m @ [x])) [] None = list_loop [Inr (k, v)] r c"
    by (simp add: list_loop_append IH(1) x del: list_loop.simps(2))
  show ?case
  proof (cases "\<exists>d s. did_ok d \<and> k = make_key d s")
    case False
    then have "list_loop [Inr (k, v)] r c = Inr (r, c)" using list_loop_other [OF k] by blast
    with listed_other [OF IH(2,3) _ k(2)] False loop x show ?thesis by (metis (no_types, lifting))
  next
    case True
    then obtain d s where d: "did_ok d" "k = make_key d s" by blast
    note prems = snoc.prems [unfolded x d(2)]
    have last: "last_packet (m @ [x]) (Some (d, s, b))" for b
      using d lt by (auto simp: last_packet_def x intro: less_imp_le)
    show ?thesis
    proof (cases c)
      case None
      then have "packet_log d m = []" using IH(3) d(1) by (simp add: last_packet_def)
      with listed_new [OF _ prems d(1), of "r @ opt_list c"] IH(2) None last show ?thesis
        unfolding loop d(2) by (simp add: list_loop_packet [OF d(1)] x d(2) opt_list_def del: list_loop.simps)
    next
      case (Some p)
      obtain cur l b where p: "p = (cur, l, b)" by (metis prod_cases3)
      have R: "listed m (r @ [(cur, l, b)])" using IH(2) by (simp add: Some p opt_list_def)
      show ?thesis
      proof (cases "cur = d")
        case True
        have "packet_log d m \<noteq> [] \<and> l = top_seq (packet_log d m)" using R True by (auto simp: listed_def)
        then have "l < s" using bspec [OF lt log_member [OF m d(1)]] by (simp add: d(2))
        with listed_more [OF R [unfolded True] prems] last show ?thesis
          unfolding loop d(2) by (simp add: list_loop_packet [OF d(1)] x d(2) opt_list_def Some p True max.absorb2 less_imp_le
            del: list_loop.simps)
      next
        case False
        have "did_ok cur \<and> packet_log cur m \<noteq> [] \<and> l = top_seq (packet_log cur m)"
          using R by (auto simp: listed_def)
        then have "make_key cur l \<in> fst ` set m" using log_member [OF m] by blast
        then have "packet_log d m = []"
          using new_dialogue [OF prems d(1) _ False] IH(3) by (simp add: Some p)
        with listed_new [OF R prems d(1)] last False show ?thesis
          unfolding loop d(2) by (simp add: list_loop_packet [OF d(1)] x d(2) opt_list_def Some p
            del: list_loop.simps)
      qed
    qed
  qed
qed

lemma list_dialogues_spec:
  assumes inv: "db_inv K db"
  shows "\<exists>ds. list_dialogues K db = Inr ds \<and> distinct (map fst ds) \<and> (\<forall>d l b. (d, l, b) \<in> set ds \<longleftrightarrow>
    did_ok d \<and> log_of K db d \<noteq> [] \<and> l = top_seq (log_of K db d) \<and> b = total_of (log_of K db d))"
proof -
  have "db_iter_start K db = map Inr (db_view K db)"
    by (rule store_okD(7) [OF db_invD(1,2) [OF inv]])
  moreover obtain r c where loop: "list_loop (map Inr (db_view K db)) [] None = Inr (r, c)"
    and "listed (db_view K db) (r @ opt_list c)"
    using list_loop_listed [OF db_invD(3) [OF inv]] by blast
  moreover from calculation have "list_dialogues K db = Inr (r @ opt_list c)"
    by (simp add: list_dialogues_def opt_list_def split: option.split)
  ultimately show ?thesis by (auto simp: listed_def log_of_def)
qed

end
