(* ===== verification/Store_Ephemeral.thy ===== *)
theory Store_Ephemeral
  imports Store_Log
begin

text \<open>
  Ephemeral files of the packet store: what a put leaves to a get, when a file is visible, and
  exactly which keys the reaper deletes.
\<close>

section \<open>Keys\<close>

lemma eph_key_utf8:
  assumes "did_ok d" and "utf8_valid f"
  shows "utf8_valid (make_eph_chunk_key d f i)" and "utf8_valid (make_eph_meta_key d f)"
proof -
  have "unat i < 10 ^ 20" using unsigned_less [where w = i and ?'a = nat] by simp
  then have c: "utf8_valid (show_pad20 (unat i))" by (rule pad20_utf8)
  have s: "utf8_valid EPH_CHUNK_PREFIX" "utf8_valid EPH_META_PREFIX" "utf8_valid '':''"
    by (simp_all add: utf8_valid_def EPH_CHUNK_PREFIX_def EPH_META_PREFIX_def)
  note v = c s did_utf8 [OF assms(1)] assms(2)
  show "utf8_valid (make_eph_chunk_key d f i)"
    unfolding make_eph_chunk_key_def using v by (simp only: utf8_valid_append)
  show "utf8_valid (make_eph_meta_key d f)"
    unfolding make_eph_meta_key_def using v by (simp only: utf8_valid_append)
qed

lemma eph_key_form:
  assumes "did_ok d"
  shows "key_form (make_eph_chunk_key d f i)" and "key_form (make_eph_meta_key d f)"
proof -
  have "make_eph_chunk_key d f i = EPH_CHUNK_PREFIX @ d @ '':'' @ (f @ '':'' @ show_pad20 (unat i))"
    by (simp add: make_eph_chunk_key_def)
  with assms show "key_form (make_eph_chunk_key d f i)" unfolding key_form_def by blast
  have "make_eph_meta_key d f = EPH_META_PREFIX @ d @ '':'' @ f"
    by (simp add: make_eph_meta_key_def)
  with assms show "key_form (make_eph_meta_key d f)" unfolding key_form_def by blast
qed

lemma chunk_not_meta [simp]:
  "make_eph_chunk_key d f i \<noteq> make_eph_meta_key d' f'" "make_eph_meta_key d' f' \<noteq> make_eph_chunk_key d f i"
  by (auto simp: make_eph_chunk_key_def make_eph_meta_key_def EPH_CHUNK_PREFIX_def EPH_META_PREFIX_def)

lemma insert_eph_ok:
  assumes "keys_ok m" and "did_ok d" and "utf8_valid f"
  shows "keys_ok (om_insert (make_eph_chunk_key d f i) v m)" and "keys_ok (om_insert (make_eph_meta_key d f) v m)"
  using assms eph_key_utf8 [OF assms(2,3)] eph_key_form [OF assms(2)]
  by (auto simp: keys_ok_def set_om_insert)

section \<open>Put and get\<close>

definition meta_of :: "'db store_env \<Rightarrow> 'db \<Rightarrow> string \<Rightarrow> string \<Rightarrow> ephemeral_meta option" where
  "meta_of K db d f = (case map_of (db_view K db) (make_eph_meta_key d f) of
     None \<Rightarrow> None | Some v \<Rightarrow> (case meta_from_json K v of Inl _ \<Rightarrow> None | Inr m \<Rightarrow> Some m))"

lemma put_chunk_spec:
  assumes inv: "db_inv K db" and d: "did_ok d" "utf8_valid f"
  shows "\<exists>db'. ephemeral_put_chunk K now db d f i n sz data ret = Inr db' \<and> db_inv K db' \<and>
    map_of (db_view K db') (make_eph_chunk_key d f i) = Some data \<and>
    meta_of K db' d f = Some \<lparr>chunk_count = n, total_size = sz, eph_expires_at = sat_add now ret\<rparr> \<and>
    (\<forall>k. k \<noteq> make_eph_chunk_key d f i \<longrightarrow> k \<noteq> make_eph_meta_key d f \<longrightarrow>
       map_of (db_view K db') k = map_of (db_view K db) k)"
proof -
  note K = db_invD [OF inv]
  let ?ck = "make_eph_chunk_key d f i" and ?mk = "make_eph_meta_key d f"
  let ?meta = "\<lparr>chunk_count = n, total_size = sz, eph_expires_at = sat_add now ret\<rparr>"
  obtain db1 where p1: "db_put K db ?ck data = Inr db1" "db_valid K db1"
    "db_view K db1 = om_insert ?ck data (db_view K db)"
    using store_okD(3) [OF K(1,2)] by blast
  obtain v where v: "meta_to_json K ?meta = Inr v" "meta_from_json K v = Inr ?meta"
    using store_okD(9) [OF K(1)] by blast
  obtain db2 where p2: "db_put K db1 ?mk v = Inr db2" "db_valid K db2"
    "db_view K db2 = om_insert ?mk v (db_view K db1)"
    using store_okD(3) [OF K(1) p1(2)] by blast
  have ok1: "keys_ok (om_insert ?ck data (db_view K db))" by (rule insert_eph_ok(1) [OF K(3) d])
  have ok2: "keys_ok (om_insert ?mk v (om_insert ?ck data (db_view K db)))"
    by (rule insert_eph_ok(2) [OF ok1 d])
  have "map_of (db_view K db2) = (map_of (db_view K db))(?ck \<mapsto> data, ?mk \<mapsto> v)"
    using ok1 K(3) by (simp add: p1(3) p2(3) keys_ok_def)
  then show ?thesis
    using p1 p2 v ok2 K(1)
    by (simp add: ephemeral_put_chunk_def with_context_def db_inv_def meta_of_def)
qed

lemma get_chunk_spec:
  assumes inv: "db_inv K db" and m: "meta_of K db d f = Some meta"
  shows "ephemeral_get_chunk K now db d f i =
    Inr (if eph_expires_at meta \<le> now then None else map_of (db_view K db) (make_eph_chunk_key d f i))"
  using m store_okD(2) [OF db_invD(1,2) [OF inv]]
  by (auto simp: ephemeral_get_chunk_def lookup_meta_def meta_of_def with_context_def
      split: option.splits sum.splits)

section \<open>The reaper\<close>

definition expired_meta :: "'db store_env \<Rightarrow> u64 \<Rightarrow> bytes \<Rightarrow> bool" where
  "expired_meta K now v \<longleftrightarrow> (case meta_from_json K v of Inr m \<Rightarrow> eph_expires_at m \<le> now | Inl _ \<Rightarrow> True)"

definition expired_files :: "'db store_env \<Rightarrow> u64 \<Rightarrow> (string \<times> bytes) list \<Rightarrow> string list" where
  "expired_files K now m = map (\<lambda>p. drop (length EPH_META_PREFIX) (fst p))
     (filter (\<lambda>p. prefix EPH_META_PREFIX (fst p) \<and> expired_meta K now (snd p)) m)"

definition reaped_by :: "string \<Rightarrow> string \<Rightarrow> bool" where
  "reaped_by x k \<longleftrightarrow> k = EPH_META_PREFIX @ x \<or> prefix (EPH_CHUNK_PREFIX @ x @ '':'') k"

lemma reap_scan_takeWhile:
  "(\<forall>p \<in> set m. utf8_valid (fst p)) \<Longrightarrow> reap_scan K now (map Inr m) acc =
   Inr (acc @ map (\<lambda>p. drop (length EPH_META_PREFIX) (fst p))
     (filter (\<lambda>p. expired_meta K now (snd p)) (takeWhile (\<lambda>p. prefix EPH_META_PREFIX (fst p)) m)))"
proof (induction m arbitrary: acc)
  case (Cons p m)
  then show ?case
    by (cases p) (auto simp: on_item_short_def expired_meta_def Let_def split: sum.splits)
qed simp

lemma chunk_scan_takeWhile:
  "(\<forall>p \<in> set m. utf8_valid (fst p)) \<Longrightarrow> chunk_scan cp (map Inr m) acc =
   Inr (acc @ map fst (takeWhile (\<lambda>p. prefix cp (fst p)) m))"
proof (induction m arbitrary: acc)
  case (Cons p m)
  then show ?case by (cases p) (auto simp: on_item_short_def)
qed simp

lemma keys_ok_utf8: "keys_ok m \<Longrightarrow> \<forall>p \<in> set (filter P m). utf8_valid (fst p)"
  by (auto simp: keys_ok_def)

lemma prefix_scan:
  assumes m: "keys_ok m"
  shows "takeWhile (\<lambda>p. prefix q (fst p)) (filter (\<lambda>p. q \<le> fst p) m) = filter (\<lambda>p. prefix q (fst p)) m"
proof -
  have srt: "sorted_wrt (<) (map fst (filter (\<lambda>p. q \<le> fst p) m))"
    using m by (intro sorted_wrt_filter_map) (simp add: keys_ok_def om_ok_def)
  have "q \<le> q @ r" for r using append_le_cancel [of q "[]" r] by simp
  then have "filter (\<lambda>p. prefix q (fst p)) (filter (\<lambda>p. q \<le> fst p) m) = filter (\<lambda>p. prefix q (fst p)) m"
    by (auto simp: prefix_def intro: filter_cong)
  then show ?thesis using takeWhile_prefix_sorted [OF srt, of q "[]"] by simp
qed

lemma reap_files_spec:
  "db_inv K db \<Longrightarrow> \<exists>db'. reap_files K db xs n = Inr (db', n + of_nat (length xs)) \<and> db_inv K db' \<and>
     db_view K db' = filter (\<lambda>p. \<not> (\<exists>x \<in> set xs. reaped_by x (fst p))) (db_view K db)"
proof (induction xs arbitrary: db n)
  case (Cons x xs)
  note K = db_invD [OF Cons.prems]
  let ?m = "db_view K db" and ?cp = "EPH_CHUNK_PREFIX @ x @ '':''"
  define ks where "ks = (EPH_META_PREFIX @ x) # map fst (filter (\<lambda>p. prefix ?cp (fst p)) ?m)"
  have "chunk_scan ?cp (db_iter_from K db ?cp) [EPH_META_PREFIX @ x] = Inr ks"
    using chunk_scan_takeWhile [OF keys_ok_utf8 [OF K(3)], of ?cp "\<lambda>p. ?cp \<le> fst p"]
    by (simp add: store_okD(5) [OF K(1,2)] prefix_scan [OF K(3)] ks_def)
  moreover obtain db1 where db1: "db_delete_batch K db ks = Inr db1" "db_valid K db1"
    "db_view K db1 = filter (\<lambda>p. fst p \<notin> set ks) ?m"
    using store_okD(4) [OF K(1,2)] by blast
  have v1: "db_view K db1 = filter (\<lambda>p. \<not> reaped_by x (fst p)) ?m"
    unfolding db1(3) by (rule filter_cong) (auto simp: ks_def reaped_by_def)
  have inv1: "db_inv K db1"
    using K db1(2) v1 by (auto simp: db_inv_def keys_ok_def om_ok_filter)
  obtain db2 where db2: "reap_files K db1 xs (n + 1) = Inr (db2, n + 1 + of_nat (length xs))" "db_inv K db2"
    "db_view K db2 = filter (\<lambda>p. \<not> (\<exists>x \<in> set xs. reaped_by x (fst p))) (db_view K db1)"
    using Cons.IH [OF inv1] by blast
  have "db_view K db2 = filter (\<lambda>p. \<not> (\<exists>x \<in> set (x # xs). reaped_by x (fst p))) ?m"
    unfolding db2(3) v1 by (auto intro: filter_cong)
  ultimately show ?case using db1(1) db2(1,2) by (simp add: with_context_def Let_def add.assoc)
qed simp

lemma ephemeral_reap_spec:
  fixes t :: u64
  assumes inv: "db_inv K db"
  defines "xs \<equiv> expired_files K t (db_view K db)"
  shows "\<exists>db'. ephemeral_reap K t db = Inr (db', of_nat (length xs)) \<and> db_inv K db' \<and>
    db_view K db' = filter (\<lambda>p. \<not> (\<exists>x \<in> set xs. reaped_by x (fst p))) (db_view K db)"
proof -
  note K = db_invD [OF inv]
  have "reap_scan K t (db_iter_from K db EPH_META_PREFIX) [] = Inr xs"
    using reap_scan_takeWhile [OF keys_ok_utf8 [OF K(3)], of K t "\<lambda>p. EPH_META_PREFIX \<le> fst p" "[]"]
    by (simp add: store_okD(5) [OF K(1,2)] prefix_scan [OF K(3)] xs_def expired_files_def conj_commute)
  with reap_files_spec [OF inv, of xs 0] show ?thesis by (simp add: ephemeral_reap_def)
qed

text \<open>A file id without a colon is reaped alone.\<close>

lemma colon_free_unique:
  assumes "a @ CHR '':'' # x = b @ CHR '':'' # y" and "CHR '':'' \<notin> set a" and "CHR '':'' \<notin> set b"
  shows "a = b \<and> x = y"
  using assms
proof (induction a arbitrary: b)
  case Nil
  then show ?case by (cases b) auto
next
  case (Cons c a)
  then show ?case by (cases b) auto
qed

lemma reaped_by_own:
  assumes "did_ok d" and "did_ok d'" and "CHR '':'' \<notin> set f" and "CHR '':'' \<notin> set f'"
  shows "reaped_by (d' @ '':'' @ f') (make_eph_chunk_key d f i) \<longleftrightarrow> d = d' \<and> f = f'"
proof
  assume "reaped_by (d' @ '':'' @ f') (make_eph_chunk_key d f i)"
  then obtain r where "d' @ '':'' @ f' @ '':'' @ r = d @ '':'' @ f @ '':'' @ show_pad20 (unat i)"
    by (auto simp: reaped_by_def make_eph_chunk_key_def EPH_CHUNK_PREFIX_def EPH_META_PREFIX_def prefix_def)
  with assms(1,2) have "d' = d" "f' @ CHR '':'' # r = f @ CHR '':'' # show_pad20 (unat i)"
    by (auto simp: did_ok_def append_eq_append_conv)
  with colon_free_unique [OF this(2) assms(4,3)] show "d = d' \<and> f = f'" by simp
qed (simp add: reaped_by_def make_eph_chunk_key_def)

end
