(* ===== verification/Demo_Store.thy ===== *)
theory Demo_Store
  imports Store_Listing Store_Ephemeral
begin

text \<open>
  A concrete database that satisfies \<open>store_ok\<close>: the sorted list of its entries, and fixed-width
  codecs for the two JSON records. It shows that the assumptions on RocksDB and serde can hold, and
  the examples of the development run on it.
\<close>

definition demo_receipt_from :: "bytes \<Rightarrow> receipt_state res" where
  "demo_receipt_from v = (if length v \<noteq> 17 then Inl ''receipt'' else
     Inr \<lparr>last_seq_seen = u64_from_be (take 8 v), receipts_enabled = (v ! 8 = 1), updated_at = u64_from_be (drop 9 v)\<rparr>)"

definition demo_meta_from :: "bytes \<Rightarrow> ephemeral_meta res" where
  "demo_meta_from v = (if length v \<noteq> 20 then Inl ''meta'' else
     Inr \<lparr>chunk_count = u32_from_be (v ! 0) (v ! 1) (v ! 2) (v ! 3),
       total_size = u64_from_be (take 8 (drop 4 v)), eph_expires_at = u64_from_be (drop 12 v)\<rparr>)"

definition demo_store :: "(string \<times> bytes) list store_env" where
  "demo_store = \<lparr>
     db_get = (\<lambda>db k. Inr (map_of db k)),
     db_put = (\<lambda>db k v. Inr (om_insert k v db)),
     db_delete_batch = (\<lambda>db ks. Inr (filter (\<lambda>p. fst p \<notin> set ks) db)),
     db_iter_from = (\<lambda>db k. map Inr (filter (\<lambda>p. k \<le> fst p) db)),
     db_iter_rev = (\<lambda>db k. map Inr (rev (filter (\<lambda>p. fst p \<le> k) db))),
     db_iter_start = (\<lambda>db. map Inr db),
     receipt_to_json = (\<lambda>st. Inr (u64_to_be (last_seq_seen st) @
       [if receipts_enabled st then 1 else 0] @ u64_to_be (updated_at st))),
     receipt_from_json = demo_receipt_from,
     meta_to_json = (\<lambda>m. Inr (u32_to_be (chunk_count m) @ u64_to_be (total_size m) @ u64_to_be (eph_expires_at m))),
     meta_from_json = demo_meta_from,
     db_view = id,
     db_valid = om_ok\<rparr>"

lemma demo_receipt_codec:
  "demo_receipt_from (u64_to_be a @ [if e then 1 else 0] @ u64_to_be b) =
     Inr \<lparr>last_seq_seen = a, receipts_enabled = e, updated_at = b\<rparr>"
  by (simp add: demo_receipt_from_def nth_append u64_be_roundtrip del: u64_to_be.simps)

lemma demo_meta_codec:
  "demo_meta_from (u32_to_be a @ u64_to_be b @ u64_to_be c) =
     Inr \<lparr>chunk_count = a, total_size = b, eph_expires_at = c\<rparr>"
proof -
  have "take 8 (drop 4 (u32_to_be a @ u64_to_be b @ u64_to_be c)) = u64_to_be b"
    "drop 12 (u32_to_be a @ u64_to_be b @ u64_to_be c) = u64_to_be c"
    by (simp_all del: u64_to_be.simps u32_to_be.simps)
  moreover have "u32_from_be ((u32_to_be a @ r) ! 0) ((u32_to_be a @ r) ! 1) ((u32_to_be a @ r) ! 2) ((u32_to_be a @ r) ! 3) = a" for r
    by (simp add: codec_simps)
  ultimately show ?thesis
    unfolding demo_meta_from_def
    by (simp add: u64_be_roundtrip del: u64_to_be.simps u32_to_be.simps)
qed

lemma demo_store_ok [simp]: "store_ok demo_store"
  unfolding store_ok_def
  by (simp add: demo_store_def demo_receipt_codec demo_meta_codec om_ok_filter
      del: u64_to_be.simps u32_to_be.simps append.simps)

lemma demo_view [simp]: "db_view demo_store m = m"
  by (simp add: demo_store_def)

lemma demo_valid [simp]: "db_valid demo_store m = om_ok m"
  by (simp add: demo_store_def)

lemma demo_inv [simp]: "db_inv demo_store m \<longleftrightarrow> keys_ok m"
  by (auto simp: db_inv_def keys_ok_def)

lemma demo_log [simp]: "log_of demo_store m d = packet_log d m"
  by (simp add: log_of_def)

text \<open>Two dialogues, and databases of packets of them.\<close>

definition demo_did :: string where "demo_did = replicate 64 CHR ''a''"
definition demo_did2 :: string where "demo_did2 = replicate 64 CHR ''b''"

lemma demo_did_ok [simp]: "did_ok demo_did" "did_ok demo_did2"
  by (simp_all add: did_ok_def demo_did_def demo_did2_def hex_chars_def)

lemma demo_did_neq [simp]: "demo_did \<noteq> demo_did2" "demo_did2 \<noteq> demo_did"
  by (simp_all add: demo_did_def demo_did2_def)

lemma keys_ok_Nil [simp]: "keys_ok []"
  by (simp add: keys_ok_def)

definition demo_db :: "(string \<times> bytes) list" where
  "demo_db = om_insert (make_key demo_did 4) [40] (om_insert (make_key demo_did 2) [20]
     (om_insert (make_key demo_did 1) [10] []))"

lemma demo_db_ok [simp]: "keys_ok demo_db"
  unfolding demo_db_def by (intro insert_packet_ok keys_ok_Nil demo_did_ok)

lemma packet_log_Nil [simp]: "packet_log d [] = []"
  by (simp add: packet_log_def)

lemma demo_db_log [simp]:
  "packet_log demo_did demo_db = [(1, [10]), (2, [20]), (4, [40])]" "packet_log demo_did2 demo_db = []"
proof -
  note ok = keys_ok_Nil insert_packet_ok demo_did_ok
  note ins = packet_log_insert [OF _ demo_did_ok(1) demo_did_ok(1)] packet_log_insert [OF _ demo_did_ok(1) demo_did_ok(2)]
  show "packet_log demo_did demo_db = [(1, [10]), (2, [20]), (4, [40])]" "packet_log demo_did2 demo_db = []"
    unfolding demo_db_def by (simp_all only: ins ok demo_did_neq packet_log_Nil if_True if_False refl) simp_all
qed

end
