(* ===== verification/Dialogue_Log.thy ===== *)
theory Dialogue_Log
  imports Demo_Store
begin

text \<open>
  What the clients of the packet store rely on, as an interface: a dialogue is a log of numbered
  packets, pushed once each and pulled by ranges. The lemmas of the locale are the facts about
  synchronisation that follow from these laws alone; the interpretation discharges the laws for
  \<open>push\<close>, \<open>pull\<close> and \<open>remove_range\<close> of the store, over the pair of a database interface and a
  database.
\<close>

section \<open>The interface\<close>

text \<open>
  A client that catches up: it pulls the windows between successive cut points and appends what it
  receives.
\<close>

fun catch_up :: "(u64 \<Rightarrow> u64 \<Rightarrow> 'p list res) \<Rightarrow> u64 \<Rightarrow> u64 list \<Rightarrow> 'p list res" where
  "catch_up pull_window a [] = Inr []"
| "catch_up pull_window a (t # ts) = try_then (pull_window a t) (\<lambda>ps.
     try_then (catch_up pull_window t ts) (\<lambda>qs. Inr (ps @ qs)))"

locale dialogue_log =
  fixes put :: "'s \<Rightarrow> 'd \<Rightarrow> u64 \<Rightarrow> bytes \<Rightarrow> 's res"
    and get :: "'s \<Rightarrow> 'd \<Rightarrow> u64 \<Rightarrow> u64 \<Rightarrow> (u64 \<times> bytes) list res"
    and del :: "'s \<Rightarrow> 'd \<Rightarrow> u64 \<Rightarrow> u64 \<Rightarrow> 's res"
    and log :: "'s \<Rightarrow> 'd \<Rightarrow> (u64 \<times> bytes) list"
    and inv :: "'s \<Rightarrow> bool"
    and is_id :: "'d \<Rightarrow> bool"
  assumes log_sorted: "inv s \<Longrightarrow> is_id d \<Longrightarrow> om_ok (log s d)"
    and get_range: "inv s \<Longrightarrow> is_id d \<Longrightarrow> t \<noteq> 0 \<Longrightarrow> a < t \<Longrightarrow>
      get s d a t = Inr (filter (\<lambda>p. a < fst p \<and> fst p \<le> t) (log s d))"
    and put_fresh: "inv s \<Longrightarrow> is_id d \<Longrightarrow> map_of (log s d) n = None \<Longrightarrow> \<exists>s'. put s d n v = Inr s'"
    and put_log: "inv s \<Longrightarrow> is_id d \<Longrightarrow> put s d n v = Inr s' \<Longrightarrow> inv s' \<and> map_of (log s d) n = None \<and>
      (\<forall>d'. is_id d' \<longrightarrow> log s' d' = (if d' = d then om_insert n v (log s d) else log s d'))"
    and del_log: "inv s \<Longrightarrow> is_id d \<Longrightarrow> del s d a t = Inr s' \<Longrightarrow> inv s' \<and>
      (\<forall>d'. is_id d' \<longrightarrow> log s' d' =
        (if d' = d then filter (\<lambda>p. \<not> (max a 1 \<le> fst p \<and> fst p \<le> t)) (log s d) else log s d'))"
begin

lemma put_iff_fresh: "inv s \<Longrightarrow> is_id d \<Longrightarrow> (\<exists>s'. put s d n v = Inr s') \<longleftrightarrow> map_of (log s d) n = None"
  using put_fresh put_log by blast

lemma put_twice:
  assumes "inv s" and "is_id d" and "put s d n v = Inr s'"
  shows "\<exists>e. put s' d n w = Inl e"
proof -
  from put_log [OF assms] log_sorted [OF assms(1,2)] assms(2)
  have "inv s'" "map_of (log s' d) n \<noteq> None" by simp_all
  with put_iff_fresh [of s' d n w] assms(2) show ?thesis by (cases "put s' d n w") auto
qed

lemma get_put:
  assumes "inv s" and "is_id d" and "put s d n v = Inr s'" and "is_id d'" and "t \<noteq> 0" and "a < t"
  shows "get s' d' a t = Inr (filter (\<lambda>p. a < fst p \<and> fst p \<le> t)
    (if d' = d then om_insert n v (log s d) else log s d'))"
  using put_log [OF assms(1-3)] assms(4-6) by (simp add: get_range)

lemma filter_split_sorted:
  "om_ok L \<Longrightarrow> a \<le> b \<Longrightarrow> b \<le> c \<Longrightarrow> filter (\<lambda>p. a < fst p \<and> fst p \<le> b) L @ filter (\<lambda>p. b < fst p \<and> fst p \<le> c) L
     = filter (\<lambda>p. a < fst p \<and> fst p \<le> c) L"
  for L :: "(u64 \<times> bytes) list"
proof (induction L)
  case (Cons p L)
  have "filter (\<lambda>p. a < fst p \<and> fst p \<le> b) L = []" if "b < fst p"
    using that Cons.prems(1) by (auto simp: om_ok_Cons filter_empty_conv not_le dest: less_trans)
  with Cons show ?case by (auto simp: om_ok_Cons)
qed simp

text \<open>It ends with exactly the packets of the whole range, each once and in order.\<close>

lemma catch_up_range:
  assumes "inv s" and "is_id d"
  shows "sorted_wrt (<) (a # ts) \<Longrightarrow>
    catch_up (get s d) a ts = Inr (filter (\<lambda>p. a < fst p \<and> fst p \<le> last (a # ts)) (log s d))"
proof (induction ts arbitrary: a)
  case Nil
  then show ?case by (simp add: filter_empty_conv not_le)
next
  case (Cons t ts)
  then have at: "a < t" and srt: "sorted_wrt (<) (t # ts)" by auto
  then have "t \<noteq> 0" by (auto simp: word_gt_0)
  have le: "t \<le> last (t # ts)" using srt by (cases ts rule: rev_cases) (auto intro: less_imp_le)
  have "get s d a t = Inr (filter (\<lambda>p. a < fst p \<and> fst p \<le> t) (log s d))"
    using assms \<open>t \<noteq> 0\<close> at by (rule get_range)
  then show ?case
    using Cons.IH [OF srt] filter_split_sorted [OF log_sorted [OF assms] less_imp_le [OF at] le] by simp
qed

end

section \<open>The packet store provides it\<close>

text \<open>
  The state is the pair of the interface of the database and its contents, so that the laws speak
  of every database that satisfies \<open>store_ok\<close>.
\<close>

type_synonym 'db store_state = "'db store_env \<times> 'db"

abbreviation on_store :: "'db store_env \<Rightarrow> 'db res \<Rightarrow> 'db store_state res" where
  "on_store K r \<equiv> map_sum id (Pair K) r"

lemma map_sum_Inr_iff: "map_sum f g x = Inr y \<longleftrightarrow> (\<exists>z. x = Inr z \<and> y = g z)"
  by (cases x) auto

interpretation packets: dialogue_log
  "\<lambda>(K, db) d n v. on_store K (push K db d n v)"
  "\<lambda>(K, db). pull K db"
  "\<lambda>(K, db) d a t. on_store K (remove_range K db d a t)"
  "\<lambda>(K, db). log_of K db"
  "\<lambda>(K, db). db_inv K db"
  did_ok
proof (unfold_locales, goal_cases)
  case (1 s d)
  then show ?case by (cases s) (simp add: log_of_ok)
next
  case (2 s d t a)
  then show ?case by (cases s) (simp add: pull_spec not_le)
next
  case (3 s d n v)
  obtain K db where s: "s = (K, db)" by fastforce
  have inv: "db_inv K db" using 3(1) by (simp only: s prod.case)
  show ?case
    using push_spec [OF inv 3(2), of n v] 3(3) by (auto simp: s map_sum_Inr_iff)
next
  case (4 s d n v s')
  obtain K db where s: "s = (K, db)" by fastforce
  obtain db' where db': "s' = (K, db')" "push K db d n v = Inr db'"
    using 4(3) unfolding s prod.case map_sum_Inr_iff by blast
  have inv: "db_inv K db" using 4(1) by (simp only: s prod.case)
  show ?case unfolding s db'(1) prod.case by (rule push_log [OF inv 4(2) db'(2)])
next
  case (5 s d a t s')
  obtain K db where s: "s = (K, db)" by fastforce
  obtain db' where db': "s' = (K, db')" "remove_range K db d a t = Inr db'"
    using 5(3) unfolding s prod.case map_sum_Inr_iff by blast
  have inv: "db_inv K db" using 5(1) by (simp only: s prod.case)
  show ?case unfolding s db'(1) prod.case by (rule remove_range_log [OF inv 5(2) db'(2)])
qed

end
