(* ===== verification/Store_Props.thy ===== *)
theory Store_Props
  imports Dialogue_Log
begin

text \<open>
  The promises of the packet store: exact ranges, at most one packet per sequence number, exact
  counts, runs and listings, monotone read marks, exact deletion and expiry, and the behaviours at
  its edges (number 0, file ids with a colon, concurrent pushes).
\<close>

section \<open>Packets\<close>

lemmas packet_laws = packets.put_twice packets.get_put packets.catch_up_range

text \<open>
  A client that pulls the windows between ascending cut points receives exactly the packets of
  the dialogue between the first and the last cut, each once and in order.
\<close>

lemma pull_windows_compose:
  assumes "db_inv K db" and "did_ok d" and "sorted_wrt (<) (a # ts)"
  shows "catch_up (pull K db d) a ts = Inr (filter (\<lambda>p. a < fst p \<and> fst p \<le> last (a # ts)) (log_of K db d))"
  using packets.catch_up_range [of "(K, db)" d a ts] assms by simp

lemma pull_windows_compose_example:
  "catch_up (pull demo_store demo_db demo_did) 0 [2, 5] = Inr [(1, [10]), (2, [20]), (4, [40])]"
  by (subst pull_windows_compose) simp_all

text \<open>
  A packet is stored at most once: \<open>push\<close> succeeds exactly when the number is free in the
  dialogue, a second push of the number is rejected as a duplicate, and afterwards every pull of
  every dialogue sees the old packets and, in this dialogue and at its place, the new one.
\<close>

lemma push_once_isolated:
  assumes inv: "db_inv K db" and d: "did_ok d"
  shows "if map_of (log_of K db d) s \<noteq> None then push K db d s v = Inl (''Duplicate seq '' @ show_nat (unat s))
    else \<exists>db'. push K db d s v = Inr db' \<and> db_inv K db' \<and>
      (\<forall>w. push K db' d s w = Inl (''Duplicate seq '' @ show_nat (unat s))) \<and>
      (\<forall>d' a t. did_ok d' \<longrightarrow> t \<noteq> 0 \<longrightarrow> a < t \<longrightarrow> pull K db' d' a t = Inr (filter (\<lambda>p. a < fst p \<and> fst p \<le> t)
         (if d' = d then om_insert s v (log_of K db d) else log_of K db d')))"
proof (cases "map_of (log_of K db d) s")
  case (Some w)
  with push_spec [OF inv d, of s v] show ?thesis by simp
next
  case None
  then obtain db' where db': "push K db d s v = Inr db'" using push_spec [OF inv d, of s v] by auto
  note new = push_log [OF inv d db']
  then have "map_of (log_of K db' d) s \<noteq> None" using d log_of_ok [OF inv d] by simp
  then have "push K db' d s w = Inl (''Duplicate seq '' @ show_nat (unat s))" for w
    using push_spec [of K db' d s w] new d by simp
  moreover have "pull K db' d' a t = Inr (filter (\<lambda>p. a < fst p \<and> fst p \<le> t)
      (if d' = d then om_insert s v (log_of K db d) else log_of K db d'))"
    if "did_ok d'" "t \<noteq> 0" "a < t" for d' a t
    using that new pull_spec [of K db' d' a t] by (simp add: not_le)
  ultimately show ?thesis using None db' new by (simp only: if_False simp_thms) blast
qed

lemma push_once_isolated_example:
  "push demo_store demo_db demo_did 2 [21] = Inl (''Duplicate seq '' @ show_nat 2)"
  using push_once_isolated [of demo_store demo_db demo_did 2 "[21]"]
  by simp

text \<open>
  Deleting a range removes exactly the packets of that dialogue with a number between the
  larger of its lower end and 1, and its upper end; everything else stays.
\<close>

lemma remove_range_exact:
  assumes inv: "db_inv K db" and d: "did_ok d" and at: "a \<le> t"
  shows "\<exists>db'. remove_range K db d a t = Inr db' \<and> db_inv K db' \<and>
    (\<forall>d' s. did_ok d' \<longrightarrow> map_of (log_of K db' d') s =
      (if d' = d \<and> max a 1 \<le> s \<and> s \<le> t then None else map_of (log_of K db d') s))"
proof -
  have "\<not> (a > t \<and> a \<noteq> 0)" using at by auto
  with remove_range_spec [OF inv d, of t a] obtain db' where db': "remove_range K db d a t = Inr db'"
    by (simp only: if_False) blast
  note rem = remove_range_log [OF inv d db']
  have flt: "map_of (filter (\<lambda>p. \<not> Q (fst p)) L) s = (if Q s then None else map_of L s)"
    for Q and L :: "(u64 \<times> bytes) list" and s
    by (induction L) auto
  have "map_of (log_of K db' d') s =
      (if d' = d \<and> max a 1 \<le> s \<and> s \<le> t then None else map_of (log_of K db d') s)" if "did_ok d'" for d' s
    using rem that flt [of "\<lambda>s. max a 1 \<le> s \<and> s \<le> t" "log_of K db d" s]
    by (cases "d' = d") auto
  with rem db' show ?thesis by blast
qed

lemma remove_range_exact_example:
  "\<exists>db'. remove_range demo_store demo_db demo_did 0 2 = Inr db' \<and>
     map_of (packet_log demo_did db') 2 = None \<and> map_of (packet_log demo_did db') 4 = Some [40]"
  using remove_range_exact [of demo_store demo_db demo_did 0 2] demo_did_ok(1)
  by fastforce

section \<open>Counts, runs and listings\<close>

lemma length_numbers:
  fixes L :: "(u64 \<times> bytes) list"
  assumes "om_ok L" and "0 \<notin> fst ` set L"
  shows "length L \<le> 2 ^ 64 - 1"
proof -
  have "distinct (map unat (map fst L))"
    using om_ok_distinct [OF assms(1)] by (subst distinct_map) (auto intro!: inj_onI simp: word_unat_eq_iff)
  then have "distinct (map (\<lambda>p. unat (fst p)) L)" by (simp add: comp_def)
  moreover have "set (map (\<lambda>p. unat (fst p)) L) \<subseteq> {1 ..< 2 ^ 64}"
  proof clarsimp
    fix s v assume "(s, v) \<in> set L"
    with assms(2) have "s \<noteq> 0" by force
    then show "Suc 0 \<le> unat s \<and> unat s < 18446744073709551616"
      using unsigned_less [where w = s and ?'a = nat] by (simp add: Suc_le_eq unat_gt_0)
  qed
  ultimately have "card (set (map (\<lambda>p. unat (fst p)) L)) = length L"
    "card (set (map (\<lambda>p. unat (fst p)) L)) \<le> card {1 ..< 2 ^ 64 :: nat}"
    by (metis distinct_card length_map, meson card_mono finite_atLeastLessThan)
  then show ?thesis by simp
qed

text \<open>
  \<open>count_new_for_user\<close> counts exactly the packets above the cursor and above the read mark of the
  user, at every cursor and every mark: the saturating scan is never reached with a wrong floor and
  the counter never saturates.
\<close>

lemma count_new_exact:
  assumes inv: "db_inv K db" and d: "did_ok d" and st: "receipt_of K db u d = Inr st"
  shows "\<exists>n. count_new_for_user K db d a u = Inr n \<and>
    unat n = length (filter (\<lambda>p. max a (last_seq_seen st) < fst p) (log_of K db d))"
proof -
  have "0 \<notin> fst ` set (filter (\<lambda>p. max a (last_seq_seen st) < fst p) (log_of K db d))" by auto
  with length_numbers [OF om_ok_filter [OF log_of_ok [OF inv d]]]
  have "length (filter (\<lambda>p. max a (last_seq_seen st) < fst p) (log_of K db d)) \<le> 2 ^ 64 - 1" by blast
  with count_new_spec [OF inv d st, of a] show ?thesis by (simp only: min_absorb1)
qed

lemma demo_receipt_default [simp]: "receipt_of demo_store demo_db u demo_did = Inr default_receipt_state"
proof -
  have "make_receipt_key u demo_did \<noteq> make_key demo_did s" for s by (rule receipt_key_not_packet) simp
  then have "map_of demo_db (make_receipt_key u demo_did) = None"
    unfolding demo_db_def by (simp add: insert_packet_ok keys_ok_def [THEN iffD1])
  then show ?thesis by (simp add: receipt_of_def)
qed

lemma count_new_exact_example:
  "\<exists>n. count_new_for_user demo_store demo_db demo_did 1 ''alice'' = Inr n \<and> unat n = Suc (Suc 0)"
  using count_new_exact [of demo_store demo_db demo_did "''alice''" default_receipt_state 1]
  by (simp add: default_receipt_state_def)

lemma interval_succ: "l < s \<Longrightarrow> b \<le> l \<Longrightarrow> s = l + 1 \<Longrightarrow> b \<le> x \<and> x \<le> s \<longleftrightarrow> b \<le> x \<and> x \<le> l \<or> x = s"
  for b l s x :: u64
proof -
  assume a: "l < s" "b \<le> l" "s = l + 1"
  have "x < s \<longleftrightarrow> x \<le> l"
    by (simp add: a(3) word_le_nat_alt word_less_nat_alt unat_plus_one [OF a(1)] less_Suc_eq_le)
  then have "x \<le> s \<longleftrightarrow> x = s \<or> x \<le> l" by (simp only: order_le_less [of x s]) blast
  moreover have "b \<le> s" using a by (meson less_imp_le order_trans)
  ultimately show ?thesis by blast
qed

lemma run_ends: "sorted_wrt (<) (l # ss) \<Longrightarrow> r \<in> set (runs_from b l ss) \<Longrightarrow> l \<le> snd r"
proof (induction ss arbitrary: b l)
  case (Cons s ss)
  then have ls: "l < s" and srt: "sorted_wrt (<) (s # ss)" by auto
  then consider "r = (b, l)" | b' where "r \<in> set (runs_from b' s ss)"
    using Cons.prems(2) by (auto split: if_splits)
  then show ?case
  proof cases
    case 2
    from Cons.IH [OF srt 2] ls show ?thesis by (meson less_imp_le order_trans)
  qed simp
qed simp

lemma covered_Cons: "covered ((b, e) # rs) = {b..e} \<union> covered rs"
  by (simp add: covered_def)

text \<open>A truncated answer covers everything up to its last end.\<close>

lemma covered_take:
  "b \<le> l \<Longrightarrow> sorted_wrt (<) (l # ss) \<Longrightarrow> 0 < n \<Longrightarrow> covered (take n (runs_from b l ss)) =
    {x. (b \<le> x \<and> x \<le> l \<or> x \<in> set ss) \<and> x \<le> snd (last (take n (runs_from b l ss)))}"
proof (induction ss arbitrary: b l n)
  case Nil
  then show ?case by (cases n) (auto simp: covered_def)
next
  case (Cons s ss)
  then have ls: "l < s" and srt: "sorted_wrt (<) (s # ss)" by auto
  show ?case
  proof (cases "s = l + 1")
    case True
    have "b \<le> s" using Cons.prems(1) ls by (meson less_imp_le order_trans)
    from Cons.IH [OF this srt Cons.prems(3)] True interval_succ [OF ls Cons.prems(1) True]
    show ?thesis by auto
  next
    case False
    have above: "l < x" if "x \<in> set (s # ss)" for x using that ls srt Cons.prems(2) by auto
    show ?thesis
    proof (cases "n = 1")
      case one: True
      show ?thesis using above False by (auto simp: one covered_def dest: leD)
    next
      case more: False
      then obtain k where k: "n = Suc (Suc k)" using Cons.prems(3) by (metis One_nat_def not0_implies_Suc not_less_zero)
      let ?R = "take (Suc k) (runs_from s s ss)"
      have ne: "?R \<noteq> []" by simp
      have "s \<le> snd (last ?R)"
        by (rule run_ends [OF srt in_set_takeD [OF last_in_set [OF ne]]])
      then have "x \<le> snd (last ?R)" if "x \<le> l" for x using that ls by (meson less_imp_le order_trans)
      moreover have "covered ?R = {x. (s \<le> x \<and> x \<le> s \<or> x \<in> set ss) \<and> x \<le> snd (last ?R)}"
        by (rule Cons.IH [OF order_refl srt]) simp
      ultimately show ?thesis using ne False by (auto simp: k covered_Cons)
    qed
  qed
qed

lemma covered_take_runs:
  assumes "sorted_wrt (<) ss"
  shows "covered (take n (runs_of ss)) = {x \<in> set ss. take n (runs_of ss) \<noteq> [] \<and> x \<le> snd (last (take n (runs_of ss)))}"
proof (cases "n = 0 \<or> ss = []")
  case True
  then show ?thesis by (auto simp: covered_def)
next
  case False
  then obtain s ss' where ss: "ss = s # ss'" by (cases ss) auto
  with False covered_take [of s s ss' n] assms show ?thesis by auto
qed

text \<open>
  The answer of \<open>map\<close> describes exactly the stored numbers of the requested range: its runs cover
  those numbers and no others; when it is cut at the limit, it covers every number up to its last
  end, so that a client that continues after that end misses nothing.
\<close>

lemma map_runs_exact:
  assumes inv: "db_inv K db" and d: "did_ok d" and range: "t = 0 \<or> a < t"
  defines "live \<equiv> {s \<in> fst ` set (log_of K db d). a < s \<and> (t = 0 \<or> s \<le> t)}"
  shows "\<exists>r. map_dialogue K db d a t n = Inr r \<and> map_last_seq r = top_seq (log_of K db d) \<and>
    length (runs r) \<le> n \<and> (truncated r \<longrightarrow> length (runs r) = n) \<and>
    (\<not> truncated r \<longrightarrow> covered (runs r) = live) \<and>
    covered (runs r) = {s \<in> live. runs r \<noteq> [] \<and> s \<le> snd (last (runs r))}"
proof -
  define ss where "ss = map fst (filter (\<lambda>p. a < fst p \<and> (t = 0 \<or> fst p \<le> t)) (log_of K db d))"
  have srt: "sorted_wrt (<) ss"
    unfolding ss_def using om_ok_filter [OF log_of_ok [OF inv d]] by (simp only: om_ok_def)
  have live: "set ss = live" by (auto simp: ss_def live_def)
  have "\<not> (t \<noteq> 0 \<and> t \<le> a)" using range by auto
  then have "map_dialogue K db d a t n = Inr \<lparr>runs = take n (runs_of ss), map_last_seq = top_seq (log_of K db d),
      truncated = (n < length (runs_of ss))\<rparr>"
    using map_spec [OF inv d, of a t n] by (simp only: if_False ss_def)
  moreover note covered_take_runs [OF srt, of n, unfolded live] runs_of_cover [OF srt, unfolded live]
  ultimately show ?thesis by auto
qed

lemma map_runs_exact_example:
  "\<exists>r. map_dialogue demo_store demo_db demo_did 0 0 8192 = Inr r \<and> map_last_seq r = 4 \<and> covered (runs r) \<subseteq> {1, 2, 4}"
  using map_runs_exact [of demo_store demo_db demo_did 0 0 8192] by (auto simp: top_seq_def)

text \<open>
  The listing of dialogues has one entry per dialogue with packets, with its largest number and
  the saturating sum of the sizes of its packets, and nothing else: receipts and ephemeral files,
  which share the key space, never show up.
\<close>

lemma list_dialogues_exact:
  assumes "db_inv K db"
  shows "\<exists>ds. list_dialogues K db = Inr ds \<and> distinct (map fst ds) \<and> (\<forall>d l b. (d, l, b) \<in> set ds \<longleftrightarrow>
    did_ok d \<and> log_of K db d \<noteq> [] \<and> l = top_seq (log_of K db d) \<and> b = total_of (log_of K db d))"
  using assms by (rule list_dialogues_spec)

lemma list_dialogues_exact_example:
  "\<exists>ds. list_dialogues demo_store demo_db = Inr ds \<and> (demo_did, 4, 3) \<in> set ds"
  using list_dialogues_exact [of demo_store demo_db]
  by (auto simp: top_seq_def total_of_def sat_add_def)

end
