(* ===== verification/Store_Lifecycle.thy ===== *)
theory Store_Lifecycle
  imports Store_Props
begin

text \<open>
  The packet store over sequences of operations: receipts as a small state machine, the life of
  ephemeral files, and what happens at the edges: the packet with number 0, file ids that extend an
  expired one, two pushes of one number that interleave.
\<close>

section \<open>Receipts\<close>

text \<open>The contract of a receipt: the read mark grows while receipts are on and is frozen otherwise.\<close>

datatype receipt_op = Pulled u64 | Set_Enabled bool

fun receipt_step :: "u64 \<Rightarrow> receipt_op \<Rightarrow> receipt_state \<Rightarrow> receipt_state" where
  "receipt_step t (Pulled s) st = (if receipts_enabled st
     then st\<lparr>last_seq_seen := max (last_seq_seen st) s, updated_at := t\<rparr> else st)"
| "receipt_step t (Set_Enabled e) st = st\<lparr>receipts_enabled := e, updated_at := t\<rparr>"

type_synonym receipt_event = "u64 \<times> (string \<times> string) \<times> receipt_op"

fun receipt_spec :: "receipt_event list \<Rightarrow> string \<times> string \<Rightarrow> receipt_state \<Rightarrow> receipt_state" where
  "receipt_spec [] ud st = st"
| "receipt_spec ((t, who, op) # ops) ud st =
     receipt_spec ops ud (if who = ud then receipt_step t op st else st)"

fun run_receipts :: "'db store_env \<Rightarrow> 'db \<Rightarrow> receipt_event list \<Rightarrow> 'db res" where
  "run_receipts K db [] = Inr db"
| "run_receipts K db ((t, (u, d), op) # ops) =
     try_then (case op of Pulled s \<Rightarrow> update_last_seq K t db u d s
                        | Set_Enabled e \<Rightarrow> set_receipts_enabled K t db u d e)
       (\<lambda>db'. run_receipts K db' ops)"

lemma receipt_step_mono: "last_seq_seen st \<le> last_seq_seen (receipt_step t op st)"
  by (cases op) auto

lemma receipt_spec_mono: "last_seq_seen st \<le> last_seq_seen (receipt_spec ops ud st)"
proof (induction ops ud st rule: receipt_spec.induct)
  case (2 t who op ops ud st)
  then show ?case using receipt_step_mono [of st t op] by (auto split: if_splits intro: order_trans)
qed simp

lemma receipt_key_inj:
  "did_ok d \<Longrightarrow> did_ok d' \<Longrightarrow> make_receipt_key u d = make_receipt_key u' d' \<longleftrightarrow> u = u' \<and> d = d'"
  by (auto simp: make_receipt_key_def did_ok_def)

lemma set_receipts_spec:
  assumes inv: "db_inv K db" and u: "utf8_valid u" "utf8_valid d" and st: "receipt_of K db u d = Inr st"
  shows "\<exists>db'. set_receipts_enabled K t db u d e = Inr db' \<and> db_inv K db' \<and>
    receipt_of K db' u d = Inr (st\<lparr>receipts_enabled := e, updated_at := t\<rparr>) \<and>
    (\<forall>d'. did_ok d' \<longrightarrow> log_of K db' d' = log_of K db d') \<and>
    (\<forall>u' d'. make_receipt_key u' d' \<noteq> make_receipt_key u d \<longrightarrow> receipt_of K db' u' d' = receipt_of K db u' d')"
  using write_receipt_spec [OF inv u, of "st\<lparr>receipts_enabled := e, updated_at := t\<rparr>"] st
  by (simp add: set_receipts_enabled_def lookup_receipt_spec [OF inv])

lemma receipt_op_spec:
  assumes inv: "db_inv K db" and u: "utf8_valid u" "did_ok d" and st: "receipt_of K db u d = Inr st"
  obtains db' where "run_receipts K db ((t, (u, d), op) # ops) = run_receipts K db' ops" and "db_inv K db'"
    and "\<And>d'. did_ok d' \<Longrightarrow> log_of K db' d' = log_of K db d'"
    and "\<And>u' d'. did_ok d' \<Longrightarrow> receipt_of K db' u' d' =
      (if u' = u \<and> d' = d then Inr (receipt_step t op st) else receipt_of K db u' d')"
proof -
  note k = receipt_key_inj [OF _ u(2)]
  show thesis
  proof (cases op)
    case (Pulled s)
    obtain db' where db': "update_last_seq K t db u d s = Inr db'" "db_inv K db'"
      "receipt_of K db' u d = Inr (receipt_step t op st)"
      "\<forall>d'. did_ok d' \<longrightarrow> log_of K db' d' = log_of K db d'"
      "\<forall>u' d'. make_receipt_key u' d' \<noteq> make_receipt_key u d \<longrightarrow> receipt_of K db' u' d' = receipt_of K db u' d'"
      using update_last_seq_spec [OF inv u(1) did_utf8 [OF u(2)] st, of t s] by (auto simp: Pulled)
    show thesis by (rule that [of db']) (use db' k in \<open>auto simp: Pulled\<close>)
  next
    case (Set_Enabled e)
    obtain db' where db': "set_receipts_enabled K t db u d e = Inr db'" "db_inv K db'"
      "receipt_of K db' u d = Inr (receipt_step t op st)"
      "\<forall>d'. did_ok d' \<longrightarrow> log_of K db' d' = log_of K db d'"
      "\<forall>u' d'. make_receipt_key u' d' \<noteq> make_receipt_key u d \<longrightarrow> receipt_of K db' u' d' = receipt_of K db u' d'"
      using set_receipts_spec [OF inv u(1) did_utf8 [OF u(2)] st, of t e] by (auto simp: Set_Enabled)
    show thesis by (rule that [of db']) (use db' k in \<open>auto simp: Set_Enabled\<close>)
  qed
qed

text \<open>
  C36. Any sequence of pulls and opt-outs of any users on any dialogues leaves, in the receipt of each
  user and dialogue, exactly the result of the operations addressed to it, whatever the others did:
  no packet and no other receipt is touched, and the read mark never goes back.
\<close>

theorem receipts_refine:
  assumes "db_inv K db" and "list_all (\<lambda>(t, (u, d), op). utf8_valid u \<and> did_ok d \<and> (\<exists>st. receipt_of K db u d = Inr st)) ops"
  shows "\<exists>db'. run_receipts K db ops = Inr db' \<and> db_inv K db' \<and>
    (\<forall>d. did_ok d \<longrightarrow> log_of K db' d = log_of K db d) \<and>
    (\<forall>u d st. did_ok d \<longrightarrow> receipt_of K db u d = Inr st \<longrightarrow>
       receipt_of K db' u d = Inr (receipt_spec ops (u, d) st) \<and> last_seq_seen st \<le> last_seq_seen (receipt_spec ops (u, d) st))"
  using assms
proof (induction ops arbitrary: db)
  case Nil
  then show ?case by simp
next
  case (Cons x ops)
  obtain t u d op where x: "x = (t, (u, d), op)" by (metis surj_pair)
  with Cons.prems obtain st where u: "utf8_valid u" "did_ok d" "receipt_of K db u d = Inr st" by auto
  obtain db1 where step: "run_receipts K db (x # ops) = run_receipts K db1 ops" and inv: "db_inv K db1"
    and logs: "\<And>d'. did_ok d' \<Longrightarrow> log_of K db1 d' = log_of K db d'"
    and rec: "\<And>u' d'. did_ok d' \<Longrightarrow> receipt_of K db1 u' d' =
      (if u' = u \<and> d' = d then Inr (receipt_step t op st) else receipt_of K db u' d')"
    using receipt_op_spec [OF Cons.prems(1) u] unfolding x by metis
  have "list_all (\<lambda>(t, (u, d), op). utf8_valid u \<and> did_ok d \<and> (\<exists>st. receipt_of K db1 u d = Inr st)) ops"
    using Cons.prems(2) rec by (auto simp: list_all_iff)
  from Cons.IH [OF inv this] obtain db' where db': "run_receipts K db1 ops = Inr db'" "db_inv K db'"
    "\<forall>d. did_ok d \<longrightarrow> log_of K db' d = log_of K db1 d"
    "\<forall>u d st. did_ok d \<longrightarrow> receipt_of K db1 u d = Inr st \<longrightarrow> receipt_of K db' u d = Inr (receipt_spec ops (u, d) st)"
    by blast
  have "receipt_of K db' u' d' = Inr (receipt_spec (x # ops) (u', d') st')"
    if "did_ok d'" "receipt_of K db u' d' = Inr st'" for u' d' st'
    using that db'(4) rec [of d' u'] u(3) by (auto simp: x)
  with db' logs step receipt_spec_mono show ?case by (auto simp del: receipt_spec.simps)
qed

theorem receipts_refine_witness:
  "\<exists>db'. run_receipts demo_store demo_db [(7, (''a'', demo_did), Pulled 2), (8, (''a'', demo_did), Set_Enabled False),
      (9, (''a'', demo_did), Pulled 4)] = Inr db' \<and>
    receipt_of demo_store db' ''a'' demo_did = Inr \<lparr>last_seq_seen = 2, receipts_enabled = False, updated_at = 8\<rparr>"
  using receipts_refine [of demo_store demo_db "[(7, (''a'', demo_did), Pulled 2), (8, (''a'', demo_did), Set_Enabled False),
      (9, (''a'', demo_did), Pulled 4)]"]
  by (auto simp: utf8_valid_def default_receipt_state_def)

section \<open>Ephemeral files\<close>

lemma expired_files_meta:
  assumes "db_inv K db" and "map_of (db_view K db) (make_eph_meta_key d f) = Some v" and "meta_from_json K v = Inr m"
  shows "d @ '':'' @ f \<in> set (expired_files K t (db_view K db)) \<longleftrightarrow> eph_expires_at m \<le> t"
proof -
  note om = db_invD(3) [OF assms(1), unfolded keys_ok_def, THEN conjunct1]
  have key: "prefix EPH_META_PREFIX k \<and> drop (length EPH_META_PREFIX) k = d @ '':'' @ f \<longleftrightarrow> k = make_eph_meta_key d f" for k
    by (auto simp: prefix_def make_eph_meta_key_def)
  have "d @ '':'' @ f \<in> set (expired_files K t (db_view K db)) \<longleftrightarrow>
      (\<exists>w. (make_eph_meta_key d f, w) \<in> set (db_view K db) \<and> expired_meta K t w)"
  proof -
    have "d @ '':'' @ f \<in> set (expired_files K t (db_view K db)) \<longleftrightarrow> (\<exists>p \<in> set (db_view K db).
        (prefix EPH_META_PREFIX (fst p) \<and> drop (length EPH_META_PREFIX) (fst p) = d @ '':'' @ f) \<and> expired_meta K t (snd p))"
      unfolding expired_files_def set_map set_filter image_iff by (simp only: mem_Collect_eq bex_simps Bex_def conj_assoc eq_commute conj_ac)
    then show ?thesis unfolding key by force
  qed
  also have "\<dots> \<longleftrightarrow> expired_meta K t v"
    using assms(2) om_ok_distinct [OF om] by (metis map_of_is_SomeI map_of_SomeD option.inject)
  finally show ?thesis using assms(3) by (simp add: expired_meta_def)
qed

lemma map_of_survivors:
  "map_of (filter (\<lambda>p. \<not> (\<exists>x \<in> A. R x (fst p))) m) k = (if \<exists>x \<in> A. R x k then None else map_of m k)"
  by (induction m) auto

lemma meta_reaped: "reaped_by x (make_eph_meta_key d f) \<longleftrightarrow> x = d @ '':'' @ f"
  by (auto simp: reaped_by_def make_eph_meta_key_def EPH_CHUNK_PREFIX_def EPH_META_PREFIX_def prefix_def)

text \<open>A database with one file, written by \<open>ephemeral_put_chunk\<close>.\<close>

definition demo_file :: "u64 \<Rightarrow> u64 \<Rightarrow> string \<Rightarrow> (string \<times> bytes) list \<Rightarrow> (string \<times> bytes) list" where
  "demo_file now ret f m = projr (ephemeral_put_chunk demo_store now m demo_did f 0 1 3 [1, 2, 3] ret)"

definition demo_meta :: "u64 \<Rightarrow> ephemeral_meta" where
  "demo_meta e = \<lparr>chunk_count = 1, total_size = 3, eph_expires_at = e\<rparr>"

lemma demo_file_spec:
  assumes "keys_ok m" and "utf8_valid f"
  shows "keys_ok (demo_file now ret f m)"
    and "fst ` set (demo_file now ret f m) = {make_eph_meta_key demo_did f, make_eph_chunk_key demo_did f 0} \<union> fst ` set m"
    and "map_of (demo_file now ret f m) = (map_of m)(make_eph_chunk_key demo_did f 0 \<mapsto> [1, 2, 3],
      make_eph_meta_key demo_did f \<mapsto> projr (meta_to_json demo_store (demo_meta (sat_add now ret))))"
proof -
  note ok = insert_eph_ok [OF _ demo_did_ok(1) assms(2)] keys_ok_def [THEN iffD1, THEN conjunct1]
  have "demo_file now ret f m = om_insert (make_eph_meta_key demo_did f)
      (projr (meta_to_json demo_store (demo_meta (sat_add now ret)))) (om_insert (make_eph_chunk_key demo_did f 0) [1, 2, 3] m)"
    by (simp add: demo_file_def demo_meta_def ephemeral_put_chunk_def with_context_def demo_store_def
        del: u64_to_be.simps u32_to_be.simps om_insert.simps)
  then show "keys_ok (demo_file now ret f m)"
    and "fst ` set (demo_file now ret f m) = {make_eph_meta_key demo_did f, make_eph_chunk_key demo_did f 0} \<union> fst ` set m"
    and "map_of (demo_file now ret f m) = (map_of m)(make_eph_chunk_key demo_did f 0 \<mapsto> [1, 2, 3],
      make_eph_meta_key demo_did f \<mapsto> projr (meta_to_json demo_store (demo_meta (sat_add now ret))))"
    using ok assms(1) by (simp_all add: ok set_om_insert)
qed

lemma demo_meta_json [simp]:
  "meta_from_json demo_store (projr (meta_to_json demo_store (demo_meta e))) = Inr (demo_meta e)"
  using demo_meta_codec [of 1 3 e]
  by (simp add: demo_store_def demo_meta_def del: u64_to_be.simps u32_to_be.simps)

lemma demo_meta_expires [simp]: "eph_expires_at (demo_meta e) = e"
  by (simp add: demo_meta_def)

lemma demo_file_ids: "utf8_valid ''f''" "utf8_valid ''f:g''"
  by (simp_all add: utf8_valid_def)

text \<open>
  When file ids contain no colon, the reaper deletes exactly the files whose time is over: their
  chunks and records go, every chunk of a file that is still alive stays, and no reader notices.
\<close>

lemma reap_exact:
  assumes inv: "db_inv K db" and d: "did_ok d" and f: "CHR '':'' \<notin> set f"
    and meta: "map_of (db_view K db) (make_eph_meta_key d f) = Some v" "meta_from_json K v = Inr m"
    and plain: "list_all (\<lambda>x. \<exists>d' f'. x = d' @ '':'' @ f' \<and> did_ok d' \<and> CHR '':'' \<notin> set f') (expired_files K t (db_view K db))"
  shows "\<exists>db' n. ephemeral_reap K t db = Inr (db', n) \<and> db_inv K db' \<and>
    (\<forall>i. map_of (db_view K db') (make_eph_chunk_key d f i) =
      (if eph_expires_at m \<le> t then None else map_of (db_view K db) (make_eph_chunk_key d f i))) \<and>
    (\<forall>i now. t \<le> now \<longrightarrow> ephemeral_get_chunk K now db' d f i = ephemeral_get_chunk K now db d f i)"
proof -
  let ?xs = "expired_files K t (db_view K db)" and ?m = "db_view K db"
  obtain db' where db': "ephemeral_reap K t db = Inr (db', of_nat (length ?xs))" "db_inv K db'"
    and view: "db_view K db' = filter (\<lambda>p. \<not> (\<exists>x \<in> set ?xs. reaped_by x (fst p))) ?m"
    using ephemeral_reap_spec [OF inv, of t] by blast
  note exp = expired_files_meta [OF inv meta, of t]
  have chunk: "(\<exists>x \<in> set ?xs. reaped_by x (make_eph_chunk_key d f i)) \<longleftrightarrow> eph_expires_at m \<le> t" for i
  proof
    assume "\<exists>x \<in> set ?xs. reaped_by x (make_eph_chunk_key d f i)"
    then obtain d' f' where x: "d' @ '':'' @ f' \<in> set ?xs" "did_ok d'" "CHR '':'' \<notin> set f'"
      "reaped_by (d' @ '':'' @ f') (make_eph_chunk_key d f i)"
      using plain unfolding list_all_iff by metis
    then show "eph_expires_at m \<le> t" using reaped_by_own [OF d x(2) f x(3)] exp by simp
  next
    assume "eph_expires_at m \<le> t"
    then show "\<exists>x \<in> set ?xs. reaped_by x (make_eph_chunk_key d f i)"
      using exp reaped_by_own [OF d d f f, of i] by blast
  qed
  have mk: "map_of (db_view K db') (make_eph_meta_key d f) = (if eph_expires_at m \<le> t then None else Some v)"
    unfolding view map_of_survivors meta_reaped using exp meta(1) by auto
  have ck: "map_of (db_view K db') (make_eph_chunk_key d f i) =
      (if eph_expires_at m \<le> t then None else map_of ?m (make_eph_chunk_key d f i))" for i
    unfolding view map_of_survivors chunk by (rule refl)
  have "ephemeral_get_chunk K now db' d f i = ephemeral_get_chunk K now db d f i" if "t \<le> now" for i now
    using that mk ck meta store_okD(2) [OF db_invD(1,2) [OF inv]] store_okD(2) [OF db_invD(1,2) [OF db'(2)]]
    by (auto simp: ephemeral_get_chunk_def lookup_meta_def with_context_def)
  with db' ck show ?thesis by blast
qed

lemma demo_file_plain:
  assumes "CHR '':'' \<notin> set f" and "utf8_valid f"
  shows "list_all (\<lambda>x. \<exists>d' f'. x = d' @ '':'' @ f' \<and> did_ok d' \<and> CHR '':'' \<notin> set f') (expired_files demo_store t (demo_file now ret f []))"
proof -
  have "x = demo_did @ '':'' @ f" if "x \<in> set (expired_files demo_store t (demo_file now ret f []))" for x
  proof -
    from that obtain k where k: "k \<in> fst ` set (demo_file now ret f [])" "prefix EPH_META_PREFIX k" "x = drop (length EPH_META_PREFIX) k"
      by (auto simp: expired_files_def)
    moreover have "\<not> prefix EPH_META_PREFIX (make_eph_chunk_key demo_did f 0)"
      by (simp add: make_eph_chunk_key_def EPH_CHUNK_PREFIX_def EPH_META_PREFIX_def)
    ultimately have "k = make_eph_meta_key demo_did f"
      using demo_file_spec(2) [OF keys_ok_Nil assms(2)] by auto
    with k(3) show ?thesis by (simp add: make_eph_meta_key_def)
  qed
  with assms(1) demo_did_ok(1) show ?thesis unfolding list_all_iff by metis
qed

lemma reap_exact_example:
  "\<exists>db' n. ephemeral_reap demo_store 10 (demo_file 0 5 ''f'' []) = Inr (db', n) \<and>
     map_of db' (make_eph_chunk_key demo_did ''f'' 0) = None"
  using reap_exact [of demo_store "demo_file 0 5 ''f'' []" demo_did "''f''" "projr (meta_to_json demo_store (demo_meta 5))" "demo_meta 5" 10]
    demo_file_spec [OF keys_ok_Nil demo_file_ids(1), of 0 5] demo_file_plain [of "''f''" 10 0 5]
  by (auto simp: demo_file_ids sat_add_def)

text \<open>
  A file id may contain a colon, and then the prefix of one file can be a prefix of another: when
  file \<open>f\<close> expires, the reaper also deletes the chunks of the live file \<open>f:g\<close> of the same dialogue,
  whose record stays, so that the file is announced and its chunks are gone.
\<close>

lemma reap_takes_live_chunks:
  assumes inv: "db_inv K db"
    and dead: "map_of (db_view K db) (make_eph_meta_key d f) = Some v" "meta_from_json K v = Inr m" "eph_expires_at m \<le> t"
    and live: "map_of (db_view K db) (make_eph_meta_key d (f @ '':'' @ g)) = Some v'" "meta_from_json K v' = Inr m'"
      "t < eph_expires_at m'"
  shows "\<exists>db' n. ephemeral_reap K t db = Inr (db', n) \<and> lookup_meta K t db' d (f @ '':'' @ g) = Inr (Some m') \<and>
    ephemeral_get_chunk K t db' d (f @ '':'' @ g) i = Inr None"
proof -
  let ?xs = "expired_files K t (db_view K db)" and ?m = "db_view K db" and ?g = "f @ '':'' @ g"
  obtain db' where db': "ephemeral_reap K t db = Inr (db', of_nat (length ?xs))" "db_inv K db'"
    and view: "db_view K db' = filter (\<lambda>p. \<not> (\<exists>x \<in> set ?xs. reaped_by x (fst p))) ?m"
    using ephemeral_reap_spec [OF inv, of t] by blast
  have "d @ '':'' @ ?g \<notin> set ?xs" using expired_files_meta [OF inv live(1,2), of t] live(3) by (simp add: leD)
  then have mk: "map_of (db_view K db') (make_eph_meta_key d ?g) = Some v'"
    unfolding view map_of_survivors meta_reaped using live(1) by auto
  have "d @ '':'' @ f \<in> set ?xs" using expired_files_meta [OF inv dead(1,2), of t] dead(3) by simp
  moreover have "reaped_by (d @ '':'' @ f) (make_eph_chunk_key d ?g i)"
    by (simp add: reaped_by_def make_eph_chunk_key_def)
  ultimately have ck: "map_of (db_view K db') (make_eph_chunk_key d ?g i) = None"
    unfolding view map_of_survivors by auto
  have "lookup_meta K t db' d ?g = Inr (Some m')"
    using mk live(2,3) store_okD(2) [OF db_invD(1,2) [OF db'(2)]] by (simp add: lookup_meta_def with_context_def)
  with db'(1) ck show ?thesis
    using store_okD(2) [OF db_invD(1,2) [OF db'(2)]] by (simp add: ephemeral_get_chunk_def)
qed

lemma reap_takes_live_chunks_example:
  "\<exists>db' n. ephemeral_reap demo_store 10 (demo_file 0 99 ''f:g'' (demo_file 0 5 ''f'' [])) = Inr (db', n) \<and>
     lookup_meta demo_store 10 db' demo_did ''f:g'' = Inr (Some (demo_meta 99)) \<and>
     ephemeral_get_chunk demo_store 10 db' demo_did ''f:g'' 0 = Inr None"
proof -
  note f = demo_file_spec [OF keys_ok_Nil demo_file_ids(1), of 0 5]
  note g = demo_file_spec [OF f(1) demo_file_ids(2), of 0 99]
  have "make_eph_meta_key demo_did ''f'' \<noteq> make_eph_meta_key demo_did ''f:g''" by (simp add: make_eph_meta_key_def)
  then show ?thesis
    using reap_takes_live_chunks [of demo_store "demo_file 0 99 ''f:g'' (demo_file 0 5 ''f'' [])" demo_did "''f''"
        "projr (meta_to_json demo_store (demo_meta 5))" "demo_meta 5" 10 "''g''"
        "projr (meta_to_json demo_store (demo_meta 99))" "demo_meta 99" 0] f g
    by (simp add: sat_add_def)
qed

section \<open>The packet with number 0\<close>

text \<open>
  \<open>push\<close> accepts the number 0, but the packet stored under it can never be pulled, mapped or
  counted, and no range deletes it: every operation starts above 0, also where 0 stands for the
  beginning of the dialogue.
\<close>

lemma seq_zero_unreachable:
  assumes inv: "db_inv K db" and d: "did_ok d" and fresh: "map_of (log_of K db d) 0 = None"
  shows "\<exists>db'. push K db d 0 v = Inr db' \<and> map_of (log_of K db' d) 0 = Some v \<and>
    (\<forall>a t ps. pull K db' d a t = Inr ps \<longrightarrow> 0 \<notin> fst ` set ps) \<and>
    (\<forall>a t n r. map_dialogue K db' d a t n = Inr r \<longrightarrow> 0 \<notin> covered (runs r)) \<and>
    (\<forall>a t db''. remove_range K db' d a t = Inr db'' \<longrightarrow> map_of (log_of K db'' d) 0 = Some v)"
proof -
  obtain db' where db': "push K db d 0 v = Inr db'" using push_spec [OF inv d, of 0 v] fresh by auto
  have inv': "db_inv K db'" and log: "map_of (log_of K db' d) 0 = Some v"
    using push_log [OF inv d db'] log_of_ok [OF inv d] d by auto
  have "0 \<notin> fst ` set ps" if "pull K db' d a t = Inr ps" for a t ps
    using that pull_spec [OF inv' d, of a t] by (auto split: if_splits)
  moreover have "0 \<notin> covered (runs r)" if "map_dialogue K db' d a t n = Inr r" for a t n r
  proof (cases "t = 0 \<or> a < t")
    case True
    with map_runs_exact [OF inv' d, of t a n] that show ?thesis by auto
  next
    case False
    then have "t \<noteq> 0 \<and> t \<le> a" by auto
    with map_spec [OF inv' d, of a t n] that show ?thesis by simp
  qed
  moreover have "map_of (log_of K db'' d) 0 = Some v" if "remove_range K db' d a t = Inr db''" for a t db''
  proof -
    have "\<not> max a 1 \<le> (0 :: u64)" by (metis max.boundedE word_le_0_iff zero_neq_one)
    moreover have "log_of K db'' d = filter (\<lambda>p. \<not> (max a 1 \<le> fst p \<and> fst p \<le> t)) (log_of K db' d)"
      using remove_range_log [OF inv' d that] d by simp
    ultimately show ?thesis
      using map_of_survivors [of "{()}" "\<lambda>_ s. max a 1 \<le> s \<and> s \<le> t" "log_of K db' d" 0] log by simp
  qed
  ultimately show ?thesis using db' log by blast
qed

lemma seq_zero_unreachable_example:
  "\<exists>db'. push demo_store demo_db demo_did 0 [9] = Inr db' \<and> map_of (packet_log demo_did db') 0 = Some [9]"
  using seq_zero_unreachable [of demo_store demo_db demo_did "[9]"] by auto

section \<open>Concurrent pushes\<close>

text \<open>
  \<open>push\<close> reads the key and then writes it; the two accesses of one request can be separated by those
  of another. A step is one access of client \<open>i\<close>, who pushes \<open>vs i\<close> under the same number.
\<close>

datatype push_pc = Not_Started | Checked | Answered "unit res"

inductive push_step :: "'db store_env \<Rightarrow> string \<Rightarrow> u64 \<Rightarrow> (nat \<Rightarrow> bytes) \<Rightarrow>
    'db \<times> (nat \<Rightarrow> push_pc) \<Rightarrow> 'db \<times> (nat \<Rightarrow> push_pc) \<Rightarrow> bool"
  for K d s vs where
  check_free: "pcs i = Not_Started \<Longrightarrow> db_get K db (make_key d s) = Inr None \<Longrightarrow>
    push_step K d s vs (db, pcs) (db, pcs(i := Checked))"
| check_taken: "pcs i = Not_Started \<Longrightarrow> db_get K db (make_key d s) = Inr (Some w) \<Longrightarrow>
    push_step K d s vs (db, pcs) (db, pcs(i := Answered (Inl (''Duplicate seq '' @ show_nat (unat s)))))"
| put_now: "pcs i = Checked \<Longrightarrow> db_put K db (make_key d s) (vs i) = Inr db' \<Longrightarrow>
    push_step K d s vs (db, pcs) (db', pcs(i := Answered (Inr ())))"

text \<open>A request that is not interrupted does what \<open>push\<close> does.\<close>

lemma push_steps_alone:
  assumes "push K db d s (vs i) = Inr db'" and "pcs i = Not_Started"
  shows "(push_step K d s vs)\<^sup>*\<^sup>* (db, pcs) (db', pcs(i := Answered (Inr ())))"
proof -
  have "db_get K db (make_key d s) = Inr None" and "db_put K db (make_key d s) (vs i) = Inr db'"
    using assms(1) by (auto simp: push_def with_context_def Let_def try_then_Inr_iff split: if_splits sum.splits)
  with assms(2) have "push_step K d s vs (db, pcs) (db, pcs(i := Checked))"
    and "push_step K d s vs (db, pcs(i := Checked)) (db', (pcs(i := Checked))(i := Answered (Inr ())))"
    using push_step.check_free [of pcs i K db d s vs] push_step.put_now [of "pcs(i := Checked)" i K db d s vs db']
    by simp_all
  then show ?thesis by (metis converse_rtranclp_into_rtranclp fun_upd_upd rtranclp.rtrancl_refl)
qed

text \<open>
  C40. Two requests for one free number can both be answered with success: the check of the second
  falls between the check and the write of the first. Only the later payload is in the store.
\<close>

theorem push_race_loses_packet:
  assumes inv: "db_inv K db" and d: "did_ok d" and fresh: "map_of (log_of K db d) s = None"
  shows "\<exists>db' pcs. (push_step K d s vs)\<^sup>*\<^sup>* (db, \<lambda>_. Not_Started) (db', pcs) \<and>
    pcs 0 = Answered (Inr ()) \<and> pcs 1 = Answered (Inr ()) \<and> db_inv K db' \<and>
    log_of K db' d = om_insert s (vs 1) (log_of K db d)"
proof -
  note K = db_invD [OF inv] and k = store_okD(3) [OF db_invD(1) [OF inv]]
  have free: "db_get K db (make_key d s) = Inr None"
    using fresh store_okD(2) [OF K(1,2)] map_of_log_of [OF inv d] by simp
  obtain db1 where db1: "db_put K db (make_key d s) (vs 0) = Inr db1" "db_valid K db1"
    "db_view K db1 = om_insert (make_key d s) (vs 0) (db_view K db)" using k [OF K(2)] by blast
  obtain db2 where db2: "db_put K db1 (make_key d s) (vs 1) = Inr db2" "db_valid K db2"
    "db_view K db2 = om_insert (make_key d s) (vs 1) (db_view K db1)" using k [OF db1(2)] by blast
  have inv1: "db_inv K db1" using db1 insert_packet_ok [OF K(3) d] K(1) by (simp add: db_inv_def)
  have inv2: "db_inv K db2" using db2 insert_packet_ok [OF db_invD(3) [OF inv1] d] K(1) by (simp add: db_inv_def)
  have twice: "om_insert s b (om_insert s a L) = om_insert s b L" if "om_ok L" for a b and L :: "(u64 \<times> bytes) list"
    by (rule om_ext) (use that in auto)
  have "log_of K db2 d = om_insert s (vs 1) (om_insert s (vs 0) (log_of K db d))"
    using packet_log_insert [OF db_invD(3) [OF inv1] d d] packet_log_insert [OF K(3) d d]
    by (simp add: log_of_def db1(3) db2(3))
  then have log: "log_of K db2 d = om_insert s (vs 1) (log_of K db d)"
    by (simp only: twice [OF log_of_ok [OF inv d]])
  let ?st = "push_step K d s vs" and ?p0 = "(\<lambda>_. Not_Started)(0 := Checked)"
  have "?st (db, \<lambda>_. Not_Started) (db, ?p0)" by (intro push_step.check_free free) simp
  moreover have "?st (db, ?p0) (db, ?p0(1 := Checked))" by (intro push_step.check_free free) simp
  moreover have "?st (db, ?p0(1 := Checked)) (db1, ?p0(1 := Checked, 0 := Answered (Inr ())))"
    by (rule push_step.put_now) (simp_all add: db1)
  moreover have "?st (db1, ?p0(1 := Checked, 0 := Answered (Inr ())))
      (db2, ?p0(1 := Checked, 0 := Answered (Inr ()), 1 := Answered (Inr ())))"
    by (rule push_step.put_now) (use db2 in simp_all)
  ultimately have "?st\<^sup>*\<^sup>* (db, \<lambda>_. Not_Started) (db2, ?p0(1 := Checked, 0 := Answered (Inr ()), 1 := Answered (Inr ())))"
    by (meson converse_rtranclp_into_rtranclp rtranclp.rtrancl_refl)
  moreover have "(?p0(1 := Checked, 0 := Answered (Inr ()), 1 := Answered (Inr ()))) j = Answered (Inr ())" if "j < 2" for j :: nat
    using that by auto
  ultimately show ?thesis using inv2 log by (metis one_less_numeral_iff semiring_norm(76) zero_less_numeral)
qed

theorem push_race_loses_packet_witness:
  "\<exists>db' pcs. (push_step demo_store demo_did 3 (\<lambda>i. if i = 0 then [30] else [31]))\<^sup>*\<^sup>* (demo_db, \<lambda>_. Not_Started) (db', pcs) \<and>
    pcs 0 = Answered (Inr ()) \<and> pcs 1 = Answered (Inr ()) \<and>
    packet_log demo_did db' = [(1, [10]), (2, [20]), (3, [31]), (4, [40])]"
  using push_race_loses_packet [of demo_store demo_db demo_did 3 "\<lambda>i. if i = 0 then [30] else [31]"] by auto

end
