(* ===== verification/Demo_Server.thy ===== *)
theory Demo_Server
  imports Packet_Routes Store_Lifecycle
begin

text \<open>
  A concrete environment for the handlers: transparent base64, a hash that truncates, and a
  signature that repeats the key and the start of the message. It satisfies the laws of
  \<open>crypto_ok\<close>; the examples of the development use it. It also holds the facts about dialogue ids
  that follow from the laws.
\<close>

definition demo_hash :: "bytes \<Rightarrow> bytes" where
  "demo_hash m = take 32 (m @ replicate 32 0)"

definition demo_sign :: "bytes \<Rightarrow> bytes \<Rightarrow> bytes" where
  "demo_sign key m = take 64 (key @ m @ replicate 64 0)"

definition hex_digit :: "byte \<Rightarrow> char" where
  "hex_digit b = ''0123456789abcdef'' ! unat (b AND 15)"

definition demo_crypto :: crypto_env where
  "demo_crypto = \<lparr>b64_decode = (\<lambda>s. Inr (as_bytes s)), b64_encode = map (\<lambda>b. char_of (unat b)),
     ed_from_bytes = Inr, ed_verify = (\<lambda>key m sig. sig = demo_sign key m), sha256 = demo_hash,
     hex_encode = (\<lambda>bs. concat (map (\<lambda>b. [hex_digit (drop_bit 4 b), hex_digit b]) bs))\<rparr>"

lemma hex_digit_in: "hex_digit b \<in> set ''0123456789abcdef''"
proof -
  have "unat (b AND 15) \<le> unat (15 :: byte)" by (simp only: word_le_nat_alt [symmetric] word_and_le1)
  then have "unat (b AND 15) < length ''0123456789abcdef''" by simp
  then show ?thesis unfolding hex_digit_def by (rule nth_mem)
qed

lemma as_bytes_char_of: "as_bytes (map (\<lambda>b. char_of (unat b)) bs) = bs"
proof -
  have "(of_char (char_of (unat b) :: char) :: byte) = b" for b
  proof -
    have "unat b < 256" using unsigned_less [where w = b and ?'a = nat] by simp
    then have "(of_char (char_of (unat b) :: char) :: nat) = unat b" by simp
    then show ?thesis by (metis unat_of_char word_unat_eq_iff)
  qed
  then show ?thesis by (simp add: as_bytes_def comp_def)
qed

lemma char_of_as_bytes: "map (\<lambda>b. char_of (unat b)) (as_bytes s) = s"
  by (simp only: as_bytes_inj [symmetric] as_bytes_char_of)

lemma demo_crypto_ok [simp]: "crypto_ok demo_crypto"
proof -
  have "length (concat (map (\<lambda>b. [hex_digit (drop_bit 4 b), hex_digit b]) bs)) = 2 * length bs" for bs
    by (induction bs) auto
  moreover have "length (demo_hash m) = 32" for m by (simp add: demo_hash_def)
  moreover have "set (concat (map (\<lambda>b. [f b, g b]) bs)) \<subseteq> A" if "\<And>b. f b \<in> A" "\<And>b. g b \<in> A"
    for f g :: "byte \<Rightarrow> char" and A bs
    using that by (induction bs) auto
  note this [OF hex_digit_in hex_digit_in]
  ultimately show ?thesis
    unfolding crypto_ok_def demo_crypto_def by (simp only: as_bytes_char_of crypto_env.simps) simp
qed

lemma demo_decode [simp]: "b64_decode demo_crypto s = Inr (as_bytes s)" "decode_b64 demo_crypto s = Inr (as_bytes s)"
  by (simp_all add: demo_crypto_def decode_b64_def)

lemma demo_encode [simp]: "encode_b64 demo_crypto (as_bytes s) = s"
  by (simp add: encode_b64_def demo_crypto_def char_of_as_bytes)

text \<open>The signature of a message, in transport form.\<close>

definition demo_sig :: "string \<Rightarrow> string \<Rightarrow> string" where
  "demo_sig key msg = map (\<lambda>b. char_of (unat b)) (demo_sign (as_bytes key) (as_bytes msg))"

lemma demo_sig_bytes [simp]: "as_bytes (demo_sig key msg) = demo_sign (as_bytes key) (as_bytes msg)"
  by (simp add: demo_sig_def as_bytes_char_of)

lemma demo_verify [simp]:
  "verify_signature demo_crypto (as_bytes key) (as_bytes msg) (demo_sign (as_bytes key) (as_bytes msg)) = Inr ()"
  by (simp add: verify_signature_def demo_crypto_def demo_sign_def)

definition demo_env :: "(string \<times> bytes) list server_env" where
  "demo_env = \<lparr>crypto = demo_crypto, kv = demo_store\<rparr>"

lemma demo_env_simps [simp]: "crypto demo_env = demo_crypto" "kv demo_env = demo_store"
  by (simp_all add: demo_env_def)

definition alice_key :: string where "alice_key = replicate 32 CHR ''a''"
definition bob_key :: string where "bob_key = replicate 32 CHR ''b''"

definition demo_config :: server_config where
  "demo_config = default_config\<lparr>users := [''alice'' \<mapsto> alice_key, ''bob'' \<mapsto> bob_key, ''bob1'' \<mapsto> bob_key]\<rparr>"

lemma demo_users [simp]:
  "users demo_config ''alice'' = Some alice_key" "users demo_config ''bob'' = Some bob_key"
  "users demo_config ''bob1'' = Some bob_key"
  by (simp_all add: demo_config_def)

lemma demo_keys [simp]:
  "user_pubkey_bytes demo_crypto demo_config ''alice'' = Some (as_bytes alice_key)"
  "user_pubkey_bytes demo_crypto demo_config ''bob'' = Some (as_bytes bob_key)"
  "user_pubkey_bytes demo_crypto demo_config ''bob1'' = Some (as_bytes bob_key)"
  by (simp_all add: user_pubkey_bytes_def alice_key_def bob_key_def)

lemma dialogue_id_ok: "crypto_ok C \<Longrightarrow> did_ok (make_dialogue_id C a b)"
  by (auto simp: crypto_ok_def did_ok_def make_dialogue_id_def hex_chars_def Let_def)

end
