(* ===== verification/Packet_Route_Props.thy ===== *)
theory Packet_Route_Props
  imports Demo_Server
begin

text \<open>
  What the packet handlers promise to the two users of a dialogue: who can write, that a message
  arrives, that a long poll sees it, and what the unseparated signed strings allow.
\<close>

section \<open>push\<close>

definition authorised_push :: "crypto_env \<Rightarrow> server_config \<Rightarrow> push_request \<Rightarrow> bytes \<Rightarrow> bool" where
  "authorised_push C cfg req payload \<longleftrightarrow> (\<exists>sig key. decode_b64 C (psh_sig req) = Inr sig \<and>
     decode_b64 C (psh_payload req) = Inr payload \<and> users cfg (psh_recver req) \<noteq> None \<and>
     user_pubkey_bytes C cfg (psh_sender req) = Some key \<and> signed_by C key (push_msg req) sig)"

abbreviation push_did :: "'db server_env \<Rightarrow> push_request \<Rightarrow> string" where
  "push_did E req \<equiv> make_dialogue_id (crypto E) (psh_sender req) (psh_recver req)"

lemma do_push_authorised:
  "authorised_push (crypto E) cfg req payload \<Longrightarrow> do_push E cfg now db req =
    (case store_packet (kv E) now db (psh_sender req) (push_did E req) (psh_seq req) payload of
       Inl e \<Rightarrow> (api_fail e, db, None) | Inr db' \<Rightarrow> (api_ok ''OK'', db', Some (push_did E req)))"
  by (auto simp: authorised_push_def do_push_def Let_def split: sum.splits)

lemma do_push_refused:
  "\<nexists>payload. authorised_push (crypto E) cfg req payload \<Longrightarrow> \<exists>msg. do_push E cfg now db req = (api_fail msg, db, None)"
  by (auto simp: authorised_push_def do_push_def Let_def split: sum.splits option.splits)

text \<open>What \<open>store_packet\<close> leaves: the packet in its dialogue, and at most one receipt changed.\<close>

lemma store_packet_spec:
  assumes inv: "db_inv K db" and d: "did_ok d" and u: "utf8_valid u"
  shows "if map_of (log_of K db d) s \<noteq> None then \<exists>e. store_packet K now db u d s v = Inl e
    else \<exists>db'. store_packet K now db u d s v = Inr db' \<and> db_inv K db' \<and>
      (\<forall>d'. did_ok d' \<longrightarrow> log_of K db' d' = (if d' = d then om_insert s v (log_of K db d) else log_of K db d')) \<and>
      (\<forall>u' d' st. did_ok d' \<longrightarrow> receipt_of K db u' d' = Inr st \<longrightarrow> receipt_of K db' u' d' =
         Inr (if u' = u \<and> d' = d then receipt_step now (Pulled s) st else st))"
proof (cases "map_of (log_of K db d) s")
  case (Some w)
  with push_spec [OF inv d, of s v] show ?thesis by (simp add: store_packet_def)
next
  case None
  then obtain db1 where db1: "push K db d s v = Inr db1" and view: "db_view K db1 = om_insert (make_key d s) v (db_view K db)"
    using push_spec [OF inv d, of s v] by auto
  note p = push_log [OF inv d db1]
  have om: "om_ok (db_view K db)" using db_invD(3) [OF inv] by (simp add: keys_ok_def)
  have rec: "receipt_of K db1 u' d' = receipt_of K db u' d'" for u' d'
    using om receipt_key_not_packet [OF d] by (simp add: receipt_of_def view)
  note inv1 = p [THEN conjunct1]
  show ?thesis
  proof (cases "receipt_of K db1 u d")
    case (Inl e)
    then have "update_last_seq K now db1 u d s = Inl e"
      by (simp add: update_last_seq_def lookup_receipt_spec [OF inv1])
    then have "store_packet K now db u d s v = Inr db1" by (simp add: store_packet_def db1)
    with None p rec Inl show ?thesis by auto
  next
    case (Inr st)
    obtain db2 where db2: "update_last_seq K now db1 u d s = Inr db2" "db_inv K db2"
      "receipt_of K db2 u d = Inr (receipt_step now (Pulled s) st)"
      "\<forall>d'. did_ok d' \<longrightarrow> log_of K db2 d' = log_of K db1 d'"
      "\<forall>u' d'. make_receipt_key u' d' \<noteq> make_receipt_key u d \<longrightarrow> receipt_of K db2 u' d' = receipt_of K db1 u' d'"
      using update_last_seq_spec [OF inv1 u did_utf8 [OF d] Inr, of now s] by auto
    then have "store_packet K now db u d s v = Inr db2" by (simp add: store_packet_def db1)
    moreover have "receipt_of K db2 u' d' = Inr (if u' = u \<and> d' = d then receipt_step now (Pulled s) st' else st')"
      if "did_ok d'" "receipt_of K db u' d' = Inr st'" for u' d' st'
      using that db2(3,5) receipt_key_inj [OF that(1) d] rec Inr by auto
    ultimately show ?thesis using None p db2 by auto
  qed
qed

lemma stored_packet:
  assumes "db_inv K db" and "did_ok d" and "utf8_valid u" and "store_packet K now db u d s v = Inr db'"
  shows "map_of (log_of K db d) s = None" and "db_inv K db'"
    and "did_ok d' \<Longrightarrow> log_of K db' d' = (if d' = d then om_insert s v (log_of K db d) else log_of K db d')"
    and "did_ok d' \<Longrightarrow> receipt_of K db u' d' = Inr st \<Longrightarrow>
      receipt_of K db' u' d' = Inr (if u' = u \<and> d' = d then receipt_step now (Pulled s) st else st)"
proof -
  note spec = store_packet_spec [OF assms(1-3), where s = s and v = v and now = now]
  show fresh: "map_of (log_of K db d) s = None"
  proof (rule ccontr)
    assume "map_of (log_of K db d) s \<noteq> None"
    from spec [unfolded if_P [OF this]] assms(4) show False by simp
  qed
  then have "\<not> map_of (log_of K db d) s \<noteq> None" by simp
  note new = spec [unfolded if_not_P [OF this]]
  from new assms(4) have "db_inv K db' \<and>
      (\<forall>d'. did_ok d' \<longrightarrow> log_of K db' d' = (if d' = d then om_insert s v (log_of K db d) else log_of K db d')) \<and>
      (\<forall>u' d' st. did_ok d' \<longrightarrow> receipt_of K db u' d' = Inr st \<longrightarrow> receipt_of K db' u' d' =
         Inr (if u' = u \<and> d' = d then receipt_step now (Pulled s) st else st))"
    by (simp only: sum.inject) blast
  then show "db_inv K db'"
    and "did_ok d' \<Longrightarrow> log_of K db' d' = (if d' = d then om_insert s v (log_of K db d) else log_of K db d')"
    and "did_ok d' \<Longrightarrow> receipt_of K db u' d' = Inr st \<Longrightarrow>
      receipt_of K db' u' d' = Inr (if u' = u \<and> d' = d then receipt_step now (Pulled s) st else st)"
    by blast+
qed

lemma push_cases_exact:
  assumes ok: "crypto_ok (crypto E)" and inv: "db_inv (kv E) db" and u: "utf8_valid (psh_sender req)"
  shows "(\<exists>payload db'. authorised_push (crypto E) cfg req payload \<and>
       map_of (log_of (kv E) db (push_did E req)) (psh_seq req) = None \<and>
       do_push E cfg now db req = (api_ok ''OK'', db', Some (push_did E req)) \<and> db_inv (kv E) db' \<and>
       (\<forall>d'. did_ok d' \<longrightarrow> log_of (kv E) db' d' = (if d' = push_did E req
          then om_insert (psh_seq req) payload (log_of (kv E) db d') else log_of (kv E) db d'))) \<or>
     ((\<nexists>payload. authorised_push (crypto E) cfg req payload \<and> map_of (log_of (kv E) db (push_did E req)) (psh_seq req) = None) \<and>
       (\<exists>msg. do_push E cfg now db req = (api_fail msg, db, None)))"
proof (cases "\<exists>payload. authorised_push (crypto E) cfg req payload")
  case True
  then obtain payload where a: "authorised_push (crypto E) cfg req payload" by blast
  note did = dialogue_id_ok [OF ok, of "psh_sender req" "psh_recver req"]
  note spec = store_packet_spec [OF inv did u, where s = "psh_seq req" and v = payload and now = now]
  show ?thesis
  proof (cases "map_of (log_of (kv E) db (push_did E req)) (psh_seq req)")
    case None
    with spec obtain db' where "store_packet (kv E) now db (psh_sender req) (push_did E req) (psh_seq req) payload = Inr db'"
      "db_inv (kv E) db'" "\<forall>d'. did_ok d' \<longrightarrow> log_of (kv E) db' d' = (if d' = push_did E req
          then om_insert (psh_seq req) payload (log_of (kv E) db (push_did E req)) else log_of (kv E) db d')"
      by auto
    with a None do_push_authorised [OF a, of now db] show ?thesis
      by (intro disjI1 exI [of _ payload] exI [of _ db']) auto
  next
    case (Some w)
    with spec obtain e where "store_packet (kv E) now db (psh_sender req) (push_did E req) (psh_seq req) payload = Inl e"
      by auto
    with Some do_push_authorised [OF a, of now db] show ?thesis by auto
  qed
next
  case False
  with do_push_refused [OF False, of now db] show ?thesis by simp
qed

text \<open>
  C13. A push writes exactly when it is signed by the registered key of the sender over sender,
  receiver, number and payload, the receiver is registered, and the number is free in their
  dialogue; then the dialogue gains that packet and no other dialogue changes, and its long polls
  are woken. Otherwise the database is left alone and nobody is woken.
\<close>

theorem push_exact:
  assumes ok: "crypto_ok (crypto E)" and inv: "db_inv (kv E) db" and u: "utf8_valid (psh_sender req)"
  shows "(\<exists>payload db'. authorised_push (crypto E) cfg req payload \<and>
       map_of (log_of (kv E) db (push_did E req)) (psh_seq req) = None \<and>
       do_push E cfg now db req = (api_ok ''OK'', db', Some (push_did E req)) \<and> db_inv (kv E) db' \<and>
       (\<forall>d'. did_ok d' \<longrightarrow> log_of (kv E) db' d' = (if d' = push_did E req
          then om_insert (psh_seq req) payload (log_of (kv E) db d') else log_of (kv E) db d'))) \<or>
     ((\<nexists>payload. authorised_push (crypto E) cfg req payload \<and> map_of (log_of (kv E) db (push_did E req)) (psh_seq req) = None) \<and>
       (\<exists>msg. do_push E cfg now db req = (api_fail msg, db, None)))"
  by (rule push_cases_exact [OF assms])

definition demo_push :: "string \<Rightarrow> string \<Rightarrow> u64 \<Rightarrow> string \<Rightarrow> push_request" where
  "demo_push r key s payload = \<lparr>psh_sender = ''alice'', psh_recver = r, psh_seq = s, psh_payload = payload,
     psh_sig = demo_sig key (''alice'' @ r @ show_nat (unat s) @ payload)\<rparr>"

lemma demo_push_simps [simp]:
  "psh_sender (demo_push r k s p) = ''alice''" "psh_recver (demo_push r k s p) = r"
  "psh_seq (demo_push r k s p) = s" "psh_payload (demo_push r k s p) = p"
  by (simp_all add: demo_push_def)

lemma demo_push_authorised [simp]:
  "authorised_push demo_crypto demo_config (demo_push ''bob'' alice_key s p) (as_bytes p)"
  by (simp add: authorised_push_def push_msg_def demo_push_def del: append.simps)

lemma utf8_alice [simp]: "utf8_valid ''alice''"
  by (simp add: utf8_valid_def)

theorem push_exact_witness:
  "\<exists>db'. do_push demo_env demo_config 5 [] (demo_push ''bob'' alice_key 1 ''hi'') =
     (api_ok ''OK'', db', Some (make_dialogue_id demo_crypto ''alice'' ''bob'')) \<and>
     packet_log (make_dialogue_id demo_crypto ''alice'' ''bob'') db' = [(1, as_bytes ''hi'')]"
  using push_exact [of demo_env "[]" "demo_push ''bob'' alice_key 1 ''hi''" demo_config 5]
    dialogue_id_ok [OF demo_crypto_ok, of "''alice''" "''bob''"] demo_push_authorised [of 1 "''hi''"]
  by (auto simp: authorised_push_def)

section \<open>pull\<close>

definition authorised_range :: "crypto_env \<Rightarrow> server_config \<Rightarrow> range_request \<Rightarrow> bool" where
  "authorised_range C cfg req \<longleftrightarrow> (\<exists>sig sr. decode_b64 C (rq_sig req) = Inr sig \<and>
     pair_keys C cfg req = Some sr \<and> signed_by_either C sr req sig)"

abbreviation range_did :: "'db server_env \<Rightarrow> range_request \<Rightarrow> string" where
  "range_did E req \<equiv> make_dialogue_id (crypto E) (rq_sender req) (rq_recver req)"

abbreviation requested :: "range_request \<Rightarrow> (u64 \<times> bytes) list \<Rightarrow> (u64 \<times> bytes) list" where
  "requested req L \<equiv> filter (\<lambda>p. rq_from req < fst p \<and> fst p \<le> rq_to req) L"

lemma do_pull_authorised:
  assumes "authorised_range (crypto E) cfg req" and "rq_from req < rq_to req"
  shows "\<exists>who \<in> {rq_sender req, rq_recver req}. do_pull E cfg now db req =
    (case fetch_packets E now db who (range_did E req) (rq_from req) (rq_to req) of
       Inl e \<Rightarrow> (pull_fail e, db)
     | Inr (ps, db') \<Rightarrow> (\<lparr>pl_success = True, packets = ps, pl_message = []\<rparr>, db'))"
proof -
  have "\<not> (rq_to req = 0 \<or> rq_to req \<le> rq_from req)" using assms(2) by (auto simp: not_le)
  with assms(1) show ?thesis
    by (auto simp: authorised_range_def do_pull_def signed_by_either_def Let_def split: prod.splits)
qed

lemma do_pull_success:
  assumes "do_pull E cfg now db req = (r, db')" and "pl_success r"
  shows "authorised_range (crypto E) cfg req" and "rq_from req < rq_to req"
  using assms
  by (auto simp: do_pull_def authorised_range_def signed_by_either_def pull_fail_def Let_def not_le
      split: sum.splits option.splits if_splits prod.splits)

lemma fetch_packets_spec:
  assumes inv: "db_inv (kv E) db" and d: "did_ok d" and u: "utf8_valid u" and st: "receipt_of (kv E) db u d = Inr st"
    and at: "a < t"
  shows "\<exists>db'. fetch_packets E now db u d a t =
      Inr (map (\<lambda>(s, v). (s, encode_b64 (crypto E) v)) (filter (\<lambda>p. a < fst p \<and> fst p \<le> t) (log_of (kv E) db d)), db') \<and>
    db_inv (kv E) db' \<and> (\<forall>d'. did_ok d' \<longrightarrow> log_of (kv E) db' d' = log_of (kv E) db d')"
proof -
  let ?ps = "filter (\<lambda>p. a < fst p \<and> fst p \<le> t) (log_of (kv E) db d)"
  have "\<not> (t = 0 \<or> t \<le> a)" using at by (auto simp: not_le)
  then have pull: "pull (kv E) db d a t = Inr ?ps" using pull_spec [OF inv d, of a t] by (simp only: if_False)
  show ?thesis
  proof (cases "?ps = []")
    case True
    with inv show ?thesis by (intro exI [of _ db]) (simp add: fetch_packets_def pull)
  next
    case False
    obtain db' where "update_last_seq (kv E) now db u d (Max (fst ` set ?ps)) = Inr db'" "db_inv (kv E) db'"
      "\<forall>d'. did_ok d' \<longrightarrow> log_of (kv E) db' d' = log_of (kv E) db d'"
      using update_last_seq_spec [OF inv u did_utf8 [OF d] st, of now "Max (fst ` set ?ps)"] by blast
    with False show ?thesis by (intro exI [of _ db']) (simp add: fetch_packets_def pull)
  qed
qed

lemma do_pull_exact:
  assumes ok: "crypto_ok (crypto E)" and inv: "db_inv (kv E) db"
    and u: "utf8_valid (rq_sender req)" "utf8_valid (rq_recver req)"
    and auth: "authorised_range (crypto E) cfg req" and range: "rq_from req < rq_to req"
    and st: "\<And>u. \<exists>st. receipt_of (kv E) db u (range_did E req) = Inr st"
  shows "\<exists>db'. do_pull E cfg now db req = (\<lparr>pl_success = True, packets = map (\<lambda>(s, v). (s, encode_b64 (crypto E) v))
      (requested req (log_of (kv E) db (range_did E req))), pl_message = []\<rparr>, db') \<and> db_inv (kv E) db' \<and>
    (\<forall>d'. did_ok d' \<longrightarrow> log_of (kv E) db' d' = log_of (kv E) db d')"
proof -
  obtain who where who: "who \<in> {rq_sender req, rq_recver req}" and run: "do_pull E cfg now db req =
    (case fetch_packets E now db who (range_did E req) (rq_from req) (rq_to req) of
       Inl e \<Rightarrow> (pull_fail e, db)
     | Inr (ps, db') \<Rightarrow> (\<lparr>pl_success = True, packets = ps, pl_message = []\<rparr>, db'))"
    using do_pull_authorised [OF auth range] by blast
  have "utf8_valid who" using who u by auto
  obtain st' where st': "receipt_of (kv E) db who (range_did E req) = Inr st'" using st by blast
  from fetch_packets_spec [OF inv dialogue_id_ok [OF ok] \<open>utf8_valid who\<close> st' range, of now] run
  show ?thesis by (simp only: sum.case prod.case) auto
qed

lemma pull_after_push:
  assumes ok: "crypto_ok (crypto E)" and inv: "db_inv (kv E) db"
    and u: "utf8_valid (psh_sender req)" "utf8_valid (rq_sender pr)" "utf8_valid (rq_recver pr)"
    and pushed: "do_push E cfg now db req = (resp, db1, woken)" "success resp"
    and pair: "{rq_sender pr, rq_recver pr} = {psh_sender req, psh_recver req}"
    and auth: "authorised_range (crypto E) cfg' pr"
    and window: "rq_from pr < psh_seq req" "psh_seq req \<le> rq_to pr"
    and st: "\<forall>u. \<exists>st. receipt_of (kv E) db u (push_did E req) = Inr st"
  shows "\<exists>payload db2. decode_b64 (crypto E) (psh_payload req) = Inr payload \<and>
    do_pull E cfg' now' db1 pr = (\<lparr>pl_success = True, packets = map (\<lambda>(s, v). (s, encode_b64 (crypto E) v))
      (requested pr (om_insert (psh_seq req) payload (log_of (kv E) db (push_did E req)))), pl_message = []\<rparr>, db2) \<and>
    decode_b64 (crypto E) (encode_b64 (crypto E) payload) = Inr payload"
proof -
  have did: "range_did E pr = push_did E req"
    using pair make_dialogue_id_sym [of "crypto E"] by (auto simp: doubleton_eq_iff)
  obtain payload where a: "authorised_push (crypto E) cfg req payload"
    using do_push_refused [of E cfg req now db] pushed by fastforce
  note didok = dialogue_id_ok [OF ok, of "psh_sender req" "psh_recver req"]
  have store: "store_packet (kv E) now db (psh_sender req) (push_did E req) (psh_seq req) payload = Inr db1"
    using do_push_authorised [OF a, of now db] pushed by (auto split: sum.splits)
  note facts = stored_packet [OF inv didok u(1) store]
  have rec: "\<exists>st. receipt_of (kv E) db1 u (push_did E req) = Inr st" for u
    using st didok facts(4) by blast
  note inv1 = facts(2) and log = facts(3) [OF didok, unfolded if_P [OF refl]]
  have "rq_from pr < rq_to pr" using window by (rule less_le_trans)
  from do_pull_exact [OF ok inv1 u(2,3) auth this, unfolded did, OF rec, of now'] log
  obtain db2 where "do_pull E cfg' now' db1 pr = (\<lparr>pl_success = True, packets = map (\<lambda>(s, v). (s, encode_b64 (crypto E) v))
      (requested pr (om_insert (psh_seq req) payload (log_of (kv E) db (push_did E req)))), pl_message = []\<rparr>, db2)"
    by auto
  moreover have "decode_b64 (crypto E) (psh_payload req) = Inr payload" using a by (auto simp: authorised_push_def)
  moreover have "decode_b64 (crypto E) (encode_b64 (crypto E) payload) = Inr payload"
    using ok by (simp add: crypto_ok_def decode_b64_def encode_b64_def)
  ultimately show ?thesis by blast
qed

text \<open>
  Between the push and the pull others may push and pull. Such a request keeps every packet, and
  every receipt that can be read.
\<close>

datatype packet_event = Push_Event server_config u64 push_request | Pull_Event server_config u64 range_request

fun handle_event :: "'db server_env \<Rightarrow> 'db \<Rightarrow> packet_event \<Rightarrow> 'db" where
  "handle_event E db (Push_Event cfg now req) = fst (snd (do_push E cfg now db req))"
| "handle_event E db (Pull_Event cfg now req) = snd (do_pull E cfg now db req)"

fun event_names :: "packet_event \<Rightarrow> string list" where
  "event_names (Push_Event cfg now req) = [psh_sender req, psh_recver req]"
| "event_names (Pull_Event cfg now req) = [rq_sender req, rq_recver req]"

definition keeps :: "'db store_env \<Rightarrow> string \<Rightarrow> 'db \<Rightarrow> 'db \<Rightarrow> bool" where
  "keeps K d db db' \<longleftrightarrow> db_inv K db' \<and> map_of (log_of K db d) \<subseteq>\<^sub>m map_of (log_of K db' d) \<and>
     ((\<forall>u. \<exists>st. receipt_of K db u d = Inr st) \<longrightarrow> (\<forall>u. \<exists>st. receipt_of K db' u d = Inr st))"

lemma keeps_refl: "db_inv K db \<Longrightarrow> keeps K d db db"
  by (simp add: keeps_def)

lemma keeps_trans: "keeps K d db db' \<Longrightarrow> keeps K d db' db'' \<Longrightarrow> keeps K d db db''"
  unfolding keeps_def using map_le_trans by blast

lemma push_keeps:
  assumes ok: "crypto_ok (crypto E)" and inv: "db_inv (kv E) db" and u: "utf8_valid (psh_sender req)" and d: "did_ok d"
  shows "keeps (kv E) d db (fst (snd (do_push E cfg now db req)))"
proof (cases "fst (snd (do_push E cfg now db req)) = db")
  case False
  then obtain payload where a: "authorised_push (crypto E) cfg req payload"
    using do_push_refused [of E cfg req now db] by fastforce
  then obtain db' where store: "store_packet (kv E) now db (psh_sender req) (push_did E req) (psh_seq req) payload = Inr db'"
    and db': "fst (snd (do_push E cfg now db req)) = db'"
    using do_push_authorised [OF a, of now db] False by (auto split: sum.splits)
  note facts = stored_packet [OF inv dialogue_id_ok [OF ok] u store]
  have "map_of (log_of (kv E) db d) \<subseteq>\<^sub>m map_of (log_of (kv E) db' d)"
    using facts(1) facts(3) [OF d] map_of_om_insert [OF log_of_ok [OF inv d]] by (auto simp: map_le_def)
  moreover have "\<exists>st. receipt_of (kv E) db' u' d = Inr st" if "\<forall>u. \<exists>st. receipt_of (kv E) db u d = Inr st" for u'
    using that facts(4) [OF d] by blast
  ultimately show ?thesis using facts(2) by (simp add: keeps_def db')
qed (use inv keeps_refl in simp)

lemma update_keeps:
  assumes inv: "db_inv K db" and u: "utf8_valid u" and d': "did_ok d'" and run: "update_last_seq K now db u d' s = Inr db'" and d: "did_ok d"
  shows "keeps K d db db'"
proof -
  obtain st where "receipt_of K db u d' = Inr st"
    using run by (cases "receipt_of K db u d'") (simp_all add: update_last_seq_def lookup_receipt_spec [OF inv])
  from update_last_seq_spec [OF inv u did_utf8 [OF d'] this, of now s] run
  have spec: "db_inv K db'" "\<forall>d. did_ok d \<longrightarrow> log_of K db' d = log_of K db d" "\<exists>st. receipt_of K db' u d' = Inr st"
    "\<forall>u' d. make_receipt_key u' d \<noteq> make_receipt_key u d' \<longrightarrow> receipt_of K db' u' d = receipt_of K db u' d" by auto
  have "\<exists>st. receipt_of K db' u' d = Inr st" if "\<forall>u. \<exists>st. receipt_of K db u d = Inr st" for u'
  proof (cases "make_receipt_key u' d = make_receipt_key u d'")
    case True
    then have "receipt_of K db' u' d = receipt_of K db' u d'" by (simp add: receipt_of_def)
    with spec(3) show ?thesis by simp
  qed (use spec(4) that in simp)
  with spec(1,2) d show ?thesis by (simp add: keeps_def)
qed

lemma pull_keeps:
  assumes ok: "crypto_ok (crypto E)" and inv: "db_inv (kv E) db" and u: "utf8_valid (rq_sender req)" "utf8_valid (rq_recver req)" and d: "did_ok d"
  shows "keeps (kv E) d db (snd (do_pull E cfg now db req))"
proof (cases "snd (do_pull E cfg now db req) = db")
  case False
  obtain r db' where run: "do_pull E cfg now db req = (r, db')" by fastforce
  have "pl_success r"
    using run False by (auto simp: do_pull_def pull_fail_def Let_def split: sum.splits option.splits if_splits prod.splits)
  note auth = do_pull_success [OF run this]
  obtain who where who: "who \<in> {rq_sender req, rq_recver req}" and fetch: "do_pull E cfg now db req =
    (case fetch_packets E now db who (range_did E req) (rq_from req) (rq_to req) of
       Inl e \<Rightarrow> (pull_fail e, db)
     | Inr (ps, db') \<Rightarrow> (\<lparr>pl_success = True, packets = ps, pl_message = []\<rparr>, db'))"
    using do_pull_authorised [OF auth, of now db] by blast
  then obtain ps where "fetch_packets E now db who (range_did E req) (rq_from req) (rq_to req) = Inr (ps, db')"
    using run False by (auto split: sum.splits)
  then obtain s where "update_last_seq (kv E) now db who (range_did E req) s = Inr db'"
    using run False by (auto simp: fetch_packets_def try_then_Inr_iff split: if_splits)
  moreover have "utf8_valid who" using who u by auto
  ultimately show ?thesis using update_keeps [OF inv _ dialogue_id_ok [OF ok] _ d] run by simp
qed (use inv keeps_refl in simp)

lemma events_keep:
  assumes ok: "crypto_ok (crypto E)" and d: "did_ok d"
  shows "db_inv (kv E) db \<Longrightarrow> list_all (\<lambda>ev. list_all utf8_valid (event_names ev)) events \<Longrightarrow>
    keeps (kv E) d db (foldl (handle_event E) db events)"
proof (induction events arbitrary: db)
  case (Cons ev events)
  have one: "keeps (kv E) d db (handle_event E db ev)"
    using Cons.prems push_keeps [OF ok _ _ d] pull_keeps [OF ok _ _ _ d] by (cases ev) simp_all
  then have "db_inv (kv E) (handle_event E db ev)" by (simp add: keeps_def)
  with Cons have "keeps (kv E) d (handle_event E db ev) (foldl (handle_event E) (handle_event E db ev) events)" by simp
  from keeps_trans [OF one this] show ?case by simp
qed (simp add: keeps_refl)

text \<open>
  C12. End to end: an accepted push puts its packet into the dialogue, and after any number of further
  pushes and pulls, by these or other users, a pull of the dialogue that either of the two signs returns
  exactly the packets of its window. The pushed one is among them when its number is in the window,
  with its payload in the transport encoding, from which the receiver decodes the bytes that were
  pushed. In between there is no \<open>determinate\<close> and no \<open>prune\<close>, which delete packets, and the requests
  are handled one after the other.
\<close>

theorem message_delivered:
  assumes ok: "crypto_ok (crypto E)" and inv: "db_inv (kv E) db"
    and u: "utf8_valid (psh_sender req)" "utf8_valid (rq_sender pr)" "utf8_valid (rq_recver pr)"
    and pushed: "do_push E cfg now db req = (resp, db1, woken)" "success resp"
    and between: "list_all (\<lambda>ev. list_all utf8_valid (event_names ev)) events" "db2 = foldl (handle_event E) db1 events"
    and pair: "{rq_sender pr, rq_recver pr} = {psh_sender req, psh_recver req}"
    and auth: "authorised_range (crypto E) cfg' pr"
    and window: "rq_from pr < psh_seq req" "psh_seq req \<le> rq_to pr"
    and st: "\<forall>u. \<exists>st. receipt_of (kv E) db u (push_did E req) = Inr st"
  shows "\<exists>payload db3. decode_b64 (crypto E) (psh_payload req) = Inr payload \<and>
    log_of (kv E) db1 (push_did E req) = om_insert (psh_seq req) payload (log_of (kv E) db (push_did E req)) \<and>
    map_of (log_of (kv E) db1 (push_did E req)) \<subseteq>\<^sub>m map_of (log_of (kv E) db2 (push_did E req)) \<and>
    do_pull E cfg' now' db2 pr = (\<lparr>pl_success = True, packets = map (\<lambda>(s, v). (s, encode_b64 (crypto E) v))
      (requested pr (log_of (kv E) db2 (push_did E req))), pl_message = []\<rparr>, db3) \<and>
    (psh_seq req, payload) \<in> set (requested pr (log_of (kv E) db2 (push_did E req))) \<and>
    decode_b64 (crypto E) (encode_b64 (crypto E) payload) = Inr payload"
proof -
  note didok = dialogue_id_ok [OF ok, of "psh_sender req" "psh_recver req"]
  obtain payload where a: "authorised_push (crypto E) cfg req payload"
    using do_push_refused [of E cfg req now db] pushed by fastforce
  have store: "store_packet (kv E) now db (psh_sender req) (push_did E req) (psh_seq req) payload = Inr db1"
    using do_push_authorised [OF a, of now db] pushed by (auto split: sum.splits)
  note facts = stored_packet [OF inv didok u(1) store]
  have log: "log_of (kv E) db1 (push_did E req) = om_insert (psh_seq req) payload (log_of (kv E) db (push_did E req))"
    using facts(3) [OF didok] by simp
  have "keeps (kv E) (push_did E req) db1 db2" using events_keep [OF ok didok facts(2) between(1)] between(2) by simp
  then have inv2: "db_inv (kv E) db2" and sub: "map_of (log_of (kv E) db1 (push_did E req)) \<subseteq>\<^sub>m map_of (log_of (kv E) db2 (push_did E req))"
    and rec: "\<exists>st. receipt_of (kv E) db2 u (push_did E req) = Inr st" for u
    using st facts(4) [OF didok] unfolding keeps_def by blast+
  have "map_of (log_of (kv E) db1 (push_did E req)) (psh_seq req) = Some payload"
    by (simp add: log map_of_om_insert [OF log_of_ok [OF inv didok]])
  then have "map_of (log_of (kv E) db2 (push_did E req)) (psh_seq req) = Some payload" using sub by (metis domI map_le_def)
  then have there: "(psh_seq req, payload) \<in> set (requested pr (log_of (kv E) db2 (push_did E req)))"
    using window by (simp add: map_of_SomeD)
  have did: "range_did E pr = push_did E req"
    using pair make_dialogue_id_sym [of "crypto E"] by (auto simp: doubleton_eq_iff)
  have "rq_from pr < rq_to pr" using window by (rule less_le_trans)
  from do_pull_exact [OF ok inv2 u(2,3) auth this, unfolded did, OF rec, of now'] obtain db3 where
    "do_pull E cfg' now' db2 pr = (\<lparr>pl_success = True, packets = map (\<lambda>(s, v). (s, encode_b64 (crypto E) v))
      (requested pr (log_of (kv E) db2 (push_did E req))), pl_message = []\<rparr>, db3)" by blast
  moreover have "decode_b64 (crypto E) (psh_payload req) = Inr payload" using a by (auto simp: authorised_push_def)
  moreover have "decode_b64 (crypto E) (encode_b64 (crypto E) payload) = Inr payload"
    using ok by (simp add: crypto_ok_def decode_b64_def encode_b64_def)
  ultimately show ?thesis using log sub there by blast
qed

definition demo_range :: "string \<Rightarrow> u64 \<Rightarrow> u64 \<Rightarrow> range_request" where
  "demo_range key a t = \<lparr>rq_sender = ''bob'', rq_recver = ''alice'', rq_from = a, rq_to = t,
     rq_sig = demo_sig key (''bob'' @ ''alice'' @ show_nat (unat a) @ show_nat (unat t))\<rparr>"

lemma demo_range_simps [simp]:
  "rq_sender (demo_range k a t) = ''bob''" "rq_recver (demo_range k a t) = ''alice''"
  "rq_from (demo_range k a t) = a" "rq_to (demo_range k a t) = t"
  by (simp_all add: demo_range_def)

lemma demo_range_authorised [simp]: "authorised_range demo_crypto demo_config (demo_range bob_key a t)"
  by (simp add: authorised_range_def pair_keys_def signed_by_either_def range_msg_def demo_range_def del: append.simps)

lemma utf8_bob [simp]: "utf8_valid ''bob''"
  by (simp add: utf8_valid_def)

lemma demo_store_empty [simp]: "receipt_of demo_store [] u d = Inr default_receipt_state"
  by (simp add: receipt_of_def)

lemma demo_push_run:
  obtains db1 where "do_push demo_env demo_config 5 [] (demo_push ''bob'' alice_key 1 ''hi'') =
    (api_ok ''OK'', db1, Some (make_dialogue_id demo_crypto ''alice'' ''bob''))"
proof -
  obtain db1 where db1: "store_packet demo_store 5 [] ''alice'' (make_dialogue_id demo_crypto ''alice'' ''bob'') 1 (as_bytes ''hi'') = Inr db1"
    using store_packet_spec [of demo_store "[]" "make_dialogue_id demo_crypto ''alice'' ''bob''" "''alice''" 1 5 "as_bytes ''hi''"]
      dialogue_id_ok [OF demo_crypto_ok, of "''alice''" "''bob''"] by auto
  have "do_push demo_env demo_config 5 [] (demo_push ''bob'' alice_key 1 ''hi'') =
      (api_ok ''OK'', db1, Some (make_dialogue_id demo_crypto ''alice'' ''bob''))"
    using do_push_authorised [of demo_env demo_config "demo_push ''bob'' alice_key 1 ''hi''" "as_bytes ''hi''" 5 "[]"] db1
    by simp
  then show thesis by (rule that)
qed

lemma message_delivered_run:
  assumes "do_push demo_env demo_config 5 [] (demo_push ''bob'' alice_key 1 ''hi'') =
      (api_ok ''OK'', db1, Some (make_dialogue_id demo_crypto ''alice'' ''bob''))"
  obtains db2 where "do_pull demo_env demo_config 6 db1 (demo_range bob_key 0 9) =
      (\<lparr>pl_success = True, packets = [(1, ''hi'')], pl_message = []\<rparr>, db2)"
proof -
  note did = dialogue_id_ok [OF demo_crypto_ok, of "''alice''" "''bob''"]
  have "store_packet demo_store 5 [] ''alice'' (make_dialogue_id demo_crypto ''alice'' ''bob'') 1 (as_bytes ''hi'') = Inr db1"
    using do_push_authorised [of demo_env demo_config "demo_push ''bob'' alice_key 1 ''hi''" "as_bytes ''hi''" 5 "[]"] assms
    by (auto split: sum.splits)
  note facts = stored_packet [OF _ did utf8_alice this]
  have "make_dialogue_id demo_crypto ''bob'' ''alice'' = make_dialogue_id demo_crypto ''alice'' ''bob''" by (rule make_dialogue_id_sym)
  with do_pull_exact [of demo_env db1 "demo_range bob_key 0 9" demo_config 6] facts that did show thesis by auto
qed

definition demo_events :: "packet_event list" where
  "demo_events = [Push_Event demo_config 5 (demo_push ''bob'' alice_key 2 ''yo''), Pull_Event demo_config 6 (demo_range bob_key 0 9)]"

theorem message_delivered_witness:
  "\<exists>db1 r db3. do_push demo_env demo_config 5 [] (demo_push ''bob'' alice_key 1 ''hi'') =
      (api_ok ''OK'', db1, Some (make_dialogue_id demo_crypto ''alice'' ''bob'')) \<and>
    do_pull demo_env demo_config 6 (foldl (handle_event demo_env) db1 demo_events) (demo_range bob_key 0 9) = (r, db3) \<and>
    pl_success r \<and> (1, ''hi'') \<in> set (packets r)"
proof -
  obtain db1 where run: "do_push demo_env demo_config 5 [] (demo_push ''bob'' alice_key 1 ''hi'') =
      (api_ok ''OK'', db1, Some (make_dialogue_id demo_crypto ''alice'' ''bob''))" by (rule demo_push_run)
  have names: "list_all (\<lambda>ev. list_all utf8_valid (event_names ev)) demo_events" by (simp add: demo_events_def)
  obtain payload db3 where pull: "decode_b64 demo_crypto ''hi'' = Inr payload"
      "do_pull demo_env demo_config 6 (foldl (handle_event demo_env) db1 demo_events) (demo_range bob_key 0 9) =
        (\<lparr>pl_success = True, packets = map (\<lambda>(s, v). (s, encode_b64 demo_crypto v))
          (requested (demo_range bob_key 0 9) (log_of demo_store (foldl (handle_event demo_env) db1 demo_events)
            (make_dialogue_id demo_crypto ''alice'' ''bob''))), pl_message = []\<rparr>, db3)"
      "(1, payload) \<in> set (requested (demo_range bob_key 0 9) (log_of demo_store (foldl (handle_event demo_env) db1 demo_events)
            (make_dialogue_id demo_crypto ''alice'' ''bob'')))"
    using message_delivered [of demo_env "[]" "demo_push ''bob'' alice_key 1 ''hi''" "demo_range bob_key 0 9" demo_config 5
        "api_ok ''OK''" db1 "Some (make_dialogue_id demo_crypto ''alice'' ''bob'')" demo_events _ demo_config 6] run names
    by (auto simp: insert_commute)
  have "(1, encode_b64 demo_crypto payload) \<in> (\<lambda>(s, v). (s, encode_b64 demo_crypto v)) ` set (requested (demo_range bob_key 0 9)
      (log_of demo_store (foldl (handle_event demo_env) db1 demo_events) (make_dialogue_id demo_crypto ''alice'' ''bob'')))"
    using pull(3) by force
  moreover have "payload = as_bytes ''hi''" using pull(1) by simp
  ultimately have "(1, ''hi'') \<in> (\<lambda>(s, v). (s, encode_b64 demo_crypto v)) ` set (requested (demo_range bob_key 0 9)
      (log_of demo_store (foldl (handle_event demo_env) db1 demo_events) (make_dialogue_id demo_crypto ''alice'' ''bob'')))" by simp
  with run pull(2) show ?thesis by simp
qed

section \<open>The signatures of ranges\<close>

text \<open>
  C38. The signed string of pull, map and determinate is the same concatenation, without the name of
  the operation: whoever has seen one accepted pull can send it again to determinate, which
  deletes the packets of the window, lower end included.
\<close>

theorem pull_signature_deletes:
  assumes ok: "crypto_ok (crypto E)" and inv: "db_inv (kv E) db'"
    and pulled: "do_pull E cfg now db req = (r, db')" "pl_success r"
  shows "\<exists>db''. do_determinate E cfg db' req = (api_ok ''OK'', db'') \<and>
    (\<forall>s. max (rq_from req) 1 \<le> s \<longrightarrow> s \<le> rq_to req \<longrightarrow> map_of (log_of (kv E) db'' (range_did E req)) s = None)"
proof -
  note auth = do_pull_success [OF pulled]
  have "rq_to req \<noteq> 0" "\<not> (rq_from req \<noteq> 0 \<and> rq_from req > rq_to req)" using auth(2) by auto
  then have run: "do_determinate E cfg db' req =
      (case remove_range (kv E) db' (range_did E req) (rq_from req) (rq_to req) of
         Inl e \<Rightarrow> (api_fail e, db') | Inr db'' \<Rightarrow> (api_ok ''OK'', db''))"
    using auth(1) by (auto simp: authorised_range_def do_determinate_def Let_def)
  note did = dialogue_id_ok [OF ok, of "rq_sender req" "rq_recver req"]
  obtain db'' where "remove_range (kv E) db' (range_did E req) (rq_from req) (rq_to req) = Inr db''"
    "\<forall>d s. did_ok d \<longrightarrow> map_of (log_of (kv E) db'' d) s =
      (if d = range_did E req \<and> max (rq_from req) 1 \<le> s \<and> s \<le> rq_to req then None else map_of (log_of (kv E) db' d) s)"
    using remove_range_exact [OF inv did less_imp_le [OF auth(2)]] by blast
  with run did show ?thesis by auto
qed

theorem pull_signature_deletes_witness:
  "\<exists>r db' db''. do_pull demo_env demo_config 6 [] (demo_range bob_key 0 9) = (r, db') \<and>
    do_determinate demo_env demo_config db' (demo_range bob_key 0 9) = (api_ok ''OK'', db'')"
proof -
  obtain r db' where run: "do_pull demo_env demo_config 6 [] (demo_range bob_key 0 9) = (r, db')" and ok: "pl_success r" "keys_ok db'"
    using do_pull_exact [of demo_env "[]" "demo_range bob_key 0 9" demo_config 6] by auto
  from pull_signature_deletes [OF _ _ run ok(1)] ok(2) run show ?thesis by auto
qed

text \<open>
  The fields of a signed push are concatenated without separators: a push that was signed for the
  receiver \<open>r @ show_nat k\<close> and number \<open>n\<close> is also accepted, with the same signature, as a push to
  the receiver \<open>r\<close> with the number whose digits are those of \<open>k\<close> and \<open>n\<close> together.
\<close>

lemma push_signature_ambiguous:
  assumes "authorised_push (crypto E) cfg req payload"
    and "psh_recver req = r @ show_nat k" and "show_nat k @ show_nat (unat (psh_seq req)) = show_nat (unat n)"
    and "users cfg r \<noteq> None"
  shows "authorised_push (crypto E) cfg (req\<lparr>psh_recver := r, psh_seq := n\<rparr>) payload"
proof -
  have "push_msg (req\<lparr>psh_recver := r, psh_seq := n\<rparr>) = push_msg req"
    by (simp add: push_msg_def assms(2) assms(3) [symmetric])
  with assms(1,4) show ?thesis by (auto simp: authorised_push_def)
qed

lemma push_signature_ambiguous_example:
  "authorised_push demo_crypto demo_config ((demo_push ''bob1'' alice_key 2 ''hi'')\<lparr>psh_recver := ''bob'', psh_seq := 12\<rparr>) (as_bytes ''hi'')"
proof -
  have "authorised_push demo_crypto demo_config (demo_push ''bob1'' alice_key 2 ''hi'') (as_bytes ''hi'')"
    by (simp add: authorised_push_def push_msg_def demo_push_def del: append.simps)
  moreover have "show_nat 1 @ show_nat 2 = show_nat 12" "''bob1'' = ''bob'' @ show_nat 1"
    by (simp_all add: show_nat.simps digit_def of_char_eq_iff [symmetric, where ?'a = nat])
  ultimately show ?thesis
    using push_signature_ambiguous [of demo_env demo_config "demo_push ''bob1'' alice_key 2 ''hi''" "as_bytes ''hi''" "''bob''" 1 12]
    by simp
qed

section \<open>notify\<close>

definition authorised_notify :: "crypto_env \<Rightarrow> server_config \<Rightarrow> notify_request \<Rightarrow> bool" where
  "authorised_notify C cfg req \<longleftrightarrow> (\<exists>sig key. decode_b64 C (nt_sig req) = Inr sig \<and> users cfg (nt_partner req) \<noteq> None \<and>
     user_pubkey_bytes C cfg (nt_sender req) = Some key \<and> signed_by C key (notify_msg req) sig)"

abbreviation notify_count :: "'db server_env \<Rightarrow> 'db \<Rightarrow> notify_request \<Rightarrow> u64 res" where
  "notify_count E db req \<equiv> count_new_for_user (kv E) db (make_dialogue_id (crypto E) (nt_sender req) (nt_partner req))
     (nt_seq req) (nt_sender req)"

lemma do_notify_authorised:
  "authorised_notify (crypto E) cfg req \<Longrightarrow> notify_count E db0 req = Inr n0 \<Longrightarrow> do_notify E cfg db0 db1 db2 req =
    (if n0 > 0 then (notify_ok n0, 1)
     else if min (nt_long_poll_ms req) (notify_long_poll_max_ms cfg) = 0 then (notify_ok 0, 1)
     else case notify_count E db1 req of Inl e \<Rightarrow> (notify_fail e, 2)
       | Inr n1 \<Rightarrow> if n1 > 0 then (notify_ok n1, 2)
         else case notify_count E db2 req of Inl e \<Rightarrow> (notify_fail e, 3) | Inr n2 \<Rightarrow> (notify_ok n2, 3))"
  by (auto simp: authorised_notify_def do_notify_def Let_def split: sum.splits)

lemma unat_pos: "unat n = length (filter P L) \<Longrightarrow> x \<in> set L \<Longrightarrow> P x \<Longrightarrow> (0 :: u64) < n"
  by (metis filter_empty_conv length_0_conv unat_eq_zero word_gt_0)

text \<open>
  Once a push is stored, the partner is notified and the sender is not: a notify request of the
  partner whose cursor and read mark are below the number answers at once with a positive count,
  while a request of the sender, with receipts on and nothing stored above the number, counts
  nothing, at any cursor.
\<close>

lemma push_notifies_partner:
  assumes ok: "crypto_ok (crypto E)" and inv: "db_inv (kv E) db" and u: "utf8_valid (psh_sender req)"
    and pushed: "do_push E cfg now db req = (resp, db1, woken)" "success resp"
    and ne: "psh_sender req \<noteq> psh_recver req"
    and partner: "authorised_notify (crypto E) cfg' nr" "nt_sender nr = psh_recver req" "nt_partner nr = psh_sender req"
      "receipt_of (kv E) db (psh_recver req) (push_did E req) = Inr st" "max (nt_seq nr) (last_seq_seen st) < psh_seq req"
    and own: "receipt_of (kv E) db (psh_sender req) (push_did E req) = Inr st'" "receipts_enabled st'"
      "list_all (\<lambda>p. fst p \<le> psh_seq req) (log_of (kv E) db (push_did E req))"
  shows "woken = Some (push_did E req) \<and> (\<exists>n. 0 < n \<and> do_notify E cfg' db1 db2 db3 nr = (notify_ok n, 1)) \<and>
    count_new_for_user (kv E) db1 (push_did E req) c (psh_sender req) = Inr 0"
proof -
  obtain payload where a: "authorised_push (crypto E) cfg req payload"
    using do_push_refused [of E cfg req now db] pushed by fastforce
  note did = dialogue_id_ok [OF ok, of "psh_sender req" "psh_recver req"]
  have store: "store_packet (kv E) now db (psh_sender req) (push_did E req) (psh_seq req) payload = Inr db1"
    and woken: "woken = Some (push_did E req)"
    using do_push_authorised [OF a, of now db] pushed by (auto split: sum.splits)
  note facts = stored_packet [OF inv did u store]
  let ?L = "om_insert (psh_seq req) payload (log_of (kv E) db (push_did E req))"
  note log = facts(3) [OF did, unfolded if_P [OF refl]]
  have st1: "receipt_of (kv E) db1 (psh_recver req) (push_did E req) = Inr st"
    using facts(4) [OF did partner(4)] ne by simp
  have st1': "receipt_of (kv E) db1 (psh_sender req) (push_did E req) = Inr (receipt_step now (Pulled (psh_seq req)) st')"
    using facts(4) [OF did own(1)] by simp
  have nid: "make_dialogue_id (crypto E) (nt_sender nr) (nt_partner nr) = push_did E req"
    by (simp add: partner make_dialogue_id_sym [of _ "psh_recver req"])
  obtain n where n: "notify_count E db1 nr = Inr n"
    "unat n = length (filter (\<lambda>p. max (nt_seq nr) (last_seq_seen st) < fst p) ?L)"
    using count_new_exact [OF facts(2) did st1, of "nt_seq nr"] unfolding nid log by (auto simp: partner(2))
  have in_log: "(psh_seq req, payload) \<in> set ?L"
    using log_of_ok [OF inv did] by (metis fun_upd_same map_of_SomeD map_of_om_insert)
  have pos: "0 < n" by (rule unat_pos [OF n(2) in_log]) (use partner(5) in simp)
  obtain m where m: "count_new_for_user (kv E) db1 (push_did E req) c (psh_sender req) = Inr m"
    "unat m = length (filter (\<lambda>p. max c (max (last_seq_seen st') (psh_seq req)) < fst p) ?L)"
    using count_new_exact [OF facts(2) did st1', of c] own(2) unfolding log by auto
  have "fst p \<le> psh_seq req" if "p \<in> set ?L" for p
  proof -
    have "fst p \<in> insert (psh_seq req) (fst ` set (log_of (kv E) db (push_did E req)))"
      using imageI [OF that, of fst] unfolding set_om_insert .
    with own(3) show ?thesis by (auto simp: list_all_iff)
  qed
  then have "filter (\<lambda>p. max c (max (last_seq_seen st') (psh_seq req)) < fst p) ?L = []"
    by (auto simp: filter_empty_conv dest: leD)
  with m have "m = 0" by (simp add: unat_eq_zero)
  with woken pos m(1) do_notify_authorised [OF partner(1) n(1)] show ?thesis by auto
qed

definition demo_notify :: "u64 \<Rightarrow> notify_request" where
  "demo_notify s = \<lparr>nt_sender = ''bob'', nt_partner = ''alice'', nt_seq = s,
     nt_sig = demo_sig bob_key (''bob'' @ ''alice'' @ show_nat (unat s)), nt_long_poll_ms = 0, nt_items = []\<rparr>"

lemma demo_notify_authorised: "authorised_notify demo_crypto demo_config (demo_notify s)"
  by (simp add: authorised_notify_def notify_msg_def demo_notify_def del: append.simps)

lemma push_notifies_partner_example:
  "\<exists>db1 n. do_push demo_env demo_config 5 [] (demo_push ''bob'' alice_key 1 ''hi'') =
      (api_ok ''OK'', db1, Some (make_dialogue_id demo_crypto ''alice'' ''bob'')) \<and>
    0 < n \<and> do_notify demo_env demo_config db1 db1 db1 (demo_notify 0) = (notify_ok n, 1)"
proof -
  obtain db1 where run: "do_push demo_env demo_config 5 [] (demo_push ''bob'' alice_key 1 ''hi'') =
      (api_ok ''OK'', db1, Some (make_dialogue_id demo_crypto ''alice'' ''bob''))"
    by (rule demo_push_run)
  show ?thesis
    using push_notifies_partner [of demo_env "[]" "demo_push ''bob'' alice_key 1 ''hi''" demo_config 5 "api_ok ''OK''" db1
        "Some (make_dialogue_id demo_crypto ''alice'' ''bob'')" demo_config "demo_notify 0" default_receipt_state
        default_receipt_state db1 db1 0] run demo_notify_authorised [of 0]
    by (auto simp: demo_notify_def default_receipt_state_def)
qed

end
