(* ===== verification/Blob_Routes.thy ===== *)
theory Blob_Routes
  imports Demo_Server Guards
begin

text \<open>
  The endpoint of ephemeral files (\<open>routes/blob.rs\<close>): the bounded memory of nonces, the canonical
  strings, and the three operations behind one path.
\<close>

section \<open>Nonces\<close>

record nonce_guard =
  seen :: "string set"
  order :: "string list"
  nonce_cap :: nat

definition new_guard :: "nat \<Rightarrow> nonce_guard" where
  "new_guard c = \<lparr>seen = {}, order = [], nonce_cap = c\<rparr>"

fun evict :: "nat \<Rightarrow> string set \<Rightarrow> string list \<Rightarrow> string set \<times> string list" where
  "evict c s [] = (s, [])"
| "evict c s (old # q) = (if length (old # q) \<ge> c then evict c (s - {old}) q else (s, old # q))"

definition insert_fresh :: "nonce_guard \<Rightarrow> string \<Rightarrow> bool \<times> nonce_guard" where
  "insert_fresh g nonce =
     (if nonce = [] \<or> nonce \<in> seen g then (False, g)
      else let (s, q) = evict (nonce_cap g) (seen g) (order g)
           in (True, g\<lparr>seen := insert nonce s, order := q @ [nonce]\<rparr>))"

section \<open>Requests\<close>

record blob_request =
  bl_op :: string
  bl_user :: string
  bl_nonce :: string
  bl_sig :: string
  bl_peer :: string
  bl_file_id :: string
  bl_chunk_index :: u32
  bl_total_chunks :: u32
  bl_total_size :: u64
  bl_payload :: string

datatype blob_response =
  Blob_Error string
| Blob_Limits u64 u64 u64
| Blob_Stored
| Blob_Chunk string
| Blob_Expired

fun join :: "string list \<Rightarrow> string" where
  "join [] = []"
| "join [f] = f"
| "join (f # fs) = f @ ''|'' @ join fs"

definition canonical :: "blob_request \<Rightarrow> string option" where
  "canonical req =
     (if bl_op req = ''info'' then Some (join [''blob.info'', bl_user req, bl_nonce req])
      else if bl_op req = ''put'' then Some (join [''blob.put'', bl_user req, bl_peer req, bl_file_id req,
        show_nat (unat (bl_chunk_index req)), show_nat (unat (bl_total_chunks req)), show_nat (unat (bl_total_size req)),
        bl_nonce req, bl_payload req])
      else if bl_op req = ''get'' then Some (join [''blob.get'', bl_user req, bl_peer req, bl_file_id req,
        show_nat (unat (bl_chunk_index req)), bl_nonce req])
      else None)"

section \<open>The handler\<close>

definition blob_put :: "'db server_env \<Rightarrow> server_config \<Rightarrow> u64 \<Rightarrow> 'db \<Rightarrow> blob_request \<Rightarrow> blob_response \<times> 'db" where
  "blob_put E cfg now db req =
     (if bl_total_size req > large_file_max cfg then (Blob_Error ''file too large'', db)
      else if bl_file_id req = [] \<or> bl_peer req = [] then (Blob_Error ''bad request'', db)
      else case decode_b64 (crypto E) (bl_payload req) of Inl _ \<Rightarrow> (Blob_Error ''bad payload encoding'', db)
      | Inr data \<Rightarrow>
      case ephemeral_put_chunk (kv E) now db (make_dialogue_id (crypto E) (bl_user req) (bl_peer req)) (bl_file_id req)
          (bl_chunk_index req) (bl_total_chunks req) (bl_total_size req) data (ephemeral_retention_secs cfg) of
        Inl e \<Rightarrow> (Blob_Error (''store error: '' @ e), db)
      | Inr db' \<Rightarrow> (Blob_Stored, db'))"

definition blob_get :: "'db server_env \<Rightarrow> u64 \<Rightarrow> 'db \<Rightarrow> blob_request \<Rightarrow> blob_response" where
  "blob_get E now db req =
     (if bl_file_id req = [] \<or> bl_peer req = [] then Blob_Error ''bad request''
      else case ephemeral_get_chunk (kv E) now db (make_dialogue_id (crypto E) (bl_user req) (bl_peer req)) (bl_file_id req)
          (bl_chunk_index req) of
        Inl e \<Rightarrow> Blob_Error (''store error: '' @ e)
      | Inr (Some data) \<Rightarrow> Blob_Chunk (encode_b64 (crypto E) data)
      | Inr None \<Rightarrow> Blob_Expired)"

definition do_blob :: "'db server_env \<Rightarrow> server_config \<Rightarrow> u64 \<Rightarrow> nonce_guard \<Rightarrow> 'db \<Rightarrow> blob_request \<Rightarrow>
    blob_response \<times> nonce_guard \<times> 'db" where
  "do_blob E cfg now g db req =
     (let C = crypto E; err = (\<lambda>msg. (Blob_Error msg, g, db)) in
      case user_pubkey_bytes C cfg (bl_user req) of None \<Rightarrow> err ''user not registered''
      | Some pubkey \<Rightarrow>
      case canonical req of None \<Rightarrow> err ''unknown op''
      | Some canon \<Rightarrow>
      case decode_b64 C (bl_sig req) of Inl _ \<Rightarrow> err ''bad sig encoding''
      | Inr sig \<Rightarrow>
      case verify_signature C pubkey (as_bytes canon) sig of Inl _ \<Rightarrow> err ''invalid signature''
      | Inr _ \<Rightarrow>
      case insert_fresh g (bl_nonce req) of (fresh, g') \<Rightarrow>
      if \<not> fresh then (Blob_Error ''replay'', g', db)
      else if bl_op req = ''info'' then
        (Blob_Limits (max_history_file_size cfg) (large_file_max cfg) (ephemeral_retention_secs cfg), g', db)
      else if bl_op req = ''put'' then (case blob_put E cfg now db req of (r, db') \<Rightarrow> (r, g', db'))
      else if bl_op req = ''get'' then (blob_get E now db req, g', db)
      else (Blob_Error ''unknown op'', g', db))"

section \<open>The memory of nonces\<close>

definition guard_ok :: "nonce_guard \<Rightarrow> bool" where
  "guard_ok g \<longleftrightarrow> distinct (order g) \<and> seen g = set (order g) \<and> [] \<notin> set (order g) \<and> length (order g) \<le> nonce_cap g \<and> 0 < nonce_cap g"

lemma evict_eq: "distinct q \<Longrightarrow> 0 < c \<Longrightarrow> length q \<le> c \<Longrightarrow>
    evict c (set q) q = (if length q = c then (set (tl q), tl q) else (set q, q))"
proof (cases q)
  case (Cons a q')
  assume "distinct q" "0 < c" "length q \<le> c"
  then show ?thesis by (cases q') (auto simp: Cons)
qed simp

lemma insert_fresh_eq:
  "guard_ok g \<Longrightarrow> insert_fresh g n = (if n = [] \<or> n \<in> set (order g) then (False, g)
     else let q = (if length (order g) = nonce_cap g then tl (order g) else order g) @ [n]
          in (True, g\<lparr>seen := set q, order := q\<rparr>))"
  by (auto simp: insert_fresh_def guard_ok_def evict_eq Let_def)

lemma insert_fresh_ok: "guard_ok g \<Longrightarrow> guard_ok (snd (insert_fresh g n))"
proof -
  assume g: "guard_ok g"
  then have "order g \<noteq> []" if "length (order g) = nonce_cap g" using that by (auto simp: guard_ok_def)
  with g show ?thesis
    by (auto simp: insert_fresh_eq [OF g] guard_ok_def Let_def distinct_tl dest: set_tl)
qed

text \<open>The guard remembers the last accepted nonces, as many as its capacity.\<close>

lemma guard_history:
  assumes "0 < c"
  shows "guard_ok (snd (guard_run insert_fresh (new_guard c) ns)) \<and> nonce_cap (snd (guard_run insert_fresh (new_guard c) ns)) = c \<and>
    order (snd (guard_run insert_fresh (new_guard c) ns)) = latest c (accepted insert_fresh (new_guard c) ns)"
proof (induction ns rule: rev_induct)
  case Nil
  then show ?case using assms by (simp add: new_guard_def guard_ok_def latest_def)
next
  case (snoc n ns)
  obtain acc g where run: "guard_run insert_fresh (new_guard c) ns = (acc, g)" by fastforce
  with snoc have g: "guard_ok g" "nonce_cap g = c" "order g = latest c acc" by auto
  show ?case
    using insert_fresh_ok [OF g(1), of n] g latest_snoc [OF assms, of acc n]
    by (auto simp: guard_run_snoc run insert_fresh_eq [OF g(1)] Let_def split: prod.splits)
qed

text \<open>
  The nonce memory of the file endpoint is exactly a window over the accepted nonces: after any
  sequence of requests a nonce is accepted if and only if it is not empty and not among the last
  \<open>c\<close> accepted ones, where \<open>c\<close> is the capacity.
\<close>

lemma nonce_window_exact:
  assumes "0 < c"
  shows "fst (insert_fresh (snd (guard_run insert_fresh (new_guard c) ns)) n) \<longleftrightarrow>
    n \<noteq> [] \<and> n \<notin> set (latest c (accepted insert_fresh (new_guard c) ns))"
  using guard_history [OF assms, of ns]
  by (simp add: insert_fresh_eq Let_def)

lemma nonce_window_exact_example:
  "fst (insert_fresh (snd (guard_run insert_fresh (new_guard 2) [''a'', ''b'', ''a'', ''c''])) ''a'')"
  by (subst nonce_window_exact) (simp_all add: insert_fresh_def new_guard_def latest_def)

section \<open>A chunk from one user to the other\<close>

lemma do_blob_put:
  assumes "do_blob E cfg now g db req = (Blob_Stored, g', db')" and "bl_op req = ''put''"
  shows "blob_put E cfg now db req = (Blob_Stored, db')" and "bl_nonce req \<notin> seen g"
    and "\<exists>key sig canon. user_pubkey_bytes (crypto E) cfg (bl_user req) = Some key \<and> canonical req = Some canon \<and>
      decode_b64 (crypto E) (bl_sig req) = Inr sig \<and> signed_by (crypto E) key canon sig"
  using assms
  by (auto simp: do_blob_def Let_def insert_fresh_def canonical_def split: option.splits sum.splits prod.splits if_splits)

lemma blob_put_stored:
  assumes "blob_put E cfg now db req = (Blob_Stored, db')"
  shows "\<exists>data. decode_b64 (crypto E) (bl_payload req) = Inr data \<and> bl_file_id req \<noteq> [] \<and>
    bl_total_size req \<le> large_file_max cfg \<and>
    ephemeral_put_chunk (kv E) now db (make_dialogue_id (crypto E) (bl_user req) (bl_peer req)) (bl_file_id req)
      (bl_chunk_index req) (bl_total_chunks req) (bl_total_size req) data (ephemeral_retention_secs cfg) = Inr db'"
  using assms by (auto simp: blob_put_def not_less split: sum.splits if_splits)

text \<open>
  A chunk that the endpoint has stored for a signed put of one user is what the other user of the
  pair (or the same one) downloads until the retention time is over; from then on the answer says
  that the file has expired.
\<close>

lemma blob_chunk_delivered:
  assumes ok: "crypto_ok (crypto E)" and inv: "db_inv (kv E) db" and f: "utf8_valid (bl_file_id req)"
    and put: "do_blob E cfg now g db req = (Blob_Stored, g', db')" "bl_op req = ''put''"
    and get: "{bl_user gr, bl_peer gr} = {bl_user req, bl_peer req}" "bl_peer gr \<noteq> []" "bl_file_id gr = bl_file_id req"
      "bl_chunk_index gr = bl_chunk_index req"
  shows "\<exists>data. decode_b64 (crypto E) (bl_payload req) = Inr data \<and> db_inv (kv E) db' \<and>
    blob_get E now' db' gr = (if sat_add now (ephemeral_retention_secs cfg) \<le> now' then Blob_Expired
      else Blob_Chunk (encode_b64 (crypto E) data)) \<and>
    decode_b64 (crypto E) (encode_b64 (crypto E) data) = Inr data"
proof -
  let ?d = "make_dialogue_id (crypto E) (bl_user req) (bl_peer req)"
  let ?meta = "\<lparr>chunk_count = bl_total_chunks req, total_size = bl_total_size req,
    eph_expires_at = sat_add now (ephemeral_retention_secs cfg)\<rparr>"
  have did: "make_dialogue_id (crypto E) (bl_user gr) (bl_peer gr) = ?d"
    using get(1) make_dialogue_id_sym [of "crypto E"] by (auto simp: doubleton_eq_iff)
  note didok = dialogue_id_ok [OF ok, of "bl_user req" "bl_peer req"]
  obtain data where data: "decode_b64 (crypto E) (bl_payload req) = Inr data" "bl_file_id req \<noteq> []"
    and store: "ephemeral_put_chunk (kv E) now db ?d (bl_file_id req) (bl_chunk_index req) (bl_total_chunks req)
      (bl_total_size req) data (ephemeral_retention_secs cfg) = Inr db'"
    using blob_put_stored [OF do_blob_put(1) [OF put]] by blast
  from put_chunk_spec [OF inv didok f, of now "bl_chunk_index req" "bl_total_chunks req" "bl_total_size req" data
      "ephemeral_retention_secs cfg"] store
  have inv': "db_inv (kv E) db'" and chunk: "map_of (db_view (kv E) db') (make_eph_chunk_key ?d (bl_file_id req) (bl_chunk_index req)) = Some data"
    and meta: "meta_of (kv E) db' ?d (bl_file_id req) = Some ?meta"
    by auto
  have "blob_get E now' db' gr = (if sat_add now (ephemeral_retention_secs cfg) \<le> now' then Blob_Expired
      else Blob_Chunk (encode_b64 (crypto E) data))"
    using get_chunk_spec [OF inv' meta, of now' "bl_chunk_index req"] chunk data(2)
    by (simp add: blob_get_def did get)
  moreover have "decode_b64 (crypto E) (encode_b64 (crypto E) data) = Inr data"
    using ok by (simp add: crypto_ok_def decode_b64_def encode_b64_def)
  ultimately show ?thesis using data(1) inv' by blast
qed

definition demo_blob :: "string \<Rightarrow> string \<Rightarrow> string \<Rightarrow> blob_request" where
  "demo_blob op u p = \<lparr>bl_op = op, bl_user = u, bl_nonce = ''n1'', bl_sig = [], bl_peer = p, bl_file_id = ''f'',
     bl_chunk_index = 0, bl_total_chunks = 1, bl_total_size = 2, bl_payload = ''hi''\<rparr>"

definition demo_blob_put :: blob_request where
  "demo_blob_put = (demo_blob ''put'' ''alice'' ''bob'')
     \<lparr>bl_sig := demo_sig alice_key (the (canonical (demo_blob ''put'' ''alice'' ''bob'')))\<rparr>"

lemma demo_blob_simps:
  "bl_user (demo_blob op u p) = u" "bl_peer (demo_blob op u p) = p" "bl_file_id (demo_blob op u p) = ''f''"
  "bl_chunk_index (demo_blob op u p) = 0"
  "bl_user demo_blob_put = ''alice''" "bl_peer demo_blob_put = ''bob''" "bl_file_id demo_blob_put = ''f''"
  "bl_chunk_index demo_blob_put = 0" "bl_op demo_blob_put = ''put''" "bl_payload demo_blob_put = ''hi''"
  by (simp_all add: demo_blob_def demo_blob_put_def)

lemma demo_retention: "ephemeral_retention_secs demo_config = 86400"
  by (simp add: demo_config_def default_config_def)

lemma demo_blob_put_run:
  obtains db' where "do_blob demo_env demo_config 5 (new_guard 10) [] demo_blob_put =
    (Blob_Stored, snd (insert_fresh (new_guard 10) ''n1''), db')"
proof -
  note did = dialogue_id_ok [OF demo_crypto_ok, of "''alice''" "''bob''"]
  have f: "utf8_valid ''f''" by (simp add: utf8_valid_def)
  obtain db' where "ephemeral_put_chunk demo_store 5 [] (make_dialogue_id demo_crypto ''alice'' ''bob'') ''f'' 0 1 2
      (as_bytes ''hi'') (ephemeral_retention_secs demo_config) = Inr db'"
    using put_chunk_spec [OF _ did f, where K = demo_store and db = "[]" and now = 5 and i = 0 and n = 1 and sz = 2
        and data = "as_bytes ''hi''" and ret = "ephemeral_retention_secs demo_config"]
    by (simp only: demo_inv keys_ok_Nil simp_thms) blast
  moreover have "ephemeral_retention_secs demo_config = 24 * 60 * 60" "large_file_max demo_config = 2 * 1024 * 1024 * 1024"
    by (simp_all add: demo_config_def default_config_def)
  ultimately have "blob_put demo_env demo_config 5 [] demo_blob_put = (Blob_Stored, db')"
    by (simp add: blob_put_def demo_blob_put_def demo_blob_def)
  moreover obtain canon where "canonical demo_blob_put = Some canon" "bl_sig demo_blob_put = demo_sig alice_key canon"
    by (simp add: canonical_def demo_blob_put_def demo_blob_def)
  moreover have "bl_op demo_blob_put = ''put''" "bl_user demo_blob_put = ''alice''" "bl_nonce demo_blob_put = ''n1''"
    by (simp_all add: demo_blob_put_def demo_blob_def)
  moreover have "fst (insert_fresh (new_guard 10) ''n1'')" by (simp add: insert_fresh_def new_guard_def)
  ultimately show thesis using that by (simp add: do_blob_def Let_def case_prod_beta)
qed

lemma blob_chunk_delivered_example:
  "\<exists>g db'. do_blob demo_env demo_config 5 (new_guard 10) [] demo_blob_put = (Blob_Stored, g, db') \<and>
     blob_get demo_env 7 db' (demo_blob ''get'' ''bob'' ''alice'') = Blob_Chunk ''hi''"
proof -
  obtain db' where run: "do_blob demo_env demo_config 5 (new_guard 10) [] demo_blob_put =
    (Blob_Stored, snd (insert_fresh (new_guard 10) ''n1''), db')" by (rule demo_blob_put_run)
  have f: "utf8_valid (bl_file_id demo_blob_put)" by (simp add: utf8_valid_def demo_blob_simps)
  have "\<exists>data. decode_b64 (crypto demo_env) (bl_payload demo_blob_put) = Inr data \<and> db_inv (kv demo_env) db' \<and>
    blob_get demo_env 7 db' (demo_blob ''get'' ''bob'' ''alice'') =
      (if sat_add 5 (ephemeral_retention_secs demo_config) \<le> 7 then Blob_Expired
       else Blob_Chunk (encode_b64 (crypto demo_env) data)) \<and>
    decode_b64 (crypto demo_env) (encode_b64 (crypto demo_env) data) = Inr data"
    by (rule blob_chunk_delivered [OF _ _ f run]) (simp_all add: demo_blob_simps insert_commute)
  moreover have "\<not> sat_add 5 (ephemeral_retention_secs demo_config) \<le> 7"
    unfolding demo_retention by (simp add: sat_add_def)
  ultimately have "blob_get demo_env 7 db' (demo_blob ''get'' ''bob'' ''alice'') = Blob_Chunk ''hi''"
    by (auto simp: demo_blob_simps)
  with run show ?thesis by blast
qed

end
