(* ===== verification/Call_Signals.thy ===== *)
theory Call_Signals
  imports Server_State
begin

text \<open>
  Call signalling: the in-memory queues of envelopes (\<open>call_signal.rs\<close>) and the two handlers over
  them (\<open>routes/call_signal.rs\<close>, \<open>routes/call_poll.rs\<close>). Instants are nanoseconds of the monotonic
  clock. A \<open>Notify\<close> is named by a number; who else holds it is an argument of the collector.
\<close>

section \<open>Queues\<close>

definition ENVELOPE_TTL :: nat where "ENVELOPE_TTL = 60 * 10 ^ 9"
definition MAX_QUEUE_LEN :: nat where "MAX_QUEUE_LEN = 64"
definition MAX_PAYLOAD_LEN :: nat where "MAX_PAYLOAD_LEN = 4 * 1024"

record call_envelope =
  ce_sender :: string
  ce_kind :: byte
  ce_payload :: bytes
  ce_ts_ms :: u64
  ce_received :: nat

record call_queue =
  cq_items :: "call_envelope list"
  cq_waker :: nat

record call_store =
  cs_queues :: "string \<rightharpoonup> call_queue"
  cs_next :: nat

definition new_call_store :: call_store where
  "new_call_store = \<lparr>cs_queues = Map.empty, cs_next = 0\<rparr>"

text \<open>\<open>entry(recver).or_insert_with(Queue::new)\<close>: the queue, and the store in which it exists.\<close>

definition queue_entry :: "call_store \<Rightarrow> string \<Rightarrow> call_queue \<times> call_store" where
  "queue_entry st r =
     (case cs_queues st r of
        Some q \<Rightarrow> (q, st)
      | None \<Rightarrow> let q = \<lparr>cq_items = [], cq_waker = cs_next st\<rparr>
                in (q, st\<lparr>cs_queues := (cs_queues st)(r \<mapsto> q), cs_next := Suc (cs_next st)\<rparr>))"

definition call_push :: "call_store \<Rightarrow> string \<Rightarrow> call_envelope \<Rightarrow> call_store \<times> nat" where
  "call_push st r e =
     (let (q, st1) = queue_entry st r;
          kept = (if length (cq_items q) \<ge> MAX_QUEUE_LEN then tl (cq_items q) else cq_items q)
      in (st1\<lparr>cs_queues := (cs_queues st1)(r \<mapsto> q\<lparr>cq_items := kept @ [e]\<rparr>)\<rparr>, cq_waker q))"

definition call_drain :: "call_store \<Rightarrow> string \<Rightarrow> call_envelope list \<times> call_store" where
  "call_drain st r =
     (case cs_queues st r of
        Some q \<Rightarrow> (cq_items q, st\<lparr>cs_queues := (cs_queues st)(r \<mapsto> q\<lparr>cq_items := []\<rparr>)\<rparr>)
      | None \<Rightarrow> ([], st))"

definition call_waker :: "call_store \<Rightarrow> string \<Rightarrow> nat \<times> call_store" where
  "call_waker st r = (case queue_entry st r of (q, st1) \<Rightarrow> (cq_waker q, st1))"

definition drop_expired :: "nat \<Rightarrow> call_envelope list \<Rightarrow> call_envelope list" where
  "drop_expired now es = dropWhile (\<lambda>e. now - ce_received e > ENVELOPE_TTL) es"

definition call_gc :: "nat \<Rightarrow> (nat \<Rightarrow> bool) \<Rightarrow> call_store \<Rightarrow> call_store" where
  "call_gc now held st = st\<lparr>cs_queues := (\<lambda>r. case cs_queues st r of None \<Rightarrow> None
     | Some q \<Rightarrow> let q' = q\<lparr>cq_items := drop_expired now (cq_items q)\<rparr>
                 in if cq_items q' \<noteq> [] \<or> held (cq_waker q') then Some q' else None)\<rparr>"

section \<open>The handlers\<close>

record call_signal_request =
  csr_sender :: string
  csr_recver :: string
  csr_kind :: byte
  csr_payload :: string
  csr_ts_ms :: u64
  csr_sig :: string

text \<open>\<open>ts_ms\<close> is an \<open>i64\<close>.\<close>

definition show_i64 :: "u64 \<Rightarrow> string" where
  "show_i64 w = (if sint w < 0 then ''-'' @ show_nat (nat (- sint w)) else show_nat (nat (sint w)))"

definition signal_msg :: "call_signal_request \<Rightarrow> string" where
  "signal_msg req = csr_sender req @ csr_recver req @ show_nat (unat (csr_kind req)) @ show_i64 (csr_ts_ms req) @ csr_payload req"

definition do_signal :: "crypto_env \<Rightarrow> server_config \<Rightarrow> nat \<Rightarrow> call_store \<Rightarrow> call_signal_request \<Rightarrow>
    api_response \<times> call_store \<times> nat option" where
  "do_signal C cfg now st req =
     (let failed = (\<lambda>msg. (api_fail msg, st, None)) in
      case decode_b64 C (csr_sig req) of Inl _ \<Rightarrow> failed ''Bad sig encoding''
      | Inr sig \<Rightarrow>
      case decode_b64 C (csr_payload req) of Inl _ \<Rightarrow> failed ''Bad payload encoding''
      | Inr payload \<Rightarrow>
      if length payload > MAX_PAYLOAD_LEN
      then failed (''Payload too large: '' @ show_nat (length payload) @ '' > '' @ show_nat MAX_PAYLOAD_LEN)
      else if users cfg (csr_recver req) = None then failed ''recver not registered''
      else case user_pubkey_bytes C cfg (csr_sender req) of None \<Rightarrow> failed ''sender not registered''
      | Some key \<Rightarrow>
      case verify_signature C key (as_bytes (signal_msg req)) sig of Inl _ \<Rightarrow> failed ''Invalid signature''
      | Inr _ \<Rightarrow>
      case call_push st (csr_recver req) \<lparr>ce_sender = csr_sender req, ce_kind = csr_kind req, ce_payload = payload,
          ce_ts_ms = csr_ts_ms req, ce_received = now\<rparr> of (st', w) \<Rightarrow> (api_ok ''queued'', st', Some w))"

definition MAX_LONG_POLL_MS :: u32 where "MAX_LONG_POLL_MS = 30000"

record call_poll_request =
  cp_user :: string
  cp_nonce :: u64
  cp_long_poll_ms :: u32
  cp_sig :: string

record call_envelope_out =
  out_sender :: string
  out_kind :: byte
  out_payload :: string
  out_ts_ms :: u64

record call_poll_response =
  cpr_success :: bool
  cpr_items :: "call_envelope_out list"
  cpr_message :: string

definition poll_ok :: "call_envelope_out list \<Rightarrow> call_poll_response" where
  "poll_ok its = \<lparr>cpr_success = True, cpr_items = its, cpr_message = []\<rparr>"
definition poll_fail :: "string \<Rightarrow> call_poll_response" where
  "poll_fail msg = \<lparr>cpr_success = False, cpr_items = [], cpr_message = msg\<rparr>"

definition envelope_out :: "crypto_env \<Rightarrow> call_envelope \<Rightarrow> call_envelope_out" where
  "envelope_out C e = \<lparr>out_sender = ce_sender e, out_kind = ce_kind e, out_payload = encode_b64 C (ce_payload e),
     out_ts_ms = ce_ts_ms e\<rparr>"

definition poll_msg :: "call_poll_request \<Rightarrow> string" where
  "poll_msg req = cp_user req @ show_nat (unat (cp_nonce req)) @ show_nat (unat (cp_long_poll_ms req))"

text \<open>
  A long poll takes the waker after a first empty drain, drains again, waits, and drains. The
  store lock is free in between: \<open>other i\<close> is what the other tasks do to the store in the \<open>i\<close>-th gap,
  the last one being the wait.
\<close>

definition do_poll :: "crypto_env \<Rightarrow> server_config \<Rightarrow> (nat \<Rightarrow> call_store \<Rightarrow> call_store) \<Rightarrow> call_store \<Rightarrow> call_poll_request \<Rightarrow>
    call_poll_response \<times> call_store" where
  "do_poll C cfg other st req =
     (let failed = (\<lambda>msg. (poll_fail msg, st)); answer = (\<lambda>es. poll_ok (map (envelope_out C) es)) in
      case decode_b64 C (cp_sig req) of Inl _ \<Rightarrow> failed ''Bad sig encoding''
      | Inr sig \<Rightarrow>
      case user_pubkey_bytes C cfg (cp_user req) of None \<Rightarrow> failed ''user not registered''
      | Some key \<Rightarrow>
      case verify_signature C key (as_bytes (poll_msg req)) sig of Inl _ \<Rightarrow> failed ''Invalid signature''
      | Inr _ \<Rightarrow>
      case call_drain st (cp_user req) of (immediate, st1) \<Rightarrow>
      if immediate \<noteq> [] then (answer immediate, st1)
      else if cp_long_poll_ms req = 0 then (poll_ok [], st1)
      else case call_waker (other 0 st1) (cp_user req) of (_, st2) \<Rightarrow>
      case call_drain (other 1 st2) (cp_user req) of (pending, st3) \<Rightarrow>
      if pending \<noteq> [] then (answer pending, st3)
      else case call_drain (other 2 st3) (cp_user req) of (rest, st4) \<Rightarrow> (answer rest, st4))"

section \<open>Histories\<close>

text \<open>Every critical section of the store is one operation; a history is any sequence of them.\<close>

datatype call_op =
  Op_Push string call_envelope
| Op_Drain string
| Op_Waker string
| Op_Gc nat "nat \<Rightarrow> bool"

fun call_step :: "string \<Rightarrow> call_op \<Rightarrow> call_store \<Rightarrow> call_envelope list \<times> call_store" where
  "call_step r (Op_Push r' e) st = ([], fst (call_push st r' e))"
| "call_step r (Op_Drain r') st = (case call_drain st r' of (es, st') \<Rightarrow> (if r' = r then es else [], st'))"
| "call_step r (Op_Waker r') st = ([], snd (call_waker st r'))"
| "call_step r (Op_Gc now held) st = ([], call_gc now held st)"

text \<open>What the user \<open>r\<close> receives over a history, and the store after it.\<close>

fun call_run :: "string \<Rightarrow> call_op list \<Rightarrow> call_store \<Rightarrow> call_envelope list \<times> call_store" where
  "call_run r [] st = ([], st)"
| "call_run r (op # ops) st = (case call_step r op st of (es, st1) \<Rightarrow>
     (case call_run r ops st1 of (es', st') \<Rightarrow> (es @ es', st')))"

fun pushed_to :: "string \<Rightarrow> call_op list \<Rightarrow> call_envelope list" where
  "pushed_to r [] = []"
| "pushed_to r (Op_Push r' e # ops) = (if r' = r then [e] else []) @ pushed_to r ops"
| "pushed_to r (_ # ops) = pushed_to r ops"

definition pending :: "call_store \<Rightarrow> string \<Rightarrow> call_envelope list" where
  "pending st r = (case cs_queues st r of None \<Rightarrow> [] | Some q \<Rightarrow> cq_items q)"

fun nothing_expires :: "call_envelope list \<Rightarrow> call_op \<Rightarrow> bool" where
  "nothing_expires es (Op_Gc now held) = list_all (\<lambda>e. now - ce_received e \<le> ENVELOPE_TTL) es"
| "nothing_expires es _ = True"

lemma pending_push: "pending (fst (call_push st r' e)) r =
    (if r' = r then (if length (pending st r) \<ge> MAX_QUEUE_LEN then tl (pending st r) else pending st r) @ [e] else pending st r)"
  by (auto simp: pending_def call_push_def queue_entry_def MAX_QUEUE_LEN_def Let_def split: option.splits)

lemma pending_drain: "fst (call_drain st r) = pending st r"
    "pending (snd (call_drain st r')) r = (if r' = r then [] else pending st r)"
  by (auto simp: pending_def call_drain_def split: option.splits)

lemma pending_waker: "pending (snd (call_waker st r')) r = pending st r"
  by (auto simp: pending_def call_waker_def queue_entry_def Let_def split: option.splits)

lemma pending_gc: "pending (call_gc now held st) r = drop_expired now (pending st r)"
  by (auto simp: pending_def call_gc_def drop_expired_def [of now "[]"] Let_def split: option.splits)

lemma drop_expired_id: "list_all (\<lambda>e. now - ce_received e \<le> ENVELOPE_TTL) es \<Longrightarrow> drop_expired now es = es"
  by (cases es) (auto simp: drop_expired_def)

lemma drop_expired_subseq: "subseq (drop_expired now es) es"
  unfolding drop_expired_def by (rule suffix_imp_subseq) (rule suffix_dropWhile)

text \<open>One operation neither invents, nor duplicates, nor reorders.\<close>

lemma call_step_subseq:
  "call_step r op st = (es, st') \<Longrightarrow> subseq (es @ pending st' r) (pending st r @ pushed_to r [op])"
proof (cases op)
  case (Op_Push r' e)
  assume "call_step r op st = (es, st')"
  moreover have "subseq (tl xs @ [e]) (xs @ [e])" for xs :: "call_envelope list"
    by (intro list_emb_append_mono suffix_imp_subseq suffix_tl) simp
  ultimately show ?thesis by (auto simp: Op_Push pending_push)
next
  case (Op_Drain r')
  assume "call_step r op st = (es, st')"
  then have "es = (if r' = r then pending st r else [])" "st' = snd (call_drain st r')"
    using pending_drain(1) [of st r'] by (auto simp: Op_Drain split: prod.splits)
  then show ?thesis by (auto simp: pending_drain Op_Drain)
qed (auto simp: pending_drain pending_waker pending_gc drop_expired_subseq split: prod.splits
    dest: arg_cong [where f = fst] arg_cong [where f = snd])

lemma pushed_to_Cons: "pushed_to r (op # ops) = pushed_to r [op] @ pushed_to r ops"
  by (cases op) auto

lemma call_run_subseq:
  "call_run r ops st = (es, st') \<Longrightarrow> subseq (es @ pending st' r) (pending st r @ pushed_to r ops)"
proof (induction ops arbitrary: st es)
  case (Cons op ops)
  obtain es1 st1 es2 where run: "call_step r op st = (es1, st1)" "call_run r ops st1 = (es2, st')" "es = es1 @ es2"
    using Cons.prems by (auto split: prod.splits)
  have "subseq (es1 @ (es2 @ pending st' r)) (es1 @ (pending st1 r @ pushed_to r ops))"
    using list_emb_append_mono [OF subseq_order.refl Cons.IH [OF run(2)]] .
  also have "subseq (es1 @ (pending st1 r @ pushed_to r ops)) (pending st r @ pushed_to r (op # ops))"
    using list_emb_append_mono [OF call_step_subseq [OF run(1)] subseq_order.refl [of "pushed_to r ops"]]
    by (subst pushed_to_Cons) simp
  finally show ?case by (simp add: run(3))
qed simp

text \<open>A queue never holds more than its limit.\<close>

lemma length_drop_expired: "length (drop_expired now es) \<le> length es"
  by (simp add: drop_expired_def length_dropWhile_le)

lemma call_step_bound:
  "length (pending st r) \<le> MAX_QUEUE_LEN \<Longrightarrow> length (pending (snd (call_step r op st)) r) \<le> MAX_QUEUE_LEN"
proof (cases op)
  case (Op_Push r' e)
  assume "length (pending st r) \<le> MAX_QUEUE_LEN"
  then show ?thesis by (auto simp: Op_Push pending_push MAX_QUEUE_LEN_def)
next
  case (Op_Drain r')
  assume "length (pending st r) \<le> MAX_QUEUE_LEN"
  then show ?thesis by (auto simp: Op_Drain pending_drain case_prod_beta)
next
  case (Op_Gc now held)
  assume "length (pending st r) \<le> MAX_QUEUE_LEN"
  then show ?thesis using length_drop_expired [of now "pending st r"] by (simp add: Op_Gc pending_gc)
qed (simp add: pending_waker)

lemma call_run_bound:
  "length (pending st r) \<le> MAX_QUEUE_LEN \<Longrightarrow> length (pending (snd (call_run r ops st)) r) \<le> MAX_QUEUE_LEN"
proof (induction ops arbitrary: st)
  case (Cons op ops)
  from Cons.IH [OF call_step_bound [OF Cons.prems, of op]] show ?case by (simp add: case_prod_beta)
qed simp

text \<open>Below the limit and within the lifetime nothing is lost.\<close>

lemma call_step_exact:
  assumes "length (pending st r) + length (pushed_to r [op]) \<le> MAX_QUEUE_LEN" and "nothing_expires (pending st r) op"
    and "call_step r op st = (es, st')"
  shows "es @ pending st' r = pending st r @ pushed_to r [op]"
  using assms
proof (cases op)
  case (Op_Drain r')
  then have "es = (if r' = r then pending st r else [])" "st' = snd (call_drain st r')"
    using assms(3) pending_drain(1) [of st r'] by (auto split: prod.splits)
  then show ?thesis by (auto simp: pending_drain Op_Drain)
qed (auto simp: pending_push pending_waker pending_gc drop_expired_id)

lemma call_run_exact:
  "length (pending st r) + length (pushed_to r ops) \<le> MAX_QUEUE_LEN \<Longrightarrow>
   list_all (nothing_expires (pending st r @ pushed_to r ops)) ops \<Longrightarrow> call_run r ops st = (es, st') \<Longrightarrow>
   es @ pending st' r = pending st r @ pushed_to r ops"
proof (induction ops arbitrary: st es)
  case (Cons op ops)
  obtain es1 st1 es2 where run: "call_step r op st = (es1, st1)" "call_run r ops st1 = (es2, st')" "es = es1 @ es2"
    using Cons.prems(3) by (auto split: prod.splits)
  have less: "nothing_expires ys op'" if "nothing_expires xs op'" "set ys \<subseteq> set xs" for xs ys op'
    using that by (cases op') (auto simp: list_all_iff)
  have eq: "pending st r @ pushed_to r (op # ops) = (pending st r @ pushed_to r [op]) @ pushed_to r ops"
    by (subst pushed_to_Cons) simp
  have now: "es1 @ pending st1 r = pending st r @ pushed_to r [op]"
    by (rule call_step_exact [OF _ _ run(1)])
      (use Cons.prems(1,2) less [of "pending st r @ pushed_to r (op # ops)" op "pending st r"] in
        \<open>simp_all add: pushed_to_Cons [of r op ops]\<close>)
  have "set (es1 @ pending st1 r) \<subseteq> set (pending st r @ pushed_to r (op # ops))"
    unfolding now by (auto simp: pushed_to_Cons [of r op ops])
  then have "set (pending st1 r) \<subseteq> set (pending st r @ pushed_to r (op # ops))" by simp
  moreover have "length (pending st1 r) + length (pushed_to r ops) \<le> MAX_QUEUE_LEN"
    using Cons.prems(1) arg_cong [OF now, of length] by (simp add: pushed_to_Cons [of r op ops])
  ultimately have set1: "set (pending st1 r) \<subseteq> set (pending st r @ pushed_to r (op # ops))"
    and "length (pending st1 r) + length (pushed_to r ops) \<le> MAX_QUEUE_LEN"
    by blast+
  moreover have "list_all (nothing_expires (pending st1 r @ pushed_to r ops)) ops"
    unfolding list_all_iff
  proof
    fix op' assume "op' \<in> set ops"
    with Cons.prems(2) have "nothing_expires (pending st r @ pushed_to r (op # ops)) op'" by (simp add: list_all_iff)
    moreover have "set (pending st1 r @ pushed_to r ops) \<subseteq> set (pending st r @ pushed_to r (op # ops))"
      using set1 unfolding pushed_to_Cons [of r op ops] by auto
    ultimately show "nothing_expires (pending st1 r @ pushed_to r ops) op'" by (rule less)
  qed
  ultimately have "es2 @ pending st' r = pending st1 r @ pushed_to r ops" using Cons.IH run(2) by blast
  then show ?case using now by (simp add: eq run(3))
qed simp

text \<open>
  C37. Over any history of pushes, drains, wakers and collections, in any order, what a user receives
  together with what still waits is a subsequence of what was pushed to that user: nothing is
  invented, duplicated or reordered. A queue never exceeds 64 envelopes; and if no more than 64 were
  pushed and none is older than the lifetime at a collection, nothing is lost.
\<close>

theorem calls_delivered_once:
  assumes "call_run r ops new_call_store = (es, st)"
  shows "subseq (es @ pending st r) (pushed_to r ops) \<and> length (pending st r) \<le> 64 \<and>
    (length (pushed_to r ops) \<le> 64 \<and> list_all (nothing_expires (pushed_to r ops)) ops \<longrightarrow> es @ pending st r = pushed_to r ops)"
proof -
  have "pending new_call_store r = []" by (simp add: pending_def new_call_store_def)
  then show ?thesis
    using call_run_subseq [OF assms] call_run_bound [of new_call_store r ops] call_run_exact [OF _ _ assms] assms
    by (simp add: MAX_QUEUE_LEN_def)
qed

definition demo_envelope :: "byte \<Rightarrow> call_envelope" where
  "demo_envelope k = \<lparr>ce_sender = ''alice'', ce_kind = k, ce_payload = [1], ce_ts_ms = 0, ce_received = 5\<rparr>"

theorem calls_delivered_once_witness:
  "\<exists>es st. call_run ''bob'' [Op_Push ''bob'' (demo_envelope 0), Op_Gc 9 (\<lambda>_. False), Op_Push ''carol'' (demo_envelope 1),
      Op_Drain ''bob'', Op_Push ''bob'' (demo_envelope 2)] new_call_store = (es, st) \<and>
    es @ pending st ''bob'' = [demo_envelope 0, demo_envelope 2]"
proof -
  let ?ops = "[Op_Push ''bob'' (demo_envelope 0), Op_Gc 9 (\<lambda>_. False), Op_Push ''carol'' (demo_envelope 1),
      Op_Drain ''bob'', Op_Push ''bob'' (demo_envelope 2)]"
  obtain es st where run: "call_run ''bob'' ?ops new_call_store = (es, st)" by fastforce
  have "length (pushed_to ''bob'' ?ops) \<le> 64 \<and> list_all (nothing_expires (pushed_to ''bob'' ?ops)) ?ops"
    by (simp add: demo_envelope_def ENVELOPE_TTL_def)
  with calls_delivered_once [OF run] run show ?thesis by (simp del: call_run.simps) 
qed

end
