(* ===== verification/Dialogue_Notify.thy ===== *)
theory Dialogue_Notify
  imports Prelude
begin

text \<open>
  The wakers of long polls (\<open>dialogue_notify.rs\<close>) and the protocol that \<open>push\<close> and \<open>notify\<close> run over
  them: a push stores its packet, then wakes; a poll counts, takes the waker, subscribes, counts
  again, and only then sleeps. \<open>tokio::sync::Notify\<close> is third-party: its three operations are a
  parameter, \<open>notify_laws\<close> the documented guarantee that a \<open>Notified\<close> future receives every
  \<open>notify_waiters\<close> called after its creation. \<open>Arc<Notify>\<close> is a number, naming a cell.
\<close>

record ('w, 't) notify_ops =
  nt_new :: 'w
  nt_fire :: "'w \<Rightarrow> 'w"
  nt_subscribe :: "'w \<Rightarrow> 't"
  nt_woken :: "'w \<Rightarrow> 't \<Rightarrow> bool"

definition notify_laws :: "('w, 't) notify_ops \<Rightarrow> bool" where
  "notify_laws N \<longleftrightarrow> (\<forall>w. nt_woken N (nt_fire N w) (nt_subscribe N w)) \<and>
     (\<forall>w t. nt_woken N w t \<longrightarrow> nt_woken N (nt_fire N w) t)"

section \<open>The registry\<close>

record 'w registry =
  inner :: "string \<rightharpoonup> nat"
  cells :: "nat \<Rightarrow> 'w"
  next_cell :: nat

text \<open>\<open>notify\<close>: the lookup under the read lock, and the wake-up after it.\<close>

definition find_waker :: "'w registry \<Rightarrow> string \<Rightarrow> nat option" where
  "find_waker R did = inner R did"

definition fire_waker :: "('w, 't) notify_ops \<Rightarrow> 'w registry \<Rightarrow> nat option \<Rightarrow> 'w registry" where
  "fire_waker N R w = (case w of None \<Rightarrow> R | Some c \<Rightarrow> R\<lparr>cells := (cells R)(c := nt_fire N (cells R c))\<rparr>)"

definition waker :: "('w, 't) notify_ops \<Rightarrow> 'w registry \<Rightarrow> string \<Rightarrow> nat \<times> 'w registry" where
  "waker N R did =
     (case inner R did of
        Some c \<Rightarrow> (c, R)
      | None \<Rightarrow> (next_cell R, R\<lparr>inner := (inner R)(did \<mapsto> next_cell R),
                   cells := (cells R)(next_cell R := nt_new N), next_cell := Suc (next_cell R)\<rparr>))"

text \<open>\<open>retain(strong_count > 1)\<close>: \<open>held c\<close> says that somebody besides the map holds the cell.\<close>

definition gc :: "(nat \<Rightarrow> bool) \<Rightarrow> 'w registry \<Rightarrow> 'w registry" where
  "gc held R = R\<lparr>inner := (\<lambda>did. case inner R did of None \<Rightarrow> None | Some c \<Rightarrow> if held c then Some c else None)\<rparr>"

section \<open>The protocol\<close>

text \<open>
  Poll \<open>i\<close> watches dialogue \<open>who i\<close> and has seen \<open>cursor i\<close> of its messages; push \<open>j\<close> adds a message
  to dialogue \<open>target j\<close>. A step is one access to the database or to the registry.
\<close>

datatype 't poll_pc = Begun | Counted | Has_Waker nat | Subscribed nat 't | Sleeping nat 't | Finished
datatype push_pc = To_Store | Stored | Looked "nat option" | Pushed

record ('w, 't) world =
  stored :: "string \<Rightarrow> nat"
  reg :: "'w registry"
  polls :: "nat \<Rightarrow> 't poll_pc"
  pushes :: "nat \<Rightarrow> push_pc"

fun poll_holds :: "'t poll_pc \<Rightarrow> nat \<Rightarrow> bool" where
  "poll_holds (Has_Waker c) c' \<longleftrightarrow> c' = c"
| "poll_holds (Subscribed c t) c' \<longleftrightarrow> c' = c"
| "poll_holds (Sleeping c t) c' \<longleftrightarrow> c' = c"
| "poll_holds _ c' \<longleftrightarrow> False"

definition held :: "('w, 't) world \<Rightarrow> nat \<Rightarrow> bool" where
  "held s c \<longleftrightarrow> (\<exists>i. poll_holds (polls s i) c) \<or> (\<exists>j. pushes s j = Looked (Some c))"

inductive notify_step :: "('w, 't) notify_ops \<Rightarrow> (nat \<Rightarrow> string) \<Rightarrow> (nat \<Rightarrow> nat) \<Rightarrow> (nat \<Rightarrow> string) \<Rightarrow>
    ('w, 't) world \<Rightarrow> ('w, 't) world \<Rightarrow> bool"
  for N who cursor target where
  count_first: "polls s i = Begun \<Longrightarrow> notify_step N who cursor target s
    (s\<lparr>polls := (polls s)(i := if stored s (who i) > cursor i then Finished else Counted)\<rparr>)"
| take_waker: "polls s i = Counted \<Longrightarrow> waker N (reg s) (who i) = (c, R) \<Longrightarrow> notify_step N who cursor target s
    (s\<lparr>reg := R, polls := (polls s)(i := Has_Waker c)\<rparr>)"
| subscribe: "polls s i = Has_Waker c \<Longrightarrow> notify_step N who cursor target s
    (s\<lparr>polls := (polls s)(i := Subscribed c (nt_subscribe N (cells (reg s) c)))\<rparr>)"
| count_again: "polls s i = Subscribed c t \<Longrightarrow> notify_step N who cursor target s
    (s\<lparr>polls := (polls s)(i := if stored s (who i) > cursor i then Finished else Sleeping c t)\<rparr>)"
| wake_or_timeout: "polls s i = Sleeping c t \<Longrightarrow> notify_step N who cursor target s
    (s\<lparr>polls := (polls s)(i := Finished)\<rparr>)"
| store_message: "pushes s j = To_Store \<Longrightarrow> notify_step N who cursor target s
    (s\<lparr>stored := (stored s)(target j := Suc (stored s (target j))), pushes := (pushes s)(j := Stored)\<rparr>)"
| look_up: "pushes s j = Stored \<Longrightarrow> notify_step N who cursor target s
    (s\<lparr>pushes := (pushes s)(j := Looked (find_waker (reg s) (target j)))\<rparr>)"
| wake: "pushes s j = Looked w \<Longrightarrow> notify_step N who cursor target s
    (s\<lparr>reg := fire_waker N (reg s) w, pushes := (pushes s)(j := Pushed)\<rparr>)"
| collect: "notify_step N who cursor target s (s\<lparr>reg := gc (held s) (reg s)\<rparr>)"

definition start :: "('w, 't) notify_ops \<Rightarrow> (string \<Rightarrow> nat) \<Rightarrow> ('w, 't) world" where
  "start N n = \<lparr>stored = n, reg = \<lparr>inner = Map.empty, cells = (\<lambda>_. nt_new N), next_cell = 0\<rparr>,
     polls = (\<lambda>_. Begun), pushes = (\<lambda>_. To_Store)\<rparr>"

section \<open>No wake-up is lost\<close>

text \<open>
  A poll that holds a cell holds the one in the registry; a poll that has subscribed will see the
  next firing of its cell; and a sleeping poll for which there is a message has been woken, or a
  push of its dialogue is still on its way to the same cell.
\<close>

definition wakers_registered :: "(nat \<Rightarrow> string) \<Rightarrow> ('w, 't) world \<Rightarrow> bool" where
  "wakers_registered who s \<longleftrightarrow> (\<forall>i c. poll_holds (polls s i) c \<longrightarrow> inner (reg s) (who i) = Some c)"

definition tokens_alive :: "('w, 't) notify_ops \<Rightarrow> ('w, 't) world \<Rightarrow> bool" where
  "tokens_alive N s \<longleftrightarrow> (\<forall>i c t. polls s i = Subscribed c t \<or> polls s i = Sleeping c t \<longrightarrow>
     nt_woken N (nt_fire N (cells (reg s) c)) t)"

definition coming :: "(nat \<Rightarrow> string) \<Rightarrow> ('w, 't) world \<Rightarrow> string \<Rightarrow> nat \<Rightarrow> bool" where
  "coming target s d c \<longleftrightarrow> (\<exists>j. target j = d \<and> (pushes s j = Stored \<or> pushes s j = Looked (Some c)))"

definition sleepers_served :: "('w, 't) notify_ops \<Rightarrow> (nat \<Rightarrow> string) \<Rightarrow> (nat \<Rightarrow> nat) \<Rightarrow> (nat \<Rightarrow> string) \<Rightarrow> ('w, 't) world \<Rightarrow> bool" where
  "sleepers_served N who cursor target s \<longleftrightarrow> (\<forall>i c t. polls s i = Sleeping c t \<longrightarrow> cursor i < stored s (who i) \<longrightarrow>
     nt_woken N (cells (reg s) c) t \<or> coming target s (who i) c)"

lemma cell_fresh_step:
  assumes "notify_step N who cursor target s s'" and "\<And>d c. inner (reg s) d = Some c \<Longrightarrow> c < next_cell (reg s)"
  shows "inner (reg s') d = Some c \<Longrightarrow> c < next_cell (reg s')"
  using assms
proof (induction rule: notify_step.induct)
  case (take_waker s i c' R)
  then show ?case by (auto simp: waker_def less_Suc_eq split: option.splits if_splits)
qed (auto simp: fire_waker_def gc_def split: option.splits if_splits)

definition notify_inv :: "('w, 't) notify_ops \<Rightarrow> (nat \<Rightarrow> string) \<Rightarrow> (nat \<Rightarrow> nat) \<Rightarrow> (nat \<Rightarrow> string) \<Rightarrow> ('w, 't) world \<Rightarrow> bool" where
  "notify_inv N who cursor target s \<longleftrightarrow> (\<forall>d c. inner (reg s) d = Some c \<longrightarrow> c < next_cell (reg s)) \<and>
     wakers_registered who s \<and> tokens_alive N s \<and> sleepers_served N who cursor target s"

lemma holder_cell:
  assumes "wakers_registered who s" and "poll_holds (polls s k) c"
  shows "inner (reg s) (who k) = Some c"
  using assms by (simp add: wakers_registered_def)

lemma waker_cells: "waker N R d = (c, R') \<Longrightarrow> c' \<noteq> next_cell R \<Longrightarrow> cells R' c' = cells R c'"
  by (auto simp: waker_def split: option.splits)

lemma registered_step:
  assumes "notify_step N who cursor target s s'" and "wakers_registered who s"
  shows "wakers_registered who s'"
  using assms
proof (induction rule: notify_step.induct)
  case (take_waker s i c R)
  have "inner R (who k) = Some c'" if "poll_holds (((polls s)(i := Has_Waker c)) k) c'" for k c'
  proof (cases "k = i")
    case True
    with that take_waker.hyps(2) show ?thesis by (auto simp: waker_def split: option.splits)
  next
    case False
    with that holder_cell [OF take_waker.prems, of k c'] take_waker.hyps(2)
    show ?thesis by (auto simp: waker_def split: option.splits)
  qed
  then show ?case by (simp add: wakers_registered_def)
next
  case (collect s)
  then show ?case by (auto simp: wakers_registered_def gc_def held_def)
qed (auto simp: wakers_registered_def fire_waker_def split: option.splits)

lemma tokens_step:
  assumes "notify_step N who cursor target s s'" and "notify_laws N" and "tokens_alive N s" and "wakers_registered who s"
    and "\<And>d c. inner (reg s) d = Some c \<Longrightarrow> c < next_cell (reg s)"
  shows "tokens_alive N s'"
  using assms
proof (induction rule: notify_step.induct)
  case (take_waker s i c R)
  have "cells R c' = cells (reg s) c'" if "polls s k = Subscribed c' t \<or> polls s k = Sleeping c' t" for k c' t
  proof -
    have "inner (reg s) (who k) = Some c'" using that holder_cell [OF take_waker.prems(3), of k c'] by auto
    then have "c' < next_cell (reg s)" by (rule take_waker.prems(4))
    then show ?thesis by (intro waker_cells [OF take_waker.hyps(2)]) simp
  qed
  note same = this
  show ?case unfolding tokens_alive_def
  proof (intro allI impI)
    fix k c' t
    assume "polls (s\<lparr>reg := R, polls := (polls s)(i := Has_Waker c)\<rparr>) k = Subscribed c' t \<or>
      polls (s\<lparr>reg := R, polls := (polls s)(i := Has_Waker c)\<rparr>) k = Sleeping c' t"
    then have k: "polls s k = Subscribed c' t \<or> polls s k = Sleeping c' t" by (auto split: if_splits)
    with take_waker.prems(2) have "nt_woken N (nt_fire N (cells (reg s) c')) t" unfolding tokens_alive_def by blast
    then show "nt_woken N (nt_fire N (cells (reg (s\<lparr>reg := R, polls := (polls s)(i := Has_Waker c)\<rparr>)) c')) t"
      using same [OF k] by simp
  qed
next
  case (wake s j w)
  then show ?case by (auto simp: tokens_alive_def fire_waker_def notify_laws_def split: option.splits)
qed (auto simp: tokens_alive_def notify_laws_def gc_def split: if_splits)

lemma served_step:
  assumes "notify_step N who cursor target s s'" and "notify_laws N" and "notify_inv N who cursor target s"
  shows "sleepers_served N who cursor target s'"
  using assms
proof (induction rule: notify_step.induct)
  case (take_waker s i c R)
  have "cells R c' = cells (reg s) c'" if "polls s k = Sleeping c' t" for k c' t
  proof -
    have "inner (reg s) (who k) = Some c'"
      using that holder_cell [of who s k c'] take_waker.prems(2) by (simp add: notify_inv_def)
    then have "c' < next_cell (reg s)" using take_waker.prems(2) by (auto simp: notify_inv_def)
    then show ?thesis by (intro waker_cells [OF take_waker.hyps(2)]) simp
  qed
  with take_waker.prems(2) show ?case
    by (auto simp: notify_inv_def sleepers_served_def coming_def split: if_splits)
next
  case (store_message s j)
  let ?s' = "s\<lparr>stored := (stored s)(target j := Suc (stored s (target j))), pushes := (pushes s)(j := Stored)\<rparr>"
  have "coming target ?s' (who i) c" if "coming target s (who i) c \<or> target j = who i" for i c
    using that store_message.hyps by (fastforce simp: coming_def)
  note coming = this
  show ?case unfolding sleepers_served_def
  proof (intro allI impI)
    fix i c t assume sl: "polls ?s' i = Sleeping c t" "cursor i < stored ?s' (who i)"
    show "nt_woken N (cells (reg ?s') c) t \<or> coming target ?s' (who i) c"
    proof (cases "target j = who i")
      case False
      with sl have "polls s i = Sleeping c t" "cursor i < stored s (who i)" by auto
      with store_message.prems(2) have "nt_woken N (cells (reg s) c) t \<or> coming target s (who i) c"
        unfolding notify_inv_def sleepers_served_def by blast
      with coming show ?thesis by auto
    qed (use coming in blast)
  qed
next
  case (look_up s j)
  have "coming target (s\<lparr>pushes := (pushes s)(j := Looked (find_waker (reg s) (target j)))\<rparr>) (who i) c"
    if "polls s i = Sleeping c t" "coming target s (who i) c" for i c t
  proof -
    have "inner (reg s) (who i) = Some c" using that(1) look_up.prems(2) by (auto simp: notify_inv_def wakers_registered_def)
    with that(2) look_up.hyps show ?thesis by (auto simp: coming_def find_waker_def)
  qed
  with look_up.prems show ?case by (fastforce simp: notify_inv_def sleepers_served_def)
next
  case (wake s j w)
  have "nt_woken N (cells (fire_waker N (reg s) w) c) t \<or>
      coming target (s\<lparr>reg := fire_waker N (reg s) w, pushes := (pushes s)(j := Pushed)\<rparr>) (who i) c"
    if "polls s i = Sleeping c t" "cursor i < stored s (who i)" for i c t
  proof (cases "w = Some c")
    case True
    then show ?thesis using that(1) wake.prems(2) by (auto simp: notify_inv_def tokens_alive_def fire_waker_def)
  next
    case False
    then have "coming target (s\<lparr>reg := fire_waker N (reg s) w, pushes := (pushes s)(j := Pushed)\<rparr>) (who i) c"
      if coming: "coming target s (who i) c"
    proof -
      obtain k where k: "target k = who i" "pushes s k = Stored \<or> pushes s k = Looked (Some c)"
        using coming unfolding coming_def by blast
      with False wake.hyps have "k \<noteq> j" by auto
      with k show ?thesis unfolding coming_def by (intro exI [of _ k]) simp
    qed
    moreover have "nt_woken N (cells (fire_waker N (reg s) w) c) t" if "nt_woken N (cells (reg s) c) t"
      using that False by (auto simp: fire_waker_def split: option.splits)
    moreover have "nt_woken N (cells (reg s) c) t \<or> coming target s (who i) c"
      using wake.prems(2) that unfolding notify_inv_def sleepers_served_def by blast
    ultimately show ?thesis by blast
  qed
  then show ?case by (auto simp: sleepers_served_def)
qed (auto simp: notify_inv_def sleepers_served_def coming_def gc_def split: if_splits)

lemma notify_inv_reachable:
  assumes "notify_laws N" and "(notify_step N who cursor target)\<^sup>*\<^sup>* (start N n) s"
  shows "notify_inv N who cursor target s"
  using assms(2)
proof (induction rule: rtranclp_induct)
  case base
  show ?case by (simp add: notify_inv_def start_def wakers_registered_def tokens_alive_def sleepers_served_def)
next
  case (step s s')
  note inv = step.IH [unfolded notify_inv_def]
  show ?case unfolding notify_inv_def
  proof (intro conjI allI impI)
    show "inner (reg s') d = Some c \<Longrightarrow> c < next_cell (reg s')" for d c
      using cell_fresh_step [OF step.hyps(2)] inv by blast
    show "wakers_registered who s'" using registered_step [OF step.hyps(2)] inv by blast
    show "tokens_alive N s'" using tokens_step [OF step.hyps(2) assms(1)] inv by blast
    show "sleepers_served N who cursor target s'" by (rule served_step [OF step.hyps(2) assms(1) step.IH])
  qed
qed

text \<open>
  C18. No wake-up is lost: under every interleaving of pushes, long polls and collections, whenever a
  poll sleeps although its dialogue holds a message above its cursor and no push of that dialogue is
  between its store and its wake-up, the poll has been woken.
\<close>

theorem no_lost_wakeup:
  assumes "notify_laws N" and "(notify_step N who cursor target)\<^sup>*\<^sup>* (start N n) s"
    and "polls s i = Sleeping c t" and "cursor i < stored s (who i)"
    and "\<forall>j. target j = who i \<longrightarrow> pushes s j = To_Store \<or> pushes s j = Pushed"
  shows "nt_woken N (cells (reg s) c) t"
proof -
  have "\<not> coming target s (who i) c" using assms(5) by (auto simp: coming_def)
  moreover have "nt_woken N (cells (reg s) c) t \<or> coming target s (who i) c"
    using notify_inv_reachable [OF assms(1,2)] assms(3,4) by (simp add: notify_inv_def sleepers_served_def)
  ultimately show ?thesis by blast
qed

text \<open>A cell that counts its firings satisfies the laws.\<close>

definition demo_notify_ops :: "(nat, nat) notify_ops" where
  "demo_notify_ops = \<lparr>nt_new = 0, nt_fire = Suc, nt_subscribe = (\<lambda>w. w), nt_woken = (\<lambda>w t. t < w)\<rparr>"

lemma demo_notify_laws: "notify_laws demo_notify_ops"
  by (simp add: notify_laws_def demo_notify_ops_def)

text \<open>A poll falls asleep, then a push stores and wakes.\<close>

definition demo_world :: "(nat, nat) world" where
  "demo_world = \<lparr>stored = (\<lambda>_. 0)(''d'' := 1), reg = \<lparr>inner = [''d'' \<mapsto> 0], cells = (\<lambda>_. 0)(0 := 1), next_cell = 1\<rparr>,
     polls = (\<lambda>_. Begun)(0 := Sleeping 0 0), pushes = (\<lambda>_. To_Store)(0 := Pushed)\<rparr>"

lemma demo_world_reachable:
  "(notify_step demo_notify_ops (\<lambda>_. ''d'') (\<lambda>_. 0) (\<lambda>_. ''d''))\<^sup>*\<^sup>* (start demo_notify_ops (\<lambda>_. 0)) demo_world"
proof -
  let ?R = "notify_step demo_notify_ops (\<lambda>_. ''d'') (\<lambda>_. 0) (\<lambda>_. ''d'')" and ?s = "start demo_notify_ops (\<lambda>_. 0)"
  note rules = notify_step.intros [where N = demo_notify_ops and who = "\<lambda>_. ''d''" and cursor = "\<lambda>_. 0" and target = "\<lambda>_. ''d''"]
  define r :: "nat registry" where "r = \<lparr>inner = [''d'' \<mapsto> 0], cells = (\<lambda>_. 0)(0 := 0), next_cell = Suc 0\<rparr>"
  define s1 where "s1 = ?s\<lparr>polls := (\<lambda>_. Begun)(0 := Counted)\<rparr>"
  define s2 where "s2 = s1\<lparr>reg := r, polls := (\<lambda>_. Begun)(0 := Has_Waker 0)\<rparr>"
  define s3 where "s3 = s2\<lparr>polls := (\<lambda>_. Begun)(0 := Subscribed 0 0)\<rparr>"
  define s4 where "s4 = s3\<lparr>polls := (\<lambda>_. Begun)(0 := Sleeping 0 0)\<rparr>"
  define s5 where "s5 = s4\<lparr>stored := (\<lambda>_. 0)(''d'' := 1), pushes := (\<lambda>_. To_Store)(0 := Stored)\<rparr>"
  define s6 where "s6 = s5\<lparr>pushes := (\<lambda>_. To_Store)(0 := Looked (Some 0))\<rparr>"
  have 1: "?R ?s s1" using rules(1) [of ?s 0] by (simp add: start_def s1_def)
  have 2: "?R s1 s2"
    using rules(2) [of s1 0 0 r] by (simp add: start_def s1_def s2_def waker_def r_def demo_notify_ops_def)
  have 3: "?R s2 s3" using rules(3) [of s2 0 0] by (simp add: s2_def s3_def r_def demo_notify_ops_def)
  have 4: "?R s3 s4" using rules(4) [of s3 0 0 0] by (simp add: s1_def s2_def s3_def s4_def start_def)
  have 5: "?R s4 s5" using rules(6) [of s4 0] by (simp add: s1_def s2_def s3_def s4_def s5_def start_def)
  have 6: "?R s5 s6" using rules(7) [of s5 0] by (simp add: s2_def s3_def s4_def s5_def s6_def r_def find_waker_def)
  have 7: "?R s6 demo_world" using rules(8) [of s6 0 "Some 0"]
    by (simp add: s1_def s2_def s3_def s4_def s5_def s6_def r_def start_def demo_world_def fire_waker_def demo_notify_ops_def)
  show ?thesis
    by (rule 1 2 3 4 5 6 7 converse_rtranclp_into_rtranclp rtranclp.rtrancl_refl)+
qed

theorem no_lost_wakeup_witness: "nt_woken demo_notify_ops (cells (reg demo_world) 0) 0"
  by (rule no_lost_wakeup [OF demo_notify_laws demo_world_reachable, where i = 0]) (auto simp: demo_world_def)

end
