(* ===== verification/Json_Values.thy ===== *)
theory Json_Values
  imports Prelude "HOL-Library.AList"
begin

text \<open>
  JSON values as \<open>serde_json\<close> keeps them with \<open>preserve_order\<close>: an object is the list of its
  entries in insertion order, with distinct keys. An integer is non-negative (\<open>J_Pos\<close>) or
  negative (\<open>J_Neg\<close>, in two's complement); a float is kept by its bits. The section on structures
  holds what \<open>derive(Deserialize)\<close> generates: a field is looked up by name, or by position when
  the structure comes as an array, may have a default and must not come twice. The texts of the errors of \<open>serde_json\<close>
  are not modelled.
\<close>

section \<open>Values\<close>

datatype json =
  J_Null
| J_Bool bool
| J_Pos u64
| J_Neg u64
| J_Float u64
| J_Str string
| J_Arr "json list"
| J_Obj "(string \<times> json) list"

fun as_str :: "json \<Rightarrow> string option" where
  "as_str (J_Str s) = Some s"
| "as_str _ = None"

fun as_bool :: "json \<Rightarrow> bool option" where
  "as_bool (J_Bool b) = Some b"
| "as_bool _ = None"

fun as_u64 :: "json \<Rightarrow> u64 option" where
  "as_u64 (J_Pos n) = Some n"
| "as_u64 _ = None"

fun as_i64 :: "json \<Rightarrow> u64 option" where
  "as_i64 (J_Pos n) = (if n < 2 ^ 63 then Some n else None)"
| "as_i64 (J_Neg n) = Some n"
| "as_i64 _ = None"

fun as_array :: "json \<Rightarrow> json list option" where
  "as_array (J_Arr xs) = Some xs"
| "as_array _ = None"

text \<open>\<open>Value::get\<close> with a key and with an index; \<open>body["k"]\<close> and \<open>body[i]\<close>, which default to null.\<close>

fun get_key :: "string \<Rightarrow> json \<Rightarrow> json option" where
  "get_key k (J_Obj m) = map_of m k"
| "get_key k _ = None"

fun get_idx :: "nat \<Rightarrow> json \<Rightarrow> json option" where
  "get_idx i (J_Arr xs) = (if i < length xs then Some (xs ! i) else None)"
| "get_idx i _ = None"

definition at_key :: "json \<Rightarrow> string \<Rightarrow> json" where
  "at_key v k = (case get_key k v of Some x \<Rightarrow> x | None \<Rightarrow> J_Null)"

definition at_idx :: "json \<Rightarrow> nat \<Rightarrow> json" where
  "at_idx v i = (case get_idx i v of Some x \<Rightarrow> x | None \<Rightarrow> J_Null)"

definition json_of_i64 :: "u64 \<Rightarrow> json" where
  "json_of_i64 n = (if n < 2 ^ 63 then J_Pos n else J_Neg n)"

definition json_of_u32 :: "u32 \<Rightarrow> json" where
  "json_of_u32 n = J_Pos (ucast n)"

definition json_of_u8 :: "byte \<Rightarrow> json" where
  "json_of_u8 n = J_Pos (ucast n)"

text \<open>The type invariant: the keys of every object are distinct.\<close>

fun json_wf :: "json \<Rightarrow> bool" where
  "json_wf (J_Arr xs) \<longleftrightarrow> (\<forall>x \<in> set xs. json_wf x)"
| "json_wf (J_Obj m) \<longleftrightarrow> distinct (map fst m) \<and> (\<forall>p \<in> set m. json_wf (snd p))"
| "json_wf _ \<longleftrightarrow> True"

lemma as_i64_of_i64 [simp]: "as_i64 (json_of_i64 n) = Some n"
  by (simp add: json_of_i64_def)

lemma at_key_simps [simp]:
  "at_key (J_Obj []) k = J_Null"
  "at_key (J_Obj ((k', v) # m)) k = (if k = k' then v else at_key (J_Obj m) k)"
  by (simp_all add: at_key_def)

lemma at_idx_simps [simp]:
  "at_idx (J_Arr []) i = J_Null"
  "at_idx (J_Arr (x # xs)) 0 = x"
  "at_idx (J_Arr (x # xs)) (Suc i) = at_idx (J_Arr xs) i"
  by (simp_all add: at_idx_def)

section \<open>Text\<close>

text \<open>
  \<open>serde_json::to_vec\<close> and \<open>from_slice\<close> are a parameter: the bytes of a value, and the tree of a
  text, in which an object may still repeat a key. A text of nesting beyond 127 is refused. What is
  read back is what was written for trees without repeated keys and floats, with UTF-8 strings.
  Reading as a \<open>Value\<close> keeps the last of repeated keys, at the place of the first (\<open>dedup\<close>).
\<close>

record json_codec =
  to_vec :: "json \<Rightarrow> bytes"
  from_slice :: "bytes \<Rightarrow> json res"

fun json_fits :: "nat \<Rightarrow> json \<Rightarrow> bool" where
  "json_fits n (J_Arr xs) \<longleftrightarrow> 0 < n \<and> (\<forall>x \<in> set xs. json_fits (n - 1) x)"
| "json_fits n (J_Obj m) \<longleftrightarrow> 0 < n \<and> distinct (map fst m) \<and> (\<forall>p \<in> set m. utf8_valid (fst p) \<and> json_fits (n - 1) (snd p))"
| "json_fits n (J_Str s) \<longleftrightarrow> utf8_valid s"
| "json_fits n (J_Neg k) \<longleftrightarrow> 2 ^ 63 \<le> k"
| "json_fits n (J_Float f) \<longleftrightarrow> False"
| "json_fits n _ \<longleftrightarrow> True"

definition json_codec_ok :: "json_codec \<Rightarrow> bool" where
  "json_codec_ok J \<longleftrightarrow> (\<forall>v. json_fits 127 v \<longrightarrow> from_slice J (to_vec J v) = Inr v)"

fun dedup :: "json \<Rightarrow> json" and dedup_items :: "json list \<Rightarrow> json list"
  and dedup_entries :: "(string \<times> json) list \<Rightarrow> (string \<times> json) list" where
  "dedup (J_Arr xs) = J_Arr (dedup_items xs)"
| "dedup (J_Obj m) = J_Obj (foldl (\<lambda>acc (k, v). AList.update k v acc) [] (dedup_entries m))"
| "dedup v = v"
| "dedup_items [] = []"
| "dedup_items (x # xs) = dedup x # dedup_items xs"
| "dedup_entries [] = []"
| "dedup_entries ((k, v) # m) = (k, dedup v) # dedup_entries m"

lemma update_new: "k \<notin> fst ` set acc \<Longrightarrow> AList.update k v acc = acc @ [(k, v)]"
  by (induction acc) auto

lemma foldl_update_distinct:
  "distinct (map fst (acc @ m)) \<Longrightarrow> foldl (\<lambda>acc (k, v). AList.update k v acc) acc m = acc @ m"
proof (induction m arbitrary: acc)
  case (Cons e m)
  obtain k v where e: "e = (k, v)" by fastforce
  with Cons.prems have "AList.update k v acc = acc @ [e]" by (auto intro: update_new)
  with Cons.IH [of "acc @ [e]"] Cons.prems e show ?case by simp
qed simp

lemma dedup_wf: "json_wf v \<Longrightarrow> dedup v = v"
  and dedup_items_wf: "\<forall>x \<in> set xs. json_wf x \<Longrightarrow> dedup_items xs = xs"
  and dedup_entries_wf: "\<forall>p \<in> set m. json_wf (snd p) \<Longrightarrow> dedup_entries m = m"
  by (induction v and xs and m rule: dedup_dedup_items_dedup_entries.induct)
    (auto simp: foldl_update_distinct [of "[]", simplified])

lemma json_fits_wf: "json_fits n v \<Longrightarrow> json_wf v"
  by (induction n v rule: json_fits.induct) auto

section \<open>Lists of fallible results\<close>

text \<open>\<open>iter().map(f).collect::<Result<Vec<_>>>()\<close>: the results in order, or the first error.\<close>

fun traverse :: "('a \<Rightarrow> 'b res) \<Rightarrow> 'a list \<Rightarrow> 'b list res" where
  "traverse f [] = Inr []"
| "traverse f (x # xs) = try_then (f x) (\<lambda>y. try_then (traverse f xs) (\<lambda>ys. Inr (y # ys)))"

lemma traverse_map_Inr [simp]: "(\<And>x. x \<in> set xs \<Longrightarrow> f (g x) = Inr (h x)) \<Longrightarrow> traverse f (map g xs) = Inr (map h xs)"
  by (induction xs) auto

definition ok_or :: "string \<Rightarrow> 'a option \<Rightarrow> 'a res" where
  "ok_or e x = (case x of Some v \<Rightarrow> Inr v | None \<Rightarrow> Inl e)"

lemma ok_or_simps [simp]: "ok_or e (Some v) = Inr v" "ok_or e None = Inl e"
  by (simp_all add: ok_or_def)

section \<open>Structures\<close>

definition struct_fields :: "string list \<Rightarrow> json \<Rightarrow> (string \<times> json) list res" where
  "struct_fields names v =
     (case v of
        J_Obj m \<Rightarrow>
          if distinct (filter (\<lambda>k. k \<in> set names) (map fst m)) then Inr m else Inl ''duplicate field''
      | J_Arr xs \<Rightarrow> if length xs \<le> length names then Inr (zip names xs) else Inl ''invalid length''
      | _ \<Rightarrow> Inl ''invalid type'')"

definition field :: "(json \<Rightarrow> 'a res) \<Rightarrow> 'a option \<Rightarrow> string \<Rightarrow> (string \<times> json) list \<Rightarrow> 'a res" where
  "field decode dflt name m =
     (case map_of m name of
        Some v \<Rightarrow> decode v
      | None \<Rightarrow> (case dflt of Some d \<Rightarrow> Inr d | None \<Rightarrow> Inl (''missing field '' @ name)))"

definition de_str :: "json \<Rightarrow> string res" where "de_str v = ok_or ''invalid type'' (as_str v)"
definition de_bool :: "json \<Rightarrow> bool res" where "de_bool v = ok_or ''invalid type'' (as_bool v)"
definition de_u64 :: "json \<Rightarrow> u64 res" where "de_u64 v = ok_or ''invalid type'' (as_u64 v)"
definition de_i64 :: "json \<Rightarrow> u64 res" where "de_i64 v = ok_or ''invalid type'' (as_i64 v)"

definition de_small :: "json \<Rightarrow> ('a::len) word res" where
  "de_small v = (case as_u64 v of None \<Rightarrow> Inl ''invalid type''
     | Some n \<Rightarrow> if unat n < 2 ^ LENGTH('a) then Inr (ucast n) else Inl ''invalid value'')"

definition de_list :: "(json \<Rightarrow> 'a res) \<Rightarrow> json \<Rightarrow> 'a list res" where
  "de_list decode v = (case as_array v of None \<Rightarrow> Inl ''invalid type'' | Some xs \<Rightarrow> traverse decode xs)"

definition de_pair :: "(json \<Rightarrow> 'a res) \<Rightarrow> (json \<Rightarrow> 'b res) \<Rightarrow> json \<Rightarrow> ('a \<times> 'b) res" where
  "de_pair f g v =
     (case v of J_Arr [x, y] \<Rightarrow> try_then (f x) (\<lambda>a. try_then (g y) (\<lambda>b. Inr (a, b))) | _ \<Rightarrow> Inl ''invalid length'')"

text \<open>An \<open>Option\<close> that is null is \<open>None\<close>.\<close>

definition de_opt :: "(json \<Rightarrow> 'a res) \<Rightarrow> json \<Rightarrow> 'a option res" where
  "de_opt decode v = (case v of J_Null \<Rightarrow> Inr None | _ \<Rightarrow> try_then (decode v) (\<lambda>x. Inr (Some x)))"

lemma small_word_up:
  assumes "LENGTH('a::len) < LENGTH('b::len)"
  shows "unat (ucast (n :: 'a word) :: 'b word) = unat n" and "(ucast (ucast n :: 'b word) :: 'a word) = n"
proof -
  have "unat n < 2 ^ LENGTH('a)" by (rule unsigned_less)
  then have "unat n < 2 ^ LENGTH('b)" using assms by (meson less_trans power_strict_increasing one_less_numeral_iff semiring_norm(76))
  then show *: "unat (ucast n :: 'b word) = unat n" by (subst unsigned_ucast_eq) (rule take_bit_nat_eq_self)
  show "(ucast (ucast n :: 'b word) :: 'a word) = n"
    by (rule word_unat_eq_iff [THEN iffD2], subst unsigned_ucast_eq, unfold *)
      (rule take_bit_nat_eq_self [OF unsigned_less])
qed

lemma struct_fields_obj [simp]: "distinct (map fst m) \<Longrightarrow> struct_fields names (J_Obj m) = Inr m"
  by (simp add: struct_fields_def)

lemma de_simps [simp]:
  "de_str (J_Str s) = Inr s" "de_bool (J_Bool b) = Inr b" "de_u64 (J_Pos n) = Inr n"
  "de_i64 (json_of_i64 n) = Inr n" "de_list f (J_Arr xs) = traverse f xs"
  "de_pair f g (J_Arr [x, y]) = try_then (f x) (\<lambda>a. try_then (g y) (\<lambda>b. Inr (a, b)))"
  by (simp_all add: de_str_def de_bool_def de_u64_def de_i64_def de_list_def de_pair_def)

lemma de_small_simps [simp]: "de_small (json_of_u8 b) = Inr b" "de_small (json_of_u32 n) = Inr n"
  using unsigned_less [where w = b and ?'a = nat] unsigned_less [where w = n and ?'a = nat]
  by (simp_all add: de_small_def json_of_u8_def json_of_u32_def small_word_up)

end
