(* ===== verification/Cover_Engine.thy ===== *)
theory Cover_Engine
  imports Json_Values Server_State Voip_Crypto
begin

text \<open>
  The masking engine that client and server share (\<open>ParanoiaCover/src/engine.rs\<close>, \<open>profile.rs\<close>):
  a message is sealed, cut into chunks and spread over the carrier fields of a decoy JSON; the
  receiver collects the carriers of every variant of the schema and lets the AEAD tag decide. The
  random number generator is a parameter, threaded as a state.
\<close>

section \<open>Randomness\<close>

record 'r rng =
  next_u32 :: "'r \<Rightarrow> u32 \<times> 'r"
  fill_bytes :: "nat \<Rightarrow> 'r \<Rightarrow> bytes \<times> 'r"

definition rng_ok :: "'r rng \<Rightarrow> bool" where
  "rng_ok R \<longleftrightarrow> (\<forall>n r. length (fst (fill_bytes R n r)) = n)"

section \<open>Profiles\<close>

definition COVER_KEY_LEN :: nat where "COVER_KEY_LEN = 32"
definition MAX_SCHEMAS_PER_KIND :: nat where "MAX_SCHEMAS_PER_KIND = 10"

record optional_field =
  opt_path :: string
  opt_value :: json

record schema_variant =
  template :: json
  carriers :: "string list"
  optional :: "optional_field list"
  json_schema :: "json option"

record kind_spec =
  spec_path :: string
  spec_method :: string
  schemas :: "schema_variant list"

record masking_profile =
  profile_name :: string
  version :: u64
  cover_key_b64 :: string
  kinds :: "(string \<times> kind_spec) list"
  user_agents :: "string list"
  headers :: "(string \<times> string) list"
  cache_control :: "string option"

definition cover_key :: "crypto_env \<Rightarrow> masking_profile \<Rightarrow> bytes res" where
  "cover_key C p = try_then (decode_b64 C (cover_key_b64 p)) (\<lambda>raw.
     if length raw \<noteq> COVER_KEY_LEN
     then Inl (''cover_key must be '' @ show_nat COVER_KEY_LEN @ '' bytes, got '' @ show_nat (length raw))
     else Inr raw)"

text \<open>\<open>validate\<close>; the kinds are visited in the order in which the hash map lists them.\<close>

definition quoted :: "string \<Rightarrow> string" where
  "quoted s = [CHR 0x27] @ s @ [CHR 0x27]"

fun validate_variants :: "string \<Rightarrow> nat \<Rightarrow> schema_variant list \<Rightarrow> unit res" where
  "validate_variants kind i [] = Inr ()"
| "validate_variants kind i (v # vs) =
     (if carriers v = [] then Inl (''kind '' @ quoted kind @ '' schema #'' @ show_nat i @ '': no carrier fields'')
      else validate_variants kind (Suc i) vs)"

fun validate_kinds :: "(string \<times> kind_spec) list \<Rightarrow> unit res" where
  "validate_kinds [] = Inr ()"
| "validate_kinds ((kind, spec) # ks) =
     (if \<not> prefix ''/'' (spec_path spec) then Inl (''kind '' @ quoted kind @ '': path must start with '' @ quoted ''/'')
      else if schemas spec = [] then Inl (''kind '' @ quoted kind @ '': no schema variants'')
      else if length (schemas spec) > MAX_SCHEMAS_PER_KIND
        then Inl (''kind '' @ quoted kind @ '': '' @ show_nat (length (schemas spec)) @ '' schemas exceed limit '' @ show_nat MAX_SCHEMAS_PER_KIND)
      else try_then (validate_variants kind 0 (schemas spec)) (\<lambda>_. validate_kinds ks))"

definition validate :: "crypto_env \<Rightarrow> masking_profile \<Rightarrow> unit res" where
  "validate C p =
     (if trim (profile_name p) = [] then Inl ''profile name is empty''
      else try_then (cover_key C p) (\<lambda>_.
        if kinds p = [] then Inl ''profile has no kinds'' else validate_kinds (kinds p)))"

section \<open>The sealed envelope\<close>

definition NONCE_LEN :: nat where "NONCE_LEN = 12"

definition cover_seal :: "aead \<Rightarrow> 'r rng \<Rightarrow> bytes \<Rightarrow> bytes \<Rightarrow> 'r \<Rightarrow> bytes res \<times> 'r" where
  "cover_seal A R key plain r =
     (let (nonce, r') = fill_bytes R NONCE_LEN r
      in (case aead_seal A key nonce [] plain of
            None \<Rightarrow> Inl ''cover seal failed''
          | Some ciphertext \<Rightarrow> Inr (nonce @ ciphertext), r'))"

definition cover_open :: "aead \<Rightarrow> bytes \<Rightarrow> bytes \<Rightarrow> bytes res" where
  "cover_open A key sealed =
     (if length sealed < NONCE_LEN then Inl ''sealed payload too short''
      else case aead_open A key (take NONCE_LEN sealed) [] (drop NONCE_LEN sealed) of
             None \<Rightarrow> Inl ''cover open failed''
           | Some plain \<Rightarrow> Inr plain)"

section \<open>Chunks\<close>

fun split_loop :: "bytes \<Rightarrow> nat \<Rightarrow> nat \<Rightarrow> nat \<Rightarrow> nat \<Rightarrow> nat \<Rightarrow> bytes list" where
  "split_loop data base rem i 0 pos = []"
| "split_loop data base rem i (Suc k) pos =
     (let stop = min (pos + base + (if i < rem then 1 else 0)) (length data)
      in take (stop - pos) (drop pos data) # split_loop data base rem (Suc i) k stop)"

definition split_chunks :: "bytes \<Rightarrow> nat \<Rightarrow> bytes list" where
  "split_chunks data n = (if n = 0 then [] else split_loop data (length data div n) (length data mod n) 0 n 0)"

section \<open>Paths\<close>

text \<open>
  A path is split at its dots; a segment that parses as a \<open>usize\<close> (\<open>+7\<close> and \<open>007\<close> do) is an index,
  any other is a key.
\<close>

fun split_on :: "char \<Rightarrow> string \<Rightarrow> string list" where
  "split_on d [] = [[]]"
| "split_on d (c # cs) =
     (if c = d then [] # split_on d cs
      else case split_on d cs of [] \<Rightarrow> [[c]] | seg # segs \<Rightarrow> (c # seg) # segs)"

datatype segment = Idx nat | Key string

definition segment_of :: "string \<Rightarrow> segment" where
  "segment_of seg = (case parse_u64 seg of Some i \<Rightarrow> Idx (unat i) | None \<Rightarrow> Key seg)"

definition segments :: "string \<Rightarrow> segment list" where
  "segments path = map segment_of (split_on CHR ''.'' path)"

fun get_segs :: "json \<Rightarrow> segment list \<Rightarrow> json option" where
  "get_segs v [] = Some v"
| "get_segs v (Idx i # segs) = (case get_idx i v of None \<Rightarrow> None | Some x \<Rightarrow> get_segs x segs)"
| "get_segs v (Key k # segs) = (case get_key k v of None \<Rightarrow> None | Some x \<Rightarrow> get_segs x segs)"

definition get_path :: "json \<Rightarrow> string \<Rightarrow> json option" where
  "get_path v path = get_segs v (segments path)"

definition ensure_object :: "json \<Rightarrow> (string \<times> json) list" where
  "ensure_object v = (case v of J_Obj m \<Rightarrow> m | _ \<Rightarrow> [])"

fun set_path_rec :: "json \<Rightarrow> segment list \<Rightarrow> json \<Rightarrow> json res" where
  "set_path_rec v [] leaf = Inl ''empty carrier path''"
| "set_path_rec v (Idx i # rest) leaf =
     (case v of
        J_Arr xs \<Rightarrow>
          if i < length xs then
            if rest = [] then Inr (J_Arr (xs[i := leaf]))
            else try_then (set_path_rec (xs ! i) rest leaf) (\<lambda>x. Inr (J_Arr (xs[i := x])))
          else Inl (''array index '' @ show_nat i @ '' out of range'')
      | _ \<Rightarrow> Inl ''expected array at index segment'')"
| "set_path_rec v (Key k # rest) leaf =
     (let m = ensure_object v
      in if rest = [] then Inr (J_Obj (AList.update k leaf m))
         else try_then (set_path_rec (case map_of m k of Some x \<Rightarrow> x | None \<Rightarrow> J_Obj []) rest leaf)
                (\<lambda>x. Inr (J_Obj (AList.update k x m))))"

definition set_path :: "json \<Rightarrow> string \<Rightarrow> json \<Rightarrow> json res" where
  "set_path v path leaf = set_path_rec v (segments path) leaf"

section \<open>Shuffling the keys\<close>

definition swap :: "'a list \<Rightarrow> nat \<Rightarrow> nat \<Rightarrow> 'a list" where
  "swap xs i j = xs[i := xs ! j, j := xs ! i]"

text \<open>\<open>fisher_yates\<close> visits the positions from the last to 1.\<close>

fun fisher_yates :: "'r rng \<Rightarrow> nat \<Rightarrow> 'a list \<Rightarrow> 'r \<Rightarrow> 'a list \<times> 'r" where
  "fisher_yates R 0 xs r = (xs, r)"
| "fisher_yates R (Suc i) xs r =
     (let (n, r') = next_u32 R r
      in fisher_yates R i (swap xs (Suc i) (unat n mod (Suc i + 1))) r')"

fun shuffle_keys :: "'r rng \<Rightarrow> json \<Rightarrow> 'r \<Rightarrow> json \<times> 'r"
  and shuffle_items :: "'r rng \<Rightarrow> json list \<Rightarrow> 'r \<Rightarrow> json list \<times> 'r"
  and shuffle_entries :: "'r rng \<Rightarrow> (string \<times> json) list \<Rightarrow> 'r \<Rightarrow> (string \<times> json) list \<times> 'r" where
  "shuffle_keys R (J_Obj m) r =
     (let (m', r1) = shuffle_entries R m r;
          (entries, r2) = fisher_yates R (length m' - 1) m' r1
      in (J_Obj (foldl (\<lambda>acc (k, v). AList.update k v acc) [] entries), r2))"
| "shuffle_keys R (J_Arr xs) r = (let (ys, r') = shuffle_items R xs r in (J_Arr ys, r'))"
| "shuffle_keys R v r = (v, r)"
| "shuffle_items R [] r = ([], r)"
| "shuffle_items R (x # xs) r =
     (let (y, r1) = shuffle_keys R x r; (ys, r2) = shuffle_items R xs r1 in (y # ys, r2))"
| "shuffle_entries R [] r = ([], r)"
| "shuffle_entries R ((k, x) # m) r =
     (let (y, r1) = shuffle_keys R x r; (ys, r2) = shuffle_entries R m r1 in ((k, y) # ys, r2))"

section \<open>Packets\<close>

fun set_carriers :: "crypto_env \<Rightarrow> string list \<Rightarrow> bytes list \<Rightarrow> json \<Rightarrow> json res" where
  "set_carriers C (path # paths) (chunk # chunks) v =
     try_then (set_path v path (J_Str (encode_b64 C chunk))) (set_carriers C paths chunks)"
| "set_carriers C _ _ v = Inr v"

fun set_optional :: "'r rng \<Rightarrow> optional_field list \<Rightarrow> json \<Rightarrow> 'r \<Rightarrow> json res \<times> 'r" where
  "set_optional R [] v r = (Inr v, r)"
| "set_optional R (opt # opts) v r =
     (let (n, r') = next_u32 R r
      in if n AND 1 = 0 then
           (case set_path v (opt_path opt) (opt_value opt) of
              Inl e \<Rightarrow> (Inl e, r')
            | Inr v' \<Rightarrow> set_optional R opts v' r')
         else set_optional R opts v r')"

definition build_packet :: "crypto_env \<Rightarrow> 'r rng \<Rightarrow> schema_variant \<Rightarrow> bytes \<Rightarrow> 'r \<Rightarrow> json res \<times> 'r" where
  "build_packet C R variant sealed r =
     (case set_carriers C (carriers variant) (split_chunks sealed (length (carriers variant))) (template variant) of
        Inl e \<Rightarrow> (Inl e, r)
      | Inr out \<Rightarrow>
          (case set_optional R (optional variant) out r of
             (Inl e, r') \<Rightarrow> (Inl e, r')
           | (Inr out', r') \<Rightarrow> (case shuffle_keys R out' r' of (v, r'') \<Rightarrow> (Inr v, r''))))"

fun extract_from :: "crypto_env \<Rightarrow> string list \<Rightarrow> json \<Rightarrow> bytes option" where
  "extract_from C [] body = Some []"
| "extract_from C (path # paths) body =
     (case get_path body path of None \<Rightarrow> None
      | Some v \<Rightarrow>
      case as_str v of None \<Rightarrow> None
      | Some s \<Rightarrow>
      case decode_b64 C s of Inl _ \<Rightarrow> None
      | Inr chunk \<Rightarrow> map_option (\<lambda>rest. chunk @ rest) (extract_from C paths body))"

definition extract_sealed :: "crypto_env \<Rightarrow> schema_variant \<Rightarrow> json \<Rightarrow> bytes option" where
  "extract_sealed C variant body = extract_from C (carriers variant) body"

section \<open>wrap and unwrap\<close>

text \<open>The remainder by the number of variants panics when there are none; \<open>validate\<close> excludes that.\<close>

definition find_kind :: "masking_profile \<Rightarrow> string \<Rightarrow> kind_spec res" where
  "find_kind p kind = ok_or (''unknown kind '' @ quoted kind) (map_of (kinds p) kind)"

definition seal_into :: "crypto_env \<Rightarrow> aead \<Rightarrow> 'r rng \<Rightarrow> masking_profile \<Rightarrow> schema_variant \<Rightarrow> bytes \<Rightarrow> 'r \<Rightarrow> json res \<times> 'r" where
  "seal_into C A R p variant inner r =
     (case cover_key C p of
        Inl e \<Rightarrow> (Inl e, r)
      | Inr key \<Rightarrow>
          (case cover_seal A R key inner r of
             (Inl e, r') \<Rightarrow> (Inl e, r')
           | (Inr sealed, r') \<Rightarrow> build_packet C R variant sealed r'))"

definition wrap :: "crypto_env \<Rightarrow> aead \<Rightarrow> 'r rng \<Rightarrow> masking_profile \<Rightarrow> string \<Rightarrow> bytes \<Rightarrow> 'r \<Rightarrow> json res \<times> 'r" where
  "wrap C A R p kind inner r =
     (case find_kind p kind of
        Inl e \<Rightarrow> (Inl e, r)
      | Inr spec \<Rightarrow>
          if schemas spec = [] then (Inl ''attempt to calculate the remainder with a divisor of zero'', r)
          else let (n, r1) = next_u32 R r
               in seal_into C A R p (schemas spec ! (unat n mod length (schemas spec))) inner r1)"

fun try_variants :: "crypto_env \<Rightarrow> aead \<Rightarrow> bytes \<Rightarrow> json \<Rightarrow> schema_variant list \<Rightarrow> bytes option" where
  "try_variants C A key body [] = None"
| "try_variants C A key body (v # vs) =
     (case extract_sealed C v body of
        None \<Rightarrow> try_variants C A key body vs
      | Some sealed \<Rightarrow>
          (case cover_open A key sealed of
             Inr plain \<Rightarrow> Some plain
           | Inl _ \<Rightarrow> try_variants C A key body vs))"

definition unwrap :: "crypto_env \<Rightarrow> aead \<Rightarrow> masking_profile \<Rightarrow> string \<Rightarrow> json \<Rightarrow> bytes res" where
  "unwrap C A p kind body =
     try_then (find_kind p kind) (\<lambda>spec.
       try_then (cover_key C p) (\<lambda>key.
         ok_or (''no schema variant matched for kind '' @ quoted kind) (try_variants C A key body (schemas spec))))"

definition sample_packet :: "crypto_env \<Rightarrow> aead \<Rightarrow> 'r rng \<Rightarrow> masking_profile \<Rightarrow> string \<Rightarrow> nat \<Rightarrow> bytes \<Rightarrow> 'r \<Rightarrow> json res \<times> 'r" where
  "sample_packet C A R p kind i inner r =
     (case find_kind p kind of
        Inl e \<Rightarrow> (Inl e, r)
      | Inr spec \<Rightarrow>
          if i < length (schemas spec) then seal_into C A R p (schemas spec ! i) inner r
          else (Inl (''variant index '' @ show_nat i @ '' out of range for '' @ quoted kind), r))"

section \<open>Signed profiles\<close>

text \<open>
  \<open>signed.rs\<close>. A profile file is parsed by \<open>parse\<close> (the derived deserialisation of the profile) and
  validated; \<open>sign\<close> is Ed25519 signing with a seed.
\<close>

record signed_profile =
  profile_json :: string
  sig_b64 :: string

definition profile_from_json :: "crypto_env \<Rightarrow> (string \<Rightarrow> masking_profile res) \<Rightarrow> string \<Rightarrow> masking_profile res" where
  "profile_from_json C parse s = try_then (parse s) (\<lambda>p. try_then (validate C p) (\<lambda>_. Inr p))"

definition sign_profile :: "crypto_env \<Rightarrow> (string \<Rightarrow> masking_profile res) \<Rightarrow> (bytes \<Rightarrow> bytes \<Rightarrow> bytes) \<Rightarrow> string \<Rightarrow> bytes \<Rightarrow> signed_profile res" where
  "sign_profile C parse sign s seed =
     try_then (profile_from_json C parse s) (\<lambda>_.
       Inr \<lparr>profile_json = s, sig_b64 = encode_b64 C (sign seed (as_bytes s))\<rparr>)"

definition verify_profile :: "crypto_env \<Rightarrow> (string \<Rightarrow> masking_profile res) \<Rightarrow> signed_profile \<Rightarrow> bytes \<Rightarrow> masking_profile res" where
  "verify_profile C parse sp trusted_pubkey =
     (case ed_from_bytes C trusted_pubkey of
        Inl e \<Rightarrow> Inl (''bad trusted pubkey: '' @ e)
      | Inr vk \<Rightarrow>
      case b64_decode C (trim (sig_b64 sp)) of
        Inl e \<Rightarrow> Inl (''bad sig b64: '' @ e)
      | Inr sig \<Rightarrow>
      if length sig \<noteq> 64 then Inl ''bad sig: signature error''
      else if ed_verify C vk (as_bytes (profile_json sp)) sig then profile_from_json C parse (profile_json sp)
      else Inl ''profile signature invalid'')"

end
