(* ===== verification/Client_Crypto.thy ===== *)
theory Client_Crypto
  imports Cover_Engine "HOL-Library.Multiset"
begin

text \<open>
  The cryptography of the client (\<open>ParanoiaLibrary/src/crypto.rs\<close>), the keys of an administrator
  (\<open>admin.rs\<close>) and the keyring of a dialogue (\<open>types.rs\<close>). Ed25519 signing is a parameter
  (\<open>signer\<close>); its law \<open>signer_ok\<close> says that the server verifies what was signed with the key whose
  public half it holds.
\<close>

section \<open>Encryption\<close>

definition encrypt_aad :: "aead \<Rightarrow> 'r rng \<Rightarrow> bytes \<Rightarrow> bytes \<Rightarrow> bytes \<Rightarrow> 'r \<Rightarrow> bytes res \<times> 'r" where
  "encrypt_aad A R key aad plaintext r =
     (let (nonce, r') = fill_bytes R 12 r
      in (case aead_seal A key nonce aad plaintext of
            None \<Rightarrow> Inl ''Encryption failed''
          | Some ciphertext \<Rightarrow> Inr (nonce @ ciphertext), r'))"

definition encrypt :: "aead \<Rightarrow> 'r rng \<Rightarrow> bytes \<Rightarrow> bytes \<Rightarrow> 'r \<Rightarrow> bytes res \<times> 'r" where
  "encrypt A R key plaintext r = encrypt_aad A R key [] plaintext r"

definition decrypt_aad :: "aead \<Rightarrow> bytes \<Rightarrow> bytes \<Rightarrow> bytes \<Rightarrow> bytes res" where
  "decrypt_aad A key aad data =
     (if length data < 12 then Inl ''Ciphertext too short''
      else case aead_open A key (take 12 data) aad (drop 12 data) of
             None \<Rightarrow> Inl ''Decryption failed - wrong key or corrupted data''
           | Some plaintext \<Rightarrow> Inr plaintext)"

definition decrypt :: "aead \<Rightarrow> bytes \<Rightarrow> bytes \<Rightarrow> bytes res" where
  "decrypt A key data = decrypt_aad A key [] data"

section \<open>Signatures\<close>

record signer =
  sk_public :: "bytes \<Rightarrow> bytes"
  sk_sign :: "bytes \<Rightarrow> bytes \<Rightarrow> bytes"

definition client_verify :: "crypto_env \<Rightarrow> bytes \<Rightarrow> bytes \<Rightarrow> bytes \<Rightarrow> unit res" where
  "client_verify C key msg sig_bytes =
     (if length sig_bytes \<noteq> 64 then Inl ''Signature must be 64 bytes''
      else if ed_verify C key msg sig_bytes then Inr () else Inl ''Invalid signature'')"

definition signer_ok :: "crypto_env \<Rightarrow> signer \<Rightarrow> bool" where
  "signer_ok C K \<longleftrightarrow> (\<forall>seed. length seed = 32 \<longrightarrow> length (sk_public K seed) = 32 \<and>
     (\<forall>m. verify_signature C (sk_public K seed) m (sk_sign K seed m) = Inr ()))"

text \<open>The client has its own copy of the function.\<close>

definition client_dialogue_id :: "crypto_env \<Rightarrow> string \<Rightarrow> string \<Rightarrow> string" where
  "client_dialogue_id C a b =
     (let (first, second) = (if a < b then (a, b) else (b, a))
      in hex_encode C (sha256 C (as_bytes first @ as_bytes '':'' @ as_bytes second)))"

section \<open>The keys of an administrator\<close>

text \<open>An \<open>AdminKeyPair\<close> is the seed of its private key.\<close>

definition admin_generate :: "'r rng \<Rightarrow> 'r \<Rightarrow> bytes \<times> 'r" where
  "admin_generate R r = fill_bytes R 32 r"

definition from_secret_b64 :: "crypto_env \<Rightarrow> string \<Rightarrow> bytes res" where
  "from_secret_b64 C sk_b64 = try_then (with_context ''Bad admin secret base64'' (b64_decode C sk_b64)) (\<lambda>seed.
     if length seed \<noteq> 32 then Inl (''Admin secret must be 32 bytes, got '' @ show_nat (length seed)) else Inr seed)"

definition pubkey_b64 :: "crypto_env \<Rightarrow> signer \<Rightarrow> bytes \<Rightarrow> string" where
  "pubkey_b64 C K seed = b64_encode C (sk_public K seed)"

definition secret_b64 :: "crypto_env \<Rightarrow> bytes \<Rightarrow> string" where
  "secret_b64 C seed = b64_encode C seed"

definition sign_canonical :: "crypto_env \<Rightarrow> signer \<Rightarrow> bytes \<Rightarrow> string \<Rightarrow> string" where
  "sign_canonical C K seed msg = b64_encode C (sk_sign K seed (as_bytes msg))"

definition sign_user_registration :: "crypto_env \<Rightarrow> signer \<Rightarrow> bytes \<Rightarrow> string \<Rightarrow> string \<Rightarrow> string" where
  "sign_user_registration C K seed username user_pubkey_b64 =
     b64_encode C (sk_sign K seed (as_bytes (username @ user_pubkey_b64)))"

section \<open>The keyring of a dialogue\<close>

record key_entry =
  start_seq :: u64
  entry_key :: bytes

fun check_starts :: "u64 option \<Rightarrow> key_entry list \<Rightarrow> unit res" where
  "check_starts previous [] = Inr ()"
| "check_starts previous (e # es) =
     (if start_seq e = 0 then Inl ''invalid keyring start_seq''
      else if previous = Some (start_seq e) then Inl ''duplicate keyring start_seq''
      else check_starts (Some (start_seq e)) es)"

text \<open>The vector is sorted in place before the check, so it stays sorted when the check fails.\<close>

definition normalize_keyring :: "key_entry list \<Rightarrow> unit res \<times> key_entry list" where
  "normalize_keyring keyring =
     (if keyring = [] then (Inl ''empty dialogue keyring'', keyring)
      else let sorted_ring = sort_key start_seq keyring in (check_starts None sorted_ring, sorted_ring))"

record dialogue_key =
  dk_a :: string
  dk_b :: string

definition new_dialogue_key :: "string \<Rightarrow> string \<Rightarrow> dialogue_key" where
  "new_dialogue_key x y = (if x < y then \<lparr>dk_a = x, dk_b = y\<rparr> else \<lparr>dk_a = y, dk_b = x\<rparr>)"

record dialogue_config =
  dc_key :: dialogue_key
  keyring :: "key_entry list"

definition single_key :: "dialogue_key \<Rightarrow> bytes \<Rightarrow> dialogue_config" where
  "single_key k session_key = \<lparr>dc_key = k, keyring = [\<lparr>start_seq = 1, entry_key = session_key\<rparr>]\<rparr>"

definition with_keyring :: "dialogue_key \<Rightarrow> key_entry list \<Rightarrow> dialogue_config res" where
  "with_keyring k ring = (case normalize_keyring ring of
     (Inl e, _) \<Rightarrow> Inl e | (Inr _, ring') \<Rightarrow> Inr \<lparr>dc_key = k, keyring = ring'\<rparr>)"

definition key_for_seq :: "dialogue_config \<Rightarrow> u64 \<Rightarrow> bytes res" where
  "key_for_seq cfg s =
     (case find (\<lambda>e. start_seq e \<le> s) (rev (keyring cfg)) of
        Some e \<Rightarrow> Inr (entry_key e)
      | None \<Rightarrow> Inl (''no dialogue key for seq '' @ show_nat (unat s)))"

section \<open>Topics\<close>

text \<open>Lower case of the Unicode characters is a parameter.\<close>

fun split_whitespace :: "nat \<Rightarrow> string \<Rightarrow> string \<Rightarrow> string list" where
  "split_whitespace 0 w s = (if w = [] then [] else [w])"
| "split_whitespace (Suc n) w s =
     (case s of
        [] \<Rightarrow> if w = [] then [] else [w]
      | c # cs \<Rightarrow>
          (case find (\<lambda>p. prefix p s) white_space of
             Some p \<Rightarrow> (if w = [] then [] else [w]) @ split_whitespace n [] (drop (length p) s)
           | None \<Rightarrow> split_whitespace n (w @ [c]) cs))"

fun join_words :: "string list \<Rightarrow> string" where
  "join_words [] = []"
| "join_words [w] = w"
| "join_words (w # ws) = w @ '' '' @ join_words ws"

definition normalize_topic_name :: "(string \<Rightarrow> string) \<Rightarrow> string \<Rightarrow> string" where
  "normalize_topic_name lower name = lower (join_words (split_whitespace (length name) [] name))"

definition derive_topic_id :: "crypto_env \<Rightarrow> (string \<Rightarrow> string) \<Rightarrow> dialogue_key \<Rightarrow> string \<Rightarrow> string" where
  "derive_topic_id C lower k name =
     hex_encode C (sha256 C (as_bytes (''paranoia:topic:v1'' @ [CHR 0x0A] @ dk_a k @ [CHR 0x0A] @ dk_b k @ [CHR 0x0A] @
       normalize_topic_name lower name)))"

section \<open>Lemmas\<close>

lemma client_dialogue_id_eq: "client_dialogue_id C a b = make_dialogue_id C a b"
  by (simp add: client_dialogue_id_def make_dialogue_id_def as_bytes_def)

lemma encrypt_decrypt:
  assumes "aead_ok A" and "rng_ok R" and "length plaintext < 2 ^ 32"
  shows "\<exists>data r'. encrypt_aad A R key aad plaintext r = (Inr data, r') \<and> decrypt_aad A key aad data = Inr plaintext \<and>
    length data = 28 + length plaintext"
proof -
  obtain nonce r' where n: "fill_bytes R 12 r = (nonce, r')" by fastforce
  with assms(2) have len: "length nonce = 12" unfolding rng_ok_def by (metis fst_conv)
  obtain c where c: "aead_seal A key nonce aad plaintext = Some c"
    using aead_okD(1) [OF assms(1), of plaintext key nonce aad] assms(3) by auto
  then have "aead_open A key nonce aad c = Some plaintext" "length c = length plaintext + 16"
    using aead_okD [OF assms(1)] len assms(3) by (auto simp: VOIP_TAG_LEN_def)
  with n len c show ?thesis by (simp add: encrypt_aad_def decrypt_aad_def)
qed

lemma from_secret_b64_secret: "crypto_ok C \<Longrightarrow> length seed = 32 \<Longrightarrow> from_secret_b64 C (secret_b64 C seed) = Inr seed"
  by (simp add: crypto_ok_def from_secret_b64_def secret_b64_def with_context_def)

section \<open>Keyrings\<close>

lemma check_starts_sorted:
  "sorted (map start_seq es) \<Longrightarrow> (\<forall>x. previous = Some x \<longrightarrow> (\<forall>e \<in> set es. x \<le> start_seq e)) \<Longrightarrow>
    check_starts previous es = Inr () \<longleftrightarrow>
      (\<forall>e \<in> set es. start_seq e \<noteq> 0 \<and> previous \<noteq> Some (start_seq e)) \<and> distinct (map start_seq es)"
proof (induction previous es rule: check_starts.induct)
  case (2 previous e es)
  then show ?case by auto
qed simp

lemma distinct_sorted_ring: "distinct (map start_seq (sort_key start_seq ring)) = distinct (map start_seq ring)"
  by (rule mset_eq_imp_distinct_iff) simp

lemma normalize_ok_iff:
  "fst (normalize_keyring ring) = Inr () \<longleftrightarrow> ring \<noteq> [] \<and> (\<forall>e \<in> set ring. start_seq e \<noteq> 0) \<and> distinct (map start_seq ring)"
proof -
  show ?thesis by (simp add: normalize_keyring_def Let_def check_starts_sorted distinct_sorted_ring)
qed

lemma with_keyring_iff:
  "with_keyring k ring = Inr cfg \<longleftrightarrow> ring \<noteq> [] \<and> (\<forall>e \<in> set ring. start_seq e \<noteq> 0) \<and> distinct (map start_seq ring) \<and>
     cfg = \<lparr>dc_key = k, keyring = sort_key start_seq ring\<rparr>"
  using normalize_ok_iff [of ring]
  by (auto simp: with_keyring_def normalize_keyring_def Let_def split: sum.splits prod.splits if_splits)

lemma find_last_start:
  assumes "sorted_wrt (<) (map start_seq es)"
  shows "find (\<lambda>e. start_seq e \<le> s) (rev es) = Some e \<longleftrightarrow>
    e \<in> set es \<and> start_seq e \<le> s \<and> (\<forall>e' \<in> set es. start_seq e' \<le> s \<longrightarrow> start_seq e' \<le> start_seq e)"
  using assms
proof (induction es rule: rev_induct)
  case (snoc x es)
  then have IH: "sorted_wrt (<) (map start_seq es)" "\<forall>y \<in> set es. start_seq y < start_seq x"
    by (auto simp: sorted_wrt_append)
  show ?case
  proof (cases "start_seq x \<le> s")
    case True
    then show ?thesis using IH(2) by (fastforce dest: less_imp_le)
  next
    case False
    then show ?thesis using snoc.IH [OF IH(1)] by auto
  qed
qed simp

lemma key_for_seq_sorted:
  assumes "distinct (map start_seq ring)"
  shows "key_for_seq \<lparr>dc_key = k, keyring = sort_key start_seq ring\<rparr> s = Inr key \<longleftrightarrow>
     (\<exists>e \<in> set ring. start_seq e \<le> s \<and> entry_key e = key \<and> (\<forall>e' \<in> set ring. start_seq e' \<le> s \<longrightarrow> start_seq e' \<le> start_seq e))"
proof -
  have "sorted_wrt (<) (map start_seq (sort_key start_seq ring))"
    using assms by (simp add: strict_sorted_iff distinct_sorted_ring)
  from find_last_start [OF this, of s, unfolded set_sort]
  have "(\<exists>e. find (\<lambda>e. start_seq e \<le> s) (rev (sort_key start_seq ring)) = Some e \<and> entry_key e = key) \<longleftrightarrow>
     (\<exists>e \<in> set ring. start_seq e \<le> s \<and> entry_key e = key \<and> (\<forall>e' \<in> set ring. start_seq e' \<le> s \<longrightarrow> start_seq e' \<le> start_seq e))"
    by auto
  then show ?thesis by (auto simp: key_for_seq_def split: option.splits)
qed

text \<open>
  C25. The keyring of a dialogue: it is accepted exactly when it is not empty and its entries start at
  different, positive numbers. The key of a message is then that of the entry with the greatest start
  that is not after the number of the message, whatever the order in which the entries came.
\<close>

theorem keyring_exact:
  "case with_keyring k ring of
     Inl _ \<Rightarrow> ring = [] \<or> (\<exists>e \<in> set ring. start_seq e = 0) \<or> \<not> distinct (map start_seq ring)
   | Inr cfg \<Rightarrow> ring \<noteq> [] \<and> (\<forall>e \<in> set ring. start_seq e \<noteq> 0) \<and> distinct (map start_seq ring) \<and>
       (\<forall>s key. key_for_seq cfg s = Inr key \<longleftrightarrow> (\<exists>e \<in> set ring. start_seq e \<le> s \<and> entry_key e = key \<and>
          (\<forall>e' \<in> set ring. start_seq e' \<le> s \<longrightarrow> start_seq e' \<le> start_seq e)))"
proof (cases "with_keyring k ring")
  case (Inl e)
  then show ?thesis using with_keyring_iff [of k ring] by auto
next
  case (Inr cfg)
  then show ?thesis using with_keyring_iff [of k ring cfg] key_for_seq_sorted [of ring] by simp
qed

theorem keyring_exact_witness:
  "\<exists>cfg. with_keyring \<lparr>dk_a = ''a'', dk_b = ''b''\<rparr> [\<lparr>start_seq = 8, entry_key = [2]\<rparr>, \<lparr>start_seq = 1, entry_key = [1]\<rparr>] = Inr cfg \<and>
     key_for_seq cfg 7 = Inr [1] \<and> key_for_seq cfg 8 = Inr [2]"
proof -
  let ?ring = "[\<lparr>start_seq = 8, entry_key = [2]\<rparr>, \<lparr>start_seq = 1, entry_key = [1]\<rparr>] :: key_entry list"
  obtain cfg where cfg: "with_keyring \<lparr>dk_a = ''a'', dk_b = ''b''\<rparr> ?ring = Inr cfg"
    using keyring_exact [where k = "\<lparr>dk_a = ''a'', dk_b = ''b''\<rparr>" and ring = ?ring] by (auto split: sum.splits)
  with keyring_exact [where k = "\<lparr>dk_a = ''a'', dk_b = ''b''\<rparr>" and ring = ?ring] show ?thesis by auto
qed

end
