(* ===== verification/Cover_Traits.thy ===== *)
theory Cover_Traits
  imports Json_Values Packet_Routes Call_Signals
begin

text \<open>
  The two masking interfaces: the trait \<open>ClientCover\<close> of the client library
  (\<open>ParanoiaLibrary/src/client_cover.rs\<close>) and the trait \<open>Cover\<close> of the server
  (\<open>ParanoiaServer/src/cover.rs\<close>), each as a record of its methods (a \<open>dyn\<close> object), the requests
  that the client hands to them (\<open>ParanoiaLibrary/src/transport.rs\<close>), and the handlers that put a
  cover around the logic of a route. What the
  generator of random numbers does is threaded as a state through every method that wraps.
\<close>

section \<open>Requests and answers of the client\<close>

record core_push =
  cp_sender :: string
  cp_recver :: string
  cp_seq :: u64
  cp_payload :: bytes
  cp_push_sig :: bytes

text \<open>\<open>CorePull\<close>, \<open>CoreMap\<close> and \<open>CoreDeterminate\<close> have the same fields.\<close>

record core_range =
  cr_sender :: string
  cr_recver :: string
  cr_from :: u64
  cr_to :: u64
  cr_sig :: bytes

record core_notify =
  cn_sender :: string
  cn_partner :: string
  cn_seq :: u64
  cn_sig :: bytes
  cn_long_poll_ms :: u32

record core_notify_multi =
  cm_sender :: string
  cm_items :: "(string \<times> u64) list"
  cm_sig :: bytes
  cm_long_poll_ms :: u32

record core_call_signal =
  cs_sender :: string
  cs_recver :: string
  cs_kind :: byte
  cs_payload :: bytes
  cs_ts_ms :: u64
  cs_sig :: bytes

record core_call_poll =
  cl_user :: string
  cl_nonce :: u64
  cl_long_poll_ms :: u32
  cl_sig :: bytes

record raw_packet =
  rp_seq :: u64
  rp_payload :: bytes

record map_answer =
  ma_runs :: "(u64 \<times> u64) list"
  ma_last_seq :: u64
  ma_truncated :: bool

record call_envelope_in =
  in_sender :: string
  in_kind :: byte
  in_payload :: bytes
  in_ts_ms :: u64

section \<open>The traits\<close>

record cover_route =
  route_path :: string
  route_method :: string

record 'r client_cover =
  route :: "string \<Rightarrow> cover_route option"
  wrap_kind :: "string \<Rightarrow> bytes \<Rightarrow> 'r \<Rightarrow> json option \<times> 'r"
  unwrap_kind :: "string \<Rightarrow> json \<Rightarrow> bytes option"
  wrap_push :: "core_push \<Rightarrow> 'r \<Rightarrow> json res \<times> 'r"
  wrap_pull :: "core_range \<Rightarrow> 'r \<Rightarrow> json res \<times> 'r"
  wrap_map :: "core_range \<Rightarrow> 'r \<Rightarrow> json res \<times> 'r"
  wrap_notify :: "core_notify \<Rightarrow> 'r \<Rightarrow> json res \<times> 'r"
  wrap_notify_multi :: "core_notify_multi \<Rightarrow> 'r \<Rightarrow> json res \<times> 'r"
  wrap_determinate :: "core_range \<Rightarrow> 'r \<Rightarrow> json res \<times> 'r"
  wrap_call_signal :: "core_call_signal \<Rightarrow> 'r \<Rightarrow> json res \<times> 'r"
  wrap_call_poll :: "core_call_poll \<Rightarrow> 'r \<Rightarrow> json res \<times> 'r"
  unwrap_push_response :: "json \<Rightarrow> unit res"
  unwrap_pull_response :: "json \<Rightarrow> raw_packet list res"
  unwrap_map_response :: "json \<Rightarrow> map_answer res"
  unwrap_notify_response :: "json \<Rightarrow> u64 res"
  unwrap_notify_response_multi :: "json \<Rightarrow> (string \<times> u64) list res"
  unwrap_determinate_response :: "json \<Rightarrow> unit res"
  unwrap_call_signal_response :: "json \<Rightarrow> unit res"
  unwrap_call_poll_response :: "json \<Rightarrow> call_envelope_in list res"

record 'r server_cover =
  unwrap_push :: "json \<Rightarrow> push_request res"
  unwrap_pull :: "json \<Rightarrow> range_request res"
  unwrap_map :: "json \<Rightarrow> range_request res"
  unwrap_notify :: "json \<Rightarrow> notify_request res"
  unwrap_determinate :: "json \<Rightarrow> range_request res"
  unwrap_call_signal :: "json \<Rightarrow> call_signal_request res"
  unwrap_call_poll :: "json \<Rightarrow> call_poll_request res"
  wrap_push_response :: "api_response \<Rightarrow> 'r \<Rightarrow> json \<times> 'r"
  wrap_pull_response :: "pull_response \<Rightarrow> 'r \<Rightarrow> json \<times> 'r"
  wrap_map_response :: "map_response \<Rightarrow> 'r \<Rightarrow> json \<times> 'r"
  wrap_notify_response :: "notify_response \<Rightarrow> 'r \<Rightarrow> json \<times> 'r"
  wrap_determinate_response :: "api_response \<Rightarrow> 'r \<Rightarrow> json \<times> 'r"
  wrap_call_signal_response :: "api_response \<Rightarrow> 'r \<Rightarrow> json \<times> 'r"
  wrap_call_poll_response :: "call_poll_response \<Rightarrow> 'r \<Rightarrow> json \<times> 'r"

section \<open>The handlers of the routes\<close>

definition bad_cover :: "string \<Rightarrow> json" where
  "bad_cover e = J_Obj [(''ok'', J_Bool False), (''status'', J_Str ''error''), (''message'', J_Str (''Bad cover: '' @ e))]"

definition handle_push :: "'r server_cover \<Rightarrow> 'db server_env \<Rightarrow> server_config \<Rightarrow> u64 \<Rightarrow> 'db \<Rightarrow> json \<Rightarrow> 'r \<Rightarrow>
    (json \<times> 'r) \<times> 'db \<times> string option" where
  "handle_push sc E cfg now db body r =
     (case unwrap_push sc body of
        Inl e \<Rightarrow> ((bad_cover e, r), db, None)
      | Inr req \<Rightarrow> (case do_push E cfg now db req of (resp, db', woken) \<Rightarrow> (wrap_push_response sc resp r, db', woken)))"

definition handle_pull :: "'r server_cover \<Rightarrow> 'db server_env \<Rightarrow> server_config \<Rightarrow> u64 \<Rightarrow> 'db \<Rightarrow> json \<Rightarrow> 'r \<Rightarrow>
    (json \<times> 'r) \<times> 'db" where
  "handle_pull sc E cfg now db body r =
     (case unwrap_pull sc body of
        Inl e \<Rightarrow> ((bad_cover e, r), db)
      | Inr req \<Rightarrow> (case do_pull E cfg now db req of (resp, db') \<Rightarrow> (wrap_pull_response sc resp r, db')))"

definition handle_map :: "'r server_cover \<Rightarrow> 'db server_env \<Rightarrow> server_config \<Rightarrow> 'db \<Rightarrow> json \<Rightarrow> 'r \<Rightarrow> json \<times> 'r" where
  "handle_map sc E cfg db body r =
     (case unwrap_map sc body of
        Inl e \<Rightarrow> (bad_cover e, r)
      | Inr req \<Rightarrow> wrap_map_response sc (do_map E cfg db req) r)"

definition handle_determinate :: "'r server_cover \<Rightarrow> 'db server_env \<Rightarrow> server_config \<Rightarrow> 'db \<Rightarrow> json \<Rightarrow> 'r \<Rightarrow>
    (json \<times> 'r) \<times> 'db" where
  "handle_determinate sc E cfg db body r =
     (case unwrap_determinate sc body of
        Inl e \<Rightarrow> ((bad_cover e, r), db)
      | Inr req \<Rightarrow> (case do_determinate E cfg db req of (resp, db') \<Rightarrow> (wrap_determinate_response sc resp r, db')))"

text \<open>A request without items is the single mode.\<close>

definition handle_notify :: "'r server_cover \<Rightarrow> 'db server_env \<Rightarrow> server_config \<Rightarrow> server_config \<Rightarrow> 'db \<Rightarrow> 'db \<Rightarrow> 'db \<Rightarrow> json \<Rightarrow> 'r \<Rightarrow>
    json \<times> 'r" where
  "handle_notify sc E cfg0 cfg1 db0 db1 db2 body r =
     (case unwrap_notify sc body of
        Inl e \<Rightarrow> (bad_cover e, r)
      | Inr req \<Rightarrow>
          wrap_notify_response sc
            (fst (if nt_items req = [] then do_notify E cfg0 db0 db1 db2 req
                  else do_notify_multi E cfg0 cfg1 db0 db1 db2 req)) r)"

definition handle_call_signal :: "'r server_cover \<Rightarrow> crypto_env \<Rightarrow> server_config \<Rightarrow> nat \<Rightarrow> call_store \<Rightarrow> json \<Rightarrow> 'r \<Rightarrow>
    (json \<times> 'r) \<times> call_store \<times> nat option" where
  "handle_call_signal sc C cfg now st body r =
     (case unwrap_call_signal sc body of
        Inl e \<Rightarrow> ((bad_cover e, r), st, None)
      | Inr req \<Rightarrow> (case do_signal C cfg now st req of (resp, st', woken) \<Rightarrow> (wrap_call_signal_response sc resp r, st', woken)))"

definition handle_call_poll :: "'r server_cover \<Rightarrow> crypto_env \<Rightarrow> server_config \<Rightarrow> (nat \<Rightarrow> call_store \<Rightarrow> call_store) \<Rightarrow> call_store \<Rightarrow> json \<Rightarrow> 'r \<Rightarrow>
    (json \<times> 'r) \<times> call_store" where
  "handle_call_poll sc C cfg other st body r =
     (case unwrap_call_poll sc body of
        Inl e \<Rightarrow> ((bad_cover e, r), st)
      | Inr req \<Rightarrow> (case do_poll C cfg other st req of (resp, st') \<Rightarrow> (wrap_call_poll_response sc resp r, st')))"

end
