(* ===== verification/Cover_Core.thy ===== *)
theory Cover_Core
  imports Cover_Traits
begin

text \<open>
  The inner form of the messages (\<open>ParanoiaCover/src/core.rs\<close>): what \<open>derive(Serialize)\<close> and
  \<open>derive(Deserialize)\<close> make of the structures that client and server put inside the sealed
  envelope. Each structure has the fields of the request or response of the server, so that record
  stands for it. Fields with \<open>serde(default)\<close> may be missing, an empty list of items is not written.
\<close>

section \<open>Requests\<close>

definition push_json :: "push_request \<Rightarrow> json" where
  "push_json q = J_Obj [(''sender'', J_Str (psh_sender q)), (''recver'', J_Str (psh_recver q)), (''seq'', J_Pos (psh_seq q)),
     (''payload'', J_Str (psh_payload q)), (''sig'', J_Str (psh_sig q))]"

definition push_of_json :: "json \<Rightarrow> push_request res" where
  "push_of_json v = try_then (struct_fields [''sender'', ''recver'', ''seq'', ''payload'', ''sig''] v) (\<lambda>m.
     try_then (field de_str None ''sender'' m) (\<lambda>a. try_then (field de_str None ''recver'' m) (\<lambda>b.
     try_then (field de_u64 None ''seq'' m) (\<lambda>c. try_then (field de_str None ''payload'' m) (\<lambda>d.
     try_then (field de_str None ''sig'' m) (\<lambda>e.
       Inr \<lparr>psh_sender = a, psh_recver = b, psh_seq = c, psh_payload = d, psh_sig = e\<rparr>))))))"

text \<open>\<open>PullCore\<close> and \<open>MapCore\<close> name the lower bound \<open>after_seq\<close>, \<open>DeterminateCore\<close> names it \<open>from_seq\<close>.\<close>

definition range_json :: "string \<Rightarrow> range_request \<Rightarrow> json" where
  "range_json lower q = J_Obj [(''sender'', J_Str (rq_sender q)), (''recver'', J_Str (rq_recver q)), (lower, J_Pos (rq_from q)),
     (''to_seq'', J_Pos (rq_to q)), (''sig'', J_Str (rq_sig q))]"

definition range_of_json :: "string \<Rightarrow> json \<Rightarrow> range_request res" where
  "range_of_json lower v = try_then (struct_fields [''sender'', ''recver'', lower, ''to_seq'', ''sig''] v) (\<lambda>m.
     try_then (field de_str None ''sender'' m) (\<lambda>a. try_then (field de_str None ''recver'' m) (\<lambda>b.
     try_then (field de_u64 None lower m) (\<lambda>c. try_then (field de_u64 None ''to_seq'' m) (\<lambda>d.
     try_then (field de_str None ''sig'' m) (\<lambda>e.
       Inr \<lparr>rq_sender = a, rq_recver = b, rq_from = c, rq_to = d, rq_sig = e\<rparr>))))))"

definition notify_item_json :: "notify_item \<Rightarrow> json" where
  "notify_item_json it = J_Obj [(''partner'', J_Str (ni_partner it)), (''seq'', J_Pos (ni_seq it))]"

definition notify_item_of_json :: "json \<Rightarrow> notify_item res" where
  "notify_item_of_json v = try_then (struct_fields [''partner'', ''seq''] v) (\<lambda>m.
     try_then (field de_str None ''partner'' m) (\<lambda>a. try_then (field de_u64 (Some 0) ''seq'' m) (\<lambda>b.
       Inr \<lparr>ni_partner = a, ni_seq = b\<rparr>)))"

definition notify_json :: "notify_request \<Rightarrow> json" where
  "notify_json q = J_Obj ([(''sender'', J_Str (nt_sender q)), (''partner'', J_Str (nt_partner q)), (''seq'', J_Pos (nt_seq q)),
     (''sig'', J_Str (nt_sig q)), (''long_poll_ms'', json_of_u32 (nt_long_poll_ms q))] @
     (if nt_items q = [] then [] else [(''items'', J_Arr (map notify_item_json (nt_items q)))]))"

definition notify_of_json :: "json \<Rightarrow> notify_request res" where
  "notify_of_json v = try_then (struct_fields [''sender'', ''partner'', ''seq'', ''sig'', ''long_poll_ms'', ''items''] v) (\<lambda>m.
     try_then (field de_str None ''sender'' m) (\<lambda>a. try_then (field de_str (Some []) ''partner'' m) (\<lambda>b.
     try_then (field de_u64 (Some 0) ''seq'' m) (\<lambda>c. try_then (field de_str None ''sig'' m) (\<lambda>d.
     try_then (field de_small (Some 0) ''long_poll_ms'' m) (\<lambda>e.
     try_then (field (de_list notify_item_of_json) (Some []) ''items'' m) (\<lambda>f.
       Inr \<lparr>nt_sender = a, nt_partner = b, nt_seq = c, nt_sig = d, nt_long_poll_ms = e, nt_items = f\<rparr>)))))))"

definition call_signal_json :: "call_signal_request \<Rightarrow> json" where
  "call_signal_json q = J_Obj [(''sender'', J_Str (csr_sender q)), (''recver'', J_Str (csr_recver q)),
     (''kind'', json_of_u8 (csr_kind q)), (''payload'', J_Str (csr_payload q)), (''ts_ms'', json_of_i64 (csr_ts_ms q)),
     (''sig'', J_Str (csr_sig q))]"

definition call_signal_of_json :: "json \<Rightarrow> call_signal_request res" where
  "call_signal_of_json v = try_then (struct_fields [''sender'', ''recver'', ''kind'', ''payload'', ''ts_ms'', ''sig''] v) (\<lambda>m.
     try_then (field de_str None ''sender'' m) (\<lambda>a. try_then (field de_str None ''recver'' m) (\<lambda>b.
     try_then (field de_small None ''kind'' m) (\<lambda>c. try_then (field de_str None ''payload'' m) (\<lambda>d.
     try_then (field de_i64 None ''ts_ms'' m) (\<lambda>e. try_then (field de_str None ''sig'' m) (\<lambda>f.
       Inr \<lparr>csr_sender = a, csr_recver = b, csr_kind = c, csr_payload = d, csr_ts_ms = e, csr_sig = f\<rparr>)))))))"

definition call_poll_json :: "call_poll_request \<Rightarrow> json" where
  "call_poll_json q = J_Obj [(''user'', J_Str (cp_user q)), (''nonce'', J_Pos (cp_nonce q)),
     (''long_poll_ms'', json_of_u32 (cp_long_poll_ms q)), (''sig'', J_Str (cp_sig q))]"

definition call_poll_of_json :: "json \<Rightarrow> call_poll_request res" where
  "call_poll_of_json v = try_then (struct_fields [''user'', ''nonce'', ''long_poll_ms'', ''sig''] v) (\<lambda>m.
     try_then (field de_str None ''user'' m) (\<lambda>a. try_then (field de_u64 None ''nonce'' m) (\<lambda>b.
     try_then (field de_small None ''long_poll_ms'' m) (\<lambda>c. try_then (field de_str None ''sig'' m) (\<lambda>d.
       Inr \<lparr>cp_user = a, cp_nonce = b, cp_long_poll_ms = c, cp_sig = d\<rparr>)))))"

section \<open>Responses\<close>

text \<open>\<open>PushRespCore\<close> and \<open>SimpleRespCore\<close>.\<close>

definition simple_json :: "api_response \<Rightarrow> json" where
  "simple_json a = J_Obj [(''ok'', J_Bool (success a)), (''message'', J_Str (message a))]"

definition simple_of_json :: "json \<Rightarrow> api_response res" where
  "simple_of_json v = try_then (struct_fields [''ok'', ''message''] v) (\<lambda>m.
     try_then (field de_bool None ''ok'' m) (\<lambda>a. try_then (field de_str (Some []) ''message'' m) (\<lambda>b.
       Inr \<lparr>success = a, message = b\<rparr>)))"

definition packet_json :: "u64 \<times> string \<Rightarrow> json" where
  "packet_json p = J_Obj [(''seq'', J_Pos (fst p)), (''payload'', J_Str (snd p))]"

definition packet_of_json :: "json \<Rightarrow> (u64 \<times> string) res" where
  "packet_of_json v = try_then (struct_fields [''seq'', ''payload''] v) (\<lambda>m.
     try_then (field de_u64 None ''seq'' m) (\<lambda>a. try_then (field de_str None ''payload'' m) (\<lambda>b. Inr (a, b))))"

definition pull_json :: "pull_response \<Rightarrow> json" where
  "pull_json a = J_Obj [(''ok'', J_Bool (pl_success a)), (''packets'', J_Arr (map packet_json (packets a))),
     (''message'', J_Str (pl_message a))]"

definition pull_of_json :: "json \<Rightarrow> pull_response res" where
  "pull_of_json v = try_then (struct_fields [''ok'', ''packets'', ''message''] v) (\<lambda>m.
     try_then (field de_bool None ''ok'' m) (\<lambda>a. try_then (field (de_list packet_of_json) (Some []) ''packets'' m) (\<lambda>b.
     try_then (field de_str (Some []) ''message'' m) (\<lambda>c.
       Inr \<lparr>pl_success = a, packets = b, pl_message = c\<rparr>))))"

definition run_json :: "u64 \<times> u64 \<Rightarrow> json" where
  "run_json r = J_Arr [J_Pos (fst r), J_Pos (snd r)]"

definition map_json :: "map_response \<Rightarrow> json" where
  "map_json a = J_Obj [(''ok'', J_Bool (mp_success a)), (''runs'', J_Arr (map run_json (mp_runs a))),
     (''last_seq'', J_Pos (mp_last_seq a)), (''truncated'', J_Bool (mp_truncated a)), (''message'', J_Str (mp_message a))]"

definition map_of_json :: "json \<Rightarrow> map_response res" where
  "map_of_json v = try_then (struct_fields [''ok'', ''runs'', ''last_seq'', ''truncated'', ''message''] v) (\<lambda>m.
     try_then (field de_bool None ''ok'' m) (\<lambda>a. try_then (field (de_list (de_pair de_u64 de_u64)) (Some []) ''runs'' m) (\<lambda>b.
     try_then (field de_u64 (Some 0) ''last_seq'' m) (\<lambda>c. try_then (field de_bool (Some False) ''truncated'' m) (\<lambda>d.
     try_then (field de_str (Some []) ''message'' m) (\<lambda>e.
       Inr \<lparr>mp_success = a, mp_runs = b, mp_last_seq = c, mp_truncated = d, mp_message = e\<rparr>))))))"

definition lit_json :: "string \<times> u64 \<Rightarrow> json" where
  "lit_json p = J_Obj [(''partner'', J_Str (fst p)), (''n'', J_Pos (snd p))]"

definition lit_of_json :: "json \<Rightarrow> (string \<times> u64) res" where
  "lit_of_json v = try_then (struct_fields [''partner'', ''n''] v) (\<lambda>m.
     try_then (field de_str None ''partner'' m) (\<lambda>a. try_then (field de_u64 None ''n'' m) (\<lambda>b. Inr (a, b))))"

definition notify_resp_json :: "notify_response \<Rightarrow> json" where
  "notify_resp_json a = J_Obj ([(''ok'', J_Bool (nt_success a)), (''n'', J_Pos (nt_n a)), (''message'', J_Str (nt_message a))] @
     (if nt_lit a = [] then [] else [(''items'', J_Arr (map lit_json (nt_lit a)))]))"

definition notify_resp_of_json :: "json \<Rightarrow> notify_response res" where
  "notify_resp_of_json v = try_then (struct_fields [''ok'', ''n'', ''message'', ''items''] v) (\<lambda>m.
     try_then (field de_bool None ''ok'' m) (\<lambda>a. try_then (field de_u64 (Some 0) ''n'' m) (\<lambda>b.
     try_then (field de_str (Some []) ''message'' m) (\<lambda>c. try_then (field (de_list lit_of_json) (Some []) ''items'' m) (\<lambda>d.
       Inr \<lparr>nt_success = a, nt_n = b, nt_message = c, nt_lit = d\<rparr>)))))"

definition envelope_json :: "call_envelope_out \<Rightarrow> json" where
  "envelope_json e = J_Obj [(''sender'', J_Str (out_sender e)), (''kind'', json_of_u8 (out_kind e)),
     (''payload'', J_Str (out_payload e)), (''ts_ms'', json_of_i64 (out_ts_ms e))]"

definition envelope_of_json :: "json \<Rightarrow> call_envelope_out res" where
  "envelope_of_json v = try_then (struct_fields [''sender'', ''kind'', ''payload'', ''ts_ms''] v) (\<lambda>m.
     try_then (field de_str None ''sender'' m) (\<lambda>a. try_then (field de_small None ''kind'' m) (\<lambda>b.
     try_then (field de_str None ''payload'' m) (\<lambda>c. try_then (field de_i64 None ''ts_ms'' m) (\<lambda>d.
       Inr \<lparr>out_sender = a, out_kind = b, out_payload = c, out_ts_ms = d\<rparr>)))))"

definition poll_json :: "call_poll_response \<Rightarrow> json" where
  "poll_json a = J_Obj [(''ok'', J_Bool (cpr_success a)), (''items'', J_Arr (map envelope_json (cpr_items a))),
     (''message'', J_Str (cpr_message a))]"

definition poll_of_json :: "json \<Rightarrow> call_poll_response res" where
  "poll_of_json v = try_then (struct_fields [''ok'', ''items'', ''message''] v) (\<lambda>m.
     try_then (field de_bool None ''ok'' m) (\<lambda>a. try_then (field (de_list envelope_of_json) (Some []) ''items'' m) (\<lambda>b.
     try_then (field de_str (Some []) ''message'' m) (\<lambda>c.
       Inr \<lparr>cpr_success = a, cpr_items = b, cpr_message = c\<rparr>))))"

section \<open>Round trips\<close>

lemma field_Some [simp]: "map_of m k = Some v \<Longrightarrow> field d dflt k m = d v"
  by (simp add: field_def)

lemma field_default [simp]: "map_of m k = None \<Longrightarrow> field d (Some x) k m = Inr x"
  by (simp add: field_def)

lemma traverse_inverse [simp]: "(\<And>x. f (g x) = Inr x) \<Longrightarrow> traverse f (map g xs) = Inr xs"
  by (induction xs) auto

lemma push_core_roundtrip [simp]: "push_of_json (push_json q) = Inr q"
  by (simp add: push_of_json_def push_json_def)

lemma range_core_roundtrip [simp]: "lower \<in> {''after_seq'', ''from_seq''} \<Longrightarrow> range_of_json lower (range_json lower q) = Inr q"
  by (auto simp: range_of_json_def range_json_def)

lemma notify_item_roundtrip [simp]: "notify_item_of_json (notify_item_json it) = Inr it"
  by (simp add: notify_item_of_json_def notify_item_json_def)

lemma notify_core_roundtrip [simp]: "notify_of_json (notify_json q) = Inr q"
  by (cases "nt_items q = []") (cases q; simp add: notify_of_json_def notify_json_def)+

lemma call_signal_core_roundtrip [simp]: "call_signal_of_json (call_signal_json q) = Inr q"
  by (simp add: call_signal_of_json_def call_signal_json_def)

lemma call_poll_core_roundtrip [simp]: "call_poll_of_json (call_poll_json q) = Inr q"
  by (simp add: call_poll_of_json_def call_poll_json_def)

lemma simple_core_roundtrip [simp]: "simple_of_json (simple_json a) = Inr a"
  by (simp add: simple_of_json_def simple_json_def)

lemma packet_core_roundtrip [simp]: "packet_of_json (packet_json p) = Inr p"
  by (simp add: packet_of_json_def packet_json_def)

lemma pull_core_roundtrip [simp]: "pull_of_json (pull_json a) = Inr a"
  by (simp add: pull_of_json_def pull_json_def)

lemma run_core_roundtrip [simp]: "de_pair de_u64 de_u64 (run_json r) = Inr r"
  by (simp add: run_json_def)

lemma map_core_roundtrip [simp]: "map_of_json (map_json a) = Inr a"
  by (simp add: map_of_json_def map_json_def)

lemma lit_core_roundtrip [simp]: "lit_of_json (lit_json p) = Inr p"
  by (simp add: lit_of_json_def lit_json_def)

lemma notify_resp_core_roundtrip [simp]: "notify_resp_of_json (notify_resp_json a) = Inr a"
  by (cases "nt_lit a = []") (cases a; simp add: notify_resp_of_json_def notify_resp_json_def)+

lemma envelope_core_roundtrip [simp]: "envelope_of_json (envelope_json e) = Inr e"
  by (simp add: envelope_of_json_def envelope_json_def)

lemma poll_core_roundtrip [simp]: "poll_of_json (poll_json a) = Inr a"
  by (simp add: poll_of_json_def poll_json_def)

end
