(* ===== verification/Cover_Contract.thy ===== *)
theory Cover_Contract
  imports Cover_Core
begin

text \<open>
  When a client cover and a server cover fit each other: the server reads back the request that the
  client meant, and the client reads from the response what the handler answered. The locale
  \<open>covers_fit\<close> states this for the eight message pairs, for messages of which the covers can
  transport the inner form (\<open>fits\<close>); its lemmas lift it to the handlers of the routes.
\<close>

section \<open>What the client means\<close>

text \<open>The inner structures as \<open>client_cover_schema.rs\<close> fills them: bytes become base64.\<close>

definition push_request_of :: "crypto_env \<Rightarrow> core_push \<Rightarrow> push_request" where
  "push_request_of C q = \<lparr>psh_sender = cp_sender q, psh_recver = cp_recver q, psh_seq = cp_seq q,
     psh_payload = encode_b64 C (cp_payload q), psh_sig = encode_b64 C (cp_push_sig q)\<rparr>"

definition range_request_of :: "crypto_env \<Rightarrow> core_range \<Rightarrow> range_request" where
  "range_request_of C q = \<lparr>rq_sender = cr_sender q, rq_recver = cr_recver q, rq_from = cr_from q, rq_to = cr_to q,
     rq_sig = encode_b64 C (cr_sig q)\<rparr>"

definition notify_request_of :: "crypto_env \<Rightarrow> core_notify \<Rightarrow> notify_request" where
  "notify_request_of C q = \<lparr>nt_sender = cn_sender q, nt_partner = cn_partner q, nt_seq = cn_seq q,
     nt_sig = encode_b64 C (cn_sig q), nt_long_poll_ms = cn_long_poll_ms q, nt_items = []\<rparr>"

definition notify_multi_request_of :: "crypto_env \<Rightarrow> core_notify_multi \<Rightarrow> notify_request" where
  "notify_multi_request_of C q = \<lparr>nt_sender = cm_sender q, nt_partner = [], nt_seq = 0,
     nt_sig = encode_b64 C (cm_sig q), nt_long_poll_ms = cm_long_poll_ms q,
     nt_items = map (\<lambda>(partner, s). \<lparr>ni_partner = partner, ni_seq = s\<rparr>) (cm_items q)\<rparr>"

definition call_signal_request_of :: "crypto_env \<Rightarrow> core_call_signal \<Rightarrow> call_signal_request" where
  "call_signal_request_of C q = \<lparr>csr_sender = cs_sender q, csr_recver = cs_recver q, csr_kind = cs_kind q,
     csr_payload = encode_b64 C (cs_payload q), csr_ts_ms = cs_ts_ms q, csr_sig = encode_b64 C (cs_sig q)\<rparr>"

definition call_poll_request_of :: "crypto_env \<Rightarrow> core_call_poll \<Rightarrow> call_poll_request" where
  "call_poll_request_of C q = \<lparr>cp_user = cl_user q, cp_nonce = cl_nonce q, cp_long_poll_ms = cl_long_poll_ms q,
     cp_sig = encode_b64 C (cl_sig q)\<rparr>"

section \<open>What the client is told\<close>

text \<open>
  The results that \<open>client_cover_schema.rs\<close> makes of an inner response. The callers compare the two
  error codes of push with strings.
\<close>

definition push_error_code :: "string \<Rightarrow> string" where
  "push_error_code msg =
     (let low = to_ascii_lowercase msg
      in if str_contains ''duplicate'' low then ''duplicate_seq''
         else if str_contains ''invalid seq'' low \<or> str_contains ''expected seq'' low then ''invalid_seq''
         else ''Push failed: '' @ msg)"

definition push_outcome :: "api_response \<Rightarrow> unit res" where
  "push_outcome a = (if success a then Inr () else Inl (push_error_code (message a)))"

definition simple_outcome :: "string \<Rightarrow> api_response \<Rightarrow> unit res" where
  "simple_outcome op a = (if success a then Inr () else Inl (op @ '' failed: '' @ message a))"

definition raw_packet_of :: "crypto_env \<Rightarrow> u64 \<times> string \<Rightarrow> raw_packet res" where
  "raw_packet_of C p = try_then (decode_b64 C (snd p)) (\<lambda>bs. Inr \<lparr>rp_seq = fst p, rp_payload = bs\<rparr>)"

definition pull_outcome :: "crypto_env \<Rightarrow> pull_response \<Rightarrow> raw_packet list res" where
  "pull_outcome C a =
     (if \<not> pl_success a then Inl (''Pull failed: '' @ pl_message a) else traverse (raw_packet_of C) (packets a))"

definition map_outcome :: "map_response \<Rightarrow> map_answer res" where
  "map_outcome a =
     (if \<not> mp_success a then Inl (''Map failed: '' @ mp_message a)
      else Inr \<lparr>ma_runs = mp_runs a, ma_last_seq = mp_last_seq a, ma_truncated = mp_truncated a\<rparr>)"

definition notify_outcome :: "notify_response \<Rightarrow> u64 res" where
  "notify_outcome a = (if \<not> nt_success a then Inl (''Notify failed: '' @ nt_message a) else Inr (nt_n a))"

definition notify_multi_outcome :: "notify_response \<Rightarrow> (string \<times> u64) list res" where
  "notify_multi_outcome a = (if \<not> nt_success a then Inl (''Notify failed: '' @ nt_message a) else Inr (nt_lit a))"

definition envelope_in_of :: "crypto_env \<Rightarrow> call_envelope_out \<Rightarrow> call_envelope_in res" where
  "envelope_in_of C e = try_then (decode_b64 C (out_payload e)) (\<lambda>bs.
     Inr \<lparr>in_sender = out_sender e, in_kind = out_kind e, in_payload = bs, in_ts_ms = out_ts_ms e\<rparr>)"

definition poll_outcome :: "crypto_env \<Rightarrow> call_poll_response \<Rightarrow> call_envelope_in list res" where
  "poll_outcome C a =
     (if \<not> cpr_success a then Inl (''CallPoll failed: '' @ cpr_message a) else traverse (envelope_in_of C) (cpr_items a))"

text \<open>Two results that differ at most in the text of the error.\<close>

definition agrees :: "'a res \<Rightarrow> 'a res \<Rightarrow> bool" where
  "agrees x y = (case (x, y) of (Inr a, Inr b) \<Rightarrow> a = b | (Inl _, Inl _) \<Rightarrow> True | _ \<Rightarrow> False)"

lemma agrees_simps [simp]:
  "agrees x x" "agrees (Inr a) y \<longleftrightarrow> y = Inr a" "agrees x (Inr b) \<longleftrightarrow> x = Inr b" "agrees (Inl e) (Inl e')"
  by (auto simp: agrees_def split: sum.splits)

lemma agrees_Inl [simp]: "agrees (Inl e) y \<longleftrightarrow> (\<exists>e'. y = Inl e')" "agrees x (Inl e) \<longleftrightarrow> (\<exists>e'. x = Inl e')"
  by (auto simp: agrees_def split: sum.splits)

lemma fst_witness: "P (fst p) \<Longrightarrow> \<exists>a. (\<exists>s. p = (a, s)) \<and> P a"
  by (cases p) auto

section \<open>The contract\<close>

locale covers_fit =
  fixes C :: crypto_env
    and cc :: "'r client_cover"
    and sc :: "'s server_cover"
    and fits :: "json \<Rightarrow> bool"
  assumes push_fits: "fits (push_json (push_request_of C q)) \<Longrightarrow>
      \<exists>body r'. wrap_push cc q r = (Inr body, r') \<and> unwrap_push sc body = Inr (push_request_of C q)"
    and pull_fits: "fits (range_json ''after_seq'' (range_request_of C g)) \<Longrightarrow>
      \<exists>body r'. wrap_pull cc g r = (Inr body, r') \<and> unwrap_pull sc body = Inr (range_request_of C g)"
    and map_fits: "fits (range_json ''after_seq'' (range_request_of C g)) \<Longrightarrow>
      \<exists>body r'. wrap_map cc g r = (Inr body, r') \<and> unwrap_map sc body = Inr (range_request_of C g)"
    and determinate_fits: "fits (range_json ''from_seq'' (range_request_of C g)) \<Longrightarrow>
      \<exists>body r'. wrap_determinate cc g r = (Inr body, r') \<and> unwrap_determinate sc body = Inr (range_request_of C g)"
    and notify_fits: "fits (notify_json (notify_request_of C n)) \<Longrightarrow>
      \<exists>body r'. wrap_notify cc n r = (Inr body, r') \<and> unwrap_notify sc body = Inr (notify_request_of C n)"
    and notify_multi_fits: "fits (notify_json (notify_multi_request_of C m)) \<Longrightarrow>
      \<exists>body r'. wrap_notify_multi cc m r = (Inr body, r') \<and> unwrap_notify sc body = Inr (notify_multi_request_of C m)"
    and call_signal_fits: "fits (call_signal_json (call_signal_request_of C c)) \<Longrightarrow>
      \<exists>body r'. wrap_call_signal cc c r = (Inr body, r') \<and> unwrap_call_signal sc body = Inr (call_signal_request_of C c)"
    and call_poll_fits: "fits (call_poll_json (call_poll_request_of C p)) \<Longrightarrow>
      \<exists>body r'. wrap_call_poll cc p r = (Inr body, r') \<and> unwrap_call_poll sc body = Inr (call_poll_request_of C p)"
    and push_response_fits: "fits (simple_json a) \<Longrightarrow>
      unwrap_push_response cc (fst (wrap_push_response sc a s)) = push_outcome a"
    and pull_response_fits: "fits (pull_json ap) \<Longrightarrow>
      agrees (unwrap_pull_response cc (fst (wrap_pull_response sc ap s))) (pull_outcome C ap)"
    and map_response_fits: "fits (map_json am) \<Longrightarrow>
      agrees (unwrap_map_response cc (fst (wrap_map_response sc am s))) (map_outcome am)"
    and notify_response_fits: "fits (notify_resp_json an) \<Longrightarrow> nt_lit an = [] \<Longrightarrow>
      agrees (unwrap_notify_response cc (fst (wrap_notify_response sc an s))) (notify_outcome an)"
    and notify_multi_response_fits: "fits (notify_resp_json an) \<Longrightarrow>
      agrees (unwrap_notify_response_multi cc (fst (wrap_notify_response sc an s))) (notify_multi_outcome an)"
    and determinate_response_fits: "fits (simple_json a) \<Longrightarrow>
      agrees (unwrap_determinate_response cc (fst (wrap_determinate_response sc a s))) (simple_outcome ''Determinate'' a)"
    and call_signal_response_fits: "fits (simple_json a) \<Longrightarrow>
      agrees (unwrap_call_signal_response cc (fst (wrap_call_signal_response sc a s))) (simple_outcome ''CallSignal'' a)"
    and call_poll_response_fits: "fits (poll_json ac) \<Longrightarrow>
      agrees (unwrap_call_poll_response cc (fst (wrap_call_poll_response sc ac s))) (poll_outcome C ac)"
begin

text \<open>Each handler under the covers does to the state what its logic does, and the client learns the answer.\<close>

lemma push_through:
  assumes "do_push E cfg now db (push_request_of C q) = (a, db', woken)"
    and "fits (push_json (push_request_of C q))" and "fits (simple_json a)"
  shows "\<exists>body r' answer s'. wrap_push cc q r = (Inr body, r') \<and>
    handle_push sc E cfg now db body s = ((answer, s'), db', woken) \<and> unwrap_push_response cc answer = push_outcome a"
proof -
  obtain body r' where "wrap_push cc q r = (Inr body, r')" "unwrap_push sc body = Inr (push_request_of C q)"
    using push_fits [OF assms(2)] by blast
  with assms(1) push_response_fits [OF assms(3)] show ?thesis
    by (auto simp: handle_push_def intro!: fst_witness)
qed

lemma pull_through:
  assumes "do_pull E cfg now db (range_request_of C g) = (a, db')"
    and "fits (range_json ''after_seq'' (range_request_of C g))" and "fits (pull_json a)"
  shows "\<exists>body r' answer s'. wrap_pull cc g r = (Inr body, r') \<and>
    handle_pull sc E cfg now db body s = ((answer, s'), db') \<and> agrees (unwrap_pull_response cc answer) (pull_outcome C a)"
proof -
  obtain body r' where "wrap_pull cc g r = (Inr body, r')" "unwrap_pull sc body = Inr (range_request_of C g)"
    using pull_fits [OF assms(2)] by blast
  with assms(1) pull_response_fits [OF assms(3)] show ?thesis
    by (auto simp: handle_pull_def intro!: fst_witness)
qed

lemma map_through:
  assumes "fits (range_json ''after_seq'' (range_request_of C g))" and "fits (map_json (do_map E cfg db (range_request_of C g)))"
  shows "\<exists>body r'. wrap_map cc g r = (Inr body, r') \<and>
    agrees (unwrap_map_response cc (fst (handle_map sc E cfg db body s))) (map_outcome (do_map E cfg db (range_request_of C g)))"
proof -
  obtain body r' where "wrap_map cc g r = (Inr body, r')" "unwrap_map sc body = Inr (range_request_of C g)"
    using map_fits [OF assms(1)] by blast
  with map_response_fits [OF assms(2)] show ?thesis by (auto simp: handle_map_def)
qed

lemma determinate_through:
  assumes "do_determinate E cfg db (range_request_of C g) = (a, db')"
    and "fits (range_json ''from_seq'' (range_request_of C g))" and "fits (simple_json a)"
  shows "\<exists>body r' answer s'. wrap_determinate cc g r = (Inr body, r') \<and>
    handle_determinate sc E cfg db body s = ((answer, s'), db') \<and>
    agrees (unwrap_determinate_response cc answer) (simple_outcome ''Determinate'' a)"
proof -
  obtain body r' where "wrap_determinate cc g r = (Inr body, r')" "unwrap_determinate sc body = Inr (range_request_of C g)"
    using determinate_fits [OF assms(2)] by blast
  with assms(1) determinate_response_fits [OF assms(3)] show ?thesis
    by (auto simp: handle_determinate_def intro!: fst_witness)
qed

lemma single_notify_no_items: "nt_lit (fst (do_notify E cfg db0 db1 db2 req)) = []"
  by (simp add: do_notify_def notify_ok_def notify_fail_def Let_def split: sum.split option.split)

lemma notify_through:
  fixes E cfg0 cfg1 db0 db1 db2 n
  defines "a \<equiv> fst (do_notify E cfg0 db0 db1 db2 (notify_request_of C n))"
  assumes "fits (notify_json (notify_request_of C n))" and "fits (notify_resp_json a)"
  shows "\<exists>body r'. wrap_notify cc n r = (Inr body, r') \<and>
    agrees (unwrap_notify_response cc (fst (handle_notify sc E cfg0 cfg1 db0 db1 db2 body s))) (notify_outcome a)"
proof -
  obtain body r' where b: "wrap_notify cc n r = (Inr body, r')" "unwrap_notify sc body = Inr (notify_request_of C n)"
    using notify_fits [OF assms(2)] by blast
  have "nt_items (notify_request_of C n) = []" by (simp add: notify_request_of_def)
  with b have "handle_notify sc E cfg0 cfg1 db0 db1 db2 body s = wrap_notify_response sc a s"
    by (simp add: handle_notify_def a_def)
  moreover have "nt_lit a = []" unfolding a_def by (rule single_notify_no_items)
  ultimately show ?thesis using b(1) notify_response_fits [OF assms(3)] by auto
qed

lemma notify_multi_through:
  fixes E cfg0 cfg1 db0 db1 db2 m
  defines "a \<equiv> fst (do_notify_multi E cfg0 cfg1 db0 db1 db2 (notify_multi_request_of C m))"
  assumes "fits (notify_json (notify_multi_request_of C m))" and "fits (notify_resp_json a)" and "cm_items m \<noteq> []"
  shows "\<exists>body r'. wrap_notify_multi cc m r = (Inr body, r') \<and>
    agrees (unwrap_notify_response_multi cc (fst (handle_notify sc E cfg0 cfg1 db0 db1 db2 body s))) (notify_multi_outcome a)"
proof -
  obtain body r' where b: "wrap_notify_multi cc m r = (Inr body, r')" "unwrap_notify sc body = Inr (notify_multi_request_of C m)"
    using notify_multi_fits [OF assms(2)] by blast
  have "nt_items (notify_multi_request_of C m) \<noteq> []" using assms(4) by (simp add: notify_multi_request_of_def)
  with b have "handle_notify sc E cfg0 cfg1 db0 db1 db2 body s = wrap_notify_response sc a s"
    by (simp add: handle_notify_def a_def)
  then show ?thesis using b(1) notify_multi_response_fits [OF assms(3)] by auto
qed

lemma call_signal_through:
  assumes "do_signal C' cfg now st (call_signal_request_of C c) = (a, st', woken)"
    and "fits (call_signal_json (call_signal_request_of C c))" and "fits (simple_json a)"
  shows "\<exists>body r' answer s'. wrap_call_signal cc c r = (Inr body, r') \<and>
    handle_call_signal sc C' cfg now st body s = ((answer, s'), st', woken) \<and>
    agrees (unwrap_call_signal_response cc answer) (simple_outcome ''CallSignal'' a)"
proof -
  obtain body r' where "wrap_call_signal cc c r = (Inr body, r')" "unwrap_call_signal sc body = Inr (call_signal_request_of C c)"
    using call_signal_fits [OF assms(2)] by blast
  with assms(1) call_signal_response_fits [OF assms(3)] show ?thesis
    by (auto simp: handle_call_signal_def intro!: fst_witness)
qed

lemma call_poll_through:
  assumes "do_poll C' cfg other st (call_poll_request_of C p) = (a, st')"
    and "fits (call_poll_json (call_poll_request_of C p))" and "fits (poll_json a)"
  shows "\<exists>body r' answer s'. wrap_call_poll cc p r = (Inr body, r') \<and>
    handle_call_poll sc C' cfg other st body s = ((answer, s'), st') \<and>
    agrees (unwrap_call_poll_response cc answer) (poll_outcome C a)"
proof -
  obtain body r' where "wrap_call_poll cc p r = (Inr body, r')" "unwrap_call_poll sc body = Inr (call_poll_request_of C p)"
    using call_poll_fits [OF assms(2)] by blast
  with assms(1) call_poll_response_fits [OF assms(3)] show ?thesis
    by (auto simp: handle_call_poll_def intro!: fst_witness)
qed

end

end
