(* ===== verification/Cover_Props.thy ===== *)
theory Cover_Props
  imports Cover_Engine Demo_Server "HOL-Library.Multiset"
begin

text \<open>
  The round trip of the masking engine: what \<open>wrap\<close> hides, \<open>unwrap\<close> finds, for every profile whose
  carrier and optional paths do not collide. The section on paths has the laws of reading and
  writing a JSON value along a path, the one on shuffling that it changes no value on a path.
\<close>

section \<open>Chunks\<close>

lemma take_drop_split: "p \<le> q \<Longrightarrow> take (q - p) (drop p xs) @ drop q xs = drop p xs"
  by (metis append_take_drop_id drop_drop le_add_diff_inverse2)

lemma split_loop_concat:
  "pos + k * base + min k (rem - i) = length data \<Longrightarrow> concat (split_loop data base rem i k pos) = drop pos data"
proof (induction k arbitrary: i pos)
  case (Suc k)
  define stop where "stop = pos + base + (if i < rem then 1 else 0)"
  have stop: "stop \<le> length data" "stop + k * base + min k (rem - Suc i) = length data" "pos \<le> stop"
    using Suc.prems by (cases "i < rem"; simp add: stop_def)+
  show ?case using Suc.IH [OF stop(2)] take_drop_split [OF stop(3), of data] stop(1)
    by (simp add: Let_def min_absorb1 flip: stop_def)
qed simp

lemma split_chunks_concat: "0 < n \<Longrightarrow> concat (split_chunks data n) = data"
proof -
  assume n: "0 < n"
  then have "n * (length data div n) + min n (length data mod n) = length data"
    by (simp add: min_absorb2 less_imp_le)
  then show ?thesis using n by (simp add: split_chunks_def split_loop_concat)
qed

lemma split_chunks_length [simp]: "length (split_chunks data n) = n"
proof -
  have "length (split_loop data base rem i k pos) = k" for base rem i k pos
    by (induction data base rem i k pos rule: split_loop.induct) (simp_all add: Let_def)
  then show ?thesis by (simp add: split_chunks_def)
qed

section \<open>Paths\<close>

fun apart :: "segment list \<Rightarrow> segment list \<Rightarrow> bool" where
  "apart (Key a # p) (Key b # q) \<longleftrightarrow> a \<noteq> b \<or> apart p q"
| "apart (Idx i # p) (Idx j # q) \<longleftrightarrow> i \<noteq> j \<or> apart p q"
| "apart _ _ \<longleftrightarrow> False"

fun settable :: "json \<Rightarrow> segment list \<Rightarrow> bool" where
  "settable v [] \<longleftrightarrow> False"
| "settable v (Idx i # rest) \<longleftrightarrow>
     (case v of J_Arr xs \<Rightarrow> i < length xs \<and> (rest = [] \<or> settable (xs ! i) rest) | _ \<Rightarrow> False)"
| "settable v (Key k # rest) \<longleftrightarrow>
     (rest = [] \<or> settable (case map_of (ensure_object v) k of Some x \<Rightarrow> x | None \<Rightarrow> J_Obj []) rest)"

lemma map_of_update [simp]: "map_of (AList.update k v m) = (map_of m)(k \<mapsto> v)"
  by (rule update_conv')

lemma ensure_object_simps [simp]: "ensure_object (J_Obj m) = m"
  by (simp add: ensure_object_def)

lemma apart_Nil [simp]: "\<not> apart p []" "\<not> apart [] p"
  by (cases p rule: list.exhaust; simp)+

lemma apart_sym: "apart p q \<Longrightarrow> apart q p"
  by (induction p q rule: apart.induct) auto

lemma set_path_settable: "settable v p \<Longrightarrow> \<exists>v'. set_path_rec v p leaf = Inr v'"
proof (induction v p rule: settable.induct)
  case (2 v i rest)
  then show ?case by (cases v) fastforce+
next
  case (3 v k rest)
  then show ?case by (fastforce simp: Let_def)
qed simp

lemma get_set_same: "set_path_rec v p leaf = Inr v' \<Longrightarrow> get_segs v' p = Some leaf"
proof (induction v p leaf arbitrary: v' rule: set_path_rec.induct)
  case (2 v i rest leaf)
  then show ?case by (cases v) (auto simp: try_then_Inr_iff split: if_splits)
next
  case (3 v k rest leaf)
  then show ?case by (auto simp: try_then_Inr_iff Let_def split: if_splits)
qed simp

lemma get_set_apart:
  "set_path_rec v p leaf = Inr v' \<Longrightarrow> apart p q \<Longrightarrow> get_segs v q = Some x \<Longrightarrow> get_segs v' q = Some x"
proof (induction v p leaf arbitrary: v' q rule: set_path_rec.induct)
  case (2 v i rest leaf)
  then show ?case
    by (cases v; cases q rule: list.exhaust; cases "hd q")
      (auto simp: try_then_Inr_iff nth_list_update split: if_splits option.splits)
next
  case (3 v k rest leaf)
  then show ?case
    by (cases v; cases q rule: list.exhaust; cases "hd q")
      (auto simp: try_then_Inr_iff Let_def split: if_splits option.splits)
qed simp

lemma settable_set_apart:
  "set_path_rec v p leaf = Inr v' \<Longrightarrow> apart p q \<Longrightarrow> settable v q \<Longrightarrow> settable v' q"
proof (induction v p leaf arbitrary: v' q rule: set_path_rec.induct)
  case (2 v i rest leaf)
  then show ?case
    by (cases v; cases q rule: list.exhaust; cases "hd q")
      (auto simp: try_then_Inr_iff nth_list_update split: if_splits option.splits)
next
  case (3 v k rest leaf)
  then show ?case
    by (cases q rule: list.exhaust; cases "hd q")
      (auto simp: try_then_Inr_iff Let_def split: if_splits option.splits)
qed simp

lemma in_set_update: "p \<in> set (AList.update k v m) \<Longrightarrow> p = (k, v) \<or> p \<in> set m"
  by (induction m) (auto split: if_splits)

lemma json_wf_set_path: "set_path_rec v p leaf = Inr v' \<Longrightarrow> json_wf v \<Longrightarrow> json_wf leaf \<Longrightarrow> json_wf v'"
proof (induction v p leaf arbitrary: v' rule: set_path_rec.induct)
  case (2 v i rest leaf)
  then show ?case by (cases v) (auto simp: try_then_Inr_iff dest!: subsetD [OF set_update_subset_insert] split: if_splits)
next
  case (3 v k rest leaf)
  have m: "distinct (map fst (ensure_object v))" "\<forall>p \<in> set (ensure_object v). json_wf (snd p)"
    using 3(3) by (cases v; simp add: ensure_object_def)+
  then have child: "json_wf (case map_of (ensure_object v) k of Some x \<Rightarrow> x | None \<Rightarrow> J_Obj [])"
    by (fastforce split: option.splits dest: map_of_SomeD)
  have upd: "json_wf (J_Obj (AList.update k x (ensure_object v)))" if "json_wf x" for x
    using m that by (auto simp: distinct_update dest: in_set_update)
  show ?case
  proof (cases "rest = []")
    case True
    then show ?thesis using 3(2,4) upd [of leaf] by (simp add: Let_def)
  next
    case False
    then obtain x where x: "set_path_rec (case map_of (ensure_object v) k of Some x \<Rightarrow> x | None \<Rightarrow> J_Obj []) rest leaf = Inr x"
      "v' = J_Obj (AList.update k x (ensure_object v))"
      using 3(2) by (auto simp: Let_def try_then_Inr_iff)
    from 3(1) [OF refl False x(1) child 3(4)] upd x(2) show ?thesis by blast
  qed
qed simp

section \<open>Shuffling\<close>

lemma mset_swap_nth: "i < length xs \<Longrightarrow> j < length xs \<Longrightarrow> mset (swap xs i j) = mset xs"
  unfolding swap_def by (rule Multiset.mset_swap)

lemma mset_fisher_yates: "i < length xs \<or> i = 0 \<Longrightarrow> mset (fst (fisher_yates R i xs r)) = mset xs"
proof (induction R i xs r rule: fisher_yates.induct)
  case (2 R i xs r)
  obtain n r' where n: "next_u32 R r = (n, r')" by fastforce
  have "unat n mod (Suc i + 1) < Suc i + 1" by (rule mod_less_divisor) simp
  then have j: "unat n mod (Suc i + 1) < length xs" "Suc i < length xs" using 2(2) by linarith+
  then have "i < length (swap xs (Suc i) (unat n mod (Suc i + 1))) \<or> i = 0" by (simp add: swap_def)
  from 2(1) [OF n [symmetric] refl this] mset_swap_nth [OF j(2,1)] show ?case by (simp add: n)
qed simp

text \<open>A string on a path stays where it is, whatever the order of the keys.\<close>

lemma shuffle_entries_map:
  "map fst (fst (shuffle_entries R m r)) = map fst m"
  "map_of m k = Some x \<Longrightarrow> \<exists>r'. map_of (fst (shuffle_entries R m r)) k = Some (fst (shuffle_keys R x r'))"
proof (induction m arbitrary: r)
  case (Cons p m)
  case 1
  show ?case using Cons(1) by (cases p) (simp add: case_prod_beta Let_def)
next
  case (Cons p m)
  case 2
  then show ?case using Cons(2) by (cases p) (auto simp: case_prod_beta Let_def split: if_splits)
qed simp_all

lemma shuffle_items_nth:
  "length (fst (shuffle_items R xs r)) = length xs"
  "i < length xs \<Longrightarrow> \<exists>r'. fst (shuffle_items R xs r) ! i = fst (shuffle_keys R (xs ! i) r')"
proof (induction xs arbitrary: r i)
  case (Cons x xs)
  case 1
  show ?case using Cons(1) by (simp add: case_prod_beta Let_def)
next
  case (Cons x xs)
  case 2
  then show ?case using Cons(2) by (cases i) (auto simp: case_prod_beta Let_def)
qed simp_all

lemma map_of_foldl_update:
  "distinct (map fst es) \<Longrightarrow> map_of (foldl (\<lambda>acc (k, v). AList.update k v acc) acc es) = map_of acc ++ map_of es"
  by (induction es arbitrary: acc) (auto simp: map_add_upd_left dom_map_of_conv_image_fst)

lemma shuffle_obj_get:
  assumes "distinct (map fst m)" and "map_of m k = Some x"
  shows "\<exists>r'. get_key k (fst (shuffle_keys R (J_Obj m) r)) = Some (fst (shuffle_keys R x r'))"
proof -
  obtain m' r1 where m': "shuffle_entries R m r = (m', r1)" by fastforce
  obtain es r2 where es: "fisher_yates R (length m' - 1) m' r1 = (es, r2)" by fastforce
  have keys: "map fst m' = map fst m" using shuffle_entries_map(1) [of R m r] m' by simp
  have ms: "mset es = mset m'" using mset_fisher_yates [of "length m' - 1" m' R r1] es by (cases m') auto
  then have "mset (map fst es) = mset (map fst m')" by (simp add: mset_map)
  then have d: "distinct (map fst es)" "distinct (map fst m')"
    using assms(1) keys mset_eq_imp_distinct_iff by metis+
  have "set es = set m'" using ms by (metis set_mset_mset)
  with d have "map_of es = map_of m'" by (simp add: map_of_inject_set)
  then show ?thesis using shuffle_entries_map(2) [OF assms(2), of R r] m' es d
    by (simp add: map_of_foldl_update)
qed

lemma shuffle_arr_get:
  "get_idx i (J_Arr xs) = Some x \<Longrightarrow> \<exists>r'. get_idx i (fst (shuffle_keys R (J_Arr xs) r)) = Some (fst (shuffle_keys R x r'))"
  using shuffle_items_nth [where R = R and xs = xs and r = r] by (auto simp: case_prod_beta Let_def split: if_splits)

lemma shuffle_keeps_string:
  "json_wf v \<Longrightarrow> get_segs v p = Some (J_Str s) \<Longrightarrow> get_segs (fst (shuffle_keys R v r)) p = Some (J_Str s)"
proof (induction v p arbitrary: r rule: get_segs.induct)
  case (2 v i segs)
  then obtain x where x: "get_idx i v = Some x" "get_segs x segs = Some (J_Str s)" by (auto split: option.splits)
  then obtain xs where v: "v = J_Arr xs" "x \<in> set xs" by (cases v) (auto split: if_splits)
  then have "json_wf x" using 2(2) by simp
  with 2(1) [OF x(1)] x shuffle_arr_get [of i xs x R r] show ?case
    unfolding v(1) by (auto simp del: shuffle_keys.simps)
next
  case (3 v k segs)
  then obtain x where x: "get_key k v = Some x" "get_segs x segs = Some (J_Str s)" by (auto split: option.splits)
  then obtain m where v: "v = J_Obj m" "map_of m k = Some x" by (cases v) auto
  then have "json_wf x" "distinct (map fst m)" using 3(2) by (auto dest: map_of_SomeD)
  with 3(1) [OF x(1)] x shuffle_obj_get [of m k x R r] show ?case
    unfolding v(1) using v(2) by (auto simp del: shuffle_keys.simps)
qed simp

section \<open>Writing many fields\<close>

fun set_all :: "(segment list \<times> json) list \<Rightarrow> json \<Rightarrow> json res" where
  "set_all [] v = Inr v"
| "set_all ((p, leaf) # ps) v = try_then (set_path_rec v p leaf) (set_all ps)"

lemma set_all_append: "set_all (ps @ qs) v = try_then (set_all ps v) (set_all qs)"
proof (induction ps arbitrary: v)
  case (Cons a ps)
  then show ?case by (cases a, cases "set_path_rec v (fst a) (snd a)") auto
qed simp

lemma set_all_keeps:
  "set_all ps v = Inr v' \<Longrightarrow> \<forall>p \<in> set ps. apart (fst p) q \<Longrightarrow> get_segs v q = Some x \<Longrightarrow> get_segs v' q = Some x"
  by (induction ps v rule: set_all.induct) (auto simp: try_then_Inr_iff dest: get_set_apart)

lemma set_all_ok:
  "sorted_wrt apart (map fst ps) \<Longrightarrow> \<forall>p \<in> set ps. settable v (fst p) \<and> json_wf (snd p) \<Longrightarrow> json_wf v \<Longrightarrow>
   \<exists>v'. set_all ps v = Inr v' \<and> json_wf v'"
proof (induction ps v rule: set_all.induct)
  case (2 p leaf ps v)
  then obtain v1 where v1: "set_path_rec v p leaf = Inr v1" using set_path_settable [of v p leaf] by auto
  have "\<forall>q \<in> set ps. settable v1 (fst q) \<and> json_wf (snd q)"
    using 2(2,3) settable_set_apart [OF v1] by auto
  moreover have "json_wf v1" using json_wf_set_path [OF v1] 2(3,4) by auto
  ultimately show ?case using 2(1) [of v1] 2(2) v1 by auto
qed simp

lemma set_all_get:
  "set_all ps v = Inr v' \<Longrightarrow> sorted_wrt apart (map fst ps) \<Longrightarrow> (p, leaf) \<in> set ps \<Longrightarrow> get_segs v' p = Some leaf"
proof (induction ps v rule: set_all.induct)
  case (2 q l ps v)
  then obtain v1 where v1: "set_path_rec v q l = Inr v1" "set_all ps v1 = Inr v'" by (auto simp: try_then_Inr_iff)
  show ?case
  proof (cases "(p, leaf) = (q, l)")
    case True
    have ap: "\<forall>p \<in> set ps. apart (fst p) q" using 2(3) apart_sym by fastforce
    show ?thesis using set_all_keeps [OF v1(2) ap get_set_same [OF v1(1)]] True by simp
  qed (use 2 v1 in auto)
qed simp

lemma set_carriers_all:
  "length chunks = length paths \<Longrightarrow>
   set_carriers C paths chunks v = set_all (zip (map segments paths) (map (\<lambda>c. J_Str (encode_b64 C c)) chunks)) v"
proof (induction C paths chunks v rule: set_carriers.induct)
  case (1 C path paths chunk chunks v)
  then show ?case by (cases "set_path v path (J_Str (encode_b64 C chunk))") (auto simp: set_path_def)
qed auto

text \<open>The optional fields that the generator picks are a subsequence of those of the variant.\<close>

lemma set_optional_all:
  "\<exists>picked r'. subseq picked opts \<and>
     set_optional R opts v r = (set_all (map (\<lambda>opt. (segments (opt_path opt), opt_value opt)) picked) v, r')"
proof (induction opts arbitrary: v r)
  case (Cons opt opts)
  obtain n r1 where n: "next_u32 R r = (n, r1)" by fastforce
  show ?case
  proof (cases "n AND 1 = 0")
    case True
    show ?thesis
    proof (cases "set_path v (opt_path opt) (opt_value opt)")
      case (Inl e)
      then have "set_optional R (opt # opts) v r = (set_all (map (\<lambda>opt. (segments (opt_path opt), opt_value opt)) [opt]) v, r1)"
        using n True by (simp add: set_path_def)
      then show ?thesis by (metis subseq_Cons2 list_emb_Nil)
    next
      case (Inr v1)
      obtain picked r' where "subseq picked opts"
        "set_optional R opts v1 r1 = (set_all (map (\<lambda>opt. (segments (opt_path opt), opt_value opt)) picked) v1, r')"
        using Cons by blast
      then have "subseq (opt # picked) (opt # opts)" "set_optional R (opt # opts) v r =
          (set_all (map (\<lambda>opt. (segments (opt_path opt), opt_value opt)) (opt # picked)) v, r')"
        using n True Inr by (simp_all add: set_path_def)
      then show ?thesis by blast
    qed
  next
    case False
    with Cons [of v r1] n show ?thesis by (auto intro: list_emb_Cons)
  qed
qed (auto intro: exI [of _ "[]"])

section \<open>The round trip\<close>

text \<open>
  A variant without collisions: its carriers and optional fields can all be written into the
  template, and no two of them lie on one path. \<open>validate\<close> does not check this.
\<close>

definition variant_paths :: "schema_variant \<Rightarrow> segment list list" where
  "variant_paths v = map segments (carriers v @ map opt_path (optional v))"

definition variant_ok :: "schema_variant \<Rightarrow> bool" where
  "variant_ok v \<longleftrightarrow> carriers v \<noteq> [] \<and> json_wf (template v) \<and> sorted_wrt apart (variant_paths v) \<and>
     list_all (settable (template v)) (variant_paths v) \<and> list_all (\<lambda>opt. json_wf (opt_value opt)) (optional v)"

lemma extract_from_concat:
  "length chunks = length paths \<Longrightarrow> crypto_ok C \<Longrightarrow>
   \<forall>(path, chunk) \<in> set (zip paths chunks). get_path body path = Some (J_Str (encode_b64 C chunk)) \<Longrightarrow>
   extract_from C paths body = Some (concat chunks)"
proof (induction paths arbitrary: chunks)
  case (Cons path paths)
  then obtain c cs where c: "chunks = c # cs" by (cases chunks) auto
  have "decode_b64 C (encode_b64 C c) = Inr c" using Cons(3) by (simp add: crypto_ok_def decode_b64_def encode_b64_def)
  with Cons c show ?case by auto
qed simp

lemma subseq_facts: "subseq xs ys \<Longrightarrow> set xs \<subseteq> set ys \<and> (sorted_wrt P ys \<longrightarrow> sorted_wrt P xs)"
  by (induction rule: list_emb.induct) auto

lemma build_packet_extract:
  assumes v: "variant_ok v" and C: "crypto_ok C"
  shows "\<exists>body r'. build_packet C R v sealed r = (Inr body, r') \<and> extract_sealed C v body = Some sealed"
proof -
  define chunks where "chunks = split_chunks sealed (length (carriers v))"
  define cs where "cs = zip (map segments (carriers v)) (map (\<lambda>c. J_Str (encode_b64 C c)) chunks)"
  let ?os = "map (\<lambda>opt. (segments (opt_path opt), opt_value opt))"
  have len: "length chunks = length (carriers v)" by (simp add: chunks_def)
  have cs_keys: "map fst cs = map segments (carriers v)" using len by (simp add: cs_def)
  have cs_ok: "sorted_wrt apart (map fst cs)" "\<forall>p \<in> set cs. settable (template v) (fst p) \<and> json_wf (snd p)"
  proof -
    show "sorted_wrt apart (map fst cs)" using v by (simp add: cs_keys variant_ok_def variant_paths_def sorted_wrt_append)
    have "fst ` set cs = set (map segments (carriers v))" using arg_cong [OF cs_keys, of set] by simp
    moreover have "\<forall>p \<in> set cs. json_wf (snd p)" by (auto simp: cs_def dest!: set_zip_rightD)
    ultimately show "\<forall>p \<in> set cs. settable (template v) (fst p) \<and> json_wf (snd p)"
      using v by (simp add: variant_ok_def variant_paths_def list_all_iff flip: ball_simps(9))
  qed
  obtain w1 where w1: "set_all cs (template v) = Inr w1" using set_all_ok [OF cs_ok] v by (auto simp: variant_ok_def)
  obtain picked r1 where picked: "subseq picked (optional v)"
    and so: "set_optional R (optional v) w1 r = (set_all (?os picked) w1, r1)"
    using set_optional_all [of "optional v" R w1 r] by blast
  have sub: "set picked \<subseteq> set (optional v)" using subseq_facts [OF picked] by blast
  have srt: "sorted_wrt apart (map fst (cs @ ?os picked))"
  proof -
    have "subseq (map (segments \<circ> opt_path) picked) (map (segments \<circ> opt_path) (optional v))"
      using picked by (rule subseq_map)
    from subseq_facts [OF this, of apart] v show ?thesis
      by (auto simp: cs_keys variant_ok_def variant_paths_def sorted_wrt_append comp_def)
  qed
  have "\<forall>p \<in> set (cs @ ?os picked). settable (template v) (fst p) \<and> json_wf (snd p)"
    using cs_ok(2) v sub by (auto simp: variant_ok_def variant_paths_def list_all_iff subset_iff)
  then obtain w where w: "set_all (cs @ ?os picked) (template v) = Inr w" "json_wf w"
    using set_all_ok [OF srt, of "template v"] v by (auto simp: variant_ok_def)
  then have w2: "set_all (?os picked) w1 = Inr w" using w1 by (simp add: set_all_append)
  obtain body r2 where body: "shuffle_keys R w r1 = (body, r2)" by fastforce
  have "build_packet C R v sealed r = (Inr body, r2)"
    using set_carriers_all [OF len, of C "template v"] w1 w2 so body
    by (simp add: build_packet_def chunks_def cs_def)
  moreover have "extract_sealed C v body = Some sealed"
  proof -
    have "get_path body path = Some (J_Str (encode_b64 C chunk))" if "(path, chunk) \<in> set (zip (carriers v) chunks)" for path chunk
    proof -
      have "(segments path, J_Str (encode_b64 C chunk)) \<in> set (cs @ ?os picked)"
        using that by (force simp: cs_def set_zip)
      from set_all_get [OF w(1) srt this] shuffle_keeps_string [OF w(2), of "segments path" "encode_b64 C chunk" R r1]
      show ?thesis by (simp add: get_path_def body)
    qed
    then have "extract_from C (carriers v) body = Some (concat chunks)" using extract_from_concat [OF len C] by blast
    moreover have "concat chunks = sealed" using v by (simp add: chunks_def split_chunks_concat variant_ok_def)
    ultimately show ?thesis by (simp add: extract_sealed_def)
  qed
  ultimately show ?thesis by blast
qed

lemma cover_seal_open:
  assumes "aead_ok A" and "rng_ok R" and "length inner < 2 ^ 32"
  shows "\<exists>sealed r'. cover_seal A R key inner r = (Inr sealed, r') \<and> cover_open A key sealed = Inr inner \<and>
    length sealed = length inner + 28"
proof -
  obtain nonce r' where nonce: "fill_bytes R NONCE_LEN r = (nonce, r')" by fastforce
  then have len: "length nonce = NONCE_LEN" using assms(2) by (metis fst_conv rng_ok_def)
  obtain c where c: "aead_seal A key nonce [] inner = Some c" using aead_okD(1) [OF assms(1,3)] by blast
  then have "aead_open A key nonce [] c = Some inner" "length c = length inner + 16"
    using aead_okD(2,3) [OF assms(1)] by (auto simp: VOIP_TAG_LEN_def)
  with nonce c len show ?thesis by (simp add: cover_seal_def cover_open_def NONCE_LEN_def)
qed

lemma try_variants_finds:
  assumes "v \<in> set vs" and "extract_sealed C v body = Some sealed" and "cover_open A key sealed = Inr plain"
  shows "\<exists>p. try_variants C A key body vs = Some p \<and>
    (p = plain \<or> (\<exists>v' s. v' \<in> set vs \<and> extract_sealed C v' body = Some s \<and> s \<noteq> sealed \<and> cover_open A key s = Inr p))"
  using assms
proof (induction vs)
  case (Cons v' vs)
  show ?case
  proof (cases "\<exists>s p. extract_sealed C v' body = Some s \<and> cover_open A key s = Inr p")
    case True
    then obtain s p where s: "extract_sealed C v' body = Some s" "cover_open A key s = Inr p" by blast
    with Cons.prems(3) show ?thesis by (cases "s = sealed") auto
  next
    case False
    then have "v \<in> set vs" and "try_variants C A key body (v' # vs) = try_variants C A key body vs"
      using Cons.prems by (auto split: option.split sum.split)
    with Cons show ?thesis by (metis list.set_intros(2))
  qed
qed simp

definition spec_ok :: "kind_spec \<Rightarrow> bool" where
  "spec_ok spec \<longleftrightarrow> schemas spec \<noteq> [] \<and> list_all variant_ok (schemas spec)"

text \<open>What a run of \<open>wrap\<close> has done, and what \<open>unwrap\<close> makes of its packet.\<close>

lemma wrap_then_unwrap:
  assumes C: "crypto_ok C" and A: "aead_ok A" and R: "rng_ok R" and key: "cover_key C p = Inr key"
    and kind: "map_of (kinds p) kind = Some spec" "spec_ok spec" and len: "length inner < 2 ^ 32"
  obtains body r' v sealed r1 r2 plain where "wrap C A R p kind inner r = (Inr body, r')" and "v \<in> set (schemas spec)"
    and "cover_seal A R key inner r1 = (Inr sealed, r2)" and "build_packet C R v sealed r2 = (Inr body, r')"
    and "extract_sealed C v body = Some sealed" and "cover_open A key sealed = Inr inner" and "unwrap C A p kind body = Inr plain"
    and "plain = inner \<or> (\<exists>v' s. v' \<in> set (schemas spec) \<and> extract_sealed C v' body = Some s \<and> s \<noteq> sealed \<and> cover_open A key s = Inr plain)"
proof -
  obtain n r1 where n: "next_u32 R r = (n, r1)" by fastforce
  define v where "v = schemas spec ! (unat n mod length (schemas spec))"
  have v: "v \<in> set (schemas spec)" "variant_ok v" using kind(2) by (auto simp: v_def spec_ok_def list_all_iff)
  obtain sealed r2 where sealed: "cover_seal A R key inner r1 = (Inr sealed, r2)" "cover_open A key sealed = Inr inner"
    using cover_seal_open [OF A R len] by blast
  obtain body r3 where body: "build_packet C R v sealed r2 = (Inr body, r3)" "extract_sealed C v body = Some sealed"
    using build_packet_extract [OF v(2) C, of R sealed r2] by blast
  have wrap: "wrap C A R p kind inner r = (Inr body, r3)"
    using kind n sealed(1) body(1) key by (simp add: wrap_def find_kind_def spec_ok_def seal_into_def flip: v_def)
  obtain q where q: "try_variants C A key body (schemas spec) = Some q"
    "q = inner \<or> (\<exists>v' s. v' \<in> set (schemas spec) \<and> extract_sealed C v' body = Some s \<and> s \<noteq> sealed \<and> cover_open A key s = Inr q)"
    using try_variants_finds [OF v(1) body(2) sealed(2)] by blast
  then have "unwrap C A p kind body = Inr q" using kind(1) key by (simp add: unwrap_def find_kind_def)
  with that wrap v(1) sealed body q(2) show thesis by blast
qed

text \<open>
  C20. Whatever the random choices are, \<open>wrap\<close> of a message under a kind whose variants have no
  colliding paths succeeds. One of the variants reads from the packet the bytes \<open>sealed\<close>, the one
  ciphertext that was made, of this very message; and \<open>unwrap\<close> of the packet returns the message,
  unless the AEAD accepts a forgery: other bytes, read from the packet under some variant.
\<close>

theorem cover_roundtrip:
  assumes C: "crypto_ok C" and A: "aead_ok A" and R: "rng_ok R" and key: "cover_key C p = Inr key"
    and kind: "map_of (kinds p) kind = Some spec" "spec_ok spec" and len: "length inner < 2 ^ 32"
  shows "\<exists>body r' v sealed plain. wrap C A R p kind inner r = (Inr body, r') \<and> unwrap C A p kind body = Inr plain \<and>
    v \<in> set (schemas spec) \<and> extract_sealed C v body = Some sealed \<and>
    (\<exists>r1 r2. cover_seal A R key inner r1 = (Inr sealed, r2)) \<and> cover_open A key sealed = Inr inner \<and>
    (plain = inner \<or> (\<exists>v' s. v' \<in> set (schemas spec) \<and> extract_sealed C v' body = Some s \<and> s \<noteq> sealed \<and>
       cover_open A key s = Inr plain))"
  by (rule wrap_then_unwrap [OF assms, of r]) blast

section \<open>Variants that are not confused\<close>

text \<open>
  The assumption under which the variants of a kind are not confused: what is read from a packet
  under a variant other than its own is no valid ciphertext. Where the variants are told apart by
  their fields it is a fact (\<open>marked_separated\<close>), and with one variant too; otherwise it is the
  unforgeability of the AEAD.
\<close>

definition separated :: "crypto_env \<Rightarrow> aead \<Rightarrow> 'r rng \<Rightarrow> masking_profile \<Rightarrow> string \<Rightarrow> bool" where
  "separated C A R p kind \<longleftrightarrow> (\<forall>key spec v v' inner r sealed r' body r'' s. cover_key C p = Inr key \<longrightarrow> map_of (kinds p) kind = Some spec \<longrightarrow>
     v \<in> set (schemas spec) \<longrightarrow> v' \<in> set (schemas spec) \<longrightarrow> cover_seal A R key inner r = (Inr sealed, r') \<longrightarrow>
     build_packet C R v sealed r' = (Inr body, r'') \<longrightarrow> extract_sealed C v' body = Some s \<longrightarrow> s \<noteq> sealed \<longrightarrow>
     (\<exists>e. cover_open A key s = Inl e))"

lemma separated_roundtrip:
  assumes "crypto_ok C" and "aead_ok A" and "rng_ok R" and "cover_key C p = Inr key"
    and "map_of (kinds p) kind = Some spec" "spec_ok spec" "separated C A R p kind" and "length inner < 2 ^ 32"
  shows "\<exists>body r'. wrap C A R p kind inner r = (Inr body, r') \<and> unwrap C A p kind body = Inr inner"
proof (rule wrap_then_unwrap [OF assms(1-6,8), of r])
  fix body r' v sealed r1 r2 plain
  assume run: "wrap C A R p kind inner r = (Inr body, r')" "v \<in> set (schemas spec)" "cover_seal A R key inner r1 = (Inr sealed, r2)"
      "build_packet C R v sealed r2 = (Inr body, r')" "unwrap C A p kind body = Inr plain"
    and "plain = inner \<or> (\<exists>v' s. v' \<in> set (schemas spec) \<and> extract_sealed C v' body = Some s \<and> s \<noteq> sealed \<and> cover_open A key s = Inr plain)"
  moreover have "\<exists>e. cover_open A key s = Inl e" if "v' \<in> set (schemas spec)" "extract_sealed C v' body = Some s" "s \<noteq> sealed" for v' s
    using assms(7) assms(4,5) run(2) that(1) run(3,4) that(2,3) unfolding separated_def by blast
  ultimately have "plain = inner" by fastforce
  with run show ?thesis by blast
qed

text \<open>A variant is marked off from another one by a carrier under a key that the packets of the other do not have.\<close>

fun first_key :: "segment list \<Rightarrow> string option" where
  "first_key (Key k # rest) = Some k"
| "first_key _ = None"

definition marked_off :: "schema_variant \<Rightarrow> schema_variant \<Rightarrow> bool" where
  "marked_off v v' \<longleftrightarrow> list_ex (\<lambda>path. case first_key (segments path) of
       Some k \<Rightarrow> get_key k (template v) = None \<and> list_all (\<lambda>p. first_key p \<noteq> Some k) (variant_paths v)
     | None \<Rightarrow> False) (carriers v')"

lemma set_path_other_key:
  assumes "set_path_rec v p leaf = Inr w" and "first_key p \<noteq> Some k" and "get_key k v = None"
  shows "get_key k w = None"
proof (cases p)
  case (Cons a rest)
  show ?thesis
  proof (cases a)
    case (Idx i)
    with assms(1) Cons show ?thesis by (auto simp: try_then_Inr_iff split: json.splits if_splits)
  next
    case (Key k')
    have "map_of (ensure_object v) k = None" using assms(3) by (cases v) (simp_all add: ensure_object_def)
    with assms(1,2) Cons Key show ?thesis by (auto simp: Let_def try_then_Inr_iff update_conv split: if_splits)
  qed
qed (use assms(1) in simp)

lemma set_all_other_key:
  "set_all ps v = Inr w \<Longrightarrow> \<forall>p \<in> set ps. first_key (fst p) \<noteq> Some k \<Longrightarrow> get_key k v = None \<Longrightarrow> get_key k w = None"
proof (induction ps v rule: set_all.induct)
  case (2 p leaf ps v)
  then obtain v1 where v1: "set_path_rec v p leaf = Inr v1" "set_all ps v1 = Inr w" by (auto simp: try_then_Inr_iff)
  have "get_key k v1 = None" using set_path_other_key [OF v1(1)] 2(3,4) by simp
  with 2(1) v1 2(3) show ?case by simp
qed simp

lemma shuffle_no_key:
  assumes "get_key k v = None"
  shows "get_key k (fst (shuffle_keys R v r)) = None"
proof (cases v)
  case (J_Obj m)
  obtain m' r1 where m': "shuffle_entries R m r = (m', r1)" by fastforce
  obtain es r2 where es: "fisher_yates R (length m' - 1) m' r1 = (es, r2)" by fastforce
  have keys: "map fst m' = map fst m" using shuffle_entries_map(1) [of R m r] m' by simp
  have "mset es = mset m'" using mset_fisher_yates [of "length m' - 1" m' R r1] es by (cases m') auto
  then have "set es = set m'" by (metis set_mset_mset)
  then have "k \<notin> fst ` set es" using assms J_Obj keys by (metis get_key.simps(1) image_set map_of_eq_None_iff)
  then have "map_of (foldl (\<lambda>acc (k, v). AList.update k v acc) acc es) k = map_of acc k" for acc
    by (induction es arbitrary: acc) (auto simp: update_conv)
  from this [of "[]"] show ?thesis using J_Obj m' es by simp
qed (use assms in \<open>auto simp: case_prod_beta Let_def\<close>)

lemma extract_needs: "extract_from C paths body = Some x \<Longrightarrow> path \<in> set paths \<Longrightarrow> get_path body path \<noteq> None"
  by (induction C paths body arbitrary: x rule: extract_from.induct) (auto split: option.splits sum.splits)

lemma marked_off_unread:
  assumes m: "marked_off v v'" and b: "build_packet C R v sealed r = (Inr body, r')"
  shows "extract_sealed C v' body = None"
proof (rule ccontr)
  obtain path k where p: "path \<in> set (carriers v')" "first_key (segments path) = Some k" "get_key k (template v) = None"
    "list_all (\<lambda>p. first_key p \<noteq> Some k) (variant_paths v)"
    using m unfolding marked_off_def list_ex_iff by (auto split: option.splits)
  obtain rest where path: "segments path = Key k # rest" using p(2) by (cases "segments path" rule: first_key.cases) simp_all
  define chunks where "chunks = split_chunks sealed (length (carriers v))"
  define cs where "cs = zip (map segments (carriers v)) (map (\<lambda>c. J_Str (encode_b64 C c)) chunks)"
  have len: "length chunks = length (carriers v)" by (simp add: chunks_def)
  obtain w1 where w1: "set_all cs (template v) = Inr w1"
    and b1: "(case set_optional R (optional v) w1 r of (Inl e, r') \<Rightarrow> (Inl e, r')
      | (Inr out', r') \<Rightarrow> (case shuffle_keys R out' r' of (x, r'') \<Rightarrow> (Inr x, r''))) = (Inr body, r')"
    using b set_carriers_all [OF len, of C "template v"] unfolding build_packet_def chunks_def [symmetric] cs_def by (auto split: sum.splits)
  obtain picked r1 where picked: "subseq picked (optional v)"
    and so: "set_optional R (optional v) w1 r = (set_all (map (\<lambda>opt. (segments (opt_path opt), opt_value opt)) picked) w1, r1)"
    using set_optional_all [of "optional v" R w1 r] by blast
  obtain w where w: "set_all (map (\<lambda>opt. (segments (opt_path opt), opt_value opt)) picked) w1 = Inr w"
    and body: "body = fst (shuffle_keys R w r1)"
    using b1 so by (auto split: sum.splits prod.splits)
  have "fst ` set cs \<subseteq> set (variant_paths v)" by (auto simp: cs_def variant_paths_def dest: set_zip_leftD)
  then have "get_key k w1 = None" using set_all_other_key [OF w1 _ p(3)] p(4) by (auto simp: list_all_iff)
  moreover have "set picked \<subseteq> set (optional v)" using subseq_facts [OF picked] by blast
  then have "\<forall>q \<in> set (map (\<lambda>opt. (segments (opt_path opt), opt_value opt)) picked). first_key (fst q) \<noteq> Some k"
    using p(4) by (auto simp: list_all_iff variant_paths_def)
  ultimately have "get_key k w = None" using set_all_other_key [OF w] by blast
  then have none: "get_path body path = None" unfolding body get_path_def path by (simp add: shuffle_no_key)
  assume "extract_sealed C v' body \<noteq> None"
  then obtain x where "extract_from C (carriers v') body = Some x" by (auto simp: extract_sealed_def)
  from extract_needs [OF this p(1)] none show False by simp
qed

lemma marked_separated:
  assumes "crypto_ok C" and "\<And>spec. map_of (kinds p) kind = Some spec \<Longrightarrow> spec_ok spec \<and>
    (\<forall>v \<in> set (schemas spec). \<forall>v' \<in> set (schemas spec). v \<noteq> v' \<longrightarrow> marked_off v v')"
  shows "separated C A R p kind"
  unfolding separated_def
proof (intro allI impI)
  fix key spec v v' inner r sealed r' body r'' s
  assume spec: "map_of (kinds p) kind = Some spec" and v: "v \<in> set (schemas spec)" "v' \<in> set (schemas spec)"
    and b: "build_packet C R v sealed r' = (Inr body, r'')" and s: "extract_sealed C v' body = Some s" "s \<noteq> sealed"
  note ok = assms(2) [OF spec]
  show "\<exists>e. cover_open A key s = Inl e"
  proof (cases "v = v'")
    case True
    have "variant_ok v" using ok v by (simp add: spec_ok_def list_all_iff)
    from build_packet_extract [OF this assms(1), of R sealed r'] b s True show ?thesis by simp
  next
    case False
    with ok v have "marked_off v v'" by blast
    from marked_off_unread [OF this b] s show ?thesis by simp
  qed
qed

lemma single_separated:
  "crypto_ok C \<Longrightarrow> map_of (kinds p) kind = Some spec \<Longrightarrow> schemas spec = [v] \<Longrightarrow> variant_ok v \<Longrightarrow> separated C A R p kind"
  by (rule marked_separated) (simp_all add: spec_ok_def)

text \<open>With a single variant there is nothing to confuse it with.\<close>

lemma cover_roundtrip_single:
  assumes "crypto_ok C" and "aead_ok A" and "rng_ok R" and "cover_key C p = Inr key"
    and "map_of (kinds p) kind = Some spec" "schemas spec = [v]" "variant_ok v" and "length inner < 2 ^ 32"
  shows "\<exists>body r'. wrap C A R p kind inner r = (Inr body, r') \<and> unwrap C A p kind body = Inr inner"
  by (rule separated_roundtrip [OF assms(1-5) _ single_separated [OF assms(1,5-7)] assms(8)]) (simp add: spec_ok_def assms)

section \<open>A profile that is valid and useless\<close>

lemma cover_open_length: "aead_ok A \<Longrightarrow> cover_open A key s = Inr plain \<Longrightarrow> length s = length plain + 28"
  using aead_okD(2,3) [of A]
  by (fastforce simp: cover_open_def NONCE_LEN_def VOIP_TAG_LEN_def split: if_splits option.splits)

definition colliding_variant :: schema_variant where
  "colliding_variant = \<lparr>template = J_Obj [], carriers = [''a'', ''a''], optional = [], json_schema = None\<rparr>"

definition colliding_profile :: "string \<Rightarrow> masking_profile" where
  "colliding_profile k = \<lparr>profile_name = ''t'', version = 1, cover_key_b64 = k,
     kinds = [(''push'', \<lparr>spec_path = ''/p'', spec_method = ''PUT'', schemas = [colliding_variant]\<rparr>)],
     user_agents = [], headers = [], cache_control = None\<rparr>"

lemma colliding_packet:
  assumes "odd (length sealed)"
  shows "\<exists>c. length (c @ c) \<noteq> length sealed \<and>
    build_packet C R colliding_variant sealed r = (Inr (J_Obj [(''a'', J_Str (encode_b64 C c))]), r)"
proof -
  have "length (split_chunks sealed 2) = Suc (Suc 0)" by simp
  then obtain c1 c2 where c: "split_chunks sealed 2 = [c1, c2]" unfolding length_Suc_conv by auto
  have seg: "segments ''a'' = [Key ''a'']" by (simp add: segments_def segment_of_def parse_u64_def digit_value_def)
  have "length (c2 @ c2) \<noteq> length sealed" using assms by (metis length_append even_add)
  moreover have "build_packet C R colliding_variant sealed r = (Inr (J_Obj [(''a'', J_Str (encode_b64 C c2))]), r)"
    using c by (simp add: build_packet_def colliding_variant_def set_path_def seg ensure_object_def numeral_2_eq_2)
  ultimately show ?thesis by blast
qed

text \<open>
  Validation does not look for collisions: with a profile that it accepts, whose variant names one
  carrier twice, \<open>wrap\<close> succeeds and the receiver does not get the message back, for every message
  of odd length, under every lawful cipher and every random choice.
\<close>

lemma validated_profile_loses:
  assumes C: "crypto_ok C" and A: "aead_ok A" and R: "rng_ok R"
    and key: "decode_b64 C k = Inr key" "length key = 32" and inner: "odd (length inner)" "length inner < 2 ^ 32"
  shows "validate C (colliding_profile k) = Inr () \<and>
    (\<exists>body r'. wrap C A R (colliding_profile k) ''push'' inner r = (Inr body, r') \<and>
      unwrap C A (colliding_profile k) ''push'' body \<noteq> Inr inner)"
proof
  let ?p = "colliding_profile k"
  have ck: "cover_key C ?p = Inr key" using key by (simp add: cover_key_def colliding_profile_def COVER_KEY_LEN_def)
  have "trim ''t'' = ''t''" by (rule trim_ascii) simp
  then show "validate C ?p = Inr ()" using ck
    by (simp add: validate_def) (simp add: colliding_profile_def colliding_variant_def MAX_SCHEMAS_PER_KIND_def)
  obtain n r1 where n: "next_u32 R r = (n, r1)" by fastforce
  obtain sealed r2 where sealed: "cover_seal A R key inner r1 = (Inr sealed, r2)" "length sealed = length inner + 28"
    using cover_seal_open [OF A R inner(2)] by blast
  then have "odd (length sealed)" using inner(1) by simp
  then obtain c where c: "length (c @ c) \<noteq> length sealed"
    "build_packet C R colliding_variant sealed r2 = (Inr (J_Obj [(''a'', J_Str (encode_b64 C c))]), r2)"
    using colliding_packet [of sealed C R r2] by blast
  let ?body = "J_Obj [(''a'', J_Str (encode_b64 C c))]"
  have find: "find_kind ?p ''push'' = Inr \<lparr>spec_path = ''/p'', spec_method = ''PUT'', schemas = [colliding_variant]\<rparr>"
    by (simp add: find_kind_def colliding_profile_def)
  have "wrap C A R ?p ''push'' inner r = (Inr ?body, r2)"
    using n sealed(1) c(2) ck by (simp add: wrap_def find seal_into_def)
  moreover have "segments ''a'' = [Key ''a'']" by (simp add: segments_def segment_of_def parse_u64_def digit_value_def)
  moreover have "decode_b64 C (encode_b64 C c) = Inr c" using C by (simp add: crypto_ok_def decode_b64_def encode_b64_def)
  ultimately have "extract_sealed C colliding_variant ?body = Some (c @ c)"
    by (simp add: extract_sealed_def colliding_variant_def get_path_def)
  moreover have "cover_open A key (c @ c) \<noteq> Inr inner"
    using cover_open_length [OF A, of key "c @ c" inner] c(1) sealed(2) by auto
  ultimately have "unwrap C A ?p ''push'' ?body \<noteq> Inr inner"
    using ck by (auto simp: unwrap_def find split: sum.splits)
  with \<open>wrap C A R ?p ''push'' inner r = (Inr ?body, r2)\<close>
  show "\<exists>body r'. wrap C A R ?p ''push'' inner r = (Inr body, r') \<and> unwrap C A ?p ''push'' body \<noteq> Inr inner" by blast
qed

section \<open>Examples\<close>

definition demo_rng :: "nat rng" where
  "demo_rng = \<lparr>next_u32 = (\<lambda>r. (of_nat r, Suc r)), fill_bytes = (\<lambda>n r. (replicate n (of_nat r), Suc r))\<rparr>"

lemma demo_rng_ok [simp]: "rng_ok demo_rng"
  by (simp add: rng_ok_def demo_rng_def)

lemma validated_profile_loses_example:
  "validate demo_crypto (colliding_profile alice_key) = Inr () \<and>
   (\<exists>body r'. wrap demo_crypto demo_aead demo_rng (colliding_profile alice_key) ''push'' [1] 0 = (Inr body, r') \<and>
      unwrap demo_crypto demo_aead (colliding_profile alice_key) ''push'' body \<noteq> Inr [1])"
  by (rule validated_profile_loses [OF demo_crypto_ok demo_aead_ok demo_rng_ok, where key = "as_bytes alice_key"])
    (simp_all add: alice_key_def)

definition demo_variants :: "schema_variant list" where
  "demo_variants =
     [\<lparr>template = J_Obj [(''op'', J_Str ''order''), (''items'', J_Arr [J_Obj [(''sku'', J_Str ''y''), (''note'', J_Str [])]]),
          (''meta'', J_Obj [(''a'', J_Str [])])],
        carriers = [''meta.a'', ''meta.b'', ''items.0.note''], optional = [\<lparr>opt_path = ''meta.coupon'', opt_value = J_Str ''SAVE10''\<rparr>],
        json_schema = None\<rparr>,
      \<lparr>template = J_Obj [(''action'', J_Str ''sync''), (''box'', J_Obj [])], carriers = [''box.p''], optional = [], json_schema = None\<rparr>]"

definition demo_profile :: masking_profile where
  "demo_profile = \<lparr>profile_name = ''demo'', version = 1, cover_key_b64 = alice_key,
     kinds = [(''push'', \<lparr>spec_path = ''/v2/orders'', spec_method = ''PUT'', schemas = demo_variants\<rparr>)],
     user_agents = [], headers = [], cache_control = None\<rparr>"

lemma demo_segments:
  "segments ''meta.a'' = [Key ''meta'', Key ''a'']" "segments ''meta.b'' = [Key ''meta'', Key ''b'']"
  "segments ''meta.coupon'' = [Key ''meta'', Key ''coupon'']" "segments ''box.p'' = [Key ''box'', Key ''p'']"
  "segments ''items.0.note'' = [Key ''items'', Idx 0, Key ''note'']"
  by (simp_all add: segments_def segment_of_def parse_u64_def digit_value_def)

lemma demo_variants_ok: "list_all variant_ok demo_variants"
  by (simp add: demo_variants_def variant_ok_def variant_paths_def demo_segments ensure_object_def)

theorem cover_roundtrip_witness:
  "\<exists>body r' plain v sealed. wrap demo_crypto demo_aead demo_rng demo_profile ''push'' [1, 2, 3] 0 = (Inr body, r') \<and>
     unwrap demo_crypto demo_aead demo_profile ''push'' body = Inr plain \<and> v \<in> set demo_variants \<and>
     extract_sealed demo_crypto v body = Some sealed \<and> cover_open demo_aead (as_bytes alice_key) sealed = Inr [1, 2, 3]"
proof -
  have "cover_key demo_crypto demo_profile = Inr (as_bytes alice_key)"
    by (simp add: cover_key_def demo_profile_def COVER_KEY_LEN_def alice_key_def)
  moreover have "map_of (kinds demo_profile) ''push'' = Some \<lparr>spec_path = ''/v2/orders'', spec_method = ''PUT'', schemas = demo_variants\<rparr>"
    by (simp add: demo_profile_def)
  moreover have "spec_ok \<lparr>spec_path = ''/v2/orders'', spec_method = ''PUT'', schemas = demo_variants\<rparr>"
    using demo_variants_ok by (simp add: spec_ok_def) (simp add: demo_variants_def)
  ultimately show ?thesis
    using cover_roundtrip [OF demo_crypto_ok demo_aead_ok demo_rng_ok, of demo_profile _ "''push''" _ "[1, 2, 3]" 0]
    by fastforce
qed

end
