(* ===== verification/Cover_Schema.thy ===== *)
theory Cover_Schema
  imports Cover_Contract Cover_Props
begin

text \<open>
  The covers that follow a masking profile: \<open>client_cover_schema.rs\<close> and \<open>schema_cover.rs\<close>. Both
  write the inner structure as JSON text and hand it to the masking engine. The locale
  \<open>schema_pair\<close> collects what makes them fit; it satisfies the contract \<open>covers_fit\<close>.
\<close>

record schema_env =
  se_json :: json_codec
  se_crypto :: crypto_env
  se_aead :: aead
  se_profile :: masking_profile

section \<open>The client\<close>

definition wrap_core :: "schema_env \<Rightarrow> 'r rng \<Rightarrow> string \<Rightarrow> json \<Rightarrow> 'r \<Rightarrow> json res \<times> 'r" where
  "wrap_core S R kind core r = wrap (se_crypto S) (se_aead S) R (se_profile S) kind (to_vec (se_json S) core) r"

definition unwrap_core :: "schema_env \<Rightarrow> string \<Rightarrow> (json \<Rightarrow> 'a res) \<Rightarrow> json \<Rightarrow> 'a res" where
  "unwrap_core S kind decode body =
     try_then (unwrap (se_crypto S) (se_aead S) (se_profile S) kind body) (\<lambda>inner.
       try_then (from_slice (se_json S) inner) decode)"

definition schema_route :: "schema_env \<Rightarrow> string \<Rightarrow> cover_route option" where
  "schema_route S kind =
     map_option (\<lambda>spec. \<lparr>route_path = spec_path spec, route_method = spec_method spec\<rparr>) (map_of (kinds (se_profile S)) kind)"

definition schema_wrap_kind :: "schema_env \<Rightarrow> 'r rng \<Rightarrow> string \<Rightarrow> bytes \<Rightarrow> 'r \<Rightarrow> json option \<times> 'r" where
  "schema_wrap_kind S R kind inner r =
     (case map_of (kinds (se_profile S)) kind of
        None \<Rightarrow> (None, r)
      | Some _ \<Rightarrow> map_prod (\<lambda>x. case x of Inl _ \<Rightarrow> None | Inr v \<Rightarrow> Some v) id
                    (wrap (se_crypto S) (se_aead S) R (se_profile S) kind inner r))"

definition schema_unwrap_kind :: "schema_env \<Rightarrow> string \<Rightarrow> json \<Rightarrow> bytes option" where
  "schema_unwrap_kind S kind body =
     (case unwrap (se_crypto S) (se_aead S) (se_profile S) kind body of Inl _ \<Rightarrow> None | Inr v \<Rightarrow> Some v)"

definition schema_wrap_push :: "schema_env \<Rightarrow> 'r rng \<Rightarrow> core_push \<Rightarrow> 'r \<Rightarrow> json res \<times> 'r" where
  "schema_wrap_push S R q r = wrap_core S R ''push'' (push_json (push_request_of (se_crypto S) q)) r"

definition schema_wrap_pull :: "schema_env \<Rightarrow> 'r rng \<Rightarrow> core_range \<Rightarrow> 'r \<Rightarrow> json res \<times> 'r" where
  "schema_wrap_pull S R q r = wrap_core S R ''pull'' (range_json ''after_seq'' (range_request_of (se_crypto S) q)) r"

definition schema_wrap_map :: "schema_env \<Rightarrow> 'r rng \<Rightarrow> core_range \<Rightarrow> 'r \<Rightarrow> json res \<times> 'r" where
  "schema_wrap_map S R q r = wrap_core S R ''map'' (range_json ''after_seq'' (range_request_of (se_crypto S) q)) r"

definition schema_wrap_notify :: "schema_env \<Rightarrow> 'r rng \<Rightarrow> core_notify \<Rightarrow> 'r \<Rightarrow> json res \<times> 'r" where
  "schema_wrap_notify S R q r = wrap_core S R ''notify'' (notify_json (notify_request_of (se_crypto S) q)) r"

definition schema_wrap_notify_multi :: "schema_env \<Rightarrow> 'r rng \<Rightarrow> core_notify_multi \<Rightarrow> 'r \<Rightarrow> json res \<times> 'r" where
  "schema_wrap_notify_multi S R q r = wrap_core S R ''notify'' (notify_json (notify_multi_request_of (se_crypto S) q)) r"

definition schema_wrap_determinate :: "schema_env \<Rightarrow> 'r rng \<Rightarrow> core_range \<Rightarrow> 'r \<Rightarrow> json res \<times> 'r" where
  "schema_wrap_determinate S R q r = wrap_core S R ''determinate'' (range_json ''from_seq'' (range_request_of (se_crypto S) q)) r"

definition schema_wrap_call_signal :: "schema_env \<Rightarrow> 'r rng \<Rightarrow> core_call_signal \<Rightarrow> 'r \<Rightarrow> json res \<times> 'r" where
  "schema_wrap_call_signal S R q r = wrap_core S R ''call_signal'' (call_signal_json (call_signal_request_of (se_crypto S) q)) r"

definition schema_wrap_call_poll :: "schema_env \<Rightarrow> 'r rng \<Rightarrow> core_call_poll \<Rightarrow> 'r \<Rightarrow> json res \<times> 'r" where
  "schema_wrap_call_poll S R q r = wrap_core S R ''call_poll'' (call_poll_json (call_poll_request_of (se_crypto S) q)) r"

definition schema_unwrap_push_response :: "schema_env \<Rightarrow> json \<Rightarrow> unit res" where
  "schema_unwrap_push_response S body = try_then (unwrap_core S ''push_resp'' simple_of_json body) push_outcome"

definition schema_unwrap_pull_response :: "schema_env \<Rightarrow> json \<Rightarrow> raw_packet list res" where
  "schema_unwrap_pull_response S body = try_then (unwrap_core S ''pull_resp'' pull_of_json body) (pull_outcome (se_crypto S))"

definition schema_unwrap_map_response :: "schema_env \<Rightarrow> json \<Rightarrow> map_answer res" where
  "schema_unwrap_map_response S body = try_then (unwrap_core S ''map_resp'' map_of_json body) map_outcome"

definition schema_unwrap_notify_response :: "schema_env \<Rightarrow> json \<Rightarrow> u64 res" where
  "schema_unwrap_notify_response S body = try_then (unwrap_core S ''notify_resp'' notify_resp_of_json body) notify_outcome"

definition schema_unwrap_notify_response_multi :: "schema_env \<Rightarrow> json \<Rightarrow> (string \<times> u64) list res" where
  "schema_unwrap_notify_response_multi S body =
     try_then (unwrap_core S ''notify_resp'' notify_resp_of_json body) notify_multi_outcome"

definition schema_unwrap_determinate_response :: "schema_env \<Rightarrow> json \<Rightarrow> unit res" where
  "schema_unwrap_determinate_response S body =
     try_then (unwrap_core S ''determinate_resp'' simple_of_json body) (simple_outcome ''Determinate'')"

definition schema_unwrap_call_signal_response :: "schema_env \<Rightarrow> json \<Rightarrow> unit res" where
  "schema_unwrap_call_signal_response S body =
     try_then (unwrap_core S ''call_signal_resp'' simple_of_json body) (simple_outcome ''CallSignal'')"

definition schema_unwrap_call_poll_response :: "schema_env \<Rightarrow> json \<Rightarrow> call_envelope_in list res" where
  "schema_unwrap_call_poll_response S body =
     try_then (unwrap_core S ''call_poll_resp'' poll_of_json body) (poll_outcome (se_crypto S))"

definition schema_client :: "schema_env \<Rightarrow> 'r rng \<Rightarrow> 'r client_cover" where
  "schema_client S R = \<lparr>route = schema_route S, wrap_kind = schema_wrap_kind S R, unwrap_kind = schema_unwrap_kind S,
     wrap_push = schema_wrap_push S R, wrap_pull = schema_wrap_pull S R, wrap_map = schema_wrap_map S R,
     wrap_notify = schema_wrap_notify S R, wrap_notify_multi = schema_wrap_notify_multi S R,
     wrap_determinate = schema_wrap_determinate S R, wrap_call_signal = schema_wrap_call_signal S R,
     wrap_call_poll = schema_wrap_call_poll S R, unwrap_push_response = schema_unwrap_push_response S,
     unwrap_pull_response = schema_unwrap_pull_response S, unwrap_map_response = schema_unwrap_map_response S,
     unwrap_notify_response = schema_unwrap_notify_response S,
     unwrap_notify_response_multi = schema_unwrap_notify_response_multi S,
     unwrap_determinate_response = schema_unwrap_determinate_response S,
     unwrap_call_signal_response = schema_unwrap_call_signal_response S,
     unwrap_call_poll_response = schema_unwrap_call_poll_response S\<rparr>"

section \<open>The server\<close>

text \<open>A response that cannot be sealed is sent as the empty object. The structures of requests have the fields of the inner ones.\<close>

definition seal_response :: "schema_env \<Rightarrow> 'r rng \<Rightarrow> string \<Rightarrow> json \<Rightarrow> 'r \<Rightarrow> json \<times> 'r" where
  "seal_response S R kind core r =
     (case wrap (se_crypto S) (se_aead S) R (se_profile S) kind (to_vec (se_json S) core) r of
        (Inr v, r') \<Rightarrow> (v, r')
      | (Inl _, r') \<Rightarrow> (J_Obj [], r'))"

definition schema_server :: "schema_env \<Rightarrow> 'r rng \<Rightarrow> 'r server_cover" where
  "schema_server S R = \<lparr>unwrap_push = unwrap_core S ''push'' push_of_json,
     unwrap_pull = unwrap_core S ''pull'' (range_of_json ''after_seq''),
     unwrap_map = unwrap_core S ''map'' (range_of_json ''after_seq''),
     unwrap_notify = unwrap_core S ''notify'' notify_of_json,
     unwrap_determinate = unwrap_core S ''determinate'' (range_of_json ''from_seq''),
     unwrap_call_signal = unwrap_core S ''call_signal'' call_signal_of_json,
     unwrap_call_poll = unwrap_core S ''call_poll'' call_poll_of_json,
     wrap_push_response = (\<lambda>a. seal_response S R ''push_resp'' (simple_json a)),
     wrap_pull_response = (\<lambda>a. seal_response S R ''pull_resp'' (pull_json a)),
     wrap_map_response = (\<lambda>a. seal_response S R ''map_resp'' (map_json a)),
     wrap_notify_response = (\<lambda>a. seal_response S R ''notify_resp'' (notify_resp_json a)),
     wrap_determinate_response = (\<lambda>a. seal_response S R ''determinate_resp'' (simple_json a)),
     wrap_call_signal_response = (\<lambda>a. seal_response S R ''call_signal_resp'' (simple_json a)),
     wrap_call_poll_response = (\<lambda>a. seal_response S R ''call_poll_resp'' (poll_json a))\<rparr>"

section \<open>The contract\<close>

definition message_kinds :: "string list" where
  "message_kinds = [''push'', ''pull'', ''map'', ''notify'', ''determinate'', ''call_signal'', ''call_poll'',
     ''push_resp'', ''pull_resp'', ''map_resp'', ''notify_resp'', ''determinate_resp'', ''call_signal_resp'', ''call_poll_resp'']"

definition serves :: "masking_profile \<Rightarrow> string \<Rightarrow> bool" where
  "serves p kind = (case map_of (kinds p) kind of None \<Rightarrow> False
     | Some spec \<Rightarrow> spec_ok spec)"

definition sendable :: "json_codec \<Rightarrow> json \<Rightarrow> bool" where
  "sendable J v \<longleftrightarrow> json_fits 127 v \<and> length (to_vec J v) < 2 ^ 32"

text \<open>
  The same profile on both sides, with variants without colliding paths for each of the fourteen
  kinds, any number of them; and for each side's generator the variants of a kind are not confused.
\<close>

definition schema_ok :: "schema_env \<Rightarrow> bool" where
  "schema_ok S \<longleftrightarrow> json_codec_ok (se_json S) \<and> crypto_ok (se_crypto S) \<and> aead_ok (se_aead S) \<and>
     (\<exists>key. cover_key (se_crypto S) (se_profile S) = Inr key) \<and> list_all (serves (se_profile S)) message_kinds"

definition unconfused :: "schema_env \<Rightarrow> 'r rng \<Rightarrow> bool" where
  "unconfused S R \<longleftrightarrow> list_all (separated (se_crypto S) (se_aead S) R (se_profile S)) message_kinds"

lemma unwrap_core_value: "unwrap_core S kind Inr body = Inr v \<Longrightarrow> unwrap_core S kind decode body = decode v"
  by (auto simp: unwrap_core_def try_then_Inr_iff)

locale schema_pair =
  fixes S :: schema_env
    and R :: "'r rng"
    and R' :: "'s rng"
  assumes env: "schema_ok S" and R: "rng_ok R" "unconfused S R" and R': "rng_ok R'" "unconfused S R'"
begin

lemma engine_roundtrip:
  assumes "rng_ok Q" and "unconfused S Q" and "kind \<in> set message_kinds" and "sendable (se_json S) v"
  shows "\<exists>body r'. wrap (se_crypto S) (se_aead S) Q (se_profile S) kind (to_vec (se_json S) v) r = (Inr body, r') \<and>
    unwrap_core S kind Inr body = Inr v"
proof -
  obtain key where e: "json_codec_ok (se_json S)" "crypto_ok (se_crypto S)" "aead_ok (se_aead S)"
    "cover_key (se_crypto S) (se_profile S) = Inr key" "serves (se_profile S) kind"
    using env assms(3) by (auto simp: schema_ok_def list_all_iff)
  obtain spec where spec: "map_of (kinds (se_profile S)) kind = Some spec" "spec_ok spec"
    using e(5) by (auto simp: serves_def split: option.splits)
  have sep: "separated (se_crypto S) (se_aead S) Q (se_profile S) kind"
    using assms(2,3) by (simp add: unconfused_def list_all_iff)
  have J: "length (to_vec (se_json S) v) < 2 ^ 32" "from_slice (se_json S) (to_vec (se_json S) v) = Inr v"
    using assms(4) e(1) by (auto simp: sendable_def json_codec_ok_def)
  obtain body r' where "wrap (se_crypto S) (se_aead S) Q (se_profile S) kind (to_vec (se_json S) v) r = (Inr body, r')"
    "unwrap (se_crypto S) (se_aead S) (se_profile S) kind body = Inr (to_vec (se_json S) v)"
    using separated_roundtrip [OF e(2,3) assms(1) e(4) spec sep J(1)] by blast
  then show ?thesis by (simp add: unwrap_core_def J(2))
qed

lemma request_roundtrip:
  assumes "kind \<in> set message_kinds" and "sendable (se_json S) v" and "decode v = Inr x"
  shows "\<exists>body. (\<exists>r'. wrap_core S R kind v r = (Inr body, r')) \<and> unwrap_core S kind decode body = Inr x"
proof -
  obtain body r' where "wrap_core S R kind v r = (Inr body, r')" "unwrap_core S kind Inr body = Inr v"
    using engine_roundtrip [OF R assms(1,2), of r] by (auto simp: wrap_core_def)
  with unwrap_core_value [OF this(2), of decode] assms(3) show ?thesis by simp
qed

lemma response_roundtrip:
  assumes "kind \<in> set message_kinds" and "sendable (se_json S) v"
  shows "unwrap_core S kind decode (fst (seal_response S R' kind v s)) = decode v"
proof -
  obtain body r' where "wrap (se_crypto S) (se_aead S) R' (se_profile S) kind (to_vec (se_json S) v) s = (Inr body, r')"
    "unwrap_core S kind Inr body = Inr v"
    using engine_roundtrip [OF R' assms, of s] by blast
  with unwrap_core_value [OF this(2), of decode] show ?thesis by (simp add: seal_response_def)
qed

lemma kinds_listed [simp]:
  "''push'' \<in> set message_kinds" "''pull'' \<in> set message_kinds" "''map'' \<in> set message_kinds"
  "''notify'' \<in> set message_kinds" "''determinate'' \<in> set message_kinds" "''call_signal'' \<in> set message_kinds"
  "''call_poll'' \<in> set message_kinds" "''push_resp'' \<in> set message_kinds" "''pull_resp'' \<in> set message_kinds"
  "''map_resp'' \<in> set message_kinds" "''notify_resp'' \<in> set message_kinds" "''determinate_resp'' \<in> set message_kinds"
  "''call_signal_resp'' \<in> set message_kinds" "''call_poll_resp'' \<in> set message_kinds"
  by (simp_all add: message_kinds_def)

end

lemmas schema_client_defs = schema_client_def schema_wrap_push_def schema_wrap_pull_def schema_wrap_map_def
  schema_wrap_notify_def schema_wrap_notify_multi_def schema_wrap_determinate_def schema_wrap_call_signal_def
  schema_wrap_call_poll_def schema_unwrap_push_response_def schema_unwrap_pull_response_def
  schema_unwrap_map_response_def schema_unwrap_notify_response_def schema_unwrap_notify_response_multi_def
  schema_unwrap_determinate_response_def schema_unwrap_call_signal_response_def schema_unwrap_call_poll_response_def

sublocale schema_pair < fit: covers_fit "se_crypto S" "schema_client S R" "schema_server S R'" "sendable (se_json S)"
  by unfold_locales
    (simp_all add: schema_client_defs schema_server_def request_roundtrip response_roundtrip)

context schema_pair
begin

lemma fit_axioms: "covers_fit (se_crypto S) (schema_client S R) (schema_server S R') (sendable (se_json S))"
  by (rule fit.covers_fit_axioms)

end

lemma schema_fits:
  "schema_ok S \<Longrightarrow> rng_ok R \<Longrightarrow> unconfused S R \<Longrightarrow> rng_ok R' \<Longrightarrow> unconfused S R' \<Longrightarrow>
    covers_fit (se_crypto S) (schema_client S R) (schema_server S R') (sendable (se_json S))"
  by (rule schema_pair.fit_axioms) (rule schema_pair.intro)

end
