(* ===== verification/Admin_Routes.thy ===== *)
theory Admin_Routes
  imports Server_State Json_Values
begin

text \<open>
  The administration interface (\<open>routes/admin/\<close>) and registration (\<open>routes/reg.rs\<close>): signed
  envelopes with a time window and a table of nonces, two levels of keys, and the operations on
  users, dialogues and configuration. JSON serialisation is third-party (\<open>json_text\<close>); whether the
  configuration could be written to disk is the argument \<open>saved\<close>.
\<close>

section \<open>Envelopes\<close>

definition MAX_TS_SKEW_SECS :: u64 where "MAX_TS_SKEW_SECS = 300"

datatype capability = Base | Extended

record admin_envelope =
  ae_op :: string
  ae_nonce :: string
  ae_ts :: u64
  ae_username :: "string option"
  ae_patch :: "json option"
  ae_sig :: string

type_synonym nonce_table = "string \<rightharpoonup> u64"

definition canonical_message :: "string \<Rightarrow> string \<Rightarrow> u64 \<Rightarrow> string \<Rightarrow> string" where
  "canonical_message op nonce ts extra =
     ''paranoia-admin'' @ [CHR 0x0A] @ op @ [CHR 0x0A] @ nonce @ [CHR 0x0A] @ show_nat (unat ts) @ [CHR 0x0A] @ extra"

definition verify_with_keys :: "crypto_env \<Rightarrow> bytes \<Rightarrow> bytes option \<Rightarrow> capability \<Rightarrow> bytes \<Rightarrow> bytes \<Rightarrow> unit res" where
  "verify_with_keys C base extended cap msg sig =
     (case cap of
        Extended \<Rightarrow>
          (case extended of None \<Rightarrow> Inl ''extended_key_not_configured''
           | Some ext \<Rightarrow> (case verify_signature C ext msg sig of
               Inl _ \<Rightarrow> Inl ''invalid_admin_signature'' | Inr _ \<Rightarrow> Inr ()))
      | Base \<Rightarrow>
          if verify_signature C base msg sig = Inr () then Inr ()
          else (case extended of
                  Some ext \<Rightarrow> if verify_signature C ext msg sig = Inr () then Inr () else Inl ''invalid_admin_signature''
                | None \<Rightarrow> Inl ''invalid_admin_signature''))"

definition verify_admin_sig :: "crypto_env \<Rightarrow> server_config \<Rightarrow> bytes \<Rightarrow> bytes \<Rightarrow> capability \<Rightarrow> unit res" where
  "verify_admin_sig C cfg msg sig cap =
     (case admin_pubkey_bytes C cfg of
        Inl e \<Rightarrow> Inl (''server_config_error: '' @ e)
      | Inr base \<Rightarrow> verify_with_keys C base (extended_admin_pubkey_bytes C cfg) cap msg sig)"

definition retain_fresh :: "u64 \<Rightarrow> nonce_table \<Rightarrow> nonce_table" where
  "retain_fresh now nonces = (\<lambda>n. case nonces n of None \<Rightarrow> None
     | Some t \<Rightarrow> if sat_sub now t \<le> MAX_TS_SKEW_SECS then Some t else None)"

definition in_window :: "u64 \<Rightarrow> u64 \<Rightarrow> bool" where
  "in_window now ts \<longleftrightarrow> \<not> (ts > sat_add now MAX_TS_SKEW_SECS \<or> sat_sub now ts > MAX_TS_SKEW_SECS)"

text \<open>The critical section over the nonces: may the request go on, and the table it leaves.\<close>

definition check_nonce :: "u64 \<Rightarrow> nonce_table \<Rightarrow> string \<Rightarrow> u64 \<Rightarrow> bool \<times> nonce_table" where
  "check_nonce now nonces nonce ts =
     (let kept = retain_fresh now nonces
      in if kept nonce \<noteq> None then (False, kept) else (True, kept(nonce \<mapsto> ts)))"

definition verify_env :: "crypto_env \<Rightarrow> server_config \<Rightarrow> u64 \<Rightarrow> nonce_table \<Rightarrow> admin_envelope \<Rightarrow> string \<Rightarrow> string \<Rightarrow> capability \<Rightarrow>
    unit res \<times> nonce_table" where
  "verify_env C cfg now nonces env expected_op extra cap =
     (if ae_op env \<noteq> expected_op then (Inl ''op_mismatch'', nonces)
      else if \<not> in_window now (ae_ts env) then (Inl ''stale_or_future_timestamp'', nonces)
      else case check_nonce now nonces (ae_nonce env) (ae_ts env) of
        (False, nonces') \<Rightarrow> (Inl ''nonce_replayed'', nonces')
      | (True, nonces') \<Rightarrow>
          (case decode_b64 C (ae_sig env) of Inl _ \<Rightarrow> (Inl ''bad_sig_encoding'', nonces')
           | Inr sig \<Rightarrow> (verify_admin_sig C cfg (as_bytes (canonical_message (ae_op env) (ae_nonce env) (ae_ts env) extra)) sig cap,
                         nonces')))"

section \<open>Users\<close>

datatype admin_response =
  Adm_Error string
| Adm_Ok
| Adm_Users "string \<rightharpoonup> string"
| Adm_Dialogues "(string \<times> u64 \<times> u64) list"
| Adm_Pruned "string list"
| Adm_Config u16 string string "string option" "string option" "string option" nat

definition users_list :: "crypto_env \<Rightarrow> server_config \<Rightarrow> u64 \<Rightarrow> nonce_table \<Rightarrow> admin_envelope \<Rightarrow> admin_response \<times> nonce_table" where
  "users_list C cfg now nonces env =
     (case verify_env C cfg now nonces env ''list_users'' [] Base of
        (Inl e, nonces') \<Rightarrow> (Adm_Error e, nonces')
      | (Inr _, nonces') \<Rightarrow> (Adm_Users (users cfg), nonces'))"

definition remove_user :: "server_config \<Rightarrow> string \<Rightarrow> server_config" where
  "remove_user cfg u = cfg\<lparr>users := (users cfg)(u := None)\<rparr>"

definition users_delete :: "crypto_env \<Rightarrow> server_config \<Rightarrow> u64 \<Rightarrow> nonce_table \<Rightarrow> bool \<Rightarrow> admin_envelope \<Rightarrow>
    admin_response \<times> server_config \<times> nonce_table" where
  "users_delete C cfg now nonces saved env =
     (case (case ae_username env of Some u \<Rightarrow> if u = [] then None else Some u | None \<Rightarrow> None) of
        None \<Rightarrow> (Adm_Error ''missing_username'', cfg, nonces)
      | Some username \<Rightarrow>
          (case verify_env C cfg now nonces env ''delete_user'' username Base of
             (Inl e, nonces') \<Rightarrow> (Adm_Error e, cfg, nonces')
           | (Inr _, nonces') \<Rightarrow>
               if users cfg username = None then (Adm_Error ''user_not_found'', cfg, nonces')
               else (if saved then Adm_Ok else Adm_Error ''config_save_failed'', remove_user cfg username, nonces')))"

section \<open>Registration\<close>

record reg_request =
  rg_username :: string
  rg_pub_key :: string
  rg_admin_sig :: string

definition insert_user :: "server_config \<Rightarrow> string \<Rightarrow> string \<Rightarrow> server_config" where
  "insert_user cfg u key = cfg\<lparr>users := (users cfg)(u \<mapsto> key)\<rparr>"

definition do_reg :: "crypto_env \<Rightarrow> server_config \<Rightarrow> reg_request \<Rightarrow> api_response \<times> server_config" where
  "do_reg C cfg req =
     (let failed = (\<lambda>msg. (api_fail msg, cfg)) in
      case decode_b64 C (rg_admin_sig req) of Inl e \<Rightarrow> failed (''Bad admin_sig: '' @ e)
      | Inr admin_sig \<Rightarrow>
      case decode_b64 C (rg_pub_key req) of Inl e \<Rightarrow> failed (''Bad pub_key: '' @ e)
      | Inr user_pub \<Rightarrow>
      if length user_pub \<noteq> 32 then failed ''pub_key must be 32 bytes''
      else case verify_admin_sig C cfg (as_bytes (rg_username req @ rg_pub_key req)) admin_sig Base of
        Inl e \<Rightarrow> failed (''Invalid admin signature: '' @ e)
      | Inr _ \<Rightarrow>
      if users cfg (rg_username req) \<noteq> None then failed ''User already exists''
      else (api_ok ''OK'', insert_user cfg (rg_username req) (rg_pub_key req)))"

section \<open>Dialogues\<close>

fun valid_dialogue_ids :: "crypto_env \<Rightarrow> string list \<Rightarrow> string set" where
  "valid_dialogue_ids C [] = {}"
| "valid_dialogue_ids C (a # us) =
     insert (make_dialogue_id C a a) ((\<lambda>b. make_dialogue_id C a b) ` set us) \<union> valid_dialogue_ids C us"

definition dialogues_list :: "'db server_env \<Rightarrow> server_config \<Rightarrow> u64 \<Rightarrow> nonce_table \<Rightarrow> 'db \<Rightarrow> admin_envelope \<Rightarrow>
    admin_response \<times> nonce_table" where
  "dialogues_list E cfg now nonces db env =
     (case verify_env (crypto E) cfg now nonces env ''list_dialogues'' [] Extended of
        (Inl e, nonces') \<Rightarrow> (Adm_Error e, nonces')
      | (Inr _, nonces') \<Rightarrow>
          (case list_dialogues (kv E) db of
             Inl e \<Rightarrow> (Adm_Error (''store_error: '' @ e), nonces')
           | Inr ds \<Rightarrow> (Adm_Dialogues ds, nonces')))"

fun prune_loop :: "'db store_env \<Rightarrow> string set \<Rightarrow> (string \<times> u64 \<times> u64) list \<Rightarrow> 'db \<Rightarrow> string list \<Rightarrow> 'db \<times> string list" where
  "prune_loop K valid [] db pruned = (db, pruned)"
| "prune_loop K valid ((did, l, b) # ds) db pruned =
     (if did \<in> valid then prune_loop K valid ds db pruned
      else case remove_range K db did 0 (- 1) of
             Inl _ \<Rightarrow> prune_loop K valid ds db pruned
           | Inr db' \<Rightarrow> prune_loop K valid ds db' (pruned @ [did]))"

text \<open>\<open>names\<close> are the registered users in the iteration order of the hash map.\<close>

definition dialogues_prune :: "'db server_env \<Rightarrow> server_config \<Rightarrow> string list \<Rightarrow> u64 \<Rightarrow> nonce_table \<Rightarrow> 'db \<Rightarrow> admin_envelope \<Rightarrow>
    admin_response \<times> 'db \<times> nonce_table" where
  "dialogues_prune E cfg names now nonces db env =
     (case verify_env (crypto E) cfg now nonces env ''prune'' [] Extended of
        (Inl e, nonces') \<Rightarrow> (Adm_Error e, db, nonces')
      | (Inr _, nonces') \<Rightarrow>
          (case list_dialogues (kv E) db of
             Inl e \<Rightarrow> (Adm_Error (''store_error: '' @ e), db, nonces')
           | Inr ds \<Rightarrow> (case prune_loop (kv E) (valid_dialogue_ids (crypto E) names) ds db [] of
               (db', pruned) \<Rightarrow> (Adm_Pruned pruned, db', nonces'))))"

section \<open>Configuration\<close>

definition config_get :: "crypto_env \<Rightarrow> server_config \<Rightarrow> nat \<Rightarrow> u64 \<Rightarrow> nonce_table \<Rightarrow> admin_envelope \<Rightarrow> admin_response \<times> nonce_table" where
  "config_get C cfg users_count now nonces env =
     (case verify_env C cfg now nonces env ''get_config'' [] Extended of
        (Inl e, nonces') \<Rightarrow> (Adm_Error e, nonces')
      | (Inr _, nonces') \<Rightarrow> (Adm_Config (port cfg) (store_path cfg) (admin_key cfg) (stun_bind cfg)
          (turn_public_ip cfg) (turn_relay_port_range cfg) users_count, nonces'))"

definition patch_extra :: "(json \<Rightarrow> string) \<Rightarrow> json option \<Rightarrow> string" where
  "patch_extra json_text patch = json_text (case patch of None \<Rightarrow> J_Null | Some v \<Rightarrow> v)"

definition string_or_null :: "json \<Rightarrow> string option" where
  "string_or_null v = (case v of J_Str s \<Rightarrow> if trim s = [] then None else Some s | _ \<Rightarrow> None)"

text \<open>One optional field of the patch.\<close>

definition patch_field :: "(string \<times> json) list \<Rightarrow> string \<Rightarrow> string option \<Rightarrow> string option" where
  "patch_field obj name old = (case map_of obj name of None \<Rightarrow> old | Some v \<Rightarrow> string_or_null v)"

definition patch_port :: "(string \<times> json) list \<Rightarrow> u16 \<Rightarrow> u16 option" where
  "patch_port obj old =
     (case map_of obj ''port'' of
        None \<Rightarrow> Some old
      | Some (J_Pos p) \<Rightarrow> if 1 \<le> p \<and> p \<le> 65535 then Some (ucast p) else None
      | Some _ \<Rightarrow> None)"

definition apply_patch :: "(string \<times> json) list \<Rightarrow> server_config \<Rightarrow> server_config option" where
  "apply_patch obj cfg =
     (case patch_port obj (port cfg) of None \<Rightarrow> None
      | Some p \<Rightarrow> Some (cfg\<lparr>port := p, stun_bind := patch_field obj ''stun_bind'' (stun_bind cfg),
          turn_public_ip := patch_field obj ''turn_public_ip'' (turn_public_ip cfg),
          turn_relay_port_range := patch_field obj ''turn_relay_port_range'' (turn_relay_port_range cfg)\<rparr>))"

definition config_set :: "crypto_env \<Rightarrow> (json \<Rightarrow> string) \<Rightarrow> server_config \<Rightarrow> u64 \<Rightarrow> nonce_table \<Rightarrow> bool \<Rightarrow> admin_envelope \<Rightarrow>
    admin_response \<times> server_config \<times> nonce_table" where
  "config_set C json_text cfg now nonces saved env =
     (case verify_env C cfg now nonces env ''set_config'' (patch_extra json_text (ae_patch env)) Extended of
        (Inl e, nonces') \<Rightarrow> (Adm_Error e, cfg, nonces')
      | (Inr _, nonces') \<Rightarrow>
          (case ae_patch env of
             None \<Rightarrow> (Adm_Error ''missing_patch'', cfg, nonces')
           | Some (J_Obj obj) \<Rightarrow>
               (case apply_patch obj cfg of
                  None \<Rightarrow> (Adm_Error ''invalid_port'', cfg, nonces')
                | Some cfg' \<Rightarrow> (if saved then Adm_Ok else Adm_Error ''config_save_failed'', cfg', nonces'))
           | Some _ \<Rightarrow> (Adm_Error ''patch_must_be_object'', cfg, nonces')))"

end
