(* ===== verification/Cover_Gateway.thy ===== *)
theory Cover_Gateway
  imports Cover_Schema Admin_Routes Blob_Routes
begin

text \<open>
  The gateway through which masked administration, registration and file requests reach the plain
  handlers (\<open>ParanoiaServer/src/routes/cover_gateway.rs\<close>), with the JSON forms of the requests and
  responses of those handlers (\<open>routes/admin/\<close>, \<open>routes/reg.rs\<close>, \<open>routes/blob.rs\<close>).
\<close>

section \<open>Requests\<close>

text \<open>A \<open>Value\<close> keeps the last of repeated keys.\<close>

definition de_value :: "json \<Rightarrow> json res" where
  "de_value v = Inr (dedup v)"

definition admin_envelope_of_json :: "json \<Rightarrow> admin_envelope res" where
  "admin_envelope_of_json v = try_then (struct_fields [''op'', ''nonce'', ''ts'', ''username'', ''patch'', ''sig''] v) (\<lambda>m.
     try_then (field de_str None ''op'' m) (\<lambda>a. try_then (field de_str None ''nonce'' m) (\<lambda>b.
     try_then (field de_u64 None ''ts'' m) (\<lambda>c. try_then (field (de_opt de_str) (Some None) ''username'' m) (\<lambda>d.
     try_then (field (de_opt de_value) (Some None) ''patch'' m) (\<lambda>e. try_then (field de_str None ''sig'' m) (\<lambda>f.
       Inr \<lparr>ae_op = a, ae_nonce = b, ae_ts = c, ae_username = d, ae_patch = e, ae_sig = f\<rparr>)))))))"

definition reg_request_of_json :: "json \<Rightarrow> reg_request res" where
  "reg_request_of_json v = try_then (struct_fields [''username'', ''pub_key'', ''admin_sig''] v) (\<lambda>m.
     try_then (field de_str None ''username'' m) (\<lambda>a. try_then (field de_str None ''pub_key'' m) (\<lambda>b.
     try_then (field de_str None ''admin_sig'' m) (\<lambda>c. Inr \<lparr>rg_username = a, rg_pub_key = b, rg_admin_sig = c\<rparr>))))"

definition blob_request_of_json :: "json \<Rightarrow> blob_request res" where
  "blob_request_of_json v = try_then (struct_fields [''op'', ''user'', ''nonce'', ''sig'', ''peer'', ''file_id'',
       ''chunk_index'', ''total_chunks'', ''total_size'', ''payload''] v) (\<lambda>m.
     try_then (field de_str None ''op'' m) (\<lambda>a. try_then (field de_str None ''user'' m) (\<lambda>b.
     try_then (field de_str None ''nonce'' m) (\<lambda>c. try_then (field de_str None ''sig'' m) (\<lambda>d.
     try_then (field de_str (Some []) ''peer'' m) (\<lambda>e. try_then (field de_str (Some []) ''file_id'' m) (\<lambda>f.
     try_then (field de_small (Some 0) ''chunk_index'' m) (\<lambda>g. try_then (field de_small (Some 0) ''total_chunks'' m) (\<lambda>h.
     try_then (field de_u64 (Some 0) ''total_size'' m) (\<lambda>i. try_then (field de_str (Some []) ''payload'' m) (\<lambda>j.
       Inr \<lparr>bl_op = a, bl_user = b, bl_nonce = c, bl_sig = d, bl_peer = e, bl_file_id = f, bl_chunk_index = g,
         bl_total_chunks = h, bl_total_size = i, bl_payload = j\<rparr>)))))))))))"

section \<open>Responses\<close>

definition opt_json :: "string option \<Rightarrow> json" where
  "opt_json x = (case x of None \<Rightarrow> J_Null | Some s \<Rightarrow> J_Str s)"

definition count_json :: "nat \<Rightarrow> json" where
  "count_json n = J_Pos (of_nat n)"

definition failed_json :: "string \<Rightarrow> json" where
  "failed_json msg = J_Obj [(''success'', J_Bool False), (''message'', J_Str msg)]"

text \<open>\<open>names\<close> are the users in the iteration order of the hash map.\<close>

definition users_json :: "string list \<Rightarrow> (string \<rightharpoonup> string) \<Rightarrow> json" where
  "users_json names us = J_Obj [(''success'', J_Bool True), (''count'', count_json (length names)),
     (''users'', J_Obj (map (\<lambda>n. (n, opt_json (us n))) names))]"

definition ok_json :: json where
  "ok_json = J_Obj [(''success'', J_Bool True), (''message'', J_Str ''OK'')]"

definition dialogues_json :: "(string \<times> u64 \<times> u64) list \<Rightarrow> json" where
  "dialogues_json ds = J_Obj [(''success'', J_Bool True), (''count'', count_json (length ds)),
     (''dialogues'', J_Arr (map (\<lambda>(did, last, total). J_Obj [(''dialogue_id'', J_Str did), (''last_seq'', J_Pos last),
        (''total_bytes'', J_Pos total)]) ds))]"

definition pruned_json :: "string list \<Rightarrow> json" where
  "pruned_json ids = J_Obj [(''success'', J_Bool True), (''pruned'', count_json (length ids)),
     (''pruned_ids'', J_Arr (map J_Str ids))]"

definition config_json :: "u16 \<Rightarrow> string \<Rightarrow> string \<Rightarrow> string option \<Rightarrow> string option \<Rightarrow> string option \<Rightarrow> nat \<Rightarrow> json" where
  "config_json p sp ak sb ip rr n = J_Obj [(''success'', J_Bool True),
     (''config'', J_Obj [(''port'', J_Pos (ucast p)), (''store_path'', J_Str sp), (''admin_key'', J_Str ak),
        (''stun_bind'', opt_json sb), (''turn_public_ip'', opt_json ip), (''turn_relay_port_range'', opt_json rr),
        (''users_count'', count_json n)])]"

fun admin_json :: "string list \<Rightarrow> admin_response \<Rightarrow> json" where
  "admin_json names (Adm_Error msg) = failed_json msg"
| "admin_json names Adm_Ok = ok_json"
| "admin_json names (Adm_Users us) = users_json names us"
| "admin_json names (Adm_Dialogues ds) = dialogues_json ds"
| "admin_json names (Adm_Pruned ids) = pruned_json ids"
| "admin_json names (Adm_Config p sp ak sb ip rr n) = config_json p sp ak sb ip rr n"

definition reg_response_json :: "api_response \<Rightarrow> json" where
  "reg_response_json a = J_Obj [(''success'', J_Bool (success a)), (''message'', J_Str (message a))]"

fun blob_json :: "blob_response \<Rightarrow> json" where
  "blob_json (Blob_Error msg) = failed_json msg"
| "blob_json (Blob_Limits h l t) = J_Obj [(''success'', J_Bool True), (''max_history_file_size'', J_Pos h),
     (''large_file_max'', J_Pos l), (''ephemeral_retention_secs'', J_Pos t)]"
| "blob_json Blob_Stored = J_Obj [(''success'', J_Bool True)]"
| "blob_json (Blob_Chunk payload) = J_Obj [(''success'', J_Bool True), (''payload'', J_Str payload)]"
| "blob_json Blob_Expired = J_Obj [(''success'', J_Bool False), (''expired'', J_Bool True),
     (''message'', J_Str ''expired or not found'')]"

section \<open>The gateway\<close>

record ('db, 'r) gateway_env =
  ge_server :: "'db server_env"
  ge_json :: json_codec
  ge_aead :: aead
  ge_rng :: "'r rng"
  ge_profile :: "masking_profile option"
  ge_text :: "json \<Rightarrow> string"

record ('db, 'r) gateway_state =
  gs_config :: server_config
  gs_admin_nonces :: nonce_table
  gs_blob_nonces :: nonce_guard
  gs_db :: 'db
  gs_rng :: 'r

definition seal_resp :: "('db, 'r) gateway_env \<Rightarrow> string \<Rightarrow> json \<Rightarrow> ('db, 'r) gateway_state \<Rightarrow> json \<times> ('db, 'r) gateway_state" where
  "seal_resp G kind resp s =
     (case ge_profile G of
        None \<Rightarrow> (J_Obj [], s)
      | Some p \<Rightarrow>
          (case wrap (crypto (ge_server G)) (ge_aead G) (ge_rng G) p kind (to_vec (ge_json G) resp) (gs_rng s) of
             (Inr v, r) \<Rightarrow> (v, s\<lparr>gs_rng := r\<rparr>)
           | (Inl _, r) \<Rightarrow> (J_Obj [], s\<lparr>gs_rng := r\<rparr>)))"

text \<open>The handlers of the administration interface behind one operation name; \<open>saved\<close>: the configuration could be written.\<close>

definition admin_dispatch :: "('db, 'r) gateway_env \<Rightarrow> string list \<Rightarrow> u64 \<Rightarrow> bool \<Rightarrow> admin_envelope \<Rightarrow> ('db, 'r) gateway_state \<Rightarrow>
    json \<times> ('db, 'r) gateway_state" where
  "admin_dispatch G names now saved env s =
     (let E = ge_server G; C = crypto E; cfg = gs_config s; nonces = gs_admin_nonces s; op = ae_op env in
      if op = ''list_users'' then
        (case users_list C cfg now nonces env of (a, n) \<Rightarrow> (admin_json names a, s\<lparr>gs_admin_nonces := n\<rparr>))
      else if op = ''delete_user'' then
        (case users_delete C cfg now nonces saved env of
           (a, cfg', n) \<Rightarrow> (admin_json names a, s\<lparr>gs_config := cfg', gs_admin_nonces := n\<rparr>))
      else if op = ''list_dialogues'' then
        (case dialogues_list E cfg now nonces (gs_db s) env of (a, n) \<Rightarrow> (admin_json names a, s\<lparr>gs_admin_nonces := n\<rparr>))
      else if op = ''prune'' then
        (case dialogues_prune E cfg names now nonces (gs_db s) env of
           (a, db, n) \<Rightarrow> (admin_json names a, s\<lparr>gs_db := db, gs_admin_nonces := n\<rparr>))
      else if op = ''get_config'' then
        (case config_get C cfg (length names) now nonces env of (a, n) \<Rightarrow> (admin_json names a, s\<lparr>gs_admin_nonces := n\<rparr>))
      else if op = ''set_config'' then
        (case config_set C (ge_text G) cfg now nonces saved env of
           (a, cfg', n) \<Rightarrow> (admin_json names a, s\<lparr>gs_config := cfg', gs_admin_nonces := n\<rparr>))
      else (failed_json ''unknown_op'', s))"

text \<open>The common frame: unwrap, read, handle, seal.\<close>

definition covered_request :: "('db, 'r) gateway_env \<Rightarrow> string \<Rightarrow> string \<Rightarrow> (json \<Rightarrow> 'a res) \<Rightarrow> string \<Rightarrow>
    ('a \<Rightarrow> ('db, 'r) gateway_state \<Rightarrow> json \<times> ('db, 'r) gateway_state) \<Rightarrow> json \<Rightarrow> ('db, 'r) gateway_state \<Rightarrow>
    json \<times> ('db, 'r) gateway_state" where
  "covered_request G kind resp_kind decode bad handle_it body s =
     (case ge_profile G of
        None \<Rightarrow> (failed_json ''masking profile not active'', s)
      | Some p \<Rightarrow>
          (case unwrap (crypto (ge_server G)) (ge_aead G) p kind body of
             Inl _ \<Rightarrow> (failed_json ''bad cover'', s)
           | Inr inner \<Rightarrow>
               (case try_then (from_slice (ge_json G) inner) decode of
                  Inl _ \<Rightarrow> (failed_json bad, s)
                | Inr req \<Rightarrow> (case handle_it req s of (resp, s') \<Rightarrow> seal_resp G resp_kind resp s'))))"

definition admin_gateway :: "('db, 'r) gateway_env \<Rightarrow> string list \<Rightarrow> u64 \<Rightarrow> bool \<Rightarrow> json \<Rightarrow> ('db, 'r) gateway_state \<Rightarrow>
    json \<times> ('db, 'r) gateway_state" where
  "admin_gateway G names now saved =
     covered_request G ''admin'' ''admin_resp'' admin_envelope_of_json ''bad admin envelope'' (admin_dispatch G names now saved)"

definition reg_gateway :: "('db, 'r) gateway_env \<Rightarrow> json \<Rightarrow> ('db, 'r) gateway_state \<Rightarrow> json \<times> ('db, 'r) gateway_state" where
  "reg_gateway G =
     covered_request G ''reg'' ''reg_resp'' reg_request_of_json ''bad reg request''
       (\<lambda>req s. case do_reg (crypto (ge_server G)) (gs_config s) req of
          (a, cfg') \<Rightarrow> (reg_response_json a, s\<lparr>gs_config := cfg'\<rparr>))"

definition blob_gateway :: "('db, 'r) gateway_env \<Rightarrow> u64 \<Rightarrow> json \<Rightarrow> ('db, 'r) gateway_state \<Rightarrow> json \<times> ('db, 'r) gateway_state" where
  "blob_gateway G now =
     covered_request G ''blob'' ''blob_resp'' blob_request_of_json ''bad blob request''
       (\<lambda>req s. case do_blob (ge_server G) (gs_config s) now (gs_blob_nonces s) (gs_db s) req of
          (a, g, db) \<Rightarrow> (blob_json a, s\<lparr>gs_blob_nonces := g, gs_db := db\<rparr>))"

end
