(* ===== verification/Client_Transport.thy ===== *)
theory Client_Transport
  imports Cover_Traits
begin

text \<open>
  The HTTP client (\<open>ParanoiaLibrary/src/transport.rs\<close>, \<open>masking.rs\<close>): every operation wraps its
  request with the current cover, sends it to the endpoints in turn until one answers, and reads the
  answer with the cover. The network is a parameter: a function from requests to outcomes on a state
  of the world. The state of the client is the rotation of the user agents and the random generator
  of the cover. Texts of HTTP errors are shortened.
\<close>

section \<open>HTTP masking\<close>

record http_masking =
  default_method :: string
  method_overrides :: "string \<rightharpoonup> string"
  agents :: "string list"
  cache_value :: "string option"
  auth_scheme :: string

definition default_masking :: http_masking where
  "default_masking = \<lparr>default_method = ''PUT'', method_overrides = Map.empty,
     agents = [''Mozilla/5.0 (Linux; Android 14; SM-G991B) AppleWebKit/537.36 (KHTML, like Gecko) Chrome/124.0.0.0 Mobile Safari/537.36''],
     cache_value = Some ''no-store'', auth_scheme = ''Bearer''\<rparr>"

definition method_for :: "http_masking \<Rightarrow> string \<Rightarrow> string" where
  "method_for M path = (case method_overrides M path of Some m \<Rightarrow> m | None \<Rightarrow> default_method M)"

definition user_agent :: "http_masking \<Rightarrow> u64 \<Rightarrow> string option" where
  "user_agent M rotation = (if agents M = [] then None else Some (agents M ! (unat rotation mod length (agents M))))"

definition arrived_auth_value :: "crypto_env \<Rightarrow> http_masking \<Rightarrow> string \<Rightarrow> string \<Rightarrow> string" where
  "arrived_auth_value C M username sig_b64 =
     (let token = encode_b64 C (as_bytes (username @ '':'' @ sig_b64))
      in if auth_scheme M = [] then token else auth_scheme M @ '' '' @ token)"

section \<open>Endpoints\<close>

definition trim_end_slashes :: "string \<Rightarrow> string" where
  "trim_end_slashes s = rev (dropWhile (\<lambda>c. c = CHR ''/'') (rev s))"

definition push_server_url :: "string list \<Rightarrow> string \<Rightarrow> string list" where
  "push_server_url urls url =
     (let u = trim_end_slashes (trim url) in if u \<noteq> [] \<and> u \<notin> set urls then urls @ [u] else urls)"

definition server_urls_of :: "string \<Rightarrow> string list \<Rightarrow> string list" where
  "server_urls_of primary reserve = foldl push_server_url (push_server_url [] primary) reserve"

section \<open>Requests\<close>

record http_request =
  hr_method :: string
  hr_url :: string
  hr_body :: "json option"
  hr_auth :: "string option"
  hr_user_agent :: "string option"
  hr_cache :: "string option"

datatype http_outcome =
  Build_Failed
| Send_Failed
| Responded nat "json res"

datatype endpoint_error = Retry string | Stop string

record ('r, 'w) client_state =
  ua_rotation :: u64
  rng_state :: 'r
  world :: 'w

type_synonym 'w network = "http_request \<Rightarrow> 'w \<Rightarrow> http_outcome \<times> 'w"

record ('r, 'w) transport =
  server_urls :: "string list"
  cover :: "'r client_cover"
  masking :: http_masking
  network :: "'w network"
  parse_method :: "string \<Rightarrow> string option"
  base :: crypto_env

definition classify :: "http_outcome \<Rightarrow> endpoint_error + json" where
  "classify out =
     (case out of
        Build_Failed \<Rightarrow> Inl (Stop ''invalid server endpoint'')
      | Send_Failed \<Rightarrow> Inl (Retry ''server endpoint request failed'')
      | Responded status answer \<Rightarrow>
          if (500 \<le> status \<and> status < 600) \<or> status = 429
          then Inl (Retry (''server endpoint returned retryable HTTP status '' @ show_nat status))
          else if \<not> (200 \<le> status \<and> status < 300)
          then Inl (Stop (''server endpoint returned HTTP status '' @ show_nat status))
          else case answer of Inl e \<Rightarrow> Inl (Stop ''invalid server JSON response'') | Inr v \<Rightarrow> Inr v)"

text \<open>One attempt: \<open>apply_masking\<close> takes the next user agent, whether or not the pool is empty.\<close>

definition send_once :: "('r, 'w) transport \<Rightarrow> string \<Rightarrow> string \<Rightarrow> json option \<Rightarrow> string option \<Rightarrow> ('r, 'w) client_state \<Rightarrow>
    (endpoint_error + json) \<times> ('r, 'w) client_state" where
  "send_once T method url body auth s =
     (let req = \<lparr>hr_method = method, hr_url = url, hr_body = body, hr_auth = auth,
            hr_user_agent = user_agent (masking T) (ua_rotation s), hr_cache = cache_value (masking T)\<rparr>;
          (out, w') = network T req (world s)
      in (classify out, s\<lparr>ua_rotation := ua_rotation s + 1, world := w'\<rparr>))"

fun failover :: "(string \<Rightarrow> 's \<Rightarrow> (endpoint_error + json) \<times> 's) \<Rightarrow> string list \<Rightarrow> string option \<Rightarrow> 's \<Rightarrow> json res \<times> 's" where
  "failover attempt [] last_retry s =
     (case last_retry of Some _ \<Rightarrow> (Inl ''all server endpoints unavailable'', s)
                       | None \<Rightarrow> (Inl ''no server endpoints configured'', s))"
| "failover attempt (u # us) last_retry s =
     (case attempt u s of
        (Inr v, s') \<Rightarrow> (Inr v, s')
      | (Inl (Retry e), s') \<Rightarrow> failover attempt us (Some e) s'
      | (Inl (Stop e), s') \<Rightarrow> (Inl e, s'))"

definition request_json :: "('r, 'w) transport \<Rightarrow> string \<Rightarrow> string \<Rightarrow> json \<Rightarrow> ('r, 'w) client_state \<Rightarrow> json res \<times> ('r, 'w) client_state" where
  "request_json T method path body s =
     failover (\<lambda>u. send_once T method (u @ path) (Some body) None) (server_urls T) None s"

definition put_json :: "('r, 'w) transport \<Rightarrow> string \<Rightarrow> json \<Rightarrow> ('r, 'w) client_state \<Rightarrow> json res \<times> ('r, 'w) client_state" where
  "put_json T path body s = request_json T (method_for (masking T) path) path body s"

definition put_json_authorized :: "('r, 'w) transport \<Rightarrow> string \<Rightarrow> json \<Rightarrow> string \<Rightarrow> ('r, 'w) client_state \<Rightarrow>
    json res \<times> ('r, 'w) client_state" where
  "put_json_authorized T path body auth s =
     failover (\<lambda>u. send_once T (method_for (masking T) path) (u @ path) (Some body) (Some auth)) (server_urls T) None s"

section \<open>Queries\<close>

definition unreserved :: "byte \<Rightarrow> bool" where
  "unreserved b \<longleftrightarrow> 65 \<le> b \<and> b \<le> 90 \<or> 97 \<le> b \<and> b \<le> 122 \<or> 48 \<le> b \<and> b \<le> 57 \<or> b \<in> {45, 46, 95, 126}"

definition upper_hex :: "byte \<Rightarrow> char" where
  "upper_hex b = ''0123456789ABCDEF'' ! unat (b AND 15)"

definition percent_byte :: "byte \<Rightarrow> string" where
  "percent_byte b = (if unreserved b then [char_of (unat b)] else [CHR ''%'', upper_hex (drop_bit 4 b), upper_hex b])"

definition percent_encode_component :: "string \<Rightarrow> string" where
  "percent_encode_component s = concat (map percent_byte (as_bytes s))"

fun query_pairs :: "(string \<times> string) list \<Rightarrow> string" where
  "query_pairs [] = []"
| "query_pairs [(k, v)] = percent_encode_component k @ ''='' @ percent_encode_component v"
| "query_pairs ((k, v) # p # ps) =
     percent_encode_component k @ ''='' @ percent_encode_component v @ ''&'' @ query_pairs (p # ps)"

definition url_with_query :: "string \<Rightarrow> (string \<times> string) list \<Rightarrow> string" where
  "url_with_query url query = (if query = [] then url else url @ ''?'' @ query_pairs query)"

definition get_json_authorized :: "('r, 'w) transport \<Rightarrow> string \<Rightarrow> (string \<times> string) list \<Rightarrow> string \<Rightarrow> ('r, 'w) client_state \<Rightarrow>
    json res \<times> ('r, 'w) client_state" where
  "get_json_authorized T path query auth s =
     failover (\<lambda>u. send_once T ''GET'' (url_with_query (u @ path) query) None (Some auth)) (server_urls T) None s"

section \<open>Operations\<close>

text \<open>A method that is not an HTTP token falls back to PUT.\<close>

definition cover_send :: "('r, 'w) transport \<Rightarrow> string \<Rightarrow> string \<Rightarrow> json \<Rightarrow> ('r, 'w) client_state \<Rightarrow> json res \<times> ('r, 'w) client_state" where
  "cover_send T kind default_path body s =
     (case route (cover T) kind of
        Some rt \<Rightarrow>
          request_json T (case parse_method T (route_method rt) of Some m \<Rightarrow> m | None \<Rightarrow> ''PUT'') (route_path rt) body s
      | None \<Rightarrow> put_json T default_path body s)"

definition through_cover :: "('r, 'w) transport \<Rightarrow> ('r \<Rightarrow> json res \<times> 'r) \<Rightarrow> string \<Rightarrow> string \<Rightarrow> (json \<Rightarrow> 'a res) \<Rightarrow> ('r, 'w) client_state \<Rightarrow>
    'a res \<times> ('r, 'w) client_state" where
  "through_cover T wrap_it kind default_path unwrap_it s =
     (case wrap_it (rng_state s) of
        (Inl e, r') \<Rightarrow> (Inl e, s\<lparr>rng_state := r'\<rparr>)
      | (Inr body, r') \<Rightarrow>
          (case cover_send T kind default_path body (s\<lparr>rng_state := r'\<rparr>) of
             (Inl e, s') \<Rightarrow> (Inl e, s')
           | (Inr resp, s') \<Rightarrow> (unwrap_it resp, s')))"

definition transport_push :: "('r, 'w) transport \<Rightarrow> core_push \<Rightarrow> ('r, 'w) client_state \<Rightarrow> unit res \<times> ('r, 'w) client_state" where
  "transport_push T q s = through_cover T (wrap_push (cover T) q) ''push'' ''/push'' (unwrap_push_response (cover T)) s"

definition transport_pull :: "('r, 'w) transport \<Rightarrow> core_range \<Rightarrow> ('r, 'w) client_state \<Rightarrow> raw_packet list res \<times> ('r, 'w) client_state" where
  "transport_pull T q s = through_cover T (wrap_pull (cover T) q) ''pull'' ''/pull'' (unwrap_pull_response (cover T)) s"

definition transport_map :: "('r, 'w) transport \<Rightarrow> core_range \<Rightarrow> ('r, 'w) client_state \<Rightarrow> map_answer res \<times> ('r, 'w) client_state" where
  "transport_map T q s = through_cover T (wrap_map (cover T) q) ''map'' ''/map'' (unwrap_map_response (cover T)) s"

definition transport_notify :: "('r, 'w) transport \<Rightarrow> core_notify \<Rightarrow> ('r, 'w) client_state \<Rightarrow> u64 res \<times> ('r, 'w) client_state" where
  "transport_notify T q s = through_cover T (wrap_notify (cover T) q) ''notify'' ''/notify'' (unwrap_notify_response (cover T)) s"

definition transport_notify_multi :: "('r, 'w) transport \<Rightarrow> core_notify_multi \<Rightarrow> ('r, 'w) client_state \<Rightarrow>
    (string \<times> u64) list res \<times> ('r, 'w) client_state" where
  "transport_notify_multi T q s =
     through_cover T (wrap_notify_multi (cover T) q) ''notify'' ''/notify'' (unwrap_notify_response_multi (cover T)) s"

definition transport_probe :: "('r, 'w) transport \<Rightarrow> core_notify \<Rightarrow> ('r, 'w) client_state \<Rightarrow> unit res \<times> ('r, 'w) client_state" where
  "transport_probe T q s = through_cover T (wrap_notify (cover T) q) ''notify'' ''/notify'' (\<lambda>_. Inr ()) s"

definition transport_determinate :: "('r, 'w) transport \<Rightarrow> core_range \<Rightarrow> ('r, 'w) client_state \<Rightarrow> unit res \<times> ('r, 'w) client_state" where
  "transport_determinate T q s =
     through_cover T (wrap_determinate (cover T) q) ''determinate'' ''/determinate'' (unwrap_determinate_response (cover T)) s"

definition transport_call_signal :: "('r, 'w) transport \<Rightarrow> core_call_signal \<Rightarrow> ('r, 'w) client_state \<Rightarrow> unit res \<times> ('r, 'w) client_state" where
  "transport_call_signal T q s =
     through_cover T (wrap_call_signal (cover T) q) ''call_signal'' ''/call/signal'' (unwrap_call_signal_response (cover T)) s"

definition transport_call_poll :: "('r, 'w) transport \<Rightarrow> core_call_poll \<Rightarrow> ('r, 'w) client_state \<Rightarrow>
    call_envelope_in list res \<times> ('r, 'w) client_state" where
  "transport_call_poll T q s =
     through_cover T (wrap_call_poll (cover T) q) ''call_poll'' ''/call/poll'' (unwrap_call_poll_response (cover T)) s"

definition transport_reg :: "('r, 'w) transport \<Rightarrow> string \<Rightarrow> string \<Rightarrow> string \<Rightarrow> ('r, 'w) client_state \<Rightarrow> unit res \<times> ('r, 'w) client_state" where
  "transport_reg T username pubkey admin_sig s =
     (case put_json T ''/reg'' (J_Obj [(''username'', J_Str username), (''pub_key'', J_Str pubkey), (''admin_sig'', J_Str admin_sig)]) s of
        (Inl e, s') \<Rightarrow> (Inl e, s')
      | (Inr resp, s') \<Rightarrow>
          (if Option.bind (get_key ''success'' resp) as_bool = Some True then Inr () else Inl ''Reg failed'', s'))"

definition transport_blob :: "('r, 'w) transport \<Rightarrow> json_codec \<Rightarrow> json \<Rightarrow> ('r, 'w) client_state \<Rightarrow> json res \<times> ('r, 'w) client_state" where
  "transport_blob T J body s =
     (case wrap_kind (cover T) ''blob'' (to_vec J body) (rng_state s) of
        (None, r') \<Rightarrow> put_json T ''/blob'' body (s\<lparr>rng_state := r'\<rparr>)
      | (Some covered_body, r') \<Rightarrow>
          (case cover_send T ''blob'' ''/blob'' covered_body (s\<lparr>rng_state := r'\<rparr>) of
             (Inl e, s') \<Rightarrow> (Inl e, s')
           | (Inr resp, s') \<Rightarrow>
               (case unwrap_kind (cover T) ''blob_resp'' resp of
                  Some plain \<Rightarrow> (map_sum id dedup (from_slice J plain), s')
                | None \<Rightarrow> (Inr resp, s'))))"

definition check_direct_ok :: "json \<Rightarrow> string \<Rightarrow> unit res" where
  "check_direct_ok body op =
     (if Option.bind (get_key ''success'' body) as_bool = Some False \<or> Option.bind (get_key ''ok'' body) as_bool = Some False
      then Inl (op @ '' failed'') else Inr ())"

record core_arrived_get =
  ag_sender :: string
  ag_partner :: string
  ag_dialogue_id :: string
  ag_sig :: bytes

record core_arrived_set =
  as_sender :: string
  as_dialogue_id :: string
  as_receipts_enabled :: bool
  as_sig :: bytes

definition partner_last_seq :: "json \<Rightarrow> u64 option res" where
  "partner_last_seq resp =
     (case get_key ''partner_last_seq'' resp of
        None \<Rightarrow> Inr None
      | Some J_Null \<Rightarrow> Inr None
      | Some v \<Rightarrow> (case as_u64 v of Some n \<Rightarrow> Inr (Some n) | None \<Rightarrow> Inl ''Arrived: invalid partner_last_seq''))"

definition transport_arrived_get :: "('r, 'w) transport \<Rightarrow> core_arrived_get \<Rightarrow> ('r, 'w) client_state \<Rightarrow>
    (u64 option \<times> u64) res \<times> ('r, 'w) client_state" where
  "transport_arrived_get T q s =
     (case get_json_authorized T ''/arrived'' [(''dialogue_id'', ag_dialogue_id q), (''partner'', ag_partner q)]
         (arrived_auth_value (base T) (masking T) (ag_sender q) (encode_b64 (base T) (ag_sig q))) s of
        (Inl e, s') \<Rightarrow> (Inl e, s')
      | (Inr resp, s') \<Rightarrow>
          (try_then (check_direct_ok resp ''Arrived'') (\<lambda>_.
           try_then (partner_last_seq resp) (\<lambda>p.
             Inr (p, case Option.bind (get_key ''own_last_seq'' resp) as_u64 of Some n \<Rightarrow> n | None \<Rightarrow> 0))), s'))"

definition transport_arrived_set :: "('r, 'w) transport \<Rightarrow> core_arrived_set \<Rightarrow> ('r, 'w) client_state \<Rightarrow> unit res \<times> ('r, 'w) client_state" where
  "transport_arrived_set T q s =
     (let sig = encode_b64 (base T) (as_sig q)
      in case put_json_authorized T ''/arrived''
           (J_Obj [(''dialogue_id'', J_Str (as_dialogue_id q)), (''receipts_enabled'', J_Bool (as_receipts_enabled q)), (''sig'', J_Str sig)])
           (arrived_auth_value (base T) (masking T) (as_sender q) sig) s of
         (Inl e, s') \<Rightarrow> (Inl e, s')
       | (Inr resp, s') \<Rightarrow> (check_direct_ok resp ''Arrived set'', s'))"

end
