(* ===== verification/Admin_Client.thy ===== *)
theory Admin_Client
  imports Client_Crypto Cover_Gateway Client_Transport
begin

text \<open>
  The client of the administration interface (\<open>ParanoiaLibrary/src/admin_api.rs\<close>): it signs an
  envelope, sends it through the cover gateway when the active profile has the kind, and in the
  plain form otherwise. Nonce and time are arguments, the compact JSON text is the parameter
  \<open>json_text\<close>. The text of the answer is given as the value it shows.
\<close>

section \<open>Requests\<close>

definition admin_message :: "string \<Rightarrow> string \<Rightarrow> u64 \<Rightarrow> string \<Rightarrow> string" where
  "admin_message op nonce ts extra =
     ''paranoia-admin'' @ [CHR 0x0A] @ op @ [CHR 0x0A] @ nonce @ [CHR 0x0A] @ show_nat (unat ts) @ [CHR 0x0A] @ extra"

definition op_path :: "string \<Rightarrow> string" where
  "op_path op =
     (if op = ''list_users'' then ''/admin/users/list''
      else if op = ''delete_user'' then ''/admin/users/delete''
      else if op = ''list_dialogues'' then ''/admin/dialogues/list''
      else if op = ''prune'' then ''/admin/dialogues/prune''
      else if op = ''get_config'' then ''/admin/config/get''
      else if op = ''set_config'' then ''/admin/config/set''
      else ''/admin/unknown'')"

definition admin_extra :: "(json \<Rightarrow> string) \<Rightarrow> string \<Rightarrow> string option \<Rightarrow> json option \<Rightarrow> string" where
  "admin_extra json_text op username patch =
     (if op = ''delete_user'' then (case username of Some u \<Rightarrow> u | None \<Rightarrow> [])
      else if op = ''set_config'' then json_text (case patch of Some p \<Rightarrow> p | None \<Rightarrow> J_Null)
      else [])"

definition admin_body :: "string \<Rightarrow> string \<Rightarrow> u64 \<Rightarrow> string option \<Rightarrow> json option \<Rightarrow> string \<Rightarrow> json" where
  "admin_body op nonce ts username patch sig =
     J_Obj ([(''op'', J_Str op), (''nonce'', J_Str nonce), (''ts'', J_Pos ts)] @
       (case username of Some u \<Rightarrow> [(''username'', J_Str u)] | None \<Rightarrow> []) @
       (case patch of Some p \<Rightarrow> [(''patch'', p)] | None \<Rightarrow> []) @ [(''sig'', J_Str sig)])"

section \<open>Sending\<close>

record ('r, 'w) admin_env =
  an_transport :: "('r, 'w) transport"
  an_json :: json_codec
  an_crypto :: crypto_env
  an_aead :: aead
  an_rng :: "'r rng"
  an_signer :: signer
  an_profile :: "masking_profile option"
  an_text :: "json \<Rightarrow> string"

text \<open>\<open>Inr None\<close>: there is no profile with that kind. The covered body goes out with the method of \<open>put_json\<close>.\<close>

definition try_covered_send :: "('r, 'w) admin_env \<Rightarrow> string \<Rightarrow> string \<Rightarrow> json \<Rightarrow> ('r, 'w) client_state \<Rightarrow>
    json option res \<times> ('r, 'w) client_state" where
  "try_covered_send N kind resp_kind body s =
     (case (case an_profile N of None \<Rightarrow> None
              | Some p \<Rightarrow> map_option (\<lambda>spec. (p, spec)) (map_of (kinds p) kind)) of
        None \<Rightarrow> (Inr None, s)
      | Some (p, spec) \<Rightarrow>
          (case wrap (an_crypto N) (an_aead N) (an_rng N) p kind (to_vec (an_json N) body) (rng_state s) of
             (Inl e, r) \<Rightarrow> (Inl e, s\<lparr>rng_state := r\<rparr>)
           | (Inr covered_body, r) \<Rightarrow>
               (case put_json (an_transport N) (spec_path spec) covered_body (s\<lparr>rng_state := r\<rparr>) of
                  (Inl e, s') \<Rightarrow> (Inl e, s')
                | (Inr resp_cover, s') \<Rightarrow>
                    (try_then (unwrap (an_crypto N) (an_aead N) p resp_kind resp_cover) (\<lambda>resp_inner.
                     try_then (from_slice (an_json N) resp_inner) (\<lambda>resp. Inr (Some (dedup resp)))), s'))))"

definition do_admin :: "('r, 'w) admin_env \<Rightarrow> string \<Rightarrow> u64 \<Rightarrow> string \<Rightarrow> string \<Rightarrow> string option \<Rightarrow> json option \<Rightarrow>
    ('r, 'w) client_state \<Rightarrow> json res \<times> ('r, 'w) client_state" where
  "do_admin N nonce ts admin_secret_b64 op username patch s =
     (case from_secret_b64 (an_crypto N) admin_secret_b64 of
        Inl _ \<Rightarrow> (Inl ''invalid_admin_key'', s)
      | Inr kp \<Rightarrow>
          (let extra = admin_extra (an_text N) op username patch;
               sig = sign_canonical (an_crypto N) (an_signer N) kp (admin_message op nonce ts extra);
               body = admin_body op nonce ts username patch sig
           in case try_covered_send N ''admin'' ''admin_resp'' body s of
                (Inl e, s') \<Rightarrow> (Inl e, s')
              | (Inr (Some resp), s') \<Rightarrow> (Inr resp, s')
              | (Inr None, s') \<Rightarrow> put_json (an_transport N) (op_path op) body s'))"

definition list_users :: "('r, 'w) admin_env \<Rightarrow> string \<Rightarrow> u64 \<Rightarrow> string \<Rightarrow> ('r, 'w) client_state \<Rightarrow> json res \<times> ('r, 'w) client_state" where
  "list_users N nonce ts secret = do_admin N nonce ts secret ''list_users'' None None"

definition delete_user :: "('r, 'w) admin_env \<Rightarrow> string \<Rightarrow> u64 \<Rightarrow> string \<Rightarrow> string \<Rightarrow> ('r, 'w) client_state \<Rightarrow>
    json res \<times> ('r, 'w) client_state" where
  "delete_user N nonce ts secret username = do_admin N nonce ts secret ''delete_user'' (Some username) None"

definition admin_list_dialogues :: "('r, 'w) admin_env \<Rightarrow> string \<Rightarrow> u64 \<Rightarrow> string \<Rightarrow> ('r, 'w) client_state \<Rightarrow>
    json res \<times> ('r, 'w) client_state" where
  "admin_list_dialogues N nonce ts secret = do_admin N nonce ts secret ''list_dialogues'' None None"

definition prune_dialogues :: "('r, 'w) admin_env \<Rightarrow> string \<Rightarrow> u64 \<Rightarrow> string \<Rightarrow> ('r, 'w) client_state \<Rightarrow>
    json res \<times> ('r, 'w) client_state" where
  "prune_dialogues N nonce ts secret = do_admin N nonce ts secret ''prune'' None None"

definition get_config :: "('r, 'w) admin_env \<Rightarrow> string \<Rightarrow> u64 \<Rightarrow> string \<Rightarrow> ('r, 'w) client_state \<Rightarrow> json res \<times> ('r, 'w) client_state" where
  "get_config N nonce ts secret = do_admin N nonce ts secret ''get_config'' None None"

text \<open>\<open>parse\<close> reads the text of the patch as a \<open>Value\<close>.\<close>

definition set_config :: "('r, 'w) admin_env \<Rightarrow> (string \<Rightarrow> json res) \<Rightarrow> string \<Rightarrow> u64 \<Rightarrow> string \<Rightarrow> string \<Rightarrow> ('r, 'w) client_state \<Rightarrow>
    json res \<times> ('r, 'w) client_state" where
  "set_config N parse nonce ts secret patch_json s =
     (case parse patch_json of
        Inl e \<Rightarrow> (Inl (''invalid_patch_json: '' @ e), s)
      | Inr patch \<Rightarrow> do_admin N nonce ts secret ''set_config'' None (Some patch) s)"

definition register_user :: "('r, 'w) admin_env \<Rightarrow> string \<Rightarrow> string \<Rightarrow> string \<Rightarrow> ('r, 'w) client_state \<Rightarrow>
    json res \<times> ('r, 'w) client_state" where
  "register_user N admin_secret_b64 username user_pubkey_b64 s =
     (case from_secret_b64 (an_crypto N) admin_secret_b64 of
        Inl _ \<Rightarrow> (Inl ''invalid_admin_key'', s)
      | Inr kp \<Rightarrow>
          (let sig = sign_user_registration (an_crypto N) (an_signer N) kp username user_pubkey_b64;
               body = J_Obj [(''username'', J_Str username), (''pub_key'', J_Str user_pubkey_b64), (''admin_sig'', J_Str sig)]
           in case try_covered_send N ''reg'' ''reg_resp'' body s of
                (Inl e, s') \<Rightarrow> (Inl e, s')
              | (Inr (Some resp), s') \<Rightarrow> (Inr resp, s')
              | (Inr None, s') \<Rightarrow> put_json (an_transport N) ''/reg'' body s'))"

definition admin_pubkey :: "('r, 'w) admin_env \<Rightarrow> string \<Rightarrow> string res" where
  "admin_pubkey N admin_secret_b64 =
     (case from_secret_b64 (an_crypto N) admin_secret_b64 of
        Inl _ \<Rightarrow> Inl ''invalid_admin_key''
      | Inr kp \<Rightarrow> Inr (pubkey_b64 (an_crypto N) (an_signer N) kp))"

end
