(* ===== verification/Admin_Props.thy ===== *)
theory Admin_Props
  imports Admin_Routes Demo_Server Guards
begin

text \<open>
  What the administration interface promises: no signed request is obeyed twice, the two key levels
  are kept apart, the configuration stays well formed under every sequence of requests, and pruning
  removes exactly the dialogues without two living participants.
\<close>

section \<open>Signed texts\<close>

lemma show_nat_value: "foldl (\<lambda>a c. 10 * a + (of_char c - 48)) 0 (show_nat n) = n"
proof (induction n rule: show_nat.induct)
  case (1 n)
  then show ?case by (cases "n < 10") (simp_all add: show_nat.simps [of n])
qed

lemma show_nat_inject [simp]: "show_nat m = show_nat n \<longleftrightarrow> m = n"
  by (metis show_nat_value)

lemma newline_not_digit: "CHR 0x0A \<notin> set (show_nat n)"
proof (induction n rule: show_nat.induct)
  case (1 n)
  have "CHR 0x0A \<noteq> digit k" for k
  proof
    assume "CHR 0x0A = digit k"
    from this [symmetric] have "(of_char (digit k) :: nat) = of_char (CHR 0x0A)" by simp
    then show False by simp
  qed
  with 1 show ?case by (cases "n < 10") (simp_all add: show_nat.simps [of n])
qed

lemma line_cong: "c \<notin> set a \<Longrightarrow> c \<notin> set b \<Longrightarrow> a @ c # x = b @ c # y \<longleftrightarrow> a = b \<and> x = y"
  by (auto simp: append_eq_append_conv2 append_eq_Cons_conv Cons_eq_append_conv)

text \<open>The signed text determines the request when operation and nonce have no line break.\<close>

lemma canonical_message_inject:
  assumes "CHR 0x0A \<notin> set op \<union> set n \<union> set op' \<union> set n'"
  shows "canonical_message op n t x = canonical_message op' n' t' x' \<longleftrightarrow> op = op' \<and> n = n' \<and> t = t' \<and> x = x'"
  using assms by (auto simp: canonical_message_def line_cong newline_not_digit word_unat_eq_iff)

section \<open>Replays\<close>

lemma sat_sub_mono: "a \<le> b \<Longrightarrow> sat_sub a t \<le> sat_sub b t"
  by (simp add: word_le_nat_alt unat_sat_sub)

lemma sat_add_ge: "a \<le> sat_add a d"
proof -
  have "unat a \<le> 2 ^ LENGTH('a) - 1" using unsigned_less [where w = a and ?'a = nat] by linarith
  then show ?thesis by (simp add: word_le_nat_alt unat_sat_add)
qed

text \<open>
  A request reaches \<open>verify\<close> some time after the one before it, with the configuration of that
  moment. The state is the time of the server and the table of nonces.
\<close>

record admin_attempt =
  elapsed :: u64
  at_config :: server_config
  envelope :: admin_envelope
  wanted_op :: string
  extra :: string
  wanted_cap :: capability

definition verify_step :: "crypto_env \<Rightarrow> u64 \<times> nonce_table \<Rightarrow> admin_attempt \<Rightarrow> bool \<times> u64 \<times> nonce_table" where
  "verify_step C s r =
     (let now = sat_add (fst s) (elapsed r);
          v = verify_env C (at_config r) now (snd s) (envelope r) (wanted_op r) (extra r) (wanted_cap r)
      in (fst v = Inr (), now, snd v))"

definition spent :: "u64 \<times> nonce_table \<Rightarrow> (string \<times> u64) set" where
  "spent s = {(n, t). snd s n = Some t \<or> sat_sub (fst s) t > MAX_TS_SKEW_SECS}"

definition nonce_of :: "admin_attempt \<Rightarrow> string \<times> u64" where
  "nonce_of r = (ae_nonce (envelope r), ae_ts (envelope r))"

definition signed_text :: "admin_attempt \<Rightarrow> string" where
  "signed_text r = canonical_message (ae_op (envelope r)) (ae_nonce (envelope r)) (ae_ts (envelope r)) (extra r)"

lemma verify_env_accepts:
  assumes "fst (verify_env C cfg now tbl env op x cap) = Inr ()"
  shows "ae_op env = op \<and> in_window now (ae_ts env) \<and> retain_fresh now tbl (ae_nonce env) = None \<and>
    snd (verify_env C cfg now tbl env op x cap) = (retain_fresh now tbl)(ae_nonce env \<mapsto> ae_ts env)"
  using assms by (auto simp: verify_env_def check_nonce_def Let_def split: if_splits sum.splits)

lemma verify_env_table:
  "snd (verify_env C cfg now tbl env op x cap) = tbl \<or> snd (verify_env C cfg now tbl env op x cap) = retain_fresh now tbl \<or>
   retain_fresh now tbl (ae_nonce env) = None \<and>
     snd (verify_env C cfg now tbl env op x cap) = (retain_fresh now tbl)(ae_nonce env \<mapsto> ae_ts env)"
  by (auto simp: verify_env_def check_nonce_def Let_def split: if_splits sum.splits)

lemma spent_retained:
  "(n, t) \<in> spent (clock, tbl) \<Longrightarrow> clock \<le> now \<Longrightarrow> (n, t) \<in> spent (now, tbl) \<and> (n, t) \<in> spent (now, retain_fresh now tbl)"
  using sat_sub_mono [of clock now t] by (auto simp: spent_def retain_fresh_def)

interpretation admin_nonces: replay_guard "verify_step C" nonce_of spent "\<lambda>_. True"
proof
  fix s :: "u64 \<times> nonce_table" and r :: admin_attempt
  obtain clock tbl where s: "s = (clock, tbl)" by fastforce
  define now where "now = sat_add clock (elapsed r)"
  have later: "clock \<le> now" unfolding now_def by (rule sat_add_ge)
  let ?n = "ae_nonce (envelope r)" and ?t = "ae_ts (envelope r)"
  let ?v = "verify_env C (at_config r) now tbl (envelope r) (wanted_op r) (extra r) (wanted_cap r)"
  have step: "verify_step C s r = (fst ?v = Inr (), now, snd ?v)" by (simp add: verify_step_def s now_def Let_def)
  show "nonce_of r \<notin> spent s" if "fst (verify_step C s r)"
    using verify_env_accepts [of C "at_config r" now tbl "envelope r" "wanted_op r" "extra r" "wanted_cap r"]
      that step spent_retained [OF _ later, of ?n ?t tbl]
    by (auto simp: s nonce_of_def spent_def in_window_def)
  show "nonce_of r \<in> spent (snd (verify_step C s r))" if "fst (verify_step C s r)"
    using verify_env_accepts [of C "at_config r" now tbl "envelope r" "wanted_op r" "extra r" "wanted_cap r"] that step
    by (auto simp: nonce_of_def spent_def)
  show "spent s \<subseteq> spent (snd (verify_step C s r))"
  proof
    fix k assume "k \<in> spent s"
    then obtain n t where k: "k = (n, t)" "(n, t) \<in> spent (clock, tbl)" using s by (cases k) auto
    show "k \<in> spent (snd (verify_step C s r))"
      using verify_env_table [of C "at_config r" now tbl "envelope r" "wanted_op r" "extra r" "wanted_cap r"]
        spent_retained [OF k(2) later] k(1)
      by (auto simp: step spent_def)
  qed
qed simp

text \<open>
  C19. No administration request is obeyed twice. Whatever requests arrive, in whatever order and with
  whatever configurations, as long as the clock of the server does not go back and the requests reach
  the table of nonces in the order in which they read the clock (a step of \<open>verify_step\<close> does both at
  once): the accepted ones have pairwise different pairs of nonce and timestamp, and among those whose
  operation and nonce have no line break no signed text is accepted a second time. The server reads
  the clock before it locks the table, so two requests can pass each other in between; a replay that
  is held back there for the second in which its nonce is forgotten is accepted (\<open>late_lock_replays\<close>).
\<close>

theorem admin_never_replayed:
  "distinct (map nonce_of (accepted (verify_step C) s rs)) \<and>
   distinct (map signed_text (filter (\<lambda>r. CHR 0x0A \<notin> set (ae_op (envelope r)) \<union> set (ae_nonce (envelope r)))
     (accepted (verify_step C) s rs)))"
proof
  show *: "distinct (map nonce_of (accepted (verify_step C) s rs))" by (rule admin_nonces.accepted_distinct) simp
  show "distinct (map signed_text (filter (\<lambda>r. CHR 0x0A \<notin> set (ae_op (envelope r)) \<union> set (ae_nonce (envelope r)))
     (accepted (verify_step C) s rs)))"
    using * unfolding distinct_map
    by (auto simp: signed_text_def canonical_message_inject intro!: inj_onI)
      (erule inj_onD, simp_all add: nonce_of_def)
qed

text \<open>
  The request is accepted in the last second of its window; another one that reads the clock a second
  later cleans the table; a copy of the first that had read the clock before is accepted again.
\<close>

lemma late_lock_replays:
  assumes "verify_env C cfg now tbl env op x cap = (Inr (), tbl1)" and "unat now = unat (ae_ts env) + 300" and "now \<noteq> - 1"
    and "verify_env C cfg' (now + 1) tbl1 env' op' x' cap' = (Inr (), tbl2)" and "ae_nonce env' \<noteq> ae_nonce env"
  shows "fst (verify_env C cfg now tbl2 env op x cap) = Inr ()"
proof -
  have "unat (now + 1) = unat (ae_ts env) + 301"
    using assms(2,3) unat_plus_one [of now "- 1"] by (simp add: word_order.not_eq_extremum)
  then have "\<not> sat_sub (now + 1) (ae_ts env) \<le> MAX_TS_SKEW_SECS"
    by (simp add: MAX_TS_SKEW_SECS_def word_le_nat_alt unat_sat_sub)
  moreover have "tbl1 = (retain_fresh now tbl)(ae_nonce env \<mapsto> ae_ts env)" "tbl2 = (retain_fresh (now + 1) tbl1)(ae_nonce env' \<mapsto> ae_ts env')"
    using verify_env_accepts [of C cfg now tbl env op x cap] verify_env_accepts [of C cfg' "now + 1" tbl1 env' op' x' cap'] assms(1,4)
    by simp_all
  ultimately have "tbl2 (ae_nonce env) = None" using assms(5) by (simp add: retain_fresh_def)
  then have "retain_fresh now tbl2 (ae_nonce env) = None" by (simp add: retain_fresh_def)
  with assms(1) show ?thesis
    by (auto simp: verify_env_def check_nonce_def Let_def split: if_splits sum.splits)
qed

section \<open>Who may do what\<close>

definition keys_for :: "crypto_env \<Rightarrow> server_config \<Rightarrow> capability \<Rightarrow> bytes set" where
  "keys_for C cfg cap =
     (case admin_pubkey_bytes C cfg of Inl _ \<Rightarrow> {}
      | Inr base \<Rightarrow> (case cap of Extended \<Rightarrow> {} | Base \<Rightarrow> {base}) \<union> set_option (extended_admin_pubkey_bytes C cfg))"

lemma verify_admin_sig_iff:
  "verify_admin_sig C cfg msg sig cap = Inr () \<longleftrightarrow> (\<exists>key \<in> keys_for C cfg cap. verify_signature C key msg sig = Inr ())"
  by (auto simp: verify_admin_sig_def verify_with_keys_def keys_for_def split: sum.splits capability.splits option.splits)

text \<open>
  C29. The gate of the administration interface, exactly: a request is obeyed if and only if it names
  the operation, its timestamp is within five minutes of the clock, its nonce is not remembered, and
  its signature verifies over operation, nonce, timestamp and argument under a key of the required
  level; the base key never opens an extended operation, the extended key opens both.
\<close>

theorem admin_gate_exact:
  "fst (verify_env C cfg now tbl env op x cap) = Inr () \<longleftrightarrow>
     ae_op env = op \<and> unat (ae_ts env) \<le> unat now + 300 \<and> unat now \<le> unat (ae_ts env) + 300 \<and>
     (case tbl (ae_nonce env) of None \<Rightarrow> True | Some t \<Rightarrow> unat t + 300 < unat now) \<and>
     (\<exists>sig key. decode_b64 C (ae_sig env) = Inr sig \<and> key \<in> keys_for C cfg cap \<and>
       signed_by C key (canonical_message op (ae_nonce env) (ae_ts env) x) sig)"
proof -
  have ts: "unat t < 2 ^ 64" for t :: u64 using unsigned_less [where w = t and ?'a = nat] by simp
  have "in_window now (ae_ts env) \<longleftrightarrow> unat (ae_ts env) \<le> unat now + 300 \<and> unat now \<le> unat (ae_ts env) + 300"
    using ts [of "ae_ts env"] by (auto simp: in_window_def MAX_TS_SKEW_SECS_def word_less_nat_alt unat_sat_add unat_sat_sub)
  moreover have "retain_fresh now tbl (ae_nonce env) = None \<longleftrightarrow>
      (case tbl (ae_nonce env) of None \<Rightarrow> True | Some t \<Rightarrow> unat t + 300 < unat now)"
    by (auto simp: retain_fresh_def MAX_TS_SKEW_SECS_def word_le_nat_alt unat_sat_sub split: option.splits)
  moreover have "fst (verify_env C cfg now tbl env op x cap) = Inr () \<longleftrightarrow> ae_op env = op \<and> in_window now (ae_ts env) \<and>
      retain_fresh now tbl (ae_nonce env) = None \<and> (\<exists>sig. decode_b64 C (ae_sig env) = Inr sig \<and>
        verify_admin_sig C cfg (as_bytes (canonical_message (ae_op env) (ae_nonce env) (ae_ts env) x)) sig cap = Inr ())"
    by (auto simp: verify_env_def check_nonce_def Let_def split: sum.splits)
  ultimately show ?thesis unfolding verify_admin_sig_iff by auto
qed

section \<open>The configuration under administration\<close>

datatype config_op =
  Register reg_request
| Delete_User bool admin_envelope
| Set_Config bool admin_envelope

fun apply_op :: "crypto_env \<Rightarrow> (json \<Rightarrow> string) \<Rightarrow> server_config \<times> nonce_table \<Rightarrow> u64 \<times> config_op \<Rightarrow> server_config \<times> nonce_table" where
  "apply_op C jt (cfg, tbl) (now, Register req) = (snd (do_reg C cfg req), tbl)"
| "apply_op C jt (cfg, tbl) (now, Delete_User saved env) = snd (users_delete C cfg now tbl saved env)"
| "apply_op C jt (cfg, tbl) (now, Set_Config saved env) = snd (config_set C jt cfg now tbl saved env)"

definition config_ok :: "crypto_env \<Rightarrow> server_config \<Rightarrow> bool" where
  "config_ok C cfg \<longleftrightarrow> port cfg \<noteq> 0 \<and> (\<exists>k. admin_pubkey_bytes C cfg = Inr k) \<and>
     (\<forall>u. users cfg u \<noteq> None \<longrightarrow> user_pubkey_bytes C cfg u \<noteq> None)"

fun deletes :: "string \<Rightarrow> u64 \<times> config_op \<Rightarrow> bool" where
  "deletes u (now, Delete_User saved env) \<longleftrightarrow> ae_username env = Some u"
| "deletes u _ \<longleftrightarrow> False"

lemma do_reg_cases:
  "snd (do_reg C cfg req) = cfg \<or> (\<exists>v. b64_decode C (rg_pub_key req) = Inr v \<and> length v = 32 \<and>
     users cfg (rg_username req) = None \<and> snd (do_reg C cfg req) = insert_user cfg (rg_username req) (rg_pub_key req))"
  unfolding do_reg_def Let_def decode_b64_def
  by (cases "b64_decode C (rg_admin_sig req)"; cases "b64_decode C (rg_pub_key req)") (simp_all split: sum.split)

lemma users_delete_cases:
  "fst (snd (users_delete C cfg now tbl saved env)) = cfg \<or>
   (\<exists>u. ae_username env = Some u \<and> fst (snd (users_delete C cfg now tbl saved env)) = remove_user cfg u)"
  by (auto simp: users_delete_def Let_def split: option.splits if_splits sum.splits prod.splits)

lemma patch_port_nonzero: "patch_port obj old = Some p \<Longrightarrow> old \<noteq> 0 \<Longrightarrow> p \<noteq> 0"
  by (auto simp: patch_port_def word_le_nat_alt word_unat_eq_iff unsigned_ucast_eq take_bit_nat_eq_self
      split: option.splits json.splits if_splits)

lemma config_set_cases:
  "fst (snd (config_set C jt cfg now tbl saved env)) = cfg \<or>
   (\<exists>obj. apply_patch obj cfg = Some (fst (snd (config_set C jt cfg now tbl saved env))))"
  by (auto simp: config_set_def split: sum.splits option.splits json.splits prod.splits)

lemma user_key_usable: "user_pubkey_bytes C cfg u \<noteq> None \<longleftrightarrow>
    (\<exists>b v. users cfg u = Some b \<and> b64_decode C b = Inr v \<and> length v = 32)"
  by (auto simp: user_pubkey_bytes_def split: option.splits sum.splits)

lemma config_ok_iff: "config_ok C cfg \<longleftrightarrow> port cfg \<noteq> 0 \<and> (\<exists>v. b64_decode C (admin_key cfg) = Inr v \<and> length v = 32) \<and>
    (\<forall>u b. users cfg u = Some b \<longrightarrow> (\<exists>v. b64_decode C b = Inr v \<and> length v = 32))"
  unfolding config_ok_def user_key_usable by (auto simp: admin_pubkey_bytes_def try_then_Inr_iff)

text \<open>What each of the three changes of the configuration does to the parts that matter.\<close>

lemma insert_user_ok:
  assumes "config_ok C cfg" and "b64_decode C key = Inr v" and "length v = 32"
  shows "config_ok C (insert_user cfg u key)"
  using assms by (auto simp: config_ok_iff insert_user_def)

lemma remove_user_ok: "config_ok C cfg \<Longrightarrow> config_ok C (remove_user cfg u)"
  by (simp add: config_ok_iff remove_user_def)

lemma apply_patch_ok:
  assumes "apply_patch obj cfg = Some cfg'" and "config_ok C cfg"
  shows "config_ok C cfg' \<and> users cfg' = users cfg \<and> admin_key cfg' = admin_key cfg \<and> extended_admin_key cfg' = extended_admin_key cfg"
  using assms by (auto simp: apply_patch_def config_ok_iff dest: patch_port_nonzero split: option.splits)

lemma user_changes [simp]:
  "users (insert_user cfg u key) = (users cfg)(u \<mapsto> key)" "users (remove_user cfg u) = (users cfg)(u := None)"
  "admin_key (insert_user cfg u key) = admin_key cfg" "admin_key (remove_user cfg u) = admin_key cfg"
  "extended_admin_key (insert_user cfg u key) = extended_admin_key cfg" "extended_admin_key (remove_user cfg u) = extended_admin_key cfg"
  by (simp_all add: insert_user_def remove_user_def)

lemma apply_op_keeps:
  assumes "config_ok C (fst st)"
  shows "config_ok C (fst (apply_op C jt st op)) \<and> admin_key (fst (apply_op C jt st op)) = admin_key (fst st) \<and>
    extended_admin_key (fst (apply_op C jt st op)) = extended_admin_key (fst st) \<and>
    (users (fst st) u \<noteq> None \<longrightarrow> \<not> deletes u op \<longrightarrow> users (fst (apply_op C jt st op)) u = users (fst st) u)"
proof -
  obtain cfg tbl where st: "st = (cfg, tbl)" by fastforce
  obtain now x where op: "op = (now, x)" by fastforce
  have ok: "config_ok C cfg" using assms by (simp add: st)
  show ?thesis
  proof (cases x)
    case (Register req)
    then show ?thesis using do_reg_cases [of C cfg req] ok insert_user_ok [OF ok] by (auto simp: st op)
  next
    case (Delete_User saved env)
    then show ?thesis using users_delete_cases [of C cfg now tbl saved env] ok remove_user_ok [OF ok] by (auto simp: st op)
  next
    case (Set_Config saved env)
    then show ?thesis using config_set_cases [of C jt cfg now tbl saved env] ok apply_patch_ok [OF _ ok] by (auto simp: st op)
  qed
qed

text \<open>
  C28. The configuration stays well formed under every sequence of registrations, deletions and
  patches, valid or not: a port that is not 0, a usable admin key and for every user a key of 32
  bytes. No request changes either administration key, and the key of a registered user is never
  replaced unless a request names that user for deletion.
\<close>

theorem config_well_formed:
  assumes "config_ok C cfg"
  shows "config_ok C (fst (foldl (apply_op C jt) (cfg, tbl) ops)) \<and>
    admin_key (fst (foldl (apply_op C jt) (cfg, tbl) ops)) = admin_key cfg \<and>
    extended_admin_key (fst (foldl (apply_op C jt) (cfg, tbl) ops)) = extended_admin_key cfg \<and>
    (users cfg u \<noteq> None \<longrightarrow> \<not> list_ex (deletes u) ops \<longrightarrow> users (fst (foldl (apply_op C jt) (cfg, tbl) ops)) u = users cfg u)"
proof (induction ops rule: rev_induct)
  case Nil
  with assms show ?case by simp
next
  case (snoc op ops)
  with apply_op_keeps [of C "foldl (apply_op C jt) (cfg, tbl) ops" jt op u] show ?case by auto
qed

section \<open>Examples\<close>

definition base_key :: string where "base_key = replicate 32 CHR ''A''"
definition extended_key :: string where "extended_key = replicate 32 CHR ''E''"

definition admin_config :: server_config where
  "admin_config = demo_config\<lparr>admin_key := base_key, extended_admin_key := extended_key\<rparr>"

lemma trim_extended_key: "trim extended_key = extended_key"
  by (rule trim_ascii) (simp add: extended_key_def list_all_iff)

lemma admin_config_simps [simp]:
  "admin_pubkey_bytes demo_crypto admin_config = Inr (as_bytes base_key)"
  "extended_admin_pubkey_bytes demo_crypto admin_config = Some (as_bytes extended_key)"
  "users admin_config = users demo_config"
  by (simp_all add: admin_config_def admin_pubkey_bytes_def extended_admin_pubkey_bytes_def trim_extended_key Let_def)
     (simp_all add: base_key_def extended_key_def)

lemma admin_config_ok [simp]: "config_ok demo_crypto admin_config"
proof -
  have "port admin_config = 1455" by (simp add: admin_config_def demo_config_def default_config_def)
  moreover have "admin_key admin_config = base_key" by (simp add: admin_config_def)
  moreover have "length b = 32" if "users demo_config u = Some b" for u b
    using that by (auto simp: demo_config_def alice_key_def bob_key_def split: if_splits)
  ultimately show ?thesis by (simp add: config_ok_iff base_key_def)
qed

theorem config_well_formed_witness:
  "config_ok demo_crypto (fst (foldl (apply_op demo_crypto (\<lambda>_. [])) (admin_config, Map.empty)
     [(5, Register \<lparr>rg_username = ''eve'', rg_pub_key = ''short'', rg_admin_sig = []\<rparr>)]))"
  using config_well_formed [OF admin_config_ok, of _ "Map.empty" _ "''alice''"] by blast

section \<open>Pruning\<close>

lemma valid_dialogue_ids_eq: "valid_dialogue_ids C us = {make_dialogue_id C a b |a b. a \<in> set us \<and> b \<in> set us}"
proof (induction us)
  case (Cons u us)
  have "valid_dialogue_ids C (u # us) =
      insert (make_dialogue_id C u u) (make_dialogue_id C u ` set us) \<union> {make_dialogue_id C a b |a b. a \<in> set us \<and> b \<in> set us}"
    by (simp only: valid_dialogue_ids.simps Cons.IH)
  then show ?case using make_dialogue_id_sym [of C] by auto
qed simp

lemma prune_loop_spec:
  assumes "db_inv K db" and "\<forall>d \<in> fst ` set ds. did_ok d"
  shows "\<exists>db'. prune_loop K valid ds db acc = (db', acc @ filter (\<lambda>d. d \<notin> valid) (map fst ds)) \<and> db_inv K db' \<and>
    (\<forall>d. did_ok d \<longrightarrow> log_of K db' d =
      (if d \<in> fst ` set ds \<and> d \<notin> valid then filter (\<lambda>p. fst p = 0) (log_of K db d) else log_of K db d))"
  using assms
proof (induction ds arbitrary: db acc)
  case (Cons e ds)
  obtain d l b where e: "e = (d, l, b)" by (cases e)
  have d: "did_ok d" and ds: "\<forall>d \<in> fst ` set ds. did_ok d" using Cons.prems(2) e by auto
  note IH = Cons.IH [OF _ ds]
  show ?case
  proof (cases "d \<in> valid")
    case True
    with IH [OF Cons.prems(1), where acc = acc] show ?thesis by (auto simp: e)
  next
    case False
    obtain db1 where db1: "remove_range K db d 0 (- 1) = Inr db1"
      using remove_range_spec [OF Cons.prems(1) d, of "- 1" 0] by auto
    have all: "\<not> (max 0 1 \<le> s \<and> s \<le> - 1) \<longleftrightarrow> s = 0" for s :: u64 
      by (simp add: word_order.extremum word_le_nat_alt [of 1] Suc_le_eq unat_gt_0)
    note rem = remove_range_log [OF Cons.prems(1) d db1, unfolded all]
    obtain db' where "prune_loop K valid ds db1 (acc @ [d]) = (db', (acc @ [d]) @ filter (\<lambda>d. d \<notin> valid) (map fst ds))"
      "db_inv K db'" "\<forall>d. did_ok d \<longrightarrow> log_of K db' d =
        (if d \<in> fst ` set ds \<and> d \<notin> valid then filter (\<lambda>p. fst p = 0) (log_of K db1 d) else log_of K db1 d)"
      using IH [where db = db1 and acc = "acc @ [d]"] rem by blast
    with rem False db1 show ?thesis by (auto simp: e)
  qed
qed simp

text \<open>The ids of the dialogues whose two participants are registered.\<close>

definition living_dialogues :: "crypto_env \<Rightarrow> server_config \<Rightarrow> string set" where
  "living_dialogues C cfg = {make_dialogue_id C a b |a b. users cfg a \<noteq> None \<and> users cfg b \<noteq> None}"

text \<open>
  C30. An accepted prune request always succeeds and is exact: the dialogues of two registered users (or
  of one with themselves) keep all their packets; of every other dialogue nothing is left but a
  packet with number 0, if there was one; the answer lists exactly the pruned dialogues.
\<close>

theorem prune_exact:
  fixes names and E :: "'db server_env"
  assumes names: "set names = dom (users cfg)" and ok: "crypto_ok (crypto E)" and inv: "db_inv (kv E) db"
    and gate: "verify_env (crypto E) cfg now tbl env ''prune'' [] Extended = (Inr (), tbl')"
  shows "\<exists>pruned db'. dialogues_prune E cfg names now tbl db env = (Adm_Pruned pruned, db', tbl') \<and> db_inv (kv E) db' \<and>
    distinct pruned \<and> set pruned = {d. did_ok d \<and> log_of (kv E) db d \<noteq> [] \<and> d \<notin> living_dialogues (crypto E) cfg} \<and>
    (\<forall>d. did_ok d \<longrightarrow> log_of (kv E) db' d =
      (if d \<in> living_dialogues (crypto E) cfg then log_of (kv E) db d else filter (\<lambda>p. fst p = 0) (log_of (kv E) db d)))"
proof -
  let ?living = "living_dialogues (crypto E) cfg"
  obtain ds where ds: "list_dialogues (kv E) db = Inr ds" "distinct (map fst ds)"
    and mem: "\<And>d l b. (d, l, b) \<in> set ds \<longleftrightarrow>
      did_ok d \<and> log_of (kv E) db d \<noteq> [] \<and> l = top_seq (log_of (kv E) db d) \<and> b = total_of (log_of (kv E) db d)"
    using list_dialogues_spec [OF inv] by blast
  then have dids: "d \<in> fst ` set ds \<longleftrightarrow> did_ok d \<and> log_of (kv E) db d \<noteq> []" for d by (force simp: image_iff)
  obtain db' where db': "prune_loop (kv E) ?living ds db [] = (db', [] @ filter (\<lambda>d. d \<notin> ?living) (map fst ds))" "db_inv (kv E) db'"
    and log: "\<And>d. did_ok d \<Longrightarrow> log_of (kv E) db' d =
      (if d \<in> fst ` set ds \<and> d \<notin> ?living then filter (\<lambda>p. fst p = 0) (log_of (kv E) db d) else log_of (kv E) db d)"
    using prune_loop_spec [OF inv, of ds ?living "[]"] dids by blast
  have "dialogues_prune E cfg names now tbl db env = (Adm_Pruned (filter (\<lambda>d. d \<notin> ?living) (map fst ds)), db', tbl')"
    using db'(1) by (simp add: dialogues_prune_def gate ds(1) valid_dialogue_ids_eq names dom_def living_dialogues_def)
  moreover have "distinct (filter (\<lambda>d. d \<notin> ?living) (map fst ds))" using ds(2) by simp
  moreover have "set (filter (\<lambda>d. d \<notin> ?living) (map fst ds)) = {d. did_ok d \<and> log_of (kv E) db d \<noteq> [] \<and> d \<notin> ?living}"
    using dids by auto
  moreover have "log_of (kv E) db' d = (if d \<in> ?living then log_of (kv E) db d else filter (\<lambda>p. fst p = 0) (log_of (kv E) db d))"
    if "did_ok d" for d using log [OF that] dids [of d] that by auto
  ultimately show ?thesis using db'(2) by blast
qed

definition prune_request :: admin_envelope where
  "prune_request = \<lparr>ae_op = ''prune'', ae_nonce = ''n'', ae_ts = 7, ae_username = None, ae_patch = None,
     ae_sig = demo_sig extended_key (canonical_message ''prune'' ''n'' 7 [])\<rparr>"

lemma prune_request_accepted:
  "verify_env demo_crypto admin_config 7 Map.empty prune_request ''prune'' [] Extended = (Inr (), [''n'' \<mapsto> 7])"
  by (simp add: verify_env_def prune_request_def in_window_def check_nonce_def retain_fresh_def MAX_TS_SKEW_SECS_def
      sat_add_def sat_sub_def verify_admin_sig_def verify_with_keys_def Let_def)

definition demo_names :: "string list" where "demo_names = [''alice'', ''bob'', ''bob1'']"

lemma demo_names_registered: "set demo_names = dom (users admin_config)"
  by (auto simp: demo_names_def demo_config_def split: if_splits)

lemma demo_id_hd:
  assumes "hd a \<in> {CHR ''a'', CHR ''b''}" "hd b \<in> {CHR ''a'', CHR ''b''}" "a \<noteq> []" "b \<noteq> []"
  shows "hd (make_dialogue_id demo_crypto a b) = CHR ''6''"
proof -
  define f t where "f = (if a < b then a else b)" and "t = (if a < b then b else a)"
  then have ft: "make_dialogue_id demo_crypto a b = hex_encode demo_crypto (demo_hash (as_bytes (f @ '':'' @ t)))"
    by (simp add: make_dialogue_id_def demo_crypto_def)
  obtain c f' where f: "f = c # f'" "c \<in> {CHR ''a'', CHR ''b''}"
    using assms f_def by (cases a; cases b; simp split: if_splits)
  have "hex_digit (drop_bit 4 (of_char c)) = CHR ''6''" using f(2) by (auto simp: hex_digit_def)
  then show ?thesis unfolding ft by (simp add: f(1) demo_crypto_def demo_hash_def as_bytes_def)
qed

lemma demo_did_foreign: "demo_did \<notin> living_dialogues demo_crypto admin_config"
proof
  assume "demo_did \<in> living_dialogues demo_crypto admin_config"
  then obtain a b where ab: "users admin_config a \<noteq> None" "users admin_config b \<noteq> None"
    and id: "demo_did = make_dialogue_id demo_crypto a b"
    unfolding living_dialogues_def by blast
  then have "a \<in> set demo_names" "b \<in> set demo_names" unfolding demo_names_registered domIff by auto
  then have "hd (make_dialogue_id demo_crypto a b) = CHR ''6''"
    by (intro demo_id_hd) (auto simp: demo_names_def)
  then show False unfolding id [symmetric] by (simp add: demo_did_def)
qed

theorem prune_exact_witness:
  "\<exists>pruned db'. dialogues_prune demo_env admin_config demo_names 7 Map.empty demo_db prune_request =
     (Adm_Pruned pruned, db', [''n'' \<mapsto> 7]) \<and> demo_did \<in> set pruned \<and> packet_log demo_did db' = []"
proof -
  have gate: "verify_env (crypto demo_env) admin_config 7 Map.empty prune_request ''prune'' [] Extended = (Inr (), [''n'' \<mapsto> 7])"
    by (simp add: prune_request_accepted)
  obtain pruned db' where "dialogues_prune demo_env admin_config demo_names 7 Map.empty demo_db prune_request =
      (Adm_Pruned pruned, db', [''n'' \<mapsto> 7])"
    "set pruned = {d. did_ok d \<and> packet_log d demo_db \<noteq> [] \<and> d \<notin> living_dialogues demo_crypto admin_config}"
    "\<forall>d. did_ok d \<longrightarrow> packet_log d db' = (if d \<in> living_dialogues demo_crypto admin_config then packet_log d demo_db
        else filter (\<lambda>p. fst p = 0) (packet_log d demo_db))"
    using prune_exact [OF demo_names_registered _ _ gate, of demo_db] unfolding demo_env_simps demo_log by auto
  moreover from this(2) have "demo_did \<in> set pruned" using demo_did_foreign by simp
  moreover from calculation(3) have "packet_log demo_did db' = []" using demo_did_foreign by simp
  ultimately show ?thesis by blast
qed

end
