(* ===== verification/Cover_Food.thy ===== *)
theory Cover_Food
  imports Cover_Contract
begin

text \<open>
  The built-in masks that look like the API of a food delivery (\<open>client_cover_food.rs\<close>,
  \<open>food_delivery_cover.rs\<close>). Only a push hides its content: its inner JSON is cut into four parts at
  places given by a hash. All other messages are relabelled. Both sides satisfy the contract
  \<open>covers_fit\<close>.
\<close>

section \<open>The client\<close>

text \<open>The displayed text of a JSON value is its compact serialisation.\<close>

definition json_string :: "json_codec \<Rightarrow> json \<Rightarrow> string" where
  "json_string J v = map (\<lambda>b. char_of (unat b)) (to_vec J v)"

definition cut4 :: "bytes \<Rightarrow> nat list \<Rightarrow> bytes list" where
  "cut4 data c = (let b = [0, c ! 0, c ! 1, c ! 2, length data]
     in map (\<lambda>i. take (b ! (i + 1) - b ! i) (drop (b ! i) data)) [0..<4])"

definition split4 :: "crypto_env \<Rightarrow> bytes \<Rightarrow> bytes \<Rightarrow> bytes list" where
  "split4 C data seed =
     (if data = [] then [[], [], [], []]
      else let h = sha256 C seed; n = length data
           in cut4 data (sort [unat (h ! 0) mod n, unat (h ! 1) mod n, unat (h ! 2) mod n]))"

definition check_ok :: "json_codec \<Rightarrow> json \<Rightarrow> string \<Rightarrow> unit res" where
  "check_ok J body op =
     (if as_bool (at_key body ''ok'') = Some True then Inr () else Inl (op @ '' failed: '' @ json_string J body))"

definition order_seed :: "core_push \<Rightarrow> string" where
  "order_seed q = ''ORD-'' @ cp_sender q @ ''-'' @ cp_recver q @ ''-'' @ show_nat (unat (cp_seq q))"

definition food_wrap_push :: "json_codec \<Rightarrow> crypto_env \<Rightarrow> core_push \<Rightarrow> json res" where
  "food_wrap_push J C q =
     (let raw = to_vec J (push_json (push_request_of C q));
          p = map (encode_b64 C) (split4 C raw (as_bytes (order_seed q)))
      in Inr (J_Obj [(''operation'', J_Str ''updateOrder''), (''orderId'', J_Str (order_seed q)),
           (''client'', J_Obj [(''id'', J_Str (cp_sender q)), (''segment'', J_Str ''retail'')]),
           (''items'', J_Arr [J_Obj [(''sku'', J_Str (cp_recver q)), (''qty'', J_Pos 1)]]),
           (''meta'', J_Obj [(''p1'', J_Str (p ! 0)), (''p2'', J_Str (p ! 1)), (''p3'', J_Str (p ! 2)), (''p4'', J_Str (p ! 3))])]))"

definition food_range :: "crypto_env \<Rightarrow> string \<Rightarrow> string \<Rightarrow> core_range \<Rightarrow> json res" where
  "food_range C op lower q =
     Inr (J_Obj [(''operation'', J_Str op), (''clientId'', J_Str (cr_sender q)), (''partnerId'', J_Str (cr_recver q)),
       (lower, J_Pos (cr_from q)), (''toSeq'', J_Pos (cr_to q)), (''auth'', J_Str (encode_b64 C (cr_sig q)))])"

definition food_wrap_pull :: "crypto_env \<Rightarrow> core_range \<Rightarrow> json res" where
  "food_wrap_pull C q = food_range C ''syncOrders'' ''cursor'' q"

definition food_wrap_map :: "crypto_env \<Rightarrow> core_range \<Rightarrow> json res" where
  "food_wrap_map C q = food_range C ''scanInventory'' ''cursor'' q"

definition food_wrap_determinate :: "crypto_env \<Rightarrow> core_range \<Rightarrow> json res" where
  "food_wrap_determinate C q = food_range C ''cleanupHistory'' ''fromSeq'' q"

definition food_wrap_notify :: "crypto_env \<Rightarrow> core_notify \<Rightarrow> json res" where
  "food_wrap_notify C q =
     Inr (J_Obj [(''operation'', J_Str ''checkOrders''), (''clientId'', J_Str (cn_sender q)), (''partnerId'', J_Str (cn_partner q)),
       (''cursor'', J_Pos (cn_seq q)), (''auth'', J_Str (encode_b64 C (cn_sig q))), (''waitMs'', json_of_u32 (cn_long_poll_ms q))])"

definition food_wrap_notify_multi :: "crypto_env \<Rightarrow> core_notify_multi \<Rightarrow> json res" where
  "food_wrap_notify_multi C q =
     Inr (J_Obj [(''operation'', J_Str ''checkOrders''), (''clientId'', J_Str (cm_sender q)),
       (''lines'', J_Arr (map (\<lambda>(partner, s). J_Obj [(''partnerId'', J_Str partner), (''cursor'', J_Pos s)]) (cm_items q))),
       (''auth'', J_Str (encode_b64 C (cm_sig q))), (''waitMs'', json_of_u32 (cm_long_poll_ms q))])"

definition food_wrap_call_signal :: "crypto_env \<Rightarrow> core_call_signal \<Rightarrow> json res" where
  "food_wrap_call_signal C q =
     Inr (J_Obj [(''operation'', J_Str ''dispatchCourier''), (''courierId'', J_Str (cs_sender q)), (''targetId'', J_Str (cs_recver q)),
       (''stage'', json_of_u8 (cs_kind q)), (''issuedAt'', json_of_i64 (cs_ts_ms q)),
       (''manifest'', J_Str (encode_b64 C (cs_payload q))), (''auth'', J_Str (encode_b64 C (cs_sig q)))])"

definition food_wrap_call_poll :: "crypto_env \<Rightarrow> core_call_poll \<Rightarrow> json res" where
  "food_wrap_call_poll C q =
     Inr (J_Obj [(''operation'', J_Str ''pollDispatch''), (''courierId'', J_Str (cl_user q)), (''nonce'', J_Pos (cl_nonce q)),
       (''waitMs'', json_of_u32 (cl_long_poll_ms q)), (''auth'', J_Str (encode_b64 C (cl_sig q)))])"

definition food_unwrap_push_response :: "json \<Rightarrow> unit res" where
  "food_unwrap_push_response body =
     (if as_bool (at_key body ''ok'') = Some True then Inr ()
      else Inl (push_error_code (case as_str (at_key body ''message'') of Some s \<Rightarrow> s | None \<Rightarrow> [])))"

definition food_packet :: "crypto_env \<Rightarrow> json \<Rightarrow> raw_packet res" where
  "food_packet C item =
     try_then (ok_or ''Missing id'' (as_u64 (at_key item ''id''))) (\<lambda>n.
     try_then (ok_or ''Missing blob'' (as_str (at_key item ''blob''))) (\<lambda>blob.
     try_then (decode_b64 C blob) (\<lambda>bs. Inr \<lparr>rp_seq = n, rp_payload = bs\<rparr>)))"

definition food_unwrap_pull_response :: "json_codec \<Rightarrow> crypto_env \<Rightarrow> json \<Rightarrow> raw_packet list res" where
  "food_unwrap_pull_response J C body =
     try_then (check_ok J body ''Pull'') (\<lambda>_.
     try_then (ok_or ''Pull: expected orders array'' (as_array (at_key body ''orders''))) (traverse (food_packet C)))"

definition food_shelf :: "json \<Rightarrow> (u64 \<times> u64) res" where
  "food_shelf shelf =
     (case as_array shelf of None \<Rightarrow> Inl ''Map: shelf is not an array''
      | Some arr \<Rightarrow>
      if length arr \<noteq> 2 then Inl ''Map: shelf must be [begin, end]''
      else try_then (ok_or ''Map: bad shelf begin'' (as_u64 (arr ! 0))) (\<lambda>b.
           try_then (ok_or ''Map: bad shelf end'' (as_u64 (arr ! 1))) (\<lambda>e. Inr (b, e))))"

definition food_unwrap_map_response :: "json_codec \<Rightarrow> json \<Rightarrow> map_answer res" where
  "food_unwrap_map_response J body =
     try_then (check_ok J body ''Map'') (\<lambda>_.
     try_then (ok_or ''Map: expected shelves array'' (as_array (at_key body ''shelves''))) (\<lambda>shelves.
     try_then (traverse food_shelf shelves) (\<lambda>runs.
     try_then (ok_or ''Map: missing topShelf'' (as_u64 (at_key body ''topShelf''))) (\<lambda>top.
       Inr \<lparr>ma_runs = runs, ma_last_seq = top, ma_truncated = (as_bool (at_key body ''more'') = Some True)\<rparr>))))"

definition food_unwrap_notify_response :: "json_codec \<Rightarrow> json \<Rightarrow> u64 res" where
  "food_unwrap_notify_response J body =
     try_then (check_ok J body ''Notify'') (\<lambda>_. ok_or ''Notify: missing n'' (as_u64 (at_key body ''n'')))"

definition food_lit :: "json \<Rightarrow> (string \<times> u64) option" where
  "food_lit l = (case as_str (at_key l ''partnerId'') of None \<Rightarrow> None
     | Some p \<Rightarrow> map_option (\<lambda>n. (p, n)) (as_u64 (at_key l ''n'')))"

definition food_unwrap_notify_response_multi :: "json_codec \<Rightarrow> json \<Rightarrow> (string \<times> u64) list res" where
  "food_unwrap_notify_response_multi J body =
     try_then (check_ok J body ''Notify'') (\<lambda>_.
       case as_array (at_key body ''lines'') of None \<Rightarrow> Inr [] | Some ls \<Rightarrow> Inr (List.map_filter food_lit ls))"

definition byte_of_u64 :: "string \<Rightarrow> u64 \<Rightarrow> byte res" where
  "byte_of_u64 e n = (if unat n < 256 then Inr (ucast n) else Inl e)"

definition food_envelope :: "crypto_env \<Rightarrow> json \<Rightarrow> call_envelope_in res" where
  "food_envelope C item =
     try_then (ok_or ''CallPoll: missing from'' (as_str (at_key item ''from''))) (\<lambda>from.
     try_then (try_then (ok_or ''CallPoll: missing stage'' (as_u64 (at_key item ''stage'')))
       (byte_of_u64 ''CallPoll: stage out of range'')) (\<lambda>kind.
     try_then (try_then (ok_or ''CallPoll: missing manifest'' (as_str (at_key item ''manifest''))) (decode_b64 C)) (\<lambda>bs.
     try_then (ok_or ''CallPoll: missing issuedAt'' (as_i64 (at_key item ''issuedAt''))) (\<lambda>ts.
       Inr \<lparr>in_sender = from, in_kind = kind, in_payload = bs, in_ts_ms = ts\<rparr>))))"

definition food_unwrap_call_poll_response :: "json_codec \<Rightarrow> crypto_env \<Rightarrow> json \<Rightarrow> call_envelope_in list res" where
  "food_unwrap_call_poll_response J C body =
     try_then (check_ok J body ''CallPoll'') (\<lambda>_.
     try_then (ok_or ''CallPoll: expected tasks array'' (as_array (at_key body ''tasks''))) (traverse (food_envelope C)))"

definition food_client :: "json_codec \<Rightarrow> crypto_env \<Rightarrow> 'r client_cover" where
  "food_client J C = \<lparr>route = (\<lambda>_. None), wrap_kind = (\<lambda>_ _ r. (None, r)), unwrap_kind = (\<lambda>_ _. None),
     wrap_push = (\<lambda>q r. (food_wrap_push J C q, r)), wrap_pull = (\<lambda>q r. (food_wrap_pull C q, r)),
     wrap_map = (\<lambda>q r. (food_wrap_map C q, r)), wrap_notify = (\<lambda>q r. (food_wrap_notify C q, r)),
     wrap_notify_multi = (\<lambda>q r. (food_wrap_notify_multi C q, r)),
     wrap_determinate = (\<lambda>q r. (food_wrap_determinate C q, r)),
     wrap_call_signal = (\<lambda>q r. (food_wrap_call_signal C q, r)), wrap_call_poll = (\<lambda>q r. (food_wrap_call_poll C q, r)),
     unwrap_push_response = food_unwrap_push_response, unwrap_pull_response = food_unwrap_pull_response J C,
     unwrap_map_response = food_unwrap_map_response J, unwrap_notify_response = food_unwrap_notify_response J,
     unwrap_notify_response_multi = food_unwrap_notify_response_multi J,
     unwrap_determinate_response = (\<lambda>body. check_ok J body ''Determinate''),
     unwrap_call_signal_response = (\<lambda>body. check_ok J body ''CallSignal''),
     unwrap_call_poll_response = food_unwrap_call_poll_response J C\<rparr>"

section \<open>The server\<close>

definition str_at :: "json \<Rightarrow> string \<Rightarrow> string res" where
  "str_at v k = ok_or (''no '' @ k) (as_str (at_key v k))"

definition u64_at :: "json \<Rightarrow> string \<Rightarrow> u64 res" where
  "u64_at v k = ok_or (''no '' @ k) (as_u64 (at_key v k))"

definition check_operation :: "json \<Rightarrow> string \<Rightarrow> unit res" where
  "check_operation body expected =
     try_then (str_at body ''operation'') (\<lambda>op. if op \<noteq> expected then Inl ''unsupported operation'' else Inr ())"

definition meta_part :: "crypto_env \<Rightarrow> json \<Rightarrow> string \<Rightarrow> bytes res" where
  "meta_part C body k = try_then (ok_or (''no meta.'' @ k) (as_str (at_key (at_key body ''meta'') k))) (decode_b64 C)"

definition food_unwrap_push :: "json_codec \<Rightarrow> crypto_env \<Rightarrow> json \<Rightarrow> push_request res" where
  "food_unwrap_push J C body =
     try_then (check_operation body ''updateOrder'') (\<lambda>_.
     try_then (ok_or ''no client.id'' (as_str (at_key (at_key body ''client'') ''id''))) (\<lambda>sender.
     try_then (ok_or ''no items[0].sku'' (as_str (at_key (at_idx (at_key body ''items'') 0) ''sku''))) (\<lambda>recver.
     try_then (meta_part C body ''p1'') (\<lambda>p1. try_then (meta_part C body ''p2'') (\<lambda>p2.
     try_then (meta_part C body ''p3'') (\<lambda>p3. try_then (meta_part C body ''p4'') (\<lambda>p4.
     try_then (from_slice J (p1 @ p2 @ p3 @ p4)) (\<lambda>tree.
     let core = dedup tree in
     try_then (str_at core ''sender'') (\<lambda>sender_core. try_then (str_at core ''recver'') (\<lambda>recver_core.
     if sender_core \<noteq> sender \<or> recver_core \<noteq> recver then Inl ''cover/core mismatch''
     else try_then (u64_at core ''seq'') (\<lambda>s. try_then (str_at core ''payload'') (\<lambda>payload.
          try_then (str_at core ''sig'') (\<lambda>sig.
            Inr \<lparr>psh_sender = sender, psh_recver = recver, psh_seq = s, psh_payload = payload, psh_sig = sig\<rparr>)))))))))))))"

text \<open>The requests of pull, map and determinate are read in the same order of fields.\<close>

definition food_unwrap_range :: "string \<Rightarrow> string \<Rightarrow> json \<Rightarrow> range_request res" where
  "food_unwrap_range op lower body =
     try_then (check_operation body op) (\<lambda>_.
     try_then (str_at body ''clientId'') (\<lambda>sender. try_then (str_at body ''partnerId'') (\<lambda>recver.
     try_then (u64_at body lower) (\<lambda>a. try_then (u64_at body ''toSeq'') (\<lambda>t.
     try_then (str_at body ''auth'') (\<lambda>sig.
       Inr \<lparr>rq_sender = sender, rq_recver = recver, rq_from = a, rq_to = t, rq_sig = sig\<rparr>))))))"

definition food_unwrap_pull :: "json \<Rightarrow> range_request res" where
  "food_unwrap_pull body = food_unwrap_range ''syncOrders'' ''cursor'' body"

definition food_unwrap_map :: "json \<Rightarrow> range_request res" where
  "food_unwrap_map body = food_unwrap_range ''scanInventory'' ''cursor'' body"

definition food_unwrap_determinate :: "json \<Rightarrow> range_request res" where
  "food_unwrap_determinate body = food_unwrap_range ''cleanupHistory'' ''fromSeq'' body"

definition u64_or_0 :: "json \<Rightarrow> u64" where
  "u64_or_0 v = (case as_u64 v of Some n \<Rightarrow> n | None \<Rightarrow> 0)"

definition food_line :: "json \<Rightarrow> notify_item option" where
  "food_line l = map_option (\<lambda>p. \<lparr>ni_partner = p, ni_seq = u64_or_0 (at_key l ''cursor'')\<rparr>) (as_str (at_key l ''partnerId''))"

text \<open>\<open>waitMs\<close> is cut to 32 bits; with \<open>lines\<close> the request is a multi-notify, without a partner.\<close>

definition food_unwrap_notify :: "json \<Rightarrow> notify_request res" where
  "food_unwrap_notify body =
     try_then (check_operation body ''checkOrders'') (\<lambda>_.
     try_then (str_at body ''clientId'') (\<lambda>sender. try_then (str_at body ''auth'') (\<lambda>sig.
     let wait = ucast (u64_or_0 (at_key body ''waitMs'')) in
     case as_array (at_key body ''lines'') of
       Some ls \<Rightarrow> Inr \<lparr>nt_sender = sender, nt_partner = [], nt_seq = 0, nt_sig = sig, nt_long_poll_ms = wait,
                        nt_items = List.map_filter food_line ls\<rparr>
     | None \<Rightarrow>
         try_then (str_at body ''partnerId'') (\<lambda>partner. try_then (u64_at body ''cursor'') (\<lambda>s.
           Inr \<lparr>nt_sender = sender, nt_partner = partner, nt_seq = s, nt_sig = sig, nt_long_poll_ms = wait, nt_items = []\<rparr>)))))"

definition food_unwrap_call_signal :: "json \<Rightarrow> call_signal_request res" where
  "food_unwrap_call_signal body =
     try_then (check_operation body ''dispatchCourier'') (\<lambda>_.
     try_then (str_at body ''courierId'') (\<lambda>sender. try_then (str_at body ''targetId'') (\<lambda>recver.
     try_then (try_then (u64_at body ''stage'') (byte_of_u64 ''stage out of u8 range'')) (\<lambda>kind.
     try_then (ok_or ''no issuedAt'' (as_i64 (at_key body ''issuedAt''))) (\<lambda>ts.
     try_then (str_at body ''manifest'') (\<lambda>payload. try_then (str_at body ''auth'') (\<lambda>sig.
       Inr \<lparr>csr_sender = sender, csr_recver = recver, csr_kind = kind, csr_payload = payload, csr_ts_ms = ts, csr_sig = sig\<rparr>)))))))"

definition food_unwrap_call_poll :: "json \<Rightarrow> call_poll_request res" where
  "food_unwrap_call_poll body =
     try_then (check_operation body ''pollDispatch'') (\<lambda>_.
     try_then (str_at body ''courierId'') (\<lambda>user. try_then (u64_at body ''nonce'') (\<lambda>nonce.
     try_then (try_then (u64_at body ''waitMs'')
       (\<lambda>n. if unat n < 2 ^ 32 then Inr (ucast n) else Inl ''waitMs out of u32 range'')) (\<lambda>wait.
     try_then (str_at body ''auth'') (\<lambda>sig.
       Inr \<lparr>cp_user = user, cp_nonce = nonce, cp_long_poll_ms = wait, cp_sig = sig\<rparr>)))))"

definition food_status :: "string \<Rightarrow> api_response \<Rightarrow> json" where
  "food_status done_word a = J_Obj [(''ok'', J_Bool (success a)), (''status'', J_Str (if success a then done_word else ''error'')),
     (''message'', J_Str (message a))]"

definition food_error :: "string \<Rightarrow> json" where
  "food_error msg = J_Obj [(''ok'', J_Bool False), (''status'', J_Str ''error''), (''message'', J_Str msg)]"

definition food_wrap_push_response :: "api_response \<Rightarrow> json" where
  "food_wrap_push_response a = food_status ''updated'' a"

definition food_wrap_determinate_response :: "api_response \<Rightarrow> json" where
  "food_wrap_determinate_response a = food_status ''cleaned'' a"

definition food_wrap_call_signal_response :: "api_response \<Rightarrow> json" where
  "food_wrap_call_signal_response a = food_status ''dispatched'' a"

definition food_wrap_pull_response :: "pull_response \<Rightarrow> json" where
  "food_wrap_pull_response a =
     (if \<not> pl_success a then J_Obj [(''ok'', J_Bool False), (''error'', J_Str (pl_message a))]
      else J_Obj [(''ok'', J_Bool True),
        (''orders'', J_Arr (map (\<lambda>(s, payload). J_Obj [(''id'', J_Pos s), (''blob'', J_Str payload)]) (packets a)))])"

definition food_wrap_map_response :: "map_response \<Rightarrow> json" where
  "food_wrap_map_response a =
     (if \<not> mp_success a then food_error (mp_message a)
      else J_Obj [(''ok'', J_Bool True), (''shelves'', J_Arr (map (\<lambda>(b, e). J_Arr [J_Pos b, J_Pos e]) (mp_runs a))),
        (''topShelf'', J_Pos (mp_last_seq a)), (''more'', J_Bool (mp_truncated a))])"

definition food_wrap_notify_response :: "notify_response \<Rightarrow> json" where
  "food_wrap_notify_response a =
     (if \<not> nt_success a then food_error (nt_message a)
      else if nt_lit a \<noteq> []
        then J_Obj [(''ok'', J_Bool True),
          (''lines'', J_Arr (map (\<lambda>(p, n). J_Obj [(''partnerId'', J_Str p), (''n'', J_Pos n)]) (nt_lit a)))]
      else J_Obj [(''ok'', J_Bool True), (''n'', J_Pos (nt_n a))])"

definition food_task :: "call_envelope_out \<Rightarrow> json" where
  "food_task e = J_Obj [(''from'', J_Str (out_sender e)), (''stage'', json_of_u8 (out_kind e)),
     (''manifest'', J_Str (out_payload e)), (''issuedAt'', json_of_i64 (out_ts_ms e))]"

definition food_wrap_call_poll_response :: "call_poll_response \<Rightarrow> json" where
  "food_wrap_call_poll_response a =
     (if \<not> cpr_success a then food_error (cpr_message a)
      else J_Obj [(''ok'', J_Bool True), (''tasks'', J_Arr (map food_task (cpr_items a)))])"

definition food_server :: "json_codec \<Rightarrow> crypto_env \<Rightarrow> 's server_cover" where
  "food_server J C = \<lparr>unwrap_push = food_unwrap_push J C, unwrap_pull = food_unwrap_pull, unwrap_map = food_unwrap_map,
     unwrap_notify = food_unwrap_notify, unwrap_determinate = food_unwrap_determinate,
     unwrap_call_signal = food_unwrap_call_signal, unwrap_call_poll = food_unwrap_call_poll,
     wrap_push_response = (\<lambda>a r. (food_wrap_push_response a, r)), wrap_pull_response = (\<lambda>a r. (food_wrap_pull_response a, r)),
     wrap_map_response = (\<lambda>a r. (food_wrap_map_response a, r)), wrap_notify_response = (\<lambda>a r. (food_wrap_notify_response a, r)),
     wrap_determinate_response = (\<lambda>a r. (food_wrap_determinate_response a, r)),
     wrap_call_signal_response = (\<lambda>a r. (food_wrap_call_signal_response a, r)),
     wrap_call_poll_response = (\<lambda>a r. (food_wrap_call_poll_response a, r))\<rparr>"

section \<open>The contract\<close>

lemma cut4_eq: "cut4 data [x, y, z] = [take x data, take (y - x) (drop x data), take (z - y) (drop y data), drop z data]"
  by (simp add: cut4_def upt_rec)

lemma cut4_concat: "x \<le> y \<Longrightarrow> y \<le> z \<Longrightarrow> concat (cut4 data [x, y, z]) = data"
  by (simp add: cut4_eq) (metis append.assoc append_take_drop_id le_add_diff_inverse take_add)

lemma split4_concat:
  obtains a b c d where "split4 C data seed = [a, b, c, d]" and "a @ b @ c @ d = data"
proof (cases "data = []")
  case True
  with that [of "[]" "[]" "[]" "[]"] show ?thesis by (simp add: split4_def)
next
  case False
  define cs where "cs = sort [unat (sha256 C seed ! 0) mod length data, unat (sha256 C seed ! 1) mod length data,
    unat (sha256 C seed ! 2) mod length data]"
  have "length cs = 3" and srt: "sorted cs" by (simp_all add: cs_def del: sort_key_simps)
  then obtain x y z where xyz: "cs = [x, y, z]" by (auto simp: length_Suc_conv numeral_3_eq_3)
  with srt have "concat (cut4 data cs) = data" by (simp add: cut4_concat)
  moreover have "split4 C data seed = cut4 data cs" using False by (simp add: split4_def cs_def Let_def)
  ultimately show ?thesis using that by (simp add: xyz cut4_eq)
qed

lemma map_filter_all: "(\<And>x. f (g x) = Some (h x)) \<Longrightarrow> List.map_filter f (map g xs) = map h xs"
  by (induction xs) (simp_all add: List.map_filter_simps)

lemma byte_of_u64_byte [simp]: "byte_of_u64 e (ucast (k :: byte)) = Inr k"
  using unsigned_less [where w = k and ?'a = nat] by (simp add: byte_of_u64_def small_word_up)

lemma u64_of_small [simp]: "as_u64 (json_of_u8 k) = Some (ucast k)" "as_u64 (json_of_u32 w) = Some (ucast w)"
  by (simp_all add: json_of_u8_def json_of_u32_def)

lemma ucast_u32 [simp]: "(ucast (ucast (w :: u32) :: u64) :: u32) = w" "unat (ucast (w :: u32) :: u64) = unat w"
  by (simp_all add: small_word_up)

lemma unat_u32 [simp]: "unat (w :: u32) < 4294967296"
  using unsigned_less [where w = w and ?'a = nat] by simp

lemma decode_encode: "crypto_ok C \<Longrightarrow> decode_b64 C (encode_b64 C bs) = Inr bs"
  by (simp add: decode_b64_def encode_b64_def crypto_ok_def)

lemmas food_wraps = food_wrap_pull_def food_wrap_map_def food_wrap_determinate_def food_range_def food_wrap_notify_def
  food_wrap_notify_multi_def food_wrap_call_signal_def food_wrap_call_poll_def
lemmas food_unwraps = food_unwrap_pull_def food_unwrap_map_def food_unwrap_determinate_def food_unwrap_range_def
  food_unwrap_notify_def food_unwrap_call_signal_def food_unwrap_call_poll_def check_operation_def str_at_def u64_at_def

lemma food_push_fits:
  assumes "json_codec_ok J" and "crypto_ok C" and "json_fits 127 (push_json (push_request_of C q))"
  shows "\<exists>body. food_wrap_push J C q = Inr body \<and> food_unwrap_push J C body = Inr (push_request_of C q)"
proof -
  let ?v = "push_json (push_request_of C q)"
  have J: "from_slice J (to_vec J ?v) = Inr ?v" "dedup ?v = ?v"
    using assms(1,3) json_fits_wf dedup_wf by (auto simp: json_codec_ok_def)
  obtain a b c d where p: "split4 C (to_vec J ?v) (as_bytes (order_seed q)) = [a, b, c, d]" "a @ b @ c @ d = to_vec J ?v"
    by (rule split4_concat)
  have at: "at_key ?v ''sender'' = J_Str (cp_sender q)" "at_key ?v ''recver'' = J_Str (cp_recver q)"
    "at_key ?v ''seq'' = J_Pos (cp_seq q)" "at_key ?v ''payload'' = J_Str (encode_b64 C (cp_payload q))"
    "at_key ?v ''sig'' = J_Str (encode_b64 C (cp_push_sig q))"
    by (simp_all add: push_json_def push_request_of_def)
  show ?thesis
    by (simp add: food_wrap_push_def p(1) Let_def, simp add: food_unwrap_push_def check_operation_def str_at_def u64_at_def
        meta_part_def decode_encode [OF assms(2)] p(2) J at, simp add: push_request_of_def)
qed

lemma food_items: "List.map_filter food_line (map (\<lambda>(partner, s). J_Obj [(''partnerId'', J_Str partner), (''cursor'', J_Pos s)]) its) =
    map (\<lambda>(partner, s). \<lparr>ni_partner = partner, ni_seq = s\<rparr>) its"
  by (rule map_filter_all) (auto simp: food_line_def u64_or_0_def)

lemma food_lits: "List.map_filter food_lit (map (\<lambda>(p, n). J_Obj [(''partnerId'', J_Str p), (''n'', J_Pos n)]) ls) = ls"
  by (rule trans [OF map_filter_all [where h = id]]) (auto simp: food_lit_def)

lemma food_notify_fits:
  "food_wrap_notify C n = Inr body \<Longrightarrow> food_unwrap_notify body = Inr (notify_request_of C n)"
  "food_wrap_notify_multi C m = Inr body \<Longrightarrow> food_unwrap_notify body = Inr (notify_multi_request_of C m)"
  by (auto simp: food_wraps food_unwraps notify_request_of_def notify_multi_request_of_def food_items u64_or_0_def)

lemma traverse_map: "traverse f (map g xs) = traverse (\<lambda>x. f (g x)) xs"
  by (induction xs) auto

lemma traverse_cong: "(\<And>x. f x = g x) \<Longrightarrow> traverse f xs = traverse g xs"
  by (induction xs) auto

lemma check_ok_simps [simp]:
  "check_ok J (J_Obj ((''ok'', J_Bool True) # m)) op = Inr ()"
  "\<exists>e. check_ok J (J_Obj ((''ok'', J_Bool False) # m)) op = Inl e"
  by (simp_all add: check_ok_def)

lemma food_pull_answer: "agrees (food_unwrap_pull_response J C (food_wrap_pull_response a)) (pull_outcome C a)"
proof -
  have "food_packet C ((\<lambda>(s, payload). J_Obj [(''id'', J_Pos s), (''blob'', J_Str payload)]) p) = raw_packet_of C p" for p
    by (cases p) (simp add: food_packet_def raw_packet_of_def)
  then show ?thesis
    by (auto simp: food_unwrap_pull_response_def food_wrap_pull_response_def pull_outcome_def check_ok_def traverse_map)
qed

lemma food_map_answer: "agrees (food_unwrap_map_response J (food_wrap_map_response a)) (map_outcome a)"
proof -
  have "traverse food_shelf (map (\<lambda>(b, e). J_Arr [J_Pos b, J_Pos e]) rs) = Inr rs" for rs
    by (induction rs) (auto simp: food_shelf_def)
  then show ?thesis
    by (auto simp: food_unwrap_map_response_def food_wrap_map_response_def map_outcome_def check_ok_def food_error_def)
qed

lemma food_poll_answer: "agrees (food_unwrap_call_poll_response J C (food_wrap_call_poll_response a)) (poll_outcome C a)"
proof -
  have "food_envelope C (food_task e) = envelope_in_of C e" for e
    by (simp add: food_envelope_def food_task_def envelope_in_of_def)
  then show ?thesis
    by (auto simp: food_unwrap_call_poll_response_def food_wrap_call_poll_response_def poll_outcome_def check_ok_def
        food_error_def traverse_map)
qed

lemma food_notify_answers:
  "nt_lit a = [] \<Longrightarrow> agrees (food_unwrap_notify_response J (food_wrap_notify_response a)) (notify_outcome a)"
  "agrees (food_unwrap_notify_response_multi J (food_wrap_notify_response a)) (notify_multi_outcome a)"
  by (auto simp: food_unwrap_notify_response_def food_unwrap_notify_response_multi_def food_wrap_notify_response_def
      notify_outcome_def notify_multi_outcome_def check_ok_def food_error_def food_lits)

lemma food_status_answer: "agrees (check_ok J (food_status w a) op) (simple_outcome op a)"
  by (auto simp: check_ok_def food_status_def simple_outcome_def)

lemma food_push_answer: "food_unwrap_push_response (food_status w a) = push_outcome a"
  by (auto simp: food_unwrap_push_response_def food_status_def push_outcome_def)

locale food_pair =
  fixes J :: json_codec
    and C :: crypto_env
  assumes codec: "json_codec_ok J" and crypto: "crypto_ok C"

sublocale food_pair < fit: covers_fit C "food_client J C" "food_server J C" "json_fits 127"
  by unfold_locales
    (use food_push_fits [OF codec crypto] in \<open>simp_all add: food_client_def food_server_def food_notify_fits
       food_pull_answer food_map_answer food_poll_answer food_notify_answers food_status_answer food_push_answer
       food_wrap_push_response_def food_wrap_determinate_response_def food_wrap_call_signal_response_def\<close>,
     simp_all add: food_wraps food_unwraps range_request_of_def call_signal_request_of_def call_poll_request_of_def
       notify_request_of_def notify_multi_request_of_def food_items u64_or_0_def)

context food_pair
begin

lemma fit_axioms: "covers_fit C (food_client J C) (food_server J C) (json_fits 127)"
  by (rule fit.covers_fit_axioms)

end

lemma food_fits: "json_codec_ok J \<Longrightarrow> crypto_ok C \<Longrightarrow> covers_fit C (food_client J C) (food_server J C) (json_fits 127)"
  by (rule food_pair.fit_axioms) (rule food_pair.intro)

end
