(* ===== verification/Demo_Json.thy ===== *)
theory Demo_Json
  imports Json_Values
begin

text \<open>
  A concrete codec for JSON values, with tagged, self-delimiting bytes instead of JSON text. It
  satisfies the law \<open>json_codec_ok\<close>; the examples use it.
\<close>

fun put_str :: "string \<Rightarrow> bytes" where
  "put_str [] = [0]"
| "put_str (c # cs) = 1 # of_char c # put_str cs"

fun put_json_bytes :: "json \<Rightarrow> bytes"
  and put_items :: "json list \<Rightarrow> bytes"
  and put_entries :: "(string \<times> json) list \<Rightarrow> bytes" where
  "put_json_bytes J_Null = [0]"
| "put_json_bytes (J_Bool b) = [if b then 2 else 1]"
| "put_json_bytes (J_Pos n) = 3 # u64_to_be n"
| "put_json_bytes (J_Neg n) = 4 # u64_to_be n"
| "put_json_bytes (J_Float n) = 5 # u64_to_be n"
| "put_json_bytes (J_Str s) = 6 # put_str s"
| "put_json_bytes (J_Arr xs) = 7 # put_items xs"
| "put_json_bytes (J_Obj m) = 8 # put_entries m"
| "put_items [] = [0]"
| "put_items (x # xs) = 1 # put_json_bytes x @ put_items xs"
| "put_entries [] = [0]"
| "put_entries ((k, x) # m) = 1 # put_str k @ put_json_bytes x @ put_entries m"

fun take_str :: "bytes \<Rightarrow> (string \<times> bytes) option" where
  "take_str (t # bs) =
     (if t = 0 then Some ([], bs)
      else case bs of [] \<Rightarrow> None | c # bs' \<Rightarrow> map_option (\<lambda>(s, r). (char_of (unat c) # s, r)) (take_str bs'))"
| "take_str [] = None"

definition take_u64 :: "(u64 \<Rightarrow> json) \<Rightarrow> bytes \<Rightarrow> (json \<times> bytes) option" where
  "take_u64 f bs = Some (f (u64_from_be (take 8 bs)), drop 8 bs)"

fun take_json :: "nat \<Rightarrow> bytes \<Rightarrow> (json \<times> bytes) option"
  and take_items :: "nat \<Rightarrow> bytes \<Rightarrow> (json list \<times> bytes) option"
  and take_entries :: "nat \<Rightarrow> bytes \<Rightarrow> ((string \<times> json) list \<times> bytes) option" where
  "take_json (Suc n) (t # bs) =
     (if t = 0 then Some (J_Null, bs) else if t = 1 then Some (J_Bool False, bs)
      else if t = 2 then Some (J_Bool True, bs)
      else if t = 3 then take_u64 J_Pos bs else if t = 4 then take_u64 J_Neg bs else if t = 5 then take_u64 J_Float bs
      else if t = 6 then map_option (\<lambda>(s, r). (J_Str s, r)) (take_str bs)
      else if t = 7 then map_option (\<lambda>(xs, r). (J_Arr xs, r)) (take_items n bs)
      else map_option (\<lambda>(m, r). (J_Obj m, r)) (take_entries n bs))"
| "take_json _ _ = None"
| "take_items (Suc n) (t # bs) =
     (if t = 0 then Some ([], bs)
      else case take_json n bs of None \<Rightarrow> None
           | Some (x, r) \<Rightarrow> map_option (\<lambda>(xs, r'). (x # xs, r')) (take_items n r))"
| "take_items _ _ = None"
| "take_entries (Suc n) (t # bs) =
     (if t = 0 then Some ([], bs)
      else case take_str bs of None \<Rightarrow> None
           | Some (k, r) \<Rightarrow>
           case take_json n r of None \<Rightarrow> None
           | Some (x, r') \<Rightarrow> map_option (\<lambda>(m, r''). ((k, x) # m, r'')) (take_entries n r'))"
| "take_entries _ _ = None"

definition demo_json :: json_codec where
  "demo_json = \<lparr>to_vec = put_json_bytes,
     from_slice = (\<lambda>bs. case take_json (length bs) bs of Some (v, []) \<Rightarrow> Inr v | _ \<Rightarrow> Inl ''bad text'')\<rparr>"

declare u64_to_be.simps [simp del]

lemma take_put_str [simp]: "take_str (put_str s @ r) = Some (s, r)"
  by (induction s) auto

lemma take_put_u64 [simp]: "take_u64 f (u64_to_be n @ r) = Some (f n, r)" "take_u64 f (u64_to_be n) = Some (f n, [])"
  by (simp_all add: take_u64_def u64_be_roundtrip)

lemma take_put_json: "length (put_json_bytes v) \<le> n \<Longrightarrow> take_json n (put_json_bytes v @ r) = Some (v, r)"
  and take_put_items: "length (put_items xs) \<le> n \<Longrightarrow> take_items n (put_items xs @ r) = Some (xs, r)"
  and take_put_entries: "length (put_entries m) \<le> n \<Longrightarrow> take_entries n (put_entries m @ r) = Some (m, r)"
proof (induction v and xs and m arbitrary: n r and n r and n r rule: put_json_bytes_put_items_put_entries.induct)
  case (10 x xs)
  then show ?case by (cases n) auto
next
  case (12 k x m)
  then show ?case by (cases n) auto
next
  case (2 b)
  then show ?case by (cases n; cases b) auto
next
  case 1 then show ?case by (cases n) simp_all
next
  case 3 then show ?case by (cases n) simp_all
next
  case 4 then show ?case by (cases n) simp_all
next
  case 5 then show ?case by (cases n) simp_all
next
  case 6 then show ?case by (cases n) simp_all
next
  case 7 then show ?case by (cases n) simp_all
next
  case 8 then show ?case by (cases n) simp_all
next
  case 9 then show ?case by (cases n) simp_all
next
  case 11 then show ?case by (cases n) simp_all
qed

lemma demo_json_ok [simp]: "json_codec_ok demo_json"
proof -
  have "take_json (length (put_json_bytes v)) (put_json_bytes v) = Some (v, [])" for v
    using take_put_json [of v "length (put_json_bytes v)" "[]"] by simp
  then show ?thesis by (simp add: json_codec_ok_def demo_json_def)
qed

end
