(* ===== verification/Transport_Props.thy ===== *)
theory Transport_Props
  imports Client_Transport Cover_Food Cover_Schema Packet_Route_Props Demo_Json
begin

text \<open>
  Properties of the HTTP client: the list of endpoints, the failover, the query string, the
  authorization header; and the path of a message from one client through the covers and the
  handlers of the server to the other client.
\<close>

section \<open>Endpoints\<close>

abbreviation endpoint :: "string \<Rightarrow> string" where
  "endpoint u \<equiv> trim_end_slashes (trim u)"

lemma push_urls:
  assumes "distinct acc"
  shows "distinct (foldl push_server_url acc us) \<and> set (foldl push_server_url acc us) = set acc \<union> (endpoint ` set us - {[]}) \<and>
    (\<exists>zs. foldl push_server_url acc us = acc @ zs \<and> subseq zs (map endpoint us))"
  using assms
proof (induction us arbitrary: acc)
  case (Cons u us)
  show ?case
  proof (cases "endpoint u \<noteq> [] \<and> endpoint u \<notin> set acc")
    case True
    then have "push_server_url acc u = acc @ [endpoint u]" by (simp add: push_server_url_def)
    with Cons.IH [of "acc @ [endpoint u]"] Cons.prems True show ?thesis
      by (auto intro: exI [of _ "endpoint u # _"])
  next
    case False
    then have "push_server_url acc u = acc" by (auto simp: push_server_url_def Let_def)
    with Cons.IH [OF Cons.prems] False show ?thesis by (auto intro: subseq_Cons')
  qed
qed simp

lemma trim_end_slashes_last: "trim_end_slashes u \<noteq> [] \<Longrightarrow> last (trim_end_slashes u) \<noteq> CHR ''/''"
  using hd_dropWhile [of "\<lambda>c. c = CHR ''/''" "rev u"] by (simp add: trim_end_slashes_def last_rev)

text \<open>
  The client keeps exactly the given endpoints that are not empty after trimming, each once,
  in the order of their first occurrence, none with a slash at its end.
\<close>

lemma server_urls_exact:
  "distinct (server_urls_of primary reserve) \<and>
   set (server_urls_of primary reserve) = endpoint ` set (primary # reserve) - {[]} \<and>
   subseq (server_urls_of primary reserve) (map endpoint (primary # reserve)) \<and>
   list_all (\<lambda>u. last u \<noteq> CHR ''/'') (server_urls_of primary reserve)"
proof -
  have eq: "server_urls_of primary reserve = foldl push_server_url [] (primary # reserve)"
    by (simp add: server_urls_of_def)
  have facts: "distinct (server_urls_of primary reserve)"
    "set (server_urls_of primary reserve) = endpoint ` set (primary # reserve) - {[]}"
    "subseq (server_urls_of primary reserve) (map endpoint (primary # reserve))"
    using push_urls [of "[]" "primary # reserve"] unfolding eq by auto
  have "list_all (\<lambda>u. last u \<noteq> CHR ''/'') (server_urls_of primary reserve)"
    using facts(2) trim_end_slashes_last by (auto simp: list_all_iff)
  with facts show ?thesis by blast
qed

section \<open>Failover\<close>

text \<open>The endpoints that asked for a retry, one after the other.\<close>

inductive retried :: "(string \<Rightarrow> 's \<Rightarrow> (endpoint_error + json) \<times> 's) \<Rightarrow> string list \<Rightarrow> 's \<Rightarrow> 's \<Rightarrow> bool" for attempt where
  retried_none: "retried attempt [] s s"
| retried_next: "attempt u s = (Inl (Retry e), s1) \<Longrightarrow> retried attempt us s1 s2 \<Longrightarrow> retried attempt (u # us) s s2"

inductive_simps retried_simps [simp]: "retried attempt [] s s'" "retried attempt (u # us) s s'"

definition verdict :: "(string \<Rightarrow> 's \<Rightarrow> (endpoint_error + json) \<times> 's) \<Rightarrow> string \<Rightarrow> 's \<Rightarrow> json res \<times> 's \<Rightarrow> bool" where
  "verdict attempt u s out \<longleftrightarrow> (case attempt u s of (Inr v, s') \<Rightarrow> out = (Inr v, s')
     | (Inl (Stop e), s') \<Rightarrow> out = (Inl e, s') | (Inl (Retry e), s') \<Rightarrow> False)"

definition decided :: "(string \<Rightarrow> 's \<Rightarrow> (endpoint_error + json) \<times> 's) \<Rightarrow> string list \<Rightarrow> 's \<Rightarrow> json res \<times> 's \<Rightarrow> bool" where
  "decided attempt us s out \<longleftrightarrow>
     (\<exists>pre u post. us = pre @ u # post \<and> (\<exists>s1. retried attempt pre s s1 \<and> verdict attempt u s1 out))"

lemma ex_split_Cons:
  "(\<exists>pre u' post. u # us = pre @ u' # post \<and> P pre u') \<longleftrightarrow> P [] u \<or> (\<exists>pre u' post. us = pre @ u' # post \<and> P (u # pre) u')"
  by (auto simp: Cons_eq_append_conv)

lemma decided_simps [simp]:
  "\<not> decided attempt [] s out"
  "decided attempt (u # us) s out \<longleftrightarrow>
     verdict attempt u s out \<or> (\<exists>e s1. attempt u s = (Inl (Retry e), s1) \<and> decided attempt us s1 out)"
proof -
  show "decided attempt (u # us) s out \<longleftrightarrow>
     verdict attempt u s out \<or> (\<exists>e s1. attempt u s = (Inl (Retry e), s1) \<and> decided attempt us s1 out)"
    unfolding decided_def ex_split_Cons by simp blast
qed (simp add: decided_def)

lemma failover_exact:
  "failover attempt us r s = out \<longleftrightarrow> decided attempt us s out \<or>
     (\<exists>s'. retried attempt us s s' \<and> out = (Inl (if us = [] \<and> r = None then ''no server endpoints configured''
        else ''all server endpoints unavailable''), s'))"
proof (induction us arbitrary: r s)
  case (Cons u us)
  obtain x s1 where x: "attempt u s = (x, s1)" by fastforce
  consider v where "x = Inr v" | e where "x = Inl (Stop e)" | e where "x = Inl (Retry e)"
    by (metis endpoint_error.exhaust sum.exhaust)
  then show ?case
  proof cases
    case 3
    with x show ?thesis by (simp add: verdict_def Cons.IH)
  qed (use x in \<open>auto simp: verdict_def\<close>)
qed (auto split: option.splits)

text \<open>
  C21. A request is sent to the endpoints in their order; the first that neither fails to connect
  nor answers with a server error or 429 decides, with its JSON answer or its error, and no later
  one is contacted. If all ask for a retry, the request fails as a whole.
\<close>

theorem request_failover:
  "request_json T method path body s = out \<longleftrightarrow>
     decided (\<lambda>u. send_once T method (u @ path) (Some body) None) (server_urls T) s out \<or>
     (\<exists>s'. retried (\<lambda>u. send_once T method (u @ path) (Some body) None) (server_urls T) s s' \<and>
        out = (Inl (if server_urls T = [] then ''no server endpoints configured'' else ''all server endpoints unavailable''), s'))"
  by (simp add: request_json_def failover_exact)

section \<open>Query strings\<close>

definition hex_value :: "char \<Rightarrow> nat" where
  "hex_value c = (let k = of_char c :: nat in if 48 \<le> k \<and> k \<le> 57 then k - 48 else if 65 \<le> k \<and> k \<le> 70 then k - 55 else k - 87)"

fun percent_decode :: "string \<Rightarrow> string" where
  "percent_decode [] = []"
| "percent_decode [c] = [c]"
| "percent_decode [c, d] = [c, d]"
| "percent_decode (c # d # e # cs) =
     (if c = CHR ''%'' then char_of (16 * hex_value d + hex_value e) # percent_decode cs else c # percent_decode (d # e # cs))"

definition parse_query :: "string \<Rightarrow> (string \<times> string) list" where
  "parse_query q = map (\<lambda>part. (percent_decode (takeWhile (\<lambda>c. c \<noteq> CHR ''='') part),
     percent_decode (drop 1 (dropWhile (\<lambda>c. c \<noteq> CHR ''='') part)))) (split_on CHR ''&'' q)"

lemma hex_value_upper: "hex_value (upper_hex b) = unat (b AND 15)"
proof -
  have "unat (b AND 15) \<le> unat (15 :: byte)" by (simp only: word_le_nat_alt [symmetric] word_and_le1)
  then have "unat (b AND 15) \<in> set [0..<16]" by simp
  then have "hex_value (''0123456789ABCDEF'' ! unat (b AND 15)) = unat (b AND 15)"
    by (auto simp: upt_rec hex_value_def)
  then show ?thesis by (simp add: upper_hex_def)
qed

lemma byte_of_halves: "16 * unat (drop_bit 4 b AND 15) + unat (b AND 15) = unat (b :: byte)"
proof -
  have m: "(15 :: byte) = mask 4" by (simp add: mask_eq_exp_minus_1)
  have "take_bit 4 (drop_bit 4 b) = drop_bit 4 b"
    by (rule bit_word_eqI) (auto simp: bit_simps dest: bit_imp_le_length)
  then have "unat (drop_bit 4 b AND 15) = unat b div 16"
    by (simp add: m flip: take_bit_eq_mask) (simp add: drop_bit_eq_div unat_div)
  moreover have "unat (b AND 15) = unat b mod 16"
    by (simp add: m unsigned_take_bit_eq flip: take_bit_eq_mask) (simp add: take_bit_eq_mod)
  ultimately show ?thesis by simp
qed

lemma percent_decode_byte: "percent_decode (percent_byte b @ s) = char_of (unat b) # percent_decode s"
proof (cases "unreserved b")
  case True
  have "b = of_char (CHR ''%'')" if "char_of (unat b) = CHR ''%''"
    using as_bytes_char_of [of "[b]"] that by (simp add: as_bytes_def)
  with True have "(char_of (unat b) :: char) \<noteq> CHR ''%''" by (auto simp: unreserved_def)
  with True show ?thesis by (cases s; cases "tl s") (auto simp: percent_byte_def)
next
  case False
  then show ?thesis by (simp add: percent_byte_def hex_value_upper byte_of_halves)
qed

lemma percent_roundtrip: "percent_decode (percent_encode_component s) = s"
  by (induction s) (simp_all add: percent_encode_component_def as_bytes_def percent_decode_byte)

lemma upper_hex_in: "upper_hex b \<in> set ''0123456789ABCDEF''"
proof -
  have "unat (b AND 15) \<le> unat (15 :: byte)" by (simp only: word_le_nat_alt [symmetric] word_and_le1)
  then show ?thesis unfolding upper_hex_def by (intro nth_mem) simp
qed

lemma upper_hex_noteq: "upper_hex b \<noteq> CHR ''&''" "upper_hex b \<noteq> CHR ''=''"
proof -
  have "CHR ''&'' \<notin> set ''0123456789ABCDEF''" "CHR ''='' \<notin> set ''0123456789ABCDEF''" by simp_all
  then show "upper_hex b \<noteq> CHR ''&''" "upper_hex b \<noteq> CHR ''=''" using upper_hex_in [of b] by metis+
qed

lemma takeWhile_until:
  "d \<notin> set a \<Longrightarrow> takeWhile (\<lambda>c. c \<noteq> d) (a @ d # w) = a" "d \<notin> set a \<Longrightarrow> takeWhile (\<lambda>c. c \<noteq> d) a = a"
  "d \<notin> set a \<Longrightarrow> dropWhile (\<lambda>c. c \<noteq> d) (a @ d # w) = d # w"
  by (induction a) auto

lemma percent_chars: "c \<in> set (percent_encode_component s) \<Longrightarrow> c \<noteq> CHR ''&'' \<and> c \<noteq> CHR ''=''"
proof -
  assume "c \<in> set (percent_encode_component s)"
  then obtain b where c: "c \<in> set (percent_byte b)" by (auto simp: percent_encode_component_def)
  have of: "b = of_char d" if "char_of (unat b) = d" for d
    using as_bytes_char_of [of "[b]"] that by (auto simp: as_bytes_def)
  show ?thesis
  proof (cases "unreserved b")
    case True
    with c of [of "CHR ''&''"] of [of "CHR ''=''"] show ?thesis by (auto simp: percent_byte_def unreserved_def)
  next
    case False
    with c show ?thesis by (auto simp: percent_byte_def upper_hex_noteq)
  qed
qed

lemma split_on_none: "d \<notin> set a \<Longrightarrow> split_on d a = [a]"
  by (induction a) auto

lemma split_on_append: "d \<notin> set a \<Longrightarrow> split_on d (a @ d # rest) = a # split_on d rest"
  by (induction a) auto

lemma query_part:
  "takeWhile (\<lambda>c. c \<noteq> CHR ''='') (percent_encode_component k @ CHR ''='' # w) = percent_encode_component k"
  "dropWhile (\<lambda>c. c \<noteq> CHR ''='') (percent_encode_component k @ CHR ''='' # w) = CHR ''='' # w"
  using percent_chars [of _ k] by (auto intro!: takeWhile_until)

text \<open>
  The server reads from the query of a request the keys and values that the client put there,
  whatever bytes they contain.
\<close>

lemma query_roundtrip:
  assumes "query \<noteq> []"
  shows "\<exists>q. url_with_query url query = url @ ''?'' @ q \<and> parse_query q = query"
proof -
  have part: "CHR ''&'' \<notin> set (percent_encode_component k @ CHR ''='' # percent_encode_component v)" for k v
    using percent_chars by auto
  have "parse_query (query_pairs query) = query" using assms
  proof (induction query rule: query_pairs.induct)
    case (2 k v)
    then show ?case using part [of k v]
      by (simp add: parse_query_def split_on_none query_part percent_roundtrip)
  next
    case (3 k v p ps)
    have "query_pairs ((k, v) # p # ps) = (percent_encode_component k @ CHR ''='' # percent_encode_component v) @ CHR ''&'' # query_pairs (p # ps)"
      by simp
    with 3 split_on_append [OF part [of k v], of "query_pairs (p # ps)"] show ?case
      by (simp add: parse_query_def query_part percent_roundtrip del: query_pairs.simps)
  qed simp
  with assms show ?thesis by (simp add: url_with_query_def)
qed

lemma query_roundtrip_example:
  "\<exists>q. url_with_query ''http://h/arrived'' [(''dialogue_id'', ''a&b''), (''partner'', ''x=y'')] = ''http://h/arrived'' @ ''?'' @ q \<and>
     parse_query q = [(''dialogue_id'', ''a&b''), (''partner'', ''x=y'')]"
  by (rule query_roundtrip) simp

section \<open>The authorization header\<close>

definition printable :: "string \<Rightarrow> bool" where
  "printable s \<longleftrightarrow> list_all (\<lambda>c. 33 \<le> (of_char c :: nat) \<and> (of_char c :: nat) \<le> 127) s"

lemma split_once_first:
  "split_once s = (if CHR '':'' \<in> set s
     then Some (takeWhile (\<lambda>c. c \<noteq> CHR '':'') s, tl (dropWhile (\<lambda>c. c \<noteq> CHR '':'') s)) else None)"
  by (induction s) auto

lemma split_named:
  "split_once (username @ '':'' @ sig) = Some (takeWhile (\<lambda>c. c \<noteq> CHR '':'') username,
     if CHR '':'' \<in> set username then tl (dropWhile (\<lambda>c. c \<noteq> CHR '':'') username) @ '':'' @ sig else sig)"
proof (cases "CHR '':'' \<in> set username")
  case True
  then have "dropWhile (\<lambda>c. c \<noteq> CHR '':'') username \<noteq> []" by (auto simp: dropWhile_eq_Nil_conv)
  with True show ?thesis by (simp add: split_once_first takeWhile_append1 dropWhile_append1)
next
  case False
  then have "takeWhile (\<lambda>c. c \<noteq> CHR '':'') username = username" unfolding takeWhile_eq_all_conv by blast
  with False split_once_append [OF False, of sig] show ?thesis by (simp only: append_Cons append_Nil if_False)
qed

text \<open>
  C22. Out of the header that the client made, with any scheme or without one, the server reads the
  user name and the signature back exactly when the name is not empty and has no colon in it. In a name
  with a colon it takes the text before the first colon for the name and all the rest for the
  signature, so such a user, whom the registration allows, cannot use these requests; a name that is empty before its
  first colon is refused. (The texts are UTF-8, the signature is not empty, the token is visible ASCII,
  as base64 is.)
\<close>

theorem authorization_roundtrip:
  fixes M :: http_masking
  assumes C: "crypto_ok C" and token: "printable (encode_b64 C (as_bytes (username @ '':'' @ sig)))"
    and sig: "sig \<noteq> []" and utf8: "utf8_valid (username @ '':'' @ sig)"
  defines "seen \<equiv> parse_authorization C (Some (Some (arrived_auth_value C M username sig)))"
    and "name \<equiv> takeWhile (\<lambda>c. c \<noteq> CHR '':'') username"
  shows "(seen = Inr (username, sig) \<longleftrightarrow> username \<noteq> [] \<and> CHR '':'' \<notin> set username) \<and>
    seen = (if name = [] then Inl ''Invalid authorization''
      else Inr (name, if CHR '':'' \<in> set username then drop (length name + 1) username @ '':'' @ sig else sig))"
proof -
  let ?t = "encode_b64 C (as_bytes (username @ '':'' @ sig))"
  have no: "CHR '' '' \<notin> set ?t" using token by (auto simp: printable_def list_all_iff)
  then have "CHR '' '' \<notin> set (rev ?t)" by simp
  note takeWhile_until [OF this]
  then have "after_last_space ?t = ?t" "after_last_space (auth_scheme M @ '' '' @ ?t) = ?t"
    by (simp_all only: after_last_space_def rev_append rev.simps append_Nil append_Cons append.assoc rev_rev_ident)
  moreover have "trim ?t = ?t" using token unfolding printable_def by (rule trim_ascii)
  ultimately have header: "trim (after_last_space (arrived_auth_value C M username sig)) = ?t"
    by (simp add: arrived_auth_value_def Let_def)
  have dec: "decode_b64 C ?t = Inr (as_bytes (username @ '':'' @ sig))" by (rule decode_encode [OF C])
  have "map (\<lambda>b. char_of (unat b)) (as_bytes (username @ '':'' @ sig)) = username @ '':'' @ sig" by (rule char_of_as_bytes)
  with header dec utf8 have "seen = (case split_once (username @ '':'' @ sig) of None \<Rightarrow> Inl ''Invalid authorization''
      | Some (u, x) \<Rightarrow> if u = [] \<or> x = [] then Inl ''Invalid authorization'' else Inr (u, x))"
    by (simp add: seen_def parse_authorization_def Let_def)
  moreover have "drop (length name + 1) username = tl (dropWhile (\<lambda>c. c \<noteq> CHR '':'') username)"
    by (simp add: name_def dropWhile_eq_drop drop_Suc tl_drop)
  ultimately have exact: "seen = (if name = [] then Inl ''Invalid authorization''
      else Inr (name, if CHR '':'' \<in> set username then drop (length name + 1) username @ '':'' @ sig else sig))"
    using sig unfolding split_named name_def [symmetric] by auto
  moreover have "name = username \<longleftrightarrow> CHR '':'' \<notin> set username"
    unfolding name_def takeWhile_eq_all_conv by blast
  ultimately show ?thesis by auto
qed

theorem authorization_roundtrip_witness:
  "parse_authorization demo_crypto (Some (Some (arrived_auth_value demo_crypto default_masking ''alice'' ''c2ln''))) = Inr (''alice'', ''c2ln'') \<and>
   parse_authorization demo_crypto (Some (Some (arrived_auth_value demo_crypto default_masking ''al:ice'' ''c2ln''))) = Inr (''al'', ''ice:c2ln'')"
proof
  show "parse_authorization demo_crypto (Some (Some (arrived_auth_value demo_crypto default_masking ''alice'' ''c2ln''))) =
      Inr (''alice'', ''c2ln'')"
    using authorization_roundtrip [OF demo_crypto_ok, of "''alice''" "''c2ln''" default_masking]
    by (simp add: printable_def utf8_valid_def)
  show "parse_authorization demo_crypto (Some (Some (arrived_auth_value demo_crypto default_masking ''al:ice'' ''c2ln''))) =
      Inr (''al'', ''ice:c2ln'')"
    using authorization_roundtrip [OF demo_crypto_ok, of "''al:ice''" "''c2ln''" default_masking]
    by (simp add: printable_def utf8_valid_def)
qed

end
