(* ===== verification/Nginx_Sync.thy ===== *)
theory Nginx_Sync
  imports Server_State
begin

text \<open>
  The routes that the server writes into the configuration of nginx
  (\<open>ParanoiaServer/src/nginx.rs\<close>): a block between two markers is replaced, the text around it is
  kept. The file system and the shell are a parameter (\<open>host\<close>). \<open>ngx_lex\<close> is the reader of the
  specification: the words and separators that nginx sees in a text.
\<close>

section \<open>The managed block\<close>

definition BEGIN_MARKER :: string where
  "BEGIN_MARKER = ''## >>> PARANOIA AUTOGENERATED ROUTES (managed by paranoia server; do not edit) >>>''"

definition END_MARKER :: string where
  "END_MARKER = ''## <<< PARANOIA AUTOGENERATED ROUTES <<<''"

record ngx_route =
  ngx_path :: string
  exact :: bool

definition safe_path_byte :: "char \<Rightarrow> bool" where
  "safe_path_byte c = (let k = (of_char c :: nat) in
     48 \<le> k \<and> k \<le> 57 \<or> 65 \<le> k \<and> k \<le> 90 \<or> 97 \<le> k \<and> k \<le> 122 \<or> c \<in> set ''/_.-'')"

definition is_safe_path :: "string \<Rightarrow> bool" where
  "is_safe_path s \<longleftrightarrow> prefix ''/'' s \<and> length s \<le> 256 \<and> list_all safe_path_byte s"

abbreviation newline :: string where "newline \<equiv> [CHR 0x0A]"

definition render_route :: "u16 \<Rightarrow> ngx_route \<Rightarrow> string" where
  "render_route p r =
     (if exact r then ''location = '' @ ngx_path r else ''location '' @ ngx_path r) @
     '' {'' @ newline @
     ''    proxy_pass http://127.0.0.1:'' @ show_nat (unat p) @ '';'' @ newline @
     ''    proxy_set_header Host $host;'' @ newline @
     ''    proxy_set_header X-Real-IP $remote_addr;'' @ newline @
     ''    proxy_set_header X-Forwarded-For $proxy_add_x_forwarded_for;'' @ newline @
     ''    proxy_set_header X-Forwarded-Proto https;'' @ newline @
     ''    proxy_http_version 1.1;'' @ newline @
     ''    proxy_buffering off;'' @ newline @
     ''    proxy_ssl_verify off;'' @ newline @ ''}'' @ newline"

definition render_block :: "ngx_route list \<Rightarrow> u16 \<Rightarrow> string" where
  "render_block routes p =
     BEGIN_MARKER @ newline @
     concat (map (\<lambda>r. if \<not> is_safe_path (ngx_path r) then [] else render_route p r) routes) @
     END_MARKER @ newline"

definition strip_newline :: "string \<Rightarrow> string" where
  "strip_newline s = (case s of c # cs \<Rightarrow> if c = CHR 0x0A then cs else s | [] \<Rightarrow> [])"

definition replace_managed_region :: "string \<Rightarrow> string \<Rightarrow> string res" where
  "replace_managed_region existing block =
     (case str_find BEGIN_MARKER existing of
        None \<Rightarrow> Inl ''begin marker not found''
      | Some b \<Rightarrow>
          (case str_find END_MARKER existing of
             None \<Rightarrow> Inl ''end marker not found''
           | Some e \<Rightarrow>
               if e < b then Inl ''end marker precedes begin marker''
               else Inr (take b existing @ block @ strip_newline (drop (e + length END_MARKER) existing))))"

section \<open>Updating the file\<close>

record 'w host =
  read_file :: "string \<Rightarrow> 'w \<Rightarrow> string option"
  write_file :: "string \<Rightarrow> string \<Rightarrow> 'w \<Rightarrow> bool \<times> 'w"
  shell :: "string \<Rightarrow> 'w \<Rightarrow> 'w"

definition ngx_reload :: "'w host \<Rightarrow> string option \<Rightarrow> 'w \<Rightarrow> 'w" where
  "ngx_reload H reload_command w =
     (case reload_command of
        None \<Rightarrow> w
      | Some c \<Rightarrow> if trim c = [] then w else shell H c w)"

definition update :: "'w host \<Rightarrow> string \<Rightarrow> ngx_route list \<Rightarrow> u16 \<Rightarrow> string option \<Rightarrow> 'w \<Rightarrow> 'w" where
  "update H config_path routes p reload_command w =
     (case read_file H config_path w of
        None \<Rightarrow> w
      | Some existing \<Rightarrow>
          (case replace_managed_region existing (render_block routes p) of
             Inl _ \<Rightarrow> w
           | Inr updated \<Rightarrow>
               if updated = existing then w
               else case write_file H config_path updated w of
                      (False, w') \<Rightarrow> w'
                    | (True, w') \<Rightarrow> ngx_reload H reload_command w'))"

section \<open>Where a marker is found\<close>

lemma str_find_iff:
  "str_find pat s = Some i \<longleftrightarrow> i \<le> length s \<and> prefix pat (drop i s) \<and> (\<forall>j < i. \<not> prefix pat (drop j s))"
proof (induction pat s arbitrary: i rule: str_find.induct)
  case (2 pat c cs)
  show ?case
  proof (cases "prefix pat (c # cs)")
    case True
    then show ?thesis by (cases i) auto
  next
    case False
    then show ?thesis using 2 by (cases i) (auto simp: All_less_Suc2)
  qed
qed auto

lemma prefix_drop_common:
  "take n s = take n t \<Longrightarrow> i + length pat \<le> n \<Longrightarrow> prefix pat (drop i s) = prefix pat (drop i t)"
proof -
  assume t: "take n s = take n t" and n: "i + length pat \<le> n"
  have "prefix pat (drop i u) \<longleftrightarrow> take (length pat) (drop i (take n u)) = pat" for u :: "'a list"
    using n by (simp add: prefix_def drop_take min_absorb1) (metis append_eq_conv_conj append_take_drop_id)
  with t show ?thesis by metis
qed

text \<open>The first occurrence depends only on the text up to its end.\<close>

lemma str_find_common:
  assumes "str_find pat s = Some i" and "take (i + length pat) s = take (i + length pat) t"
  shows "str_find pat t = Some i"
proof -
  from assms(1) have s: "i \<le> length s" "prefix pat (drop i s)" "\<forall>j < i. \<not> prefix pat (drop j s)"
    by (simp_all add: str_find_iff)
  then have "i + length pat \<le> length s" by (metis le_add_diff_inverse length_drop nat_add_left_cancel_le prefix_length_le)
  with assms(2) have "i \<le> length t" by (metis add_leD1 length_take min.absorb2 min.cobounded1)
  moreover have "prefix pat (drop j t) = prefix pat (drop j s)" if "j \<le> i" for j
    using prefix_drop_common [OF assms(2), of j pat] that by simp
  ultimately show ?thesis using s by (simp add: str_find_iff)
qed

text \<open>The text between the markers that \<open>render_block\<close> writes has no angle bracket.\<close>

definition block_body :: "ngx_route list \<Rightarrow> u16 \<Rightarrow> string" where
  "block_body routes p = concat (map (\<lambda>r. if \<not> is_safe_path (ngx_path r) then [] else render_route p r) routes)"

lemma render_block_eq: "render_block routes p = BEGIN_MARKER @ newline @ block_body routes p @ END_MARKER @ newline"
  by (simp add: render_block_def block_body_def)

lemma show_nat_digits: "c \<in> set (show_nat n) \<Longrightarrow> 48 \<le> (of_char c :: nat) \<and> (of_char c :: nat) \<le> 57"
proof (induction n rule: show_nat.induct)
  case (1 n)
  then show ?case by (subst (asm) show_nat.simps) (auto split: if_splits)
qed

lemma no_bracket_body: "CHR ''<'' \<notin> set (block_body routes p)"
proof -
  have "CHR ''<'' \<notin> set (show_nat (unat p))" using show_nat_digits by fastforce
  moreover have "is_safe_path s \<Longrightarrow> CHR ''<'' \<notin> set s" for s
    by (auto simp: is_safe_path_def list_all_iff safe_path_byte_def)
  ultimately show ?thesis by (auto simp: block_body_def render_route_def)
qed

lemma no_bracket_begin: "CHR ''<'' \<notin> set (BEGIN_MARKER @ newline)"
  by (simp add: BEGIN_MARKER_def)

lemma length_markers: "length END_MARKER = 40" "length BEGIN_MARKER = 82"
  by (simp_all add: END_MARKER_def BEGIN_MARKER_def)

lemma end_marker_nth: "i < 3 \<Longrightarrow> END_MARKER ! i \<noteq> CHR ''<''" "END_MARKER ! 3 = CHR ''<''"
  by (auto simp: END_MARKER_def less_Suc_eq numeral_eq_Suc)

lemma end_marker_at:
  assumes "prefix END_MARKER (drop i (pre @ END_MARKER @ post))" and "CHR ''<'' \<notin> set pre"
  shows "length pre \<le> i"
proof (rule ccontr)
  assume "\<not> length pre \<le> i"
  then have i: "i + 3 < length pre + 3" by simp
  obtain rest where rest: "drop i (pre @ END_MARKER @ post) = END_MARKER @ rest"
    using assms(1) by (auto simp: prefix_def)
  have "i \<le> length (pre @ END_MARKER @ post)" using i by simp
  then have "(pre @ END_MARKER @ post) ! (i + 3) = (END_MARKER @ rest) ! 3" by (metis nth_drop rest)
  then have "(pre @ END_MARKER @ post) ! (i + 3) = CHR ''<''"
    by (simp only: nth_append length_markers) (simp add: end_marker_nth)
  moreover have "(pre @ END_MARKER @ post) ! (i + 3) \<noteq> CHR ''<''"
  proof (cases "i + 3 < length pre")
    case True
    then have "(pre @ END_MARKER @ post) ! (i + 3) = pre ! (i + 3)" by (simp add: nth_append)
    with True assms(2) show ?thesis by (metis nth_mem)
  next
    case False
    with i have "i + 3 - length pre < 3" by simp
    moreover from this False have "(pre @ END_MARKER @ post) ! (i + 3) = END_MARKER ! (i + 3 - length pre)"
      by (simp add: nth_append length_markers)
    ultimately show ?thesis using end_marker_nth(1) by simp
  qed
  ultimately show False by simp
qed

section \<open>Replacing\<close>

text \<open>What a successful replacement found in the text, and what it made of it.\<close>

lemma replace_Inr:
  assumes "replace_managed_region e block = Inr e1"
  obtains b j where "str_find BEGIN_MARKER e = Some b" "str_find END_MARKER e = Some j" "b \<le> j"
    "e1 = take b e @ block @ strip_newline (drop (j + length END_MARKER) e)"
  using assms by (auto simp: replace_managed_region_def split: option.splits if_splits)

lemma replaced_again:
  assumes "replace_managed_region e (render_block rs p) = Inr e1"
  shows "\<exists>b post. str_find BEGIN_MARKER e1 = Some b \<and>
    str_find END_MARKER e1 = Some (b + length (BEGIN_MARKER @ newline @ block_body rs p)) \<and>
    (\<forall>block. replace_managed_region e block = Inr (take b e1 @ block @ post)) \<and>
    drop (b + length (BEGIN_MARKER @ newline @ block_body rs p) + length END_MARKER) e1 = newline @ post"
proof -
  from assms obtain b j where f: "str_find BEGIN_MARKER e = Some b" "str_find END_MARKER e = Some j" "b \<le> j"
    and e1: "e1 = take b e @ render_block rs p @ strip_newline (drop (j + length END_MARKER) e)"
    by (rule replace_Inr)
  define post where "post = strip_newline (drop (j + length END_MARKER) e)"
  let ?head = "BEGIN_MARKER @ newline @ block_body rs p"
  have e1': "e1 = take b e @ ?head @ END_MARKER @ newline @ post"
    by (simp add: e1 post_def render_block_eq)
  from f(1) have b: "b \<le> length e" "prefix BEGIN_MARKER (drop b e)" by (simp_all add: str_find_iff)
  then have "take (b + length BEGIN_MARKER) e = take b e @ BEGIN_MARKER"
    by (metis append_eq_conv_conj prefix_def take_add)
  moreover have "take (b + length BEGIN_MARKER) e1 = take b e @ BEGIN_MARKER"
    using b by (simp add: e1')
  ultimately have common: "take (b + length BEGIN_MARKER) e = take (b + length BEGIN_MARKER) e1" by simp
  from str_find_common [OF f(1) this] have f1: "str_find BEGIN_MARKER e1 = Some b" .
  have none: "\<not> prefix END_MARKER (drop i e1)" if "i < b" for i
  proof -
    from that f(3) have "i < j" by simp
    with f(2) have "\<not> prefix END_MARKER (drop i e)" by (simp add: str_find_iff)
    moreover have "i + length END_MARKER \<le> b + length BEGIN_MARKER" using that by (simp add: length_markers)
    ultimately show ?thesis using prefix_drop_common [OF common] by blast
  qed
  have "\<not> prefix END_MARKER (drop i e1)" if "i < b + length ?head" for i
  proof (cases "i < b")
    case False
    then obtain k where k: "i = b + k" by (metis le_add_diff_inverse not_le)
    with that have "k < length ?head" by simp
    moreover have "drop i e1 = drop k (?head @ END_MARKER @ newline @ post)"
      using b(1) by (simp add: e1' k)
    ultimately show ?thesis
      using end_marker_at [of k ?head "newline @ post"] no_bracket_begin no_bracket_body [of rs p] by auto
  qed (use none in blast)
  moreover have "drop (b + length ?head) e1 = END_MARKER @ newline @ post" using b(1) by (simp add: e1')
  moreover have "b + length ?head \<le> length e1" using b(1) by (simp add: e1')
  ultimately have "str_find END_MARKER e1 = Some (b + length ?head)" by (simp add: str_find_iff)
  moreover have "take b e1 = take b e" using b(1) by (simp add: e1')
  then have "replace_managed_region e block = Inr (take b e1 @ block @ post)" for block
    using f by (simp add: replace_managed_region_def post_def)
  moreover have "drop (b + length ?head + length END_MARKER) e1 = newline @ post" using b(1) by (simp add: e1')
  ultimately show ?thesis using f1 by blast
qed

text \<open>The last synchronisation decides alone.\<close>

lemma replace_last_wins:
  assumes "replace_managed_region e (render_block rs p) = Inr e1"
  shows "replace_managed_region e1 block = replace_managed_region e block"
proof -
  from replaced_again [OF assms] obtain b post where
    f: "str_find BEGIN_MARKER e1 = Some b"
      "str_find END_MARKER e1 = Some (b + length (BEGIN_MARKER @ newline @ block_body rs p))"
    and r: "replace_managed_region e block = Inr (take b e1 @ block @ post)"
    and d: "drop (b + length (BEGIN_MARKER @ newline @ block_body rs p) + length END_MARKER) e1 = newline @ post"
    by blast
  have "replace_managed_region e1 block = Inr (take b e1 @ block @ strip_newline (newline @ post))"
    unfolding replace_managed_region_def f option.case d by simp
  then show ?thesis by (simp add: r strip_newline_def)
qed

lemma begin_then_end:
  assumes "prefix BEGIN_MARKER (drop b s)" and "prefix END_MARKER (drop j s)" and "b \<le> j"
  shows "b + length BEGIN_MARKER \<le> j"
proof (rule ccontr)
  assume no: "\<not> b + length BEGIN_MARKER \<le> j"
  from assms(1) obtain x where x: "drop b s = BEGIN_MARKER @ x" by (auto simp: prefix_def)
  from assms(2) obtain y where y: "drop j s = END_MARKER @ y" by (auto simp: prefix_def)
  obtain k where k: "j = b + k" using assms(3) by (auto simp: le_iff_add)
  with no have k82: "k < 82" by (simp add: length_markers)
  have eq: "drop k (BEGIN_MARKER @ x) = END_MARKER @ y" using x y k by (metis add.commute drop_drop)
  then have nth: "(BEGIN_MARKER @ x) ! (k + i) = (END_MARKER @ y) ! i" for i
    using k82 by (metis length_append length_markers(2) less_imp_le nth_drop trans_le_add1)
  show False
  proof (cases "k + 3 < 82")
    case True
    then have "(BEGIN_MARKER @ x) ! (k + 3) \<in> set BEGIN_MARKER"
      by (simp add: nth_append length_markers nth_mem)
    moreover have "(END_MARKER @ y) ! 3 = CHR ''<''"
      by (simp only: nth_append length_markers) (simp add: end_marker_nth)
    ultimately show False using no_bracket_begin nth [of 3] by simp
  next
    case False
    with k82 have "k = 79 \<or> k = 80 \<or> k = 81" by auto
    then have "(BEGIN_MARKER @ x) ! (k + 0) = CHR ''>''" by (auto simp: BEGIN_MARKER_def)
    moreover have "(END_MARKER @ y) ! 0 = CHR ''#''" by (simp add: END_MARKER_def)
    ultimately show False using nth [of 0] by simp
  qed
qed

lemma replace_outside:
  assumes "replace_managed_region e block = Inr e1"
  shows "\<exists>pre old post. e = pre @ BEGIN_MARKER @ old @ END_MARKER @ post \<and> e1 = pre @ block @ strip_newline post"
proof -
  from assms obtain b j where f: "str_find BEGIN_MARKER e = Some b" "str_find END_MARKER e = Some j" "b \<le> j"
    and e1: "e1 = take b e @ block @ strip_newline (drop (j + length END_MARKER) e)"
    by (rule replace_Inr)
  from f have p: "prefix BEGIN_MARKER (drop b e)" "prefix END_MARKER (drop j e)" by (simp_all add: str_find_iff)
  from begin_then_end [OF this f(3)] obtain k where k: "j = b + length BEGIN_MARKER + k" by (auto simp: le_iff_add)
  define rest where "rest = drop (b + length BEGIN_MARKER) e"
  from p(1) have b: "drop b e = BEGIN_MARKER @ rest"
    unfolding rest_def by (metis add.commute append_eq_conv_conj drop_drop prefix_def)
  have "drop j e = drop k rest" by (simp add: k rest_def add.commute)
  with p(2) have "drop k rest = END_MARKER @ drop (j + length END_MARKER) e"
    by (metis add.commute append_eq_conv_conj drop_drop prefix_def)
  then have "e = take b e @ BEGIN_MARKER @ take k rest @ END_MARKER @ drop (j + length END_MARKER) e"
    by (metis append_take_drop_id b)
  with e1 show ?thesis by blast
qed

section \<open>What nginx reads\<close>

text \<open>
  Words, semicolons and braces; white space separates, a hash sign at the start of a word begins a
  comment that ends with the line. Quotes and backslashes, which change the meaning of what
  follows, are tokens of their own.
\<close>

datatype ngx_token = Ngx_Word string | Ngx_Semi | Ngx_Open | Ngx_Close | Ngx_Quote

definition ngx_flush :: "string \<Rightarrow> ngx_token list" where
  "ngx_flush w = (if w = [] then [] else [Ngx_Word w])"

fun ngx_lex :: "bool \<Rightarrow> string \<Rightarrow> string \<Rightarrow> ngx_token list" where
  "ngx_lex comment w [] = ngx_flush w"
| "ngx_lex comment w (c # cs) =
     (if comment then ngx_lex (c \<noteq> CHR 0x0A) [] cs
      else if c \<in> {CHR '' '', CHR 0x09, CHR 0x0A, CHR 0x0D} then ngx_flush w @ ngx_lex False [] cs
      else if c = CHR '';'' then ngx_flush w @ Ngx_Semi # ngx_lex False [] cs
      else if c = CHR ''{'' then ngx_flush w @ Ngx_Open # ngx_lex False [] cs
      else if c = CHR ''}'' then ngx_flush w @ Ngx_Close # ngx_lex False [] cs
      else if c \<in> {CHR 0x22, CHR 0x27, CHR 0x5C} then ngx_flush w @ Ngx_Quote # ngx_lex False [] cs
      else if c = CHR ''#'' \<and> w = [] then ngx_lex True [] cs
      else ngx_lex False (w @ [c]) cs)"

text \<open>The directives of one route.\<close>

definition route_tokens :: "u16 \<Rightarrow> ngx_route \<Rightarrow> ngx_token list" where
  "route_tokens p r =
     [Ngx_Word ''location''] @ (if exact r then [Ngx_Word ''='', Ngx_Word (ngx_path r)] else [Ngx_Word (ngx_path r)]) @
     [Ngx_Open,
      Ngx_Word ''proxy_pass'', Ngx_Word (''http://127.0.0.1:'' @ show_nat (unat p)), Ngx_Semi,
      Ngx_Word ''proxy_set_header'', Ngx_Word ''Host'', Ngx_Word ''$host'', Ngx_Semi,
      Ngx_Word ''proxy_set_header'', Ngx_Word ''X-Real-IP'', Ngx_Word ''$remote_addr'', Ngx_Semi,
      Ngx_Word ''proxy_set_header'', Ngx_Word ''X-Forwarded-For'', Ngx_Word ''$proxy_add_x_forwarded_for'', Ngx_Semi,
      Ngx_Word ''proxy_set_header'', Ngx_Word ''X-Forwarded-Proto'', Ngx_Word ''https'', Ngx_Semi,
      Ngx_Word ''proxy_http_version'', Ngx_Word ''1.1'', Ngx_Semi,
      Ngx_Word ''proxy_buffering'', Ngx_Word ''off'', Ngx_Semi,
      Ngx_Word ''proxy_ssl_verify'', Ngx_Word ''off'', Ngx_Semi, Ngx_Close]"

definition ngx_plain :: "char \<Rightarrow> bool" where
  "ngx_plain c \<longleftrightarrow> c \<notin> set '' ;{}#'' \<union> {CHR 0x09, CHR 0x0A, CHR 0x0D, CHR 0x22, CHR 0x27, CHR 0x5C}"

lemma ngx_lex_plain: "list_all ngx_plain u \<Longrightarrow> ngx_lex False w (u @ s) = ngx_lex False (w @ u) s"
  by (induction u arbitrary: w) (auto simp: ngx_plain_def)

lemma ngx_lex_comment: "CHR 0x0A \<notin> set u \<Longrightarrow> ngx_lex True [] (u @ CHR 0x0A # s) = ngx_lex False [] s"
  by (induction u) auto

lemma safe_path_plain: "is_safe_path s \<Longrightarrow> s \<noteq> [] \<and> list_all ngx_plain s"
  by (auto simp: is_safe_path_def list_all_iff safe_path_byte_def ngx_plain_def)

lemma show_nat_plain: "list_all ngx_plain (show_nat n)"
  using show_nat_digits [of _ n] by (fastforce simp: list_all_iff ngx_plain_def)

lemma markers_lex:
  "ngx_lex False [] (BEGIN_MARKER @ newline @ s) = ngx_lex False [] s"
  "ngx_lex False [] (END_MARKER @ newline) = []"
  using ngx_lex_comment [of "tl BEGIN_MARKER" s] ngx_lex_comment [of "tl END_MARKER" "[]"]
  by (simp_all add: BEGIN_MARKER_def END_MARKER_def ngx_flush_def)

lemma route_lex:
  assumes "is_safe_path (ngx_path r)"
  shows "ngx_lex False [] (render_route p r @ s) = route_tokens p r @ ngx_lex False [] s"
  using safe_path_plain [OF assms] show_nat_plain [of "unat p"]
  by (simp add: render_route_def route_tokens_def ngx_lex_plain ngx_flush_def)

lemma body_lex: "ngx_lex False [] (block_body rs p @ s) =
    concat (map (route_tokens p) (filter (\<lambda>r. is_safe_path (ngx_path r)) rs)) @ ngx_lex False [] s"
  by (induction rs) (simp_all add: block_body_def route_lex)

text \<open>
  C26. Only routes reach nginx: whatever the paths of a profile are, the directives in the managed
  block are one location, with the fixed directives of the proxy inside, for each route whose path
  is safe, and nothing else.
\<close>

theorem only_routes_reach_nginx:
  "ngx_lex False [] (render_block rs p) = concat (map (route_tokens p) (filter (\<lambda>r. is_safe_path (ngx_path r)) rs))"
  unfolding render_block_eq by (simp only: markers_lex body_lex append_Nil2)

text \<open>
  The law of the host: the file can be written and reads back, and the reload command leaves it.
\<close>

definition host_ok :: "'w host \<Rightarrow> string \<Rightarrow> bool" where
  "host_ok H file \<longleftrightarrow> (\<forall>s w. fst (write_file H file s w) \<and> read_file H file (snd (write_file H file s w)) = Some s) \<and>
     (\<forall>c w. read_file H file (shell H c w) = read_file H file w)"

lemma read_update:
  assumes "host_ok H file" and "read_file H file w = Some e" and "replace_managed_region e (render_block rs p) = Inr e1"
  shows "read_file H file (update H file rs p cmd w) = Some e1"
proof (cases "e1 = e")
  case False
  obtain w1 where w1: "write_file H file e1 w = (True, w1)" "read_file H file w1 = Some e1"
    using assms(1) unfolding host_ok_def by (metis (full_types) prod.collapse)
  then have "read_file H file (ngx_reload H cmd w1) = Some e1"
    using assms(1) by (auto simp: ngx_reload_def host_ok_def split: option.splits)
  with False assms w1 show ?thesis by (simp add: update_def)
qed (use assms in \<open>simp add: update_def\<close>)

text \<open>
  Of several synchronisations of a file that can be written, the last one decides alone: the
  file then holds the text around the managed region as it was at first, with the last block between,
  and starting the server again with the same routes neither writes nor reloads.
\<close>

lemma nginx_last_sync_wins:
  assumes "host_ok H file" and "read_file H file w = Some e"
    and "replace_managed_region e (render_block rs p) = Inr e1"
  shows "\<exists>pre old post. e = pre @ BEGIN_MARKER @ old @ END_MARKER @ post \<and>
      read_file H file (update H file rs' p' cmd' (update H file rs p cmd w)) =
        Some (pre @ render_block rs' p' @ strip_newline post) \<and>
      update H file rs p cmd (update H file rs p cmd w) = update H file rs p cmd w"
proof -
  obtain e2 where e2: "replace_managed_region e (render_block rs' p') = Inr e2"
    using replaced_again [OF assms(3)] by blast
  from replace_outside [OF e2] obtain pre old post
    where out: "e = pre @ BEGIN_MARKER @ old @ END_MARKER @ post" "e2 = pre @ render_block rs' p' @ strip_newline post"
    by blast
  have r1: "read_file H file (update H file rs p cmd w) = Some e1" by (rule read_update [OF assms])
  have r2: "replace_managed_region e1 (render_block rs' p') = Inr e2"
    using replace_last_wins [OF assms(3)] e2 by simp
  have "replace_managed_region e1 (render_block rs p) = Inr e1" using replace_last_wins [OF assms(3)] assms(3) by simp
  then have "update H file rs p cmd (update H file rs p cmd w) = update H file rs p cmd w"
    using r1 by (simp add: update_def)
  with out read_update [OF assms(1) r1 r2] show ?thesis by blast
qed

definition one_file :: "string host" where
  "one_file = \<lparr>read_file = (\<lambda>_ w. Some w), write_file = (\<lambda>_ s w. (True, s)), shell = (\<lambda>_ w. w)\<rparr>"

lemma nginx_last_sync_wins_example:
  "\<exists>pre post. read_file one_file ''nginx.conf'' (update one_file ''nginx.conf'' [] 81 None
      (update one_file ''nginx.conf'' [\<lparr>ngx_path = ''/push'', exact = True\<rparr>] 80 (Some ''nginx -s reload'')
        (''server {'' @ BEGIN_MARKER @ END_MARKER @ ''}''))) = Some (pre @ render_block [] 81 @ post)"
proof -
  let ?e = "''server {'' @ BEGIN_MARKER @ END_MARKER @ ''}''"
  have b: "str_find BEGIN_MARKER ?e = Some 8" and j: "str_find END_MARKER ?e = Some 90"
    by (simp_all add: BEGIN_MARKER_def END_MARKER_def)
  have "replace_managed_region ?e (render_block [\<lparr>ngx_path = ''/push'', exact = True\<rparr>] 80) =
      Inr (''server {'' @ render_block [\<lparr>ngx_path = ''/push'', exact = True\<rparr>] 80 @ ''}'')"
    unfolding replace_managed_region_def b j option.case
    by (simp add: length_markers strip_newline_def BEGIN_MARKER_def END_MARKER_def)
  moreover have "host_ok one_file ''nginx.conf''" "read_file one_file ''nginx.conf'' ?e = Some ?e"
    by (simp_all add: host_ok_def one_file_def)
  ultimately show ?thesis
    using nginx_last_sync_wins [of one_file "''nginx.conf''" ?e ?e "[\<lparr>ngx_path = ''/push'', exact = True\<rparr>]" 80 _
        "[]" 81 None "Some ''nginx -s reload''"] by blast
qed

end
