(* ===== verification/Server_Main.thy ===== *)
theory Server_Main
  imports Nginx_Sync Cover_Schema Cover_Food Demo_Server
begin

text \<open>
  What \<open>main\<close> of the server decides from its configuration (\<open>ParanoiaServer/src/main.rs\<close>): the
  arguments of the STUN/TURN listener, the masking profile and the cover, the routing table, and the
  routes that are handed to nginx. Reading files and parsing socket addresses are parameters;
  \<open>axum\<close> gets the routing table as it is listed here.
\<close>

section \<open>Methods and paths\<close>

datatype http_method = M_Put | M_Post | M_Patch | M_Delete | M_Get

definition ascii_upper :: "char \<Rightarrow> char" where
  "ascii_upper c = (let k = (of_char c :: nat) in if 97 \<le> k \<and> k \<le> 122 then char_of (k - 32) else c)"

definition method_filter :: "string \<Rightarrow> http_method" where
  "method_filter m =
     (let u = map ascii_upper m
      in if u = ''POST'' then M_Post else if u = ''PATCH'' then M_Patch else if u = ''DELETE'' then M_Delete
         else if u = ''GET'' then M_Get else M_Put)"

definition server_route :: "masking_profile option \<Rightarrow> string \<Rightarrow> string \<Rightarrow> string \<times> http_method" where
  "server_route profile kind default_path =
     (case (case profile of None \<Rightarrow> None | Some p \<Rightarrow> map_of (kinds p) kind) of
        Some spec \<Rightarrow> (spec_path spec, method_filter (spec_method spec))
      | None \<Rightarrow> (default_path, M_Put))"

section \<open>The STUN/TURN listener\<close>

definition parse_u16 :: "string \<Rightarrow> u16 option" where
  "parse_u16 s = (case parse_u64 s of None \<Rightarrow> None | Some n \<Rightarrow> if n < 65536 then Some (ucast n) else None)"

definition non_blank :: "string option \<Rightarrow> string option" where
  "non_blank s = (case s of None \<Rightarrow> None | Some t \<Rightarrow> if trim t = [] then None else Some t)"

definition relay_ports :: "string option \<Rightarrow> (u16 \<times> u16) option" where
  "relay_ports setting =
     (case non_blank setting of
        None \<Rightarrow> None
      | Some s \<Rightarrow>
          (case split_on CHR ''-'' s of
             [a, b] \<Rightarrow>
               (case (parse_u16 (trim a), parse_u16 (trim b)) of
                  (Some start, Some stop) \<Rightarrow> if 0 < start \<and> start \<le> stop then Some (start, stop) else None
                | _ \<Rightarrow> None)
           | _ \<Rightarrow> None))"

definition public_ip :: "(string \<Rightarrow> 'ip option) \<Rightarrow> string option \<Rightarrow> 'ip option" where
  "public_ip parse_ip setting = (case non_blank setting of None \<Rightarrow> None | Some s \<Rightarrow> parse_ip s)"

text \<open>The arguments of \<open>voip_stun::run\<close>; \<open>None\<close>: no listener is started.\<close>

definition stun_listener :: "(string \<Rightarrow> 'addr option) \<Rightarrow> (string \<Rightarrow> 'ip option) \<Rightarrow> server_config \<Rightarrow>
    ('addr \<times> 'ip option \<times> (u16 \<times> u16) option) option" where
  "stun_listener parse_addr parse_ip cfg =
     (case stun_bind cfg of
        None \<Rightarrow> None
      | Some s \<Rightarrow>
          (case parse_addr s of
             None \<Rightarrow> None
           | Some bind \<Rightarrow> Some (bind, public_ip parse_ip (turn_public_ip cfg), relay_ports (turn_relay_port_range cfg))))"

section \<open>Profile and cover\<close>

text \<open>A path that is set must lead to a valid profile, or the server does not start.\<close>

definition load_profile :: "crypto_env \<Rightarrow> (string \<Rightarrow> masking_profile res) \<Rightarrow> (string \<Rightarrow> string res) \<Rightarrow> server_config \<Rightarrow>
    masking_profile option res" where
  "load_profile C parse read_to_string cfg =
     (case non_blank (masking_profile_path cfg) of
        None \<Rightarrow> Inr None
      | Some path \<Rightarrow>
          try_then (with_context (''cannot read masking profile: '' @ path) (read_to_string path)) (\<lambda>raw.
          try_then (with_context ''invalid masking profile'' (profile_from_json C parse raw)) (\<lambda>p. Inr (Some p))))"

section \<open>The routing table\<close>

datatype handler =
  H_Reg | H_Push | H_Pull | H_Map | H_Notify | H_Determinate | H_Arrived_Get | H_Arrived_Put
| H_Call_Signal | H_Call_Poll | H_Blob
| H_Users_List | H_Users_Delete | H_Dialogues_List | H_Dialogues_Prune | H_Config_Get | H_Config_Set
| H_Admin_Gateway | H_Reg_Gateway | H_Blob_Gateway

type_synonym app_route = "(string \<times> http_method) \<times> handler"

definition admin_router :: "app_route list" where
  "admin_router =
     [((''/admin/users/list'', M_Put), H_Users_List), ((''/admin/users/delete'', M_Put), H_Users_Delete),
      ((''/admin/dialogues/list'', M_Put), H_Dialogues_List), ((''/admin/dialogues/prune'', M_Put), H_Dialogues_Prune),
      ((''/admin/config/get'', M_Put), H_Config_Get), ((''/admin/config/set'', M_Put), H_Config_Set)]"

definition gateway_route :: "masking_profile option \<Rightarrow> string \<Rightarrow> handler \<Rightarrow> app_route list" where
  "gateway_route profile kind h =
     (case (case profile of None \<Rightarrow> None | Some p \<Rightarrow> map_of (kinds p) kind) of
        None \<Rightarrow> []
      | Some spec \<Rightarrow> [((spec_path spec, method_filter (spec_method spec)), h)])"

definition app_routes :: "masking_profile option \<Rightarrow> app_route list" where
  "app_routes profile =
     [((''/reg'', M_Put), H_Reg),
      (server_route profile ''push'' ''/push'', H_Push),
      (server_route profile ''pull'' ''/pull'', H_Pull),
      (server_route profile ''map'' ''/map'', H_Map),
      (server_route profile ''notify'' ''/notify'', H_Notify),
      (server_route profile ''determinate'' ''/determinate'', H_Determinate),
      ((''/arrived'', M_Get), H_Arrived_Get), ((''/arrived'', M_Put), H_Arrived_Put),
      (server_route profile ''call_signal'' ''/call/signal'', H_Call_Signal),
      (server_route profile ''call_poll'' ''/call/poll'', H_Call_Poll),
      ((''/blob'', M_Put), H_Blob)] @ admin_router @
     gateway_route profile ''admin'' H_Admin_Gateway @ gateway_route profile ''reg'' H_Reg_Gateway @
     gateway_route profile ''blob'' H_Blob_Gateway"

definition main_ngx_routes :: "masking_profile option \<Rightarrow> ngx_route list" where
  "main_ngx_routes profile =
     map (\<lambda>(p, e). \<lparr>ngx_path = p, exact = e\<rparr>)
       [(''/reg'', True), (fst (server_route profile ''push'' ''/push''), True),
        (fst (server_route profile ''pull'' ''/pull''), True), (fst (server_route profile ''map'' ''/map''), True),
        (fst (server_route profile ''notify'' ''/notify''), True),
        (fst (server_route profile ''determinate'' ''/determinate''), True), (''/arrived'', True),
        (fst (server_route profile ''call_signal'' ''/call/signal''), True),
        (fst (server_route profile ''call_poll'' ''/call/poll''), True), (''/blob'', True), (''/admin/'', False)]"

definition sync_nginx :: "'w host \<Rightarrow> server_config \<Rightarrow> masking_profile option \<Rightarrow> 'w \<Rightarrow> 'w" where
  "sync_nginx H cfg profile w =
     (case non_blank (nginx_config_path cfg) of
        None \<Rightarrow> w
      | Some file \<Rightarrow> update H file (main_ngx_routes profile) (port cfg) (nginx_reload_command cfg) w)"

section \<open>Port ranges\<close>

lemma parse_digits_show_nat: "parse_digits 0 (show_nat n) = Some n"
proof (induction n rule: show_nat.induct)
  case (1 n)
  show ?case
  proof (cases "n < 10")
    case True
    then show ?thesis by (subst show_nat.simps) simp
  next
    case False
    with 1 have "parse_digits 0 (show_nat (n div 10)) = Some (n div 10)" by simp
    with False show ?thesis by (subst show_nat.simps) (simp add: parse_digits_append)
  qed
qed

lemma show_nat_not_empty: "show_nat n \<noteq> []"
  by (subst show_nat.simps) simp

lemma parse_u64_show_nat [simp]: "parse_u64 (show_nat (unat k)) = Some k" for k :: u64
proof -
  obtain c cs where c: "show_nat (unat k) = c # cs" using show_nat_not_empty by (meson list.exhaust)
  with show_nat_digits [of c "unat k"] have "c \<noteq> CHR ''+''" by auto
  with c have "(case show_nat (unat k) of [] \<Rightarrow> [] | c # cs \<Rightarrow> if c = CHR ''+'' then cs else show_nat (unat k)) = show_nat (unat k)"
    by simp
  moreover have "unat k < 2 ^ 64" using unsigned_less [where w = k and ?'a = nat] by simp
  ultimately show ?thesis
    using show_nat_not_empty [of "unat k"] by (simp only: parse_u64_def Let_def parse_digits_show_nat) simp
qed

lemma parse_u16_show_nat [simp]: "parse_u16 (show_nat (unat k)) = Some k" for k :: u16
proof -
  have up: "unat (ucast k :: u64) = unat k" and down: "(ucast (ucast k :: u64) :: u16) = k"
    by (rule small_word_up; simp)+
  have "unat k < 65536" using unsigned_less [where w = k and ?'a = nat] by simp
  then have "(ucast k :: u64) < 65536" by (simp add: word_less_nat_alt up)
  with parse_u64_show_nat [of "ucast k"] show ?thesis by (simp add: parse_u16_def up down)
qed

lemma show_nat_trim [simp]: "trim (show_nat n) = show_nat n"
proof (rule trim_ascii)
  show "list_all (\<lambda>c. 33 \<le> (of_char c :: nat) \<and> (of_char c :: nat) \<le> 127) (show_nat n)"
    unfolding list_all_iff using show_nat_digits [of _ n] by fastforce
qed

lemma split_on_last: "d \<notin> set s \<Longrightarrow> split_on d s = [s]"
  by (induction s) auto

lemma split_on_joined: "d \<notin> set s \<Longrightarrow> split_on d (s @ d # t) = s # split_on d t"
  by (induction s) auto

lemma relay_ports_shown:
  "relay_ports (Some (show_nat (unat a) @ ''-'' @ show_nat (unat b))) = (if 0 < a \<and> a \<le> b then Some (a, b) else None)"
proof -
  have d: "CHR ''-'' \<notin> set (show_nat n)" for n using show_nat_digits by fastforce
  let ?s = "show_nat (unat a) @ CHR ''-'' # show_nat (unat b)"
  have "list_all (\<lambda>c. 33 \<le> (of_char c :: nat) \<and> (of_char c :: nat) \<le> 127) ?s"
    unfolding list_all_iff using show_nat_digits [of _ "unat a"] show_nat_digits [of _ "unat b"] by fastforce
  from trim_ascii [OF this] have "non_blank (Some ?s) = Some ?s" by (simp add: non_blank_def)
  moreover have "split_on CHR ''-'' ?s = [show_nat (unat a), show_nat (unat b)]"
    by (simp add: split_on_joined split_on_last d)
  ultimately show ?thesis by (simp add: relay_ports_def)
qed

lemma relay_ports_ordered: "relay_ports s = Some (a, b) \<Longrightarrow> 0 < a \<and> a \<le> b"
  by (auto simp: relay_ports_def split: option.splits list.splits if_splits)

section \<open>Client and server routes\<close>

definition method_name :: "http_method \<Rightarrow> string" where
  "method_name m = (case m of M_Put \<Rightarrow> ''PUT'' | M_Post \<Rightarrow> ''POST'' | M_Patch \<Rightarrow> ''PATCH'' | M_Delete \<Rightarrow> ''DELETE'' | M_Get \<Rightarrow> ''GET'')"

text \<open>The covered kinds with their default paths and handlers.\<close>

definition covered_kinds :: "(string \<times> string \<times> handler) list" where
  "covered_kinds = [(''push'', ''/push'', H_Push), (''pull'', ''/pull'', H_Pull), (''map'', ''/map'', H_Map),
     (''notify'', ''/notify'', H_Notify), (''determinate'', ''/determinate'', H_Determinate),
     (''call_signal'', ''/call/signal'', H_Call_Signal), (''call_poll'', ''/call/poll'', H_Call_Poll)]"

lemma covered_in_app_routes:
  "(k, d, h) \<in> set covered_kinds \<Longrightarrow> (server_route profile k d, h) \<in> set (app_routes profile)"
  by (auto simp: covered_kinds_def app_routes_def)

lemma covered_in_ngx_routes:
  "(k, d, h) \<in> set covered_kinds \<Longrightarrow> \<lparr>ngx_path = fst (server_route profile k d), exact = True\<rparr> \<in> set (main_ngx_routes profile)"
  by (auto simp: covered_kinds_def main_ngx_routes_def)

lemma method_name_upper: "map ascii_upper (method_name m) = method_name m"
  by (cases m) (simp_all add: method_name_def ascii_upper_def)

lemma method_served: "method_name (method_filter m) = m \<longleftrightarrow> m \<in> {''PUT'', ''POST'', ''PATCH'', ''DELETE'', ''GET''}"
proof
  assume "method_name (method_filter m) = m"
  then show "m \<in> {''PUT'', ''POST'', ''PATCH'', ''DELETE'', ''GET''}"
    by (cases "method_filter m") (auto simp: method_name_def)
next
  assume "m \<in> {''PUT'', ''POST'', ''PATCH'', ''DELETE'', ''GET''}"
  then show "method_name (method_filter m) = m"
    by (auto simp: method_filter_def method_name_def ascii_upper_def Let_def)
qed

section \<open>What nginx forwards\<close>

definition ngx_matches :: "ngx_route \<Rightarrow> string \<Rightarrow> bool" where
  "ngx_matches r x = (if exact r then x = ngx_path r else prefix (ngx_path r) x)"

definition forwarded :: "masking_profile option \<Rightarrow> string \<Rightarrow> bool" where
  "forwarded profile x \<longleftrightarrow> (\<exists>r \<in> set (main_ngx_routes profile). is_safe_path (ngx_path r) \<and> ngx_matches r x)"

definition gateway :: "handler \<Rightarrow> bool" where
  "gateway h \<longleftrightarrow> h \<in> {H_Admin_Gateway, H_Reg_Gateway, H_Blob_Gateway}"

lemma gateway_routes: "e \<in> set (gateway_route profile k h) \<Longrightarrow> snd e = h"
  by (auto simp: gateway_route_def split: option.splits)

definition covered_route :: "masking_profile option \<Rightarrow> string \<times> string \<times> handler \<Rightarrow> app_route" where
  "covered_route profile = (\<lambda>(k, d, h). (server_route profile k d, h))"

definition fixed_routes :: "app_route list" where
  "fixed_routes = [((''/reg'', M_Put), H_Reg), ((''/arrived'', M_Get), H_Arrived_Get), ((''/arrived'', M_Put), H_Arrived_Put),
     ((''/blob'', M_Put), H_Blob)] @ admin_router"

lemma app_routes_set:
  "e \<in> set (app_routes profile) \<longleftrightarrow> e \<in> set fixed_routes \<or> e \<in> covered_route profile ` set covered_kinds \<or>
     e \<in> set (gateway_route profile ''admin'' H_Admin_Gateway @ gateway_route profile ''reg'' H_Reg_Gateway @
       gateway_route profile ''blob'' H_Blob_Gateway)"
  unfolding app_routes_def fixed_routes_def covered_kinds_def list.set set_append image_insert image_empty covered_route_def
    prod.case
  by (simp only: Un_iff insert_iff empty_iff simp_thms disj_ac)

lemma fixed_paths: "e \<in> set fixed_routes \<Longrightarrow> fst (fst e) \<in> {''/reg'', ''/arrived'', ''/blob''} \<or> prefix ''/admin/'' (fst (fst e))"
  by (auto simp: fixed_routes_def admin_router_def)

lemma app_route_cases:
  assumes "((x, m), h) \<in> set (app_routes profile)" and "\<not> gateway h"
  obtains "x \<in> {''/reg'', ''/arrived'', ''/blob''} \<or> prefix ''/admin/'' x"
    | k d where "(k, d, h) \<in> set covered_kinds" "(x, m) = server_route profile k d"
proof -
  have "((x, m), h) \<notin> set (gateway_route profile ''admin'' H_Admin_Gateway @ gateway_route profile ''reg'' H_Reg_Gateway @
      gateway_route profile ''blob'' H_Blob_Gateway)"
    using assms(2) gateway_routes [of "((x, m), h)" profile] by (auto simp: gateway_def)
  with assms(1) consider "((x, m), h) \<in> set fixed_routes" | "((x, m), h) \<in> covered_route profile ` set covered_kinds"
    unfolding app_routes_set by blast
  then show ?thesis
  proof cases
    case 1
    from fixed_paths [OF this] that(1) show ?thesis unfolding fst_conv by blast
  next
    case 2
    with that(2) show ?thesis by (auto simp: covered_route_def)
  qed
qed

text \<open>
  Every route of the server other than the gateways is forwarded by the block that is written
  for nginx, when its path is safe.
\<close>

lemma nginx_forwards:
  assumes "((x, m), h) \<in> set (app_routes profile)" and "\<not> gateway h" and "is_safe_path x"
  shows "forwarded profile x"
proof -
  have fixed: "forwarded profile x" if "x \<in> {''/reg'', ''/arrived'', ''/blob''} \<or> prefix ''/admin/'' x"
  proof -
    have "is_safe_path ''/reg''" "is_safe_path ''/arrived''" "is_safe_path ''/blob''" "is_safe_path ''/admin/''"
      by (simp_all add: is_safe_path_def safe_path_byte_def)
    with that show ?thesis by (auto simp: forwarded_def main_ngx_routes_def ngx_matches_def)
  qed
  consider "x \<in> {''/reg'', ''/arrived'', ''/blob''} \<or> prefix ''/admin/'' x"
    | k d where "(k, d, h) \<in> set covered_kinds" "(x, m) = server_route profile k d"
    using assms(1,2)
    by (rule app_route_cases)
  then show ?thesis
  proof cases
    case 2
    then have "\<lparr>ngx_path = x, exact = True\<rparr> \<in> set (main_ngx_routes profile)"
      using covered_in_ngx_routes [OF 2(1), of profile] by (metis fst_conv)
    with assms(3) show ?thesis unfolding forwarded_def by (intro bexI) (simp_all add: ngx_matches_def)
  qed (rule fixed)
qed

lemma nginx_forwards_example: "forwarded None ''/admin/users/list''"
  by (rule nginx_forwards [where m = M_Put and h = H_Users_List])
    (simp_all add: app_routes_def admin_router_def gateway_def is_safe_path_def safe_path_byte_def)

section \<open>Profiles that are accepted and do not work\<close>

definition one_variant :: schema_variant where
  "one_variant = \<lparr>template = J_Obj [], carriers = [''a''], optional = [], json_schema = None\<rparr>"

definition profile_of :: "(string \<times> string \<times> string) list \<Rightarrow> masking_profile" where
  "profile_of ks = \<lparr>profile_name = ''demo'', version = 1, cover_key_b64 = alice_key,
     kinds = map (\<lambda>(k, p, m). (k, \<lparr>spec_path = p, spec_method = m, schemas = [one_variant]\<rparr>)) ks,
     user_agents = [], headers = [], cache_control = None\<rparr>"

lemma profile_of_valid: "ks \<noteq> [] \<Longrightarrow> list_all (\<lambda>(k, p, m). prefix ''/'' p) ks \<Longrightarrow> validate demo_crypto (profile_of ks) = Inr ()"
proof -
  assume ks: "ks \<noteq> []" "list_all (\<lambda>(k, p, m). prefix ''/'' p) ks"
  have "cover_key demo_crypto (profile_of ks) = Inr (as_bytes alice_key)"
    by (simp add: cover_key_def profile_of_def COVER_KEY_LEN_def alice_key_def)
  moreover have "trim ''demo'' = ''demo''" by (rule trim_ascii) simp
  moreover have "validate_kinds (kinds (profile_of ks)) = Inr ()"
    using ks(2) by (simp add: profile_of_def) (induction ks, auto simp: one_variant_def MAX_SCHEMAS_PER_KIND_def)
  ultimately show ?thesis using ks(1) by (simp add: validate_def) (simp add: profile_of_def)
qed

lemma profile_of_kinds: "kinds (profile_of ks) = map (\<lambda>(k, p, m). (k, \<lparr>spec_path = p, spec_method = m, schemas = [one_variant]\<rparr>)) ks"
  by (simp add: profile_of_def)

lemma method_filter_examples: "method_filter ''POST'' = M_Post" "method_filter ''Head'' = M_Put"
  by (simp_all add: method_filter_def ascii_upper_def)

lemma blob_unserved:
  "let P = profile_of [(''blob'', ''/files'', ''POST'')] in
     validate demo_crypto P = Inr () \<and> ((''/files'', M_Post), H_Blob_Gateway) \<in> set (app_routes (Some P)) \<and>
     \<not> forwarded (Some P) ''/files''"
proof -
  let ?P = "profile_of [(''blob'', ''/files'', ''POST'')]"
  have "validate demo_crypto ?P = Inr ()" by (rule profile_of_valid) simp_all
  moreover have "\<not> forwarded (Some ?P) ''/files''"
    by (simp add: forwarded_def main_ngx_routes_def server_route_def profile_of_kinds ngx_matches_def)
  moreover have "((''/files'', M_Post), H_Blob_Gateway) \<in> set (gateway_route (Some ?P) ''blob'' H_Blob_Gateway)"
    by (simp add: gateway_route_def profile_of_kinds method_filter_examples)
  then have "((''/files'', M_Post), H_Blob_Gateway) \<in> set (app_routes (Some ?P))"
    unfolding app_routes_def set_append by blast
  ultimately show ?thesis unfolding Let_def by blast
qed

lemma clash_unserved:
  "let P = profile_of [(''push'', ''/api'', ''POST''), (''pull'', ''/api'', ''POST'')] in
     validate demo_crypto P = Inr () \<and> \<not> distinct (map fst (app_routes (Some P)))"
proof -
  let ?P = "profile_of [(''push'', ''/api'', ''POST''), (''pull'', ''/api'', ''POST'')]"
  have "validate demo_crypto ?P = Inr ()" by (rule profile_of_valid) simp_all
  moreover have "server_route (Some ?P) ''push'' ''/push'' = server_route (Some ?P) ''pull'' ''/pull''"
    by (simp add: server_route_def profile_of_kinds)
  then have "map fst (app_routes (Some ?P)) ! 1 = map fst (app_routes (Some ?P)) ! 2"
    unfolding app_routes_def by simp
  moreover have "2 < length (map fst (app_routes (Some ?P)))" unfolding app_routes_def by simp
  then have "\<not> distinct (map fst (app_routes (Some ?P)))"
    using calculation(2) nth_eq_iff_index_eq [of "map fst (app_routes (Some ?P))" 1 2] by linarith
  ultimately show ?thesis unfolding Let_def by blast
qed

lemma head_unserved:
  "let P = profile_of [(''push'', ''/api'', ''Head'')] in
     validate demo_crypto P = Inr () \<and> ((''/api'', M_Put), H_Push) \<in> set (app_routes (Some P)) \<and>
     (\<forall>m. method_name m \<noteq> ''Head'')"
proof -
  let ?P = "profile_of [(''push'', ''/api'', ''Head'')]"
  have "validate demo_crypto ?P = Inr ()" by (rule profile_of_valid) simp_all
  moreover have "server_route (Some ?P) ''push'' ''/push'' = (''/api'', M_Put)"
    by (simp add: server_route_def profile_of_kinds method_filter_examples)
  then have "((''/api'', M_Put), H_Push) \<in> set (app_routes (Some ?P))"
    unfolding app_routes_def by (metis append_Cons list.set_intros)
  moreover have "method_name m \<noteq> ''Head''" for m by (cases m) (simp_all add: method_name_def)
  ultimately show ?thesis unfolding Let_def by blast
qed

text \<open>
  Three profiles pass the validation and do not serve: the gateway for files is routed by the
  server and not forwarded by nginx, two kinds share a path and a method and so the routing table
  has two handlers for one request, and a method in small letters is sent as it is while the server
  listens to PUT.
\<close>

lemma accepted_profiles_unserved:
  "(let P = profile_of [(''blob'', ''/files'', ''POST'')] in
     validate demo_crypto P = Inr () \<and> ((''/files'', M_Post), H_Blob_Gateway) \<in> set (app_routes (Some P)) \<and>
     \<not> forwarded (Some P) ''/files'') \<and>
   (let P = profile_of [(''push'', ''/api'', ''POST''), (''pull'', ''/api'', ''POST'')] in
     validate demo_crypto P = Inr () \<and> \<not> distinct (map fst (app_routes (Some P)))) \<and>
   (let P = profile_of [(''push'', ''/api'', ''Head'')] in
     validate demo_crypto P = Inr () \<and> ((''/api'', M_Put), H_Push) \<in> set (app_routes (Some P)) \<and>
     (\<forall>m. method_name m \<noteq> ''Head''))"
  using blob_unserved clash_unserved head_unserved unfolding Let_def by blast

end
