(* ===== verification/Routing.thy ===== *)
theory Routing
  imports Transport_Props Server_Main
begin

text \<open>
  How a request of the client finds its handler: the address and the method that the client sends
  (\<open>transport.rs\<close>, \<open>cover_send\<close>), the table that the server builds from the profile (\<open>main.rs\<close>), and
  the network in between (\<open>serve\<close>), which knows no more than they do: it routes by path and method.
\<close>

section \<open>What the client sends\<close>

text \<open>
  Path and method of a request of a kind. The parser of methods is \<open>Method::from_bytes\<close> of the
  crate \<open>http\<close>: a token of RFC 9110 is a method, spelled as it is; any other text is none.
\<close>

definition token_char :: "char \<Rightarrow> bool" where
  "token_char c = (let k = (of_char c :: nat) in
     48 \<le> k \<and> k \<le> 57 \<or> 65 \<le> k \<and> k \<le> 90 \<or> 97 \<le> k \<and> k \<le> 122 \<or> k \<in> {33, 35, 36, 37, 38, 39, 42, 43, 45, 46, 94, 95, 96, 124, 126})"

definition http_token :: "string \<Rightarrow> bool" where
  "http_token m \<longleftrightarrow> m \<noteq> [] \<and> list_all token_char m"

definition method_parser_ok :: "(string \<Rightarrow> string option) \<Rightarrow> bool" where
  "method_parser_ok parse \<longleftrightarrow> (\<forall>m. parse m = (if http_token m then Some m else None))"

definition client_route :: "('r, 'w) transport \<Rightarrow> string \<Rightarrow> string \<Rightarrow> string \<times> string" where
  "client_route T kind default_path =
     (case route (cover T) kind of
        Some rt \<Rightarrow> (route_path rt, case parse_method T (route_method rt) of Some m \<Rightarrow> m | None \<Rightarrow> ''PUT'')
      | None \<Rightarrow> (default_path, method_for (masking T) default_path))"

lemma cover_send_route:
  "cover_send T kind default_path body s =
     request_json T (snd (client_route T kind default_path)) (fst (client_route T kind default_path)) body s"
  by (simp add: cover_send_def put_json_def client_route_def split: option.split)

section \<open>Which handler the server finds\<close>

text \<open>
  \<open>axum\<close> panics at the start when two routes have the same path and the same method, so a server that
  runs has no such pair; \<open>dispatch\<close> is then a function of the table. (It also answers HEAD where GET
  is served, which no handler here is meant for.)
\<close>

definition starts :: "masking_profile option \<Rightarrow> bool" where
  "starts profile \<longleftrightarrow> distinct (map fst (app_routes profile))"

definition dispatch :: "masking_profile option \<Rightarrow> string \<Rightarrow> string \<Rightarrow> handler option" where
  "dispatch profile method path = map_option snd (find (\<lambda>((p, m), h). p = path \<and> method_name m = method) (app_routes profile))"

lemma method_name_inj [simp]: "method_name m = method_name n \<longleftrightarrow> m = n"
  by (cases m; cases n) (simp_all add: method_name_def)

lemma dispatch_iff:
  assumes "starts profile"
  shows "dispatch profile method path = Some h \<longleftrightarrow> (\<exists>m. method = method_name m \<and> ((path, m), h) \<in> set (app_routes profile))"
proof
  assume "dispatch profile method path = Some h"
  then obtain e where "find (\<lambda>((p, m), h). p = path \<and> method_name m = method) (app_routes profile) = Some e" and h: "snd e = h"
    by (auto simp: dispatch_def)
  then have "e \<in> set (app_routes profile)" "fst (fst e) = path" "method_name (snd (fst e)) = method"
    by (auto simp: find_Some_iff case_prod_beta)
  with h show "\<exists>m. method = method_name m \<and> ((path, m), h) \<in> set (app_routes profile)"
    by (metis prod.collapse)
next
  assume "\<exists>m. method = method_name m \<and> ((path, m), h) \<in> set (app_routes profile)"
  then obtain m where m: "method = method_name m" "((path, m), h) \<in> set (app_routes profile)" by blast
  let ?P = "\<lambda>((p, m), h :: handler). p = path \<and> method_name m = method"
  obtain e where e: "find ?P (app_routes profile) = Some e"
    using m by (cases "find ?P (app_routes profile)") (auto simp: find_None_iff)
  then have "e \<in> set (app_routes profile)" "fst (fst e) = path" "method_name (snd (fst e)) = method"
    by (auto simp: find_Some_iff case_prod_beta)
  then have "e \<in> set (app_routes profile)" "fst e = (path, m)" using m(1) by (simp_all add: prod_eq_iff)
  moreover have "inj_on fst (set (app_routes profile))" using assms by (simp add: starts_def distinct_map)
  ultimately have "e = ((path, m), h)" using m(2) by (metis fst_conv inj_onD)
  with e show "dispatch profile method path = Some h" by (simp add: dispatch_def)
qed

lemma handler_routes:
  assumes "(kind, default_path, h) \<in> set covered_kinds"
  shows "(e, h) \<in> set (app_routes profile) \<longleftrightarrow> e = server_route profile kind default_path"
proof -
  have "(e, h) \<notin> set fixed_routes"
    using assms by (auto simp: covered_kinds_def fixed_routes_def admin_router_def)
  moreover have "(e, h) \<notin> set (gateway_route profile ''admin'' H_Admin_Gateway @ gateway_route profile ''reg'' H_Reg_Gateway @
      gateway_route profile ''blob'' H_Blob_Gateway)"
    using assms by (auto simp: covered_kinds_def dest!: gateway_routes)
  moreover have "(e, h) \<in> covered_route profile ` set covered_kinds \<longleftrightarrow> e = server_route profile kind default_path"
    using assms by (auto simp: covered_kinds_def covered_route_def)
  ultimately show ?thesis unfolding app_routes_set by blast
qed

lemma upper_inside: "map ascii_upper m = u \<Longrightarrow> list_all (\<lambda>c. 65 \<le> (of_char c :: nat) \<and> (of_char c :: nat) \<le> 90) u \<Longrightarrow>
    u \<noteq> [] \<Longrightarrow> http_token m"
proof -
  assume u: "map ascii_upper m = u" "list_all (\<lambda>c. 65 \<le> (of_char c :: nat) \<and> (of_char c :: nat) \<le> 90) u" "u \<noteq> []"
  have "token_char c" if "c \<in> set m" for c
  proof -
    have "65 \<le> (of_char (ascii_upper c) :: nat) \<and> (of_char (ascii_upper c) :: nat) \<le> 90" using u that by (auto simp: list_all_iff)
    then show ?thesis by (auto simp: ascii_upper_def token_char_def Let_def split: if_splits)
  qed
  with u show ?thesis by (auto simp: http_token_def list_all_iff)
qed

text \<open>The method that arrives for a text in the profile is the one that the server listens to.\<close>

lemma method_agrees:
  "(if http_token m then m else ''PUT'') = method_name (method_filter m) \<longleftrightarrow>
     m \<in> {''PUT'', ''POST'', ''PATCH'', ''DELETE'', ''GET''} \<or> \<not> http_token m"
proof (cases "http_token m")
  case True
  with method_served [of m] show ?thesis by auto
next
  case False
  have "map ascii_upper m \<noteq> u" if "u \<in> {''POST'', ''PATCH'', ''DELETE'', ''GET''}" for u
    using False upper_inside [of m u] that by auto
  then have "method_filter m = M_Put" by (auto simp: method_filter_def Let_def)
  with False show ?thesis by (simp add: method_name_def)
qed


section \<open>The network\<close>

text \<open>
  The path of a URL, and the addresses for which it is the path that was appended: the endpoint has
  no path of its own, and the path is one that nginx gets (\<open>is_safe_path\<close>) without segments that begin
  with a dot, so neither the URL parser nor \<open>axum\<close> sees anything special in it.
\<close>

definition url_path :: "string \<Rightarrow> string" where
  "url_path url = takeWhile (\<lambda>c. c \<noteq> CHR ''?'' \<and> c \<noteq> CHR ''#'')
     (dropWhile (\<lambda>c. c \<noteq> CHR ''/'') (drop 3 (dropWhile (\<lambda>c. c \<noteq> CHR '':'') url)))"

definition origin :: "string \<Rightarrow> bool" where
  "origin u \<longleftrightarrow> (let rest = dropWhile (\<lambda>c. c \<noteq> CHR '':'') u
     in prefix ''://'' rest \<and> list_all (\<lambda>c. c \<noteq> CHR ''/'' \<and> c \<noteq> CHR ''?'' \<and> c \<noteq> CHR ''#'') (drop 3 rest))"

definition plain_path :: "string \<Rightarrow> bool" where
  "plain_path p \<longleftrightarrow> is_safe_path p \<and> \<not> sublist ''/.'' p"

lemma url_path_origin:
  assumes "origin u" and "plain_path p"
  shows "url_path (u @ p) = p"
proof -
  let ?rest = "dropWhile (\<lambda>c. c \<noteq> CHR '':'') u"
  obtain host where host: "?rest = ''://'' @ host"
    using assms(1) unfolding origin_def Let_def prefix_def by blast
  then have plain: "list_all (\<lambda>c. c \<noteq> CHR ''/'' \<and> c \<noteq> CHR ''?'' \<and> c \<noteq> CHR ''#'') host"
    using assms(1) by (simp add: origin_def Let_def)
  have "?rest \<noteq> []" by (simp add: host)
  then obtain c where "c \<in> set u" "\<not> c \<noteq> CHR '':''" by (auto simp: dropWhile_eq_Nil_conv)
  from dropWhile_append1 [where P = "\<lambda>c. c \<noteq> CHR '':''", OF this]
  have "dropWhile (\<lambda>c. c \<noteq> CHR '':'') (u @ p) = ?rest @ p" .
  then have "drop 3 (dropWhile (\<lambda>c. c \<noteq> CHR '':'') (u @ p)) = host @ p" by (simp add: host)
  moreover have "dropWhile (\<lambda>c. c \<noteq> CHR ''/'') (host @ p) = dropWhile (\<lambda>c. c \<noteq> CHR ''/'') p"
    using plain by (intro dropWhile_append2) (simp add: list_all_iff)
  moreover have "prefix ''/'' p" and chars: "list_all safe_path_byte p"
    using assms(2) by (simp_all add: plain_path_def is_safe_path_def)
  then have "dropWhile (\<lambda>c. c \<noteq> CHR ''/'') p = p" by (cases p) simp_all
  moreover have "\<not> safe_path_byte CHR ''?''" "\<not> safe_path_byte CHR ''#''" by (simp_all add: safe_path_byte_def)
  with chars have "takeWhile (\<lambda>c. c \<noteq> CHR ''?'' \<and> c \<noteq> CHR ''#'') p = p"
    unfolding takeWhile_eq_all_conv list_all_iff by metis
  ultimately show ?thesis by (simp add: url_path_def)
qed

text \<open>
  The server as a network: it finds the handler by path and method, or answers 404 or 405; the
  handlers are given by \<open>run\<close>. The answer of a request to a URL in \<open>lost\<close> is lost on the way back.
\<close>

type_synonym 'w service = "http_request \<Rightarrow> 'w \<Rightarrow> http_outcome \<times> 'w"

definition json_service :: "(json \<Rightarrow> 'w \<Rightarrow> json \<times> 'w) \<Rightarrow> 'w service" where
  "json_service handle req w =
     (case hr_body req of
        None \<Rightarrow> (Responded 400 (Inl ''no JSON''), w)
      | Some body \<Rightarrow> (case handle body w of (answer, w') \<Rightarrow> (Responded 200 (Inr answer), w')))"

definition serve :: "masking_profile option \<Rightarrow> (handler \<Rightarrow> 'w service) \<Rightarrow> (string \<Rightarrow> bool) \<Rightarrow> 'w network" where
  "serve profile run lost req w =
     (let path = url_path (hr_url req);
          (out, w') = (case dispatch profile (hr_method req) path of
             Some h \<Rightarrow> run h req w
           | None \<Rightarrow> (Responded (if path \<in> set (map (\<lambda>e. fst (fst e)) (app_routes profile)) then 405 else 404) (Inl ''no JSON''), w))
      in (if lost (hr_url req) then Send_Failed else out, w'))"

text \<open>The client talks to endpoints of a server that runs with this profile.\<close>

definition connected :: "('r, 'w) transport \<Rightarrow> masking_profile option \<Rightarrow> bool" where
  "connected T profile \<longleftrightarrow> server_urls T \<noteq> [] \<and> list_all origin (server_urls T) \<and> starts profile"

text \<open>The request of a kind is addressed to the handler \<open>h\<close>.\<close>

definition addressed :: "masking_profile option \<Rightarrow> string \<times> string \<Rightarrow> handler \<Rightarrow> bool" where
  "addressed profile r h \<longleftrightarrow> plain_path (fst r) \<and> dispatch profile (snd r) (fst r) = Some h"

text \<open>What the profile must say of a kind for its requests to be served.\<close>

definition well_addressed :: "masking_profile \<Rightarrow> string \<Rightarrow> bool" where
  "well_addressed P kind \<longleftrightarrow> (case map_of (kinds P) kind of None \<Rightarrow> False
     | Some spec \<Rightarrow> plain_path (spec_path spec) \<and>
         (spec_method spec \<in> {''PUT'', ''POST'', ''PATCH'', ''DELETE'', ''GET''} \<or> \<not> http_token (spec_method spec)))"

lemma schema_addressed:
  assumes "(kind, default_path, h) \<in> set covered_kinds" and "cover T = schema_client S R"
    and "method_parser_ok (parse_method T)" and "starts (Some (se_profile S))" and "well_addressed (se_profile S) kind"
  shows "addressed (Some (se_profile S)) (client_route T kind default_path) h"
proof -
  obtain spec where spec: "map_of (kinds (se_profile S)) kind = Some spec" "plain_path (spec_path spec)"
    "spec_method spec \<in> {''PUT'', ''POST'', ''PATCH'', ''DELETE'', ''GET''} \<or> \<not> http_token (spec_method spec)"
    using assms(5) by (auto simp: well_addressed_def split: option.splits)
  have c: "client_route T kind default_path = (spec_path spec, if http_token (spec_method spec) then spec_method spec else ''PUT'')"
    using assms(2,3) spec(1) by (simp add: client_route_def schema_client_def schema_route_def method_parser_ok_def)
  have "server_route (Some (se_profile S)) kind default_path = (spec_path spec, method_filter (spec_method spec))"
    using spec(1) by (simp add: server_route_def)
  with covered_in_app_routes [OF assms(1), of "Some (se_profile S)"]
  have "((spec_path spec, method_filter (spec_method spec)), h) \<in> set (app_routes (Some (se_profile S)))" by simp
  then have "dispatch (Some (se_profile S)) (method_name (method_filter (spec_method spec))) (spec_path spec) = Some h"
    using dispatch_iff [OF assms(4)] by blast
  with c spec method_agrees [of "spec_method spec"] show ?thesis by (simp add: addressed_def)
qed

lemma default_starts [simp]: "starts None"
  by (simp add: starts_def app_routes_def server_route_def gateway_route_def admin_router_def)

lemma built_in_paths: "(kind, default_path, h) \<in> set covered_kinds \<Longrightarrow> plain_path default_path"
proof -
  have "list_all plain_path [''/push'', ''/pull'', ''/map'', ''/notify'', ''/determinate'', ''/call/signal'', ''/call/poll'']"
    by code_simp
  then show "(kind, default_path, h) \<in> set covered_kinds \<Longrightarrow> plain_path default_path"
    by (auto simp: covered_kinds_def)
qed

lemma default_addressed:
  assumes "(kind, default_path, h) \<in> set covered_kinds" and "route (cover T) kind = None" and "method_for (masking T) default_path = ''PUT''"
  shows "addressed None (client_route T kind default_path) h"
proof -
  have "server_route None kind default_path = (default_path, M_Put)" by (simp add: server_route_def)
  with covered_in_app_routes [OF assms(1), of None] have "((default_path, M_Put), h) \<in> set (app_routes None)" by simp
  moreover have "method_name M_Put = ''PUT''" by (simp add: method_name_def)
  ultimately have "dispatch None ''PUT'' default_path = Some h" using dispatch_iff [OF default_starts] by metis
  with built_in_paths [OF assms(1)] show ?thesis by (simp add: addressed_def client_route_def assms(2,3))
qed

section \<open>Examples\<close>

definition routed_profile :: masking_profile where
  "routed_profile = profile_of [(''push'', ''/v'', ''POST''), (''pull'', ''/w'', ''pull it''), (''map'', ''/x'', ''put'')]"

definition routed_env :: schema_env where
  "routed_env = \<lparr>se_json = demo_json, se_crypto = demo_crypto, se_aead = demo_aead, se_profile = routed_profile\<rparr>"

definition routed_transport :: "(nat, unit) transport" where
  "routed_transport = \<lparr>server_urls = [''http://a''], cover = schema_client routed_env demo_rng, masking = default_masking,
     network = (\<lambda>_. Pair Send_Failed), parse_method = (\<lambda>m. if http_token m then Some m else None), base = demo_crypto\<rparr>"

lemma routed_starts: "starts (Some routed_profile)"
  by (simp add: starts_def app_routes_def server_route_def gateway_route_def admin_router_def routed_profile_def profile_of_kinds
      method_filter_def ascii_upper_def Let_def)


end
