(* ===== verification/Delivery.thy ===== *)
theory Delivery
  imports Routing
begin

text \<open>
  The client and the server together, over the network \<open>serve\<close>: the server finds the handler by the
  path and the method of the request, runs it on the body and returns the answer, or loses it on the
  way back. The lemmas are proved once from the contract \<open>covers_fit\<close> and hold for both pairs of covers.
\<close>

section \<open>The server as a network\<close>

definition push_service :: "'s server_cover \<Rightarrow> 'db server_env \<Rightarrow> server_config \<Rightarrow> u64 \<Rightarrow> json \<Rightarrow> 'db \<times> 's \<Rightarrow> json \<times> 'db \<times> 's" where
  "push_service sc E cfg now body w =
     (case handle_push sc E cfg now (fst w) body (snd w) of ((answer, r), db, woken) \<Rightarrow> (answer, db, r))"

definition pull_service :: "'s server_cover \<Rightarrow> 'db server_env \<Rightarrow> server_config \<Rightarrow> u64 \<Rightarrow> json \<Rightarrow> 'db \<times> 's \<Rightarrow> json \<times> 'db \<times> 's" where
  "pull_service sc E cfg now body w =
     (case handle_pull sc E cfg now (fst w) body (snd w) of ((answer, r), db) \<Rightarrow> (answer, db, r))"

lemma classify_simps [simp]: "classify (Responded 200 (Inr v)) = Inr v" "classify Send_Failed = Inl (Retry ''server endpoint request failed'')"
  by (simp_all add: classify_def)

lemma send_once_serve:
  assumes "network T = serve profile run lost" and "run h = json_service handle" and "addressed profile (path, method) h"
    and "origin u" and "handle body (world s) = (answer, w')"
  shows "send_once T method (u @ path) (Some body) None s =
    (if lost (u @ path) then Inl (Retry ''server endpoint request failed'') else Inr answer, s\<lparr>ua_rotation := ua_rotation s + 1, world := w'\<rparr>)"
proof -
  have "url_path (u @ path) = path" "dispatch profile method path = Some h"
    using assms(3) url_path_origin [OF assms(4)] by (simp_all add: addressed_def)
  with assms(1,2,5) show ?thesis by (simp add: send_once_def serve_def json_service_def)
qed

lemma request_answered:
  assumes "network T = serve profile run (\<lambda>_. False)" and "run h = json_service handle" and "connected T profile"
    and "addressed profile (path, method) h" and "handle body (world s) = (answer, w')"
  shows "\<exists>s'. request_json T method path body s = (Inr answer, s') \<and> world s' = w'"
proof -
  obtain u us where u: "server_urls T = u # us" "origin u" using assms(3) by (cases "server_urls T") (auto simp: connected_def)
  from send_once_serve [OF assms(1,2,4) u(2) assms(5)] u(1) show ?thesis by (simp add: request_json_def)
qed

text \<open>The first endpoint answers, or it loses the answer and the second one answers.\<close>

lemma covered_answered:
  assumes "network T = serve profile run (\<lambda>_. False)" and "run h = json_service handle" and "connected T profile"
    and "addressed profile (client_route T kind p) h"
    and "wrap_it (rng_state s) = (Inr body, r')" and "handle body (world s) = (answer, w')"
  shows "\<exists>s'. through_cover T wrap_it kind p unwrap_it s = (unwrap_it answer, s') \<and> world s' = w'"
proof -
  obtain path meth where r: "client_route T kind p = (path, meth)" by fastforce
  have "handle body (world (s\<lparr>rng_state := r'\<rparr>)) = (answer, w')" using assms(6) by simp
  from request_answered [OF assms(1-3) assms(4) [unfolded r] this] assms(5) show ?thesis
    by (auto simp: through_cover_def cover_send_route r)
qed

lemma covered_retried:
  assumes "network T = serve profile run (\<lambda>url. url = u1 @ fst (client_route T kind p))" and "run h = json_service handle"
    and "connected T profile" and "addressed profile (client_route T kind p) h" and "server_urls T = u1 # u2 # us" and "u1 \<noteq> u2"
    and "wrap_it (rng_state s) = (Inr body, r')"
    and "handle body (world s) = (answer1, w1)" and "handle body w1 = (answer2, w2)"
  shows "\<exists>s'. through_cover T wrap_it kind p unwrap_it s = (unwrap_it answer2, s') \<and> world s' = w2"
proof -
  obtain path meth where r: "client_route T kind p = (path, meth)" by fastforce
  have u: "origin u1" "origin u2" using assms(3,5) by (simp_all add: connected_def)
  let ?s1 = "s\<lparr>rng_state := r', ua_rotation := ua_rotation s + 1, world := w1\<rparr>"
  have first: "send_once T meth (u1 @ path) (Some body) None (s\<lparr>rng_state := r'\<rparr>) = (Inl (Retry ''server endpoint request failed''), ?s1)"
    using send_once_serve [OF assms(1,2) assms(4) [unfolded r] u(1), of body "s\<lparr>rng_state := r'\<rparr>"] assms(8) by (simp add: r)
  have second: "send_once T meth (u2 @ path) (Some body) None ?s1 = (Inr answer2, ?s1\<lparr>ua_rotation := ua_rotation ?s1 + 1, world := w2\<rparr>)"
    using send_once_serve [OF assms(1,2) assms(4) [unfolded r] u(2), of body ?s1] assms(6,9) by (simp add: r)
  show ?thesis using assms(5,7) first second
    by (simp add: through_cover_def cover_send_route r request_json_def)
qed

section \<open>What a push can answer\<close>

definition refusals :: "string list" where
  "refusals = [''Bad sig encoding'', ''Bad payload encoding'', ''One user in pair not registered'', ''Invalid signature'']"

lemma push_cases:
  assumes ok: "crypto_ok (crypto E)" and inv: "db_inv (kv E) db" and u: "utf8_valid (psh_sender req)"
  obtains (stored) payload db' where "authorised_push (crypto E) cfg req payload"
    and "map_of (log_of (kv E) db (push_did E req)) (psh_seq req) = None"
    and "do_push E cfg now db req = (api_ok ''OK'', db', Some (push_did E req))" and "db_inv (kv E) db'"
    and "log_of (kv E) db' (push_did E req) = om_insert (psh_seq req) payload (log_of (kv E) db (push_did E req))"
  | (taken) payload where "authorised_push (crypto E) cfg req payload"
    and "map_of (log_of (kv E) db (push_did E req)) (psh_seq req) \<noteq> None"
    and "do_push E cfg now db req = (api_fail (''Duplicate seq '' @ show_nat (unat (psh_seq req))), db, None)"
  | (refused) msg where "\<nexists>payload. authorised_push (crypto E) cfg req payload" and "msg \<in> set refusals"
    and "do_push E cfg now db req = (api_fail msg, db, None)"
proof (cases "\<exists>payload. authorised_push (crypto E) cfg req payload")
  case False
  then have "\<exists>msg \<in> set refusals. do_push E cfg now db req = (api_fail msg, db, None)"
    by (auto simp: authorised_push_def do_push_def Let_def refusals_def split: sum.splits option.splits)
  with False that(3) show ?thesis by blast
next
  case True
  then obtain payload where a: "authorised_push (crypto E) cfg req payload" by blast
  note did = dialogue_id_ok [OF ok, of "psh_sender req" "psh_recver req"]
  show ?thesis
  proof (cases "map_of (log_of (kv E) db (push_did E req)) (psh_seq req)")
    case None
    with store_packet_spec [OF inv did u, where s = "psh_seq req" and v = payload and now = now] did
    obtain db' where "store_packet (kv E) now db (psh_sender req) (push_did E req) (psh_seq req) payload = Inr db'"
      "db_inv (kv E) db'" "log_of (kv E) db' (push_did E req) = om_insert (psh_seq req) payload (log_of (kv E) db (push_did E req))"
      by auto
    with a None do_push_authorised [OF a, of now db] that(1) [of payload db'] show ?thesis by simp
  next
    case (Some w)
    with push_spec [OF inv did, of "psh_seq req" payload]
    have "store_packet (kv E) now db (psh_sender req) (push_did E req) (psh_seq req) payload =
        Inl (''Duplicate seq '' @ show_nat (unat (psh_seq req)))"
      by (simp add: store_packet_def)
    with a Some do_push_authorised [OF a, of now db] that(2) [of payload] show ?thesis by simp
  qed
qed

lemma duplicate_code: "push_error_code (''Duplicate seq '' @ n) = ''duplicate_seq''"
proof -
  have "to_ascii_lowercase (''Duplicate seq '' @ n) = [] @ ''duplicate'' @ '' seq '' @ to_ascii_lowercase n"
    by (simp add: to_ascii_lowercase_def ascii_lower_def char_of_def bit_0)
  then have "str_contains ''duplicate'' (to_ascii_lowercase (''Duplicate seq '' @ n))"
    unfolding str_contains_iff by blast
  then show ?thesis by (simp add: push_error_code_def Let_def)
qed

lemma refusal_code: "msg \<in> set refusals \<Longrightarrow> push_error_code msg \<noteq> ''duplicate_seq''"
  by (auto simp: refusals_def push_error_code_def to_ascii_lowercase_def ascii_lower_def str_contains_def)

section \<open>From the contract\<close>

context covers_fit
begin

abbreviation push_fitting :: "core_push \<Rightarrow> api_response \<Rightarrow> bool" where
  "push_fitting q a \<equiv> fits (push_json (push_request_of C q)) \<and> fits (simple_json a)"

lemma push_service_run:
  assumes "do_push E cfg now (fst w) (push_request_of C q) = (a, db', woken)" and "push_fitting q a"
  shows "\<exists>body r' answer rng'. wrap_push cc q r = (Inr body, r') \<and> push_service sc E cfg now body w = (answer, db', rng') \<and>
    unwrap_push_response cc answer = push_outcome a"
proof -
  obtain body r' answer s' where "wrap_push cc q r = (Inr body, r')"
    "handle_push sc E cfg now (fst w) body (snd w) = ((answer, s'), db', woken)" "unwrap_push_response cc answer = push_outcome a"
    using push_through [OF assms(1)] assms(2) by blast
  then show ?thesis by (auto simp: push_service_def)
qed

lemma push_answered:
  assumes T: "cover T = cc" "network T = serve profile run (\<lambda>_. False)" "run H_Push = json_service (push_service sc E cfg now)"
      "connected T profile" "addressed profile (client_route T ''push'' ''/push'') H_Push"
    and "do_push E cfg now (fst (world s)) (push_request_of C q) = (a, db', woken)" and "push_fitting q a"
  shows "\<exists>s'. transport_push T q s = (push_outcome a, s') \<and> fst (world s') = db'"
proof -
  obtain body r' answer rng' where "wrap_push cc q (rng_state s) = (Inr body, r')"
    "push_service sc E cfg now body (world s) = (answer, db', rng')" "unwrap_push_response cc answer = push_outcome a"
    using push_service_run [OF assms(6,7), of "rng_state s"] by blast
  with covered_answered [OF T(2-5), of "wrap_push cc q" s body r' answer "(db', rng')" "unwrap_push_response cc"] T(1)
  show ?thesis by (auto simp: transport_push_def)
qed

lemma pull_answered:
  assumes T: "cover T = cc" "network T = serve profile run (\<lambda>_. False)" "run H_Pull = json_service (pull_service sc E cfg now)"
      "connected T profile" "addressed profile (client_route T ''pull'' ''/pull'') H_Pull"
    and "do_pull E cfg now (fst (world s)) (range_request_of C g) = (a, db')"
    and "fits (range_json ''after_seq'' (range_request_of C g))" and "fits (pull_json a)" and "pull_outcome C a = Inr ps"
  shows "\<exists>s'. transport_pull T g s = (Inr ps, s') \<and> fst (world s') = db'"
proof -
  obtain body r' answer rng' where w: "wrap_pull cc g (rng_state s) = (Inr body, r')"
    "handle_pull sc E cfg now (fst (world s)) body (snd (world s)) = ((answer, rng'), db')"
    "agrees (unwrap_pull_response cc answer) (pull_outcome C a)"
    using pull_through [OF assms(6-8)] by blast
  then have "pull_service sc E cfg now body (world s) = (answer, db', rng')" "unwrap_pull_response cc answer = Inr ps"
    using assms(9) by (auto simp: pull_service_def)
  with covered_answered [OF T(2-5), of "wrap_pull cc g" s body r' answer "(db', rng')" "unwrap_pull_response cc"] w(1) T(1)
  show ?thesis by (auto simp: transport_pull_def)
qed

lemma push_told:
  fixes E :: "'db server_env" and T :: "('r, 'db \<times> 's) transport" and q
  defines "req \<equiv> push_request_of C q" and "db s \<equiv> fst (world (s :: ('r, 'db \<times> 's) client_state))"
  defines "free \<equiv> \<lambda>s. map_of (log_of (kv E) (db s) (push_did E req)) (psh_seq req) = None"
  assumes ok: "crypto_ok (crypto E)" and inv: "db_inv (kv E) (db s)" and u: "utf8_valid (cp_sender q)"
    and T: "cover T = cc" "network T = serve profile run (\<lambda>_. False)" "run H_Push = json_service (push_service sc E cfg now)"
      "connected T profile" "addressed profile (client_route T ''push'' ''/push'') H_Push"
    and fit: "push_fitting q (fst (do_push E cfg now (db s) req))"
  shows "\<exists>told s'. transport_push T q s = (told, s') \<and>
    (told = Inr () \<longleftrightarrow> (\<exists>payload. authorised_push (crypto E) cfg req payload) \<and> free s) \<and>
    (told = Inl ''duplicate_seq'' \<longleftrightarrow> (\<exists>payload. authorised_push (crypto E) cfg req payload) \<and> \<not> free s) \<and>
    (if told = Inr () then \<exists>payload. authorised_push (crypto E) cfg req payload \<and> db_inv (kv E) (db s') \<and>
         (\<forall>d. did_ok d \<longrightarrow> log_of (kv E) (db s') d = (if d = push_did E req
            then om_insert (psh_seq req) payload (log_of (kv E) (db s) d) else log_of (kv E) (db s) d))
     else db s' = db s)"
proof -
  obtain a db' woken where run: "do_push E cfg now (db s) req = (a, db', woken)" by (cases "do_push E cfg now (db s) req")
  then obtain s' where out: "transport_push T q s = (push_outcome a, s')" "db s' = db'"
    using push_answered [OF T, of s q a db' woken] fit by (auto simp: req_def db_def)
  have u': "utf8_valid (psh_sender req)" using u by (simp add: req_def push_request_of_def)
  from push_cases_exact [OF ok inv u', of cfg now] run
  consider (stored) payload where "authorised_push (crypto E) cfg req payload" "free s" "a = api_ok ''OK''" "db_inv (kv E) db'"
      "\<forall>d. did_ok d \<longrightarrow> log_of (kv E) db' d = (if d = push_did E req
         then om_insert (psh_seq req) payload (log_of (kv E) (db s) d) else log_of (kv E) (db s) d)"
    | (not_stored) msg where "\<nexists>payload. authorised_push (crypto E) cfg req payload \<and> free s" "a = api_fail msg" "db' = db s"
    unfolding free_def by auto
  then show ?thesis
  proof cases
    case stored
    then have "push_outcome a = Inr ()" by (simp add: push_outcome_def)
    with stored out show ?thesis by auto
  next
    case not_stored
    then have told: "push_outcome a = Inl (push_error_code msg)" by (simp add: push_outcome_def)
    have "push_error_code msg = ''duplicate_seq'' \<longleftrightarrow> (\<exists>payload. authorised_push (crypto E) cfg req payload)"
      using ok inv u'
    proof (cases rule: push_cases [where cfg = cfg and now = now])
      case (taken payload)
      with run not_stored(2) have "msg = ''Duplicate seq '' @ show_nat (unat (psh_seq req))" by (simp add: api_fail_def)
      then have "push_error_code msg = ''duplicate_seq''" by (simp only: duplicate_code)
      with taken(1) show ?thesis by blast
    next
      case (refused m)
      with run not_stored(2) have "msg = m" by (simp add: api_fail_def)
      with refused refusal_code [of m] show ?thesis by blast
    qed (use run not_stored in \<open>auto simp: api_fail_def api_ok_def\<close>)
    with not_stored told out show ?thesis by auto
  qed
qed

lemma lost_answer:
  fixes E :: "'db server_env" and T :: "('r, 'db \<times> 's) transport" and q
  defines "req \<equiv> push_request_of C q" and "db \<equiv> \<lambda>s. fst (world (s :: ('r, 'db \<times> 's) client_state))"
  assumes ok: "crypto_ok (crypto E)" and inv: "db_inv (kv E) (db s)" and u: "utf8_valid (cp_sender q)"
    and T: "cover T = cc" "network T = serve profile run (\<lambda>url. url = u1 @ fst (client_route T ''push'' ''/push''))"
      "run H_Push = json_service (push_service sc E cfg now)" "connected T profile"
      "addressed profile (client_route T ''push'' ''/push'') H_Push" "server_urls T = u1 # u2 # us" "u1 \<noteq> u2"
    and auth: "authorised_push (crypto E) cfg req payload"
    and free: "map_of (log_of (kv E) (db s) (push_did E req)) (psh_seq req) = None"
    and fit: "push_fitting q (api_ok ''OK'')" "push_fitting q (api_fail (''Duplicate seq '' @ show_nat (unat (psh_seq req))))"
  shows "\<exists>s'. transport_push T q s = (Inl ''duplicate_seq'', s') \<and>
    log_of (kv E) (db s') (push_did E req) = om_insert (psh_seq req) payload (log_of (kv E) (db s) (push_did E req))"
proof -
  have u': "utf8_valid (psh_sender req)" using u by (simp add: req_def push_request_of_def)
  obtain db1 where db1: "do_push E cfg now (db s) req = (api_ok ''OK'', db1, Some (push_did E req))" "db_inv (kv E) db1"
    "log_of (kv E) db1 (push_did E req) = om_insert (psh_seq req) payload (log_of (kv E) (db s) (push_did E req))"
    using push_cases_exact [OF ok inv u', of cfg now] auth free dialogue_id_ok [OF ok] by (auto simp: authorised_push_def)
  then have "map_of (log_of (kv E) db1 (push_did E req)) (psh_seq req) \<noteq> None"
    by (simp add: map_of_eq_None_iff set_om_insert del: not_None_eq)
  with push_spec [OF db1(2) dialogue_id_ok [OF ok], of "psh_sender req" "psh_recver req" "psh_seq req" payload]
  have again: "do_push E cfg now db1 req = (api_fail (''Duplicate seq '' @ show_nat (unat (psh_seq req))), db1, None)"
    using do_push_authorised [OF auth, of now db1] by (simp add: store_packet_def)
  obtain body r' answer1 rng1 where run1: "wrap_push cc q (rng_state s) = (Inr body, r')"
    "push_service sc E cfg now body (world s) = (answer1, db1, rng1)"
    using push_service_run [of E cfg now "world s" q _ db1 _ "rng_state s"] db1(1) fit(1) by (auto simp: req_def db_def)
  obtain answer2 rng2 where run2: "push_service sc E cfg now body (db1, rng1) = (answer2, db1, rng2)"
    "unwrap_push_response cc answer2 = Inl ''duplicate_seq''"
  proof -
    obtain body' r'' answer2 rng2 where "wrap_push cc q (rng_state s) = (Inr body', r'')"
      "push_service sc E cfg now body' (db1, rng1) = (answer2, db1, rng2)"
      "unwrap_push_response cc answer2 = push_outcome (api_fail (''Duplicate seq '' @ show_nat (unat (psh_seq req))))"
      using push_service_run [of E cfg now "(db1, rng1)" q _ db1 _ "rng_state s"] again fit(2) by (auto simp: req_def)
    with run1(1) that [of answer2 rng2] show ?thesis
      by (simp only: push_outcome_def api_simps duplicate_code if_False prod.inject sum.inject)
  qed
  from covered_retried [OF T(2-7), of "wrap_push cc q" s body r' answer1 "(db1, rng1)" answer2 "(db1, rng2)" "unwrap_push_response cc"]
    run1 run2 T(1) db1(3)
  show ?thesis by (auto simp: transport_push_def db_def)
qed

text \<open>The packets that a client gets for the entries of a dialogue.\<close>

lemma decoded_packets:
  "crypto_ok C \<Longrightarrow> traverse (raw_packet_of C) (map (\<lambda>(s, v). (s, encode_b64 C v)) L) =
    Inr (map (\<lambda>(s, v). \<lparr>rp_seq = s, rp_payload = v\<rparr>) L)"
  by (rule traverse_map_Inr) (auto simp: raw_packet_of_def decode_encode)

lemma delivered:
  fixes E :: "'db server_env" and T T' :: "('r, 'db \<times> 's) transport" and q g
  defines "req \<equiv> push_request_of C q" and "pr \<equiv> range_request_of C g"
    and "db \<equiv> \<lambda>s. fst (world (s :: ('r, 'db \<times> 's) client_state))"
  assumes ok: "crypto_ok C" and E: "crypto E = C" and inv: "db_inv (kv E) (db s)"
    and u: "utf8_valid (cp_sender q)" "utf8_valid (cr_sender g)" "utf8_valid (cr_recver g)"
    and T: "cover T = cc" "network T = serve profile run (\<lambda>_. False)" "run H_Push = json_service (push_service sc E cfg now)"
      "connected T profile" "addressed profile (client_route T ''push'' ''/push'') H_Push"
    and T': "cover T' = cc" "network T' = serve profile run' (\<lambda>_. False)" "run' H_Pull = json_service (pull_service sc E cfg' now')"
      "connected T' profile" "addressed profile (client_route T' ''pull'' ''/pull'') H_Pull"
    and pushed: "transport_push T q s = (Inr (), s1)" and kept: "db s2 = db s1"
    and pair: "{cr_sender g, cr_recver g} = {cp_sender q, cp_recver q}"
    and auth: "authorised_range C cfg' pr" and window: "cr_from g < cp_seq q" "cp_seq q \<le> cr_to g"
    and st: "\<forall>u. \<exists>st. receipt_of (kv E) (db s) u (push_did E req) = Inr st"
    and fit: "push_fitting q (fst (do_push E cfg now (db s) req))" "fits (range_json ''after_seq'' pr)"
      "fits (pull_json (fst (do_pull E cfg' now' (db s2) pr)))"
  shows "\<exists>s3. transport_pull T' g s2 = (Inr (map (\<lambda>(s, v). \<lparr>rp_seq = s, rp_payload = v\<rparr>)
    (requested pr (om_insert (cp_seq q) (cp_payload q) (log_of (kv E) (db s) (push_did E req))))), s3)"
proof -
  obtain a db1 woken where run: "do_push E cfg now (db s) req = (a, db1, woken)" by (cases "do_push E cfg now (db s) req")
  then obtain s1' where "transport_push T q s = (push_outcome a, s1')" "db s1' = db1"
    using push_answered [OF T, of s q a db1 woken] fit(1) by (auto simp: req_def db_def)
  with pushed have a: "success a" and db1: "db s2 = db1" using kept by (auto simp: push_outcome_def split: if_splits)
  have pl: "decode_b64 C (psh_payload req) = Inr (cp_payload q)"
    by (simp add: req_def push_request_of_def decode_encode [OF ok])
  have sides: "utf8_valid (psh_sender req)" "utf8_valid (rq_sender pr)" "utf8_valid (rq_recver pr)"
    "{rq_sender pr, rq_recver pr} = {psh_sender req, psh_recver req}" "rq_from pr < psh_seq req" "psh_seq req \<le> rq_to pr"
    using u pair window by (simp_all add: req_def pr_def push_request_of_def range_request_of_def)
  have auth': "authorised_range (crypto E) cfg' pr" and ok': "crypto_ok (crypto E)" using auth ok E by simp_all
  obtain db2 where pull: "do_pull E cfg' now' db1 pr = (\<lparr>pl_success = True, packets = map (\<lambda>(s, v). (s, encode_b64 C v))
      (requested pr (om_insert (cp_seq q) (cp_payload q) (log_of (kv E) (db s) (push_did E req)))), pl_message = []\<rparr>, db2)"
    using pull_after_push [OF ok' inv sides(1-3) run a sides(4) auth' sides(5,6) st, of now'] pl E
    by (auto simp: req_def push_request_of_def)
  have "pull_outcome C (fst (do_pull E cfg' now' db1 pr)) = Inr (map (\<lambda>(s, v). \<lparr>rp_seq = s, rp_payload = v\<rparr>)
      (requested pr (om_insert (cp_seq q) (cp_payload q) (log_of (kv E) (db s) (push_did E req)))))"
    by (simp add: pull pull_outcome_def decoded_packets [OF ok])
  with pull_answered [OF T', of s2 g "fst (do_pull E cfg' now' db1 pr)" db2] pull fit(2,3) db1
  show ?thesis by (auto simp: pr_def db_def)
qed

end

end
