(* ===== verification/Delivery_Props.thy ===== *)
theory Delivery_Props
  imports Delivery
begin

text \<open>
  The properties of the whole path from client to client, for the two pairs of covers, with their
  examples: \<open>demo_food\<close> and \<open>demo_schema\<close> interpret the two pairs on a concrete codec, profile and
  server.
\<close>

section \<open>Concrete covers\<close>

definition demo_variant :: schema_variant where
  "demo_variant = \<lparr>template = J_Obj [(''op'', J_Str ''sync''), (''box'', J_Obj [])], carriers = [''box.p'', ''box.q''],
     optional = [\<lparr>opt_path = ''note'', opt_value = J_Str ''gift''\<rparr>], json_schema = None\<rparr>"

definition demo_variant' :: schema_variant where
  "demo_variant' = \<lparr>template = J_Obj [(''kind'', J_Str ''ping''), (''data'', J_Obj [])], carriers = [''data.x''], optional = [],
     json_schema = None\<rparr>"

definition full_profile :: masking_profile where
  "full_profile = \<lparr>profile_name = ''demo'', version = 1, cover_key_b64 = alice_key,
     kinds = map (\<lambda>k. (k, \<lparr>spec_path = ''/v2/'' @ k, spec_method = ''PUT'', schemas = [demo_variant, demo_variant']\<rparr>)) message_kinds,
     user_agents = [], headers = [], cache_control = None\<rparr>"

definition demo_schema_env :: schema_env where
  "demo_schema_env = \<lparr>se_json = demo_json, se_crypto = demo_crypto, se_aead = demo_aead, se_profile = full_profile\<rparr>"

lemma demo_variant_segments:
  "segments ''box.p'' = [Key ''box'', Key ''p'']" "segments ''box.q'' = [Key ''box'', Key ''q'']" "segments ''note'' = [Key ''note'']"
  "segments ''data.x'' = [Key ''data'', Key ''x'']"
  by (simp_all add: segments_def segment_of_def parse_u64_def digit_value_def)

lemma demo_variant_ok: "variant_ok demo_variant" "variant_ok demo_variant'"
  by (simp_all add: variant_ok_def variant_paths_def demo_variant_def demo_variant'_def ensure_object_def demo_variant_segments)

lemma demo_variants_marked: "marked_off demo_variant demo_variant'" "marked_off demo_variant' demo_variant"
  by (simp_all add: marked_off_def variant_paths_def demo_variant_def demo_variant'_def demo_variant_segments)

lemma full_profile_spec: "map_of (kinds full_profile) k =
    (if k \<in> set message_kinds then Some \<lparr>spec_path = ''/v2/'' @ k, spec_method = ''PUT'', schemas = [demo_variant, demo_variant']\<rparr> else None)"
  by (simp add: full_profile_def map_of_map_restrict)

lemma full_profile_serves: "k \<in> set message_kinds \<Longrightarrow> serves full_profile k"
  by (simp add: serves_def full_profile_spec spec_ok_def demo_variant_ok)

lemma full_profile_unconfused [simp]: "unconfused demo_schema_env demo_rng"
proof -
  have "separated demo_crypto demo_aead demo_rng full_profile k" for k
    using demo_variants_marked
    by (intro marked_separated) (auto simp: full_profile_spec spec_ok_def demo_variant_ok split: if_splits)
  then show ?thesis by (simp add: unconfused_def demo_schema_env_def list_all_iff)
qed

lemma demo_schema_ok [simp]: "schema_ok demo_schema_env"
proof -
  have "cover_key demo_crypto full_profile = Inr (as_bytes alice_key)"
    by (simp add: cover_key_def full_profile_def COVER_KEY_LEN_def alice_key_def)
  then show ?thesis
    by (simp add: schema_ok_def demo_schema_env_def list_all_iff full_profile_serves demo_aead_ok)
qed

interpretation demo_schema: schema_pair demo_schema_env demo_rng demo_rng
  by unfold_locales simp_all

interpretation demo_food: food_pair demo_json demo_crypto
  by unfold_locales simp_all

definition demo_core_push :: core_push where
  "demo_core_push = \<lparr>cp_sender = ''alice'', cp_recver = ''bob'', cp_seq = 1, cp_payload = as_bytes ''hi'',
     cp_push_sig = as_bytes (demo_sig alice_key ''alicebob1hi'')\<rparr>"

definition demo_core_pull :: core_range where
  "demo_core_pull = \<lparr>cr_sender = ''bob'', cr_recver = ''alice'', cr_from = 0, cr_to = 9,
     cr_sig = as_bytes (demo_sig bob_key ''bobalice09'')\<rparr>"

lemma small_numbers: "show_nat 0 = ''0''" "show_nat (Suc 0) = ''1''" "show_nat 9 = ''9''"
  by (subst show_nat.simps, simp add: digit_def char_of_def bit_0)+

lemma demo_core_requests [simp]:
  "push_request_of demo_crypto demo_core_push = demo_push ''bob'' alice_key 1 ''hi''"
  "range_request_of demo_crypto demo_core_pull = demo_range bob_key 0 9"
  by (simp_all add: push_request_of_def demo_core_push_def demo_push_def range_request_of_def demo_core_pull_def
      demo_range_def small_numbers del: demo_sig_bytes)

lemma demo_core_simps [simp]:
  "cp_sender demo_core_push = ''alice''" "cp_recver demo_core_push = ''bob''" "cp_seq demo_core_push = 1"
  "cp_payload demo_core_push = as_bytes ''hi''" "cr_sender demo_core_pull = ''bob''" "cr_recver demo_core_pull = ''alice''"
  "cr_from demo_core_pull = 0" "cr_to demo_core_pull = 9"
  by (simp_all add: demo_core_push_def demo_core_pull_def)

lemma demo_sig_eq: "demo_sig key msg = take 64 (key @ msg @ replicate 64 (char_of (0 :: nat)))"
  by (simp add: demo_sig_def demo_sign_def char_of_as_bytes take_map [symmetric])

definition demo_transport :: "'r client_cover \<Rightarrow> 'w network \<Rightarrow> ('r, 'w) transport" where
  "demo_transport c net = \<lparr>server_urls = [''http://a'', ''http://b''], cover = c, masking = default_masking, network = net,
     parse_method = (\<lambda>m. if http_token m then Some m else None), base = demo_crypto\<rparr>"

definition demo_run :: "'s server_cover \<Rightarrow> u64 \<Rightarrow> handler \<Rightarrow> ((string \<times> bytes) list \<times> 's) service" where
  "demo_run sc now h =
     (case h of H_Push \<Rightarrow> json_service (push_service sc demo_env demo_config now)
      | H_Pull \<Rightarrow> json_service (pull_service sc demo_env demo_config now) | _ \<Rightarrow> (\<lambda>req. Pair (Responded 500 (Inl ''not in the example''))))"

lemma demo_run_simps [simp]:
  "demo_run sc now H_Push = json_service (push_service sc demo_env demo_config now)"
  "demo_run sc now H_Pull = json_service (pull_service sc demo_env demo_config now)"
  by (simp_all add: demo_run_def)

definition demo_client :: "'r \<Rightarrow> 'w \<Rightarrow> ('r, 'w) client_state" where
  "demo_client r w = \<lparr>ua_rotation = 0, rng_state = r, world = w\<rparr>"

lemma demo_transport_simps [simp]:
  "cover (demo_transport c net) = c" "network (demo_transport c net) = net"
  "server_urls (demo_transport c net) = [''http://a'', ''http://b'']" "world (demo_client r w) = w"
  by (simp_all add: demo_transport_def demo_client_def)

lemma demo_connected [simp]: "starts profile \<Longrightarrow> connected (demo_transport c net) profile" "method_parser_ok (parse_method (demo_transport c net))"
    "method_for (masking (demo_transport c net)) p = ''PUT''"
  by (simp_all add: connected_def demo_transport_def origin_def method_parser_ok_def method_for_def default_masking_def)

lemma full_profile_starts [simp]: "starts (Some full_profile)"
proof -
  have put: "method_filter ''PUT'' = M_Put" by (simp add: method_filter_def ascii_upper_def)
  have "''admin'' \<notin> set message_kinds" "''reg'' \<notin> set message_kinds" "''blob'' \<notin> set message_kinds" by (simp_all add: message_kinds_def)
  then have gates: "gateway_route (Some full_profile) k h = []" if "k \<in> {''admin'', ''reg'', ''blob''}" for k h
    using that by (auto simp: gateway_route_def full_profile_spec)
  have "server_route (Some full_profile) k p = (''/v2/'' @ k, M_Put)" if "k \<in> set message_kinds" for k p
    using that by (simp add: server_route_def full_profile_spec put)
  then show ?thesis by (simp add: starts_def app_routes_def gates admin_router_def message_kinds_def)
qed

lemma full_profile_addressed: "well_addressed full_profile ''push''" "well_addressed full_profile ''pull''"
proof -
  have "plain_path ''/v2/push''" "plain_path ''/v2/pull''" by code_simp+
  then show "well_addressed full_profile ''push''" "well_addressed full_profile ''pull''"
    by (simp_all add: well_addressed_def full_profile_spec message_kinds_def)
qed

lemma utf8_texts:
  "utf8_valid ''hi''" "utf8_valid (demo_sig alice_key ''alicebob1hi'')" "utf8_valid (demo_sig bob_key ''bobalice09'')"
  by (rule utf8_valid_ascii, force simp: demo_sig_eq alice_key_def bob_key_def)+

lemma demo_push_fits: "json_fits 127 (push_json (demo_push ''bob'' alice_key 1 ''hi''))"
  using utf8_texts by (simp add: push_json_def demo_push_def small_numbers) (simp add: utf8_valid_def)

lemma demo_pull_fits: "json_fits 127 (range_json ''after_seq'' (demo_range bob_key 0 9))"
  using utf8_texts by (simp add: range_json_def demo_range_def small_numbers) (simp add: utf8_valid_def)

lemma ascii_simple_fits: "list_all (\<lambda>c. of_char c < (128 :: nat)) m \<Longrightarrow> json_fits 127 (simple_json \<lparr>success = b, message = m\<rparr>)"
  using utf8_valid_ascii [of m] by (simp add: simple_json_def list_all_iff) (simp add: utf8_valid_def)

section \<open>A push through the food covers\<close>

lemma food_addressed:
  assumes "cover T = food_client J C" and "method_for (masking T) ''/push'' = ''PUT''"
  shows "addressed None (client_route T ''push'' ''/push'') H_Push" and "fst (client_route T ''push'' ''/push'') = ''/push''"
proof -
  have "route (cover T) ''push'' = None" by (simp add: assms(1) food_client_def)
  then show "addressed None (client_route T ''push'' ''/push'') H_Push" "fst (client_route T ''push'' ''/push'') = ''/push''"
    using default_addressed [of "''push''" "''/push''" H_Push T] assms(2) by (simp_all add: covered_kinds_def client_route_def)
qed

text \<open>
  C6. Through the food covers and the routes of the server a client whose push gets an answer is told
  the truth: success exactly when the push was signed by the registered sender and its number was
  free, and the error code \<open>duplicate_seq\<close>, on which the dialogue logic relies, exactly when it was
  signed and the number was taken. With success the packet has been added to its dialogue, and to no
  other; with any error the database is as before. The client sends PUT, as it does by default, to
  endpoints that are origins without a path of their own (\<open>connected\<close>); the JSON of request and answer is not
  nested deeper than the parser allows.
\<close>

theorem food_push_told:
  fixes E :: "'db server_env" and T :: "('r, 'db \<times> 's) transport"
  assumes J: "json_codec_ok J" and C: "crypto_ok C" and E: "crypto E = C" and inv: "db_inv (kv E) db"
    and u: "utf8_valid (cp_sender q)"
    and T: "cover T = food_client J C" "method_for (masking T) ''/push'' = ''PUT''" "network T = serve None run (\<lambda>_. False)"
      "run H_Push = json_service (push_service (food_server J C) E cfg now)" "connected T None"
    and s: "fst (world s) = db" and req: "push_request_of C q = req" and fit: "json_fits 127 (push_json req)"
      "json_fits 127 (simple_json (fst (do_push E cfg now db req)))"
  shows "\<exists>told s'. transport_push T q s = (told, s') \<and>
    (told = Inr () \<longleftrightarrow>
      (\<exists>payload. authorised_push C cfg req payload) \<and> map_of (log_of (kv E) db (push_did E req)) (psh_seq req) = None) \<and>
    (told = Inl ''duplicate_seq'' \<longleftrightarrow>
      (\<exists>payload. authorised_push C cfg req payload) \<and> map_of (log_of (kv E) db (push_did E req)) (psh_seq req) \<noteq> None) \<and>
    (if told = Inr () then \<exists>payload. authorised_push C cfg req payload \<and> db_inv (kv E) (fst (world s')) \<and>
         (\<forall>d. did_ok d \<longrightarrow> log_of (kv E) (fst (world s')) d = (if d = push_did E req
            then om_insert (psh_seq req) payload (log_of (kv E) db d) else log_of (kv E) db d))
     else fst (world s') = db)"
  unfolding E
  using covers_fit.push_told [OF food_fits [OF J C], where E = E and s = s and q = q and T = T and profile = None and run = run and
      cfg = cfg and now = now, unfolded E s req, OF C inv u T(1,3-5) food_addressed(1) [OF T(1,2)] conjI [OF fit]] .

theorem food_push_told_witness:
  "\<exists>s'. transport_push (demo_transport (food_client demo_json demo_crypto)
      (serve None (demo_run (food_server demo_json demo_crypto) 5) (\<lambda>_. False)))
    demo_core_push (demo_client () ([], ())) = (Inr (), s') \<and>
    packet_log (make_dialogue_id demo_crypto ''alice'' ''bob'') (fst (world s')) = [(1, as_bytes ''hi'')]"
proof -
  let ?T = "demo_transport (food_client demo_json demo_crypto) (serve None (demo_run (food_server demo_json demo_crypto) 5) (\<lambda>_. False))"
  obtain db1 where run: "do_push demo_env demo_config 5 [] (demo_push ''bob'' alice_key 1 ''hi'') =
    (api_ok ''OK'', db1, Some (make_dialogue_id demo_crypto ''alice'' ''bob''))" by (rule demo_push_run)
  have fit: "json_fits 127 (simple_json (api_ok ''OK''))" unfolding api_ok_def by (rule ascii_simple_fits) simp
  have auth: "\<exists>p. authorised_push demo_crypto demo_config (demo_push ''bob'' alice_key 1 ''hi'') p"
    using demo_push_authorised by blast
  have payload: "p = as_bytes ''hi''" if "authorised_push demo_crypto demo_config (demo_push ''bob'' alice_key 1 ''hi'') p" for p
    using that by (auto simp: authorised_push_def)
  note did = dialogue_id_ok [OF demo_crypto_ok, of "''alice''" "''bob''"]
  obtain s' p where told: "transport_push ?T demo_core_push (demo_client () ([], ())) = (Inr (), s')"
    and after: "\<forall>d. did_ok d \<longrightarrow> log_of demo_store (fst (world s')) d = (if d = make_dialogue_id demo_crypto ''alice'' ''bob''
         then om_insert (psh_seq (demo_push ''bob'' alice_key 1 ''hi'')) p (log_of (kv demo_env) [] d) else log_of (kv demo_env) [] d)"
      "authorised_push demo_crypto demo_config (demo_push ''bob'' alice_key 1 ''hi'') p"
    using food_push_told [OF demo_json_ok demo_crypto_ok, of demo_env "[]" demo_core_push ?T
        "demo_run (food_server demo_json demo_crypto) 5"
        demo_config 5 "demo_client () ([], ())" "demo_push ''bob'' alice_key 1 ''hi''"] run fit auth
    by (auto simp: demo_push_fits)
  then have "log_of demo_store (fst (world s')) (make_dialogue_id demo_crypto ''alice'' ''bob'') = [(1, as_bytes ''hi'')]"
    using did payload [OF after(2)] by auto
  with told show ?thesis by simp
qed

text \<open>
  C23. When the first endpoint stores a push but its answer is lost on the way back, the client sends
  the request again, over the same routes, to the second endpoint of the same server and is told \<open>duplicate_seq\<close>, although its own packet is the one stored
  under the number, once and with its payload.
\<close>

theorem food_lost_answer:
  fixes E :: "'db server_env" and T :: "('r, 'db \<times> 's) transport"
  assumes J: "json_codec_ok J" and C: "crypto_ok C" and E: "crypto E = C" and inv: "db_inv (kv E) db"
    and u: "utf8_valid (cp_sender q)"
    and T: "cover T = food_client J C" "method_for (masking T) ''/push'' = ''PUT''" "network T = serve None run (\<lambda>url. url = u1 @ ''/push'')"
      "run H_Push = json_service (push_service (food_server J C) E cfg now)" "connected T None"
      "server_urls T = u1 # u2 # us" "u1 \<noteq> u2"
    and s: "fst (world s) = db" and req: "push_request_of C q = req" and auth: "authorised_push C cfg req payload"
    and free: "map_of (log_of (kv E) db (push_did E req)) (psh_seq req) = None"
    and fit: "json_fits 127 (push_json req)" "json_fits 127 (simple_json (api_ok ''OK''))"
      "json_fits 127 (simple_json (api_fail (''Duplicate seq '' @ show_nat (unat (psh_seq req)))))"
  shows "\<exists>s'. transport_push T q s = (Inl ''duplicate_seq'', s') \<and>
    log_of (kv E) (fst (world s')) (push_did E req) = om_insert (psh_seq req) payload (log_of (kv E) db (push_did E req))"
  unfolding E
  using covers_fit.lost_answer [OF food_fits [OF J C], where E = E and s = s and q = q and T = T and profile = None and run = run and
      cfg = cfg and now = now and ?u1.0 = u1 and ?u2.0 = u2 and us = us and payload = payload, unfolded E s req food_addressed(2) [OF T(1,2)],
      OF C inv u T(1,3-5) food_addressed(1) [OF T(1,2), unfolded food_addressed(2) [OF T(1,2)]] T(6,7) auth free [unfolded E] conjI [OF fit(1,2)] conjI [OF fit(1,3)]] .

theorem food_lost_answer_witness:
  "\<exists>s'. transport_push (demo_transport (food_client demo_json demo_crypto)
      (serve None (demo_run (food_server demo_json demo_crypto) 5) (\<lambda>url. url = ''http://a'' @ ''/push'')))
    demo_core_push (demo_client () ([], ())) = (Inl ''duplicate_seq'', s') \<and>
    packet_log (make_dialogue_id demo_crypto ''alice'' ''bob'') (fst (world s')) = [(1, as_bytes ''hi'')]"
proof -
  have "json_fits 127 (simple_json (api_fail (''Duplicate seq '' @ show_nat (unat (1 :: u64)))))"
    "json_fits 127 (simple_json (api_ok ''OK''))"
    unfolding api_ok_def api_fail_def by (rule ascii_simple_fits, simp add: small_numbers)+
  then show ?thesis
    using food_lost_answer [OF demo_json_ok demo_crypto_ok, where E = demo_env and db = "[]" and q = demo_core_push
        and T = "demo_transport (food_client demo_json demo_crypto)
          (serve None (demo_run (food_server demo_json demo_crypto) 5) (\<lambda>url. url = ''http://a'' @ ''/push''))"
        and ?u1.0 = "''http://a''" and ?u2.0 = "''http://b''" and us = "[]" and run = "demo_run (food_server demo_json demo_crypto) 5"
        and cfg = demo_config and now = 5 and s = "demo_client () ([], ())" and req = "demo_push ''bob'' alice_key 1 ''hi''"
        and payload = "as_bytes ''hi''"]
    by (simp add: demo_push_fits)
qed

section \<open>A message through the profile covers\<close>

text \<open>
  C5. With the same profile on both sides a message travels from client to client, through both covers,
  the routes of the server and its handlers: if the push of the sender is answered with success, the
  next pull of the other client whose window contains the number, signed by either of the two,
  returns exactly the packets of the window, among them this one with the very bytes that were
  pushed. Each kind may have any number of variants, without colliding paths (\<open>schema_ok\<close>) and not
  confused with each other (\<open>unconfused\<close>); the profile names plain paths and methods that reach the
  handlers (\<open>well_addressed\<close>, see \<open>routes_agree\<close>). Nothing changes the database between the two requests
  (\<open>message_delivered\<close> has other requests in between), the read marks of the dialogue can be read, and the
  texts fit what the covers carry (\<open>sendable\<close>).
\<close>

theorem schema_delivery:
  fixes E :: "'db server_env" and T T' :: "('r, 'db \<times> 's) transport"
  assumes S: "schema_ok S" "rng_ok R" "unconfused S R" "rng_ok R'" "unconfused S R'"
    and addresses: "well_addressed (se_profile S) ''push''" "well_addressed (se_profile S) ''pull''"
    and E: "crypto E = se_crypto S" and inv: "db_inv (kv E) db"
    and u: "utf8_valid (cp_sender q)" "utf8_valid (cr_sender g)" "utf8_valid (cr_recver g)"
    and T: "cover T = schema_client S R" "method_parser_ok (parse_method T)" "connected T (Some (se_profile S))"
      "network T = serve (Some (se_profile S)) run (\<lambda>_. False)" "run H_Push = json_service (push_service (schema_server S R') E cfg now)"
    and T': "cover T' = schema_client S R" "method_parser_ok (parse_method T')" "connected T' (Some (se_profile S))"
      "network T' = serve (Some (se_profile S)) run' (\<lambda>_. False)" "run' H_Pull = json_service (pull_service (schema_server S R') E cfg' now')"
    and s: "fst (world s) = db" and pushed: "transport_push T q s = (Inr (), s1)" and kept: "fst (world s2) = fst (world s1)"
    and pair: "{cr_sender g, cr_recver g} = {cp_sender q, cp_recver q}"
    and req: "push_request_of (se_crypto S) q = req" and pr: "range_request_of (se_crypto S) g = pr"
    and auth: "authorised_range (se_crypto S) cfg' pr" and window: "cr_from g < cp_seq q" "cp_seq q \<le> cr_to g"
    and st: "\<forall>u. \<exists>st. receipt_of (kv E) db u (push_did E req) = Inr st"
    and fit: "sendable (se_json S) (push_json req)" "sendable (se_json S) (simple_json (fst (do_push E cfg now db req)))"
      "sendable (se_json S) (range_json ''after_seq'' pr)"
      "sendable (se_json S) (pull_json (fst (do_pull E cfg' now' (fst (world s1)) pr)))"
  shows "\<exists>s3. transport_pull T' g s2 = (Inr (map (\<lambda>(s, v). \<lparr>rp_seq = s, rp_payload = v\<rparr>)
    (requested pr (om_insert (cp_seq q) (cp_payload q) (log_of (kv E) db (push_did E req))))), s3)"
proof -
  have "crypto_ok (se_crypto S)" using S(1) by (simp add: schema_ok_def)
  moreover have "starts (Some (se_profile S))" using T(3) by (simp add: connected_def)
  then have "addressed (Some (se_profile S)) (client_route T ''push'' ''/push'') H_Push"
    "addressed (Some (se_profile S)) (client_route T' ''pull'' ''/pull'') H_Pull"
    using schema_addressed [OF _ T(1,2) _ addresses(1)] schema_addressed [OF _ T'(1,2) _ addresses(2)]
    by (simp_all add: covered_kinds_def)
  ultimately show ?thesis
    using covers_fit.delivered [OF schema_fits [OF S], of E s q g T "Some (se_profile S)" run cfg now T' run' cfg' now' s1 s2] assms by simp
qed

lemma demo_sendable: "json_fits 127 v \<Longrightarrow> length (put_json_bytes v) < 2 ^ 32 \<Longrightarrow> sendable demo_json v"
  by (simp add: sendable_def demo_json_def)

lemma length_put_str: "length (put_str s) = 2 * length s + 1"
  by (induction s) simp_all

lemma demo_sendables:
  "sendable demo_json (push_json (demo_push ''bob'' alice_key 1 ''hi''))" "sendable demo_json (simple_json (api_ok ''OK''))"
  "sendable demo_json (range_json ''after_seq'' (demo_range bob_key 0 9))"
  "sendable demo_json (pull_json \<lparr>pl_success = True, packets = [(1, ''hi'')], pl_message = []\<rparr>)"
proof -
  show "sendable demo_json (push_json (demo_push ''bob'' alice_key 1 ''hi''))"
    using demo_push_fits by (rule demo_sendable) (simp add: push_json_def demo_push_def demo_sig_eq length_put_str alice_key_def)
  have "json_fits 127 (simple_json (api_ok ''OK''))" unfolding api_ok_def by (rule ascii_simple_fits) simp
  then show "sendable demo_json (simple_json (api_ok ''OK''))"
    by (rule demo_sendable) (simp add: simple_json_def)
  show "sendable demo_json (range_json ''after_seq'' (demo_range bob_key 0 9))"
    using demo_pull_fits by (rule demo_sendable) (simp add: range_json_def demo_range_def demo_sig_eq length_put_str bob_key_def)
  show "sendable demo_json (pull_json \<lparr>pl_success = True, packets = [(1, ''hi'')], pl_message = []\<rparr>)"
    by (rule demo_sendable) (simp_all add: pull_json_def packet_json_def utf8_texts utf8_valid_def)
qed

abbreviation demo_cover :: "nat client_cover" where
  "demo_cover \<equiv> schema_client demo_schema_env demo_rng"
abbreviation demo_cover_server :: "nat server_cover" where
  "demo_cover_server \<equiv> schema_server demo_schema_env demo_rng"

theorem schema_delivery_witness:
  "\<exists>s1 s3. transport_push (demo_transport demo_cover (serve (Some full_profile) (demo_run demo_cover_server 5) (\<lambda>_. False)))
      demo_core_push (demo_client 0 ([], 0)) = (Inr (), s1) \<and>
    transport_pull (demo_transport demo_cover (serve (Some full_profile) (demo_run demo_cover_server 6) (\<lambda>_. False)))
      demo_core_pull (demo_client 0 (fst (world s1), 7)) = (Inr [\<lparr>rp_seq = 1, rp_payload = as_bytes ''hi''\<rparr>], s3)"
proof -
  let ?T = "demo_transport demo_cover (serve (Some full_profile) (demo_run demo_cover_server 5) (\<lambda>_. False))"
  let ?T' = "demo_transport demo_cover (serve (Some full_profile) (demo_run demo_cover_server 6) (\<lambda>_. False))"
  have env: "se_crypto demo_schema_env = demo_crypto" "se_json demo_schema_env = demo_json" "se_profile demo_schema_env = full_profile"
    by (simp_all add: demo_schema_env_def)
  obtain db1 where run: "do_push demo_env demo_config 5 [] (demo_push ''bob'' alice_key 1 ''hi'') =
    (api_ok ''OK'', db1, Some (make_dialogue_id demo_crypto ''alice'' ''bob''))" by (rule demo_push_run)
  have "addressed (Some full_profile) (client_route ?T ''push'' ''/push'') H_Push"
    using schema_addressed [of "''push''" "''/push''" H_Push ?T demo_schema_env demo_rng] full_profile_addressed
    by (simp add: covered_kinds_def env)
  then obtain s1 where s1: "transport_push ?T demo_core_push (demo_client 0 ([], 0)) = (Inr (), s1)" "fst (world s1) = db1"
    using demo_schema.fit.push_answered [of ?T "Some full_profile" "demo_run demo_cover_server 5" demo_env demo_config 5
        "demo_client 0 ([], 0)" demo_core_push "api_ok ''OK''" db1]
      run demo_sendables by (auto simp: env push_outcome_def)
  obtain db2 where pull: "do_pull demo_env demo_config 6 db1 (demo_range bob_key 0 9) =
      (\<lparr>pl_success = True, packets = [(1, ''hi'')], pl_message = []\<rparr>, db2)"
    using message_delivered_run [OF run] by blast
  show ?thesis
    using schema_delivery [OF demo_schema_ok demo_rng_ok full_profile_unconfused demo_rng_ok full_profile_unconfused,
        of demo_env "[]" demo_core_push demo_core_pull ?T "demo_run demo_cover_server 5" demo_config 5
        ?T' "demo_run demo_cover_server 6" demo_config 6 "demo_client 0 ([], 0)" s1 "demo_client 0 (fst (world s1), 7)"
        "demo_push ''bob'' alice_key 1 ''hi''" "demo_range bob_key 0 9"] s1 run pull demo_sendables full_profile_addressed
    by (auto simp: env insert_commute)
qed

end
