(* ===== verification/Gateway_Props.thy ===== *)
theory Gateway_Props
  imports Admin_Client Admin_Props Delivery_Props Server_Main
begin

text \<open>
  The masked administration from end to end: what the client of the panel sends through the gateway
  of the server reaches the plain handlers unchanged, and their answer comes back. The locale
  \<open>gateway_pair\<close> collects what both sides must share; it is interpreted on an example at the end.
\<close>

section \<open>One masked exchange\<close>

definition gateway_ok :: "json_codec \<Rightarrow> crypto_env \<Rightarrow> aead \<Rightarrow> masking_profile \<Rightarrow> 'r rng \<Rightarrow> ('db, 's) gateway_env \<Rightarrow> bool" where
  "gateway_ok J C A P R G \<longleftrightarrow> json_codec_ok J \<and> crypto_ok C \<and> aead_ok A \<and> (\<exists>key. cover_key C P = Inr key) \<and>
     rng_ok R \<and> rng_ok (ge_rng G) \<and> ge_profile G = Some P \<and> ge_json G = J \<and> crypto (ge_server G) = C \<and> ge_aead G = A"

locale gateway_pair =
  fixes J :: json_codec and C :: crypto_env and A :: aead and P :: masking_profile and R :: "'r rng"
    and G :: "('db, 's) gateway_env"
  assumes pair: "gateway_ok J C A P R G"
begin

lemmas json = pair [unfolded gateway_ok_def, THEN conjunct1]

lemma crypto_law: "crypto_ok C" and aead_law: "aead_ok A" and key: "\<exists>key. cover_key C P = Inr key"
    and rngs: "rng_ok R" "rng_ok (ge_rng G)"
    and shared: "ge_profile G = Some P" "ge_json G = J" "crypto (ge_server G) = C" "ge_aead G = A"
  using pair by (simp_all add: gateway_ok_def)

lemma masked:
  assumes "serves P kind" and "sendable J v" and "rng_ok Q" and "separated C A Q P kind"
  shows "\<exists>body r'. wrap C A Q P kind (to_vec J v) r = (Inr body, r') \<and> unwrap C A P kind body = Inr (to_vec J v) \<and>
    from_slice J (to_vec J v) = Inr v"
proof -
  obtain spec where spec: "map_of (kinds P) kind = Some spec" "spec_ok spec"
    using assms(1) by (auto simp: serves_def split: option.splits)
  have "length (to_vec J v) < 2 ^ 32" "from_slice J (to_vec J v) = Inr v"
    using assms(2) json by (auto simp: sendable_def json_codec_ok_def)
  moreover obtain k where "cover_key C P = Inr k" using key by blast
  ultimately show ?thesis
    using separated_roundtrip [OF crypto_law aead_law assms(3) _ spec assms(4)] by blast
qed

lemma masked_exchange:
  assumes "serves P kind" and "serves P resp_kind" and "sendable J req" and "decode req = Inr q"
    and "handle_it q w = (resp, w')" and "sendable J resp"
    and "separated C A R P kind" and "separated C A (ge_rng G) P resp_kind"
  shows "\<exists>body r' answer x. wrap C A R P kind (to_vec J req) r = (Inr body, r') \<and>
    covered_request G kind resp_kind decode bad handle_it body w = (answer, w'\<lparr>gs_rng := x\<rparr>) \<and>
    unwrap C A P resp_kind answer = Inr (to_vec J resp) \<and> from_slice J (to_vec J resp) = Inr resp"
proof -
  obtain body r' where body: "wrap C A R P kind (to_vec J req) r = (Inr body, r')"
      "unwrap C A P kind body = Inr (to_vec J req)" "from_slice J (to_vec J req) = Inr req"
    using masked [OF assms(1,3) rngs(1) assms(7)] by blast
  obtain answer x where answer: "wrap C A (ge_rng G) P resp_kind (to_vec J resp) (gs_rng w') = (Inr answer, x)"
      "unwrap C A P resp_kind answer = Inr (to_vec J resp)" "from_slice J (to_vec J resp) = Inr resp"
    using masked [OF assms(2,6) rngs(2) assms(8)] by blast
  have "covered_request G kind resp_kind decode bad handle_it body w = (answer, w'\<lparr>gs_rng := x\<rparr>)"
    using body(2,3) answer(1) assms(4,5) by (simp add: covered_request_def seal_resp_def shared)
  with body(1) answer(2,3) show ?thesis by blast
qed

end

section \<open>The envelope\<close>

lemma admin_message_eq: "admin_message op n t x = canonical_message op n t x"
  by (simp add: admin_message_def canonical_message_def)

lemma de_opt_some: "v \<noteq> J_Null \<Longrightarrow> de_opt f v = try_then (f v) (\<lambda>x. Inr (Some x))"
  by (cases v) (simp_all add: de_opt_def)

lemma admin_body_read:
  assumes "json_fits 127 (admin_body op nonce ts username patch sig)" and "patch \<noteq> Some J_Null"
  shows "admin_envelope_of_json (admin_body op nonce ts username patch sig) =
    Inr \<lparr>ae_op = op, ae_nonce = nonce, ae_ts = ts, ae_username = username, ae_patch = patch, ae_sig = sig\<rparr>"
proof -
  have "dedup p = p" if "patch = Some p" for p
    using assms(1) that by (intro dedup_wf json_fits_wf [of 126]) (auto simp: admin_body_def split: option.splits)
  with assms(2) show ?thesis
    by (cases username; cases patch)
      (simp_all add: admin_body_def admin_envelope_of_json_def field_def de_opt_some de_value_def)
qed

text \<open>
  A signature of the right level in a fresh envelope passes the gate: the administrator's own key for
  the base operations, the extended key for all.
\<close>

definition key_level :: "crypto_env \<Rightarrow> server_config \<Rightarrow> bytes \<Rightarrow> capability \<Rightarrow> bool" where
  "key_level C cfg pub cap \<longleftrightarrow> (\<exists>base. admin_pubkey_bytes C cfg = Inr base \<and>
     (cap = Base \<and> base = pub \<or> extended_admin_pubkey_bytes C cfg = Some pub))"

lemma signed_passes:
  assumes "crypto_ok C" and "signer_ok C K" and "length kp = 32" and "key_level C cfg (sk_public K kp) cap"
    and "in_window now t" and "retain_fresh now nonces n = None"
    and "env = \<lparr>ae_op = op, ae_nonce = n, ae_ts = t, ae_username = u, ae_patch = p,
      ae_sig = sign_canonical C K kp (admin_message op n t x)\<rparr>"
  shows "verify_env C cfg now nonces env op x cap = (Inr (), (retain_fresh now nonces)(n \<mapsto> t))"
proof -
  have "decode_b64 C (sign_canonical C K kp m) = Inr (sk_sign K kp (as_bytes m))" for m
    using assms(1) by (simp add: crypto_ok_def decode_b64_def sign_canonical_def)
  moreover have "verify_signature C (sk_public K kp) m (sk_sign K kp m) = Inr ()" for m
    using assms(2,3) by (simp add: signer_ok_def)
  ultimately show ?thesis
    using assms(4-6)
    by (cases cap) (auto simp: verify_env_def check_nonce_def verify_admin_sig_def verify_with_keys_def key_level_def
        assms(7) admin_message_eq)
qed

section \<open>From the panel to the handler\<close>

definition gateway_client :: "json_codec \<Rightarrow> crypto_env \<Rightarrow> aead \<Rightarrow> 'r rng \<Rightarrow> masking_profile \<Rightarrow> ('r, 'w) admin_env \<Rightarrow> bool" where
  "gateway_client J C A R P N \<longleftrightarrow> an_json N = J \<and> an_crypto N = C \<and> an_aead N = A \<and> an_rng N = R \<and> an_profile N = Some P \<and>
     signer_ok C (an_signer N)"

text \<open>
  The panel and the server agree on the address of the gateway when the method of the profile is
  the one that the panel uses for its path (PUT, unless its masking of plain requests says otherwise).
\<close>

definition gateway_addressed :: "masking_profile \<Rightarrow> ('r, 'w) transport \<Rightarrow> string \<Rightarrow> bool" where
  "gateway_addressed P T kind \<longleftrightarrow> (case map_of (kinds P) kind of None \<Rightarrow> False
     | Some spec \<Rightarrow> plain_path (spec_path spec) \<and> method_for (masking T) (spec_path spec) = method_name (method_filter (spec_method spec)))"

lemma gateway_dispatch:
  assumes "gateway_addressed P T kind" and "starts (Some P)"
    and "(kind, h) \<in> {(''admin'', H_Admin_Gateway), (''reg'', H_Reg_Gateway), (''blob'', H_Blob_Gateway)}"
    and "map_of (kinds P) kind = Some spec"
  shows "addressed (Some P) (spec_path spec, method_for (masking T) (spec_path spec)) h"
proof -
  have "((spec_path spec, method_filter (spec_method spec)), h) \<in> set (app_routes (Some P))"
    unfolding app_routes_set using assms(3,4) by (auto simp: gateway_route_def)
  then have "dispatch (Some P) (method_name (method_filter (spec_method spec))) (spec_path spec) = Some h"
    using dispatch_iff [OF assms(2)] by blast
  with assms(1,4) show ?thesis by (simp add: gateway_addressed_def addressed_def)
qed

context gateway_pair
begin

lemma covered_send:
  assumes N: "gateway_client J C A R P N"
    and net: "network (an_transport N) = serve (Some P) run (\<lambda>_. False)" "connected (an_transport N) (Some P)"
      "run h = json_service (covered_request G kind resp_kind decode bad handle_it)"
      "(kind, h) \<in> {(''admin'', H_Admin_Gateway), (''reg'', H_Reg_Gateway), (''blob'', H_Blob_Gateway)}"
      "gateway_addressed P (an_transport N) kind"
    and kinds: "serves P kind" "serves P resp_kind" and apart: "separated C A R P kind" "separated C A (ge_rng G) P resp_kind"
    and req: "sendable J body" "decode body = Inr q"
    and resp: "handle_it q (world s) = (resp, w')" "sendable J resp"
  shows "\<exists>s' x. try_covered_send N kind resp_kind body s = (Inr (Some resp), s') \<and> world s' = w'\<lparr>gs_rng := x\<rparr>"
proof -
  obtain covered_body r' answer x where ex:
    "wrap C A R P kind (to_vec J body) (rng_state s) = (Inr covered_body, r')"
    "covered_request G kind resp_kind decode bad handle_it covered_body (world s) = (answer, w'\<lparr>gs_rng := x\<rparr>)"
    "unwrap C A P resp_kind answer = Inr (to_vec J resp)" "from_slice J (to_vec J resp) = Inr resp"
    using masked_exchange [where decode = decode and q = q and handle_it = handle_it and w = "world s" and resp = resp and w' = w',
        OF kinds req resp apart] by blast
  obtain spec where spec: "map_of (kinds P) kind = Some spec" using kinds(1) by (auto simp: serves_def split: option.splits)
  have handled: "covered_request G kind resp_kind decode bad handle_it covered_body (world (s\<lparr>rng_state := r'\<rparr>)) =
      (answer, w'\<lparr>gs_rng := x\<rparr>)" using ex(2) by simp
  have "starts (Some P)" using net(2) by (simp add: connected_def)
  from request_answered [OF net(1,3,2) gateway_dispatch [OF net(5) this net(4) spec] handled] obtain s' where
    s': "put_json (an_transport N) (spec_path spec) covered_body (s\<lparr>rng_state := r'\<rparr>) = (Inr answer, s')"
      "world s' = w'\<lparr>gs_rng := x\<rparr>" by (auto simp: put_json_def)
  have "dedup resp = resp" using resp(2) by (auto simp: sendable_def intro: dedup_wf json_fits_wf)
  with N spec ex s'(1) have "try_covered_send N kind resp_kind body s = (Inr (Some resp), s')"
    by (simp add: try_covered_send_def gateway_client_def)
  with s'(2) show ?thesis by blast
qed

lemma admin_through_gateway:
  assumes N: "gateway_client J C A R P N"
    and net: "network (an_transport N) = serve (Some P) run (\<lambda>_. False)" "connected (an_transport N) (Some P)"
      "run H_Admin_Gateway = json_service (admin_gateway G names now saved)" "gateway_addressed P (an_transport N) ''admin''"
    and kinds: "serves P ''admin''" "serves P ''admin_resp''"
    and apart: "separated C A R P ''admin''" "separated C A (ge_rng G) P ''admin_resp''"
    and kp: "from_secret_b64 C secret = Inr kp"
    and env: "env = \<lparr>ae_op = op, ae_nonce = nonce, ae_ts = ts, ae_username = username, ae_patch = patch,
      ae_sig = sign_canonical C (an_signer N) kp (admin_message op nonce ts (admin_extra (an_text N) op username patch))\<rparr>"
    and req: "sendable J (admin_body op nonce ts username patch (ae_sig env))" "patch \<noteq> Some J_Null"
    and resp: "admin_dispatch G names now saved env (world s) = (resp, w')" "sendable J resp"
  shows "\<exists>s' x. do_admin N nonce ts secret op username patch s = (Inr resp, s') \<and> world s' = w'\<lparr>gs_rng := x\<rparr>"
proof -
  have "admin_envelope_of_json (admin_body op nonce ts username patch (ae_sig env)) = Inr env"
    using admin_body_read [of op nonce ts username patch "ae_sig env"] req by (simp add: sendable_def env)
  from covered_send [OF N net(1,2) net(3) [unfolded admin_gateway_def] _ net(4) kinds apart req(1) this resp]
  have "\<exists>s' x. try_covered_send N ''admin'' ''admin_resp'' (admin_body op nonce ts username patch (ae_sig env)) s = (Inr (Some resp), s') \<and>
      world s' = w'\<lparr>gs_rng := x\<rparr>" by simp
  moreover have "an_crypto N = C" using N by (simp add: gateway_client_def)
  ultimately show ?thesis using kp by (auto simp: do_admin_def env)
qed

lemma deletion_through_gateway:
  assumes N: "gateway_client J C A R P N"
    and net: "network (an_transport N) = serve (Some P) run (\<lambda>_. False)" "connected (an_transport N) (Some P)"
      "run H_Admin_Gateway = json_service (admin_gateway G names now True)" "gateway_addressed P (an_transport N) ''admin''"
    and kinds: "serves P ''admin''" "serves P ''admin_resp''"
    and apart: "separated C A R P ''admin''" "separated C A (ge_rng G) P ''admin_resp''"
    and kp: "from_secret_b64 C secret = Inr kp" "key_level C (gs_config (world s)) (sk_public (an_signer N) kp) Base"
    and fresh: "in_window now ts" "retain_fresh now (gs_admin_nonces (world s)) nonce = None"
    and user: "username \<noteq> []" "users (gs_config (world s)) username \<noteq> None"
    and fits: "sendable J (admin_body ''delete_user'' nonce ts (Some username) None
        (sign_canonical C (an_signer N) kp (admin_message ''delete_user'' nonce ts username)))"
      "sendable J (admin_json names Adm_Ok)"
  shows "\<exists>s'. delete_user N nonce ts secret username s = (Inr (admin_json names Adm_Ok), s') \<and>
    gs_config (world s') = remove_user (gs_config (world s)) username \<and>
    gs_admin_nonces (world s') nonce = Some ts \<and> gs_db (world s') = gs_db (world s)"
proof -
  define env where "env = \<lparr>ae_op = ''delete_user'', ae_nonce = nonce, ae_ts = ts, ae_username = Some username, ae_patch = None,
      ae_sig = sign_canonical C (an_signer N) kp (admin_message ''delete_user'' nonce ts username)\<rparr>"
  have "length kp = 32" using kp(1) by (auto simp: from_secret_b64_def try_then_Inr_iff split: if_splits)
  moreover have "signer_ok C (an_signer N)" using N by (simp add: gateway_client_def)
  ultimately have pass: "verify_env C (gs_config (world s)) now (gs_admin_nonces (world s)) env ''delete_user'' username Base =
      (Inr (), (retain_fresh now (gs_admin_nonces (world s)))(nonce \<mapsto> ts))"
    using signed_passes [OF crypto_law _ _ kp(2) fresh env_def] by blast
  let ?w = "(world s)\<lparr>gs_config := remove_user (gs_config (world s)) username,
      gs_admin_nonces := (retain_fresh now (gs_admin_nonces (world s)))(nonce \<mapsto> ts)\<rparr>"
  have "admin_dispatch G names now True env (world s) = (admin_json names Adm_Ok, ?w)"
    using pass user by (auto simp: admin_dispatch_def users_delete_def env_def shared Let_def)
  moreover have "admin_extra (an_text N) ''delete_user'' (Some username) None = username"
    by (simp add: admin_extra_def)
  ultimately obtain s' x where "do_admin N nonce ts secret ''delete_user'' (Some username) None s = (Inr (admin_json names Adm_Ok), s')"
      "world s' = ?w\<lparr>gs_rng := x\<rparr>"
    using admin_through_gateway [OF N net kinds apart kp(1), of env "''delete_user''" nonce ts "Some username" None s] fits
    by (auto simp: env_def)
  then show ?thesis by (simp add: delete_user_def)
qed

end

lemma deletion_served: "gateway_ok J C A P R G \<Longrightarrow> gateway_pair J C A P R G"
  by (rule gateway_pair.intro)

text \<open>
  C4. An administrator who deletes a user through the masked interface, with a key that the server
  accepts and a fresh nonce, is answered with success, and the user is gone from the configuration of
  the server, the nonce is used up and the messages are untouched. The request takes the routes of the
  server: it must arrive at an endpoint whose router is the server's own, under a method of the
  profile that the panel uses (\<open>gateway_addressed\<close>). The panel sends PUT whatever the profile says, so a
  profile that names another method for the kind is not covered: there the request is refused
  (\<open>masked_admin_method\<close>). The kinds may have several variants, not confused with each other
  (\<open>separated\<close>).
\<close>

theorem masked_deletion:
  assumes "gateway_ok J C A P R G" and "gateway_client J C A R P N"
    and "network (an_transport N) = serve (Some P) run (\<lambda>_. False)" "connected (an_transport N) (Some P)"
      "run H_Admin_Gateway = json_service (admin_gateway G names now True)" "gateway_addressed P (an_transport N) ''admin''"
    and "serves P ''admin''" "serves P ''admin_resp''"
    and "separated C A R P ''admin''" "separated C A (ge_rng G) P ''admin_resp''"
    and "from_secret_b64 C secret = Inr kp" "key_level C (gs_config (world s)) (sk_public (an_signer N) kp) Base"
    and "in_window now ts" "retain_fresh now (gs_admin_nonces (world s)) nonce = None"
    and "username \<noteq> []" "users (gs_config (world s)) username \<noteq> None"
    and "sendable J (admin_body ''delete_user'' nonce ts (Some username) None
        (sign_canonical C (an_signer N) kp (admin_message ''delete_user'' nonce ts username)))"
      "sendable J (admin_json names Adm_Ok)"
  shows "\<exists>s'. delete_user N nonce ts secret username s = (Inr (admin_json names Adm_Ok), s') \<and>
    gs_config (world s') = remove_user (gs_config (world s)) username \<and>
    gs_admin_nonces (world s') nonce = Some ts \<and> gs_db (world s') = gs_db (world s)"
  by (rule gateway_pair.deletion_through_gateway [OF deletion_served [OF assms(1)] assms(2-18)])

section \<open>Example\<close>

definition demo_signer :: signer where
  "demo_signer = \<lparr>sk_public = id, sk_sign = demo_sign\<rparr>"

lemma demo_signer_ok [simp]: "signer_ok demo_crypto demo_signer"
proof -
  have "length (demo_sign k m) = 64" for k m by (simp add: demo_sign_def)
  then show ?thesis by (simp add: signer_ok_def demo_signer_def verify_signature_def demo_crypto_def)
qed

definition admin_profile :: masking_profile where
  "admin_profile = profile_of [(''admin'', ''/a'', ''PUT''), (''admin_resp'', ''/b'', ''PUT'')]"

lemma one_variant_ok [simp]: "variant_ok one_variant"
proof -
  have "segments ''a'' = [Key ''a'']" by (simp add: segments_def segment_of_def parse_u64_def digit_value_def)
  then show ?thesis by (simp add: variant_ok_def variant_paths_def one_variant_def ensure_object_def)
qed

lemma admin_profile_serves: "serves admin_profile ''admin''" "serves admin_profile ''admin_resp''"
  by (simp_all add: serves_def spec_ok_def admin_profile_def profile_of_kinds)

definition demo_gateway :: "((string \<times> bytes) list, nat) gateway_env" where
  "demo_gateway = \<lparr>ge_server = demo_env, ge_json = demo_json, ge_aead = demo_aead, ge_rng = demo_rng,
     ge_profile = Some admin_profile, ge_text = (\<lambda>_. [])\<rparr>"

lemma admin_profile_separated [simp]: "separated demo_crypto demo_aead demo_rng admin_profile kind"
  by (rule marked_separated) (auto simp: admin_profile_def profile_of_kinds spec_ok_def split: if_splits)

lemma admin_profile_starts [simp]: "starts (Some admin_profile)"
  by (simp add: starts_def app_routes_def server_route_def gateway_route_def admin_router_def admin_profile_def profile_of_kinds
      method_filter_def ascii_upper_def Let_def)

definition demo_panel :: "'w network \<Rightarrow> (nat, 'w) admin_env" where
  "demo_panel net = \<lparr>an_transport = demo_transport (food_client demo_json demo_crypto) net, an_json = demo_json,
     an_crypto = demo_crypto, an_aead = demo_aead, an_rng = demo_rng, an_signer = demo_signer,
     an_profile = Some admin_profile, an_text = (\<lambda>_. [])\<rparr>"

interpretation demo_gate: gateway_pair demo_json demo_crypto demo_aead admin_profile demo_rng demo_gateway
proof
  have "cover_key demo_crypto admin_profile = Inr (as_bytes alice_key)"
    by (simp add: cover_key_def admin_profile_def profile_of_def COVER_KEY_LEN_def alice_key_def)
  then show "gateway_ok demo_json demo_crypto demo_aead admin_profile demo_rng demo_gateway"
    by (simp add: gateway_ok_def demo_gateway_def demo_aead_ok)
qed

definition demo_gateway_state :: "((string \<times> bytes) list, nat) gateway_state" where
  "demo_gateway_state = \<lparr>gs_config = demo_config\<lparr>admin_key := alice_key\<rparr>, gs_admin_nonces = Map.empty,
     gs_blob_nonces = new_guard 1, gs_db = [], gs_rng = 0\<rparr>"

definition demo_gateway_run :: "handler \<Rightarrow> ((string \<times> bytes) list, nat) gateway_state service" where
  "demo_gateway_run h =
     (if h = H_Admin_Gateway then json_service (admin_gateway demo_gateway [] 0 True)
      else (\<lambda>req. Pair (Responded 500 (Inl ''not in the example''))))"

theorem masked_deletion_witness:
  "\<exists>s'. delete_user (demo_panel (serve (Some admin_profile) demo_gateway_run (\<lambda>_. False))) ''n'' 0 alice_key ''bob''
      (demo_client 0 demo_gateway_state) = (Inr (admin_json [] Adm_Ok), s') \<and> users (gs_config (world s')) ''bob'' = None"
proof -
  let ?N = "demo_panel (serve (Some admin_profile) demo_gateway_run (\<lambda>_. False))"
  have N: "gateway_client demo_json demo_crypto demo_aead demo_rng admin_profile ?N"
    by (simp add: gateway_client_def demo_panel_def)
  have kp: "from_secret_b64 demo_crypto alice_key = Inr (as_bytes alice_key)"
    by (simp add: from_secret_b64_def with_context_def alice_key_def)
  have level: "key_level demo_crypto (gs_config demo_gateway_state) (sk_public (an_signer ?N) (as_bytes alice_key)) Base"
    by (simp add: key_level_def demo_gateway_state_def demo_panel_def demo_signer_def admin_pubkey_bytes_def alice_key_def)
  have sig: "sign_canonical demo_crypto demo_signer (as_bytes alice_key) m = demo_sig alice_key m" for m
    by (simp add: sign_canonical_def demo_signer_def demo_sig_def demo_crypto_def)
  have "utf8_valid (demo_sig alice_key (admin_message ''delete_user'' ''n'' 0 ''bob''))"
    by (rule utf8_valid_ascii) (auto simp: demo_sig_eq alice_key_def admin_message_def small_numbers dest!: in_set_takeD)
  then have "json_fits 127 (admin_body ''delete_user'' ''n'' 0 (Some ''bob'') None
      (sign_canonical demo_crypto (an_signer ?N) (as_bytes alice_key) (admin_message ''delete_user'' ''n'' 0 ''bob'')))"
    by (simp add: admin_body_def demo_panel_def sig) (simp add: utf8_valid_def)
  then have fits: "sendable demo_json (admin_body ''delete_user'' ''n'' 0 (Some ''bob'') None
      (sign_canonical demo_crypto (an_signer ?N) (as_bytes alice_key) (admin_message ''delete_user'' ''n'' 0 ''bob'')))"
    by (simp add: sendable_def demo_json_def admin_body_def demo_panel_def sig)
       (simp add: demo_sig_eq alice_key_def length_put_str min_def)
  have fits2: "sendable demo_json (admin_json [] Adm_Ok)"
    by (simp add: sendable_def demo_json_def ok_json_def) (simp add: utf8_valid_def)
  let ?s = "demo_client 0 demo_gateway_state :: (nat, _) client_state"
  have net: "network (an_transport ?N) = serve (Some admin_profile) demo_gateway_run (\<lambda>_. False)"
      "connected (an_transport ?N) (Some admin_profile)"
      "demo_gateway_run H_Admin_Gateway = json_service (admin_gateway demo_gateway [] 0 True)"
    by (simp_all add: demo_panel_def demo_gateway_run_def)
  have "plain_path ''/a''" by code_simp
  then have addressed: "gateway_addressed admin_profile (an_transport ?N) ''admin''"
    by (simp add: gateway_addressed_def admin_profile_def profile_of_kinds demo_panel_def method_filter_def ascii_upper_def
        method_name_def)
  have apart: "separated demo_crypto demo_aead demo_rng admin_profile ''admin''"
      "separated demo_crypto demo_aead (ge_rng demo_gateway) admin_profile ''admin_resp''"
    by (simp_all add: demo_gateway_def)
  have level': "key_level demo_crypto (gs_config (world ?s)) (sk_public (an_signer ?N) (as_bytes alice_key)) Base"
    using level by simp
  have fresh: "in_window 0 0" "retain_fresh 0 (gs_admin_nonces (world ?s)) ''n'' = None"
    by (simp_all add: in_window_def sat_sub_def retain_fresh_def demo_gateway_state_def)
  have user: "''bob'' \<noteq> []" "users (gs_config (world ?s)) ''bob'' \<noteq> None"
    by (simp_all add: demo_gateway_state_def)
  from masked_deletion [OF demo_gate.pair N net addressed admin_profile_serves apart kp level' fresh user fits fits2]
  show ?thesis by (auto simp: remove_user_def)
qed

section \<open>The method of masked administration\<close>

text \<open>A network that notes the requests and never answers.\<close>

definition recorder :: "http_request list network" where
  "recorder req w = (Send_Failed, w @ [req])"

lemma failover_recorded:
  assumes "network T = recorder"
  shows "\<exists>reqs. world (snd (failover (\<lambda>u. send_once T m (u @ path) body auth) us lst s)) = world s @ reqs \<and>
    length reqs = length us \<and> (\<forall>q \<in> set reqs. hr_method q = m)"
proof (induction us arbitrary: lst s)
  case Nil
  then show ?case by (cases lst) auto
next
  case (Cons u us)
  define q where "q = \<lparr>hr_method = m, hr_url = u @ path, hr_body = body, hr_auth = auth,
            hr_user_agent = user_agent (masking T) (ua_rotation s), hr_cache = cache_value (masking T)\<rparr>"
  let ?s = "s\<lparr>ua_rotation := ua_rotation s + 1, world := world s @ [q]\<rparr>"
  have "send_once T m (u @ path) body auth s = (Inl (Retry ''server endpoint request failed''), ?s)"
    by (simp add: send_once_def assms recorder_def q_def)
  moreover obtain reqs where "world (snd (failover (\<lambda>u. send_once T m (u @ path) body auth) us
      (Some ''server endpoint request failed'') ?s)) = world ?s @ reqs" "length reqs = length us" "\<forall>q \<in> set reqs. hr_method q = m"
    using Cons.IH by blast
  ultimately show ?case by (intro exI [of _ "q # reqs"]) (simp add: q_def)
qed

text \<open>
  The panel sends a masked administration or registration request with the default method to
  every endpoint, whatever method the profile gives to the kind, while the server puts the gateway
  under that method: with a profile that says POST no such request is served.
\<close>

lemma masked_admin_method:
  assumes "network (an_transport N) = recorder" and "masking (an_transport N) = default_masking"
    and "an_profile N = Some P" and "(kind, h) \<in> {(''admin'', H_Admin_Gateway), (''reg'', H_Reg_Gateway)}"
    and "map_of (kinds P) kind = Some spec"
    and "wrap (an_crypto N) (an_aead N) (an_rng N) P kind (to_vec (an_json N) body) (rng_state s) = (Inr covered_body, r)"
  shows "\<exists>reqs. world (snd (try_covered_send N kind resp_kind body s)) = world s @ reqs \<and>
    length reqs = length (server_urls (an_transport N)) \<and> (\<forall>q \<in> set reqs. hr_method q = ''PUT'') \<and>
    ((spec_path spec, method_filter (spec_method spec)), h) \<in> set (app_routes (Some P)) \<and>
    gateway_route (Some P) kind h = [((spec_path spec, method_filter (spec_method spec)), h)]"
proof -
  let ?T = "an_transport N"
  have m: "method_for (masking ?T) path = ''PUT''" for path by (simp add: method_for_def assms(2) default_masking_def)
  have "world (snd (try_covered_send N kind resp_kind body s)) =
      world (snd (put_json ?T (spec_path spec) covered_body (s\<lparr>rng_state := r\<rparr>)))"
    using assms(3,5,6) by (auto simp: try_covered_send_def split: prod.splits sum.splits)
  moreover obtain reqs where "world (snd (put_json ?T (spec_path spec) covered_body (s\<lparr>rng_state := r\<rparr>))) = world s @ reqs"
      "length reqs = length (server_urls ?T)" "\<forall>q \<in> set reqs. hr_method q = ''PUT''"
    using failover_recorded [OF assms(1), of "''PUT''" "spec_path spec" "Some covered_body" None "server_urls ?T" None "s\<lparr>rng_state := r\<rparr>"]
    by (auto simp: put_json_def request_json_def m)
  moreover have g: "gateway_route (Some P) kind h = [((spec_path spec, method_filter (spec_method spec)), h)]"
    using assms(5) by (simp add: gateway_route_def)
  moreover have "((spec_path spec, method_filter (spec_method spec)), h) \<in> set (app_routes (Some P))"
    unfolding app_routes_set using assms(4) g by auto
  ultimately show ?thesis by (intro exI [of _ reqs] conjI) (simp_all only:)
qed

lemma masked_admin_method_example:
  "\<exists>reqs. reqs \<noteq> [] \<and> world (snd (try_covered_send (demo_panel recorder\<lparr>an_profile := Some (profile_of [(''admin'', ''/a'', ''POST'')])\<rparr>)
      ''admin'' ''admin_resp'' J_Null (demo_client 0 []))) = reqs \<and> list_all (\<lambda>q. hr_method q = ''PUT'') reqs \<and>
    gateway_route (Some (profile_of [(''admin'', ''/a'', ''POST'')])) ''admin'' H_Admin_Gateway = [((''/a'', M_Post), H_Admin_Gateway)]"
proof -
  let ?P = "profile_of [(''admin'', ''/a'', ''POST'')]"
  let ?N = "demo_panel recorder\<lparr>an_profile := Some ?P\<rparr>"
  have kind: "map_of (kinds ?P) ''admin'' = Some \<lparr>spec_path = ''/a'', spec_method = ''POST'', schemas = [one_variant]\<rparr>"
    by (simp add: profile_of_kinds)
  have "cover_key demo_crypto ?P = Inr (as_bytes alice_key)"
    by (simp add: cover_key_def profile_of_def COVER_KEY_LEN_def alice_key_def)
  from cover_roundtrip_single [OF demo_crypto_ok demo_aead_ok demo_rng_ok this kind, of one_variant "to_vec demo_json J_Null" 0]
  obtain b r where "wrap demo_crypto demo_aead demo_rng ?P ''admin'' (to_vec demo_json J_Null) 0 = (Inr b, r)"
    by (auto simp: one_variant_ok demo_json_def)
  then have w: "wrap (an_crypto ?N) (an_aead ?N) (an_rng ?N) ?P ''admin'' (to_vec (an_json ?N) J_Null)
      (rng_state (demo_client 0 [])) = (Inr b, r)"
    by (simp add: demo_panel_def demo_client_def)
  have net: "network (an_transport ?N) = recorder" "masking (an_transport ?N) = default_masking" "an_profile ?N = Some ?P"
    "length (server_urls (an_transport ?N)) = 2"
    by (simp_all add: demo_panel_def demo_transport_def)
  from masked_admin_method [where h = H_Admin_Gateway, OF net(1-3) _ kind w, of "''admin_resp''"] net(4)
  show ?thesis by (auto simp: list_all_iff method_filter_examples)
qed

end
