(* ===== verification/Client_Types.thy ===== *)
theory Client_Types
  imports Cover_Core Client_Crypto
begin

text \<open>
  What is inside the encrypted payload (\<open>ParanoiaLibrary/src/types.rs\<close>, \<open>packet.rs\<close>): the kinds of
  content, the packet around it and their JSON forms as \<open>derive(Serialize, Deserialize)\<close> makes them.
  Milliseconds since 1970 are in two's complement, the time of a message is in nanoseconds, \<open>usize\<close> is a natural number.
\<close>

section \<open>Contents\<close>

datatype attachment_kind = Kind_File | Kind_Image | Kind_Voice | Kind_Video

record file_attachment =
  fa_filename :: string
  fa_mime_type :: string
  fa_size :: nat
  fa_data :: bytes
  fa_transfer_id :: "string option"
  fa_cache_path :: "string option"
  fa_chunk_count :: u32
  fa_body_from_seq :: u64
  fa_body_to_seq :: u64
  fa_downloaded :: bool
  fa_group_id :: "string option"
  fa_ephemeral_file_id :: "string option"
  fa_ephemeral_expires_at :: "u64 option"
  fa_ephemeral_file_key :: "string option"

record file_header =
  fh_transfer_id :: string
  fh_kind :: attachment_kind
  fh_filename :: string
  fh_mime_type :: string
  fh_total_size :: nat
  fh_chunks :: u32
  fh_group_id :: "string option"

record file_chunk =
  fc_transfer_id :: string
  fc_index :: u32
  fc_total :: u32
  fc_filename :: string
  fc_mime_type :: string
  fc_total_size :: nat
  fc_data :: bytes

datatype message_content =
  Text_Msg string
| Text_Reply string string string string
| File_Msg file_attachment
| Image_Msg file_attachment
| Voice_Msg file_attachment
| Video_Msg file_attachment
| Photo_Group string string
| Header_Msg file_header
| Chunk_Msg file_chunk
| Receipt_Msg u64
| Delete_Msg string
| Reaction_Msg string string

datatype message_status = Sending | Sent | Delivered | Read | Failed

record message =
  m_id :: string
  m_dialogue :: dialogue_key
  m_sender :: string
  m_content :: message_content
  m_timestamp :: int
  m_status :: message_status
  m_server_seq :: "u64 option"
  m_topic_id :: "string option"
  m_topic_name :: "string option"

record packet_inner =
  pi_id :: string
  pi_timestamp :: u64
  pi_sender :: string
  pi_content :: message_content
  pi_topic_name :: "string option"

definition attachment_content :: "attachment_kind \<Rightarrow> file_attachment \<Rightarrow> message_content" where
  "attachment_content k f =
     (case k of Kind_File \<Rightarrow> File_Msg f | Kind_Image \<Rightarrow> Image_Msg f | Kind_Voice \<Rightarrow> Voice_Msg f | Kind_Video \<Rightarrow> Video_Msg f)"

fun attachment_ref :: "message_content \<Rightarrow> file_attachment option" where
  "attachment_ref (File_Msg f) = Some f"
| "attachment_ref (Image_Msg f) = Some f"
| "attachment_ref (Voice_Msg f) = Some f"
| "attachment_ref (Video_Msg f) = Some f"
| "attachment_ref _ = None"

definition kind_for_mime :: "string \<Rightarrow> attachment_kind" where
  "kind_for_mime mime =
     (if prefix ''video/'' mime then Kind_Video else if prefix ''image/'' mime then Kind_Image
      else if prefix ''audio/'' mime then Kind_Voice else Kind_File)"

definition strip_file :: "file_attachment \<Rightarrow> file_attachment" where
  "strip_file f = f\<lparr>fa_cache_path := None,
     fa_downloaded := (if fa_data f = [] \<and> 0 < fa_size f then False else fa_downloaded f)\<rparr>"

fun strip_remote_local_attachment_state :: "message_content \<Rightarrow> message_content" where
  "strip_remote_local_attachment_state (File_Msg f) = File_Msg (strip_file f)"
| "strip_remote_local_attachment_state (Image_Msg f) = Image_Msg (strip_file f)"
| "strip_remote_local_attachment_state (Voice_Msg f) = Voice_Msg (strip_file f)"
| "strip_remote_local_attachment_state (Video_Msg f) = Video_Msg (strip_file f)"
| "strip_remote_local_attachment_state c = c"

section \<open>JSON\<close>

definition json_opt :: "('a \<Rightarrow> json) \<Rightarrow> 'a option \<Rightarrow> json" where
  "json_opt f x = (case x of None \<Rightarrow> J_Null | Some v \<Rightarrow> f v)"

definition json_of_nat :: "nat \<Rightarrow> json" where
  "json_of_nat n = J_Pos (of_nat n)"

definition de_nat :: "json \<Rightarrow> nat res" where
  "de_nat v = try_then (de_u64 v) (\<lambda>n. Inr (unat n))"

definition kind_json :: "attachment_kind \<Rightarrow> json" where
  "kind_json k = J_Str (case k of Kind_File \<Rightarrow> ''file'' | Kind_Image \<Rightarrow> ''image'' | Kind_Voice \<Rightarrow> ''voice'' | Kind_Video \<Rightarrow> ''video'')"

text \<open>A unit variant is read from its name, or from the object that maps its name to null.\<close>

definition variant_name :: "json \<Rightarrow> (string \<times> json) res" where
  "variant_name v =
     (case v of J_Str s \<Rightarrow> Inr (s, J_Null) | J_Obj [(k, x)] \<Rightarrow> Inr (k, x) | _ \<Rightarrow> Inl ''expected variant'')"

definition kind_of_json :: "json \<Rightarrow> attachment_kind res" where
  "kind_of_json v = try_then (variant_name v) (\<lambda>(k, x).
     if x \<noteq> J_Null then Inl ''expected unit variant''
     else if k = ''file'' then Inr Kind_File else if k = ''image'' then Inr Kind_Image
     else if k = ''voice'' then Inr Kind_Voice else if k = ''video'' then Inr Kind_Video else Inl ''unknown variant'')"

definition attachment_fields :: "string list" where
  "attachment_fields = [''filename'', ''mime_type'', ''size'', ''data'', ''transfer_id'', ''cache_path'', ''chunk_count'',
     ''body_from_seq'', ''body_to_seq'', ''downloaded'', ''group_id'', ''ephemeral_blob_id'', ''ephemeral_expires_at'',
     ''ephemeral_file_key'']"

definition attachment_json :: "file_attachment \<Rightarrow> json" where
  "attachment_json f = J_Obj
     [(''filename'', J_Str (fa_filename f)), (''mime_type'', J_Str (fa_mime_type f)), (''size'', json_of_nat (fa_size f)),
      (''data'', J_Arr (map json_of_u8 (fa_data f))), (''transfer_id'', json_opt J_Str (fa_transfer_id f)),
      (''cache_path'', json_opt J_Str (fa_cache_path f)), (''chunk_count'', json_of_u32 (fa_chunk_count f)),
      (''body_from_seq'', J_Pos (fa_body_from_seq f)), (''body_to_seq'', J_Pos (fa_body_to_seq f)),
      (''downloaded'', J_Bool (fa_downloaded f)), (''group_id'', json_opt J_Str (fa_group_id f)),
      (''ephemeral_blob_id'', json_opt J_Str (fa_ephemeral_file_id f)),
      (''ephemeral_expires_at'', json_opt J_Pos (fa_ephemeral_expires_at f)),
      (''ephemeral_file_key'', json_opt J_Str (fa_ephemeral_file_key f))]"

definition attachment_of_json :: "json \<Rightarrow> file_attachment res" where
  "attachment_of_json v = try_then (struct_fields attachment_fields v) (\<lambda>m.
     try_then (field de_str None ''filename'' m) (\<lambda>a. try_then (field de_str None ''mime_type'' m) (\<lambda>b.
     try_then (field de_nat None ''size'' m) (\<lambda>c. try_then (field (de_list de_small) (Some []) ''data'' m) (\<lambda>d.
     try_then (field (de_opt de_str) (Some None) ''transfer_id'' m) (\<lambda>e.
     try_then (field (de_opt de_str) (Some None) ''cache_path'' m) (\<lambda>f.
     try_then (field de_small (Some 0) ''chunk_count'' m) (\<lambda>g. try_then (field de_u64 (Some 0) ''body_from_seq'' m) (\<lambda>h.
     try_then (field de_u64 (Some 0) ''body_to_seq'' m) (\<lambda>i. try_then (field de_bool (Some False) ''downloaded'' m) (\<lambda>j.
     try_then (field (de_opt de_str) (Some None) ''group_id'' m) (\<lambda>k.
     try_then (field (de_opt de_str) (Some None) ''ephemeral_blob_id'' m) (\<lambda>l.
     try_then (field (de_opt de_u64) (Some None) ''ephemeral_expires_at'' m) (\<lambda>n.
     try_then (field (de_opt de_str) (Some None) ''ephemeral_file_key'' m) (\<lambda>p.
       Inr \<lparr>fa_filename = a, fa_mime_type = b, fa_size = c, fa_data = d, fa_transfer_id = e, fa_cache_path = f,
         fa_chunk_count = g, fa_body_from_seq = h, fa_body_to_seq = i, fa_downloaded = j, fa_group_id = k,
         fa_ephemeral_file_id = l, fa_ephemeral_expires_at = n, fa_ephemeral_file_key = p\<rparr>)))))))))))))))"

definition header_json :: "file_header \<Rightarrow> json" where
  "header_json h = J_Obj [(''transfer_id'', J_Str (fh_transfer_id h)), (''kind'', kind_json (fh_kind h)),
     (''filename'', J_Str (fh_filename h)), (''mime_type'', J_Str (fh_mime_type h)),
     (''total_size'', json_of_nat (fh_total_size h)), (''chunks'', json_of_u32 (fh_chunks h)),
     (''group_id'', json_opt J_Str (fh_group_id h))]"

definition header_of_json :: "json \<Rightarrow> file_header res" where
  "header_of_json v = try_then (struct_fields [''transfer_id'', ''kind'', ''filename'', ''mime_type'', ''total_size'',
       ''chunks'', ''group_id''] v) (\<lambda>m.
     try_then (field de_str None ''transfer_id'' m) (\<lambda>a. try_then (field kind_of_json None ''kind'' m) (\<lambda>b.
     try_then (field de_str None ''filename'' m) (\<lambda>c. try_then (field de_str None ''mime_type'' m) (\<lambda>d.
     try_then (field de_nat None ''total_size'' m) (\<lambda>e. try_then (field de_small None ''chunks'' m) (\<lambda>f.
     try_then (field (de_opt de_str) (Some None) ''group_id'' m) (\<lambda>g.
       Inr \<lparr>fh_transfer_id = a, fh_kind = b, fh_filename = c, fh_mime_type = d, fh_total_size = e, fh_chunks = f,
         fh_group_id = g\<rparr>))))))))"

definition chunk_json :: "crypto_env \<Rightarrow> file_chunk \<Rightarrow> json" where
  "chunk_json C c = J_Obj [(''transfer_id'', J_Str (fc_transfer_id c)), (''index'', json_of_u32 (fc_index c)),
     (''total'', json_of_u32 (fc_total c)), (''filename'', J_Str (fc_filename c)), (''mime_type'', J_Str (fc_mime_type c)),
     (''total_size'', json_of_nat (fc_total_size c)), (''data'', J_Str (b64_encode C (fc_data c)))]"

definition de_base64 :: "crypto_env \<Rightarrow> json \<Rightarrow> bytes res" where
  "de_base64 C v = try_then (de_str v) (b64_decode C)"

definition chunk_of_json :: "crypto_env \<Rightarrow> json \<Rightarrow> file_chunk res" where
  "chunk_of_json C v = try_then (struct_fields [''transfer_id'', ''index'', ''total'', ''filename'', ''mime_type'',
       ''total_size'', ''data''] v) (\<lambda>m.
     try_then (field de_str None ''transfer_id'' m) (\<lambda>a. try_then (field de_small None ''index'' m) (\<lambda>b.
     try_then (field de_small None ''total'' m) (\<lambda>c. try_then (field de_str None ''filename'' m) (\<lambda>d.
     try_then (field de_str None ''mime_type'' m) (\<lambda>e. try_then (field de_nat None ''total_size'' m) (\<lambda>f.
     try_then (field (de_base64 C) None ''data'' m) (\<lambda>g.
       Inr \<lparr>fc_transfer_id = a, fc_index = b, fc_total = c, fc_filename = d, fc_mime_type = e, fc_total_size = f,
         fc_data = g\<rparr>))))))))"

text \<open>An enumeration is the object that maps the name of the variant to its fields.\<close>

fun content_json :: "crypto_env \<Rightarrow> message_content \<Rightarrow> json" where
  "content_json C (Text_Msg s) = J_Obj [(''Text'', J_Str s)]"
| "content_json C (Text_Reply s i w q) = J_Obj [(''TextReply'', J_Obj [(''text'', J_Str s), (''reply_to_id'', J_Str i),
     (''reply_sender'', J_Str w), (''reply_text'', J_Str q)])]"
| "content_json C (File_Msg f) = J_Obj [(''File'', attachment_json f)]"
| "content_json C (Image_Msg f) = J_Obj [(''Image'', attachment_json f)]"
| "content_json C (Voice_Msg f) = J_Obj [(''Voice'', attachment_json f)]"
| "content_json C (Video_Msg f) = J_Obj [(''Video'', attachment_json f)]"
| "content_json C (Photo_Group g c) = J_Obj [(''PhotoGroup'', J_Obj [(''group_id'', J_Str g), (''caption'', J_Str c)])]"
| "content_json C (Header_Msg h) = J_Obj [(''FileHeader'', header_json h)]"
| "content_json C (Chunk_Msg c) = J_Obj [(''FileChunk'', chunk_json C c)]"
| "content_json C (Receipt_Msg s) = J_Obj [(''ReadReceipt'', J_Obj [(''up_to_seq'', J_Pos s)])]"
| "content_json C (Delete_Msg i) = J_Obj [(''Delete'', J_Obj [(''target_id'', J_Str i)])]"
| "content_json C (Reaction_Msg i e) = J_Obj [(''Reaction'', J_Obj [(''target_id'', J_Str i), (''emoji'', J_Str e)])]"

definition two_strings :: "string \<Rightarrow> string \<Rightarrow> (string \<Rightarrow> string \<Rightarrow> message_content) \<Rightarrow> json \<Rightarrow> message_content res" where
  "two_strings k l mk v = try_then (struct_fields [k, l] v) (\<lambda>m.
     try_then (field de_str None k m) (\<lambda>a. try_then (field de_str None l m) (\<lambda>b. Inr (mk a b))))"

definition variant_of_json :: "crypto_env \<Rightarrow> string \<Rightarrow> json \<Rightarrow> message_content res" where
  "variant_of_json C k x =
     (if k = ''Text'' then try_then (de_str x) (\<lambda>s. Inr (Text_Msg s))
      else if k = ''TextReply'' then
        try_then (struct_fields [''text'', ''reply_to_id'', ''reply_sender'', ''reply_text''] x) (\<lambda>m.
          try_then (field de_str None ''text'' m) (\<lambda>a. try_then (field de_str None ''reply_to_id'' m) (\<lambda>b.
          try_then (field de_str None ''reply_sender'' m) (\<lambda>c. try_then (field de_str None ''reply_text'' m) (\<lambda>d.
            Inr (Text_Reply a b c d))))))
      else if k = ''File'' then try_then (attachment_of_json x) (\<lambda>f. Inr (File_Msg f))
      else if k = ''Image'' then try_then (attachment_of_json x) (\<lambda>f. Inr (Image_Msg f))
      else if k = ''Voice'' then try_then (attachment_of_json x) (\<lambda>f. Inr (Voice_Msg f))
      else if k = ''Video'' then try_then (attachment_of_json x) (\<lambda>f. Inr (Video_Msg f))
      else if k = ''PhotoGroup'' then two_strings ''group_id'' ''caption'' Photo_Group x
      else if k = ''FileHeader'' then try_then (header_of_json x) (\<lambda>h. Inr (Header_Msg h))
      else if k = ''FileChunk'' then try_then (chunk_of_json C x) (\<lambda>c. Inr (Chunk_Msg c))
      else if k = ''ReadReceipt'' then
        try_then (struct_fields [''up_to_seq''] x) (\<lambda>m. try_then (field de_u64 None ''up_to_seq'' m) (\<lambda>s. Inr (Receipt_Msg s)))
      else if k = ''Delete'' then
        try_then (struct_fields [''target_id''] x) (\<lambda>m. try_then (field de_str None ''target_id'' m) (\<lambda>i. Inr (Delete_Msg i)))
      else if k = ''Reaction'' then two_strings ''target_id'' ''emoji'' Reaction_Msg x
      else Inl ''unknown variant'')"

definition content_of_json :: "crypto_env \<Rightarrow> json \<Rightarrow> message_content res" where
  "content_of_json C v = try_then (variant_name v) (\<lambda>(k, x). variant_of_json C k x)"

definition inner_json :: "crypto_env \<Rightarrow> packet_inner \<Rightarrow> json" where
  "inner_json C p = J_Obj ([(''id'', J_Str (pi_id p)), (''timestamp'', json_of_i64 (pi_timestamp p)),
     (''sender'', J_Str (pi_sender p)), (''content'', content_json C (pi_content p))] @
     (case pi_topic_name p of None \<Rightarrow> [] | Some t \<Rightarrow> [(''topic_name'', J_Str t)]))"

definition inner_of_json :: "crypto_env \<Rightarrow> json \<Rightarrow> packet_inner res" where
  "inner_of_json C v = try_then (struct_fields [''id'', ''timestamp'', ''sender'', ''content'', ''topic_name''] v) (\<lambda>m.
     try_then (field de_str None ''id'' m) (\<lambda>a. try_then (field de_i64 None ''timestamp'' m) (\<lambda>b.
     try_then (field de_str None ''sender'' m) (\<lambda>c. try_then (field (content_of_json C) None ''content'' m) (\<lambda>d.
     try_then (field (de_opt de_str) (Some None) ''topic_name'' m) (\<lambda>e.
       Inr \<lparr>pi_id = a, pi_timestamp = b, pi_sender = c, pi_content = d, pi_topic_name = e\<rparr>))))))"

definition serialize_inner :: "json_codec \<Rightarrow> crypto_env \<Rightarrow> packet_inner \<Rightarrow> bytes" where
  "serialize_inner J C p = to_vec J (inner_json C p)"

definition deserialize_inner :: "json_codec \<Rightarrow> crypto_env \<Rightarrow> bytes \<Rightarrow> packet_inner res" where
  "deserialize_inner J C data = try_then (from_slice J data) (inner_of_json C)"

section \<open>Round trip\<close>

lemma de_opt_simps [simp]:
  "de_opt de_str (json_opt J_Str x) = Inr x" "de_opt de_u64 (json_opt J_Pos y) = Inr y"
  "de_opt de_str (J_Str s) = Inr (Some s)"
  by (cases x; cases y; simp add: de_opt_def json_opt_def)+

lemma de_nat_of_nat [simp]: "n < 2 ^ 64 \<Longrightarrow> de_nat (json_of_nat n) = Inr n"
  by (simp add: de_nat_def json_of_nat_def unat_of_nat)

lemma kind_roundtrip [simp]: "kind_of_json (kind_json k) = Inr k"
  by (cases k) (simp_all add: kind_of_json_def kind_json_def variant_name_def)

text \<open>The sizes of a content fit into 64 bits.\<close>

fun content_ok :: "message_content \<Rightarrow> bool" where
  "content_ok (Header_Msg h) \<longleftrightarrow> fh_total_size h < 2 ^ 64"
| "content_ok (Chunk_Msg c) \<longleftrightarrow> fc_total_size c < 2 ^ 64"
| "content_ok c \<longleftrightarrow> (case attachment_ref c of None \<Rightarrow> True | Some f \<Rightarrow> fa_size f < 2 ^ 64)"

lemma attachment_roundtrip [simp]: "fa_size f < 2 ^ 64 \<Longrightarrow> attachment_of_json (attachment_json f) = Inr f"
  by (simp add: attachment_of_json_def attachment_json_def)

lemma header_roundtrip [simp]: "fh_total_size h < 2 ^ 64 \<Longrightarrow> header_of_json (header_json h) = Inr h"
  by (simp add: header_of_json_def header_json_def)

lemma chunk_roundtrip [simp]: "crypto_ok C \<Longrightarrow> fc_total_size c < 2 ^ 64 \<Longrightarrow> chunk_of_json C (chunk_json C c) = Inr c"
  by (simp add: chunk_of_json_def chunk_json_def de_base64_def crypto_ok_def)

lemma content_roundtrip: "crypto_ok C \<Longrightarrow> content_ok c \<Longrightarrow> content_of_json C (content_json C c) = Inr c"
  by (cases c) (simp_all add: content_of_json_def variant_name_def variant_of_json_def two_strings_def)

lemma inner_roundtrip: "crypto_ok C \<Longrightarrow> content_ok (pi_content p) \<Longrightarrow> inner_of_json C (inner_json C p) = Inr p"
  by (cases "pi_topic_name p") (simp_all add: inner_of_json_def inner_json_def content_roundtrip)

lemma serialize_roundtrip:
  assumes "json_codec_ok J" and "crypto_ok C" and "content_ok (pi_content p)" and "json_fits 127 (inner_json C p)"
  shows "deserialize_inner J C (serialize_inner J C p) = Inr p"
  using assms by (simp add: deserialize_inner_def serialize_inner_def json_codec_ok_def inner_roundtrip)

end
