(* ===== verification/Client_Store.thy ===== *)
theory Client_Store
  imports Client_Types
begin

text \<open>
  The local database of the client (\<open>ParanoiaLibrary/src/store.rs\<close>): the tables as lists of rows in
  the order of insertion, one operation for each method. Numbers are stored as \<open>i64\<close>, so SQL
  compares them signed. A column that holds JSON or a time as text is the value it is read back as;
  the text of a time in UTC sorts as the time. Errors of SQLite itself and the encryption of the file
  are not modelled, and the counters are assumed to stay below the greatest \<open>i64\<close>.
\<close>

section \<open>Tables\<close>

record outbound_transfer =
  ot_transfer_id :: string
  ot_dialogue :: dialogue_key
  ot_header_seq :: u64
  ot_chunk_count :: u32
  ot_chunk_sizes :: "nat list"
  ot_cache_path :: string
  ot_filename :: string
  ot_mime_type :: string
  ot_kind :: attachment_kind
  ot_total_size :: nat
  ot_group_id :: "string option"
  ot_topic_name :: "string option"
  ot_timestamp :: int
  ot_attempts :: u32

record chunk_row =
  ch_transfer_id :: string
  ch_dialogue :: dialogue_key
  ch_sender :: string
  ch_index :: u32
  ch_total :: u32
  ch_filename :: string
  ch_mime_type :: string
  ch_total_size :: nat
  ch_data :: bytes
  ch_timestamp :: int

text \<open>\<open>dialogue_state\<close> maps a dialogue to the last pulled and the next number.\<close>

record local_store =
  msgs :: "message list"
  seq_rows :: "((dialogue_key \<times> u64) \<times> string) list"
  dialogue_state :: "dialogue_key \<rightharpoonup> u64 \<times> u64"
  incoming_chunks :: "chunk_row list"
  outbound_rows :: "outbound_transfer list"

definition empty_store :: local_store where
  "empty_store = \<lparr>msgs = [], seq_rows = [], dialogue_state = Map.empty, incoming_chunks = [], outbound_rows = []\<rparr>"

definition sle :: "u64 \<Rightarrow> u64 \<Rightarrow> bool" where
  "sle a b \<longleftrightarrow> sint a \<le> sint b"

definition smax :: "u64 \<Rightarrow> u64 \<Rightarrow> u64" where
  "smax a b = (if sle a b then b else a)"

section \<open>Numbers\<close>

definition next_send_seq :: "dialogue_key \<Rightarrow> local_store \<Rightarrow> u64 \<times> local_store" where
  "next_send_seq d L =
     (case dialogue_state L d of
        None \<Rightarrow> (1, L\<lparr>dialogue_state := (dialogue_state L)(d \<mapsto> (0, 2))\<rparr>)
      | Some (pulled, n) \<Rightarrow> (n, L\<lparr>dialogue_state := (dialogue_state L)(d \<mapsto> (pulled, n + 1))\<rparr>))"

definition reserve_send_seq_range :: "dialogue_key \<Rightarrow> u64 \<Rightarrow> local_store \<Rightarrow> u64 res \<times> local_store" where
  "reserve_send_seq_range d k L =
     (if k = 0 then (Inl ''empty seq range'', L)
      else let (pulled, start) = (case dialogue_state L d of None \<Rightarrow> (0, 1) | Some row \<Rightarrow> row)
           in case checked_add start k of
                None \<Rightarrow> (Inl ''seq range overflow'', L\<lparr>dialogue_state := (dialogue_state L)(d \<mapsto> (pulled, start))\<rparr>)
              | Some end_next \<Rightarrow> (Inr start, L\<lparr>dialogue_state := (dialogue_state L)(d \<mapsto> (pulled, end_next))\<rparr>))"

definition get_last_pulled_seq :: "dialogue_key \<Rightarrow> local_store \<Rightarrow> u64" where
  "get_last_pulled_seq d L = (case dialogue_state L d of None \<Rightarrow> 0 | Some (pulled, n) \<Rightarrow> pulled)"

definition set_last_pulled_seq :: "dialogue_key \<Rightarrow> u64 \<Rightarrow> local_store \<Rightarrow> local_store" where
  "set_last_pulled_seq d s L =
     L\<lparr>dialogue_state := (dialogue_state L)(d \<mapsto>
       (case dialogue_state L d of None \<Rightarrow> (s, s + 1) | Some (pulled, n) \<Rightarrow> (smax pulled s, smax n (s + 1))))\<rparr>"

section \<open>Messages\<close>

definition save_message :: "message \<Rightarrow> local_store \<Rightarrow> local_store" where
  "save_message msg L =
     L\<lparr>msgs := filter (\<lambda>m. m_id m \<noteq> m_id msg) (msgs L) @ [msg],
       seq_rows := (case m_server_seq msg of
          None \<Rightarrow> seq_rows L
        | Some s \<Rightarrow> if map_of (seq_rows L) (m_dialogue msg, s) = None then seq_rows L @ [((m_dialogue msg, s), m_id msg)]
                    else seq_rows L)\<rparr>"

definition update_status :: "string \<Rightarrow> message_status \<Rightarrow> local_store \<Rightarrow> local_store" where
  "update_status i st L = L\<lparr>msgs := map (\<lambda>m. if m_id m = i then m\<lparr>m_status := st\<rparr> else m) (msgs L)\<rparr>"

definition get_message_by_seq :: "dialogue_key \<Rightarrow> u64 \<Rightarrow> local_store \<Rightarrow> string option" where
  "get_message_by_seq d s L = map_option m_id (find (\<lambda>m. m_dialogue m = d \<and> m_server_seq m = Some s) (msgs L))"

definition get_message_by_id :: "dialogue_key \<Rightarrow> string \<Rightarrow> local_store \<Rightarrow> message option" where
  "get_message_by_id d i L = find (\<lambda>m. m_dialogue m = d \<and> m_id m = i) (msgs L)"

definition get_delivered_server_seqs :: "dialogue_key \<Rightarrow> local_store \<Rightarrow> u64 list" where
  "get_delivered_server_seqs d L =
     concat (map (\<lambda>m. if m_dialogue m = d \<and> (m_status m = Delivered \<or> m_status m = Read)
       then (case m_server_seq m of Some s \<Rightarrow> [s] | None \<Rightarrow> []) else []) (msgs L))"

definition delete_messages_by_seqs :: "dialogue_key \<Rightarrow> u64 list \<Rightarrow> local_store \<Rightarrow> local_store" where
  "delete_messages_by_seqs d ss L =
     L\<lparr>msgs := filter (\<lambda>m. \<not> (m_dialogue m = d \<and> (\<exists>s \<in> set ss. m_server_seq m = Some s))) (msgs L),
       seq_rows := filter (\<lambda>r. \<not> (fst (fst r) = d \<and> snd (fst r) \<in> set ss)) (seq_rows L)\<rparr>"

definition delete_messages_until :: "dialogue_key \<Rightarrow> u64 \<Rightarrow> local_store \<Rightarrow> local_store" where
  "delete_messages_until d lim L =
     L\<lparr>msgs := filter (\<lambda>m. \<not> (m_dialogue m = d \<and> (case m_server_seq m of Some s \<Rightarrow> sle s lim | None \<Rightarrow> False))) (msgs L),
       seq_rows := filter (\<lambda>r. \<not> (fst (fst r) = d \<and> sle (snd (fst r)) lim)) (seq_rows L)\<rparr>"

definition unread_until :: "dialogue_key \<Rightarrow> u64 \<Rightarrow> message \<Rightarrow> bool" where
  "unread_until d up_to m \<longleftrightarrow> m_dialogue m = d \<and> (case m_server_seq m of Some s \<Rightarrow> sle s up_to | None \<Rightarrow> False) \<and>
     (m_status m = Sent \<or> m_status m = Delivered)"

definition mark_read_until :: "dialogue_key \<Rightarrow> u64 \<Rightarrow> local_store \<Rightarrow> nat \<times> local_store" where
  "mark_read_until d up_to L =
     (length (filter (unread_until d up_to) (msgs L)),
      L\<lparr>msgs := map (\<lambda>m. if unread_until d up_to m then m\<lparr>m_status := Read\<rparr> else m) (msgs L)\<rparr>)"

definition mark_outgoing_read_until :: "dialogue_key \<Rightarrow> string \<Rightarrow> u64 \<Rightarrow> local_store \<Rightarrow> nat \<times> local_store" where
  "mark_outgoing_read_until d sender up_to L =
     (length (filter (\<lambda>m. m_sender m = sender \<and> unread_until d up_to m) (msgs L)),
      L\<lparr>msgs := map (\<lambda>m. if m_sender m = sender \<and> unread_until d up_to m then m\<lparr>m_status := Read\<rparr> else m) (msgs L)\<rparr>)"

fun greatest_seq :: "message list \<Rightarrow> (u64 \<times> message_status) option" where
  "greatest_seq [] = None"
| "greatest_seq (m # ms) =
     (case (m_server_seq m, greatest_seq ms) of
        (None, best) \<Rightarrow> best
      | (Some s, None) \<Rightarrow> Some (s, m_status m)
      | (Some s, Some (t, st)) \<Rightarrow> if sle t s then Some (s, m_status m) else Some (t, st))"

definition latest_outgoing_status :: "dialogue_key \<Rightarrow> string \<Rightarrow> local_store \<Rightarrow> (u64 \<times> message_status) option" where
  "latest_outgoing_status d sender L = greatest_seq (filter (\<lambda>m. m_dialogue m = d \<and> m_sender m = sender) (msgs L))"

definition get_messages :: "dialogue_key \<Rightarrow> nat \<Rightarrow> int \<Rightarrow> local_store \<Rightarrow> message list" where
  "get_messages d limit before L =
     rev (take limit (rev (sort_key m_timestamp (filter (\<lambda>m. m_dialogue m = d \<and> m_timestamp m < before) (msgs L)))))"

definition messages_after_seq :: "dialogue_key \<Rightarrow> u64 \<Rightarrow> nat \<Rightarrow> local_store \<Rightarrow> message list" where
  "messages_after_seq d after limit L =
     take limit (sort_key (\<lambda>m. case m_server_seq m of Some s \<Rightarrow> sint s | None \<Rightarrow> 0)
       (filter (\<lambda>m. m_dialogue m = d \<and> (case m_server_seq m of Some s \<Rightarrow> \<not> sle s after | None \<Rightarrow> False)) (msgs L)))"

definition max_server_seq :: "dialogue_key \<Rightarrow> local_store \<Rightarrow> u64" where
  "max_server_seq d L = (case greatest_seq (filter (\<lambda>m. m_dialogue m = d) (msgs L)) of None \<Rightarrow> 0 | Some (s, _) \<Rightarrow> smax s 0)"

section \<open>Topics\<close>

definition list_topic_messages :: "dialogue_key \<Rightarrow> string \<Rightarrow> local_store \<Rightarrow> message list" where
  "list_topic_messages d tid L = filter (\<lambda>m. m_dialogue m = d \<and> m_topic_id m = Some tid) (msgs L)"

fun newest :: "message list \<Rightarrow> message option" where
  "newest [] = None"
| "newest (m # ms) = (case newest ms of None \<Rightarrow> Some m | Some b \<Rightarrow> if m_timestamp b \<le> m_timestamp m then Some m else Some b)"

text \<open>The name of a topic is that of its newest message; the topics come in the order of their newest messages.\<close>

definition list_topics :: "dialogue_key \<Rightarrow> local_store \<Rightarrow> (string \<times> string \<times> nat) list" where
  "list_topics d L =
     (let ms = filter (\<lambda>m. m_dialogue m = d) (msgs L);
          tids = sort (remdups (concat (map (\<lambda>m. case m_topic_id m of Some i \<Rightarrow> [i] | None \<Rightarrow> []) ms)));
          row = (\<lambda>i. newest (list_topic_messages d i L))
      in map (\<lambda>i. (i, case Option.bind (row i) m_topic_name of Some n \<Rightarrow> n | None \<Rightarrow> [], length (list_topic_messages d i L)))
           (sort_key (\<lambda>i. case row i of Some m \<Rightarrow> m_timestamp m | None \<Rightarrow> 0) tids))"

section \<open>Outgoing transfers\<close>

definition insert_outbound :: "outbound_transfer \<Rightarrow> local_store \<Rightarrow> local_store" where
  "insert_outbound t L = L\<lparr>outbound_rows := filter (\<lambda>r. ot_transfer_id r \<noteq> ot_transfer_id t) (outbound_rows L) @ [t]\<rparr>"

definition list_outbound :: "dialogue_key \<Rightarrow> local_store \<Rightarrow> outbound_transfer list" where
  "list_outbound d L = sort_key (\<lambda>t. sint (ot_header_seq t)) (filter (\<lambda>t. ot_dialogue t = d) (outbound_rows L))"

definition delete_outbound :: "string \<Rightarrow> local_store \<Rightarrow> local_store" where
  "delete_outbound i L = L\<lparr>outbound_rows := filter (\<lambda>t. ot_transfer_id t \<noteq> i) (outbound_rows L)\<rparr>"

definition bump_outbound_attempts :: "string \<Rightarrow> local_store \<Rightarrow> u32 \<times> local_store" where
  "bump_outbound_attempts i L =
     (case find (\<lambda>t. ot_transfer_id t = i) (outbound_rows L) of
        None \<Rightarrow> (0, L)
      | Some t \<Rightarrow> (ot_attempts t + 1,
          L\<lparr>outbound_rows := map (\<lambda>r. if ot_transfer_id r = i then r\<lparr>ot_attempts := ot_attempts r + 1\<rparr> else r) (outbound_rows L)\<rparr>))"

section \<open>Incoming chunks\<close>

definition save_chunk :: "chunk_row \<Rightarrow> local_store \<Rightarrow> local_store" where
  "save_chunk c L =
     (if \<exists>r \<in> set (incoming_chunks L). ch_transfer_id r = ch_transfer_id c \<and> ch_index r = ch_index c then L
      else L\<lparr>incoming_chunks := incoming_chunks L @ [c]\<rparr>)"

record assembled_file =
  as_file_sender :: string
  as_filename :: string
  as_mime_type :: string
  as_data :: bytes
  as_timestamp :: int

text \<open>
  The aggregates of the first query are null when no row matches, which the conversion refuses. The
  number of rows is compared with the greatest total.
\<close>

definition try_assemble_chunks :: "string \<Rightarrow> dialogue_key \<Rightarrow> local_store \<Rightarrow> assembled_file option res \<times> local_store" where
  "try_assemble_chunks i d L =
     (let rows = filter (\<lambda>r. ch_transfer_id r = i \<and> ch_dialogue r = d) (incoming_chunks L) in
      if rows = [] then (Inl ''Invalid column type'', L)
      else if length rows < Max (unat ` ch_total ` set rows) then (Inr None, L)
      else (Inr (Some \<lparr>as_file_sender = Max (ch_sender ` set rows), as_filename = Max (ch_filename ` set rows),
              as_mime_type = Max (ch_mime_type ` set rows), as_data = concat (map ch_data (sort_key (\<lambda>r. unat (ch_index r)) rows)),
              as_timestamp = Min (ch_timestamp ` set rows)\<rparr>),
            L\<lparr>incoming_chunks := filter (\<lambda>r. \<not> (ch_transfer_id r = i \<and> ch_dialogue r = d)) (incoming_chunks L)\<rparr>))"

section \<open>Deleting a dialogue\<close>

definition delete_dialogue :: "dialogue_key \<Rightarrow> local_store \<Rightarrow> local_store" where
  "delete_dialogue d L =
     L\<lparr>msgs := filter (\<lambda>m. m_dialogue m \<noteq> d) (msgs L), seq_rows := filter (\<lambda>r. fst (fst r) \<noteq> d) (seq_rows L),
       dialogue_state := (dialogue_state L)(d := None), incoming_chunks := filter (\<lambda>r. ch_dialogue r \<noteq> d) (incoming_chunks L),
       outbound_rows := filter (\<lambda>t. ot_dialogue t \<noteq> d) (outbound_rows L)\<rparr>"

end
