(* ===== verification/Dialogue_Core.thy ===== *)
theory Dialogue_Core
  imports Prelude "HOL-Library.Multiset"
begin

text \<open>
  The pure functions of \<open>ParanoiaLibrary/src/dialogue.rs\<close>: the search of a number in the runs of the
  server's map, the runs of a list of numbers, and the random division of a file into chunks.
\<close>

section \<open>Runs\<close>

text \<open>
  \<open>binary_search_by\<close> of the standard library on the half-open interval from \<open>left\<close> to \<open>right\<close>; a
  comparison answers \<open>GT\<close> when the element is above the one searched for.
\<close>

datatype ordering = LT | EQ | GT

function (sequential) binary_search_by :: "('a \<Rightarrow> ordering) \<Rightarrow> 'a list \<Rightarrow> nat \<Rightarrow> nat \<Rightarrow> nat option" where
  "binary_search_by cmp xs left right =
     (if left < right then
        let mid = left + (right - left) div 2
        in case cmp (xs ! mid) of
             EQ \<Rightarrow> Some mid
           | LT \<Rightarrow> binary_search_by cmp xs (mid + 1) right
           | GT \<Rightarrow> binary_search_by cmp xs left mid
      else None)"
  by pat_completeness auto
termination by (relation "measure (\<lambda>(cmp, xs, left, right). right - left)") auto

declare binary_search_by.simps [simp del]

definition run_cmp :: "u64 \<Rightarrow> u64 \<times> u64 \<Rightarrow> ordering" where
  "run_cmp s run = (if s < fst run then GT else if snd run < s then LT else EQ)"

definition seq_in_runs :: "(u64 \<times> u64) list \<Rightarrow> u64 \<Rightarrow> bool" where
  "seq_in_runs runs s \<longleftrightarrow> binary_search_by (run_cmp s) runs 0 (length runs) \<noteq> None"

text \<open>\<open>end + 1\<close> is checked in debug builds and wraps in release builds; the numbers are sorted and distinct.\<close>

fun runs_loop :: "u64 \<Rightarrow> u64 \<Rightarrow> u64 list \<Rightarrow> (u64 \<times> u64) list" where
  "runs_loop start stop [] = [(start, stop)]"
| "runs_loop start stop (s # ss) =
     (if s = stop + 1 then runs_loop start s ss else (start, stop) # runs_loop s s ss)"

fun contiguous_runs :: "u64 list \<Rightarrow> (u64 \<times> u64) list" where
  "contiguous_runs [] = []"
| "contiguous_runs (first # rest) = runs_loop first first rest"

text \<open>The runs that the server's map promises: ascending and disjoint.\<close>

fun runs_ok :: "(u64 \<times> u64) list \<Rightarrow> bool" where
  "runs_ok [] \<longleftrightarrow> True"
| "runs_ok ((b, e) # rs) \<longleftrightarrow> b \<le> e \<and> (\<forall>r \<in> set rs. e < fst r) \<and> runs_ok rs"

definition in_runs :: "(u64 \<times> u64) list \<Rightarrow> u64 \<Rightarrow> bool" where
  "in_runs runs s \<longleftrightarrow> list_ex (\<lambda>(b, e). b \<le> s \<and> s \<le> e) runs"

lemma in_runs_simps [simp]: "\<not> in_runs [] s" "in_runs ((b, e) # rs) s \<longleftrightarrow> b \<le> s \<and> s \<le> e \<or> in_runs rs s"
  by (simp_all add: in_runs_def)

lemma in_runs_ex: "in_runs runs s \<longleftrightarrow> (\<exists>r \<in> set runs. fst r \<le> s \<and> s \<le> snd r)"
  by (induction runs) (auto simp: in_runs_def)

lemma in_runs_iff: "in_runs runs s \<longleftrightarrow> (\<exists>i < length runs. fst (runs ! i) \<le> s \<and> s \<le> snd (runs ! i))"
  unfolding in_runs_ex by (metis in_set_conv_nth)

lemma runs_ok_nth: "runs_ok runs \<Longrightarrow> i < length runs \<Longrightarrow> fst (runs ! i) \<le> snd (runs ! i)"
  by (induction runs arbitrary: i rule: runs_ok.induct) (auto simp: nth_Cons split: nat.splits)

lemma runs_ok_apart: "runs_ok runs \<Longrightarrow> i < j \<Longrightarrow> j < length runs \<Longrightarrow> snd (runs ! i) < fst (runs ! j)"
  by (induction runs arbitrary: i j rule: runs_ok.induct) (auto simp: nth_Cons split: nat.splits)

text \<open>The invariant of the search: a run with the number can only be in the interval.\<close>

lemma binary_search_sound: "binary_search_by cmp xs left right = Some i \<Longrightarrow> right \<le> length xs \<Longrightarrow> i < length xs \<and> cmp (xs ! i) = EQ"
proof (induction cmp xs left right rule: binary_search_by.induct)
  case (1 cmp xs left right)
  let ?mid = "left + (right - left) div 2"
  show ?case
  proof (cases "left < right")
    case True
    then have mid: "?mid < right" by linarith
    show ?thesis
      using "1.prems" "1.IH" [OF True refl] mid
      by (subst (asm) binary_search_by.simps) (auto simp: True Let_def split: ordering.splits)
  qed (use "1.prems" in \<open>subst (asm) binary_search_by.simps, simp\<close>)
qed

lemma binary_search_complete:
  "runs_ok runs \<Longrightarrow> right \<le> length runs \<Longrightarrow> left \<le> i \<Longrightarrow> i < right \<Longrightarrow> fst (runs ! i) \<le> s \<Longrightarrow> s \<le> snd (runs ! i) \<Longrightarrow>
    binary_search_by (run_cmp s) runs left right \<noteq> None"
proof (induction "run_cmp s" runs left right rule: binary_search_by.induct)
  case (1 runs left right)
  let ?mid = "left + (right - left) div 2"
  have run: "left < right" using 1 by simp
  then have mid: "?mid < right" "left \<le> ?mid" by linarith+
  show ?case
  proof (cases "run_cmp s (runs ! ?mid)")
    case LT
    then have "snd (runs ! ?mid) < s" by (simp add: run_cmp_def split: if_splits)
    then have "?mid < i"
      using runs_ok_nth [OF "1.prems"(1), of ?mid] runs_ok_apart [OF "1.prems"(1), of i ?mid] 1 mid
      by (cases i ?mid rule: linorder_cases) auto
    with 1 run LT mid show ?thesis by (subst binary_search_by.simps) (simp add: Let_def)
  next
    case EQ
    with run show ?thesis by (subst binary_search_by.simps) (simp add: Let_def)
  next
    case GT
    then have "s < fst (runs ! ?mid)" by (simp add: run_cmp_def split: if_splits)
    then have "i < ?mid"
      using runs_ok_nth [OF "1.prems"(1), of ?mid] runs_ok_apart [OF "1.prems"(1), of ?mid i] 1 mid
      by (cases i ?mid rule: linorder_cases) auto
    with 1 run GT mid show ?thesis by (subst binary_search_by.simps) (simp add: Let_def)
  qed
qed

text \<open>
  On runs that are ascending and disjoint, as the server's map gives them, the binary search
  finds a number exactly when one of the runs contains it.
\<close>

lemma seq_in_runs_exact:
  assumes "runs_ok runs"
  shows "seq_in_runs runs s \<longleftrightarrow> in_runs runs s"
proof
  assume "seq_in_runs runs s"
  then obtain i where "binary_search_by (run_cmp s) runs 0 (length runs) = Some i" by (auto simp: seq_in_runs_def)
  from binary_search_sound [OF this] show "in_runs runs s"
    unfolding in_runs_iff by (auto simp: run_cmp_def split: if_splits intro: exI [of _ i])
next
  assume "in_runs runs s"
  then obtain i where "i < length runs" "fst (runs ! i) \<le> s" "s \<le> snd (runs ! i)" by (auto simp: in_runs_iff)
  with binary_search_complete [OF assms, of "length runs" 0 i s] show "seq_in_runs runs s" by (simp add: seq_in_runs_def)
qed

text \<open>The runs of a list cover its numbers, and between two of them a number is missing.\<close>

fun runs_apart :: "(u64 \<times> u64) list \<Rightarrow> bool" where
  "runs_apart [] \<longleftrightarrow> True"
| "runs_apart ((b, e) # rs) \<longleftrightarrow> b \<le> e \<and> (\<forall>r \<in> set rs. e + 1 < fst r \<and> e < e + 1) \<and> runs_apart rs"

lemma runs_apart_ok: "runs_apart rs \<Longrightarrow> runs_ok rs"
  by (induction rs rule: runs_apart.induct) (auto intro: less_trans)

lemma runs_loop_exact:
  "start \<le> stop \<Longrightarrow> sorted_wrt (<) (stop # ss) \<Longrightarrow>
    runs_apart (runs_loop start stop ss) \<and> (\<forall>r \<in> set (runs_loop start stop ss). start \<le> fst r) \<and>
    (\<forall>s. in_runs (runs_loop start stop ss) s \<longleftrightarrow> start \<le> s \<and> s \<le> stop \<or> s \<in> set ss)"
proof (induction start stop ss rule: runs_loop.induct)
  case (2 start stop s ss)
  then have less: "stop < s" and sorted: "sorted_wrt (<) (s # ss)" by simp_all
  have top: "stop < stop + 1" using unat_plus_one [OF less] by (simp add: word_less_nat_alt)
  show ?case
  proof (cases "s = stop + 1")
    case True
    have between: "u \<le> stop + 1 \<longleftrightarrow> u \<le> stop \<or> u = stop + 1" for u
      using unat_plus_one [OF less] True by (auto simp: word_le_nat_alt word_unat_eq_iff)
    have "start \<le> s" using "2.prems"(1) less by simp
    with "2.IH"(1) [OF True _ sorted] True less "2.prems"(1) show ?thesis
      by (auto simp: between)
  next
    case False
    with less top have gap: "stop + 1 < s"
      using unat_plus_one [OF less] by (simp add: word_less_nat_alt word_unat_eq_iff)
    with "2.IH"(2) [OF False order_refl sorted] "2.prems"(1) less top show ?thesis
      by (auto intro: less_le_trans)
  qed
qed simp

lemma contiguous_runs_facts:
  assumes "sorted_wrt (<) ss"
  shows "(\<forall>s. seq_in_runs (contiguous_runs ss) s \<longleftrightarrow> s \<in> set ss) \<and> runs_apart (contiguous_runs ss)"
proof (cases ss)
  case Nil
  then show ?thesis by (simp add: seq_in_runs_exact)
next
  case (Cons first rest)
  with runs_loop_exact [of first first rest] assms show ?thesis
    by (auto simp: seq_in_runs_exact runs_apart_ok)
qed

text \<open>
  C10. For an ascending list of numbers \<open>contiguous_runs\<close> covers exactly the numbers of the list, with
  runs that are ascending and separated by at least one missing number, so that no deletion by
  ranges needs fewer requests.
\<close>

theorem contiguous_runs_exact:
  assumes "sorted_wrt (<) ss"
  shows "(\<forall>s. seq_in_runs (contiguous_runs ss) s \<longleftrightarrow> s \<in> set ss) \<and> runs_apart (contiguous_runs ss)"
  using assms by (rule contiguous_runs_facts)

theorem contiguous_runs_exact_witness:
  "contiguous_runs [3, 4, 5, 9, 11, 12] = [(3, 5), (9, 9), (11, 12)] \<and> seq_in_runs [(3, 5), (9, 9), (11, 12)] 4 \<and>
    \<not> seq_in_runs [(3, 5), (9, 9), (11, 12)] 10"
proof -
  have runs: "contiguous_runs [3, 4, 5, 9, 11, 12] = [(3, 5), (9, 9), (11, 12)]" by simp
  with contiguous_runs_exact [of "[3, 4, 5, 9, 11, 12]"] show ?thesis by simp
qed

section \<open>Chunks\<close>

definition CHUNK_SIZE_MIN :: nat where "CHUNK_SIZE_MIN = 1024"
definition CHUNK_SIZE_MAX :: nat where "CHUNK_SIZE_MAX = 192 * 1024"

text \<open>
  \<open>gen_range(low..=high)\<close> is a parameter. The loop runs for ever if the generator answers 0, so its
  result is optional.
\<close>

type_synonym 'r range_gen = "nat \<Rightarrow> nat \<Rightarrow> 'r \<Rightarrow> nat \<times> 'r"

definition range_gen_ok :: "'r range_gen \<Rightarrow> bool" where
  "range_gen_ok g \<longleftrightarrow> (\<forall>low high r. low \<le> high \<longrightarrow> low \<le> fst (g low high r) \<and> fst (g low high r) \<le> high)"

partial_function (option) chunk_sizes_loop :: "'r range_gen \<Rightarrow> nat \<Rightarrow> nat list \<Rightarrow> 'r \<Rightarrow> (nat list \<times> 'r) option" where
  "chunk_sizes_loop g remaining sizes r =
     (if remaining = 0 then Some (sizes, r)
      else let (size, r') = (if remaining \<le> CHUNK_SIZE_MIN then (remaining, r)
                             else g CHUNK_SIZE_MIN (min CHUNK_SIZE_MAX remaining) r)
           in chunk_sizes_loop g (remaining - size) (sizes @ [size]) r')"

definition random_chunk_sizes :: "'r range_gen \<Rightarrow> nat \<Rightarrow> 'r \<Rightarrow> (nat list \<times> 'r) option" where
  "random_chunk_sizes g total_size r = chunk_sizes_loop g total_size [] r"

fun cut_chunks :: "nat list \<Rightarrow> bytes \<Rightarrow> bytes list" where
  "cut_chunks [] data = []"
| "cut_chunks (n # ns) data = take n data # cut_chunks ns (drop n data)"

definition random_chunks :: "'r range_gen \<Rightarrow> bytes \<Rightarrow> 'r \<Rightarrow> (bytes list \<times> 'r) option" where
  "random_chunks g data r = map_option (\<lambda>(sizes, r'). (cut_chunks sizes data, r')) (random_chunk_sizes g (length data) r)"

lemma cut_chunks_concat: "sum_list ns = length data \<Longrightarrow> concat (cut_chunks ns data) = data"
  by (induction ns arbitrary: data) simp_all

lemma length_cut_chunks [simp]: "length (cut_chunks ns data) = length ns"
  by (induction ns arbitrary: data) simp_all

lemma map_length_cut_chunks: "sum_list ns = length data \<Longrightarrow> map length (cut_chunks ns data) = ns"
  by (induction ns arbitrary: data) simp_all

lemma chunk_sizes_loop_ok:
  assumes "range_gen_ok g"
  shows "\<exists>new r'. chunk_sizes_loop g n sizes r = Some (sizes @ new, r') \<and> sum_list new = n \<and>
    (\<forall>k \<in> set new. 0 < k \<and> k \<le> CHUNK_SIZE_MAX) \<and> (\<forall>k \<in> set (butlast new). CHUNK_SIZE_MIN \<le> k)"
proof (induction n arbitrary: sizes r rule: less_induct)
  case (less n)
  show ?case
  proof (cases "n \<le> CHUNK_SIZE_MIN")
    case True
    then show ?thesis
      by (cases "n = 0")
        (auto simp: chunk_sizes_loop.simps [of g n] chunk_sizes_loop.simps [of g 0] CHUNK_SIZE_MIN_def CHUNK_SIZE_MAX_def
          intro: exI [of _ "[n]"])
  next
    case False
    obtain k r1 where g: "g CHUNK_SIZE_MIN (min CHUNK_SIZE_MAX n) r = (k, r1)" by fastforce
    have "CHUNK_SIZE_MIN \<le> min CHUNK_SIZE_MAX n" using False by (simp add: CHUNK_SIZE_MAX_def CHUNK_SIZE_MIN_def)
    with assms g have k: "CHUNK_SIZE_MIN \<le> k" "k \<le> CHUNK_SIZE_MAX" "k \<le> n"
      unfolding range_gen_ok_def by (metis fst_conv min.bounded_iff)+
    then have pos: "0 < k" by (simp add: CHUNK_SIZE_MIN_def)
    with k have "n - k < n" by simp
    from less.IH [OF this, of "sizes @ [k]" r1] obtain new r' where
      run: "chunk_sizes_loop g (n - k) (sizes @ [k]) r1 = Some ((sizes @ [k]) @ new, r')" and new: "sum_list new = n - k"
      "\<forall>k \<in> set new. 0 < k \<and> k \<le> CHUNK_SIZE_MAX" "\<forall>k \<in> set (butlast new). CHUNK_SIZE_MIN \<le> k" by blast
    have "chunk_sizes_loop g n sizes r = Some (sizes @ k # new, r')"
      using False g run by (subst chunk_sizes_loop.simps) simp
    with new k pos show ?thesis by (intro exI [of _ "k # new"] exI [of _ r']) auto
  qed
qed

text \<open>
  C11. With a generator that keeps to its range the division of a file into chunks ends; the chunks
  together are the file, none is empty or larger than 192 KiB, and all but the last have at least 1 KiB.
\<close>

theorem random_chunks_exact:
  assumes "range_gen_ok g"
  shows "\<exists>chunks r'. random_chunks g data r = Some (chunks, r') \<and> concat chunks = data \<and>
    (\<forall>c \<in> set chunks. c \<noteq> [] \<and> length c \<le> CHUNK_SIZE_MAX) \<and> (\<forall>c \<in> set (butlast chunks). CHUNK_SIZE_MIN \<le> length c)"
proof -
  obtain ns r' where run: "random_chunk_sizes g (length data) r = Some (ns, r')" and ns: "sum_list ns = length data"
    "\<forall>k \<in> set ns. 0 < k \<and> k \<le> CHUNK_SIZE_MAX" "\<forall>k \<in> set (butlast ns). CHUNK_SIZE_MIN \<le> k"
    using chunk_sizes_loop_ok [OF assms, of "length data" "[]" r] unfolding random_chunk_sizes_def by auto
  let ?cs = "cut_chunks ns data"
  have lens: "map length ?cs = ns" using ns(1) by (rule map_length_cut_chunks)
  have "c \<in> set ?cs \<Longrightarrow> c \<noteq> [] \<and> length c \<le> CHUNK_SIZE_MAX" for c
    using ns(2) lens by (metis image_eqI length_greater_0_conv list.set_map)
  moreover have "c \<in> set (butlast ?cs) \<Longrightarrow> CHUNK_SIZE_MIN \<le> length c" for c
    using ns(3) lens by (metis image_eqI list.set_map map_butlast)
  ultimately show ?thesis using run ns(1) by (auto simp: random_chunks_def cut_chunks_concat)
qed

theorem random_chunks_exact_witness:
  "\<exists>chunks r'. random_chunks (\<lambda>low high r. (low, r)) (replicate 1500 0) () = Some (chunks, r') \<and> length (concat chunks) = 1500"
  using random_chunks_exact [of "\<lambda>low high r. (low, r)" "replicate 1500 0" "()"]
  by (auto simp: range_gen_ok_def dest: arg_cong [where f = length])

end
