(* ===== verification/Error_Classify.thy ===== *)
theory Error_Classify
  imports Prelude
begin

text \<open>
  The stable codes that the client makes of error texts (\<open>ParanoiaLibrary/src/error_classify.rs\<close>):
  tables of patterns that are tried in order on the text in ASCII lower case. The retry of a message
  in \<open>dialogue.rs\<close> depends on the code of a refused push.
\<close>

definition contains_any :: "string \<Rightarrow> string list \<Rightarrow> bool" where
  "contains_any value patterns \<longleftrightarrow> list_ex (\<lambda>pattern. str_contains pattern value) patterns"

definition classify_by_table :: "string \<Rightarrow> (string list \<times> string) list \<Rightarrow> string \<Rightarrow> string" where
  "classify_by_table err table fallback =
     (let low = to_ascii_lowercase err
      in case find (\<lambda>(patterns, code). contains_any low patterns) table of
           None \<Rightarrow> fallback
         | Some (patterns, code) \<Rightarrow> code)"

definition NETWORK_PATTERNS :: "(string list \<times> string) list" where
  "NETWORK_PATTERNS =
     [([''certificate'', ''tls'', ''rustls'', ''unknown issuer'', ''certificate verify failed'', ''invalid peer certificate'',
        ''hostname mismatch'', ''platform-verifier'', ''native verifier'', ''trust manager'', ''sectrust'', ''trust evaluation'',
        ''trustevaluation'', ''certificate is not trusted'', ''not valid for name'', ''certificate expired'',
        ''certificate has expired'', ''revocation'', ''errsec'', ''classnotfound'', ''noclassdeffound'',
        ''expect rustls-platform-verifier to be initialized''], ''tls_error''),
      ([''dns'', ''failed to lookup'', ''name or service not known'', ''no such host'',
        ''temporary failure in name resolution''], ''dns_error''),
      ([''push failed'', ''pull failed'', ''arrived failed'', ''arrived set failed'', ''determinate failed'', ''reg failed''],
        ''server_rejected''),
      ([''status code'', ''http status'', ''response status'', ''decode'', ''invalid type'', ''expected value'', ''json''],
        ''http_error''),
      ([''connection'', ''connect'', ''timeout'', ''error sending request'', ''refused''], ''server_unavailable'')]"

definition classify_network_error :: "string \<Rightarrow> string \<Rightarrow> string" where
  "classify_network_error err fallback = classify_by_table err NETWORK_PATTERNS fallback"

definition SEND_PATTERNS :: "(string list \<times> string) list" where
  "SEND_PATTERNS =
     [([''duplicate seq'', ''duplicate_seq''], ''duplicate_seq''),
      ([''invalid seq'', ''invalid_seq'', ''expected seq''], ''invalid_seq''),
      ([''file_read_error''], ''file_read_error''),
      ([''file_too_large''], ''file_too_large'')]"

definition classify_send_error :: "string \<Rightarrow> string" where
  "classify_send_error err =
     (let classified = classify_by_table err SEND_PATTERNS []
      in if classified = [] then classify_network_error err ''send_error'' else classified)"

definition EXCHANGE_PATTERNS :: "(string list \<times> string) list" where
  "EXCHANGE_PATTERNS =
     [([''expired''], ''exchange_expired''),
      ([''fingerprint_mismatch'', ''fingerprint mismatch''], ''fingerprint_mismatch''),
      ([''already used''], ''exchange_id_reused''),
      ([''mismatch''], ''participant_mismatch''),
      ([''payload json'', ''payload''], ''invalid_exchange_payload''),
      ([''state json'', ''state''], ''invalid_exchange_state'')]"

definition classify_exchange_error :: "string \<Rightarrow> string" where
  "classify_exchange_error err = classify_by_table err EXCHANGE_PATTERNS ''qr_exchange_error''"

definition KEYRING_PATTERNS :: "(string list \<times> string) list" where
  "KEYRING_PATTERNS =
     [([''duplicate''], ''invalid_keyring_duplicate_start_seq''),
      ([''start_seq''], ''invalid_keyring_start_seq''),
      ([''length''], ''invalid_keyring_key_length'')]"

definition classify_keyring_error :: "string \<Rightarrow> string" where
  "classify_keyring_error err = classify_by_table err KEYRING_PATTERNS ''invalid_keyring''"

text \<open>The codes are stable, so that no text of a server reaches the caller.\<close>

lemma classify_by_table_in: "classify_by_table err table fallback \<in> insert fallback (set (map snd table))"
proof (cases "find (\<lambda>(patterns, code). contains_any (to_ascii_lowercase err) patterns) table")
  case None
  then show ?thesis by (simp add: classify_by_table_def)
next
  case (Some row)
  then have "row \<in> set table" by (auto simp: find_Some_iff in_set_conv_nth)
  moreover from Some have "classify_by_table err table fallback = snd row" by (simp add: classify_by_table_def split: prod.split)
  ultimately show ?thesis by simp
qed

lemma table_codes:
  "set (map snd SEND_PATTERNS) = {''duplicate_seq'', ''invalid_seq'', ''file_read_error'', ''file_too_large''}"
  "set (map snd NETWORK_PATTERNS) = {''tls_error'', ''dns_error'', ''server_rejected'', ''http_error'', ''server_unavailable''}"
  unfolding SEND_PATTERNS_def NETWORK_PATTERNS_def by (simp_all only: list.map list.set snd_conv)

lemma classify_send_error_in:
  "classify_send_error err \<in> insert ''send_error'' (set (map snd SEND_PATTERNS) \<union> set (map snd NETWORK_PATTERNS))"
  using classify_by_table_in [of err NETWORK_PATTERNS "''send_error''"] classify_by_table_in [of err SEND_PATTERNS "[]"]
  by (auto simp: classify_send_error_def classify_network_error_def Let_def)

text \<open>The two codes of a refused push that are retried keep their class.\<close>

lemma classify_retried: "classify_send_error ''duplicate_seq'' = ''duplicate_seq''" "classify_send_error ''invalid_seq'' = ''invalid_seq''"
  by code_simp+

end
