(* ===== verification/Dialogue.thy ===== *)
theory Dialogue
  imports Client_Store Client_Transport Dialogue_Core Error_Classify
begin

text \<open>
  The dialogue of the client (\<open>ParanoiaLibrary/src/dialogue.rs\<close>): sending, receiving, deleting, topics
  and read marks. A dialogue works on the local database, a random generator and the outside world
  (network, clock, files) of some type \<open>'s\<close>; the operations of the HTTP client that it uses are a
  record of functions (\<open>wire\<close>), for which \<open>transport_wire\<close> is the program's own. An operation returns
  \<open>None\<close> when it does not return, otherwise its result and the new state.
  The conversions of \<open>chrono\<close>, the generator of UUIDs and the clock are parameters.
\<close>

section \<open>Environment and state\<close>

record 's wire =
  w_push :: "core_push \<Rightarrow> 's \<Rightarrow> unit res \<times> 's"
  w_pull :: "core_range \<Rightarrow> 's \<Rightarrow> raw_packet list res \<times> 's"
  w_map :: "core_range \<Rightarrow> 's \<Rightarrow> map_answer res \<times> 's"
  w_notify :: "core_notify \<Rightarrow> 's \<Rightarrow> u64 res \<times> 's"
  w_determinate :: "core_range \<Rightarrow> 's \<Rightarrow> unit res \<times> 's"
  w_arrived_get :: "core_arrived_get \<Rightarrow> 's \<Rightarrow> (u64 option \<times> u64) res \<times> 's"
  w_arrived_set :: "core_arrived_set \<Rightarrow> 's \<Rightarrow> unit res \<times> 's"
  w_blob :: "json \<Rightarrow> 's \<Rightarrow> json res \<times> 's"

definition transport_wire :: "('r, 'w) transport \<Rightarrow> json_codec \<Rightarrow> ('r, 'w) client_state wire" where
  "transport_wire T J = \<lparr>w_push = transport_push T, w_pull = transport_pull T, w_map = transport_map T,
     w_notify = transport_notify T, w_determinate = transport_determinate T, w_arrived_get = transport_arrived_get T,
     w_arrived_set = transport_arrived_set T, w_blob = transport_blob T J\<rparr>"

record ('r, 's) dialogue =
  dg_config :: dialogue_config
  dg_user :: string
  dg_seed :: bytes
  dg_crypto :: crypto_env
  dg_signer :: signer
  dg_aead :: aead
  dg_rng :: "'r rng"
  dg_range :: "'r range_gen"
  dg_uuid :: "'r \<Rightarrow> string \<times> 'r"
  dg_json :: json_codec
  dg_lower :: "string \<Rightarrow> string"
  dg_now :: "'s \<Rightarrow> int \<times> 's"
  dg_to_millis :: "int \<Rightarrow> u64"
  dg_from_millis :: "u64 \<Rightarrow> int option"
  dg_wire :: "'s wire"

record ('r, 's) dialogue_st =
  s_net :: 's
  s_rand :: 'r
  s_store :: local_store
  s_topic :: "string option"

type_synonym ('r, 's, 'a) act = "('r, 's) dialogue_st \<Rightarrow> ('a res \<times> ('r, 's) dialogue_st) option"

definition new_dialogue :: "('r, 's) dialogue \<Rightarrow> ('r, 's) dialogue" where
  "new_dialogue D = D\<lparr>dg_config := (dg_config D)\<lparr>keyring := snd (normalize_keyring (keyring (dg_config D)))\<rparr>\<rparr>"

abbreviation dg_key :: "('r, 's) dialogue \<Rightarrow> dialogue_key" where
  "dg_key D \<equiv> dc_key (dg_config D)"

section \<open>Sequencing\<close>

definition and_then :: "('r, 's, 'a) act \<Rightarrow> ('a \<Rightarrow> ('r, 's, 'b) act) \<Rightarrow> ('r, 's, 'b) act" where
  "and_then m f s = Option.bind (m s) (\<lambda>(r, s'). case r of Inl e \<Rightarrow> Some (Inl e, s') | Inr x \<Rightarrow> f x s')"

definition give :: "'a \<Rightarrow> ('r, 's, 'a) act" where
  "give x s = Some (Inr x, s)"

definition bail :: "string \<Rightarrow> ('r, 's, 'a) act" where
  "bail e s = Some (Inl e, s)"

definition of_res :: "'a res \<Rightarrow> ('r, 's, 'a) act" where
  "of_res r s = Some (r, s)"

text \<open>The result of a step that may fail, for a caller that goes on.\<close>

definition attempt :: "('r, 's, 'a) act \<Rightarrow> ('r, 's, 'a res) act" where
  "attempt m s = map_option (\<lambda>(r, s'). (Inr r, s')) (m s)"

definition on_net :: "('s \<Rightarrow> 'a res \<times> 's) \<Rightarrow> ('r, 's, 'a) act" where
  "on_net f s = (let (r, n) = f (s_net s) in Some (r, s\<lparr>s_net := n\<rparr>))"

definition on_rand :: "('r \<Rightarrow> 'a \<times> 'r) \<Rightarrow> ('r, 's, 'a) act" where
  "on_rand f s = (let (x, r) = f (s_rand s) in Some (Inr x, s\<lparr>s_rand := r\<rparr>))"

definition on_store :: "(local_store \<Rightarrow> 'a \<times> local_store) \<Rightarrow> ('r, 's, 'a) act" where
  "on_store f s = (let (x, L) = f (s_store s) in Some (Inr x, s\<lparr>s_store := L\<rparr>))"

definition ask :: "(local_store \<Rightarrow> 'a) \<Rightarrow> ('r, 's, 'a) act" where
  "ask f s = Some (Inr (f (s_store s)), s)"

definition update_store :: "(local_store \<Rightarrow> local_store) \<Rightarrow> ('r, 's, unit) act" where
  "update_store f s = Some (Inr (), s\<lparr>s_store := f (s_store s)\<rparr>)"

definition clock :: "('r, 's) dialogue \<Rightarrow> ('r, 's, int) act" where
  "clock D = on_net (\<lambda>n. let (t, n') = dg_now D n in (Inr t, n'))"

lemma and_then_mono [partial_function_mono]:
  assumes "mono_option (\<lambda>f. m f s)" and "\<And>x s'. mono_option (\<lambda>f. g f x s')"
  shows "mono_option (\<lambda>f. and_then (m f) (g f) s)"
  unfolding and_then_def
proof (rule bind_mono [OF assms(1)])
  fix y
  show "mono_option (\<lambda>f. case y of (r, s') \<Rightarrow> (case r of Inl e \<Rightarrow> Some (Inl e, s') | Inr x \<Rightarrow> g f x s'))"
    by (cases y; cases "fst y") (simp_all add: assms(2) option.const_mono)
qed

section \<open>Signed requests\<close>

definition partner :: "('r, 's) dialogue \<Rightarrow> string" where
  "partner D = (if dk_a (dg_key D) = dg_user D then dk_b (dg_key D) else dk_a (dg_key D))"

definition sign :: "('r, 's) dialogue \<Rightarrow> string \<Rightarrow> bytes" where
  "sign D msg = sk_sign (dg_signer D) (dg_seed D) (as_bytes msg)"

definition show_u64 :: "u64 \<Rightarrow> string" where
  "show_u64 n = show_nat (unat n)"

definition signed_range :: "('r, 's) dialogue \<Rightarrow> u64 \<Rightarrow> u64 \<Rightarrow> core_range" where
  "signed_range D a b = \<lparr>cr_sender = dg_user D, cr_recver = partner D, cr_from = a, cr_to = b,
     cr_sig = sign D (dg_user D @ partner D @ show_u64 a @ show_u64 b)\<rparr>"

definition fetch_map :: "('r, 's) dialogue \<Rightarrow> u64 \<Rightarrow> u64 \<Rightarrow> ('r, 's, map_answer) act" where
  "fetch_map D after_seq to_seq = on_net (w_map (dg_wire D) (signed_range D after_seq to_seq))"

definition pull_packets :: "('r, 's) dialogue \<Rightarrow> u64 \<Rightarrow> u64 \<Rightarrow> ('r, 's, raw_packet list) act" where
  "pull_packets D after_seq to_seq = on_net (w_pull (dg_wire D) (signed_range D after_seq to_seq))"

definition notify_count_wait :: "('r, 's) dialogue \<Rightarrow> u32 \<Rightarrow> ('r, 's, u64) act" where
  "notify_count_wait D long_poll_ms =
     and_then (ask (get_last_pulled_seq (dg_key D))) (\<lambda>s.
       on_net (w_notify (dg_wire D) \<lparr>cn_sender = dg_user D, cn_partner = partner D, cn_seq = s,
         cn_sig = sign D (dg_user D @ partner D @ show_u64 s), cn_long_poll_ms = long_poll_ms\<rparr>))"

definition notify_count :: "('r, 's) dialogue \<Rightarrow> ('r, 's, u64) act" where
  "notify_count D = notify_count_wait D 0"

definition remove_server_range :: "('r, 's) dialogue \<Rightarrow> u64 \<Rightarrow> u64 \<Rightarrow> ('r, 's, unit) act" where
  "remove_server_range D from_seq to_seq =
     (if to_seq = 0 then bail ''to_seq must be > 0''
      else on_net (w_determinate (dg_wire D) (signed_range D from_seq to_seq)))"

definition clear_server_history :: "('r, 's) dialogue \<Rightarrow> u64 \<Rightarrow> ('r, 's, unit) act" where
  "clear_server_history D cut_seq = remove_server_range D 0 cut_seq"

definition server_seq_exists :: "('r, 's) dialogue \<Rightarrow> u64 \<Rightarrow> ('r, 's, bool) act" where
  "server_seq_exists D s = and_then (fetch_map D (sat_sub s 1) s) (\<lambda>m. give (seq_in_runs (ma_runs m) s))"

section \<open>Topics\<close>

definition set_active_topic :: "string option \<Rightarrow> ('r, 's) dialogue_st \<Rightarrow> ('r, 's) dialogue_st" where
  "set_active_topic name s =
     s\<lparr>s_topic := (case name of None \<Rightarrow> None | Some n \<Rightarrow> if trim n = [] then None else Some (trim n))\<rparr>"

definition topic_fields_from_name :: "('r, 's) dialogue \<Rightarrow> string option \<Rightarrow> string option \<times> string option" where
  "topic_fields_from_name D name =
     (case name of
        None \<Rightarrow> (None, None)
      | Some n \<Rightarrow> if trim n = [] then (None, None)
                  else (Some (derive_topic_id (dg_crypto D) (dg_lower D) (dg_key D) n), Some n))"

definition active_topic :: "('r, 's, string option) act" where
  "active_topic s = Some (Inr (s_topic s), s)"

definition topic_id_for_name :: "('r, 's) dialogue \<Rightarrow> string option \<Rightarrow> string option" where
  "topic_id_for_name D name = fst (topic_fields_from_name D name)"

section \<open>Packets\<close>

definition push_packet :: "('r, 's) dialogue \<Rightarrow> u64 \<Rightarrow> string \<Rightarrow> int \<Rightarrow> message_content \<Rightarrow> string option \<Rightarrow> ('r, 's, unit) act" where
  "push_packet D s i timestamp content topic_name =
     (let inner = \<lparr>pi_id = i, pi_timestamp = dg_to_millis D timestamp, pi_sender = dg_user D, pi_content = content,
            pi_topic_name = topic_name\<rparr>
      in and_then (of_res (key_for_seq (dg_config D) s)) (\<lambda>session_key.
         and_then (on_rand (encrypt (dg_aead D) (dg_rng D) session_key (serialize_inner (dg_json D) (dg_crypto D) inner))) (\<lambda>sealed.
         and_then (of_res sealed) (\<lambda>ciphertext.
           on_net (w_push (dg_wire D) \<lparr>cp_sender = dg_user D, cp_recver = partner D, cp_seq = s, cp_payload = ciphertext,
             cp_push_sig = sign D (dg_user D @ partner D @ show_u64 s @ encode_b64 (dg_crypto D) ciphertext)\<rparr>)))))"

definition decrypt_packet :: "('r, 's) dialogue \<Rightarrow> u64 \<Rightarrow> bytes \<Rightarrow> packet_inner res" where
  "decrypt_packet D s data = try_then (key_for_seq (dg_config D) s) (\<lambda>session_key.
     try_then (decrypt (dg_aead D) session_key data) (deserialize_inner (dg_json D) (dg_crypto D)))"

text \<open>\<open>from_timestamp_millis(ms).unwrap_or_else(Utc::now)\<close>\<close>

definition millis_or_now :: "('r, 's) dialogue \<Rightarrow> u64 \<Rightarrow> ('r, 's, int) act" where
  "millis_or_now D ms = (case dg_from_millis D ms of Some t \<Rightarrow> give t | None \<Rightarrow> clock D)"

definition header_body_end :: "u64 \<Rightarrow> file_header \<Rightarrow> u64 res" where
  "header_body_end s h = (case checked_add s (ucast (fh_chunks h)) of None \<Rightarrow> Inl ''file range overflow'' | Some e \<Rightarrow> Inr e)"

definition header_attachment :: "u64 \<Rightarrow> u64 \<Rightarrow> file_header \<Rightarrow> file_attachment" where
  "header_attachment s body_to_seq h =
     \<lparr>fa_filename = fh_filename h, fa_mime_type = fh_mime_type h, fa_size = fh_total_size h, fa_data = [],
      fa_transfer_id = Some (fh_transfer_id h), fa_cache_path = None, fa_chunk_count = fh_chunks h,
      fa_body_from_seq = (if fh_chunks h = 0 then 0 else s + 1), fa_body_to_seq = (if fh_chunks h = 0 then 0 else body_to_seq),
      fa_downloaded = (fh_chunks h = 0), fa_group_id = fh_group_id h, fa_ephemeral_file_id = None,
      fa_ephemeral_expires_at = None, fa_ephemeral_file_key = None\<rparr>"

definition incoming_header :: "('r, 's) dialogue \<Rightarrow> packet_inner \<Rightarrow> u64 \<Rightarrow> file_header \<Rightarrow> ('r, 's, message option) act" where
  "incoming_header D inner s h =
     and_then (of_res (header_body_end s h)) (\<lambda>body_to_seq. and_then (millis_or_now D (pi_timestamp inner)) (\<lambda>ts.
       let (topic_id, topic_name) = topic_fields_from_name D (pi_topic_name inner);
           msg = \<lparr>m_id = fh_transfer_id h, m_dialogue = dg_key D, m_sender = pi_sender inner,
             m_content = attachment_content (fh_kind h) (header_attachment s body_to_seq h), m_timestamp = ts,
             m_status = Delivered, m_server_seq = Some s, m_topic_id = topic_id, m_topic_name = topic_name\<rparr>
       in and_then (update_store (save_message msg)) (\<lambda>_. give (Some msg))))"

definition assembled_attachment :: "file_chunk \<Rightarrow> assembled_file \<Rightarrow> file_attachment" where
  "assembled_attachment c a =
     \<lparr>fa_filename = as_filename a, fa_mime_type = as_mime_type a, fa_size = length (as_data a), fa_data = as_data a,
      fa_transfer_id = Some (fc_transfer_id c), fa_cache_path = None, fa_chunk_count = fc_total c, fa_body_from_seq = 0,
      fa_body_to_seq = 0, fa_downloaded = True, fa_group_id = None, fa_ephemeral_file_id = None,
      fa_ephemeral_expires_at = None, fa_ephemeral_file_key = None\<rparr>"

definition incoming_chunk :: "('r, 's) dialogue \<Rightarrow> packet_inner \<Rightarrow> u64 \<Rightarrow> file_chunk \<Rightarrow> ('r, 's, message option) act" where
  "incoming_chunk D inner s c =
     and_then (ask (get_message_by_id (dg_key D) (fc_transfer_id c))) (\<lambda>known.
       if known \<noteq> None then give None
       else and_then (millis_or_now D (pi_timestamp inner)) (\<lambda>ts.
         and_then (update_store (save_chunk \<lparr>ch_transfer_id = fc_transfer_id c, ch_dialogue = dg_key D, ch_sender = pi_sender inner,
           ch_index = fc_index c, ch_total = fc_total c, ch_filename = fc_filename c, ch_mime_type = fc_mime_type c,
           ch_total_size = fc_total_size c, ch_data = fc_data c, ch_timestamp = ts\<rparr>)) (\<lambda>_.
         and_then (on_store (try_assemble_chunks (fc_transfer_id c) (dg_key D))) (\<lambda>assembled.
         and_then (of_res assembled) (\<lambda>file. case file of
             None \<Rightarrow> give None
           | Some a \<Rightarrow>
               let msg = \<lparr>m_id = fc_transfer_id c, m_dialogue = dg_key D, m_sender = as_file_sender a,
                     m_content = File_Msg (assembled_attachment c a), m_timestamp = as_timestamp a, m_status = Delivered,
                     m_server_seq = Some s, m_topic_id = None, m_topic_name = None\<rparr>
               in and_then (update_store (save_message msg)) (\<lambda>_. give (Some msg)))))))"

definition incoming_other :: "('r, 's) dialogue \<Rightarrow> packet_inner \<Rightarrow> u64 \<Rightarrow> ('r, 's, message option) act" where
  "incoming_other D inner s =
     and_then (millis_or_now D (pi_timestamp inner)) (\<lambda>ts.
       let (topic_id, topic_name) = topic_fields_from_name D (pi_topic_name inner);
           msg = \<lparr>m_id = pi_id inner, m_dialogue = dg_key D, m_sender = pi_sender inner,
             m_content = strip_remote_local_attachment_state (pi_content inner), m_timestamp = ts, m_status = Delivered,
             m_server_seq = Some s, m_topic_id = topic_id, m_topic_name = topic_name\<rparr>
       in and_then (update_store (save_message msg)) (\<lambda>_. give (Some msg)))"

definition process_incoming :: "('r, 's) dialogue \<Rightarrow> packet_inner \<Rightarrow> u64 \<Rightarrow> ('r, 's, message option) act" where
  "process_incoming D inner s =
     and_then (ask (get_message_by_seq (dg_key D) s)) (\<lambda>known.
       if known \<noteq> None then give None
       else case pi_content inner of
              Receipt_Msg up_to_seq \<Rightarrow> and_then (on_store (mark_read_until (dg_key D) up_to_seq)) (\<lambda>_. give None)
            | Delete_Msg _ \<Rightarrow> give None
            | Header_Msg h \<Rightarrow> incoming_header D inner s h
            | Chunk_Msg c \<Rightarrow> incoming_chunk D inner s c
            | _ \<Rightarrow> incoming_other D inner s)"

section \<open>Receiving\<close>

definition RECEIVE_PULL_BATCH :: u64 where "RECEIVE_PULL_BATCH = 16"

text \<open>The whole map of the live numbers, page by page; it does not end when a page repeats itself for ever.\<close>

partial_function (option) fetch_runs :: "('r, 's) dialogue \<Rightarrow> u64 \<Rightarrow> (u64 \<times> u64) list \<Rightarrow> u64 \<Rightarrow>
    ('r, 's, (u64 \<times> u64) list \<times> u64) act" where
  "fetch_runs D after all_runs last_seq_total s =
     and_then (fetch_map D after 0) (\<lambda>m s'.
       let total = max last_seq_total (ma_last_seq m)
       in if ma_runs m = [] then give (all_runs, total) s'
          else if \<not> ma_truncated m then give (all_runs @ ma_runs m, total) s'
          else fetch_runs D (snd (List.last (ma_runs m))) (all_runs @ ma_runs m) total s') s"

record pull_acc =
  cursor :: u64
  received :: "message list"
  decrypt_errors :: nat

definition set_cursor :: "('r, 's) dialogue \<Rightarrow> u64 \<Rightarrow> pull_acc \<Rightarrow> ('r, 's, pull_acc) act" where
  "set_cursor D c acc = and_then (update_store (set_last_pulled_seq (dg_key D) c)) (\<lambda>_. give (acc\<lparr>cursor := c\<rparr>))"

definition add_received :: "message option \<Rightarrow> pull_acc \<Rightarrow> pull_acc" where
  "add_received m acc = (case m of None \<Rightarrow> acc | Some msg \<Rightarrow> acc\<lparr>received := received acc @ [msg]\<rparr>)"

text \<open>Where the cursor goes after a packet, and up to where the packets of the same batch are skipped.\<close>

definition advance_to :: "u64 \<Rightarrow> packet_inner \<Rightarrow> u64 res" where
  "advance_to s inner = (case pi_content inner of Header_Msg h \<Rightarrow> header_body_end s h | _ \<Rightarrow> Inr s)"

definition skip_after :: "u64 \<Rightarrow> packet_inner \<Rightarrow> u64 option" where
  "skip_after body_end inner = (case pi_content inner of Header_Msg h \<Rightarrow> if 0 < fh_chunks h then Some body_end else None | _ \<Rightarrow> None)"

text \<open>One's own packet that the database already has is marked as delivered, any other packet is processed.\<close>

definition take_inner :: "('r, 's) dialogue \<Rightarrow> u64 \<Rightarrow> packet_inner \<Rightarrow> u64 \<Rightarrow> pull_acc \<Rightarrow> ('r, 's, pull_acc) act" where
  "take_inner D s inner body_end acc =
     and_then (if pi_sender inner = dg_user D then ask (get_message_by_seq (dg_key D) s) else give None) (\<lambda>own.
       case own of
         Some msg_id \<Rightarrow>
           and_then (update_store (update_status msg_id Delivered)) (\<lambda>_. and_then (set_cursor D body_end acc) (\<lambda>acc'.
           and_then (ask (get_message_by_id (dg_key D) msg_id)) (\<lambda>updated. give (add_received updated acc'))))
       | None \<Rightarrow>
           and_then (process_incoming D inner s) (\<lambda>msg. set_cursor D body_end (add_received msg acc)))"

fun take_packets :: "('r, 's) dialogue \<Rightarrow> raw_packet list \<Rightarrow> u64 option \<Rightarrow> pull_acc \<Rightarrow> ('r, 's, pull_acc) act" where
  "take_packets D [] skip_until acc = give acc"
| "take_packets D (pkt # pkts) skip_until acc =
     (if (case skip_until of Some u \<Rightarrow> rp_seq pkt \<le> u | None \<Rightarrow> False) then take_packets D pkts skip_until acc
      else case decrypt_packet D (rp_seq pkt) (rp_payload pkt) of
             Inl e \<Rightarrow> and_then (set_cursor D (rp_seq pkt) (acc\<lparr>decrypt_errors := decrypt_errors acc + 1\<rparr>)) (take_packets D pkts None)
           | Inr inner \<Rightarrow> and_then (of_res (advance_to (rp_seq pkt) inner)) (\<lambda>body_end.
               and_then (take_inner D (rp_seq pkt) inner body_end acc) (take_packets D pkts (skip_after body_end inner))))"

text \<open>One turn of the loop over a run: the number to go on with, and what was taken.\<close>

definition pull_batch :: "('r, 's) dialogue \<Rightarrow> u64 \<Rightarrow> u64 \<Rightarrow> pull_acc \<Rightarrow> ('r, 's, u64 \<times> pull_acc) act" where
  "pull_batch D s stop acc =
     (let batch_end = min (sat_add s (RECEIVE_PULL_BATCH - 1)) stop
      in and_then (pull_packets D (sat_sub s 1) batch_end) (\<lambda>raw_packets.
           if raw_packets = [] then and_then (set_cursor D batch_end acc) (\<lambda>acc'. give (sat_add batch_end 1, acc'))
           else and_then (take_packets D (sort_key rp_seq raw_packets) None acc) (\<lambda>acc'.
                  give (max (sat_add (cursor acc') 1) (sat_add batch_end 1), acc'))))"

partial_function (option) pull_run :: "('r, 's) dialogue \<Rightarrow> u64 \<Rightarrow> u64 \<Rightarrow> pull_acc \<Rightarrow> ('r, 's, pull_acc) act" where
  "pull_run D s stop acc st =
     (if s \<le> stop then and_then (pull_batch D s stop acc) (\<lambda>p st'. pull_run D (fst p) stop (snd p) st') st
      else give acc st)"

fun pull_runs :: "('r, 's) dialogue \<Rightarrow> (u64 \<times> u64) list \<Rightarrow> pull_acc \<Rightarrow> ('r, 's, pull_acc) act" where
  "pull_runs D [] acc = give acc"
| "pull_runs D ((start, stop) # rest) acc =
     (if stop \<le> cursor acc then pull_runs D rest acc
      else and_then (pull_run D (max start (sat_add (cursor acc) 1)) stop acc) (pull_runs D rest))"

text \<open>Local messages whose number is no longer on the server are removed.\<close>

definition sweep :: "('r, 's) dialogue \<Rightarrow> (u64 \<times> u64) list \<Rightarrow> local_store \<Rightarrow> local_store" where
  "sweep D all_runs L =
     (let tombstones = filter (\<lambda>s. \<not> seq_in_runs all_runs s) (get_delivered_server_seqs (dg_key D) L)
      in if tombstones = [] then L else delete_messages_by_seqs (dg_key D) tombstones L)"

definition receive :: "('r, 's) dialogue \<Rightarrow> ('r, 's, message list \<times> nat) act" where
  "receive D =
     and_then (fetch_runs D 0 [] 0) (\<lambda>(live, last_seq_total).
       let all_runs = sort_key fst live
       in and_then (ask (get_last_pulled_seq (dg_key D))) (\<lambda>c.
          and_then (pull_runs D all_runs \<lparr>cursor = c, received = [], decrypt_errors = 0\<rparr>) (\<lambda>acc.
          and_then (if cursor acc < last_seq_total then set_cursor D last_seq_total acc else give acc) (\<lambda>acc.
          and_then (update_store (sweep D all_runs)) (\<lambda>_. give (received acc, decrypt_errors acc))))))"

section \<open>Sending\<close>

text \<open>\<open>self.notify_count().await.unwrap_or(0) > 0\<close>, then \<open>receive\<close>\<close>

definition sync_first :: "('r, 's) dialogue \<Rightarrow> ('r, 's, unit) act" where
  "sync_first D = and_then (attempt (notify_count D)) (\<lambda>n.
     if (case n of Inr k \<Rightarrow> 0 < k | Inl _ \<Rightarrow> False) then and_then (receive D) (\<lambda>_. give ()) else give ())"

definition sent_message :: "('r, 's) dialogue \<Rightarrow> string \<Rightarrow> message_content \<Rightarrow> int \<Rightarrow> u64 \<Rightarrow> string option \<Rightarrow> message" where
  "sent_message D i content now s name =
     (let (topic_id, topic_name) = topic_fields_from_name D name
      in \<lparr>m_id = i, m_dialogue = dg_key D, m_sender = dg_user D, m_content = content, m_timestamp = now, m_status = Sent,
          m_server_seq = Some s, m_topic_id = topic_id, m_topic_name = topic_name\<rparr>)"

fun send_attempts :: "('r, 's) dialogue \<Rightarrow> nat \<Rightarrow> message_content \<Rightarrow> int \<Rightarrow> string option \<Rightarrow> string option \<Rightarrow> ('r, 's, message) act" where
  "send_attempts D 0 content now name last_err = bail (case last_err of Some e \<Rightarrow> e | None \<Rightarrow> ''send failed after retries'')"
| "send_attempts D (Suc n) content now name last_err =
     and_then (on_rand (dg_uuid D)) (\<lambda>i. and_then (on_store (next_send_seq (dg_key D))) (\<lambda>s.
       and_then (attempt (push_packet D s i now content name)) (\<lambda>pushed. case pushed of
           Inr _ \<Rightarrow> and_then active_topic (\<lambda>current.
             let msg = sent_message D i content now s current
             in and_then (update_store (save_message msg)) (\<lambda>_. give msg))
         | Inl e \<Rightarrow>
             if classify_send_error e = ''duplicate_seq'' \<or> classify_send_error e = ''invalid_seq''
             then and_then (receive D) (\<lambda>_. send_attempts D n content now name (Some e))
             else bail e)))"

definition send :: "('r, 's) dialogue \<Rightarrow> message_content \<Rightarrow> ('r, 's, message) act" where
  "send D content =
     and_then (sync_first D) (\<lambda>_. and_then (clock D) (\<lambda>now. and_then active_topic (\<lambda>name.
       send_attempts D 3 content now name None)))"

definition send_text :: "('r, 's) dialogue \<Rightarrow> string \<Rightarrow> ('r, 's, message) act" where
  "send_text D text = send D (Text_Msg text)"

definition send_text_reply :: "('r, 's) dialogue \<Rightarrow> string \<Rightarrow> string \<Rightarrow> string \<Rightarrow> string \<Rightarrow> ('r, 's, message) act" where
  "send_text_reply D text reply_to_id reply_sender reply_text = send D (Text_Reply text reply_to_id reply_sender reply_text)"

definition send_photo_group :: "('r, 's) dialogue \<Rightarrow> string \<Rightarrow> string \<Rightarrow> ('r, 's, message) act" where
  "send_photo_group D group_id caption = send D (Photo_Group group_id caption)"

definition send_read_receipt :: "('r, 's) dialogue \<Rightarrow> u64 \<Rightarrow> ('r, 's, unit) act" where
  "send_read_receipt D up_to_seq = and_then (send D (Receipt_Msg up_to_seq)) (\<lambda>_. give ())"

definition send_reaction :: "('r, 's) dialogue \<Rightarrow> string \<Rightarrow> string \<Rightarrow> ('r, 's, message) act" where
  "send_reaction D target_id emoji = send D (Reaction_Msg target_id emoji)"

section \<open>Read marks and history\<close>

definition refresh_arrived_status :: "('r, 's) dialogue \<Rightarrow> ('r, 's, nat) act" where
  "refresh_arrived_status D =
     and_then (ask (latest_outgoing_status (dg_key D) (dg_user D))) (\<lambda>latest.
       if (case latest of None \<Rightarrow> True | Some (_, st) \<Rightarrow> st = Read) then give 0
       else let dialogue_id = client_dialogue_id (dg_crypto D) (dg_user D) (partner D)
            in and_then (on_net (w_arrived_get (dg_wire D) \<lparr>ag_sender = dg_user D, ag_partner = partner D, ag_dialogue_id = dialogue_id,
                 ag_sig = sign D (''arrived:get:'' @ dg_user D @ '':'' @ partner D @ '':'' @ dialogue_id)\<rparr>)) (\<lambda>(partner_seq, own_seq).
               case partner_seq of
                 None \<Rightarrow> give 0
               | Some s \<Rightarrow> on_store (mark_outgoing_read_until (dg_key D) (dg_user D) s)))"

definition set_receipts_enabled :: "('r, 's) dialogue \<Rightarrow> bool \<Rightarrow> ('r, 's, unit) act" where
  "set_receipts_enabled D enabled =
     (let dialogue_id = client_dialogue_id (dg_crypto D) (dg_user D) (partner D)
      in on_net (w_arrived_set (dg_wire D) \<lparr>as_sender = dg_user D, as_dialogue_id = dialogue_id, as_receipts_enabled = enabled,
           as_sig = sign D (''arrived:put:'' @ dg_user D @ '':'' @ dialogue_id @ '':'' @ (if enabled then ''true'' else ''false''))\<rparr>))"

definition history :: "('r, 's) dialogue \<Rightarrow> nat \<Rightarrow> int \<Rightarrow> ('r, 's, message list) act" where
  "history D limit before = ask (get_messages (dg_key D) limit before)"

section \<open>Deleting\<close>

definition delete_local_until :: "('r, 's) dialogue \<Rightarrow> u64 \<Rightarrow> ('r, 's, unit) act" where
  "delete_local_until D cut_seq =
     and_then (update_store (delete_messages_until (dg_key D) cut_seq)) (\<lambda>_. update_store (set_last_pulled_seq (dg_key D) cut_seq))"

definition delete_local_range :: "('r, 's) dialogue \<Rightarrow> u64 \<Rightarrow> u64 \<Rightarrow> ('r, 's, unit) act" where
  "delete_local_range D from_seq to_seq =
     (if to_seq = 0 \<or> from_seq \<noteq> 0 \<and> to_seq < from_seq then give ()
      else and_then (ask (get_delivered_server_seqs (dg_key D))) (\<lambda>ss.
        update_store (delete_messages_by_seqs (dg_key D) (filter (\<lambda>s. max from_seq 1 \<le> s \<and> s \<le> to_seq) ss))))"

text \<open>The numbers of a message on the server: its own, and those of the body that its attachment names.\<close>

definition seq_span :: "u64 \<Rightarrow> u64 \<Rightarrow> u64 list" where
  "seq_span a b = map of_nat [unat a..<Suc (unat b)]"

definition body_seqs :: "message \<Rightarrow> u64 list" where
  "body_seqs m =
     (case (m_server_seq m, attachment_ref (m_content m)) of
        (Some s, Some f) \<Rightarrow> if s \<le> fa_body_to_seq f then seq_span (s + 1) (fa_body_to_seq f) else []
      | _ \<Rightarrow> [])"

definition local_seqs_of :: "message list \<Rightarrow> u64 list" where
  "local_seqs_of ms = concat (map (\<lambda>m. case m_server_seq m of None \<Rightarrow> [] | Some s \<Rightarrow> [s]) ms)"

definition server_seqs_of :: "message list \<Rightarrow> u64 list" where
  "server_seqs_of ms = concat (map (\<lambda>m. case m_server_seq m of None \<Rightarrow> [] | Some s \<Rightarrow> s # body_seqs m) ms)"

fun remove_ranges :: "('r, 's) dialogue \<Rightarrow> (u64 \<times> u64) list \<Rightarrow> ('r, 's, unit) act" where
  "remove_ranges D [] = give ()"
| "remove_ranges D ((a, b) # rest) = and_then (remove_server_range D a b) (\<lambda>_. remove_ranges D rest)"

text \<open>\<open>sort_unstable\<close> and \<open>dedup\<close>, then one request for each run.\<close>

definition remove_messages :: "('r, 's) dialogue \<Rightarrow> message list \<Rightarrow> ('r, 's, nat) act" where
  "remove_messages D ms =
     and_then (remove_ranges D (contiguous_runs (remdups (sort (server_seqs_of ms))))) (\<lambda>_.
     and_then (update_store (delete_messages_by_seqs (dg_key D) (local_seqs_of ms))) (\<lambda>_. give (length (local_seqs_of ms))))"

definition topic_messages :: "('r, 's) dialogue \<Rightarrow> string \<Rightarrow> local_store \<Rightarrow> message list" where
  "topic_messages D topic_name = list_topic_messages (dg_key D) (derive_topic_id (dg_crypto D) (dg_lower D) (dg_key D) topic_name)"

definition delete_topic :: "('r, 's) dialogue \<Rightarrow> string \<Rightarrow> ('r, 's, nat) act" where
  "delete_topic D topic_name =
     and_then (ask (topic_messages D topic_name)) (\<lambda>ms. if ms = [] then give 0 else remove_messages D ms)"

definition numbered :: "message list \<Rightarrow> message list" where
  "numbered ms = filter (\<lambda>m. m_server_seq m \<noteq> None)
     (sort_key (\<lambda>m. case m_server_seq m of None \<Rightarrow> - 1 | Some s \<Rightarrow> s) ms)"

definition trim_topic_keep_last :: "('r, 's) dialogue \<Rightarrow> string \<Rightarrow> nat \<Rightarrow> bool \<Rightarrow> ('r, 's, nat) act" where
  "trim_topic_keep_last D topic_name keep dry_run =
     and_then (ask (topic_messages D topic_name)) (\<lambda>ms.
       let sendable = numbered ms
       in if length sendable \<le> keep then give 0
          else let old = take (length sendable - keep) sendable
               in if dry_run then give (length (local_seqs_of old)) else remove_messages D old)"

end
