(* ===== verification/Dialogue_Receive.thy ===== *)
theory Dialogue_Receive
  imports Dialogue
begin

text \<open>
  Receiving as a reading of packets in order: the operations that leave the outside world alone
  (\<open>quiet\<close>), the reading of a list of packets one by one (\<open>absorb\<close>), and that the skipping inside a
  batch comes to the same.
\<close>

section \<open>Operations that only use the local database\<close>

definition quiet :: "('r, 's, 'a) act \<Rightarrow> bool" where
  "quiet m \<longleftrightarrow> (\<forall>st. \<exists>r L. \<forall>n. m (st\<lparr>s_net := n\<rparr>) = Some (r, st\<lparr>s_net := n, s_store := L\<rparr>))"

lemma st_swap [simp]: "st\<lparr>s_store := L, s_net := n\<rparr> = st\<lparr>s_net := n, s_store := L\<rparr>"
  by (cases st) simp

lemma same_store: "\<exists>L. \<forall>n. st\<lparr>s_net := n\<rparr> = st\<lparr>s_net := n, s_store := L\<rparr>"
  by (rule exI [of _ "s_store st"]) simp

lemma quietD:
  assumes "quiet m"
  obtains r L where "m st = Some (r, st\<lparr>s_store := L\<rparr>)" and "\<And>n. m (st\<lparr>s_net := n\<rparr>) = Some (r, st\<lparr>s_net := n, s_store := L\<rparr>)"
proof -
  from assms obtain r L where all: "\<And>n. m (st\<lparr>s_net := n\<rparr>) = Some (r, st\<lparr>s_net := n, s_store := L\<rparr>)"
    unfolding quiet_def by blast
  from all [of "s_net st"] have "m st = Some (r, st\<lparr>s_store := L\<rparr>)" by simp
  with all that show ?thesis by blast
qed

lemma quiet_basic [simp]:
  "quiet (give x)" "quiet (bail e)" "quiet (of_res r)" "quiet (ask q)" "quiet (update_store g)" "quiet (on_store h)"
proof -
  show "quiet (give x)" "quiet (bail e)" "quiet (of_res r)" "quiet (ask q)"
    by (simp_all add: quiet_def give_def bail_def of_res_def ask_def same_store)
  show "quiet (update_store g)" by (auto simp: quiet_def update_store_def)
  show "quiet (on_store h)" by (auto simp: quiet_def on_store_def Let_def case_prod_beta)
qed

lemma quiet_and_then:
  assumes m: "quiet m" and f: "\<And>x st st'. m st = Some (Inr x, st') \<Longrightarrow> quiet (f x)"
  shows "quiet (and_then m f)"
  unfolding quiet_def
proof (rule allI)
  fix st
  from m obtain r L where m1: "m st = Some (r, st\<lparr>s_store := L\<rparr>)"
    and m2: "\<And>n. m (st\<lparr>s_net := n\<rparr>) = Some (r, st\<lparr>s_net := n, s_store := L\<rparr>)" by (rule quietD [where st = st]) blast
  show "\<exists>r L. \<forall>n. and_then m f (st\<lparr>s_net := n\<rparr>) = Some (r, st\<lparr>s_net := n, s_store := L\<rparr>)"
  proof (cases r)
    case (Inl e)
    then show ?thesis by (intro exI [of _ "Inl e"] exI [of _ L]) (simp add: and_then_def m2)
  next
    case (Inr x)
    with m1 have "quiet (f x)" by (intro f) simp
    then obtain r2 L2 where f2: "\<And>n. f x (st\<lparr>s_store := L\<rparr>\<lparr>s_net := n\<rparr>) = Some (r2, st\<lparr>s_store := L\<rparr>\<lparr>s_net := n, s_store := L2\<rparr>)"
      by (rule quietD [where st = "st\<lparr>s_store := L\<rparr>"]) blast
    have "f x (st\<lparr>s_net := n, s_store := L\<rparr>) = Some (r2, st\<lparr>s_net := n, s_store := L2\<rparr>)" for n using f2 [of n] by simp
    then show ?thesis by (intro exI [of _ r2] exI [of _ L2]) (simp add: and_then_def m2 Inr)
  qed
qed

lemma and_then_simps [simp]: "and_then (give x) f = f x" "and_then (of_res (Inr x)) f = f x" "and_then (of_res (Inl e)) f = bail e"
  "and_then (bail e) f = bail e"
  by (auto simp: and_then_def give_def of_res_def bail_def)

lemma and_then_give [simp]: "and_then m give = m"
  by (auto simp: and_then_def give_def fun_eq_iff split: Option.bind_splits option.splits sum.splits)

lemma and_then_assoc: "and_then (and_then m f) g = and_then m (\<lambda>x. and_then (f x) g)"
  by (auto simp: and_then_def fun_eq_iff split: Option.bind_splits option.splits sum.splits)

lemma and_then_Inr: "and_then m f st = Some (Inr y, st') \<longleftrightarrow> (\<exists>x st1. m st = Some (Inr x, st1) \<and> f x st1 = Some (Inr y, st'))"
  by (auto simp: and_then_def split: Option.bind_splits option.splits sum.splits)

lemma and_then_cong: "(\<And>x st st'. m st = Some (Inr x, st') \<Longrightarrow> f x = g x) \<Longrightarrow> and_then m f = and_then m g"
  by (auto simp: and_then_def fun_eq_iff split: Option.bind_splits option.splits sum.splits)

section \<open>Operations that leave the world as it is\<close>

definition follows :: "('s \<Rightarrow> bool) \<Rightarrow> ('r, 's, 'a) act \<Rightarrow> ('r, 's, 'a) act \<Rightarrow> bool" where
  "follows G m m' \<longleftrightarrow> (\<forall>st. G (s_net st) \<longrightarrow>
     (\<exists>n. G n \<and> m st = map_option (\<lambda>(r, st'). (r, st'\<lparr>s_net := n\<rparr>)) (m' st)))"

lemma follows_quiet:
  fixes m :: "('r, 's, 'a) act"
  assumes "quiet m" shows "follows G m m"
  unfolding follows_def
proof (intro allI impI)
  fix st :: "('r, 's) dialogue_st" assume "G (s_net st)"
  moreover from assms obtain r L where "m st = Some (r, st\<lparr>s_store := L\<rparr>)" by (rule quietD)
  ultimately show "\<exists>n. G n \<and> m st = map_option (\<lambda>(r, st'). (r, st'\<lparr>s_net := n\<rparr>)) (m st)"
    by (intro exI [of _ "s_net st"]) simp
qed

lemma follows_on_net: "(\<And>n. G n \<Longrightarrow> \<exists>n'. G n' \<and> f n = (Inr x, n')) \<Longrightarrow> follows G (on_net f) (give x)"
  unfolding follows_def on_net_def give_def by (force simp: Let_def split: prod.split)

lemma follows_and_then:
  fixes m :: "('r, 's, 'a) act"
  assumes m: "follows G m m'" and q: "quiet m'"
    and f: "\<And>x st st'. m' st = Some (Inr x, st') \<Longrightarrow> follows G (f x) (f' x) \<and> quiet (f' x)"
  shows "follows G (and_then m f) (and_then m' f')"
  unfolding follows_def
proof (intro allI impI)
  fix st :: "('r, 's) dialogue_st" assume G: "G (s_net st)"
  from q obtain r L where m': "m' st = Some (r, st\<lparr>s_store := L\<rparr>)" by (rule quietD)
  from m G obtain n where n: "G n" "m st = map_option (\<lambda>(r, st'). (r, st'\<lparr>s_net := n\<rparr>)) (m' st)"
    unfolding follows_def by blast
  show "\<exists>n. G n \<and> and_then m f st = map_option (\<lambda>(r, st'). (r, st'\<lparr>s_net := n\<rparr>)) (and_then m' f' st)"
  proof (cases r)
    case (Inl e)
    with n m' show ?thesis by (intro exI [of _ n]) (simp add: and_then_def)
  next
    case (Inr x)
    let ?st = "st\<lparr>s_store := L\<rparr>"
    have fx: "follows G (f x) (f' x)" "quiet (f' x)" using f m' Inr by blast+
    from fx(2) obtain r2 L2 where f': "f' x ?st = Some (r2, ?st\<lparr>s_store := L2\<rparr>)"
      "\<And>n. f' x (?st\<lparr>s_net := n\<rparr>) = Some (r2, ?st\<lparr>s_net := n, s_store := L2\<rparr>)" by (rule quietD) blast
    have "G (s_net (?st\<lparr>s_net := n\<rparr>))" using n(1) by simp
    with fx(1) obtain n2 where "G n2"
      "f x (?st\<lparr>s_net := n\<rparr>) = map_option (\<lambda>(r, st'). (r, st'\<lparr>s_net := n2\<rparr>)) (f' x (?st\<lparr>s_net := n\<rparr>))"
      unfolding follows_def by blast
    with n m' Inr f' show ?thesis by (intro exI [of _ n2]) (simp add: and_then_def)
  qed
qed

lemma follows_give:
  assumes "follows G m (give x)" and "follows G (f x) m'" and "quiet m'"
  shows "follows G (and_then m f) m'"
  using follows_and_then [OF assms(1) quiet_basic(1), of f "\<lambda>_. m'"] assms(2,3) by (auto simp: give_def)

section \<open>One pass over the packets\<close>

definition take_packet :: "('r, 's) dialogue \<Rightarrow> raw_packet \<Rightarrow> pull_acc \<Rightarrow> ('r, 's, pull_acc) act" where
  "take_packet D pkt acc =
     (case decrypt_packet D (rp_seq pkt) (rp_payload pkt) of
        Inl e \<Rightarrow> set_cursor D (rp_seq pkt) (acc\<lparr>decrypt_errors := decrypt_errors acc + 1\<rparr>)
      | Inr inner \<Rightarrow> and_then (of_res (advance_to (rp_seq pkt) inner)) (\<lambda>e. take_inner D (rp_seq pkt) inner e acc))"

text \<open>Every packet that the cursor has not passed is taken, in order.\<close>

fun absorb :: "('r, 's) dialogue \<Rightarrow> raw_packet list \<Rightarrow> pull_acc \<Rightarrow> ('r, 's, pull_acc) act" where
  "absorb D [] acc = give acc"
| "absorb D (pkt # pkts) acc = (if rp_seq pkt \<le> cursor acc then absorb D pkts acc else and_then (take_packet D pkt acc) (absorb D pkts))"

definition timely :: "('r, 's) dialogue \<Rightarrow> raw_packet \<Rightarrow> bool" where
  "timely D pkt \<longleftrightarrow> (case decrypt_packet D (rp_seq pkt) (rp_payload pkt) of
     Inl _ \<Rightarrow> True | Inr inner \<Rightarrow> dg_from_millis D (pi_timestamp inner) \<noteq> None)"

definition as_packet :: "u64 \<times> bytes \<Rightarrow> raw_packet" where
  "as_packet p = \<lparr>rp_seq = fst p, rp_payload = snd p\<rparr>"

lemma as_packet_simps [simp]: "rp_seq (as_packet p) = fst p" "rp_payload (as_packet p) = snd p"
  by (simp_all add: as_packet_def)

lemma le_sat_add: "s \<le> sat_add s k" for s k :: u64
proof -
  have "unat s < 2 ^ 64" using unsigned_less [of s] by simp
  then show ?thesis by (auto simp: word_le_nat_alt unat_sat_add)
qed

lemma set_cursor_Inr: "set_cursor D c acc st = Some (Inr acc', st') \<Longrightarrow> cursor acc' = c"
  by (auto simp: set_cursor_def and_then_Inr give_def)

lemma quiet_set_cursor [simp]: "quiet (set_cursor D c acc)"
  by (simp add: set_cursor_def quiet_and_then)

lemma quiet_incoming:
  assumes "dg_from_millis D (pi_timestamp inner) \<noteq> None"
  shows "quiet (process_incoming D inner s)"
proof -
  obtain ts where ts: "millis_or_now D (pi_timestamp inner) = give ts" using assms by (auto simp: millis_or_now_def)
  have "quiet (incoming_header D inner s h)" for h
    by (auto simp: incoming_header_def ts Let_def intro!: quiet_and_then split: prod.split)
  moreover have "quiet (incoming_chunk D inner s c)" for c
    by (auto simp: incoming_chunk_def ts Let_def intro!: quiet_and_then split: option.split)
  moreover have "quiet (incoming_other D inner s)"
    by (auto simp: incoming_other_def ts Let_def intro!: quiet_and_then split: prod.split)
  ultimately show ?thesis
    by (auto simp: process_incoming_def intro!: quiet_and_then split: message_content.split)
qed

lemma quiet_take_inner:
  "dg_from_millis D (pi_timestamp inner) \<noteq> None \<Longrightarrow> quiet (take_inner D s inner e acc)"
  by (auto simp: take_inner_def intro!: quiet_and_then quiet_incoming split: option.split)

lemma quiet_take_packet: "timely D pkt \<Longrightarrow> quiet (take_packet D pkt acc)"
  by (auto simp: take_packet_def timely_def split: sum.splits intro!: quiet_and_then quiet_take_inner)

lemma quiet_absorb: "\<forall>p \<in> set pkts. timely D p \<Longrightarrow> quiet (absorb D pkts acc)"
  by (induction pkts arbitrary: acc) (auto intro!: quiet_and_then quiet_take_packet)

lemma take_inner_cursor: "take_inner D s inner e acc st = Some (Inr acc', st') \<Longrightarrow> cursor acc' = e"
  by (auto simp: take_inner_def and_then_Inr give_def add_received_def dest!: set_cursor_Inr split: option.splits)

lemma advance_to_ge: "advance_to s inner = Inr e \<Longrightarrow> s \<le> e"
  by (auto simp: advance_to_def header_body_end_def checked_add_Some_iff word_le_nat_alt unat_word_ariths
      split: message_content.splits option.splits)

lemma take_packet_cursor: "take_packet D pkt acc st = Some (Inr acc', st') \<Longrightarrow> rp_seq pkt \<le> cursor acc'"
  by (auto simp: take_packet_def and_then_Inr of_res_def dest!: set_cursor_Inr take_inner_cursor intro: advance_to_ge split: sum.splits)

lemma absorb_cursor:
  "absorb D pkts acc st = Some (Inr acc', st') \<Longrightarrow> cursor acc \<le> cursor acc' \<and> (\<forall>p \<in> set pkts. rp_seq p \<le> cursor acc')"
proof (induction pkts arbitrary: acc st)
  case (Cons pkt pkts)
  show ?case
  proof (cases "rp_seq pkt \<le> cursor acc")
    case True
    with Cons.prems Cons.IH [of acc st] show ?thesis by auto
  next
    case False
    with Cons.prems obtain acc1 st1 where "take_packet D pkt acc st = Some (Inr acc1, st1)" "absorb D pkts acc1 st1 = Some (Inr acc', st')"
      by (auto simp: and_then_Inr)
    with take_packet_cursor [of D pkt acc st acc1 st1] Cons.IH [of acc1 st1] False show ?thesis by auto
  qed
qed (simp add: give_def)

lemma absorb_append: "absorb D (xs @ ys) acc = and_then (absorb D xs acc) (absorb D ys)"
proof (induction xs arbitrary: acc)
  case (Cons p xs)
  then have "absorb D (xs @ ys) = (\<lambda>x. and_then (absorb D xs x) (absorb D ys))" by blast
  with Cons show ?case by (simp add: and_then_assoc)
qed simp

lemma absorb_filter: "\<forall>p \<in> set xs. \<not> P p \<longrightarrow> rp_seq p \<le> cursor acc \<Longrightarrow> absorb D (filter P xs) acc = absorb D xs acc"
proof (induction xs arbitrary: acc)
  case (Cons p xs)
  show ?case
  proof (cases "rp_seq p \<le> cursor acc")
    case False
    have "and_then (take_packet D p acc) (absorb D (filter P xs)) = and_then (take_packet D p acc) (absorb D xs)"
    proof (rule and_then_cong)
      fix x st st' assume "take_packet D p acc st = Some (Inr x, st')"
      then have "cursor acc \<le> cursor x" using take_packet_cursor False by fastforce
      with Cons.prems show "absorb D (filter P xs) x = absorb D xs x" by (intro Cons.IH) auto
    qed
    with False Cons.prems show ?thesis by auto
  qed (use Cons in auto)
qed simp

lemma take_packets_absorb:
  "sorted_wrt (<) (map rp_seq pkts) \<Longrightarrow> \<forall>p \<in> set pkts. (case su of Some u \<Rightarrow> rp_seq p \<le> u | None \<Rightarrow> False) \<longleftrightarrow> rp_seq p \<le> cursor acc \<Longrightarrow>
    take_packets D pkts su acc = absorb D pkts acc"
proof (induction pkts arbitrary: su acc)
  case (Cons pkt pkts)
  have later: "\<forall>p \<in> set pkts. rp_seq pkt < rp_seq p" and sorted: "sorted_wrt (<) (map rp_seq pkts)" using Cons.prems(1) by auto
  have rest: "take_packets D pkts None x = absorb D pkts x" if "cursor x = rp_seq pkt" for x
    using later that by (intro Cons.IH [OF sorted]) (auto simp: not_le)
  show ?case
  proof (cases "rp_seq pkt \<le> cursor acc")
    case True
    with Cons.prems Cons.IH [OF sorted, of su acc] show ?thesis by auto
  next
    case False
    show ?thesis
    proof (cases "decrypt_packet D (rp_seq pkt) (rp_payload pkt)")
      case (Inl e)
      with False Cons.prems(2) show ?thesis by (auto simp: take_packet_def intro!: and_then_cong rest dest: set_cursor_Inr)
    next
      case (Inr inner)
      have "and_then (take_inner D (rp_seq pkt) inner e acc) (take_packets D pkts (skip_after e inner)) =
          and_then (take_inner D (rp_seq pkt) inner e acc) (absorb D pkts)" if adv: "advance_to (rp_seq pkt) inner = Inr e" for e
      proof (rule and_then_cong)
        fix x st st' assume "take_inner D (rp_seq pkt) inner e acc st = Some (Inr x, st')"
        then have x: "cursor x = e" by (rule take_inner_cursor)
        have "skip_after e inner = Some e \<or> skip_after e inner = None \<and> e = rp_seq pkt"
          using adv by (auto simp: skip_after_def advance_to_def header_body_end_def checked_add_Some_iff word_gt_0
              split: message_content.splits option.splits)
        with x rest [of x] show "take_packets D pkts (skip_after e inner) x = absorb D pkts x"
          by (auto intro: Cons.IH [OF sorted])
      qed
      with False Cons.prems(2) Inr show ?thesis
        by (cases "advance_to (rp_seq pkt) inner") (auto simp: take_packet_def)
    qed
  qed
qed simp

end
