(* ===== verification/Dialogue_Mailbox.thy ===== *)
theory Dialogue_Mailbox
  imports Dialogue_Receive Ordered_Map
begin

text \<open>
  The contract between the dialogue and the server (\<open>mailbox\<close>): what \<open>map\<close> and \<open>pull\<close> answer for the
  packets that are stored. From it alone follows what \<open>receive\<close> does (\<open>receive_follows\<close>).
\<close>

section \<open>Pages of the map\<close>

abbreviation keys_above :: "u64 \<Rightarrow> (u64 \<times> bytes) list \<Rightarrow> u64 list" where
  "keys_above a b \<equiv> map fst (filter (\<lambda>p. a < fst p) b)"

definition top_key :: "(u64 \<times> bytes) list \<Rightarrow> u64" where
  "top_key b = (if b = [] then 0 else fst (last b))"

lemma runs_loop_end: "start \<le> stop \<Longrightarrow> sorted_wrt (<) (stop # ss) \<Longrightarrow> r \<in> set (runs_loop start stop ss) \<Longrightarrow> stop \<le> snd r"
proof (induction start stop ss rule: runs_loop.induct)
  case (2 start stop s ss)
  then have "stop < s" "sorted_wrt (<) (s # ss)" by auto
  with 2 show ?case by (fastforce split: if_splits)
qed simp

lemma runs_loop_nonempty [simp]: "runs_loop start stop ss \<noteq> []"
  by (induction start stop ss rule: runs_loop.induct) auto

lemma filter_all: "\<forall>x \<in> set xs. P x \<Longrightarrow> filter P xs = xs"
  by simp

lemma runs_loop_page:
  "start \<le> stop \<Longrightarrow> sorted_wrt (<) (stop # ss) \<Longrightarrow> 0 < k \<Longrightarrow> k < length (runs_loop start stop ss) \<Longrightarrow>
    drop k (runs_loop start stop ss) = contiguous_runs (filter (\<lambda>s. snd (last (take k (runs_loop start stop ss))) < s) ss)"
proof (induction start stop ss arbitrary: k rule: runs_loop.induct)
  case (2 start stop s ss)
  then have less: "stop < s" and sorted: "sorted_wrt (<) (s # ss)" by auto
  have skip: "\<not> snd (last (take j (runs_loop b s ss))) < s" if "b \<le> s" "0 < j" for b j
  proof -
    have "last (take j (runs_loop b s ss)) \<in> set (runs_loop b s ss)"
      using that(2) by (intro in_set_takeD [OF last_in_set]) simp
    from runs_loop_end [OF that(1) sorted this] show ?thesis by simp
  qed
  show ?case
  proof (cases "s = stop + 1")
    case True
    have "start \<le> s" using "2.prems"(1) less by simp
    with 2 True sorted skip [of start k] show ?thesis by simp
  next
    case False
    show ?thesis
    proof (cases "k = 1")
      case True
      have "filter (\<lambda>x. stop < x) (s # ss) = s # ss" by (rule filter_all) (use less sorted in auto)
      with True False show ?thesis by simp
    next
      case more: False
      then obtain j where k: "k = Suc j" "0 < j" using "2.prems"(3) by (cases k) auto
      have "last (take k (runs_loop start stop (s # ss))) = last (take j (runs_loop s s ss))" using k False by simp
      with "2.IH"(2) [OF False order_refl sorted k(2)] "2.prems"(4) False k skip [of s j] show ?thesis by simp
    qed
  qed
qed simp

lemma contiguous_runs_page:
  assumes "sorted_wrt (<) ks" "0 < k" "k < length (contiguous_runs ks)"
  shows "drop k (contiguous_runs ks) = contiguous_runs (filter (\<lambda>s. snd (last (take k (contiguous_runs ks))) < s) ks)"
proof (cases ks)
  case (Cons s ss)
  have "last (take k (runs_loop s s ss)) \<in> set (runs_loop s s ss)"
    using assms(2) by (intro in_set_takeD [OF last_in_set]) simp
  from runs_loop_end [OF order_refl _ this] assms(1) Cons have "\<not> snd (last (take k (runs_loop s s ss))) < s" by (simp add: not_less)
  with runs_loop_page [of s s ss k] assms Cons show ?thesis by simp
qed (use assms in simp)

lemma contiguous_runs_Nil [simp]: "contiguous_runs ks = [] \<longleftrightarrow> ks = []"
  by (cases ks) simp_all

lemma in_contiguous_runs: "sorted_wrt (<) ks \<Longrightarrow> in_runs (contiguous_runs ks) s \<longleftrightarrow> s \<in> set ks"
  using runs_loop_exact by (cases ks) auto

lemma contiguous_runs_ok: "sorted_wrt (<) ks \<Longrightarrow> runs_ok (contiguous_runs ks)"
  using contiguous_runs_facts runs_apart_ok by blast

lemma runs_ok_sorted: "runs_ok rs \<Longrightarrow> sorted (map fst rs)"
  by (induction rs rule: runs_ok.induct) (auto intro: order_trans less_imp_le)

section \<open>What receiving comes to\<close>

definition drop_gone :: "('r, 's) dialogue \<Rightarrow> u64 list \<Rightarrow> local_store \<Rightarrow> local_store" where
  "drop_gone D live L = delete_messages_by_seqs (dg_key D) (filter (\<lambda>s. s \<notin> set live) (get_delivered_server_seqs (dg_key D) L)) L"

definition receive_spec :: "('r, 's) dialogue \<Rightarrow> (u64 \<times> bytes) list \<Rightarrow> ('r, 's, message list \<times> nat) act" where
  "receive_spec D b =
     and_then (ask (get_last_pulled_seq (dg_key D))) (\<lambda>c.
     and_then (absorb D (map as_packet (filter (\<lambda>p. 0 < fst p) b)) \<lparr>cursor = c, received = [], decrypt_errors = 0\<rparr>) (\<lambda>acc.
     and_then (if cursor acc < top_key b then set_cursor D (top_key b) acc else give acc) (\<lambda>acc.
     and_then (update_store (drop_gone D (keys_above 0 b))) (\<lambda>_. give (received acc, decrypt_errors acc)))))"

lemma delete_no_seqs: "delete_messages_by_seqs d [] L = L"
  by (simp add: delete_messages_by_seqs_def)

lemma sweep_drop_gone: "sorted_wrt (<) ks \<Longrightarrow> sweep D (contiguous_runs ks) = drop_gone D ks"
  using contiguous_runs_facts [of ks] by (auto simp: sweep_def drop_gone_def fun_eq_iff Let_def delete_no_seqs)

section \<open>The contract\<close>

definition sealed_push :: "('r, 's) dialogue \<Rightarrow> u64 \<Rightarrow> bytes \<Rightarrow> core_push" where
  "sealed_push D s ciphertext = \<lparr>cp_sender = dg_user D, cp_recver = partner D, cp_seq = s, cp_payload = ciphertext,
     cp_push_sig = sign D (dg_user D @ partner D @ show_u64 s @ encode_b64 (dg_crypto D) ciphertext)\<rparr>"

locale mailbox =
  fixes D :: "('r, 's) dialogue" and good :: "'s \<Rightarrow> bool" and box :: "'s \<Rightarrow> (u64 \<times> bytes) list" and page :: nat
  assumes page_pos: "0 < page"
    and box_sorted: "good n \<Longrightarrow> om_ok (box n)"
    and pull_law: "good n \<Longrightarrow> a < t \<Longrightarrow> \<exists>n'. good n' \<and> box n' = box n \<and>
      w_pull (dg_wire D) (signed_range D a t) n = (Inr (map as_packet (filter (\<lambda>p. a < fst p \<and> fst p \<le> t) (box n))), n')"
    and map_law: "good n \<Longrightarrow> \<exists>n'. good n' \<and> box n' = box n \<and>
      w_map (dg_wire D) (signed_range D a 0) n =
        (Inr \<lparr>ma_runs = take page (contiguous_runs (keys_above a (box n))), ma_last_seq = top_key (box n),
              ma_truncated = (page < length (contiguous_runs (keys_above a (box n))))\<rparr>, n')"
    and push_law: "good n \<Longrightarrow> \<exists>n'. good n' \<and>
      (if map_of (box n) s = None then w_push (dg_wire D) (sealed_push D s ct) n = (Inr (), n') \<and> box n' = om_insert s ct (box n)
       else w_push (dg_wire D) (sealed_push D s ct) n = (Inl ''duplicate_seq'', n') \<and> box n' = box n)"
    and notify_law: "good n \<Longrightarrow> \<exists>n' answer. good n' \<and> box n' = box n \<and> w_notify (dg_wire D) q n = (answer, n')"
begin

abbreviation holds :: "(u64 \<times> bytes) list \<Rightarrow> 's \<Rightarrow> bool" where
  "holds b n \<equiv> good n \<and> box n = b"

lemma fetch_map_follows:
  "follows (holds b) (fetch_map D a 0)
    (give \<lparr>ma_runs = take page (contiguous_runs (keys_above a b)), ma_last_seq = top_key b,
       ma_truncated = (page < length (contiguous_runs (keys_above a b)))\<rparr>)"
  unfolding fetch_map_def by (rule follows_on_net) (use map_law in auto)

lemma pull_follows:
  "a < t \<Longrightarrow> follows (holds b) (pull_packets D a t) (give (map as_packet (filter (\<lambda>p. a < fst p \<and> fst p \<le> t) b)))"
  unfolding pull_packets_def by (rule follows_on_net) (use pull_law in auto)

lemma keys_sorted: "om_ok b \<Longrightarrow> sorted_wrt (<) (map fst (filter P b))"
  by (auto simp: om_ok_def intro: sorted_wrt_filter_map)

lemma fetch_runs_follows:
  "om_ok b \<Longrightarrow> follows (holds b) (fetch_runs D a rs t) (give (rs @ contiguous_runs (keys_above a b), max t (top_key b)))"
proof (induction "length (keys_above a b)" arbitrary: a rs t rule: less_induct)
  case less
  let ?all = "contiguous_runs (keys_above a b)"
  let ?page = "take page ?all"
  define e where "e = snd (last ?page)"
  have step: "fetch_runs D a rs t = and_then (fetch_map D a 0) (\<lambda>m.
      if ma_runs m = [] then give (rs, max t (ma_last_seq m))
      else if \<not> ma_truncated m then give (rs @ ma_runs m, max t (ma_last_seq m))
      else fetch_runs D (snd (last (ma_runs m))) (rs @ ma_runs m) (max t (ma_last_seq m)))"
    by (rule ext, subst fetch_runs.simps) (auto intro!: arg_cong [where f = "\<lambda>f. and_then (fetch_map D a 0) f _"] ext simp: Let_def)
  have "follows (holds b) (if ?page = [] then give (rs, max t (top_key b))
      else if \<not> page < length ?all then give (rs @ ?page, max t (top_key b))
      else fetch_runs D e (rs @ ?page) (max t (top_key b))) (give (rs @ ?all, max t (top_key b)))"
  proof (cases "?page \<noteq> [] \<and> page < length ?all")
    case True
    note sorted = keys_sorted [OF less.prems, of "\<lambda>p. a < fst p"]
    have "last ?page \<in> set ?all" using True by (intro in_set_takeD [OF last_in_set]) simp
    moreover have "fst r \<le> snd r" if "r \<in> set ?all" for r
      using runs_ok_nth [OF contiguous_runs_ok [OF sorted]] that by (auto simp: in_set_conv_nth)
    ultimately have "in_runs ?all e" unfolding in_runs_ex e_def by blast
    then have e: "e \<in> set (keys_above a b)" by (simp only: in_contiguous_runs [OF sorted])
    then have above: "filter (\<lambda>s. e < s) (keys_above a b) = keys_above e b"
      by (auto simp: filter_map comp_def intro!: arg_cong [where f = "map fst"] filter_cong)
    have "length (keys_above e b) < length (keys_above a b)"
      using length_filter_less [OF e, of "\<lambda>s. e < s"] above by simp
    moreover have "drop page ?all = contiguous_runs (keys_above e b)"
      using contiguous_runs_page [OF sorted page_pos] True above by (simp add: e_def)
    then have "?all = ?page @ contiguous_runs (keys_above e b)" by (metis append_take_drop_id)
    ultimately show ?thesis using less.hyps [of e "rs @ ?page" "max t (top_key b)"] less.prems True
      by (simp add: max.assoc)
  next
    case False
    then have "?page = ?all" using page_pos by auto
    with False show ?thesis by (auto intro: follows_quiet)
  qed
  then show ?case unfolding step by (intro follows_give [OF fetch_map_follows]) (simp_all add: e_def cong: if_cong)
qed

lemma pull_run_step:
  "pull_run D s stop acc =
    (if s \<le> stop then and_then (pull_batch D s stop acc) (\<lambda>p. pull_run D (fst p) stop (snd p)) else give acc)"
  by (rule ext, subst pull_run.simps) (auto intro!: arg_cong [where f = "\<lambda>f. and_then _ f _"])

lemma pull_batch_follows:
  assumes ok: "om_ok b" and s: "0 < s" "s \<le> stop" "cursor acc < s" "s \<in> fst ` set b" and t: "\<forall>p \<in> set b. timely D (as_packet p)"
  defines "e \<equiv> min (sat_add s (RECEIVE_PULL_BATCH - 1)) stop"
  shows "follows (holds b) (pull_batch D s stop acc)
    (and_then (absorb D (map as_packet (filter (\<lambda>p. s \<le> fst p \<and> fst p \<le> e) b)) acc) (\<lambda>acc'.
       give (max (sat_add (cursor acc') 1) (sat_add e 1), acc')))"
proof -
  let ?ps = "map as_packet (filter (\<lambda>p. s \<le> fst p \<and> fst p \<le> e) b)"
  have above: "sat_sub s 1 < x \<longleftrightarrow> s \<le> x" for x
    using s(1) by (auto simp: word_less_nat_alt word_le_nat_alt unat_sat_sub)
  have e: "s \<le> e" using s(2) by (simp add: e_def le_sat_add)
  then have "sat_sub s 1 < e" by (simp add: above)
  from pull_follows [OF this, of b] have pull: "follows (holds b) (pull_packets D (sat_sub s 1) e) (give ?ps)" by (simp only: above)
  have ne: "?ps \<noteq> []" using s(4) e by (auto simp: filter_empty_conv)
  have sorted: "sorted_wrt (<) (map rp_seq ?ps)" using keys_sorted [OF ok] by (simp add: comp_def)
  then have sort: "sort_key rp_seq ?ps = ?ps" by (simp add: sort_key_id_if_sorted strict_sorted_iff)
  have take: "take_packets D ?ps None acc = absorb D ?ps acc"
    using s(3) by (intro take_packets_absorb [OF sorted]) (auto simp: not_le intro: less_le_trans)
  have quiet: "quiet (absorb D ?ps acc)" using t by (intro quiet_absorb) auto
  have "pull_batch D s stop acc = and_then (pull_packets D (sat_sub s 1) e) (\<lambda>ps.
      if ps = [] then and_then (set_cursor D e acc) (\<lambda>acc'. give (sat_add e 1, acc'))
      else and_then (take_packets D (sort_key rp_seq ps) None acc) (\<lambda>acc'. give (max (sat_add (cursor acc') 1) (sat_add e 1), acc')))"
    unfolding pull_batch_def e_def Let_def ..
  moreover have "follows (holds b) \<dots> (and_then (absorb D ?ps acc) (\<lambda>acc'. give (max (sat_add (cursor acc') 1) (sat_add e 1), acc')))"
    using ne quiet by (intro follows_give [OF pull]) (auto simp only: sort take if_False intro!: follows_quiet quiet_and_then quiet_basic)
  ultimately show ?thesis by simp
qed

lemma filter_split: "om_ok b \<Longrightarrow> \<forall>x y. P x \<longrightarrow> Q y \<longrightarrow> x < y \<Longrightarrow>
    filter (\<lambda>p. P (fst p) \<or> Q (fst p)) b = filter (\<lambda>p. P (fst p)) b @ filter (\<lambda>p. Q (fst p)) b"
proof (induction b)
  case (Cons p b)
  have later: "\<not> P (fst q)" if "Q (fst p)" "q \<in> set b" for q
    using Cons.prems that by (fastforce simp: om_ok_Cons)
  have "\<not> (P (fst p) \<and> Q (fst p))" using Cons.prems(2) by (metis less_irrefl)
  moreover have "filter (\<lambda>q. P (fst q)) b = []" if "Q (fst p)" using later [OF that] by (simp add: filter_empty_conv)
  ultimately show ?case using Cons by (auto simp: om_ok_Cons)
qed simp

lemma pull_run_follows:
  assumes ok: "om_ok b" and t: "\<forall>p \<in> set b. timely D (as_packet p)" and stop: "stop < - 1"
  shows "0 < s \<Longrightarrow> s \<le> stop \<longrightarrow> cursor acc < s \<Longrightarrow> \<forall>x. s \<le> x \<longrightarrow> x \<le> stop \<longrightarrow> x \<in> fst ` set b \<Longrightarrow>
    follows (holds b) (pull_run D s stop acc) (absorb D (map as_packet (filter (\<lambda>p. s \<le> fst p \<and> fst p \<le> stop) b)) acc)"
proof (induction "Suc (unat stop) - unat s" arbitrary: s acc rule: less_induct)
  case less
  let ?part = "\<lambda>s e. map as_packet (filter (\<lambda>p. s \<le> fst p \<and> fst p \<le> e) b)"
  show ?case
  proof (cases "s \<le> stop")
    case False
    then have "?part s stop = []" by (auto simp: filter_empty_conv)
    with False show ?thesis by (subst pull_run_step) (auto intro: follows_quiet)
  next
    case True
    define e where "e = min (sat_add s (RECEIVE_PULL_BATCH - 1)) stop"
    from True have e: "s \<le> e" "e \<le> stop" by (simp_all add: e_def le_sat_add)
    then have next_e: "unat (sat_add e 1) = Suc (unat e)"
      using stop by (simp add: unat_sat_add word_less_nat_alt word_le_nat_alt unat_minus_one_word_eq)
    then have after_e: "sat_add e 1 \<le> x \<longleftrightarrow> e < x" for x by (simp add: word_less_nat_alt word_le_nat_alt Suc_le_eq)
    note batch = pull_batch_follows [OF ok less.prems(1) True _ _ t, of acc, folded e_def]
    have rest: "follows (holds b) (pull_run D (max (sat_add (cursor acc') 1) (sat_add e 1)) stop acc') (absorb D (?part (sat_add e 1) stop) acc')"
      for acc'
    proof -
      let ?s = "max (sat_add (cursor acc') 1) (sat_add e 1)"
      have "Suc (unat stop) - unat ?s < Suc (unat stop) - unat s"
        using next_e e True by (auto simp: max_def word_le_nat_alt)
      moreover have "0 < ?s" using next_e by (auto simp: word_less_nat_alt max_def word_le_nat_alt)
      moreover have "?s \<le> stop \<longrightarrow> cursor acc' < ?s"
        using stop by (auto simp: word_less_nat_alt word_le_nat_alt unat_sat_add unat_minus_one_word_eq max_def split: if_splits)
      moreover have "\<forall>x. ?s \<le> x \<longrightarrow> x \<le> stop \<longrightarrow> x \<in> fst ` set b"
        using less.prems(3) e by (auto simp: after_e dest: less_imp_le)
      ultimately have "follows (holds b) (pull_run D ?s stop acc') (absorb D (?part ?s stop) acc')" by (rule less.hyps)
      moreover have "absorb D (?part ?s stop) acc' = absorb D (?part (sat_add e 1) stop) acc'"
      proof -
        have "?part ?s stop = filter (\<lambda>q. sat_add (cursor acc') 1 \<le> rp_seq q) (?part (sat_add e 1) stop)"
          by (auto simp: filter_map comp_def intro!: arg_cong [where f = "map as_packet"] filter_cong)
        moreover have "rp_seq q \<le> cursor acc'" if "\<not> sat_add (cursor acc') 1 \<le> rp_seq q" for q
          using that by (auto simp: word_le_nat_alt unat_sat_add split: if_splits)
        then have "absorb D (filter (\<lambda>q. sat_add (cursor acc') 1 \<le> rp_seq q) (?part (sat_add e 1) stop)) acc' =
            absorb D (?part (sat_add e 1) stop) acc'"
          by (intro absorb_filter) blast
        ultimately show ?thesis by (simp only:)
      qed
      ultimately show ?thesis by simp
    qed
    have q: "quiet (absorb D (?part x y) acc')" for x y acc' using t by (intro quiet_absorb) auto
    have parts: "?part s stop = ?part s e @ ?part (sat_add e 1) stop"
    proof -
      have "filter (\<lambda>p. s \<le> fst p \<and> fst p \<le> stop) b = filter (\<lambda>p. (s \<le> fst p \<and> fst p \<le> e) \<or> (sat_add e 1 \<le> fst p \<and> fst p \<le> stop)) b"
        using e by (intro filter_cong) (auto simp: after_e)
      also have "\<dots> = filter (\<lambda>p. s \<le> fst p \<and> fst p \<le> e) b @ filter (\<lambda>p. sat_add e 1 \<le> fst p \<and> fst p \<le> stop) b"
        by (rule filter_split [OF ok, of "\<lambda>x. s \<le> x \<and> x \<le> e"]) (auto simp: after_e)
      finally show ?thesis by simp
    qed
    have "follows (holds b) (and_then (pull_batch D s stop acc) (\<lambda>p. pull_run D (fst p) stop (snd p)))
      (and_then (and_then (absorb D (?part s e) acc) (\<lambda>acc'. give (max (sat_add (cursor acc') 1) (sat_add e 1), acc')))
        (\<lambda>p. absorb D (?part (sat_add e 1) stop) (snd p)))"
      using less.prems True
      by (intro follows_and_then [OF batch] quiet_and_then q conjI) (auto simp: and_then_Inr give_def intro: rest q)
    then show ?thesis using True by (subst pull_run_step) (simp add: parts absorb_append and_then_assoc)
  qed
qed

lemma pull_runs_follows:
  assumes ok: "om_ok b" and t: "\<forall>p \<in> set b. timely D (as_packet p)"
  shows "runs_ok rs \<Longrightarrow> \<forall>x. in_runs rs x \<longrightarrow> 0 < x \<and> x < - 1 \<and> x \<in> fst ` set b \<Longrightarrow>
    follows (holds b) (pull_runs D rs acc) (absorb D (map as_packet (filter (\<lambda>p. in_runs rs (fst p)) b)) acc)"
proof (induction rs arbitrary: acc rule: runs_ok.induct)
  case 1
  then show ?case by (simp add: follows_quiet)
next
  case (2 start stop rs)
  let ?part = "\<lambda>P. map as_packet (filter (\<lambda>p. P (fst p)) b)"
  have q: "quiet (absorb D (?part P) acc')" for P acc' using t by (intro quiet_absorb) auto
  from 2 have rest: "follows (holds b) (pull_runs D rs acc') (absorb D (?part (in_runs rs)) acc')" for acc' by auto
  have "filter (\<lambda>p. in_runs ((start, stop) # rs) (fst p)) b =
      filter (\<lambda>p. start \<le> fst p \<and> fst p \<le> stop) b @ filter (\<lambda>p. in_runs rs (fst p)) b"
    unfolding in_runs_simps using "2.prems"(1)
    by (intro filter_split [OF ok, of "\<lambda>x. start \<le> x \<and> x \<le> stop"]) (auto simp: in_runs_ex intro: le_less_trans less_le_trans)
  then have parts: "absorb D (?part (in_runs ((start, stop) # rs))) acc =
      and_then (absorb D (?part (\<lambda>x. start \<le> x \<and> x \<le> stop)) acc) (absorb D (?part (in_runs rs)))"
    by (simp add: absorb_append)
  have stops: "0 < start" "stop < - 1" using "2.prems" by auto
  show ?case
  proof (cases "stop \<le> cursor acc")
    case True
    then have "absorb D (filter (\<lambda>_. False) (?part (\<lambda>x. start \<le> x \<and> x \<le> stop))) acc = absorb D (?part (\<lambda>x. start \<le> x \<and> x \<le> stop)) acc"
      by (intro absorb_filter) (auto intro: order_trans)
    then have "absorb D (?part (\<lambda>x. start \<le> x \<and> x \<le> stop)) acc = give acc" by simp
    with True rest [of acc] show ?thesis unfolding parts by simp
  next
    case False
    let ?s = "max start (sat_add (cursor acc) 1)"
    have above: "sat_add (cursor acc) 1 \<le> x \<longleftrightarrow> cursor acc < x" for x
      using False stops(2) by (auto simp: word_le_nat_alt word_less_nat_alt unat_sat_add unat_minus_one_word_eq)
    have "follows (holds b) (pull_run D ?s stop acc) (absorb D (?part (\<lambda>x. ?s \<le> x \<and> x \<le> stop)) acc)"
    proof (rule pull_run_follows [OF ok t stops(2)])
      show "0 < ?s" using stops(1) by (simp add: less_max_iff_disj)
      show "?s \<le> stop \<longrightarrow> cursor acc < ?s" using above [of ?s] by simp
      show "\<forall>x. ?s \<le> x \<longrightarrow> x \<le> stop \<longrightarrow> x \<in> fst ` set b" using "2.prems"(2) by auto
    qed
    moreover have "absorb D (?part (\<lambda>x. ?s \<le> x \<and> x \<le> stop)) acc = absorb D (?part (\<lambda>x. start \<le> x \<and> x \<le> stop)) acc"
    proof -
      have "?part (\<lambda>x. ?s \<le> x \<and> x \<le> stop) = filter (\<lambda>q. cursor acc < rp_seq q) (?part (\<lambda>x. start \<le> x \<and> x \<le> stop))"
        by (auto simp: filter_map comp_def above intro!: arg_cong [where f = "map as_packet"] filter_cong)
      then show ?thesis by (simp add: absorb_filter not_less)
    qed
    ultimately have "follows (holds b) (pull_run D ?s stop acc) (absorb D (?part (\<lambda>x. start \<le> x \<and> x \<le> stop)) acc)" by simp
    from follows_and_then [OF this q, of "pull_runs D rs" "absorb D (?part (in_runs rs))"] rest q False
    show ?thesis unfolding parts by simp
  qed
qed

lemma receive_follows:
  assumes ok: "om_ok b" and t: "\<forall>p \<in> set b. timely D (as_packet p) \<and> fst p < - 1"
  shows "follows (holds b) (receive D) (receive_spec D b) \<and> quiet (receive_spec D b)"
proof -
  let ?ks = "keys_above 0 b" let ?rs = "contiguous_runs ?ks"
  have sorted: "sorted_wrt (<) ?ks" by (rule keys_sorted [OF ok])
  have sort: "sort_key fst ?rs = ?rs"
    by (rule sort_key_id_if_sorted) (rule runs_ok_sorted [OF contiguous_runs_ok [OF sorted]])
  have keys: "in_runs ?rs x \<longleftrightarrow> 0 < x \<and> x \<in> fst ` set b" for x
    unfolding in_contiguous_runs [OF sorted] set_map set_filter by blast
  have all: "filter (\<lambda>p. in_runs ?rs (fst p)) b = filter (\<lambda>p. 0 < fst p) b"
    by (rule filter_cong [OF refl]) (simp add: keys)
  have timely: "\<forall>p \<in> set b. timely D (as_packet p)" and live: "\<forall>x. in_runs ?rs x \<longrightarrow> 0 < x \<and> x < - 1 \<and> x \<in> fst ` set b"
    using t unfolding keys by blast+
  note pull = pull_runs_follows [OF ok timely contiguous_runs_ok [OF sorted] live, unfolded all]
  have q: "quiet (absorb D (map as_packet (filter (\<lambda>p. 0 < fst p) b)) acc)" for acc using timely by (intro quiet_absorb) auto
  have quiet: "quiet (receive_spec D b)"
    unfolding receive_spec_def by (auto intro!: quiet_and_then q)
  have fetched: "follows (holds b) (fetch_runs D 0 [] 0) (give (?rs, top_key b))"
    using fetch_runs_follows [OF ok, of 0 "[]" 0] by simp
  have "follows (holds b) (receive D) (receive_spec D b)"
    unfolding receive_def
  proof (rule follows_give [OF fetched _ quiet])
    let ?finish = "\<lambda>acc. and_then (if cursor acc < top_key b then set_cursor D (top_key b) acc else give acc) (\<lambda>acc.
      and_then (update_store (drop_gone D ?ks)) (\<lambda>_. give (received acc, decrypt_errors acc)))"
    have f: "quiet (?finish acc)" for acc by (auto intro!: quiet_and_then)
    have "follows (holds b) (and_then (pull_runs D ?rs \<lparr>cursor = c, received = [], decrypt_errors = 0\<rparr>) ?finish)
        (and_then (absorb D (map as_packet (filter (\<lambda>p. 0 < fst p) b)) \<lparr>cursor = c, received = [], decrypt_errors = 0\<rparr>) ?finish)"
      for c by (rule follows_and_then [OF pull q]) (rule conjI [OF follows_quiet [OF f] f])
    moreover have "quiet (and_then (absorb D (map as_packet (filter (\<lambda>p. 0 < fst p) b)) acc) ?finish)" for acc
      by (rule quiet_and_then [OF q f])
    ultimately show "follows (holds b) (case (?rs, top_key b) of (live, last_seq_total) \<Rightarrow>
        let all_runs = sort_key fst live
        in and_then (ask (get_last_pulled_seq (dg_key D))) (\<lambda>c.
           and_then (pull_runs D all_runs \<lparr>cursor = c, received = [], decrypt_errors = 0\<rparr>) (\<lambda>acc.
           and_then (if cursor acc < last_seq_total then set_cursor D last_seq_total acc else give acc) (\<lambda>acc.
           and_then (update_store (sweep D all_runs)) (\<lambda>_. give (received acc, decrypt_errors acc))))))
      (receive_spec D b)"
      unfolding receive_spec_def prod.case Let_def sort sweep_drop_gone [OF sorted]
      by (intro follows_and_then [OF follows_quiet]) simp_all
  qed
  with quiet show ?thesis by blast
qed

end

end
