(* ===== verification/Dialogue_Server.thy ===== *)
theory Dialogue_Server
  imports Dialogue_Mailbox Delivery
begin

text \<open>
  The dialogue on the server: its requests are answered by the handlers of the packet endpoints on
  the packet store (\<open>server_wire\<close>; the covers and the HTTP client in between change nothing, see
  Delivery). The handlers fulfil the contract \<open>mailbox\<close>.
\<close>

section \<open>The handlers as a wire\<close>

definition server_wire :: "'db server_env \<Rightarrow> server_config \<Rightarrow> u64 \<Rightarrow> 'db wire \<Rightarrow> 'db wire" where
  "server_wire E cfg now W = W\<lparr>
     w_push := (\<lambda>q db. case do_push E cfg now db (push_request_of (crypto E) q) of (a, db', woken) \<Rightarrow> (push_outcome a, db')),
     w_pull := (\<lambda>g db. case do_pull E cfg now db (range_request_of (crypto E) g) of (a, db') \<Rightarrow> (pull_outcome (crypto E) a, db')),
     w_map := (\<lambda>g db. (map_outcome (do_map E cfg db (range_request_of (crypto E) g)), db)),
     w_notify := (\<lambda>n db. (notify_outcome (fst (do_notify E cfg db db db (notify_request_of (crypto E) n))), db)),
     w_determinate := (\<lambda>g db. case do_determinate E cfg db (range_request_of (crypto E) g) of (a, db') \<Rightarrow>
       (simple_outcome ''Determinate'' a, db'))\<rparr>"

text \<open>The user of the dialogue is registered with the key the client signs with, the partner is registered.\<close>

definition served :: "'db server_env \<Rightarrow> server_config \<Rightarrow> u64 \<Rightarrow> 'db wire \<Rightarrow> ('r, 'db) dialogue \<Rightarrow> bool" where
  "served E cfg now W D \<longleftrightarrow> crypto_ok (crypto E) \<and> dg_crypto D = crypto E \<and> signer_ok (crypto E) (dg_signer D) \<and> length (dg_seed D) = 32 \<and>
     dg_wire D = server_wire E cfg now W \<and> utf8_valid (dg_user D) \<and> utf8_valid (partner D) \<and>
     user_pubkey_bytes (crypto E) cfg (dg_user D) = Some (sk_public (dg_signer D) (dg_seed D)) \<and>
     user_pubkey_bytes (crypto E) cfg (partner D) \<noteq> None"

definition box_of :: "'db server_env \<Rightarrow> ('r, 's) dialogue \<Rightarrow> 'db \<Rightarrow> (u64 \<times> bytes) list" where
  "box_of E D db = log_of (kv E) db (make_dialogue_id (crypto E) (dg_user D) (partner D))"

definition readable :: "'db server_env \<Rightarrow> ('r, 's) dialogue \<Rightarrow> 'db \<Rightarrow> bool" where
  "readable E D db \<longleftrightarrow> db_inv (kv E) db \<and>
     (\<forall>u. \<exists>st. receipt_of (kv E) db u (make_dialogue_id (crypto E) (dg_user D) (partner D)) = Inr st)"

section \<open>The handlers keep the contract\<close>

lemma runs_of_contiguous: "runs_of ks = contiguous_runs ks"
proof -
  have "runs_from b l ss = runs_loop b l ss" for b l ss by (induction b l ss rule: runs_loop.induct) auto
  then show ?thesis by (cases ks) simp_all
qed

lemma top_seq_key: "top_seq b = top_key b"
  by (simp add: top_seq_def top_key_def)

lemma range_request_simps [simp]:
  "rq_sender (range_request_of C (signed_range D a t)) = dg_user D" "rq_recver (range_request_of C (signed_range D a t)) = partner D"
  "rq_from (range_request_of C (signed_range D a t)) = a" "rq_to (range_request_of C (signed_range D a t)) = t"
  by (simp_all add: range_request_of_def signed_range_def)

lemma served_authorised:
  assumes "served E cfg now W D"
  shows "authorised_range (crypto E) cfg (range_request_of (crypto E) (signed_range D a t))"
proof -
  let ?r = "range_request_of (crypto E) (signed_range D a t)"
  let ?sig = "sign D (dg_user D @ partner D @ show_u64 a @ show_u64 t)"
  from assms obtain r where keys: "pair_keys (crypto E) cfg ?r = Some (sk_public (dg_signer D) (dg_seed D), r)"
    by (auto simp: served_def pair_keys_def)
  have "decode_b64 (crypto E) (rq_sig ?r) = Inr ?sig"
    using assms by (simp add: served_def range_request_of_def signed_range_def decode_encode)
  moreover have "verify_signature (crypto E) (sk_public (dg_signer D) (dg_seed D)) (as_bytes (range_msg ?r)) ?sig = Inr ()"
    using assms by (simp add: served_def signer_ok_def range_msg_def sign_def show_u64_def)
  ultimately show ?thesis using keys by (auto simp: authorised_range_def signed_by_either_def)
qed

lemma receipts_kept:
  assumes inv: "db_inv K db" and u: "utf8_valid u" and d: "did_ok d" and all: "\<forall>u. \<exists>st. receipt_of K db u d = Inr st"
    and run: "update_last_seq K now db u d s = Inr db'"
  shows "\<forall>u. \<exists>st. receipt_of K db' u d = Inr st"
proof
  fix u'
  obtain st where "receipt_of K db u d = Inr st" using all by blast
  from update_last_seq_spec [OF inv u did_utf8 [OF d] this, of now s] run
  have own: "\<exists>st. receipt_of K db' u d = Inr st" and other: "make_receipt_key u' d \<noteq> make_receipt_key u d \<longrightarrow>
      receipt_of K db' u' d = receipt_of K db u' d" by auto
  show "\<exists>st. receipt_of K db' u' d = Inr st"
  proof (cases "make_receipt_key u' d = make_receipt_key u d")
    case True
    then have "receipt_of K db' u' d = receipt_of K db' u d" by (simp add: receipt_of_def)
    with own show ?thesis by simp
  qed (use other all in simp)
qed

lemma raw_packets:
  assumes "crypto_ok C"
  shows "traverse (raw_packet_of C) (map (\<lambda>(s, v). (s, encode_b64 C v)) ps) = Inr (map as_packet ps)"
proof -
  have "raw_packet_of C (case p of (s, v) \<Rightarrow> (s, encode_b64 C v)) = Inr (as_packet p)" for p
    using decode_encode [OF assms] by (cases p) (simp add: raw_packet_of_def as_packet_def)
  then show ?thesis by (intro traverse_map_Inr) simp
qed

lemma served_pull:
  assumes s: "served E cfg now W D" and r: "readable E D db" and range: "a < t"
  shows "\<exists>db'. readable E D db' \<and> box_of E D db' = box_of E D db \<and>
    w_pull (dg_wire D) (signed_range D a t) db =
      (Inr (map as_packet (filter (\<lambda>p. a < fst p \<and> fst p \<le> t) (box_of E D db))), db')"
proof -
  let ?req = "range_request_of (crypto E) (signed_range D a t)"
  let ?did = "make_dialogue_id (crypto E) (dg_user D) (partner D)"
  let ?ps = "filter (\<lambda>p. a < fst p \<and> fst p \<le> t) (log_of (kv E) db ?did)"
  have ok: "crypto_ok (crypto E)" and inv: "db_inv (kv E) db" using s r by (simp_all add: served_def readable_def)
  note auth = served_authorised [OF s, of a t]
  note did = dialogue_id_ok [OF ok, of "dg_user D" "partner D"]
  obtain who where who: "who \<in> {dg_user D, partner D}" and run: "do_pull E cfg now db ?req =
      (case fetch_packets E now db who ?did a t of
         Inl e \<Rightarrow> (pull_fail e, db) | Inr (ps, db') \<Rightarrow> (\<lparr>pl_success = True, packets = ps, pl_message = []\<rparr>, db'))"
    using do_pull_authorised [OF auth, of now db] range by auto
  have u: "utf8_valid who" using who s by (auto simp: served_def)
  obtain st where st: "receipt_of (kv E) db who ?did = Inr st" using r by (auto simp: readable_def)
  from fetch_packets_spec [OF inv did u st range, of now] obtain db' where
    fetch: "fetch_packets E now db who ?did a t = Inr (map (\<lambda>(s, v). (s, encode_b64 (crypto E) v)) ?ps, db')"
    and db': "db_inv (kv E) db'" "log_of (kv E) db' ?did = log_of (kv E) db ?did" using did by auto
  have pull: "pull (kv E) db ?did a t = Inr ?ps"
    using pull_spec [OF inv did, of a t] range by (auto simp: not_le)
  have "\<forall>u. \<exists>st. receipt_of (kv E) db' u ?did = Inr st"
  proof (cases "?ps = []")
    case True
    with fetch pull r show ?thesis by (simp add: fetch_packets_def readable_def)
  next
    case False
    with fetch pull have "update_last_seq (kv E) now db who ?did (Max (fst ` set ?ps)) = Inr db'"
      by (auto simp: fetch_packets_def try_then_Inr_iff)
    with receipts_kept [OF inv u did] r show ?thesis by (auto simp: readable_def)
  qed
  with db' have "readable E D db'" "box_of E D db' = box_of E D db" by (simp_all add: readable_def box_of_def)
  moreover have "pull_outcome (crypto E) \<lparr>pl_success = True, packets = map (\<lambda>(s, v). (s, encode_b64 (crypto E) v)) ?ps, pl_message = []\<rparr> =
      Inr (map as_packet ?ps)"
    by (simp add: pull_outcome_def raw_packets [OF ok])
  ultimately show ?thesis
    using s run fetch by (auto simp: served_def server_wire_def box_of_def)
qed

lemma served_map:
  assumes s: "served E cfg now W D" and r: "readable E D db"
  shows "w_map (dg_wire D) (signed_range D a 0) db =
    (Inr \<lparr>ma_runs = take MAP_MAX_RUNS (contiguous_runs (keys_above a (box_of E D db))), ma_last_seq = top_key (box_of E D db),
          ma_truncated = (MAP_MAX_RUNS < length (contiguous_runs (keys_above a (box_of E D db))))\<rparr>, db)"
proof -
  let ?req = "range_request_of (crypto E) (signed_range D a 0)"
  let ?did = "make_dialogue_id (crypto E) (dg_user D) (partner D)"
  have ok: "crypto_ok (crypto E)" and inv: "db_inv (kv E) db" using s r by (simp_all add: served_def readable_def)
  from served_authorised [OF s, of a 0] obtain sig sr where "decode_b64 (crypto E) (rq_sig ?req) = Inr sig"
    "pair_keys (crypto E) cfg ?req = Some sr" "signed_by_either (crypto E) sr ?req sig"
    by (auto simp: authorised_range_def)
  then have "map_outcome (do_map E cfg db ?req) = Inr \<lparr>ma_runs = take MAP_MAX_RUNS (contiguous_runs (keys_above a (box_of E D db))),
      ma_last_seq = top_key (box_of E D db),
      ma_truncated = (MAP_MAX_RUNS < length (contiguous_runs (keys_above a (box_of E D db))))\<rparr>"
    using map_spec [OF inv dialogue_id_ok [OF ok], of "dg_user D" "partner D" a 0 MAP_MAX_RUNS]
    by (simp add: do_map_def map_outcome_def box_of_def runs_of_contiguous top_seq_key Let_def)
  then show ?thesis using s by (simp add: served_def server_wire_def)
qed

lemma served_push:
  assumes s: "served E cfg now W D" and r: "readable E D db"
  shows "\<exists>db'. readable E D db' \<and> (if map_of (box_of E D db) s = None
      then w_push (dg_wire D) (sealed_push D s ct) db = (Inr (), db') \<and> box_of E D db' = om_insert s ct (box_of E D db)
      else w_push (dg_wire D) (sealed_push D s ct) db = (Inl ''duplicate_seq'', db') \<and> box_of E D db' = box_of E D db)"
proof -
  let ?C = "crypto E" and ?q = "sealed_push D s ct"
  let ?req = "push_request_of ?C ?q" and ?did = "make_dialogue_id (crypto E) (dg_user D) (partner D)"
  have ok: "crypto_ok ?C" and inv: "db_inv (kv E) db" using s r by (simp_all add: served_def readable_def)
  have fields: "psh_sender ?req = dg_user D" "psh_recver ?req = partner D" "psh_seq ?req = s"
    by (simp_all add: push_request_of_def sealed_push_def)
  have auth: "authorised_push ?C cfg ?req ct"
  proof -
    have "users cfg (partner D) \<noteq> None" using s by (auto simp: served_def user_pubkey_bytes_def split: option.splits)
    moreover have "verify_signature ?C (sk_public (dg_signer D) (dg_seed D)) (as_bytes (push_msg ?req)) (cp_push_sig ?q) = Inr ()"
      using s by (simp add: served_def signer_ok_def push_msg_def sign_def show_u64_def push_request_of_def sealed_push_def)
    ultimately show ?thesis
      using s decode_encode [OF ok] by (auto simp: authorised_push_def served_def push_request_of_def sealed_push_def)
  qed
  have w: "w_push (dg_wire D) ?q db = (case do_push E cfg now db ?req of (a, db', woken) \<Rightarrow> (push_outcome a, db'))"
    using s by (simp add: served_def server_wire_def)
  have u: "utf8_valid (psh_sender ?req)" using s by (simp add: fields served_def)
  from ok inv u show ?thesis
  proof (cases rule: push_cases [where cfg = cfg and now = now])
    case (stored payload db')
    with auth have payload: "payload = ct" by (auto simp: authorised_push_def)
    note did = dialogue_id_ok [OF ok, of "dg_user D" "partner D"]
    have "store_packet (kv E) now db (dg_user D) ?did s ct = Inr db'"
      using stored(3) do_push_authorised [OF auth, of now db] by (auto simp: fields split: sum.splits)
    with store_packet_spec [OF inv did, of "dg_user D" s now ct] stored(2) u
    have receipts: "\<forall>u st. receipt_of (kv E) db u ?did = Inr st \<longrightarrow> (\<exists>st'. receipt_of (kv E) db' u ?did = Inr st')"
      using did by (auto simp: fields split: if_splits)
    then have "readable E D db'" using stored(4) r by (fastforce simp: readable_def)
    with stored w payload show ?thesis by (auto simp: box_of_def fields push_outcome_def)
  next
    case (taken payload)
    then have "push_outcome (fst (do_push E cfg now db ?req)) = Inl ''duplicate_seq''"
      by (simp only: push_outcome_def api_simps duplicate_code if_False fst_conv)
    with taken w r show ?thesis by (auto simp: box_of_def fields)
  next
    case (refused msg)
    with auth show ?thesis by blast
  qed
qed

locale served_dialogue =
  fixes E :: "'db server_env" and cfg :: server_config and now :: u64 and W :: "'db wire" and D :: "('r, 'db) dialogue"
  assumes served: "served E cfg now W D"

sublocale served_dialogue < mbox: mailbox D "readable E D" "box_of E D" MAP_MAX_RUNS
proof
  show "0 < MAP_MAX_RUNS" by (simp add: MAP_MAX_RUNS_def)
  show "om_ok (box_of E D n)" if "readable E D n" for n
    using that served dialogue_id_ok by (auto simp: box_of_def readable_def served_def intro: log_of_ok)
  show "\<exists>n' answer. readable E D n' \<and> box_of E D n' = box_of E D n \<and> w_notify (dg_wire D) q n = (answer, n')"
    if "readable E D n" for n q
    using that served by (auto simp: served_def server_wire_def)
qed (use served_pull [OF served] served_map [OF served] served_push [OF served] in auto)

context served_dialogue
begin

lemma received:
  assumes r: "readable E D (s_net st)" and t: "\<forall>p \<in> set (box_of E D (s_net st)). timely D (as_packet p) \<and> fst p < - 1"
  shows "\<exists>db res L. receive D st = Some (res, st\<lparr>s_net := db, s_store := L\<rparr>) \<and>
    receive_spec D (box_of E D (s_net st)) st = Some (res, st\<lparr>s_store := L\<rparr>) \<and>
    readable E D db \<and> box_of E D db = box_of E D (s_net st)"
proof -
  let ?b = "box_of E D (s_net st)"
  note f = mbox.receive_follows [OF mbox.box_sorted [OF r] t]
  from conjunct2 [OF f] obtain res L where spec: "receive_spec D ?b st = Some (res, st\<lparr>s_store := L\<rparr>)" by (rule quietD)
  from conjunct1 [OF f] r obtain db where "readable E D db \<and> box_of E D db = ?b"
    "receive D st = map_option (\<lambda>(r, st'). (r, st'\<lparr>s_net := db\<rparr>)) (receive_spec D ?b st)"
    unfolding follows_def by blast
  with spec show ?thesis by auto
qed

end

text \<open>
  C2. \<open>receive\<close> on the server returns and does what one pass over the packets of the dialogue does, in
  the order of their numbers and from the last pulled one on: the pages of the map, the runs, the
  batches of 16 and the skipping inside a batch make no difference. It leaves the packets on the server.
  The packets have a time that \<open>chrono\<close> can represent, and none has the greatest 64-bit number.
\<close>

theorem receive_one_pass:
  assumes "served E cfg now W D" and "readable E D (s_net st)"
    and "\<forall>p \<in> set (box_of E D (s_net st)). timely D (as_packet p) \<and> fst p < - 1"
  shows "\<exists>db res L. receive D st = Some (res, st\<lparr>s_net := db, s_store := L\<rparr>) \<and>
    receive_spec D (box_of E D (s_net st)) st = Some (res, st\<lparr>s_store := L\<rparr>) \<and>
    readable E D db \<and> box_of E D db = box_of E D (s_net st)"
  by (rule served_dialogue.received [OF served_dialogue.intro [OF assms(1)] assms(2,3)])

section \<open>The greatest number\<close>

text \<open>A run that ends at the greatest 64-bit number is never left: the successor saturates.\<close>

lemma pull_run_greatest: "pull_run D s (- 1) acc st = Some y \<Longrightarrow> \<exists>e. fst y = Inl e"
proof -
  assume run: "pull_run D s (- 1) acc st = Some y"
  have "- 1 = (- 1 :: u64) \<longrightarrow> (\<exists>e. fst y = Inl e)"
  proof (rule pull_run.raw_induct [where P = "\<lambda>D s stop acc st y. stop = - 1 \<longrightarrow> (\<exists>e. fst y = Inl e)", OF _ run])
    fix rec D s stop acc st y
    assume IH: "\<And>D s stop acc st y. rec D s stop acc st = Some y \<Longrightarrow> stop = - 1 \<longrightarrow> (\<exists>e. fst y = Inl e)"
      and body: "(if s \<le> stop then and_then (pull_batch D s stop acc) (\<lambda>p. rec D (fst p) stop (snd p)) st else give acc st) = Some y"
    show "stop = - 1 \<longrightarrow> (\<exists>e. fst y = Inl e)"
    proof
      assume stop: "stop = - 1"
      then have "and_then (pull_batch D s stop acc) (\<lambda>p. rec D (fst p) stop (snd p)) st = Some y" using body by simp
      then show "\<exists>e. fst y = Inl e"
        using IH stop by (auto simp: and_then_def split: sum.splits Option.bind_splits prod.splits)
    qed
  qed
  then show ?thesis by simp
qed

lemma pull_runs_greatest:
  "cursor acc < - 1 \<Longrightarrow> \<forall>r \<in> set rs. snd r = - 1 \<or> snd r \<le> cursor acc \<Longrightarrow> \<exists>r \<in> set rs. snd r = - 1 \<Longrightarrow>
    pull_runs D rs acc st \<noteq> Some (Inr x, st')"
proof (induction rs)
  case (Cons r rs)
  obtain start stop where r: "r = (start, stop)" by fastforce
  show ?case
  proof (cases "stop \<le> cursor acc")
    case True
    with Cons.prems(1) have "stop \<noteq> - 1" by auto
    with Cons True show ?thesis by (auto simp: r)
  next
    case False
    with Cons.prems(2) have "stop = - 1" by (auto simp: r)
    with False pull_run_greatest show ?thesis by (fastforce simp: r and_then_Inr)
  qed
qed simp

context served_dialogue
begin

lemma blocked:
  assumes r: "readable E D (s_net st)" and c: "c = get_last_pulled_seq (dg_key D) (s_store st)" "c < - 1"
    and top: "- 1 \<in> fst ` set (box_of E D (s_net st))" and rest: "\<forall>p \<in> set (box_of E D (s_net st)). fst p \<le> c \<or> fst p = - 1"
  shows "receive D st \<noteq> Some (Inr x, st')"
proof
  assume run: "receive D st = Some (Inr x, st')"
  let ?b = "box_of E D (s_net st)" let ?rs = "contiguous_runs (keys_above 0 ?b)"
  have ok: "om_ok ?b" using mbox.box_sorted [OF r] .
  from mbox.fetch_runs_follows [OF ok, of 0 "[]" 0] r obtain n where
    fetch: "fetch_runs D 0 [] 0 st = Some (Inr (?rs, top_key ?b), st\<lparr>s_net := n\<rparr>)"
    unfolding follows_def by (auto simp: give_def)
  note sorted = mbox.keys_sorted [OF ok, of "\<lambda>p. 0 < fst p"]
  have sort: "sort_key fst ?rs = ?rs"
    by (rule sort_key_id_if_sorted) (rule runs_ok_sorted [OF contiguous_runs_ok [OF sorted]])
  have key: "snd q \<in> fst ` set ?b" if "q \<in> set ?rs" for q
  proof -
    have "fst q \<le> snd q" using runs_ok_nth [OF contiguous_runs_ok [OF sorted]] that by (auto simp: in_set_conv_nth)
    with that have "in_runs ?rs (snd q)" by (auto simp: in_runs_ex)
    then show ?thesis by (auto simp: in_contiguous_runs [OF sorted])
  qed
  then have ends: "\<forall>q \<in> set ?rs. snd q = - 1 \<or> snd q \<le> c" using rest by fastforce
  have "(0 :: u64) < - 1" by (simp add: word_less_nat_alt unat_minus_one_word_eq)
  then have "in_runs ?rs (- 1)" using top in_contiguous_runs [OF sorted, of "- 1"] by auto
  then obtain q where "q \<in> set ?rs" "- 1 \<le> snd q" by (auto simp: in_runs_ex)
  moreover from this have "snd q = - 1" by (simp add: antisym)
  ultimately have "\<exists>q \<in> set ?rs. snd q = - 1" by blast
  with pull_runs_greatest [of "\<lparr>cursor = c, received = [], decrypt_errors = 0\<rparr>" ?rs D] ends c(2)
  have "pull_runs D ?rs \<lparr>cursor = c, received = [], decrypt_errors = 0\<rparr> st1 \<noteq> Some (Inr y, st2)" for st1 y st2 by auto
  with run fetch show False
    by (auto simp: receive_def and_then_def ask_def c(1) [symmetric] sort Let_def split: sum.splits Option.bind_splits prod.splits)
qed

end

text \<open>
  C3. A packet with the greatest 64-bit number, which every registered partner can push, makes
  \<open>receive\<close> useless: when it is the only packet that has not been pulled, \<open>receive\<close> never returns messages
  again (on this server it does not return at all, since its requests do not fail).
\<close>

theorem greatest_number_blocks_receive:
  assumes "served E cfg now W D" and "readable E D (s_net st)" and "get_last_pulled_seq (dg_key D) (s_store st) < - 1"
    and "- 1 \<in> fst ` set (box_of E D (s_net st))"
    and "\<forall>p \<in> set (box_of E D (s_net st)). fst p \<le> get_last_pulled_seq (dg_key D) (s_store st) \<or> fst p = - 1"
  shows "receive D st \<noteq> Some (Inr x, st')"
  by (rule served_dialogue.blocked [OF served_dialogue.intro [OF assms(1)] assms(2) refl assms(3-5)])

end
