(* ===== verification/Dialogue_Sending.thy ===== *)
theory Dialogue_Sending
  imports Dialogue_Server
begin

text \<open>
  Sending through a mailbox: what a successful \<open>send\<close> has put there (\<open>send_posts\<close>), and what one pass of
  the partner makes of a single new packet (\<open>receive_spec_single\<close>).
\<close>

section \<open>What has been posted\<close>

definition packet_for :: "('r, 's) dialogue \<Rightarrow> string \<Rightarrow> int \<Rightarrow> message_content \<Rightarrow> string option \<Rightarrow> packet_inner" where
  "packet_for D i now content name = \<lparr>pi_id = i, pi_timestamp = dg_to_millis D now, pi_sender = dg_user D, pi_content = content,
     pi_topic_name = name\<rparr>"

text \<open>The ciphertext of a packet under the key of its number, for some state of the generator.\<close>

definition sealed_as :: "('r, 's) dialogue \<Rightarrow> u64 \<Rightarrow> packet_inner \<Rightarrow> bytes \<Rightarrow> bool" where
  "sealed_as D s inner ct \<longleftrightarrow> (\<exists>key r. key_for_seq (dg_config D) s = Inr key \<and>
     fst (encrypt (dg_aead D) (dg_rng D) key (serialize_inner (dg_json D) (dg_crypto D) inner) r) = Inr ct)"

lemma push_packet_unfold:
  "push_packet D s i now content name =
    (case key_for_seq (dg_config D) s of
       Inl e \<Rightarrow> bail e
     | Inr key \<Rightarrow> (\<lambda>st. case encrypt (dg_aead D) (dg_rng D) key (serialize_inner (dg_json D) (dg_crypto D) (packet_for D i now content name)) (s_rand st) of
         (Inl e, r) \<Rightarrow> Some (Inl e, st\<lparr>s_rand := r\<rparr>)
       | (Inr ct, r) \<Rightarrow> on_net (w_push (dg_wire D) (sealed_push D s ct)) (st\<lparr>s_rand := r\<rparr>)))"
  by (auto simp: push_packet_def Let_def and_then_def of_res_def on_rand_def bail_def packet_for_def sealed_push_def fun_eq_iff
      split: sum.split prod.split)

lemma push_packet_run:
  assumes "push_packet D s i now content name st = Some (res, st')"
  shows "(\<exists>ct. sealed_as D s (packet_for D i now content name) ct \<and> w_push (dg_wire D) (sealed_push D s ct) (s_net st) = (res, s_net st')) \<or>
    (\<exists>e. res = Inl e) \<and> s_net st' = s_net st"
proof (cases "key_for_seq (dg_config D) s")
  case (Inl e)
  with assms show ?thesis by (auto simp: push_packet_unfold bail_def)
next
  case (Inr key)
  obtain sealed r where enc: "encrypt (dg_aead D) (dg_rng D) key
      (serialize_inner (dg_json D) (dg_crypto D) (packet_for D i now content name)) (s_rand st) = (sealed, r)" by fastforce
  show ?thesis
  proof (cases sealed)
    case (Inl e)
    with assms Inr enc show ?thesis by (auto simp: push_packet_unfold)
  next
    case (Inr ct)
    with \<open>key_for_seq (dg_config D) s = Inr key\<close> enc have "sealed_as D s (packet_for D i now content name) ct"
      unfolding sealed_as_def by (intro exI [of _ key] exI [of _ "s_rand st"]) simp
    moreover from assms Inr enc \<open>key_for_seq (dg_config D) s = Inr key\<close>
    have "w_push (dg_wire D) (sealed_push D s ct) (s_net st) = (res, s_net st')"
      by (auto simp: push_packet_unfold on_net_def Let_def split: prod.splits)
    ultimately show ?thesis by blast
  qed
qed

lemma push_packet_keeps:
  "push_packet D s i now content name st = Some (res, st') \<Longrightarrow> s_store st' = s_store st \<and> s_topic st' = s_topic st"
  by (auto simp: push_packet_unfold on_net_def bail_def Let_def split: sum.splits prod.splits)

context mailbox
begin

abbreviation fine :: "(u64 \<times> bytes) list \<Rightarrow> bool" where
  "fine b \<equiv> \<forall>p \<in> set b. timely D (as_packet p) \<and> fst p < - 1"

abbreviation posted :: "(u64 \<times> bytes) list \<Rightarrow> message_content \<Rightarrow> string option \<Rightarrow> message \<Rightarrow> ('r, 's) dialogue_st \<Rightarrow> bool" where
  "posted b content name msg st' \<equiv> \<exists>s i t ct. i \<in> range (\<lambda>r. fst (dg_uuid D r)) \<and> m_server_seq msg = Some s \<and> m_id msg = i \<and> m_timestamp msg = t \<and> m_content msg = content \<and>
     sealed_as D s (packet_for D i t content name) ct \<and> map_of b s = None \<and> holds (om_insert s ct b) (s_net st')"

lemma receive_holds:
  assumes "holds b (s_net st)" and "fine b" and "receive D st = Some (res, st')"
  shows "holds b (s_net st') \<and> s_topic st' = s_topic st"
proof -
  have "om_ok b" using assms(1) box_sorted by blast
  note f = receive_follows [OF this assms(2)]
  from conjunct2 [OF f] obtain r L where "receive_spec D b st = Some (r, st\<lparr>s_store := L\<rparr>)" by (rule quietD)
  with conjunct1 [OF f] assms(1,3) show ?thesis unfolding follows_def by fastforce
qed

lemma send_attempts_posts:
  "holds b (s_net st) \<Longrightarrow> fine b \<Longrightarrow> send_attempts D k content now name le st = Some (res, st') \<Longrightarrow>
    (case res of Inr msg \<Rightarrow> posted b content name msg st' | Inl e \<Rightarrow> holds b (s_net st'))"
proof (induction k arbitrary: st le)
  case 0
  then show ?case by (auto simp: bail_def)
next
  case (Suc k)
  obtain i r1 where u: "dg_uuid D (s_rand st) = (i, r1)" by fastforce
  obtain s L1 where n: "next_send_seq (dg_key D) (s_store st) = (s, L1)" by fastforce
  let ?st = "st\<lparr>s_rand := r1, s_store := L1\<rparr>"
  from Suc.prems(3) u n obtain pushed st2 where p: "push_packet D s i now content name ?st = Some (pushed, st2)"
    by (cases "push_packet D s i now content name ?st") (auto simp: and_then_def on_rand_def on_store_def attempt_def Let_def)
  have net: "holds b (s_net ?st)" using Suc.prems(1) by simp
  show ?case
  proof (cases pushed)
    case (Inr x)
    from push_packet_run [OF p] Inr obtain ct where ct: "sealed_as D s (packet_for D i now content name) ct"
      "w_push (dg_wire D) (sealed_push D s ct) (s_net ?st) = (Inr (), s_net st2)" by auto
    with push_law [of "s_net ?st" s ct] net have "map_of b s = None" "holds (om_insert s ct b) (s_net st2)"
      by (auto split: if_splits)
    moreover from Suc.prems(3) u n p Inr have "res = Inr (sent_message D i content now s (s_topic st2))" "s_net st' = s_net st2"
      by (auto simp: and_then_def on_rand_def on_store_def attempt_def Let_def active_topic_def update_store_def give_def)
    moreover have "i \<in> range (\<lambda>r. fst (dg_uuid D r))" using u by (metis fst_conv rangeI)
    ultimately show ?thesis using ct(1) by (auto simp: sent_message_def split: prod.split)
  next
    case (Inl e)
    have st2: "holds b (s_net st2)"
    proof (cases "s_net st2 = s_net ?st")
      case False
      with push_packet_run [OF p] Inl obtain ct where "w_push (dg_wire D) (sealed_push D s ct) (s_net ?st) = (Inl e, s_net st2)" by auto
      with push_law [of "s_net ?st" s ct] net show ?thesis by (auto split: if_splits)
    qed (use net in simp)
    show ?thesis
    proof (cases "classify_send_error e = ''duplicate_seq'' \<or> classify_send_error e = ''invalid_seq''")
      case False
      with Suc.prems(3) u n p Inl st2 show ?thesis
        by (auto simp: and_then_def on_rand_def on_store_def attempt_def Let_def bail_def)
    next
      case True
      with Suc.prems(3) u n p Inl obtain rr st3 where r: "receive D st2 = Some (rr, st3)" and
        rest: "(case rr of Inl e' \<Rightarrow> Some (Inl e', st3) | Inr x \<Rightarrow> send_attempts D k content now name (Some e) st3) = Some (res, st')"
        by (cases "receive D st2") (auto simp: and_then_def on_rand_def on_store_def attempt_def Let_def)
      from receive_holds [OF st2 Suc.prems(2) r] Suc.IH [OF _ Suc.prems(2), of st3 "Some e"] rest show ?thesis
        by (auto split: sum.splits)
    qed
  qed
qed

lemma sync_first_holds:
  "holds b (s_net st) \<Longrightarrow> fine b \<Longrightarrow> sync_first D st = Some (res, st') \<Longrightarrow> holds b (s_net st') \<and> s_topic st' = s_topic st"
proof -
  assume h: "holds b (s_net st)" and f: "fine b" and run: "sync_first D st = Some (res, st')"
  obtain a n where q: "Dialogue.notify_count D st = Some (a, st\<lparr>s_net := n\<rparr>)" and n: "holds b n"
    using notify_law h unfolding Dialogue.notify_count_def notify_count_wait_def
    by (simp add: and_then_def ask_def on_net_def) (metis (no_types, lifting) case_prod_conv)
  show ?thesis
  proof (cases "case a of Inr k \<Rightarrow> 0 < k | Inl _ \<Rightarrow> False")
    case False
    with run q n show ?thesis by (auto simp: sync_first_def and_then_def attempt_def give_def)
  next
    case True
    with run q obtain rr st2 where "receive D (st\<lparr>s_net := n\<rparr>) = Some (rr, st2)" "s_net st' = s_net st2" "s_topic st' = s_topic st2"
      by (cases "receive D (st\<lparr>s_net := n\<rparr>)") (auto simp: sync_first_def and_then_def attempt_def give_def split: sum.splits)
    with receive_holds [where b = b and st = "st\<lparr>s_net := n\<rparr>"] n f show ?thesis by simp
  qed
qed

lemma send_posts:
  assumes clock: "\<And>n. snd (dg_now D n) = n" and h: "holds b (s_net st)" and f: "fine b" and run: "send D content st = Some (Inr msg, st')"
  shows "posted b content (s_topic st) msg st'"
proof -
  from run obtain st1 where c: "sync_first D st = Some (Inr (), st1)"
    and rest: "and_then (clock D) (\<lambda>now. and_then active_topic (\<lambda>name. send_attempts D 3 content now name None)) st1 = Some (Inr msg, st')"
    unfolding send_def and_then_Inr [of "sync_first D"] by auto
  from sync_first_holds [OF h f c] have h1: "holds b (s_net st1)" and topic: "s_topic st1 = s_topic st" by auto
  obtain t where t: "dg_now D (s_net st1) = (t, s_net st1)" using clock [of "s_net st1"] by (cases "dg_now D (s_net st1)") auto
  with rest topic have "send_attempts D 3 content t (s_topic st) None st1 = Some (Inr msg, st')"
    by (simp add: and_then_def clock_def on_net_def active_topic_def)
  from send_attempts_posts [OF h1 f this] show ?thesis by simp
qed

end

section \<open>What the partner is given\<close>

definition plain_content :: "message_content \<Rightarrow> bool" where
  "plain_content c \<longleftrightarrow> (case c of Receipt_Msg _ \<Rightarrow> False | Delete_Msg _ \<Rightarrow> False | Header_Msg _ \<Rightarrow> False | Chunk_Msg _ \<Rightarrow> False | _ \<Rightarrow> True)"

definition received_message :: "('r, 's) dialogue \<Rightarrow> packet_inner \<Rightarrow> u64 \<Rightarrow> int \<Rightarrow> message" where
  "received_message D inner s t =
     (let (topic_id, topic_name) = topic_fields_from_name D (pi_topic_name inner)
      in \<lparr>m_id = pi_id inner, m_dialogue = dg_key D, m_sender = pi_sender inner,
          m_content = strip_remote_local_attachment_state (pi_content inner), m_timestamp = t, m_status = Delivered,
          m_server_seq = Some s, m_topic_id = topic_id, m_topic_name = topic_name\<rparr>)"

lemma received_message_seq [simp]: "m_server_seq (received_message D inner s t) = Some s"
  by (simp add: received_message_def split: prod.split)

lemma filter_key: "om_ok b \<Longrightarrow> (s, v) \<in> set b \<Longrightarrow> filter (\<lambda>p. fst p = s) b = [(s, v)]"
proof (induction b)
  case (Cons p b)
  then have "filter (\<lambda>q. fst q = s) b = []" if "fst p = s" using that by (auto simp: om_ok_Cons filter_empty_conv)
  with Cons show ?case by (auto simp: om_ok_Cons)
qed simp

lemma take_plain_packet:
  assumes d: "decrypt_packet D s ct = Inr inner" and plain: "plain_content (pi_content inner)" and other: "pi_sender inner \<noteq> dg_user D"
    and new: "get_message_by_seq (dg_key D) s (s_store st) = None" and t: "dg_from_millis D (pi_timestamp inner) = Some t"
  shows "take_packet D (as_packet (s, ct)) acc st =
    Some (Inr (acc\<lparr>cursor := s, received := received acc @ [received_message D inner s t]\<rparr>),
      st\<lparr>s_store := set_last_pulled_seq (dg_key D) s (save_message (received_message D inner s t) (s_store st))\<rparr>)"
proof -
  have run: "incoming_other D inner s st = Some (Inr (Some (received_message D inner s t)),
      st\<lparr>s_store := save_message (received_message D inner s t) (s_store st)\<rparr>)"
    by (simp add: incoming_other_def millis_or_now_def t Let_def and_then_def update_store_def give_def received_message_def split: prod.split)
  have "process_incoming D inner s st = incoming_other D inner s st"
    using plain new by (auto simp: process_incoming_def and_then_def ask_def plain_content_def split: message_content.splits)
  with run have "take_inner D s inner s acc st = Some (Inr (acc\<lparr>cursor := s, received := received acc @ [received_message D inner s t]\<rparr>),
      st\<lparr>s_store := set_last_pulled_seq (dg_key D) s (save_message (received_message D inner s t) (s_store st))\<rparr>)"
    using other by (simp add: take_inner_def and_then_def give_def set_cursor_def update_store_def add_received_def)
  moreover have "advance_to s inner = Inr s" using plain by (auto simp: advance_to_def plain_content_def split: message_content.splits)
  ultimately show ?thesis using d by (simp add: take_packet_def)
qed

text \<open>
  An incoming message takes the place of every local message with its identifier, which its sender
  chose, in whatever dialogue it was.
\<close>

lemma incoming_replaces:
  assumes t: "dg_from_millis D (pi_timestamp inner) = Some t" and old: "m \<in> set (msgs (s_store st))" "m_id m = pi_id inner"
    and dialogue: "m_dialogue m \<noteq> dg_key D"
  shows "\<exists>msg L. incoming_other D inner s st = Some (Inr (Some msg), st\<lparr>s_store := L\<rparr>) \<and>
    msg \<in> set (msgs L) \<and> m_sender msg = pi_sender inner \<and> m \<notin> set (msgs L)"
proof -
  let ?m = "received_message D inner s t"
  have m: "m_id ?m = pi_id inner" "m_dialogue ?m = dg_key D" "m_sender ?m = pi_sender inner"
    by (simp_all add: received_message_def split: prod.split)
  have "incoming_other D inner s st = Some (Inr (Some ?m), st\<lparr>s_store := save_message ?m (s_store st)\<rparr>)"
    by (simp add: incoming_other_def millis_or_now_def t Let_def and_then_def update_store_def give_def received_message_def split: prod.split)
  moreover have "?m \<in> set (msgs (save_message ?m (s_store st)))" by (simp add: save_message_def)
  moreover have "m \<notin> set (msgs (save_message ?m (s_store st)))"
    using old(2) m dialogue by (auto simp: save_message_def)
  ultimately show ?thesis using m by blast
qed

lemma receive_spec_single:
  assumes ok: "om_ok b" and mem: "(s, ct) \<in> set b" and c: "c = get_last_pulled_seq (dg_key D) (s_store st)" "c < s"
    and only: "\<forall>p \<in> set b. c < fst p \<longrightarrow> fst p = s"
    and d: "decrypt_packet D s ct = Inr inner" and plain: "plain_content (pi_content inner)" and other: "pi_sender inner \<noteq> dg_user D"
    and new: "get_message_by_seq (dg_key D) s (s_store st) = None" and t: "dg_from_millis D (pi_timestamp inner) = Some t"
  shows "\<exists>L. receive_spec D b st = Some (Inr ([received_message D inner s t], 0), st\<lparr>s_store := L\<rparr>) \<and>
    received_message D inner s t \<in> set (msgs L)"
proof -
  let ?m = "received_message D inner s t" and ?acc = "\<lparr>cursor = c, received = [], decrypt_errors = 0\<rparr>"
  let ?L = "set_last_pulled_seq (dg_key D) s (save_message ?m (s_store st))"
  have pos: "0 < s" using c(2) by (metis word_gt_0 word_not_simps(1) le_less_trans word_zero_le less_irrefl)
  have "filter (\<lambda>p. c < fst p) (filter (\<lambda>p. 0 < fst p) b) = filter (\<lambda>p. fst p = s) b"
    using only c(2) pos by (auto intro!: filter_cong)
  then have "filter (\<lambda>p. c < rp_seq p) (map as_packet (filter (\<lambda>p. 0 < fst p) b)) = [as_packet (s, ct)]"
    using filter_key [OF ok mem] by (simp add: filter_map comp_def)
  then have "absorb D (map as_packet (filter (\<lambda>p. 0 < fst p) b)) ?acc = absorb D [as_packet (s, ct)] ?acc"
    using absorb_filter [of "map as_packet (filter (\<lambda>p. 0 < fst p) b)" "\<lambda>p. c < rp_seq p" ?acc D] by (simp add: not_less)
  also have "\<dots> = take_packet D (as_packet (s, ct)) ?acc"
  proof -
    have "absorb D [] = give" by (rule ext) simp
    moreover have "\<not> s \<le> c" using c(2) by simp
    ultimately show ?thesis by simp
  qed
  finally have run: "absorb D (map as_packet (filter (\<lambda>p. 0 < fst p) b)) ?acc st =
      Some (Inr (?acc\<lparr>cursor := s, received := [?m]\<rparr>), st\<lparr>s_store := ?L\<rparr>)"
    using take_plain_packet [OF d plain other new t, of ?acc] by simp
  have "b \<noteq> []" using mem by auto
  then have "last b \<in> set b" by simp
  then have top: "\<not> s < top_key b" using only c(2) by (auto simp: top_key_def dest: less_imp_le bspec)
  have "s \<in> set (keys_above 0 b)" using mem pos by force
  then have "?m \<in> set (msgs (drop_gone D (keys_above 0 b) ?L))"
    by (auto simp: drop_gone_def delete_messages_by_seqs_def set_last_pulled_seq_def save_message_def)
  with run top show ?thesis
    by (intro exI [of _ "drop_gone D (keys_above 0 b) ?L"])
      (simp add: receive_spec_def and_then_def ask_def c(1) [symmetric] update_store_def give_def)
qed

end
