(* ===== verification/Dialogue_Exchange.thy ===== *)
theory Dialogue_Exchange
  imports Dialogue_Sending Gateway_Props
begin

text \<open>
  From one client to the other: what \<open>send\<close> has sent, the \<open>receive\<close> of the partner returns. The examples
  of the theorems about the dialogue are at the end.
\<close>

section \<open>Two clients\<close>

text \<open>The two ends of a dialogue: the same keyring and the same libraries, the users exchanged.\<close>

definition partners :: "('r, 's) dialogue \<Rightarrow> ('r, 's) dialogue \<Rightarrow> bool" where
  "partners D D' \<longleftrightarrow> dg_user D' = partner D \<and> partner D' = dg_user D \<and> dg_user D \<noteq> dg_user D' \<and>
     dg_config D' = dg_config D \<and> dg_aead D' = dg_aead D \<and> dg_json D' = dg_json D \<and> dg_crypto D' = dg_crypto D"

lemma encrypt_Inr:
  assumes "aead_ok A" "rng_ok R" "fst (encrypt A R key plaintext r) = Inr ct"
  shows "decrypt A key ct = Inr plaintext"
proof -
  obtain nonce r' where n: "fill_bytes R 12 r = (nonce, r')" by fastforce
  with assms(2) have len: "length nonce = 12" unfolding rng_ok_def by (metis fst_conv)
  from assms(3) n obtain c where "aead_seal A key nonce [] plaintext = Some c" "ct = nonce @ c"
    by (auto simp: encrypt_def encrypt_aad_def split: option.splits)
  with aead_okD(3) [OF assms(1), of key nonce "[]" c plaintext] len show ?thesis
    by (simp add: decrypt_def decrypt_aad_def)
qed

lemma inner_fits:
  assumes "utf8_valid (pi_id p)" "utf8_valid (pi_sender p)" "json_fits 126 (content_json C (pi_content p))"
    and "\<forall>n. pi_topic_name p = Some n \<longrightarrow> utf8_valid n"
  shows "json_fits 127 (inner_json C p)"
proof -
  have keys: "utf8_valid ''id''" "utf8_valid ''timestamp''" "utf8_valid ''sender''" "utf8_valid ''content''" "utf8_valid ''topic_name''"
    by (simp_all add: utf8_valid_def)
  have "json_fits n (json_of_i64 x)" for n x
    using sint_range_size by (auto simp: json_of_i64_def)
  with assms keys show ?thesis by (cases "pi_topic_name p") (auto simp: inner_json_def)
qed

lemma sealed_opens:
  assumes "sealed_as D s inner ct" and "partners D D'" and env: "aead_ok (dg_aead D)" "rng_ok (dg_rng D)" "json_codec_ok (dg_json D)"
    and "crypto_ok (dg_crypto D)" and "content_ok (pi_content inner)" and "json_fits 127 (inner_json (dg_crypto D) inner)"
  shows "decrypt_packet D' s ct = Inr inner"
proof -
  obtain key r where "key_for_seq (dg_config D) s = Inr key"
    "fst (encrypt (dg_aead D) (dg_rng D) key (serialize_inner (dg_json D) (dg_crypto D) inner) r) = Inr ct"
    using assms(1) by (auto simp: sealed_as_def)
  with encrypt_Inr [OF env(1,2)] assms serialize_roundtrip [OF env(3) assms(6-8)] show ?thesis
    by (simp add: decrypt_packet_def partners_def)
qed

lemma box_of_partner: "partners D D' \<Longrightarrow> box_of E D' db = box_of E D db"
  by (simp add: box_of_def partners_def make_dialogue_id_sym [of _ "partner D"])

lemma readable_partner: "partners D D' \<Longrightarrow> readable E D' db \<longleftrightarrow> readable E D db"
  by (simp add: readable_def partners_def make_dialogue_id_sym [of _ "partner D"])

lemma set_om_insert_pairs: "om_ok b \<Longrightarrow> map_of b s = None \<Longrightarrow> set (om_insert s ct b) = insert (s, ct) (set b)"
  by (induction s ct b rule: om_insert.induct) (auto simp: om_ok_Cons)

context mailbox
begin

text \<open>Nothing is on the server and nothing in the database: the first message can be sent.\<close>

lemma sync_first_empty:
  assumes h: "holds [] (s_net st)" and L: "msgs (s_store st) = []"
  shows "\<exists>n. holds [] n \<and> sync_first D st = Some (Inr (), st\<lparr>s_net := n\<rparr>)"
proof -
  have gone: "drop_gone D [] (s_store st) = s_store st"
    by (simp add: drop_gone_def get_delivered_server_seqs_def L delete_no_seqs)
  have spec: "receive_spec D [] st' = Some (Inr ([], 0), st')" if "s_store st' = s_store st" for st' :: "('r, 's) dialogue_st"
    using gone that by (cases st') (simp add: receive_spec_def and_then_def ask_def give_def top_key_def update_store_def)
  obtain a n where q: "Dialogue.notify_count D st = Some (a, st\<lparr>s_net := n\<rparr>)" and n: "holds [] n"
    using notify_law h unfolding Dialogue.notify_count_def notify_count_wait_def
    by (simp add: and_then_def ask_def on_net_def) (metis (no_types, lifting) case_prod_conv)
  have "follows (holds []) (receive D) (receive_spec D [])" using receive_follows [of "[]"] by simp
  moreover have "holds [] (s_net (st\<lparr>s_net := n\<rparr>))" using n by simp
  ultimately obtain n2 where n2: "holds [] n2"
    "receive D (st\<lparr>s_net := n\<rparr>) = map_option (\<lambda>(r, st'). (r, st'\<lparr>s_net := n2\<rparr>)) (receive_spec D [] (st\<lparr>s_net := n\<rparr>))"
    unfolding follows_def by blast
  then have "receive D (st\<lparr>s_net := n\<rparr>) = Some (Inr ([], 0), st\<lparr>s_net := n2\<rparr>)" by (simp add: spec)
  with q n n2(1) show ?thesis by (auto simp: sync_first_def and_then_def attempt_def give_def)
qed

lemma send_first:
  assumes h: "holds [] (s_net st)" and L: "s_store st = empty_store" and now: "\<And>n. dg_now D n = (t, n)"
    and u: "dg_uuid D (s_rand st) = (i, r)" and key: "key_for_seq (dg_config D) 1 = Inr key"
    and enc: "encrypt (dg_aead D) (dg_rng D) key (serialize_inner (dg_json D) (dg_crypto D) (packet_for D i t content (s_topic st))) r = (Inr ct, r')"
  shows "\<exists>st'. send D content st = Some (Inr (sent_message D i content t 1 (s_topic st)), st')"
proof -
  obtain n where n: "holds [] n" "sync_first D st = Some (Inr (), st\<lparr>s_net := n\<rparr>)" using sync_first_empty [OF h] L by (auto simp: empty_store_def)
  from push_law [of n 1 ct] n(1) obtain n' where push: "w_push (dg_wire D) (sealed_push D 1 ct) n = (Inr (), n')" by auto
  obtain L' where L': "next_send_seq (dg_key D) (s_store st) = (1, L')" by (simp add: next_send_seq_def L empty_store_def)
  define st1 where "st1 = st\<lparr>s_net := n, s_rand := r, s_store := L'\<rparr>"
  have "push_packet D 1 i t content (s_topic st) st1 = Some (Inr (), st1\<lparr>s_rand := r', s_net := n'\<rparr>)"
    by (simp add: push_packet_unfold key enc push on_net_def st1_def)
  then have "\<exists>st'. send_attempts D 3 content t (s_topic st) None (st\<lparr>s_net := n\<rparr>) = Some (Inr (sent_message D i content t 1 (s_topic st)), st')"
    by (simp add: numeral_3_eq_3 and_then_def on_rand_def u on_store_def L' attempt_def active_topic_def update_store_def give_def
        st1_def Let_def)
  with n(2) show ?thesis by (simp add: send_def and_then_def clock_def on_net_def now active_topic_def)
qed

end

context served_dialogue
begin

lemmas first_sent = mbox.send_first

lemma sent_posts:
  assumes "\<And>n. snd (dg_now D n) = n" and "readable E D (s_net st)"
    and "\<forall>p \<in> set (box_of E D (s_net st)). timely D (as_packet p) \<and> fst p < - 1" and "send D content st = Some (Inr msg, st')"
  shows "\<exists>s r ct. m_server_seq msg = Some s \<and> m_id msg = fst (dg_uuid D r) \<and>
    sealed_as D s (packet_for D (m_id msg) (m_timestamp msg) content (s_topic st)) ct \<and> map_of (box_of E D (s_net st)) s = None \<and>
    readable E D (s_net st') \<and> box_of E D (s_net st') = om_insert s ct (box_of E D (s_net st))"
  using mbox.send_posts [OF assms(1) conjI [OF assms(2) refl] assms(3,4)] by auto

end

text \<open>
  C1. Client to client, through the handlers of the server: when \<open>send\<close> has returned the message it
  has sent, then \<open>receive\<close> of the partner, who had pulled everything before, returns exactly this message,
  with its identifier, its sender, its number and its content (less the local paths of an attachment),
  and has it in the local database. Every JSON text that fits the parser, every UUID and every
  random choice is covered; the clock only tells times that the partner can represent.
\<close>

theorem sent_is_received:
  assumes S: "served E cfg now W D" "served E cfg' now' W' D'" and P: "partners D D'"
    and env: "aead_ok (dg_aead D)" "rng_ok (dg_rng D)" "json_codec_ok (dg_json D)" "\<forall>r. utf8_valid (fst (dg_uuid D r))"
      "\<forall>n. snd (dg_now D n) = n" "\<forall>t. dg_from_millis D' (dg_to_millis D t) \<noteq> None"
    and content: "plain_content content" "content_ok content" "json_fits 126 (content_json (crypto E) content)"
      "\<forall>n. s_topic st = Some n \<longrightarrow> utf8_valid n"
    and before: "readable E D (s_net st)" "\<forall>p \<in> set (box_of E D (s_net st)). timely D (as_packet p) \<and> timely D' (as_packet p) \<and> fst p < - 1"
    and sent: "send D content st = Some (Inr msg, st')" "m_server_seq msg = Some s"
    and there: "s_net st2 = s_net st'" "c = get_last_pulled_seq (dg_key D') (s_store st2)"
      "\<forall>p \<in> set (box_of E D (s_net st)). fst p \<le> c" "c < s" "s < - 1" "get_message_by_seq (dg_key D') s (s_store st2) = None"
  shows "\<exists>msg' db L. receive D' st2 = Some (Inr ([msg'], 0), st2\<lparr>s_net := db, s_store := L\<rparr>) \<and> msg' \<in> set (msgs L) \<and>
    m_id msg' = m_id msg \<and> m_sender msg' = dg_user D \<and> m_server_seq msg' = Some s \<and>
    m_content msg' = strip_remote_local_attachment_state content"
proof -
  let ?b = "box_of E D (s_net st)"
  obtain r ct where id: "m_id msg = fst (dg_uuid D r)"
    and seal: "sealed_as D s (packet_for D (m_id msg) (m_timestamp msg) content (s_topic st)) ct" and free: "map_of ?b s = None"
    and box: "readable E D (s_net st')" "box_of E D (s_net st') = om_insert s ct ?b"
    using served_dialogue.sent_posts [OF served_dialogue.intro [OF S(1)] _ before(1) _ sent(1)] env(5) before(2) sent(2) by auto
  let ?inner = "packet_for D (m_id msg) (m_timestamp msg) content (s_topic st)"
  have inner: "pi_id ?inner = m_id msg" "pi_sender ?inner = dg_user D" "pi_content ?inner = content" "pi_topic_name ?inner = s_topic st"
    "pi_timestamp ?inner = dg_to_millis D (m_timestamp msg)"
    by (simp_all add: packet_for_def)
  have C: "dg_crypto D = crypto E" "crypto_ok (crypto E)" "utf8_valid (dg_user D)" using S(1) by (simp_all add: served_def)
  have fits: "json_fits 127 (inner_json (dg_crypto D) ?inner)"
    by (rule inner_fits) (use env(4) content C id in \<open>simp_all add: packet_for_def\<close>)
  have d: "decrypt_packet D' s ct = Inr ?inner"
    by (rule sealed_opens [OF seal P env(1-3)]) (use C content(2) fits in \<open>simp_all add: inner\<close>)
  obtain t where t: "dg_from_millis D' (pi_timestamp ?inner) = Some t" using env(6) by (auto simp: inner)
  have sorted: "om_ok ?b" using before(1) C dialogue_id_ok by (auto simp: box_of_def readable_def intro: log_of_ok)
  note set_b = set_om_insert_pairs [OF sorted free, of ct]
  have box2: "box_of E D' (s_net st2) = om_insert s ct ?b" "readable E D' (s_net st2)"
    using box there(1) box_of_partner [OF P, of E] readable_partner [OF P, of E] by simp_all
  have "timely D' (as_packet (s, ct))" by (simp add: timely_def d t)
  then have fine: "\<forall>p \<in> set (box_of E D' (s_net st2)). timely D' (as_packet p) \<and> fst p < - 1"
    using before(2) there(5) by (auto simp: box2 set_b)
  obtain db res L where run: "receive D' st2 = Some (res, st2\<lparr>s_net := db, s_store := L\<rparr>)"
    "receive_spec D' (om_insert s ct ?b) st2 = Some (res, st2\<lparr>s_store := L\<rparr>)"
    using served_dialogue.received [OF served_dialogue.intro [OF S(2)] box2(2) fine] box2(1) by auto
  have only: "\<forall>p \<in> set (om_insert s ct ?b). c < fst p \<longrightarrow> fst p = s" using there(3) by (auto simp: set_b dest: leD)
  have other: "pi_sender ?inner \<noteq> dg_user D'" using P unfolding inner partners_def by blast
  from receive_spec_single [OF _ _ there(2,4) only d _ other there(6) t] sorted set_b content(1)
  obtain L' where spec: "receive_spec D' (om_insert s ct ?b) st2 = Some (Inr ([received_message D' ?inner s t], 0), st2\<lparr>s_store := L'\<rparr>)"
    "received_message D' ?inner s t \<in> set (msgs L')" by (auto simp: inner)
  have "L = s_store (st2\<lparr>s_store := L\<rparr>)" "L' = s_store (st2\<lparr>s_store := L'\<rparr>)" by simp_all
  with run(2) spec have "L = L'" "res = Inr ([received_message D' ?inner s t], 0)" by auto
  moreover have "m_id (received_message D' ?inner s t) = m_id msg" "m_sender (received_message D' ?inner s t) = dg_user D"
    "m_content (received_message D' ?inner s t) = strip_remote_local_attachment_state content"
    by (simp_all add: received_message_def inner split: prod.split)
  ultimately show ?thesis using run(1) spec(2) by auto
qed

section \<open>A concrete dialogue\<close>

definition silent_wire :: "'s wire" where
  "silent_wire = \<lparr>w_push = (\<lambda>q. Pair (Inl ''offline'')), w_pull = (\<lambda>q. Pair (Inl ''offline'')), w_map = (\<lambda>q. Pair (Inl ''offline'')),
     w_notify = (\<lambda>q. Pair (Inl ''offline'')), w_determinate = (\<lambda>q. Pair (Inl ''offline'')), w_arrived_get = (\<lambda>q. Pair (Inl ''offline'')),
     w_arrived_set = (\<lambda>q. Pair (Inl ''offline'')), w_blob = (\<lambda>q. Pair (Inl ''offline''))\<rparr>"

definition demo_dialogue :: "string \<Rightarrow> string \<Rightarrow> (nat, (string \<times> bytes) list) dialogue" where
  "demo_dialogue name key = \<lparr>dg_config = single_key \<lparr>dk_a = ''alice'', dk_b = ''bob''\<rparr> (replicate 32 7),
     dg_user = name, dg_seed = as_bytes key, dg_crypto = demo_crypto, dg_signer = demo_signer, dg_aead = demo_aead, dg_rng = demo_rng,
     dg_range = (\<lambda>low high r. (low, r)), dg_uuid = (\<lambda>r. (''u1'', Suc r)), dg_json = demo_json, dg_lower = id, dg_now = (\<lambda>n. (5, n)),
     dg_to_millis = of_int, dg_from_millis = (\<lambda>n. Some (uint n)), dg_wire = server_wire demo_env demo_config 5 silent_wire\<rparr>"

definition demo_st :: "(string \<times> bytes) list \<Rightarrow> (nat, (string \<times> bytes) list) dialogue_st" where
  "demo_st db = \<lparr>s_net = db, s_rand = 0, s_store = empty_store, s_topic = None\<rparr>"

lemma demo_served: "served demo_env demo_config 5 silent_wire (demo_dialogue ''alice'' alice_key)"
    "served demo_env demo_config 5 silent_wire (demo_dialogue ''bob'' bob_key)"
proof -
  have key: "sk_public demo_signer = id" by (simp add: demo_signer_def)
  show "served demo_env demo_config 5 silent_wire (demo_dialogue ''alice'' alice_key)"
    "served demo_env demo_config 5 silent_wire (demo_dialogue ''bob'' bob_key)"
    by (simp_all add: served_def demo_dialogue_def partner_def single_key_def key)
      (simp_all add: alice_key_def bob_key_def)
qed

lemma demo_dialogue_simps [simp]:
  "dg_user (demo_dialogue u k) = u" "dg_crypto (demo_dialogue u k) = demo_crypto" "dg_aead (demo_dialogue u k) = demo_aead"
  "dg_rng (demo_dialogue u k) = demo_rng" "dg_json (demo_dialogue u k) = demo_json" "dg_uuid (demo_dialogue u k) r = (''u1'', Suc r)"
  "dg_now (demo_dialogue u k) n = (5, n)" "dg_to_millis (demo_dialogue u k) t = of_int t"
  "dg_from_millis (demo_dialogue u k) m = Some (uint m)" "dg_key (demo_dialogue u k) = \<lparr>dk_a = ''alice'', dk_b = ''bob''\<rparr>"
  "key_for_seq (dg_config (demo_dialogue u k)) 1 = Inr (replicate 32 7)"
  by (simp_all add: demo_dialogue_def single_key_def key_for_seq_def)

lemma demo_partners: "partners (demo_dialogue ''alice'' alice_key) (demo_dialogue ''bob'' bob_key)"
  by (simp add: partners_def partner_def demo_dialogue_def single_key_def)

lemma demo_box: "readable demo_env (demo_dialogue u k) []" "box_of demo_env (demo_dialogue u k) [] = []"
  by (simp_all add: readable_def box_of_def)

interpretation demo_dialogues: served_dialogue demo_env demo_config 5 silent_wire "demo_dialogue ''alice'' alice_key"
  by unfold_locales (rule demo_served)

theorem sent_is_received_witness:
  "\<exists>msg st' msg' db L. send (demo_dialogue ''alice'' alice_key) (Text_Msg ''hi'') (demo_st []) = Some (Inr msg, st') \<and>
     receive (demo_dialogue ''bob'' bob_key) (demo_st (s_net st')) = Some (Inr ([msg'], 0), (demo_st (s_net st'))\<lparr>s_net := db, s_store := L\<rparr>) \<and>
     m_content msg' = Text_Msg ''hi''"
proof -
  let ?D = "demo_dialogue ''alice'' alice_key" and ?D' = "demo_dialogue ''bob'' bob_key"
  let ?inner = "packet_for ?D ''u1'' 5 (Text_Msg ''hi'') None"
  have texts: "utf8_valid ''hi''" "utf8_valid ''u1''" by (simp_all add: utf8_valid_def)
  have json: "json_fits 126 (content_json demo_crypto (Text_Msg ''hi''))" using texts by (simp add: utf8_valid_def)
  have short: "length (serialize_inner demo_json demo_crypto ?inner) < 2 ^ 32"
    by (simp add: serialize_inner_def inner_json_def packet_for_def) (simp add: demo_json_def length_put_str json_of_i64_def length_u64_to_be)
  obtain ct r' where enc: "encrypt demo_aead demo_rng (replicate 32 7) (serialize_inner demo_json demo_crypto ?inner) 1 = (Inr ct, r')"
    using encrypt_decrypt [OF demo_aead_ok demo_rng_ok short, of "replicate 32 7" "[]" 1] by (auto simp: encrypt_def)
  have "\<exists>st'. send ?D (Text_Msg ''hi'') (demo_st []) = Some (Inr (sent_message ?D ''u1'' (Text_Msg ''hi'') 5 1 (s_topic (demo_st []))), st')"
    by (rule demo_dialogues.first_sent) (use demo_box enc in \<open>simp_all add: demo_st_def\<close>)
  then obtain msg st' where sent: "send ?D (Text_Msg ''hi'') (demo_st []) = Some (Inr msg, st')" "m_server_seq msg = Some 1"
    by (auto simp: sent_message_def split: prod.splits)
  have st: "s_net (demo_st db) = db" "s_topic (demo_st db) = None" "s_store (demo_st db) = empty_store" for db by (simp_all add: demo_st_def)
  have fresh: "get_last_pulled_seq k empty_store = 0" "get_message_by_seq k 1 empty_store = None" for k
    by (simp_all add: get_last_pulled_seq_def get_message_by_seq_def empty_store_def)
  have "(1 :: u64) < - 1" by (simp add: word_less_nat_alt unat_minus_one_word_eq)
  then show ?thesis
    using sent_is_received [OF demo_served demo_partners _ _ _ _ _ _ _ _ _ _ _ _ sent, of "demo_st (s_net st')" 0]
      sent(1) json texts demo_aead_ok demo_box by (simp add: st fresh plain_content_def) blast
qed

text \<open>One packet on the server, with any number and content.\<close>

lemma demo_posted:
  obtains db where "readable demo_env (demo_dialogue ''bob'' bob_key) db" and "box_of demo_env (demo_dialogue ''bob'' bob_key) db = [(s, ct)]"
proof -
  from served_push [OF demo_served(2) demo_box(1), of s ct] that show thesis by (auto simp: demo_box)
qed

theorem receive_one_pass_witness:
  "\<exists>db db' L. box_of demo_env (demo_dialogue ''bob'' bob_key) db = [(1, [1, 2, 3])] \<and>
     receive (demo_dialogue ''bob'' bob_key) (demo_st db) = Some (Inr ([], 1), (demo_st db)\<lparr>s_net := db', s_store := L\<rparr>)"
proof -
  let ?D = "demo_dialogue ''bob'' bob_key"
  obtain db where db: "readable demo_env ?D db" "box_of demo_env ?D db = [(1, [1, 2, 3])]" by (rule demo_posted)
  have bad: "decrypt_packet ?D 1 [1, 2, 3] = Inl ''Ciphertext too short''"
    by (simp add: decrypt_packet_def decrypt_def decrypt_aad_def)
  have small: "(1 :: u64) < - 1" by (simp add: word_less_nat_alt unat_minus_one_word_eq)
  have net: "s_net (demo_st db) = db" by (simp add: demo_st_def)
  have spec: "receive_spec ?D [(1, [1, 2, 3])] (demo_st db) = Some (res, (demo_st db)\<lparr>s_store := L\<rparr>) \<Longrightarrow> res = Inr ([], 1)" for res L
    by (auto simp: receive_spec_def and_then_def ask_def demo_st_def empty_store_def get_last_pulled_seq_def take_packet_def bad set_cursor_def
        update_store_def give_def top_key_def)
  have t: "\<forall>p \<in> set (box_of demo_env ?D (s_net (demo_st db))). timely ?D (as_packet p) \<and> fst p < - 1"
    using small by (simp add: net db(2) timely_def bad)
  from receive_one_pass [OF demo_served(2) _ t] db spec show ?thesis by (fastforce simp: net)
qed

theorem greatest_number_blocks_receive_witness:
  "\<exists>db. box_of demo_env (demo_dialogue ''bob'' bob_key) db = [(- 1, [1, 2, 3])] \<and>
     receive (demo_dialogue ''bob'' bob_key) (demo_st db) \<noteq> Some (Inr ([], 0), demo_st db)"
proof -
  let ?D = "demo_dialogue ''bob'' bob_key"
  obtain db where db: "readable demo_env ?D db" "box_of demo_env ?D db = [(- 1, [1, 2, 3])]" by (rule demo_posted)
  have "(0 :: u64) < - 1" by (simp add: word_less_nat_alt unat_minus_one_word_eq)
  then have "receive ?D (demo_st db) \<noteq> Some (Inr ([], 0), demo_st db)"
    using db by (intro greatest_number_blocks_receive [OF demo_served(2)])
      (simp_all add: demo_st_def empty_store_def get_last_pulled_seq_def)
  with db(2) show ?thesis by blast
qed

end
