(* ===== verification/Vault.thy ===== *)
theory Vault
  imports Client_Crypto Voip_Crypto
begin

text \<open>
  The local vault of the client (\<open>ParanoiaLibrary/src/local_vault/\<close>: \<open>crypto.rs\<close>, \<open>io.rs\<close>, \<open>state.rs\<close>,
  \<open>vault.rs\<close>): a PIN opens a master key, from which the keys of the files are derived; wrong PINs are
  slowed down; a change of the PIN rewrites every file in a transaction with backups.
  Argon2id, HKDF, the AEAD, SQLCipher and the hardware token are parameters. The disk is the map of
  the protected files, the contents of \<open>vault.json\<close> as it is read back and the staging
  directory; a write is atomic, as \<open>atomic_io.rs\<close> makes it. The list \<open>v_trail\<close> keeps the disk after
  each write, so that a crash at any moment leaves one of its members.
\<close>

section \<open>State\<close>

record vault_keys =
  json_key :: bytes
  db_key :: bytes
  files_key :: bytes

record vault_state =
  vs_salt_b64 :: string
  vs_verifier_b64 :: string
  vs_failed :: u32
  vs_lockout :: "int option"
  vs_wrapped_b64 :: "string option"

record rekey_entry =
  en_orig :: string
  en_backup :: string

record rekey_manifest =
  mf_salt_b64 :: string
  mf_entries :: "rekey_entry list"

record staging =
  st_manifest :: "rekey_manifest option"
  st_backups :: "string \<rightharpoonup> bytes"

text \<open>\<open>vd_state\<close> is what \<open>VaultState::load\<close> returns: nothing, an error, or the state of version 1.\<close>

record vault_disk =
  vd_state :: "vault_state res option"
  vd_files :: "string \<rightharpoonup> bytes"
  vd_staging :: "staging option"

record pending_vault =
  pv_salt :: bytes
  pv_keys :: vault_keys
  pv_manifest :: rekey_manifest

record 'r vault =
  v_active :: "vault_keys option"
  v_pending :: "pending_vault option"
  v_exhausted :: bool
  v_rand :: 'r
  v_disk :: vault_disk
  v_trail :: "vault_disk list"

record 'r vault_env =
  ve_crypto :: crypto_env
  ve_hkdf :: hkdf
  ve_argon2 :: "string \<Rightarrow> bytes \<Rightarrow> bytes res"
  ve_aead :: aead
  ve_rng :: "'r rng"
  ve_sql_rekey :: "bytes \<Rightarrow> bytes \<Rightarrow> string \<Rightarrow> (string \<rightharpoonup> bytes) \<Rightarrow> unit res \<times> (string \<rightharpoonup> bytes) list"
  ve_wrap :: "string \<Rightarrow> string \<Rightarrow> bytes \<Rightarrow> bytes res"
  ve_unwrap :: "string \<Rightarrow> string \<Rightarrow> bytes \<Rightarrow> bytes res"

definition vthen :: "('v \<Rightarrow> 'a res \<times> 'v) \<Rightarrow> ('a \<Rightarrow> 'v \<Rightarrow> 'b res \<times> 'v) \<Rightarrow> 'v \<Rightarrow> 'b res \<times> 'v" where
  "vthen m f v = (case m v of (Inl e, v') \<Rightarrow> (Inl e, v') | (Inr x, v') \<Rightarrow> f x v')"

definition write_disk :: "(vault_disk \<Rightarrow> vault_disk) \<Rightarrow> 'r vault \<Rightarrow> unit res \<times> 'r vault" where
  "write_disk f v = (Inr (), v\<lparr>v_disk := f (v_disk v), v_trail := v_trail v @ [f (v_disk v)]\<rparr>)"

section \<open>Keys\<close>

definition SALT_LEN :: nat where "SALT_LEN = 16"
definition KEY_LEN :: nat where "KEY_LEN = 32"

definition derive_subkey :: "'r vault_env \<Rightarrow> bytes \<Rightarrow> bytes \<Rightarrow> bytes" where
  "derive_subkey E master info = ve_hkdf E (replicate 32 0) master info"

definition derive_attachment_key :: "'r vault_env \<Rightarrow> bytes \<Rightarrow> bytes \<Rightarrow> bytes" where
  "derive_attachment_key E key salt = ve_hkdf E salt key (as_bytes ''attachment-v1'')"

definition vault_keys_of :: "'r vault_env \<Rightarrow> bytes \<Rightarrow> vault_keys" where
  "vault_keys_of E master =
     \<lparr>json_key = derive_subkey E master (as_bytes ''paranoia-json-v1''),
      db_key = derive_subkey E master (as_bytes ''paranoia-db-v1''),
      files_key = derive_subkey E master (as_bytes ''paranoia-files-v1'')\<rparr>"

definition vseal :: "'r vault_env \<Rightarrow> bytes \<Rightarrow> bytes \<Rightarrow> 'r vault \<Rightarrow> bytes res \<times> 'r vault" where
  "vseal E key plaintext v = (let (c, r) = encrypt (ve_aead E) (ve_rng E) key plaintext (v_rand v) in (c, v\<lparr>v_rand := r\<rparr>))"

definition vopen :: "'r vault_env \<Rightarrow> bytes \<Rightarrow> bytes \<Rightarrow> bytes res" where
  "vopen E key ciphertext = decrypt (ve_aead E) key ciphertext"

definition install_master :: "'r vault_env \<Rightarrow> bytes \<Rightarrow> 'r vault \<Rightarrow> unit res \<times> 'r vault" where
  "install_master E master v = (Inr (), v\<lparr>v_active := Some (vault_keys_of E master)\<rparr>)"

definition active_keys :: "'r vault \<Rightarrow> vault_keys res" where
  "active_keys v = (case v_active v of None \<Rightarrow> Inl ''vault_locked'' | Some k \<Rightarrow> Inr k)"

section \<open>Files\<close>

definition FILE_MAGIC :: bytes where "FILE_MAGIC = as_bytes ''PVL1''"

text \<open>The magic bytes before what was sealed.\<close>

definition seal_file :: "'r vault_env \<Rightarrow> bytes \<Rightarrow> bytes \<Rightarrow> 'r vault \<Rightarrow> bytes res \<times> 'r vault" where
  "seal_file E key plaintext = vthen (vseal E key plaintext) (\<lambda>sealed v. (Inr (FILE_MAGIC @ sealed), v))"

definition strip_magic :: "bytes \<Rightarrow> bytes res" where
  "strip_magic ciphertext =
     (if length ciphertext < 4 \<or> take 4 ciphertext \<noteq> FILE_MAGIC then Inl ''vault_io: bad magic'' else Inr (drop 4 ciphertext))"

definition encrypt_json_bytes :: "'r vault_env \<Rightarrow> bytes \<Rightarrow> 'r vault \<Rightarrow> bytes res \<times> 'r vault" where
  "encrypt_json_bytes E plaintext v =
     (case active_keys v of Inl e \<Rightarrow> (Inl e, v) | Inr k \<Rightarrow> seal_file E (json_key k) plaintext v)"

definition decrypt_json_bytes :: "'r vault_env \<Rightarrow> vault_keys res \<Rightarrow> bytes \<Rightarrow> bytes res" where
  "decrypt_json_bytes E keys ciphertext =
     try_then (strip_magic ciphertext) (\<lambda>payload. try_then keys (\<lambda>k. vopen E (json_key k) payload))"

definition write_file :: "string \<Rightarrow> bytes \<Rightarrow> 'r vault \<Rightarrow> unit res \<times> 'r vault" where
  "write_file path content = write_disk (\<lambda>d. d\<lparr>vd_files := (vd_files d)(path \<mapsto> content)\<rparr>)"

definition read_file :: "string \<Rightarrow> 'r vault \<Rightarrow> bytes res" where
  "read_file path v = (case vd_files (v_disk v) path of None \<Rightarrow> Inl ''vault_io: read'' | Some b \<Rightarrow> Inr b)"

definition encrypt_json_to_disk :: "'r vault_env \<Rightarrow> string \<Rightarrow> bytes \<Rightarrow> 'r vault \<Rightarrow> unit res \<times> 'r vault" where
  "encrypt_json_to_disk E path plaintext = vthen (encrypt_json_bytes E plaintext) (write_file path)"

definition decrypt_json_from_disk :: "'r vault_env \<Rightarrow> string \<Rightarrow> 'r vault \<Rightarrow> bytes res" where
  "decrypt_json_from_disk E path v = try_then (read_file path v) (decrypt_json_bytes E (active_keys v))"

definition encrypt_attachment :: "'r vault_env \<Rightarrow> bytes \<Rightarrow> bytes \<Rightarrow> 'r vault \<Rightarrow> bytes res \<times> 'r vault" where
  "encrypt_attachment E salt plaintext v =
     (case active_keys v of Inl e \<Rightarrow> (Inl e, v)
      | Inr k \<Rightarrow> seal_file E (derive_attachment_key E (files_key k) salt) plaintext v)"

definition decrypt_attachment :: "'r vault_env \<Rightarrow> vault_keys res \<Rightarrow> bytes \<Rightarrow> bytes \<Rightarrow> bytes res" where
  "decrypt_attachment E keys salt ciphertext =
     try_then (strip_magic ciphertext) (\<lambda>payload. try_then keys (\<lambda>k.
       vopen E (derive_attachment_key E (files_key k) salt) payload))"

section \<open>PIN\<close>

definition VERIFIER_PLAINTEXT :: bytes where
  "VERIFIER_PLAINTEXT = as_bytes (CHR ''{'' # [CHR 0x22] @ ''v'' @ [CHR 0x22] @ '':1,'' @ [CHR 0x22] @ ''verifier'' @ [CHR 0x22] @ '':'' @
     [CHR 0x22] @ ''paranoia-vault-v1'' @ [CHR 0x22] @ ''}'')"

definition new_fresh :: "'r vault_env \<Rightarrow> bytes \<Rightarrow> bytes \<Rightarrow> vault_state" where
  "new_fresh E salt verifier = \<lparr>vs_salt_b64 = b64_encode (ve_crypto E) salt, vs_verifier_b64 = b64_encode (ve_crypto E) verifier,
     vs_failed = 0, vs_lockout = None, vs_wrapped_b64 = None\<rparr>"

definition new_token :: "'r vault_env \<Rightarrow> bytes \<Rightarrow> vault_state" where
  "new_token E wrapped_master = \<lparr>vs_salt_b64 = [], vs_verifier_b64 = [], vs_failed = 0, vs_lockout = None,
     vs_wrapped_b64 = Some (b64_encode (ve_crypto E) wrapped_master)\<rparr>"

definition token_wrapped_master :: "'r vault_env \<Rightarrow> vault_state \<Rightarrow> bytes res" where
  "token_wrapped_master E st = (case vs_wrapped_b64 st of
     None \<Rightarrow> Inl ''vault: not a token-mode vault''
   | Some b64 \<Rightarrow> with_context ''vault: bad wrapped-master b64'' (b64_decode (ve_crypto E) b64))"

definition state_salt :: "'r vault_env \<Rightarrow> vault_state \<Rightarrow> bytes res" where
  "state_salt E st = try_then (with_context ''vault: bad salt b64'' (b64_decode (ve_crypto E) (vs_salt_b64 st))) (\<lambda>raw.
     if length raw \<noteq> SALT_LEN then Inl (''vault: salt length '' @ show_nat (length raw) @ '' != 16'') else Inr raw)"

definition state_verifier :: "'r vault_env \<Rightarrow> vault_state \<Rightarrow> bytes res" where
  "state_verifier E st = with_context ''vault: bad verifier b64'' (b64_decode (ve_crypto E) (vs_verifier_b64 st))"

text \<open>\<open>state::verify_pin\<close>: the master key of the PIN if it opens the verifier.\<close>

definition verify_state_pin :: "'r vault_env \<Rightarrow> vault_state \<Rightarrow> string \<Rightarrow> bytes res" where
  "verify_state_pin E st pin =
     try_then (state_salt E st) (\<lambda>salt. try_then (state_verifier E st) (\<lambda>verifier.
     try_then (ve_argon2 E pin salt) (\<lambda>master.
       case vopen E (json_key (vault_keys_of E master)) verifier of
         Inl _ \<Rightarrow> Inl ''vault: wrong pin''
       | Inr plaintext \<Rightarrow> if plaintext \<noteq> VERIFIER_PLAINTEXT then Inl ''vault: verifier mismatch'' else Inr master)))"

definition fresh_state :: "'r vault_env \<Rightarrow> string \<Rightarrow> 'r vault \<Rightarrow> (vault_state \<times> bytes) res \<times> 'r vault" where
  "fresh_state E pin v =
     (let (salt, r) = fill_bytes (ve_rng E) SALT_LEN (v_rand v); v = v\<lparr>v_rand := r\<rparr>
      in case ve_argon2 E pin salt of
           Inl e \<Rightarrow> (Inl e, v)
         | Inr master \<Rightarrow> vthen (vseal E (json_key (vault_keys_of E master)) VERIFIER_PLAINTEXT)
             (\<lambda>verifier v. (Inr (new_fresh E salt verifier, master), v)) v)"

definition save_state :: "vault_state \<Rightarrow> 'r vault \<Rightarrow> unit res \<times> 'r vault" where
  "save_state st = write_disk (\<lambda>d. d\<lparr>vd_state := Some (Inr st)\<rparr>)"

text \<open>The time is in nanoseconds; the remaining time is counted in whole seconds.\<close>

definition lockout_remaining :: "vault_state \<Rightarrow> int \<Rightarrow> nat" where
  "lockout_remaining st now = (case vs_lockout st of
     None \<Rightarrow> 0 | Some u \<Rightarrow> if u \<le> now then 0 else nat ((u - now) div 1000000000))"

datatype lockout_action = No_Lockout | Lockout_For nat | Exhausted_Until_Restart

definition lockout_for_failures :: "nat \<Rightarrow> lockout_action" where
  "lockout_for_failures n =
     (if n \<le> 5 then No_Lockout else if n \<le> 10 then Lockout_For 30 else if n \<le> 15 then Lockout_For (5 * 60)
      else if n \<le> 20 then Lockout_For (30 * 60) else Exhausted_Until_Restart)"

definition apply_failed_attempt :: "int \<Rightarrow> vault_state \<Rightarrow> vault_state \<times> bool" where
  "apply_failed_attempt now st =
     (let n = sat_add (vs_failed st) 1; st = st\<lparr>vs_failed := n\<rparr>
      in case lockout_for_failures (unat n) of
           No_Lockout \<Rightarrow> (st\<lparr>vs_lockout := None\<rparr>, False)
         | Lockout_For secs \<Rightarrow> (st\<lparr>vs_lockout := Some (now + int secs * 1000000000)\<rparr>, False)
         | Exhausted_Until_Restart \<Rightarrow> (st\<lparr>vs_lockout := None\<rparr>, True))"

datatype vault_status = Not_Initialized | Locked | Unlocked

definition vault_status_of :: "'r vault \<Rightarrow> vault_status res" where
  "vault_status_of v =
     (if v_active v \<noteq> None then Inr Unlocked
      else case vd_state (v_disk v) of None \<Rightarrow> Inr Not_Initialized | Some (Inl e) \<Rightarrow> Inl e | Some (Inr _) \<Rightarrow> Inr Locked)"

definition set_pin :: "'r vault_env \<Rightarrow> string \<Rightarrow> 'r vault \<Rightarrow> unit res \<times> 'r vault" where
  "set_pin E pin v =
     (if pin = [] then (Inl ''vault: pin must not be empty'', v)
      else case vd_state (v_disk v) of
             Some (Inl e) \<Rightarrow> (Inl e, v)
           | Some (Inr _) \<Rightarrow> (Inl ''vault: already initialized'', v)
           | None \<Rightarrow> vthen (fresh_state E pin) (\<lambda>(st, master). vthen (save_state st) (\<lambda>_. install_master E master)) v)"

text \<open>Both uses of a PIN go through the same gate; they differ in what follows a correct one.\<close>

definition try_pin :: "'r vault_env \<Rightarrow> int \<Rightarrow> string \<Rightarrow> (bytes \<Rightarrow> 'r vault \<Rightarrow> unit res \<times> 'r vault) \<Rightarrow> 'r vault \<Rightarrow> unit res \<times> 'r vault" where
  "try_pin E now pin opened v =
     (case vd_state (v_disk v) of
        None \<Rightarrow> (Inl ''not_initialized'', v)
      | Some (Inl e) \<Rightarrow> (Inl e, v)
      | Some (Inr st) \<Rightarrow>
          if v_exhausted v \<or> 0 < lockout_remaining st now then (Inl ''locked_out'', v)
          else case verify_state_pin E st pin of
                 Inr master \<Rightarrow>
                   vthen (save_state (st\<lparr>vs_failed := 0, vs_lockout := None\<rparr>)) (\<lambda>_ v. opened master (v\<lparr>v_exhausted := False\<rparr>)) v
               | Inl _ \<Rightarrow>
                   let (st', ex) = apply_failed_attempt now st
                   in vthen (save_state st') (\<lambda>_ v. (Inl ''wrong_pin'', v)) (v\<lparr>v_exhausted := v_exhausted v \<or> ex\<rparr>))"

definition unlock :: "'r vault_env \<Rightarrow> int \<Rightarrow> string \<Rightarrow> 'r vault \<Rightarrow> unit res \<times> 'r vault" where
  "unlock E now pin = try_pin E now pin (install_master E)"

definition verify_pin :: "'r vault_env \<Rightarrow> int \<Rightarrow> string \<Rightarrow> 'r vault \<Rightarrow> unit res \<times> 'r vault" where
  "verify_pin E now pin = try_pin E now pin (\<lambda>_ v. (Inr (), v))"

definition vault_lock :: "'r vault \<Rightarrow> 'r vault" where
  "vault_lock v = v\<lparr>v_active := None\<rparr>"

definition lockout_remaining_secs :: "int \<Rightarrow> 'r vault \<Rightarrow> nat res" where
  "lockout_remaining_secs now v =
     (if v_exhausted v then Inr (2 ^ 64 - 1)
      else case vd_state (v_disk v) of None \<Rightarrow> Inr 0 | Some (Inl e) \<Rightarrow> Inl e | Some (Inr st) \<Rightarrow> Inr (lockout_remaining st now))"

definition init_token :: "'r vault_env \<Rightarrow> string \<Rightarrow> string \<Rightarrow> 'r vault \<Rightarrow> unit res \<times> 'r vault" where
  "init_token E module_path pin v =
     (if pin = [] then (Inl ''vault: token pin must not be empty'', v)
      else case vd_state (v_disk v) of
             Some (Inl e) \<Rightarrow> (Inl e, v)
           | Some (Inr _) \<Rightarrow> (Inl ''vault: already initialized'', v)
           | None \<Rightarrow>
               let (master, r) = fill_bytes (ve_rng E) KEY_LEN (v_rand v); v = v\<lparr>v_rand := r\<rparr>
               in case ve_wrap E module_path pin master of
                    Inl e \<Rightarrow> (Inl e, v)
                  | Inr wrapped \<Rightarrow> vthen (save_state (new_token E wrapped)) (\<lambda>_. install_master E master) v)"

definition unlock_token :: "'r vault_env \<Rightarrow> string \<Rightarrow> string \<Rightarrow> 'r vault \<Rightarrow> unit res \<times> 'r vault" where
  "unlock_token E module_path pin v =
     (case vd_state (v_disk v) of
        None \<Rightarrow> (Inl ''not_initialized'', v)
      | Some (Inl e) \<Rightarrow> (Inl e, v)
      | Some (Inr st) \<Rightarrow>
          (case try_then (token_wrapped_master E st) (ve_unwrap E module_path pin) of
             Inl e \<Rightarrow> (Inl e, v)
           | Inr master \<Rightarrow>
               if length master \<noteq> KEY_LEN then (Inl (''vault: unexpected master length '' @ show_nat (length master) @ '' from token''), v)
               else install_master E master v))"

end
