(* ===== verification/Vault_Rekey.thy ===== *)
theory Vault_Rekey
  imports Vault
begin

text \<open>
  The transaction that changes the PIN (\<open>local_vault/vault.rs\<close>, \<open>rekey_*\<close>): every file is copied into
  the staging directory and written again under the new keys; the commit writes \<open>vault.json\<close>
  with the new salt; an abort, or the recovery at the next start, puts the copies back.
\<close>

section \<open>Operations\<close>

definition write_staging :: "(staging \<Rightarrow> staging) \<Rightarrow> 'r vault \<Rightarrow> unit res \<times> 'r vault" where
  "write_staging f = write_disk (\<lambda>d. d\<lparr>vd_staging := map_option f (vd_staging d)\<rparr>)"

definition save_manifest :: "rekey_manifest \<Rightarrow> 'r vault \<Rightarrow> unit res \<times> 'r vault" where
  "save_manifest m = write_staging (\<lambda>s. s\<lparr>st_manifest := Some m\<rparr>)"

definition rekey_begin :: "'r vault_env \<Rightarrow> string \<Rightarrow> 'r vault \<Rightarrow> unit res \<times> 'r vault" where
  "rekey_begin E new_pin v =
     (if new_pin = [] then (Inl ''vault: pin must not be empty'', v)
      else if v_active v = None then (Inl ''vault_locked'', v)
      else if v_pending v \<noteq> None then (Inl ''rekey already in progress'', v)
      else if vd_staging (v_disk v) \<noteq> None then (Inl ''rekey staging already exists'', v)
      else vthen (write_disk (\<lambda>d. d\<lparr>vd_staging := Some \<lparr>st_manifest = None, st_backups = Map.empty\<rparr>\<rparr>)) (\<lambda>_ v.
        let (new_salt, r) = fill_bytes (ve_rng E) SALT_LEN (v_rand v); v = v\<lparr>v_rand := r\<rparr>
        in case ve_argon2 E new_pin new_salt of
             Inl e \<Rightarrow> (Inl e, v)
           | Inr new_master \<Rightarrow>
               let m = \<lparr>mf_salt_b64 = b64_encode (ve_crypto E) new_salt, mf_entries = []\<rparr>
               in vthen (save_manifest m) (\<lambda>_ v.
                    (Inr (), v\<lparr>v_pending := Some \<lparr>pv_salt = new_salt, pv_keys = vault_keys_of E new_master, pv_manifest = m\<rparr>\<rparr>)) v) v)"

definition backup_filename_for :: "'r vault_env \<Rightarrow> string \<Rightarrow> string" where
  "backup_filename_for E path = hex_encode (ve_crypto E) (sha256 (ve_crypto E) (as_bytes path)) @ ''.bin''"

definition put_entry :: "rekey_entry \<Rightarrow> rekey_entry list \<Rightarrow> rekey_entry list" where
  "put_entry en es =
     (if list_ex (\<lambda>e. en_orig e = en_orig en) es
      then map (\<lambda>e. if en_orig e = en_orig en then en else e) es else es @ [en])"

definition record_entry :: "rekey_entry \<Rightarrow> 'r vault \<Rightarrow> unit res \<times> 'r vault" where
  "record_entry en v =
     (case v_pending v of
        None \<Rightarrow> (Inl ''no_pending_rekey'', v)
      | Some p \<Rightarrow>
          let m = pv_manifest p; m' = m\<lparr>mf_entries := put_entry en (mf_entries m)\<rparr>
          in save_manifest m' (v\<lparr>v_pending := Some (p\<lparr>pv_manifest := m'\<rparr>)\<rparr>))"

text \<open>A file that does not exist is recorded without a backup, unless it is recorded already.\<close>

definition stage_backup :: "'r vault_env \<Rightarrow> string \<Rightarrow> 'r vault \<Rightarrow> unit res \<times> 'r vault" where
  "stage_backup E path v =
     (case v_pending v of
        None \<Rightarrow> (Inl ''no_pending_rekey'', v)
      | Some p \<Rightarrow>
          (case vd_files (v_disk v) path of
             None \<Rightarrow> if list_ex (\<lambda>e. en_orig e = path) (mf_entries (pv_manifest p)) then (Inr (), v)
                     else record_entry \<lparr>en_orig = path, en_backup = []\<rparr> v
           | Some content \<Rightarrow>
               vthen (write_staging (\<lambda>s. s\<lparr>st_backups := (st_backups s)(backup_filename_for E path \<mapsto> content)\<rparr>))
                 (\<lambda>_. record_entry \<lparr>en_orig = path, en_backup = backup_filename_for E path\<rparr>) v))"

definition pending_keys :: "'r vault \<Rightarrow> vault_keys res" where
  "pending_keys v = (case v_pending v of None \<Rightarrow> Inl ''no_pending_rekey'' | Some p \<Rightarrow> Inr (pv_keys p))"

definition rekey_file :: "'r vault_env \<Rightarrow> string \<Rightarrow> 'r vault \<Rightarrow> unit res \<times> 'r vault" where
  "rekey_file E path v =
     (case pending_keys v of
        Inl e \<Rightarrow> (Inl e, v)
      | Inr new \<Rightarrow> vthen (stage_backup E path) (\<lambda>_ v.
          case decrypt_json_from_disk E path v of
            Inl e \<Rightarrow> (Inl e, v)
          | Inr plaintext \<Rightarrow> vthen (seal_file E (json_key new) plaintext) (write_file path) v) v)"

definition rekey_attachment :: "'r vault_env \<Rightarrow> bytes \<Rightarrow> string \<Rightarrow> 'r vault \<Rightarrow> unit res \<times> 'r vault" where
  "rekey_attachment E salt path v =
     (case pending_keys v of
        Inl e \<Rightarrow> (Inl e, v)
      | Inr new \<Rightarrow> vthen (stage_backup E path) (\<lambda>_ v.
          case try_then (read_file path v) (decrypt_attachment E (active_keys v) salt) of
            Inl e \<Rightarrow> (Inl e, v)
          | Inr plaintext \<Rightarrow>
              vthen (seal_file E (derive_attachment_key E (files_key new) salt) plaintext) (write_file path) v) v)"

definition stage_if_exists :: "'r vault_env \<Rightarrow> string \<Rightarrow> 'r vault \<Rightarrow> unit res \<times> 'r vault" where
  "stage_if_exists E path v = (if vd_files (v_disk v) path = None then (Inr (), v) else stage_backup E path v)"

text \<open>SQLCipher rewrites the database and its side files in steps, each of which a crash can leave behind.\<close>

fun write_steps :: "(string \<rightharpoonup> bytes) list \<Rightarrow> 'r vault \<Rightarrow> 'r vault" where
  "write_steps [] v = v"
| "write_steps (F # Fs) v = write_steps Fs (snd (write_disk (\<lambda>d. d\<lparr>vd_files := F\<rparr>) v))"

definition rekey_db :: "'r vault_env \<Rightarrow> string \<Rightarrow> 'r vault \<Rightarrow> unit res \<times> 'r vault" where
  "rekey_db E path v =
     (case pending_keys v of
        Inl e \<Rightarrow> (Inl e, v)
      | Inr new \<Rightarrow>
          (case active_keys v of
             Inl e \<Rightarrow> (Inl e, v)
           | Inr old \<Rightarrow>
               vthen (stage_backup E path) (\<lambda>_. vthen (stage_if_exists E (path @ ''-wal'')) (\<lambda>_.
               vthen (stage_if_exists E (path @ ''-shm'')) (\<lambda>_ v.
                 let (r, steps) = ve_sql_rekey E (db_key old) (db_key new) path (vd_files (v_disk v))
                 in (r, write_steps steps v)))) v))"

definition rekey_commit :: "'r vault_env \<Rightarrow> 'r vault \<Rightarrow> unit res \<times> 'r vault" where
  "rekey_commit E v =
     (case v_pending v of
        None \<Rightarrow> (Inl ''no_pending_rekey'', v)
      | Some p \<Rightarrow>
          vthen (vseal E (json_key (pv_keys p)) VERIFIER_PLAINTEXT) (\<lambda>verifier.
          vthen (save_state (new_fresh E (pv_salt p) verifier)) (\<lambda>_ v.
            write_disk (\<lambda>d. d\<lparr>vd_staging := None\<rparr>) (v\<lparr>v_pending := None, v_active := Some (pv_keys p)\<rparr>))) v)"

text \<open>Putting the backups back, the last entry first; a backup that is missing was put back before.\<close>

fun restore_entries :: "rekey_entry list \<Rightarrow> 'r vault \<Rightarrow> 'r vault" where
  "restore_entries [] v = v"
| "restore_entries (en # es) v =
     restore_entries es
       (if en_backup en = [] then snd (write_disk (\<lambda>d. d\<lparr>vd_files := (vd_files d)(en_orig en := None)\<rparr>) v)
        else case Option.bind (vd_staging (v_disk v)) (\<lambda>s. st_backups s (en_backup en)) of
               None \<Rightarrow> v
             | Some content \<Rightarrow> snd (write_disk (\<lambda>d. d\<lparr>vd_files := (vd_files d)(en_orig en \<mapsto> content),
                 vd_staging := map_option (\<lambda>s. s\<lparr>st_backups := (st_backups s)(en_backup en := None)\<rparr>) (vd_staging d)\<rparr>) v))"

definition restore_from_manifest :: "'r vault \<Rightarrow> 'r vault" where
  "restore_from_manifest v =
     (case Option.bind (vd_staging (v_disk v)) st_manifest of
        None \<Rightarrow> v
      | Some m \<Rightarrow> restore_entries (rev (mf_entries m)) v)"

definition remove_staging :: "'r vault \<Rightarrow> 'r vault" where
  "remove_staging v = snd (write_disk (\<lambda>d. d\<lparr>vd_staging := None\<rparr>) v)"

definition rekey_abort :: "'r vault \<Rightarrow> 'r vault" where
  "rekey_abort v =
     (case v_pending v of None \<Rightarrow> v | Some p \<Rightarrow> remove_staging (restore_from_manifest (v\<lparr>v_pending := None\<rparr>)))"

definition recover_pending_rekey :: "'r vault \<Rightarrow> unit res \<times> 'r vault" where
  "recover_pending_rekey v =
     (case vd_staging (v_disk v) of
        None \<Rightarrow> (Inr (), v)
      | Some s \<Rightarrow>
          (case st_manifest s of
             None \<Rightarrow> (Inr (), remove_staging v)
           | Some m \<Rightarrow>
               (case vd_state (v_disk v) of
                  Some (Inl e) \<Rightarrow> (Inl e, v)
                | Some (Inr st) \<Rightarrow>
                    (Inr (), remove_staging (if vs_salt_b64 st = mf_salt_b64 m then v else restore_from_manifest v))
                | None \<Rightarrow> (Inr (), remove_staging (restore_from_manifest v)))))"

text \<open>A crash leaves a disk and forgets the rest.\<close>

definition restarted :: "'r \<Rightarrow> vault_disk \<Rightarrow> 'r vault" where
  "restarted r d = \<lparr>v_active = None, v_pending = None, v_exhausted = False, v_rand = r, v_disk = d, v_trail = [d]\<rparr>"

section \<open>The rewriting of files\<close>

datatype rekey_op = Rekey_File string | Rekey_Attachment bytes string | Rekey_Db string

fun rekey_op_path :: "rekey_op \<Rightarrow> string" where
  "rekey_op_path (Rekey_File p) = p"
| "rekey_op_path (Rekey_Attachment salt p) = p"
| "rekey_op_path (Rekey_Db p) = p"

fun apply_rekey :: "'r vault_env \<Rightarrow> rekey_op \<Rightarrow> 'r vault \<Rightarrow> unit res \<times> 'r vault" where
  "apply_rekey E (Rekey_File p) v = rekey_file E p v"
| "apply_rekey E (Rekey_Attachment salt p) v = rekey_attachment E salt p v"
| "apply_rekey E (Rekey_Db p) v = rekey_db E p v"

text \<open>The caller stops at the first error.\<close>

fun rekey_all :: "'r vault_env \<Rightarrow> rekey_op list \<Rightarrow> 'r vault \<Rightarrow> unit res \<times> 'r vault" where
  "rekey_all E [] v = (Inr (), v)"
| "rekey_all E (op # ops) v = vthen (apply_rekey E op) (\<lambda>_. rekey_all E ops) v"

end
