(* ===== verification/Vault_Props.thy ===== *)
theory Vault_Props
  imports Vault_Rekey
begin

text \<open>
  What a crash in the middle of a change of the PIN can do (nothing, when each file is rewritten
  once), and what the commit leaves.
\<close>

section \<open>Disks that recovery brings back\<close>

definition entry_of :: "'r vault_env \<Rightarrow> (string \<rightharpoonup> bytes) \<Rightarrow> staging \<Rightarrow> (string \<rightharpoonup> bytes) \<Rightarrow> rekey_entry \<Rightarrow> bool" where
  "entry_of E F s G en \<longleftrightarrow>
     (if en_backup en = [] then F (en_orig en) = None
      else en_backup en = backup_filename_for E (en_orig en) \<and>
        ((\<exists>c. st_backups s (en_backup en) = Some c \<and> F (en_orig en) = Some c) \<or>
         st_backups s (en_backup en) = None \<and> G (en_orig en) = F (en_orig en)))"

definition armed :: "(string \<rightharpoonup> bytes) \<Rightarrow> staging \<Rightarrow> rekey_entry \<Rightarrow> bool" where
  "armed F s en \<longleftrightarrow> (if en_backup en = [] then F (en_orig en) = None
     else \<exists>c. st_backups s (en_backup en) = Some c \<and> F (en_orig en) = Some c)"

text \<open>\<open>X\<close> are the side files of databases that did not exist before; \<open>P\<close> the paths that are touched.\<close>

definition manifest_ok :: "'r vault_env \<Rightarrow> vault_state \<Rightarrow> (string \<rightharpoonup> bytes) \<Rightarrow> string set \<Rightarrow> string set \<Rightarrow>
    rekey_manifest \<Rightarrow> staging \<Rightarrow> vault_disk \<Rightarrow> bool" where
  "manifest_ok E S F X P m s d \<longleftrightarrow>
     vd_state d = Some (Inr S) \<and> vd_staging d = Some s \<and> st_manifest s = Some m \<and> mf_salt_b64 m \<noteq> vs_salt_b64 S \<and>
     distinct (map en_orig (mf_entries m)) \<and> en_orig ` set (mf_entries m) \<subseteq> P \<and>
     (\<forall>q. q \<notin> X \<longrightarrow> q \<notin> en_orig ` set (mf_entries m) \<longrightarrow> vd_files d q = F q) \<and>
     (\<forall>en \<in> set (mf_entries m). entry_of E F s (vd_files d) en)"

definition recoverable :: "'r vault_env \<Rightarrow> vault_state \<Rightarrow> (string \<rightharpoonup> bytes) \<Rightarrow> string set \<Rightarrow> string set \<Rightarrow> vault_disk \<Rightarrow> bool" where
  "recoverable E S F X P d \<longleftrightarrow>
     (vd_state d = Some (Inr S) \<and> (\<forall>s. vd_staging d = Some s \<longrightarrow> st_manifest s = None) \<and> (\<forall>q. q \<notin> X \<longrightarrow> vd_files d q = F q)) \<or>
     (\<exists>m s. manifest_ok E S F X P m s d)"

lemma write_disk_simps [simp]:
  "fst (write_disk f v) = Inr ()" "v_disk (snd (write_disk f v)) = f (v_disk v)"
  "v_trail (snd (write_disk f v)) = v_trail v @ [f (v_disk v)]" "v_pending (snd (write_disk f v)) = v_pending v"
  "v_active (snd (write_disk f v)) = v_active v" "v_exhausted (snd (write_disk f v)) = v_exhausted v"
  by (simp_all add: write_disk_def)

lemma backup_filename_nonempty [simp]: "backup_filename_for E p \<noteq> []" by (simp add: backup_filename_for_def)

lemma distinct_orig: "distinct (map en_orig es) \<Longrightarrow> a \<in> set es \<Longrightarrow> b \<in> set es \<Longrightarrow> en_orig a = en_orig b \<Longrightarrow> a = b"
  by (meson distinct_map inj_onD)

text \<open>Putting back one entry after the other keeps the disk recoverable and settles the entries.\<close>

definition settled :: "(string \<rightharpoonup> bytes) \<Rightarrow> vault_disk \<Rightarrow> rekey_entry \<Rightarrow> bool" where
  "settled F d en \<longleftrightarrow> vd_files d (en_orig en) = F (en_orig en)"

lemma restore_step:
  assumes ok: "manifest_ok E S F X P m s d" and inj: "inj_on (backup_filename_for E) P" and en: "en \<in> set (mf_entries m)"
  defines "d' \<equiv> (if en_backup en = [] then d\<lparr>vd_files := (vd_files d)(en_orig en := None)\<rparr>
     else case st_backups s (en_backup en) of None \<Rightarrow> d
       | Some content \<Rightarrow> d\<lparr>vd_files := (vd_files d)(en_orig en \<mapsto> content),
           vd_staging := Some (s\<lparr>st_backups := (st_backups s)(en_backup en := None)\<rparr>)\<rparr>)"
  shows "(\<exists>s'. manifest_ok E S F X P m s' d') \<and> settled F d' en \<and>
    (\<forall>other \<in> set (mf_entries m). settled F d other \<longrightarrow> settled F d' other)"
proof -
  have entry: "entry_of E F s (vd_files d) en" using ok en by (simp add: manifest_ok_def)
  have same: "other = en" if "other \<in> set (mf_entries m)" "en_orig other = en_orig en" for other
    using ok en that distinct_orig [of "mf_entries m" other en] by (simp add: manifest_ok_def)
  show ?thesis
  proof (cases "en_backup en = []")
    case True
    then have gone: "F (en_orig en) = None" using entry by (simp add: entry_of_def)
    have "entry_of E F s (vd_files d') other" if o: "other \<in> set (mf_entries m)" for other
    proof (cases "en_orig other = en_orig en")
      case neq: False
      have "entry_of E F s (vd_files d) other" using ok o by (simp add: manifest_ok_def)
      with neq True show ?thesis by (auto simp: entry_of_def d'_def split: if_splits)
    qed (use same [OF o] True gone in \<open>simp add: entry_of_def\<close>)
    with True ok en have "manifest_ok E S F X P m s d'"
      unfolding manifest_ok_def d'_def by auto
    with True gone show ?thesis unfolding d'_def settled_def by auto
  next
    case False
    show ?thesis
    proof (cases "st_backups s (en_backup en)")
      case None
      with False entry ok show ?thesis unfolding d'_def settled_def by (auto simp: entry_of_def)
    next
      case (Some content)
      with False entry have kept: "F (en_orig en) = Some content" "en_backup en = backup_filename_for E (en_orig en)"
        by (auto simp: entry_of_def)
      let ?s = "s\<lparr>st_backups := (st_backups s)(en_backup en := None)\<rparr>"
      have "entry_of E F ?s (vd_files d') other" if o: "other \<in> set (mf_entries m)" for other
      proof (cases "en_orig other = en_orig en")
        case True
        with same [OF o] False kept Some show ?thesis by (simp add: entry_of_def d'_def)
      next
        case neq: False
        have "backup_filename_for E (en_orig other) \<noteq> backup_filename_for E (en_orig en)"
          using inj neq ok o en unfolding manifest_ok_def inj_on_def by blast
        moreover have "entry_of E F s (vd_files d) other" using ok o by (simp add: manifest_ok_def)
        ultimately show ?thesis using neq kept False Some by (auto simp: entry_of_def d'_def)
      qed
      then have "manifest_ok E S F X P m ?s d'"
        using ok False Some en unfolding manifest_ok_def d'_def by auto
      with False Some kept show ?thesis unfolding d'_def settled_def by auto
    qed
  qed
qed

lemma restore_entries_ok:
  assumes "manifest_ok E S F X P m s (v_disk v)" and "inj_on (backup_filename_for E) P" and "set es \<subseteq> set (mf_entries m)"
    and "\<forall>d \<in> set (v_trail v). recoverable E S F X P d"
    and "\<forall>en \<in> set (mf_entries m) - set es. settled F (v_disk v) en"
  shows "\<exists>s'. manifest_ok E S F X P m s' (v_disk (restore_entries es v)) \<and>
    (\<forall>d \<in> set (v_trail (restore_entries es v)). recoverable E S F X P d) \<and>
    (\<forall>en \<in> set (mf_entries m). settled F (v_disk (restore_entries es v)) en) \<and>
    v_pending (restore_entries es v) = v_pending v \<and> v_active (restore_entries es v) = v_active v"
  using assms
proof (induction es arbitrary: v s)
  case (Cons en es)
  have st: "vd_staging (v_disk v) = Some s" using Cons.prems(1) by (simp add: manifest_ok_def)
  define v' where "v' = (if en_backup en = [] then snd (write_disk (\<lambda>d. d\<lparr>vd_files := (vd_files d)(en_orig en := None)\<rparr>) v)
        else case Option.bind (vd_staging (v_disk v)) (\<lambda>s. st_backups s (en_backup en)) of
               None \<Rightarrow> v
             | Some content \<Rightarrow> snd (write_disk (\<lambda>d. d\<lparr>vd_files := (vd_files d)(en_orig en \<mapsto> content),
                 vd_staging := map_option (\<lambda>s. s\<lparr>st_backups := (st_backups s)(en_backup en := None)\<rparr>) (vd_staging d)\<rparr>) v))"
  have disk: "v_disk v' = (if en_backup en = [] then (v_disk v)\<lparr>vd_files := (vd_files (v_disk v))(en_orig en := None)\<rparr>
     else case st_backups s (en_backup en) of None \<Rightarrow> v_disk v
       | Some content \<Rightarrow> (v_disk v)\<lparr>vd_files := (vd_files (v_disk v))(en_orig en \<mapsto> content),
           vd_staging := Some (s\<lparr>st_backups := (st_backups s)(en_backup en := None)\<rparr>)\<rparr>)"
    using st by (simp add: v'_def split: option.split)
  have trail: "set (v_trail v') \<subseteq> insert (v_disk v') (set (v_trail v))" "v_pending v' = v_pending v" "v_active v' = v_active v"
    by (auto simp: v'_def split: option.splits)
  obtain s' where s': "manifest_ok E S F X P m s' (v_disk v')" and fin: "settled F (v_disk v') en"
    "\<forall>other \<in> set (mf_entries m). settled F (v_disk v) other \<longrightarrow> settled F (v_disk v') other"
    using restore_step [OF Cons.prems(1,2), of en] Cons.prems(3) unfolding disk [symmetric] by auto
  then have "recoverable E S F X P (v_disk v')" unfolding recoverable_def by blast
  with Cons.prems(4) trail have all: "\<forall>d \<in> set (v_trail v'). recoverable E S F X P d" by blast
  have "\<forall>e \<in> set (mf_entries m) - set es. settled F (v_disk v') e" using Cons.prems(5) fin by auto
  with Cons.IH [OF s' Cons.prems(2) _ all] Cons.prems(3) trail show ?case by (simp add: v'_def)
qed auto

text \<open>Recovery from such a disk brings back every file; a crash during the recovery leaves such a disk again.\<close>

lemma restored:
  assumes "manifest_ok E S F X P m s (v_disk v)" and "inj_on (backup_filename_for E) P"
    and "\<forall>d \<in> set (v_trail v). recoverable E S F X P d"
  defines "v' \<equiv> remove_staging (restore_from_manifest v)"
  shows "vd_state (v_disk v') = Some (Inr S)" and "vd_staging (v_disk v') = None"
    and "q \<notin> X \<Longrightarrow> vd_files (v_disk v') q = F q" and "\<forall>d \<in> set (v_trail v'). recoverable E S F X P d"
proof -
  have run: "restore_from_manifest v = restore_entries (rev (mf_entries m)) v"
    using assms(1) by (simp add: restore_from_manifest_def manifest_ok_def)
  let ?w = "restore_entries (rev (mf_entries m)) v"
  obtain s' where w: "manifest_ok E S F X P m s' (v_disk ?w)" "\<forall>d \<in> set (v_trail ?w). recoverable E S F X P d"
    "\<forall>en \<in> set (mf_entries m). settled F (v_disk ?w) en"
    using restore_entries_ok [OF assms(1,2), of "rev (mf_entries m)"] assms(3) by auto
  have files: "vd_files (v_disk ?w) q = F q" if "q \<notin> X" for q
    using w(1,3) that by (cases "q \<in> en_orig ` set (mf_entries m)") (auto simp: manifest_ok_def settled_def)
  show "vd_state (v_disk v') = Some (Inr S)" using w(1) by (simp add: v'_def run remove_staging_def manifest_ok_def)
  show "vd_staging (v_disk v') = None" by (simp add: v'_def remove_staging_def)
  show "q \<notin> X \<Longrightarrow> vd_files (v_disk v') q = F q" using files by (simp add: v'_def run remove_staging_def)
  have "recoverable E S F X P (v_disk v')"
    using w(1) files by (simp add: recoverable_def v'_def run remove_staging_def manifest_ok_def)
  then show "\<forall>d \<in> set (v_trail v'). recoverable E S F X P d"
    using w(2) by (auto simp: v'_def run remove_staging_def)
qed

lemma recovered:
  assumes d: "recoverable E S F X P d" and inj: "inj_on (backup_filename_for E) P"
  shows "\<exists>v'. recover_pending_rekey (restarted r d) = (Inr (), v') \<and> vd_state (v_disk v') = Some (Inr S) \<and>
    vd_staging (v_disk v') = None \<and> (\<forall>q. q \<notin> X \<longrightarrow> vd_files (v_disk v') q = F q) \<and>
    (\<forall>d' \<in> set (v_trail v'). recoverable E S F X P d')"
proof -
  consider (plain) "vd_state d = Some (Inr S)" "\<forall>s. vd_staging d = Some s \<longrightarrow> st_manifest s = None" "\<forall>q. q \<notin> X \<longrightarrow> vd_files d q = F q"
    | (staged) m s where "manifest_ok E S F X P m s d"
    using d unfolding recoverable_def by blast
  then show ?thesis
  proof cases
    case plain
    then show ?thesis
      using d by (cases "vd_staging d")
        (auto simp: recover_pending_rekey_def restarted_def remove_staging_def recoverable_def write_disk_def)
  next
    case staged
    have run: "recover_pending_rekey (restarted r d) = (Inr (), remove_staging (restore_from_manifest (restarted r d)))"
      using staged by (auto simp: recover_pending_rekey_def restarted_def manifest_ok_def)
    have ok: "manifest_ok E S F X P m s (v_disk (restarted r d))" "\<forall>d \<in> set (v_trail (restarted r d)). recoverable E S F X P d"
      using staged d by (simp_all add: restarted_def)
    note all = restored [OF ok(1) inj ok(2)]
    show ?thesis unfolding run using all by blast
  qed
qed

section \<open>The rewriting phase\<close>

text \<open>Every recorded file still has its backup, and no other file was touched.\<close>

definition rewriting :: "'r vault_env \<Rightarrow> vault_state \<Rightarrow> (string \<rightharpoonup> bytes) \<Rightarrow> string set \<Rightarrow> string set \<Rightarrow> string set \<Rightarrow> 'r vault \<Rightarrow> bool" where
  "rewriting E S F X P Q v \<longleftrightarrow> (\<exists>p s. v_pending v = Some p \<and> manifest_ok E S F X P (pv_manifest p) s (v_disk v) \<and>
     (\<forall>en \<in> set (mf_entries (pv_manifest p)). armed F s en) \<and> en_orig ` set (mf_entries (pv_manifest p)) = Q \<and>
     (\<forall>d \<in> set (v_trail v). recoverable E S F X P d))"

lemma armed_entry_of: "armed F s en \<Longrightarrow> (en_backup en = [] \<or> en_backup en = backup_filename_for E (en_orig en)) \<Longrightarrow> entry_of E F s G en"
  by (auto simp: armed_def entry_of_def)

lemma entry_backup: "entry_of E F s G en \<Longrightarrow> en_backup en = [] \<or> en_backup en = backup_filename_for E (en_orig en)"
  by (auto simp: entry_of_def split: if_splits)

lemma rewriting_recoverable: "rewriting E S F X P Q v \<Longrightarrow> recoverable E S F X P (v_disk v)"
  unfolding rewriting_def recoverable_def by blast

text \<open>Writing a recorded file, or a new side file.\<close>

lemma rewriting_write:
  assumes r: "rewriting E S F X P Q v" and same: "\<And>q. q \<notin> X \<Longrightarrow> q \<notin> Q \<Longrightarrow> G q = vd_files (v_disk v) q"
  shows "rewriting E S F X P Q (snd (write_disk (\<lambda>d. d\<lparr>vd_files := G\<rparr>) v))"
proof -
  obtain p s where p: "v_pending v = Some p" and ok: "manifest_ok E S F X P (pv_manifest p) s (v_disk v)"
    and armed: "\<forall>en \<in> set (mf_entries (pv_manifest p)). armed F s en" and Q: "en_orig ` set (mf_entries (pv_manifest p)) = Q"
    and tr: "\<forall>d \<in> set (v_trail v). recoverable E S F X P d"
    using r unfolding rewriting_def by blast
  have "entry_of E F s G en" if "en \<in> set (mf_entries (pv_manifest p))" for en
    using that armed ok entry_backup [of E F s _ en] unfolding manifest_ok_def by (blast intro: armed_entry_of)
  then have ok': "manifest_ok E S F X P (pv_manifest p) s ((v_disk v)\<lparr>vd_files := G\<rparr>)"
    using ok same Q unfolding manifest_ok_def by auto
  then have "recoverable E S F X P ((v_disk v)\<lparr>vd_files := G\<rparr>)" unfolding recoverable_def by blast
  with ok' p armed Q tr show ?thesis unfolding rewriting_def by auto
qed

lemma write_file_rewriting:
  assumes "rewriting E S F X P Q v" and "path \<in> Q"
  shows "rewriting E S F X P Q (snd (write_file path content v))"
proof -
  have eq: "write_file path content v = write_disk (\<lambda>d. d\<lparr>vd_files := (vd_files (v_disk v))(path \<mapsto> content)\<rparr>) v"
    by (simp add: write_file_def write_disk_def)
  show ?thesis unfolding eq by (rule rewriting_write [OF assms(1)]) (use assms(2) in auto)
qed

text \<open>A file that was not touched yet is recorded; its contents do not change.\<close>

lemma put_entry_new:
  assumes "en_orig en \<notin> en_orig ` set es"
  shows "put_entry en es = es @ [en]"
proof -
  have "en_orig e \<noteq> en_orig en" if "e \<in> set es" for e using assms that by (metis image_eqI)
  then show ?thesis by (auto simp: put_entry_def list_ex_iff)
qed

lemma record_entry_rewriting:
  assumes p: "v_pending v = Some p" and ok: "manifest_ok E S F X P (pv_manifest p) s (v_disk v)"
    and armed: "\<forall>e \<in> set (mf_entries (pv_manifest p)). armed F s e" and Q: "en_orig ` set (mf_entries (pv_manifest p)) = Q"
    and tr: "\<forall>d \<in> set (v_trail v). recoverable E S F X P d"
    and en: "en_orig en \<in> P" "en_orig en \<notin> Q" "armed F s en" "en_backup en = [] \<or> en_backup en = backup_filename_for E (en_orig en)"
  shows "\<exists>v'. record_entry en v = (Inr (), v') \<and> rewriting E S F X P (insert (en_orig en) Q) v' \<and>
    v_active v' = v_active v \<and> vd_files (v_disk v') = vd_files (v_disk v) \<and> pending_keys v' = pending_keys v"
proof -
  let ?m = "(pv_manifest p)\<lparr>mf_entries := mf_entries (pv_manifest p) @ [en]\<rparr>"
  let ?s = "s\<lparr>st_manifest := Some ?m\<rparr>"
  let ?d = "(v_disk v)\<lparr>vd_staging := Some ?s\<rparr>"
  obtain v' where run: "record_entry en v = (Inr (), v')" and v': "v_pending v' = Some (p\<lparr>pv_manifest := ?m\<rparr>)" "v_disk v' = ?d"
    "v_trail v' = v_trail v @ [?d]" "v_active v' = v_active v"
    using p ok Q en(2) put_entry_new [of en "mf_entries (pv_manifest p)"]
    by (auto simp: record_entry_def save_manifest_def write_staging_def write_disk_def Let_def manifest_ok_def)
  have arm: "armed F ?s e" if "e = en \<or> e \<in> set (mf_entries (pv_manifest p))" for e
    using that armed en(3) unfolding armed_def by (cases "e = en") simp_all
  have kept: "e = en \<or> e \<in> set (mf_entries (pv_manifest p)) \<Longrightarrow> entry_of E F ?s (vd_files (v_disk v)) e" for e
    using arm [of e] ok en(4) entry_backup [of E F s _ e] unfolding manifest_ok_def by (blast intro: armed_entry_of)
  have "manifest_ok E S F X P ?m ?s ?d"
    using ok en(1,2) Q kept unfolding manifest_ok_def by auto
  moreover from this have "recoverable E S F X P ?d" unfolding recoverable_def by blast
  ultimately have "rewriting E S F X P (insert (en_orig en) Q) v'"
    using v' arm Q tr unfolding rewriting_def by (intro exI [of _ "p\<lparr>pv_manifest := ?m\<rparr>"] exI [of _ ?s]) auto
  with run v' p show ?thesis by (auto simp: pending_keys_def)
qed

lemma stage_backup_rewriting:
  assumes r: "rewriting E S F X P Q v" and inj: "inj_on (backup_filename_for E) P" and path: "path \<in> P" "path \<notin> Q" "path \<notin> X"
  shows "\<exists>v'. stage_backup E path v = (Inr (), v') \<and> rewriting E S F X P (insert path Q) v' \<and>
    v_active v' = v_active v \<and> vd_files (v_disk v') = vd_files (v_disk v) \<and> pending_keys v' = pending_keys v"
proof -
  obtain p s where p: "v_pending v = Some p" and ok: "manifest_ok E S F X P (pv_manifest p) s (v_disk v)"
    and armed: "\<forall>en \<in> set (mf_entries (pv_manifest p)). armed F s en" and Q: "en_orig ` set (mf_entries (pv_manifest p)) = Q"
    and tr: "\<forall>d \<in> set (v_trail v). recoverable E S F X P d"
    using r unfolding rewriting_def by blast
  have F: "vd_files (v_disk v) path = F path" using ok path Q by (auto simp: manifest_ok_def)
  show ?thesis
  proof (cases "F path")
    case None
    have "\<not> list_ex (\<lambda>e. en_orig e = path) (mf_entries (pv_manifest p))" using path(2) Q by (auto simp: list_ex_iff)
    then have "stage_backup E path v = record_entry \<lparr>en_orig = path, en_backup = []\<rparr> v"
      using p F None by (simp add: stage_backup_def)
    with record_entry_rewriting [OF p ok armed Q tr, of "\<lparr>en_orig = path, en_backup = []\<rparr>"] path None
    show ?thesis by (simp add: armed_def)
  next
    case (Some content)
    let ?b = "backup_filename_for E path"
    let ?s = "s\<lparr>st_backups := (st_backups s)(?b \<mapsto> content)\<rparr>"
    let ?d = "(v_disk v)\<lparr>vd_staging := Some ?s\<rparr>"
    define w where "w = v\<lparr>v_disk := ?d, v_trail := v_trail v @ [?d]\<rparr>"
    have run: "stage_backup E path v = record_entry \<lparr>en_orig = path, en_backup = ?b\<rparr> w"
      using p F Some ok by (simp add: stage_backup_def vthen_def write_staging_def write_disk_def w_def manifest_ok_def)
    have names: "en_backup e \<noteq> ?b" if "e \<in> set (mf_entries (pv_manifest p))" for e
    proof -
      have "en_orig e \<in> P" "en_orig e \<noteq> path" using that ok path(2) Q unfolding manifest_ok_def by auto
      then have "backup_filename_for E (en_orig e) \<noteq> ?b" using inj path(1) by (auto dest: inj_onD)
      moreover have "en_backup e = [] \<or> en_backup e = backup_filename_for E (en_orig e)"
        using that ok entry_backup unfolding manifest_ok_def by blast
      ultimately show ?thesis by (metis backup_filename_nonempty)
    qed
    have arm: "\<forall>e \<in> set (mf_entries (pv_manifest p)). armed F ?s e" using armed names by (auto simp: armed_def)
    have "\<forall>e \<in> set (mf_entries (pv_manifest p)). entry_of E F ?s (vd_files ?d) e"
      using arm ok entry_backup unfolding manifest_ok_def by (blast intro: armed_entry_of)
    then have ok': "manifest_ok E S F X P (pv_manifest p) ?s (v_disk w)" using ok by (simp add: manifest_ok_def w_def)
    then have "recoverable E S F X P ?d" unfolding recoverable_def w_def by auto
    then have tr': "\<forall>d \<in> set (v_trail w). recoverable E S F X P d" using tr by (auto simp: w_def)
    have wp: "v_pending w = Some p" by (simp add: w_def p)
    have "armed F ?s \<lparr>en_orig = path, en_backup = ?b\<rparr>" using Some by (simp add: armed_def)
    with record_entry_rewriting [OF wp ok' arm Q tr', of "\<lparr>en_orig = path, en_backup = ?b\<rparr>"] path run
    show ?thesis by (simp add: w_def pending_keys_def)
  qed
qed

lemma manifest_ok_more: "manifest_ok E S F X P m s d \<Longrightarrow> X \<subseteq> X' \<Longrightarrow> manifest_ok E S F X' P m s d"
  unfolding manifest_ok_def by blast

lemma recoverable_more: "recoverable E S F X P d \<Longrightarrow> X \<subseteq> X' \<Longrightarrow> recoverable E S F X' P d"
  unfolding recoverable_def by (meson subsetD manifest_ok_more)

lemma rewriting_more: "rewriting E S F X P Q v \<Longrightarrow> X \<subseteq> X' \<Longrightarrow> rewriting E S F X' P Q v"
  unfolding rewriting_def using manifest_ok_more [of E S F X P _ _ _ X'] recoverable_more [of E S F X P _ X'] by blast

lemma rewriting_steps:
  assumes "rewriting E S F X P Q v" and "\<forall>G \<in> set Gs. \<forall>q. q \<notin> Q \<union> X \<longrightarrow> G q = vd_files (v_disk v) q"
  shows "rewriting E S F X P Q (write_steps Gs v)"
  using assms
proof (induction Gs arbitrary: v)
  case (Cons G Gs)
  let ?v = "snd (write_disk (\<lambda>d. d\<lparr>vd_files := G\<rparr>) v)"
  have "rewriting E S F X P Q ?v" using Cons.prems by (auto intro!: rewriting_write)
  then have "rewriting E S F X P Q (write_steps Gs ?v)" using Cons.prems(2) by (intro Cons.IH) auto
  then show ?case by simp
qed simp

lemma write_steps_active [simp]: "v_active (write_steps Gs v) = v_active v" "pending_keys (write_steps Gs v) = pending_keys v"
  by (induction Gs arbitrary: v) (simp_all add: pending_keys_def)

lemma write_steps_files: "vd_files (v_disk (write_steps Gs v)) = last (vd_files (v_disk v) # Gs)"
  by (induction Gs arbitrary: v) (simp_all add: write_disk_def)

lemma write_steps_pending: "v_pending (write_steps Gs v) = v_pending v"
  by (induction Gs arbitrary: v) (simp_all add: write_disk_def)

lemma seal_file_same: "seal_file E key plaintext v = (r, v') \<Longrightarrow> \<exists>x. v' = v\<lparr>v_rand := x\<rparr>"
  by (auto simp: seal_file_def vthen_def vseal_def split: prod.splits sum.splits)

lemma rewriting_rand [simp]: "rewriting E S F X P Q (v\<lparr>v_rand := x\<rparr>) = rewriting E S F X P Q v"
  by (simp add: rewriting_def)

definition side_files :: "string \<Rightarrow> string set" where
  "side_files path = {path @ ''-wal'', path @ ''-shm''}"

fun touched :: "rekey_op \<Rightarrow> string list" where
  "touched (Rekey_File p) = [p]"
| "touched (Rekey_Attachment salt p) = [p]"
| "touched (Rekey_Db p) = [p, p @ ''-wal'', p @ ''-shm'']"

fun new_sides :: "(string \<rightharpoonup> bytes) \<Rightarrow> rekey_op \<Rightarrow> string set" where
  "new_sides F (Rekey_Db p) = {q \<in> side_files p. F q = None}"
| "new_sides F op = {}"

text \<open>SQLCipher changes the database and its side files only.\<close>

definition sql_ok :: "'r vault_env \<Rightarrow> bool" where
  "sql_ok E \<longleftrightarrow> (\<forall>old new path F. \<forall>G \<in> set (snd (ve_sql_rekey E old new path F)). \<forall>q. q \<notin> insert path (side_files path) \<longrightarrow> G q = F q)"

lemma stage_if_exists_rewriting:
  assumes r: "rewriting E S F X P Q v" and inj: "inj_on (backup_filename_for E) P" and path: "path \<in> P" "path \<notin> Q" "path \<notin> X"
  shows "\<exists>v' X' Q'. stage_if_exists E path v = (Inr (), v') \<and> rewriting E S F X' P Q' v' \<and> insert path (Q \<union> X) = Q' \<union> X' \<and>
    X \<subseteq> X' \<and> X' \<subseteq> X \<union> {q. q = path \<and> F q = None} \<and> v_active v' = v_active v \<and> vd_files (v_disk v') = vd_files (v_disk v) \<and>
    pending_keys v' = pending_keys v"
proof (cases "vd_files (v_disk v) path")
  case None
  then have "F path = None" using r path unfolding rewriting_def manifest_ok_def by auto
  with None r rewriting_more [OF r, of "insert path X"] show ?thesis
    by (intro exI [of _ v] exI [of _ "insert path X"] exI [of _ Q]) (auto simp: stage_if_exists_def)
next
  case (Some c)
  with stage_backup_rewriting [OF r inj path] show ?thesis by (fastforce simp: stage_if_exists_def)
qed

lemma apply_rekey_rewriting:
  assumes r: "rewriting E S F X P Q v" and inj: "inj_on (backup_filename_for E) P" and sql: "sql_ok E"
    and t: "set (touched op) \<subseteq> P" "set (touched op) \<inter> (Q \<union> X) = {}"
    and run: "apply_rekey E op v = (res, v')"
  shows "\<exists>X' Q'. rewriting E S F X' P Q' v' \<and> Q' \<union> X' \<subseteq> Q \<union> X \<union> set (touched op) \<and> X' \<subseteq> X \<union> new_sides F op"
proof (cases "pending_keys v")
  case (Inl e)
  with run have "v' = v" by (cases op) (simp_all add: rekey_file_def rekey_attachment_def rekey_db_def)
  with r show ?thesis by blast
next
  case (Inr new)
  have one: ?thesis if op: "touched op = [path]" and v1: "stage_backup E path v = (Inr (), v1)" "rewriting E S F X P (insert path Q) v1"
    and v': "v' = v1 \<or> (\<exists>key plaintext. snd (vthen (seal_file E key plaintext) (write_file path) v1) = v')" for path v1
  proof -
    have "rewriting E S F X P (insert path Q) v'"
      using v'
    proof
      assume "\<exists>key plaintext. snd (vthen (seal_file E key plaintext) (write_file path) v1) = v'"
      then obtain key plaintext where w: "snd (vthen (seal_file E key plaintext) (write_file path) v1) = v'" by blast
      obtain res2 v2 where s: "seal_file E key plaintext v1 = (res2, v2)" by fastforce
      then have v2: "rewriting E S F X P (insert path Q) v2" using v1(2) seal_file_same [OF s] by auto
      show ?thesis using w s write_file_rewriting [OF v2, of path] v2 by (cases res2) (auto simp: vthen_def)
    qed (use v1 in simp)
    with op show ?thesis by (intro exI [of _ X] exI [of _ "insert path Q"]) auto
  qed
  show ?thesis
  proof (cases op)
    case (Rekey_File path)
    with t stage_backup_rewriting [OF r inj, of path] obtain v1 where
      v1: "stage_backup E path v = (Inr (), v1)" "rewriting E S F X P (insert path Q) v1" by auto
    have "(case decrypt_json_from_disk E path v1 of Inl e \<Rightarrow> (Inl e, v1)
      | Inr plaintext \<Rightarrow> vthen (seal_file E (json_key new) plaintext) (write_file path) v1) = (res, v')"
      using run Rekey_File Inr v1(1) by (simp add: rekey_file_def vthen_def [of "stage_backup E path"])
    then have "v' = v1 \<or> (\<exists>key plaintext. snd (vthen (seal_file E key plaintext) (write_file path) v1) = v')"
      by (cases "decrypt_json_from_disk E path v1") (simp, metis sum.case(2) snd_conv)
    with one [OF _ v1] Rekey_File show ?thesis by simp
  next
    case (Rekey_Attachment salt path)
    with t stage_backup_rewriting [OF r inj, of path] obtain v1 where
      v1: "stage_backup E path v = (Inr (), v1)" "rewriting E S F X P (insert path Q) v1" by auto
    have "(case try_then (read_file path v1) (decrypt_attachment E (active_keys v1) salt) of Inl e \<Rightarrow> (Inl e, v1)
      | Inr plaintext \<Rightarrow> vthen (seal_file E (derive_attachment_key E (files_key new) salt) plaintext) (write_file path) v1) = (res, v')"
      using run Rekey_Attachment Inr v1(1) by (simp add: rekey_attachment_def vthen_def [of "stage_backup E path"])
    then have "v' = v1 \<or> (\<exists>key plaintext. snd (vthen (seal_file E key plaintext) (write_file path) v1) = v')"
      by (cases "try_then (read_file path v1) (decrypt_attachment E (active_keys v1) salt)") (simp, metis sum.case(2) snd_conv)
    with one [OF _ v1] Rekey_Attachment show ?thesis by simp
  next
    case (Rekey_Db path)
    let ?w = "path @ ''-wal''" and ?h = "path @ ''-shm''"
    show ?thesis
    proof (cases "active_keys v")
      case (Inl e)
      with run Rekey_Db Inr have "v' = v" by (simp add: rekey_db_def)
      with r show ?thesis by blast
    next
      case act: (Inr old)
      obtain v1 where v1: "stage_backup E path v = (Inr (), v1)" "rewriting E S F X P (insert path Q) v1"
        using Rekey_Db t stage_backup_rewriting [OF r inj, of path] by auto
      obtain v2 X2 Q2 where v2: "stage_if_exists E ?w v1 = (Inr (), v2)" "rewriting E S F X2 P Q2 v2"
        "insert ?w (insert path Q \<union> X) = Q2 \<union> X2" "X2 \<subseteq> X \<union> {q. q = ?w \<and> F q = None}"
        using stage_if_exists_rewriting [OF v1(2) inj, of ?w] Rekey_Db t by auto
      have "?h \<notin> Q2 \<union> X2" unfolding v2(3) [symmetric] using Rekey_Db t(2) by auto
      then obtain v3 X3 Q3 where v3: "stage_if_exists E ?h v2 = (Inr (), v3)" "rewriting E S F X3 P Q3 v3"
        "insert ?h (Q2 \<union> X2) = Q3 \<union> X3" "X3 \<subseteq> X2 \<union> {q. q = ?h \<and> F q = None}"
        using stage_if_exists_rewriting [OF v2(2) inj, of ?h] Rekey_Db t by auto
      obtain res' Gs where g: "ve_sql_rekey E (db_key old) (db_key new) path (vd_files (v_disk v3)) = (res', Gs)" by fastforce
      have "v' = write_steps Gs v3"
        using run Rekey_Db Inr act v1(1) v2(1) v3(1) g by (simp add: rekey_db_def vthen_def)
      moreover have "insert path (side_files path) \<subseteq> Q3 \<union> X3" unfolding v3(3) [symmetric] v2(3) [symmetric] side_files_def by blast
      moreover have "\<forall>G \<in> set Gs. \<forall>q. q \<notin> insert path (side_files path) \<longrightarrow> G q = vd_files (v_disk v3) q"
        using sql [unfolded sql_ok_def, THEN spec, THEN spec, THEN spec, THEN spec, of "db_key old" "db_key new" path "vd_files (v_disk v3)"] g
        by simp
      ultimately have "v' = write_steps Gs v3" "\<forall>G \<in> set Gs. \<forall>q. q \<notin> Q3 \<union> X3 \<longrightarrow> G q = vd_files (v_disk v3) q"
        by (simp, blast)
      then have "rewriting E S F X3 P Q3 v'" using rewriting_steps [OF v3(2)] by simp
      moreover have "set (touched op) = {path, ?w, ?h}" using Rekey_Db by simp
      then have "Q3 \<union> X3 \<subseteq> Q \<union> X \<union> set (touched op)" unfolding v3(3) [symmetric] v2(3) [symmetric] by blast
      moreover have "{q. q = ?w \<and> F q = None} \<subseteq> new_sides F op" "{q. q = ?h \<and> F q = None} \<subseteq> new_sides F op"
        using Rekey_Db by (simp_all add: side_files_def subset_iff)
      then have "X3 \<subseteq> X \<union> new_sides F op" using v2(4) v3(4) by blast
      ultimately show ?thesis by blast
    qed
  qed
qed

lemma rekey_all_rewriting:
  assumes "rewriting E S F X P Q v" and inj: "inj_on (backup_filename_for E) P" and sql: "sql_ok E"
    and "set (concat (map touched ops)) \<subseteq> P" "set (concat (map touched ops)) \<inter> (Q \<union> X) = {}" "distinct (concat (map touched ops))"
    and "rekey_all E ops v = (res, v')"
  shows "\<exists>X' Q'. rewriting E S F X' P Q' v' \<and> X' \<subseteq> X \<union> \<Union> (new_sides F ` set ops)"
  using assms(1,4-)
proof (induction ops arbitrary: X Q v)
  case (Cons op ops)
  obtain r1 v1 where run: "apply_rekey E op v = (r1, v1)" by fastforce
  have "set (touched op) \<subseteq> P" "set (touched op) \<inter> (Q \<union> X) = {}" using Cons.prems(2,3) by auto
  from apply_rekey_rewriting [OF Cons.prems(1) inj sql this run] obtain X1 Q1 where
    w: "rewriting E S F X1 P Q1 v1" "Q1 \<union> X1 \<subseteq> Q \<union> X \<union> set (touched op)" "X1 \<subseteq> X \<union> new_sides F op" by blast
  show ?case
  proof (cases r1)
    case (Inl e)
    with Cons.prems(5) run w show ?thesis by (auto simp: vthen_def)
  next
    case (Inr u)
    with Cons.prems(5) run have rest: "rekey_all E ops v1 = (res, v')" by (simp add: vthen_def)
    have "set (touched op) \<inter> set (concat (map touched ops)) = {}" "set (concat (map touched ops)) \<inter> (Q \<union> X) = {}"
      using Cons.prems(3,4) by (simp_all only: list.map concat.simps set_append distinct_append) blast
    then have "set (concat (map touched ops)) \<inter> (Q1 \<union> X1) = {}" using w(2) by blast
    moreover have "set (concat (map touched ops)) \<subseteq> P" "distinct (concat (map touched ops))" using Cons.prems(2,4) by simp_all
    ultimately obtain X' Q' where "rewriting E S F X' P Q' v'" "X' \<subseteq> X1 \<union> \<Union> (new_sides F ` set ops)"
      using Cons.IH [OF w(1) _ _ _ rest] by blast
    moreover from this(2) w(3) have "X' \<subseteq> X \<union> \<Union> (new_sides F ` set (op # ops))" by fastforce
    ultimately show ?thesis by blast
  qed
qed auto

section \<open>Crashes and aborts\<close>

definition brought_back :: "(string \<rightharpoonup> bytes) \<Rightarrow> vault_state \<Rightarrow> string set \<Rightarrow> 'r vault \<Rightarrow> bool" where
  "brought_back F S X v \<longleftrightarrow> vd_state (v_disk v) = Some (Inr S) \<and> vd_staging (v_disk v) = None \<and>
     (\<forall>q. q \<notin> X \<longrightarrow> vd_files (v_disk v) q = F q)"

lemma rekey_begin_rewriting:
  assumes ready: "vd_state (v_disk v) = Some (Inr S)" "vd_staging (v_disk v) = None" "v_trail v = [v_disk v]" "v_pending v = None"
    and salt: "b64_encode (ve_crypto E) (fst (fill_bytes (ve_rng E) SALT_LEN (v_rand v))) \<noteq> vs_salt_b64 S"
    and run: "rekey_begin E pin v = (res, v1)"
  defines "F \<equiv> vd_files (v_disk v)"
  shows "(\<forall>d \<in> set (v_trail v1). recoverable E S F {} P d) \<and>
    (res = Inr () \<longrightarrow> rewriting E S F {} P {} v1) \<and> (res \<noteq> Inr () \<longrightarrow> v_pending v1 = None)"
proof -
  obtain salt r where f: "fill_bytes (ve_rng E) SALT_LEN (v_rand v) = (salt, r)" by fastforce
  have start: "recoverable E S F {} P (v_disk v)" using ready by (simp add: recoverable_def F_def)
  have mid: "recoverable E S F {} P ((v_disk v)\<lparr>vd_staging := Some \<lparr>st_manifest = None, st_backups = Map.empty\<rparr>\<rparr>)"
    using ready by (simp add: recoverable_def F_def)
  show ?thesis
  proof (cases "pin = [] \<or> v_active v = None")
    case True
    with run have "v1 = v" "res \<noteq> Inr ()" by (auto simp: rekey_begin_def split: if_splits)
    with ready start show ?thesis by simp
  next
    case False
    show ?thesis
    proof (cases "ve_argon2 E pin salt")
      case (Inl e)
      with False run ready f have "v_trail v1 = [v_disk v, (v_disk v)\<lparr>vd_staging := Some \<lparr>st_manifest = None, st_backups = Map.empty\<rparr>\<rparr>]"
        "v_pending v1 = None" "res = Inl e"
        by (auto simp: rekey_begin_def vthen_def write_disk_def)
      with start mid show ?thesis by simp
    next
      case (Inr master)
      let ?m = "\<lparr>mf_salt_b64 = b64_encode (ve_crypto E) salt, mf_entries = []\<rparr>"
      let ?s = "\<lparr>st_manifest = Some ?m, st_backups = Map.empty\<rparr>"
      let ?d = "(v_disk v)\<lparr>vd_staging := Some ?s\<rparr>"
      have v1: "res = Inr ()" "v_disk v1 = ?d" "v_pending v1 = Some \<lparr>pv_salt = salt, pv_keys = vault_keys_of E master, pv_manifest = ?m\<rparr>"
        "v_trail v1 = [v_disk v, (v_disk v)\<lparr>vd_staging := Some \<lparr>st_manifest = None, st_backups = Map.empty\<rparr>\<rparr>, ?d]"
        using False run ready Inr f
        by (auto simp: rekey_begin_def vthen_def write_disk_def save_manifest_def write_staging_def Let_def)
      have ok: "manifest_ok E S F {} P ?m ?s ?d" using ready salt f by (simp add: manifest_ok_def F_def)
      then have "recoverable E S F {} P ?d" unfolding recoverable_def by blast
      with v1 ok start mid show ?thesis unfolding rewriting_def by auto
    qed
  qed
qed

text \<open>
  C7. A change of the PIN can be stopped at any moment. Whatever prefix of the transaction reached
  the disk (a crash after any write, the failure of any step), the recovery at the next start
  brings back \<open>vault.json\<close> and every file, except side files of a database that did not exist before;
  a crash during the recovery is recovered from in the same way; an abort does the same at once.
  It is assumed that no file is rewritten twice.
\<close>

theorem rekey_crash_safe:
  assumes ready: "vd_state (v_disk v) = Some (Inr S)" "vd_staging (v_disk v) = None" "v_trail v = [v_disk v]" "v_pending v = None"
    and salt: "b64_encode (ve_crypto E) (fst (fill_bytes (ve_rng E) SALT_LEN (v_rand v))) \<noteq> vs_salt_b64 S"
    and sql: "sql_ok E" and once: "distinct (concat (map touched ops))"
    and inj: "inj_on (backup_filename_for E) (set (concat (map touched ops)))"
    and run: "vthen (rekey_begin E pin) (\<lambda>_. rekey_all E ops) v = (res, v2)"
    and F: "F = vd_files (v_disk v)" and X: "X = \<Union> (new_sides F ` set ops)"
  shows "(\<forall>d \<in> set (v_trail v2). \<exists>v'. recover_pending_rekey (restarted r d) = (Inr (), v') \<and> brought_back F S X v' \<and>
      (\<forall>d' \<in> set (v_trail v'). \<exists>v''. recover_pending_rekey (restarted r' d') = (Inr (), v'') \<and> brought_back F S X v'')) \<and>
    (v_pending v2 \<noteq> None \<longrightarrow> brought_back F S X (rekey_abort v2))"
proof -
  let ?P = "set (concat (map touched ops))"
  obtain r1 v1 where start: "rekey_begin E pin v = (r1, v1)" by fastforce
  note b = rekey_begin_rewriting [OF ready salt start, of ?P, folded F]
  have wk: "(\<forall>d \<in> set (v_trail v2). recoverable E S F X ?P d) \<and> (v_pending v2 \<noteq> None \<longrightarrow> (\<exists>Q. rewriting E S F X ?P Q v2))"
  proof (cases r1)
    case (Inl e)
    with run start have "v2 = v1" by (simp add: vthen_def)
    with b Inl recoverable_more [of E S F "{}" ?P _ X] show ?thesis by auto
  next
    case (Inr u)
    with run start have "rekey_all E ops v1 = (res, v2)" by (simp add: vthen_def)
    moreover have "rewriting E S F {} ?P {} v1" using b Inr by simp
    ultimately obtain X' Q' where w: "rewriting E S F X' ?P Q' v2" "X' \<subseteq> X"
      using rekey_all_rewriting [OF _ inj sql _ _ once] unfolding X by fastforce
    then have "rewriting E S F X ?P Q' v2" by (rule rewriting_more)
    then show ?thesis unfolding rewriting_def by blast
  qed
  then have all: "recoverable E S F X ?P d" if "d \<in> set (v_trail v2)" for d
    using that by blast
  from wk have pend: "v_pending v2 \<noteq> None \<Longrightarrow> \<exists>Q. rewriting E S F X ?P Q v2" by blast
  have rec: "\<exists>v'. recover_pending_rekey (restarted x d) = (Inr (), v') \<and> brought_back F S X v' \<and>
      (\<forall>d' \<in> set (v_trail v'). recoverable E S F X ?P d')" if "recoverable E S F X ?P d" for x d
    using recovered [OF that inj, of x] unfolding brought_back_def by blast
  have "brought_back F S X (rekey_abort v2)" if pv: "v_pending v2 \<noteq> None"
  proof -
    obtain p s where p: "v_pending v2 = Some p" and ok: "manifest_ok E S F X ?P (pv_manifest p) s (v_disk v2)"
      using pend [OF pv] unfolding rewriting_def by blast
    have ok': "manifest_ok E S F X ?P (pv_manifest p) s (v_disk (v2\<lparr>v_pending := None\<rparr>))"
      "\<forall>d \<in> set (v_trail (v2\<lparr>v_pending := None\<rparr>)). recoverable E S F X ?P d" using ok all by simp_all
    show ?thesis
      unfolding brought_back_def rekey_abort_def p option.case
      using restored [OF ok'(1) inj ok'(2)] by blast
  qed
  with all rec show ?thesis by metis
qed

section \<open>What a completed change leaves\<close>

lemma record_entry_frame:
  "record_entry en v = (r, v') \<Longrightarrow> vd_files (v_disk v') = vd_files (v_disk v) \<and> v_active v' = v_active v \<and> pending_keys v' = pending_keys v \<and>
    map_option pv_salt (v_pending v') = map_option pv_salt (v_pending v)"
  by (auto simp: record_entry_def save_manifest_def write_staging_def write_disk_def pending_keys_def Let_def split: option.splits)

lemma stage_backup_frame:
  assumes "stage_backup E path v = (r, v')"
  shows "vd_files (v_disk v') = vd_files (v_disk v) \<and> v_active v' = v_active v \<and> pending_keys v' = pending_keys v \<and>
    map_option pv_salt (v_pending v') = map_option pv_salt (v_pending v)"
proof (cases "v_pending v")
  case None
  with assms show ?thesis by (simp add: stage_backup_def)
next
  case (Some p)
  show ?thesis
  proof (cases "vd_files (v_disk v) path")
    case None
    with assms Some record_entry_frame [of _ v r v'] show ?thesis by (auto simp: stage_backup_def split: if_splits)
  next
    case c: (Some content)
    define w where "w = snd (write_staging (\<lambda>s. s\<lparr>st_backups := (st_backups s)(backup_filename_for E path \<mapsto> content)\<rparr>) v)"
    have "record_entry \<lparr>en_orig = path, en_backup = backup_filename_for E path\<rparr> w = (r, v')"
      using assms Some c by (simp add: stage_backup_def vthen_def w_def write_staging_def write_disk_def)
    from record_entry_frame [OF this] show ?thesis by (simp add: w_def write_staging_def write_disk_def pending_keys_def)
  qed
qed

lemma stage_if_exists_frame:
  "stage_if_exists E path v = (r, v') \<Longrightarrow> vd_files (v_disk v') = vd_files (v_disk v) \<and> v_active v' = v_active v \<and>
    pending_keys v' = pending_keys v \<and> map_option pv_salt (v_pending v') = map_option pv_salt (v_pending v)"
  using stage_backup_frame [of E path v r v'] by (cases "vd_files (v_disk v) path = None") (auto simp: stage_if_exists_def)

text \<open>
  What the code relies on of SQLCipher: \<open>rows key path F\<close> is what a database holds when it is opened
  with a key, which depends on the database and its side files only; a \<open>PRAGMA rekey\<close> that succeeds has
  opened the database with the old key, and leaves one that holds the same under the new key.
\<close>

definition sql_keeps :: "'r vault_env \<Rightarrow> (bytes \<Rightarrow> string \<Rightarrow> (string \<rightharpoonup> bytes) \<Rightarrow> bytes res) \<Rightarrow> bool" where
  "sql_keeps E rows \<longleftrightarrow>
     (\<forall>key path F G. (\<forall>q. q \<in> insert path (side_files path) \<longrightarrow> F q = G q) \<longrightarrow> rows key path F = rows key path G) \<and>
     (\<forall>old new path F Gs. ve_sql_rekey E old new path F = (Inr (), Gs) \<longrightarrow>
        (\<exists>t. rows old path F = Inr t \<and> rows new path (last (F # Gs)) = Inr t))"

text \<open>The contents that an operation reads, under given keys.\<close>

fun plain_of :: "'r vault_env \<Rightarrow> (bytes \<Rightarrow> string \<Rightarrow> (string \<rightharpoonup> bytes) \<Rightarrow> bytes res) \<Rightarrow> vault_keys res \<Rightarrow> (string \<rightharpoonup> bytes) \<Rightarrow>
    rekey_op \<Rightarrow> bytes res" where
  "plain_of E rows keys G (Rekey_File p) = (case G p of None \<Rightarrow> Inl ''vault_io: read'' | Some b \<Rightarrow> decrypt_json_bytes E keys b)"
| "plain_of E rows keys G (Rekey_Attachment salt p) = (case G p of None \<Rightarrow> Inl ''vault_io: read'' | Some b \<Rightarrow> decrypt_attachment E keys salt b)"
| "plain_of E rows keys G (Rekey_Db p) = try_then keys (\<lambda>k. rows (db_key k) p G)"

lemma seal_open:
  assumes "aead_ok (ve_aead E)" and "rng_ok (ve_rng E)" and "seal_file E key plaintext v = (Inr c, v')"
  shows "try_then (strip_magic c) (vopen E key) = Inr plaintext"
proof -
  obtain nonce x where n: "fill_bytes (ve_rng E) 12 (v_rand v) = (nonce, x)" by fastforce
  with assms(2) have len: "length nonce = 12" unfolding rng_ok_def by (metis fst_conv)
  obtain sealed where s: "aead_seal (ve_aead E) key nonce [] plaintext = Some sealed" and c: "c = FILE_MAGIC @ nonce @ sealed"
    using assms(3) n by (auto simp: seal_file_def vthen_def vseal_def encrypt_def encrypt_aad_def split: option.splits)
  have "aead_open (ve_aead E) key nonce [] sealed = Some plaintext" using assms(1) s unfolding aead_ok_def by blast
  with c len show ?thesis
    by (simp add: strip_magic_def FILE_MAGIC_def as_bytes_def vopen_def decrypt_def decrypt_aad_def)
qed

lemma rewritten:
  assumes "vthen (seal_file E key plaintext) (write_file path) v = (Inr (), v')"
  shows "\<exists>c w. seal_file E key plaintext v = (Inr c, w) \<and> vd_files (v_disk v') = (vd_files (v_disk v))(path \<mapsto> c) \<and>
    v_active v' = v_active v \<and> v_pending v' = v_pending v"
proof -
  obtain r w where s: "seal_file E key plaintext v = (r, w)" by fastforce
  with assms obtain c where "r = Inr c" by (cases r) (auto simp: vthen_def)
  with assms s seal_file_same [OF s] show ?thesis by (auto simp: vthen_def write_file_def write_disk_def)
qed

lemma apply_rekey_contents:
  assumes ok: "aead_ok (ve_aead E)" "rng_ok (ve_rng E)" and keys: "active_keys v = Inr old" "pending_keys v = Inr new"
    and sql: "sql_ok E" "sql_keeps E rows" and run: "apply_rekey E op v = (Inr (), v')"
  shows "\<exists>plaintext. plain_of E rows (Inr old) (vd_files (v_disk v)) op = Inr plaintext \<and>
    plain_of E rows (Inr new) (vd_files (v_disk v')) op = Inr plaintext \<and>
    (\<forall>q. q \<notin> set (touched op) \<longrightarrow> vd_files (v_disk v') q = vd_files (v_disk v) q) \<and>
    active_keys v' = Inr old \<and> pending_keys v' = Inr new \<and> map_option pv_salt (v_pending v') = map_option pv_salt (v_pending v)"
proof (cases op)
  case (Rekey_File path)
  obtain r1 v1 where st: "stage_backup E path v = (r1, v1)" by fastforce
  note fr = stage_backup_frame [OF st]
  from run Rekey_File keys(2) st obtain plaintext where d: "decrypt_json_from_disk E path v1 = Inr plaintext"
    and w: "vthen (seal_file E (json_key new) plaintext) (write_file path) v1 = (Inr (), v')"
    by (auto simp: rekey_file_def vthen_def [of "stage_backup E path"] split: sum.splits)
  from rewritten [OF w] obtain c u where c: "seal_file E (json_key new) plaintext v1 = (Inr c, u)"
    "vd_files (v_disk v') = (vd_files (v_disk v1))(path \<mapsto> c)" "v_active v' = v_active v1" "v_pending v' = v_pending v1" by blast
  have "plain_of E rows (Inr old) (vd_files (v_disk v)) op = Inr plaintext"
    using d fr keys(1) Rekey_File by (simp add: decrypt_json_from_disk_def read_file_def active_keys_def split: option.splits)
  moreover have "plain_of E rows (Inr new) (vd_files (v_disk v')) op = Inr plaintext"
    using seal_open [OF ok c(1)] Rekey_File c(2) by (simp add: decrypt_json_bytes_def)
  ultimately show ?thesis using c fr keys Rekey_File by (auto simp: active_keys_def pending_keys_def)
next
  case (Rekey_Attachment salt path)
  obtain r1 v1 where st: "stage_backup E path v = (r1, v1)" by fastforce
  note fr = stage_backup_frame [OF st]
  from run Rekey_Attachment keys(2) st obtain plaintext
    where d: "try_then (read_file path v1) (decrypt_attachment E (active_keys v1) salt) = Inr plaintext"
    and w: "vthen (seal_file E (derive_attachment_key E (files_key new) salt) plaintext) (write_file path) v1 = (Inr (), v')"
    by (auto simp: rekey_attachment_def vthen_def [of "stage_backup E path"] split: sum.splits)
  from rewritten [OF w] obtain c u where c: "seal_file E (derive_attachment_key E (files_key new) salt) plaintext v1 = (Inr c, u)"
    "vd_files (v_disk v') = (vd_files (v_disk v1))(path \<mapsto> c)" "v_active v' = v_active v1" "v_pending v' = v_pending v1" by blast
  have "plain_of E rows (Inr old) (vd_files (v_disk v)) op = Inr plaintext"
    using d fr keys(1) Rekey_Attachment by (simp add: read_file_def active_keys_def split: option.splits)
  moreover have "plain_of E rows (Inr new) (vd_files (v_disk v')) op = Inr plaintext"
    using seal_open [OF ok c(1)] Rekey_Attachment c(2) by (simp add: decrypt_attachment_def)
  ultimately show ?thesis using c fr keys Rekey_Attachment by (auto simp: active_keys_def pending_keys_def)
next
  case (Rekey_Db path)
  let ?old = "db_key old" and ?new = "db_key new"
  obtain r1 v1 where st1: "stage_backup E path v = (r1, v1)" by fastforce
  obtain r2 v2 where st2: "stage_if_exists E (path @ ''-wal'') v1 = (r2, v2)" by fastforce
  obtain r3 v3 where st3: "stage_if_exists E (path @ ''-shm'') v2 = (r3, v3)" by fastforce
  have fr: "vd_files (v_disk v3) = vd_files (v_disk v)" "v_active v3 = v_active v" "pending_keys v3 = pending_keys v"
    "map_option pv_salt (v_pending v3) = map_option pv_salt (v_pending v)"
    using stage_backup_frame [OF st1] stage_if_exists_frame [OF st2] stage_if_exists_frame [OF st3] by simp_all
  obtain res Gs where g: "ve_sql_rekey E ?old ?new path (vd_files (v_disk v)) = (res, Gs)" by fastforce
  from run Rekey_Db keys st1 st2 st3 g have res: "res = Inr ()" and v': "v' = write_steps Gs v3"
    by (auto simp: rekey_db_def vthen_def fr(1) split: sum.splits)
  have files: "vd_files (v_disk v') = last (vd_files (v_disk v) # Gs)" unfolding v' write_steps_files fr(1) ..
  obtain rest where rest: "rows ?old path (vd_files (v_disk v)) = Inr rest" "rows ?new path (vd_files (v_disk v')) = Inr rest"
    using sql(2) g res unfolding sql_keeps_def files by metis
  have "vd_files (v_disk v') q = vd_files (v_disk v) q" if "q \<notin> set (touched op)" for q
  proof (cases "Gs = []")
    case False
    then have "last Gs \<in> set (snd (ve_sql_rekey E ?old ?new path (vd_files (v_disk v))))" using g by simp
    moreover have "q \<notin> insert path (side_files path)" using that Rekey_Db by (simp add: side_files_def)
    ultimately have "last Gs q = vd_files (v_disk v) q" using sql(1) unfolding sql_ok_def by blast
    with False files show ?thesis by simp
  qed (use files in simp)
  moreover have "active_keys v' = Inr old" "pending_keys v' = Inr new" "map_option pv_salt (v_pending v') = map_option pv_salt (v_pending v)"
    using keys fr by (simp_all add: v' active_keys_def write_steps_pending)
  ultimately show ?thesis using rest Rekey_Db by simp
qed

lemma plain_of_cong: "sql_keeps E rows \<Longrightarrow> (\<And>q. q \<in> set (touched op) \<Longrightarrow> G q = H q) \<Longrightarrow> plain_of E rows keys G op = plain_of E rows keys H op"
proof (cases op)
  case (Rekey_Db p)
  moreover assume "sql_keeps E rows" "\<And>q. q \<in> set (touched op) \<Longrightarrow> G q = H q"
  ultimately have "rows key p G = rows key p H" for key
    unfolding sql_keeps_def side_files_def by auto
  with Rekey_Db show ?thesis by simp
qed simp_all

lemma rekey_all_contents:
  assumes ok: "aead_ok (ve_aead E)" "rng_ok (ve_rng E)" and sql: "sql_ok E" "sql_keeps E rows"
    and "active_keys v = Inr old" "pending_keys v = Inr new" "rekey_all E ops v = (Inr (), v')"
    and "distinct (concat (map touched ops))"
  shows "(\<forall>op \<in> set ops. \<exists>plaintext. plain_of E rows (Inr old) (vd_files (v_disk v)) op = Inr plaintext \<and>
      plain_of E rows (Inr new) (vd_files (v_disk v')) op = Inr plaintext) \<and>
    (\<forall>q. q \<notin> set (concat (map touched ops)) \<longrightarrow> vd_files (v_disk v') q = vd_files (v_disk v) q) \<and>
    active_keys v' = Inr old \<and> pending_keys v' = Inr new \<and> map_option pv_salt (v_pending v') = map_option pv_salt (v_pending v)"
  using assms(5-)
proof (induction ops arbitrary: v)
  case (Cons op ops)
  obtain v1 where run: "apply_rekey E op v = (Inr (), v1)" and rest: "rekey_all E ops v1 = (Inr (), v')"
    using Cons.prems(3) by (auto simp: vthen_def split: prod.splits sum.splits)
  from apply_rekey_contents [OF ok Cons.prems(1,2) sql run] obtain plaintext where
    one: "plain_of E rows (Inr old) (vd_files (v_disk v)) op = Inr plaintext" "plain_of E rows (Inr new) (vd_files (v_disk v1)) op = Inr plaintext"
    and same: "\<And>q. q \<notin> set (touched op) \<Longrightarrow> vd_files (v_disk v1) q = vd_files (v_disk v) q"
    and k: "active_keys v1 = Inr old" "pending_keys v1 = Inr new" "map_option pv_salt (v_pending v1) = map_option pv_salt (v_pending v)"
    by blast
  have "distinct (concat (map touched ops))" and away: "set (touched op) \<inter> set (concat (map touched ops)) = {}"
    using Cons.prems(4) by simp_all
  note ih = Cons.IH [OF k(1,2) rest this(1)]
  have "plain_of E rows (Inr new) (vd_files (v_disk v')) op = Inr plaintext"
  proof -
    have "vd_files (v_disk v') q = vd_files (v_disk v1) q" if "q \<in> set (touched op)" for q using ih away that by blast
    then have "plain_of E rows (Inr new) (vd_files (v_disk v')) op = plain_of E rows (Inr new) (vd_files (v_disk v1)) op"
      by (rule plain_of_cong [OF sql(2)])
    with one(2) show ?thesis by simp
  qed
  moreover have "plain_of E rows (Inr old) (vd_files (v_disk v1)) o2 = plain_of E rows (Inr old) (vd_files (v_disk v)) o2" if "o2 \<in> set ops" for o2
  proof (rule plain_of_cong [OF sql(2)])
    fix q assume "q \<in> set (touched o2)"
    then have "q \<in> set (concat (map touched ops))" using that by auto
    with away show "vd_files (v_disk v1) q = vd_files (v_disk v) q" by (intro same) blast
  qed
  ultimately show ?case using one ih same k by auto
qed simp

text \<open>
  C8. After a completed change of the PIN the new PIN opens the vault in a new process, every
  rewritten file, attachment and database holds under the new keys what it held under the old ones,
  and every other file has the same bytes. Each file is rewritten once, and the side files of a
  database count to it; what SQLCipher does is assumed in \<open>sql_ok\<close> and \<open>sql_keeps\<close>.
\<close>

theorem pin_change_keeps_files:
  assumes ok: "aead_ok (ve_aead E)" "rng_ok (ve_rng E)" "crypto_ok (ve_crypto E)" and old: "v_active v = Some old"
    and sql: "sql_ok E" "sql_keeps E rows"
    and run: "vthen (rekey_begin E pin) (\<lambda>_. vthen (rekey_all E ops) (\<lambda>_. rekey_commit E)) v = (Inr (), v3)"
    and ops: "distinct (concat (map touched ops))"
  shows "\<exists>v4 new. unlock E now pin (restarted r (v_disk v3)) = (Inr (), v4) \<and> active_keys v4 = Inr new \<and>
    (\<forall>op \<in> set ops. \<exists>plaintext. plain_of E rows (Inr old) (vd_files (v_disk v)) op = Inr plaintext \<and>
       plain_of E rows (Inr new) (vd_files (v_disk v4)) op = Inr plaintext) \<and>
    (\<forall>q. q \<notin> set (concat (map touched ops)) \<longrightarrow> vd_files (v_disk v4) q = vd_files (v_disk v) q)"
proof -
  obtain v1 v2 where b: "rekey_begin E pin v = (Inr (), v1)" and a: "rekey_all E ops v1 = (Inr (), v2)" and c: "rekey_commit E v2 = (Inr (), v3)"
    using run by (auto simp: vthen_def split: prod.splits sum.splits)
  obtain salt x where f: "fill_bytes (ve_rng E) SALT_LEN (v_rand v) = (salt, x)" by fastforce
  then have len: "length salt = SALT_LEN" using ok(2) unfolding rng_ok_def by (metis fst_conv)
  obtain master where m: "ve_argon2 E pin salt = Inr master" and v1: "map_option pv_salt (v_pending v1) = Some salt"
    "pending_keys v1 = Inr (vault_keys_of E master)" "active_keys v1 = Inr old" "vd_files (v_disk v1) = vd_files (v_disk v)"
    using b old f
    by (auto simp: rekey_begin_def vthen_def write_disk_def save_manifest_def write_staging_def pending_keys_def active_keys_def Let_def
        split: if_splits sum.splits)
  note all = rekey_all_contents [OF ok(1,2) sql v1(3,2) a ops, unfolded v1(1,4)]
  obtain p where p: "v_pending v2 = Some p" "pv_keys p = vault_keys_of E master" "pv_salt p = salt"
    using all by (auto simp: pending_keys_def split: option.splits)
  let ?k = "json_key (vault_keys_of E master)"
  obtain nonce y where n: "fill_bytes (ve_rng E) 12 (v_rand v2) = (nonce, y)" by fastforce
  with ok(2) have nlen: "length nonce = 12" unfolding rng_ok_def by (metis fst_conv)
  from c p n obtain sealed where s: "aead_seal (ve_aead E) ?k nonce [] VERIFIER_PLAINTEXT = Some sealed"
    and d3: "vd_state (v_disk v3) = Some (Inr (new_fresh E salt (nonce @ sealed)))" "vd_files (v_disk v3) = vd_files (v_disk v2)"
    by (auto simp: rekey_commit_def vthen_def vseal_def encrypt_def encrypt_aad_def save_state_def write_disk_def split: option.splits)
  have op: "aead_open (ve_aead E) ?k nonce [] sealed = Some VERIFIER_PLAINTEXT" using ok(1) s unfolding aead_ok_def by blast
  have b64: "b64_decode (ve_crypto E) (b64_encode (ve_crypto E) bs) = Inr bs" for bs using ok(3) by (simp add: crypto_ok_def)
  have "verify_state_pin E (new_fresh E salt (nonce @ sealed)) pin = Inr master"
    using b64 len m op nlen
    by (simp add: verify_state_pin_def state_salt_def state_verifier_def new_fresh_def with_context_def vopen_def decrypt_def decrypt_aad_def)
  moreover have "lockout_remaining (new_fresh E salt (nonce @ sealed)) now = 0" by (simp add: lockout_remaining_def new_fresh_def)
  ultimately obtain v4 where "unlock E now pin (restarted r (v_disk v3)) = (Inr (), v4)" "active_keys v4 = Inr (vault_keys_of E master)"
    "vd_files (v_disk v4) = vd_files (v_disk v2)"
    using d3 by (simp add: unlock_def try_pin_def restarted_def vthen_def save_state_def write_disk_def install_master_def active_keys_def)
  with all show ?thesis by auto
qed

section \<open>A file that is rewritten twice\<close>

text \<open>
  C39. The backup of a file is overwritten when the file is rewritten a second time in the same
  transaction, as after a retry: the second attempt fails, because the file is already under the
  new key, and the abort then brings back the file under the new key, which the vault forgets.
\<close>

theorem rekey_retry_loses_file:
  assumes p: "v_pending v = Some p" "pv_keys p = new" "pv_manifest p = \<lparr>mf_salt_b64 = b, mf_entries = []\<rparr>"
    and s: "vd_staging (v_disk v) = Some \<lparr>st_manifest = Some \<lparr>mf_salt_b64 = b, mf_entries = []\<rparr>, st_backups = Map.empty\<rparr>"
    and ok: "aead_ok (ve_aead E)" "rng_ok (ve_rng E)" and old: "v_active v = Some old"
    and differ: "\<And>c plaintext. decrypt_json_bytes E (Inr new) c = Inr plaintext \<Longrightarrow> \<exists>e. decrypt_json_bytes E (Inr old) c = Inl e"
    and first: "rekey_file E path v = (Inr (), v1)"
  shows "\<exists>e v2 c plaintext. rekey_file E path v1 = (Inl e, v2) \<and> vd_files (v_disk (rekey_abort v2)) path = Some c \<and> v_active (rekey_abort v2) = Some old \<and>
    v_pending (rekey_abort v2) = None \<and> decrypt_json_from_disk E path v = Inr plaintext \<and>
    decrypt_json_bytes E (Inr new) c = Inr plaintext \<and> decrypt_json_bytes E (Inr old) c = Inl e"
proof -
  let ?b = "backup_filename_for E path"
  let ?m = "\<lparr>mf_salt_b64 = b, mf_entries = [\<lparr>en_orig = path, en_backup = ?b\<rparr>]\<rparr>"
  let ?p = "p\<lparr>pv_manifest := ?m\<rparr>"
  have keys: "pending_keys v = Inr new" using p by (simp add: pending_keys_def)
  obtain c0 where c0: "vd_files (v_disk v) path = Some c0"
  proof (cases "vd_files (v_disk v) path")
    case None
    obtain r1 w where st: "stage_backup E path v = (r1, w)" by fastforce
    with stage_backup_frame [OF st] None keys first show ?thesis
      by (auto simp: rekey_file_def vthen_def [of "stage_backup E path"] decrypt_json_from_disk_def read_file_def split: sum.splits)
  qed (use that in simp)
  define w where "w = (snd (stage_backup E path v))"
  have w: "stage_backup E path v = (Inr (), w)" "v_pending w = Some ?p" "vd_files (v_disk w) = vd_files (v_disk v)"
    "vd_staging (v_disk w) = Some \<lparr>st_manifest = Some ?m, st_backups = [?b \<mapsto> c0]\<rparr>" "v_active w = Some old"
    using p s c0 old by (simp_all add: w_def stage_backup_def vthen_def write_staging_def write_disk_def record_entry_def save_manifest_def
        put_entry_def Let_def)
  from first keys w(1) obtain plaintext where d: "decrypt_json_from_disk E path w = Inr plaintext"
    and wr: "vthen (seal_file E (json_key new) plaintext) (write_file path) w = (Inr (), v1)"
    by (auto simp: rekey_file_def vthen_def [of "stage_backup E path"] split: sum.splits)
  obtain c u where c: "seal_file E (json_key new) plaintext w = (Inr c, u)" using rewritten [OF wr] by blast
  have v1: "vd_files (v_disk v1) path = Some c" "v_pending v1 = Some ?p" "v_active v1 = Some old"
    "vd_staging (v_disk v1) = Some \<lparr>st_manifest = Some ?m, st_backups = [?b \<mapsto> c0]\<rparr>"
    using wr c w seal_file_same [OF c] by (auto simp: vthen_def write_file_def write_disk_def)
  define w1 where "w1 = snd (stage_backup E path v1)"
  have w1: "stage_backup E path v1 = (Inr (), w1)" "v_pending w1 = Some ?p" "vd_files (v_disk w1) = vd_files (v_disk v1)"
    "vd_staging (v_disk w1) = Some \<lparr>st_manifest = Some ?m, st_backups = [?b \<mapsto> c]\<rparr>" "v_active w1 = Some old"
    using v1 by (simp_all add: w1_def stage_backup_def vthen_def write_staging_def write_disk_def record_entry_def save_manifest_def
        put_entry_def Let_def)
  have k1: "pending_keys v1 = Inr new" using v1 p by (simp add: pending_keys_def)
  have now: "decrypt_json_bytes E (Inr new) c = Inr plaintext" using seal_open [OF ok c] by (simp add: decrypt_json_bytes_def)
  have dec: "decrypt_json_from_disk E path w1 = decrypt_json_bytes E (Inr old) c"
    using w1 v1 by (simp add: decrypt_json_from_disk_def read_file_def active_keys_def)
  obtain e where e: "decrypt_json_bytes E (Inr old) c = Inl e" using differ [OF now] by blast
  have run: "rekey_file E path v1 = (Inl e, w1)" using k1 w1(1) dec e by (simp add: rekey_file_def vthen_def)
  have "decrypt_json_from_disk E path v = Inr plaintext"
    using d w(3,5) old by (simp add: decrypt_json_from_disk_def read_file_def active_keys_def)
  moreover have "vd_files (v_disk (rekey_abort w1)) path = Some c" "v_active (rekey_abort w1) = Some old" "v_pending (rekey_abort w1) = None"
    using w1(2,4,5) by (simp_all add: rekey_abort_def restore_from_manifest_def remove_staging_def write_disk_def)
  ultimately show ?thesis using run now e by blast
qed

end
