(* ===== verification/Vault_Policy.thy ===== *)
theory Vault_Policy
  imports Vault_Props Demo_Server
begin

text \<open>
  How many wrong PINs the vault tries, and when; the witnesses of the theorems about the change of
  the PIN.
\<close>

section \<open>Wrong PINs\<close>

datatype pin_use = For_Unlock | For_Check

fun pin_step :: "'r vault_env \<Rightarrow> pin_use \<times> int \<times> string \<Rightarrow> 'r vault \<Rightarrow> unit res \<times> 'r vault" where
  "pin_step E (For_Unlock, now, pin) v = unlock E now pin v"
| "pin_step E (For_Check, now, pin) v = verify_pin E now pin v"

text \<open>The times at which a PIN was compared with the verifier and refused.\<close>

fun guess_times :: "'r vault_env \<Rightarrow> (pin_use \<times> int \<times> string) list \<Rightarrow> 'r vault \<Rightarrow> int list" where
  "guess_times E [] v = []"
| "guess_times E (a # as) v =
     (case pin_step E a v of (r, v') \<Rightarrow> (if r = Inl ''wrong_pin'' then [fst (snd a)] else []) @ guess_times E as v')"

definition lock_until :: "nat \<Rightarrow> int \<Rightarrow> int option" where
  "lock_until n t = (case lockout_for_failures n of Lockout_For secs \<Rightarrow> Some (t + int secs * 1000000000) | _ \<Rightarrow> None)"

text \<open>The policy: at most 21 guesses in one process, each after the delay of the one before, less one second.\<close>

fun guesses_ok :: "nat \<Rightarrow> int option \<Rightarrow> int list \<Rightarrow> bool" where
  "guesses_ok n until [] \<longleftrightarrow> True"
| "guesses_ok n until (t # ts) \<longleftrightarrow>
     n \<le> 20 \<and> (case until of None \<Rightarrow> True | Some u \<Rightarrow> u < t + 1000000000) \<and> guesses_ok (Suc n) (lock_until (Suc n) t) ts"

lemma guesses_ok_length: "guesses_ok n until ts \<Longrightarrow> length ts \<le> 21 - n"
  by (induction ts arbitrary: n until) (auto simp: Suc_diff_le, fastforce)

lemma lockout_free: "lockout_remaining st now = 0 \<longleftrightarrow> (case vs_lockout st of None \<Rightarrow> True | Some u \<Rightarrow> u < now + 1000000000)"
proof (cases "vs_lockout st")
  case (Some u)
  have "nat ((u - now) div 1000000000) = 0 \<longleftrightarrow> u < now + 1000000000" if "now < u"
    using that pos_imp_zdiv_pos_iff [of 1000000000 "u - now"] by auto
  with Some show ?thesis by (auto simp: lockout_remaining_def)
qed (simp add: lockout_remaining_def)

lemma verify_state_pin_cong:
  "vs_salt_b64 st = vs_salt_b64 st' \<Longrightarrow> vs_verifier_b64 st = vs_verifier_b64 st' \<Longrightarrow> verify_state_pin E st pin = verify_state_pin E st' pin"
  by (simp add: verify_state_pin_def state_salt_def state_verifier_def)

lemma failed_state:
  assumes "apply_failed_attempt now st = (st', ex)" and "unat (vs_failed st) \<le> 20"
  shows "unat (vs_failed st') = Suc (unat (vs_failed st))" and "vs_lockout st' = lock_until (Suc (unat (vs_failed st))) now"
    and "ex \<longleftrightarrow> unat (vs_failed st) = 20" and "vs_salt_b64 st' = vs_salt_b64 st" and "vs_verifier_b64 st' = vs_verifier_b64 st"
proof -
  have n: "unat (sat_add (vs_failed st) 1) = Suc (unat (vs_failed st))"
    using assms(2) by (simp add: unat_sat_add)
  then have "vs_failed st' = sat_add (vs_failed st) 1"
    using assms(1) by (auto simp: apply_failed_attempt_def Let_def split: lockout_action.splits)
  with n show "unat (vs_failed st') = Suc (unat (vs_failed st))" by simp
  show "vs_lockout st' = lock_until (Suc (unat (vs_failed st))) now" "ex \<longleftrightarrow> unat (vs_failed st) = 20"
    "vs_salt_b64 st' = vs_salt_b64 st" "vs_verifier_b64 st' = vs_verifier_b64 st"
    using assms n by (auto simp: apply_failed_attempt_def Let_def lock_until_def lockout_for_failures_def split: if_splits)
qed

lemma pin_step_wrong:
  assumes st: "vd_state (v_disk v) = Some (Inr st)" and wrong: "verify_state_pin E st (snd (snd a)) = Inl e"
  shows "pin_step E a v = (if v_exhausted v \<or> lockout_remaining st (fst (snd a)) \<noteq> 0 then (Inl ''locked_out'', v)
    else let (st', ex) = apply_failed_attempt (fst (snd a)) st
         in (Inl ''wrong_pin'', snd (save_state st' (v\<lparr>v_exhausted := v_exhausted v \<or> ex\<rparr>))))"
proof (cases a)
  case (fields u t pin)
  then show ?thesis
    using assms by (cases u) (auto simp: unlock_def verify_pin_def try_pin_def vthen_def save_state_def write_disk_def split: prod.split)
qed

lemma guesses_limited:
  assumes "vd_state (v_disk v) = Some (Inr st)" and "\<forall>a \<in> set as. \<exists>e. verify_state_pin E st (snd (snd a)) = Inl e"
    and "v_exhausted v \<or> unat (vs_failed st) \<le> 20"
  shows "(v_exhausted v \<longrightarrow> guess_times E as v = []) \<and> guesses_ok (unat (vs_failed st)) (vs_lockout st) (guess_times E as v)"
  using assms
proof (induction as arbitrary: v st)
  case (Cons a as)
  obtain e where e: "verify_state_pin E st (snd (snd a)) = Inl e" using Cons.prems(2) by auto
  have rest: "\<forall>a \<in> set as. \<exists>e. verify_state_pin E st (snd (snd a)) = Inl e" using Cons.prems(2) by simp
  note step = pin_step_wrong [OF Cons.prems(1) e]
  show ?case
  proof (cases "v_exhausted v \<or> lockout_remaining st (fst (snd a)) \<noteq> 0")
    case True
    with step Cons.IH [OF Cons.prems(1) rest Cons.prems(3)] show ?thesis by auto
  next
    case False
    obtain st' ex where f: "apply_failed_attempt (fst (snd a)) st = (st', ex)" by fastforce
    define w where "w = snd (save_state st' (v\<lparr>v_exhausted := v_exhausted v \<or> ex\<rparr>))"
    have w: "vd_state (v_disk w) = Some (Inr st')" "v_exhausted w = ex" using False by (simp_all add: w_def save_state_def)
    have low: "unat (vs_failed st) \<le> 20" using False Cons.prems(3) by auto
    note fs = failed_state [OF f low]
    have run: "pin_step E a v = (Inl ''wrong_pin'', w)" using step False f by (simp add: w_def)
    have "\<forall>a \<in> set as. \<exists>e. verify_state_pin E st' (snd (snd a)) = Inl e"
      using rest verify_state_pin_cong [OF fs(4,5), of E] by simp
    moreover have "v_exhausted w \<or> unat (vs_failed st') \<le> 20" using w(2) fs(1,3) low by auto
    ultimately have "guesses_ok (unat (vs_failed st')) (vs_lockout st') (guess_times E as w)" using Cons.IH [OF w(1)] by blast
    with run False low fs(1,2) show ?thesis using lockout_free [of st "fst (snd a)"] by auto
  qed
qed simp

text \<open>
  C9. Wrong PINs, whether given to unlock the vault or to check a PIN: from a stored count of at
  most 20, one process compares at most 21 minus that count of them with the verifier, and after the
  sixth, eleventh and sixteenth failure each comparison waits for the 30 seconds, 5 or 30 minutes of the policy
  (one second less, since the remaining time is counted in whole seconds).
\<close>

theorem pin_guesses_limited:
  assumes "vd_state (v_disk v) = Some (Inr st)" and "\<forall>a \<in> set as. \<exists>e. verify_state_pin E st (snd (snd a)) = Inl e"
    and "\<not> v_exhausted v" and "unat (vs_failed st) \<le> 20"
  shows "guesses_ok (unat (vs_failed st)) (vs_lockout st) (guess_times E as v) \<and>
    length (guess_times E as v) \<le> 21 - unat (vs_failed st)"
  using guesses_limited [OF assms(1,2)] assms(3,4) guesses_ok_length by blast

section \<open>A concrete vault\<close>

text \<open>A database begins with the first bytes of its key.\<close>

definition demo_rows :: "bytes \<Rightarrow> string \<Rightarrow> (string \<rightharpoonup> bytes) \<Rightarrow> bytes res" where
  "demo_rows key path F =
     (case F path of None \<Rightarrow> Inl ''no such file'' | Some b \<Rightarrow> if take 4 b = take 4 key then Inr (drop 4 b) else Inl ''not a database'')"

definition demo_sql :: "bytes \<Rightarrow> bytes \<Rightarrow> string \<Rightarrow> (string \<rightharpoonup> bytes) \<Rightarrow> unit res \<times> (string \<rightharpoonup> bytes) list" where
  "demo_sql old new path F =
     (case demo_rows old path F of
        Inl e \<Rightarrow> (Inl e, [])
      | Inr rest \<Rightarrow> if length new = 32 then (Inr (), [F(path \<mapsto> take 4 new @ rest)]) else (Inl ''bad key'', []))"

definition demo_vault_env :: "nat vault_env" where
  "demo_vault_env = \<lparr>ve_crypto = demo_crypto, ve_hkdf = (\<lambda>salt key info. take 32 (take 4 key @ info @ replicate 32 0)),
     ve_argon2 = (\<lambda>pin salt. Inr (take 32 (as_bytes pin @ salt @ replicate 32 0))), ve_aead = demo_aead,
     ve_rng = \<lparr>next_u32 = (\<lambda>r. (of_nat r, Suc r)), fill_bytes = (\<lambda>n r. (replicate n (of_nat r), Suc r))\<rparr>,
     ve_sql_rekey = demo_sql, ve_wrap = (\<lambda>module_path pin. Inr), ve_unwrap = (\<lambda>module_path pin. Inr)\<rparr>"

definition demo_vault_keys :: "string \<Rightarrow> vault_keys" where
  "demo_vault_keys pin = vault_keys_of demo_vault_env (as_bytes pin)"

definition demo_vault_file :: bytes where
  "demo_vault_file = FILE_MAGIC @ replicate 12 9 @ as_bytes ''hi'' @ replicate 12 9 @ as_bytes ''1234''"

definition demo_vault_state :: vault_state where
  "demo_vault_state = new_fresh demo_vault_env (replicate 16 0) (replicate 12 1 @ VERIFIER_PLAINTEXT @ replicate 12 1 @ as_bytes ''1234'')"

definition demo_vault :: "nat vault" where
  "demo_vault =
     (let d = \<lparr>vd_state = Some (Inr demo_vault_state), vd_files = [''a'' \<mapsto> demo_vault_file, ''b'' \<mapsto> [1], ''d'' \<mapsto> as_bytes ''1234rows''], vd_staging = None\<rparr>
      in \<lparr>v_active = Some (demo_vault_keys ''1234''), v_pending = None, v_exhausted = False, v_rand = 3, v_disk = d, v_trail = [d]\<rparr>)"

lemma demo_vault_env_ok: "aead_ok (ve_aead demo_vault_env)" "rng_ok (ve_rng demo_vault_env)" "crypto_ok (ve_crypto demo_vault_env)"
    "sql_ok demo_vault_env"
  by (simp_all add: demo_vault_env_def demo_aead_ok rng_ok_def sql_ok_def demo_sql_def split: sum.split)

lemma demo_sql_keeps: "sql_keeps demo_vault_env demo_rows"
  by (auto simp: sql_keeps_def demo_vault_env_def demo_sql_def demo_rows_def split: option.splits if_splits)

lemma demo_vault_simps: "vd_state (v_disk demo_vault) = Some (Inr demo_vault_state)" "vd_staging (v_disk demo_vault) = None"
    "v_trail demo_vault = [v_disk demo_vault]" "v_pending demo_vault = None" "\<not> v_exhausted demo_vault" "v_rand demo_vault = 3"
    "v_active demo_vault = Some (demo_vault_keys ''1234'')" "vs_failed demo_vault_state = 0"
  by (simp_all add: demo_vault_def Let_def demo_vault_state_def new_fresh_def)

theorem pin_guesses_limited_witness:
  "guess_times demo_vault_env [(For_Unlock, 5, ''0000''), (For_Check, 6, ''0001'')] demo_vault = [5, 6] \<and>
   length (guess_times demo_vault_env [(For_Unlock, 5, ''0000''), (For_Check, 6, ''0001'')] demo_vault) \<le> 21"
proof
  show "guess_times demo_vault_env [(For_Unlock, 5, ''0000''), (For_Check, 6, ''0001'')] demo_vault = [5, 6]" by code_simp
  have "verify_state_pin demo_vault_env demo_vault_state ''0000'' = Inl ''vault: wrong pin''"
    "verify_state_pin demo_vault_env demo_vault_state ''0001'' = Inl ''vault: wrong pin''"
    by code_simp+
  then show "length (guess_times demo_vault_env [(For_Unlock, 5, ''0000''), (For_Check, 6, ''0001'')] demo_vault) \<le> 21"
    using pin_guesses_limited [OF demo_vault_simps(1), of "[(For_Unlock, 5, ''0000''), (For_Check, 6, ''0001'')]" demo_vault_env]
      demo_vault_simps(5,8) by auto
qed

abbreviation demo_change :: "unit res \<times> nat vault" where
  "demo_change \<equiv> vthen (rekey_begin demo_vault_env ''5678'') (\<lambda>_. rekey_all demo_vault_env [Rekey_File ''a'']) demo_vault"

theorem rekey_crash_safe_witness:
  "fst demo_change = Inr () \<and> vd_files (v_disk (snd demo_change)) ''a'' \<noteq> Some demo_vault_file \<and>
   brought_back (vd_files (v_disk demo_vault)) demo_vault_state {} (rekey_abort (snd demo_change)) \<and>
   (\<exists>v'. recover_pending_rekey (restarted 0 (v_trail (snd demo_change) ! 5)) = (Inr (), v') \<and>
     brought_back (vd_files (v_disk demo_vault)) demo_vault_state {} v')"
proof -
  have run: "demo_change = (fst demo_change, snd demo_change)" by simp
  have "fst demo_change = Inr ()" by code_simp
  moreover have "vd_files (v_disk (snd demo_change)) ''a'' \<noteq> Some demo_vault_file" by code_simp
  moreover have "\<not> Option.is_none (v_pending (snd demo_change))" by code_simp
  then have pend: "v_pending (snd demo_change) \<noteq> None" by (simp add: Option.is_none_def)
  have salt: "b64_encode (ve_crypto demo_vault_env) (fst (fill_bytes (ve_rng demo_vault_env) SALT_LEN (v_rand demo_vault))) \<noteq>
      vs_salt_b64 demo_vault_state"
    by code_simp
  have once: "distinct (concat (map touched [Rekey_File ''a'']))"
    "inj_on (backup_filename_for demo_vault_env) (set (concat (map touched [Rekey_File ''a''])))" by simp_all
  note safe = rekey_crash_safe [OF demo_vault_simps(1-4) salt demo_vault_env_ok(4) once run refl refl, of 0]
  have X: "\<Union> (new_sides (vd_files (v_disk demo_vault)) ` set [Rekey_File ''a'']) = {}" by simp
  have "length (v_trail (snd demo_change)) = 6" by code_simp
  then have "v_trail (snd demo_change) ! 5 \<in> set (v_trail (snd demo_change))" by (intro nth_mem) simp
  then have "\<exists>v'. recover_pending_rekey (restarted 0 (v_trail (snd demo_change) ! 5)) = (Inr (), v') \<and>
     brought_back (vd_files (v_disk demo_vault)) demo_vault_state {} v'"
    by (rule rev_mp [OF bspec [OF conjunct1 [OF safe [unfolded X, of 0]]]]) (rule impI, elim exE conjE, intro exI conjI)
  moreover have "brought_back (vd_files (v_disk demo_vault)) demo_vault_state {} (rekey_abort (snd demo_change))"
    by (rule mp [OF conjunct2 [OF safe [unfolded X, of 0]] pend])
  ultimately show ?thesis by (intro conjI)
qed

abbreviation demo_ops :: "rekey_op list" where
  "demo_ops \<equiv> [Rekey_File ''a'', Rekey_Db ''d'']"

abbreviation demo_full_change :: "unit res \<times> nat vault" where
  "demo_full_change \<equiv> vthen (rekey_begin demo_vault_env ''5678'')
     (\<lambda>_. vthen (rekey_all demo_vault_env demo_ops) (\<lambda>_. rekey_commit demo_vault_env)) demo_vault"

theorem pin_change_keeps_files_witness:
  "fst demo_full_change = Inr () \<and>
   (\<exists>v4 new. unlock demo_vault_env 0 ''5678'' (restarted 0 (v_disk (snd demo_full_change))) = (Inr (), v4) \<and>
     decrypt_json_from_disk demo_vault_env ''a'' v4 = Inr (as_bytes ''hi'') \<and> active_keys v4 = Inr new \<and>
     demo_rows (db_key new) ''d'' (vd_files (v_disk v4)) = Inr (as_bytes ''rows'') \<and> vd_files (v_disk v4) ''b'' = Some [1])"
proof -
  have f: "fst demo_full_change = Inr ()" by code_simp
  then have run: "demo_full_change = (Inr (), snd demo_full_change)" by (metis prod.collapse)
  have ops: "distinct (concat (map touched demo_ops))" by simp
  have old: "plain_of demo_vault_env demo_rows (Inr (demo_vault_keys ''1234'')) (vd_files (v_disk demo_vault)) (Rekey_File ''a'') = Inr (as_bytes ''hi'')"
    "plain_of demo_vault_env demo_rows (Inr (demo_vault_keys ''1234'')) (vd_files (v_disk demo_vault)) (Rekey_Db ''d'') = Inr (as_bytes ''rows'')"
    by code_simp+
  have b: "vd_files (v_disk demo_vault) ''b'' = Some [1]" by code_simp
  from pin_change_keeps_files [OF demo_vault_env_ok(1-3) demo_vault_simps(7) demo_vault_env_ok(4) demo_sql_keeps run ops, of 0 0] obtain v4 new where
    v4: "unlock demo_vault_env 0 ''5678'' (restarted 0 (v_disk (snd demo_full_change))) = (Inr (), v4)" "active_keys v4 = Inr new"
    "plain_of demo_vault_env demo_rows (Inr new) (vd_files (v_disk v4)) (Rekey_File ''a'') = Inr (as_bytes ''hi'')"
    "plain_of demo_vault_env demo_rows (Inr new) (vd_files (v_disk v4)) (Rekey_Db ''d'') = Inr (as_bytes ''rows'')"
    "vd_files (v_disk v4) ''b'' = Some [1]"
    using old b by auto
  then have "decrypt_json_from_disk demo_vault_env ''a'' v4 = Inr (as_bytes ''hi'')"
    by (simp add: decrypt_json_from_disk_def read_file_def split: option.splits)
  with f v4 show ?thesis by auto
qed

lemma demo_open_key:
  assumes "decrypt demo_aead k data = Inr p" and "4 \<le> length k"
  shows "12 \<le> length data \<and> drop (length data - 4) data = take 4 k"
proof -
  have "12 \<le> length data" and "demo_open k (take 12 data) [] (drop 12 data) = Some p"
    using assms(1) by (auto simp: decrypt_def decrypt_aad_def demo_aead_def split: if_splits option.splits)
  then have "drop 12 data = p @ take 12 data @ take 4 k"
    using assms(2) by (auto simp: demo_open_def demo_seal_def Let_def min_def split: if_splits)
  then have split: "data = (take 12 data @ p @ take 12 data) @ take 4 k" by (metis append.assoc append_take_drop_id)
  have "drop (length xs + length ys - 4) (xs @ ys) = ys" if "length ys = 4" for xs ys :: bytes using that by simp
  from this [of "take 4 k" "take 12 data @ p @ take 12 data"] have "drop (length data - 4) data = take 4 k"
    using assms(2) split by (metis length_append length_take min.absorb2)
  with \<open>12 \<le> length data\<close> show ?thesis by simp
qed

lemma demo_keys_differ:
  assumes c: "decrypt_json_bytes demo_vault_env (Inr k1) c = Inr p"
    and keys: "4 \<le> length (json_key k1)" "4 \<le> length (json_key k2)" "take 4 (json_key k1) \<noteq> take 4 (json_key k2)"
  shows "\<exists>e. decrypt_json_bytes demo_vault_env (Inr k2) c = Inl e"
proof -
  have aead: "ve_aead demo_vault_env = demo_aead" by (simp add: demo_vault_env_def)
  obtain x where x: "strip_magic c = Inr x" "decrypt demo_aead (json_key k1) x = Inr p"
    using c by (auto simp: decrypt_json_bytes_def try_then_Inr_iff vopen_def aead)
  show ?thesis
  proof (cases "decrypt demo_aead (json_key k2) x")
    case (Inl e)
    with x show ?thesis by (simp add: decrypt_json_bytes_def vopen_def aead)
  next
    case (Inr q)
    with demo_open_key [OF x(2) keys(1)] demo_open_key [OF Inr keys(2)] keys(3) show ?thesis by simp
  qed
qed

theorem rekey_retry_loses_file_witness:
  "\<exists>v1 e v2 c. rekey_file demo_vault_env ''a'' (snd (rekey_begin demo_vault_env ''5678'' demo_vault)) = (Inr (), v1) \<and>
     rekey_file demo_vault_env ''a'' v1 = (Inl e, v2) \<and> vd_files (v_disk (rekey_abort v2)) ''a'' = Some c \<and>
     decrypt_json_bytes demo_vault_env (Inr (demo_vault_keys ''1234'')) c = Inl e"
proof -
  let ?v = "snd (rekey_begin demo_vault_env ''5678'' demo_vault)"
  let ?new = "vault_keys_of demo_vault_env (take 32 (as_bytes ''5678'' @ replicate 16 3 @ replicate 32 0))"
  let ?m = "\<lparr>mf_salt_b64 = b64_encode demo_crypto (replicate 16 3), mf_entries = []\<rparr>"
  have v: "v_pending ?v = Some \<lparr>pv_salt = replicate 16 3, pv_keys = ?new, pv_manifest = ?m\<rparr>"
    "vd_staging (v_disk ?v) = Some \<lparr>st_manifest = Some ?m, st_backups = Map.empty\<rparr>" "v_active ?v = Some (demo_vault_keys ''1234'')"
    using demo_vault_simps
    by (simp_all add: rekey_begin_def vthen_def save_manifest_def write_staging_def write_disk_def demo_vault_env_def SALT_LEN_def Let_def)
  have keys: "4 \<le> length (json_key ?new)" "4 \<le> length (json_key (demo_vault_keys ''1234''))"
    "take 4 (json_key ?new) \<noteq> take 4 (json_key (demo_vault_keys ''1234''))" by code_simp+
  have differ: "\<exists>e. decrypt_json_bytes demo_vault_env (Inr (demo_vault_keys ''1234'')) c = Inl e"
    if "decrypt_json_bytes demo_vault_env (Inr ?new) c = Inr plaintext" for c plaintext
    by (rule demo_keys_differ [OF that keys])
  have "fst (rekey_file demo_vault_env ''a'' ?v) = Inr ()" by code_simp
  then have first: "rekey_file demo_vault_env ''a'' ?v = (Inr (), snd (rekey_file demo_vault_env ''a'' ?v))" by (metis prod.collapse)
  have p: "pv_keys \<lparr>pv_salt = replicate 16 3, pv_keys = ?new, pv_manifest = ?m\<rparr> = ?new"
    "pv_manifest \<lparr>pv_salt = replicate 16 3, pv_keys = ?new, pv_manifest = ?m\<rparr> = ?m" by simp_all
  have "\<exists>e v2 c plaintext. rekey_file demo_vault_env ''a'' (snd (rekey_file demo_vault_env ''a'' ?v)) = (Inl e, v2) \<and>
    vd_files (v_disk (rekey_abort v2)) ''a'' = Some c \<and> v_active (rekey_abort v2) = Some (demo_vault_keys ''1234'') \<and>
    v_pending (rekey_abort v2) = None \<and> decrypt_json_from_disk demo_vault_env ''a'' ?v = Inr plaintext \<and>
    decrypt_json_bytes demo_vault_env (Inr ?new) c = Inr plaintext \<and>
    decrypt_json_bytes demo_vault_env (Inr (demo_vault_keys ''1234'')) c = Inl e"
    by (rule rekey_retry_loses_file [OF v(1) p v(2) demo_vault_env_ok(1,2) v(3) _ first]) (rule differ)
  with first show ?thesis by blast
qed

end
