(* ===== verification/Key_Exchange.thy ===== *)
theory Key_Exchange
  imports Client_Crypto Demo_Json Cover_Props
begin

text \<open>
  The agreement on a dialogue key by QR codes (\<open>ParanoiaLibrary/src/qr_exchange.rs\<close>): an invitation, a
  response and the completion on both sides, with the transcript that both keys and fingerprint
  depend on. X25519, HKDF, SHA-256, base64, UUIDs and JSON text are parameters; a time is an \<open>i64\<close>,
  compared signed.
\<close>

section \<open>Parameters\<close>

record x25519 =
  x_public :: "bytes \<Rightarrow> bytes"
  x_shared :: "bytes \<Rightarrow> bytes \<Rightarrow> bytes"

text \<open>
  Keys have 32 bytes, both sides compute the same secret, and two generated keys never give the
  all-zero secret (a clamped scalar is not a multiple of the order of the base point).
\<close>

definition x25519_ok :: "x25519 \<Rightarrow> bool" where
  "x25519_ok X \<longleftrightarrow> (\<forall>a. length (x_public X a) = 32) \<and>
     (\<forall>a b. length a = 32 \<longrightarrow> length b = 32 \<longrightarrow> x_shared X a (x_public X b) = x_shared X b (x_public X a) \<and>
        \<not> list_all (\<lambda>x. x = 0) (x_shared X a (x_public X b)))"

record 'r exchange_env =
  xe_crypto :: crypto_env
  xe_x :: x25519
  xe_hkdf :: hkdf
  xe_rng :: "'r rng"
  xe_uuid :: "'r \<Rightarrow> string \<times> 'r"
  xe_json :: json_codec

definition exchange_ok :: "'r exchange_env \<Rightarrow> bool" where
  "exchange_ok E \<longleftrightarrow> crypto_ok (xe_crypto E) \<and> x25519_ok (xe_x E) \<and> rng_ok (xe_rng E) \<and> (\<forall>r. fst (xe_uuid E r) \<noteq> []) \<and>
     (\<forall>salt ikm info. length (xe_hkdf E salt ikm info) = 32) \<and> json_codec_ok (xe_json E)"

section \<open>Data\<close>

definition EXCHANGE_VERSION :: byte where "EXCHANGE_VERSION = 1"
definition EXCHANGE_TTL_SECS :: u64 where "EXCHANGE_TTL_SECS = 300"
definition EXCHANGE_PROTOCOL :: string where "EXCHANGE_PROTOCOL = ''paranoia.qr-ecdh''"
definition ROLE_INITIATOR :: string where "ROLE_INITIATOR = ''initiator''"
definition ROLE_RESPONDER :: string where "ROLE_RESPONDER = ''responder''"
definition ECDH_ALG :: string where "ECDH_ALG = ''X25519''"
definition KDF_ALG :: string where "KDF_ALG = ''HKDF-SHA256''"
definition KDF_INFO :: bytes where "KDF_INFO = as_bytes ''Paranoia QR ECDH v1 session_key''"

lemma roles_differ [simp]: "ROLE_INITIATOR \<noteq> ROLE_RESPONDER" "ROLE_RESPONDER \<noteq> ROLE_INITIATOR"
  by (simp_all add: ROLE_INITIATOR_def ROLE_RESPONDER_def)

record exchange_payload =
  xp_protocol :: string
  xp_version :: byte
  xp_role :: string
  xp_exchange_id :: string
  xp_initiator_id :: string
  xp_responder_id :: string
  xp_public_key_b64 :: string
  xp_expires_at_unix :: u64
  xp_ecdh :: string
  xp_kdf :: string

record exchange_state =
  xs_protocol :: string
  xs_version :: byte
  xs_role :: string
  xs_exchange_id :: string
  xs_initiator_id :: string
  xs_responder_id :: string
  xs_private_key_b64 :: string
  xs_public_key_b64 :: string
  xs_expires_at_unix :: u64
  xs_ecdh :: string
  xs_kdf :: string

record exchange_bundle =
  bundle_state :: exchange_state
  bundle_payload :: exchange_payload

record completed_exchange =
  cx_exchange_id :: string
  cx_initiator_id :: string
  cx_responder_id :: string
  cx_session_key_b64 :: string
  cx_fingerprint :: string

section \<open>Checks\<close>

definition decode_key32 :: "crypto_env \<Rightarrow> string \<Rightarrow> string \<Rightarrow> bytes res" where
  "decode_key32 C encoded name =
     (case b64_decode C encoded of
        Inl e \<Rightarrow> Inl (''invalid '' @ name @ '' base64'')
      | Inr bs \<Rightarrow> if length bs = 32 then Inr bs else Inl (''invalid '' @ name @ '' length''))"

definition validate_id :: "string \<Rightarrow> string \<Rightarrow> unit res" where
  "validate_id name i = (if i = [] then Inl (name @ '' is empty'') else Inr ())"

definition validate_static_fields :: "string \<Rightarrow> byte \<Rightarrow> string \<Rightarrow> string \<Rightarrow> unit res" where
  "validate_static_fields protocol ver ecdh kdf =
     (if protocol \<noteq> EXCHANGE_PROTOCOL then Inl ''unsupported exchange protocol''
      else if ver \<noteq> EXCHANGE_VERSION then Inl ''unsupported exchange version''
      else if ecdh \<noteq> ECDH_ALG \<or> kdf \<noteq> KDF_ALG then Inl ''unsupported exchange crypto parameters''
      else Inr ())"

definition validate_not_expired :: "u64 \<Rightarrow> u64 \<Rightarrow> unit res" where
  "validate_not_expired expires now = (if sint now > sint expires then Inl ''exchange payload expired'' else Inr ())"

definition validate_payload :: "crypto_env \<Rightarrow> exchange_payload \<Rightarrow> string \<Rightarrow> u64 \<Rightarrow> unit res" where
  "validate_payload C p expected_role now =
     try_then (validate_static_fields (xp_protocol p) (xp_version p) (xp_ecdh p) (xp_kdf p)) (\<lambda>_.
     if xp_role p \<noteq> expected_role then Inl ''unexpected exchange payload role''
     else try_then (validate_id ''exchange_id'' (xp_exchange_id p)) (\<lambda>_.
       try_then (validate_id ''initiator_id'' (xp_initiator_id p)) (\<lambda>_.
       try_then (if expected_role \<noteq> ROLE_INITIATOR then validate_id ''responder_id'' (xp_responder_id p) else Inr ()) (\<lambda>_.
       try_then (decode_key32 C (xp_public_key_b64 p) ''public_key'') (\<lambda>_.
       validate_not_expired (xp_expires_at_unix p) now)))))"

definition validate_state :: "crypto_env \<Rightarrow> exchange_state \<Rightarrow> u64 \<Rightarrow> unit res" where
  "validate_state C s now =
     try_then (validate_static_fields (xs_protocol s) (xs_version s) (xs_ecdh s) (xs_kdf s)) (\<lambda>_.
     if xs_role s \<noteq> ROLE_INITIATOR \<and> xs_role s \<noteq> ROLE_RESPONDER then Inl ''unexpected exchange state role''
     else try_then (validate_id ''exchange_id'' (xs_exchange_id s)) (\<lambda>_.
       try_then (validate_id ''initiator_id'' (xs_initiator_id s)) (\<lambda>_.
       try_then (if xs_role s \<noteq> ROLE_INITIATOR then validate_id ''responder_id'' (xs_responder_id s) else Inr ()) (\<lambda>_.
       try_then (decode_key32 C (xs_private_key_b64 s) ''private_key'') (\<lambda>_.
       try_then (decode_key32 C (xs_public_key_b64 s) ''public_key'') (\<lambda>_.
       validate_not_expired (xs_expires_at_unix s) now))))))"

text \<open>An invitation may leave the responder open; two names that are given must be the same.\<close>

definition validate_pair :: "exchange_state \<Rightarrow> exchange_payload \<Rightarrow> unit res" where
  "validate_pair s p =
     (if xs_exchange_id s \<noteq> xp_exchange_id p then Inl ''exchange_id mismatch''
      else if xs_initiator_id s \<noteq> xp_initiator_id p then Inl ''initiator_id mismatch''
      else if xs_responder_id s \<noteq> [] \<and> xp_responder_id p \<noteq> [] \<and> xs_responder_id s \<noteq> xp_responder_id p
      then Inl ''responder_id mismatch''
      else Inr ())"

definition validate_payload_pair :: "exchange_payload \<Rightarrow> exchange_payload \<Rightarrow> unit res" where
  "validate_payload_pair i r =
     (if xp_exchange_id i \<noteq> xp_exchange_id r then Inl ''exchange_id mismatch''
      else if xp_initiator_id i \<noteq> xp_initiator_id r then Inl ''initiator_id mismatch''
      else if xp_responder_id i \<noteq> [] \<and> xp_responder_id i \<noteq> xp_responder_id r then Inl ''responder_id mismatch''
      else Inr ())"

definition reject_known_exchange_id :: "string \<Rightarrow> string list \<Rightarrow> unit res" where
  "reject_known_exchange_id i known = (if i \<in> set known then Inl ''exchange_id already used'' else Inr ())"

section \<open>Transcript\<close>

definition transcript_hash :: "crypto_env \<Rightarrow> string \<Rightarrow> string \<Rightarrow> string \<Rightarrow> string \<Rightarrow> string \<Rightarrow> bytes res" where
  "transcript_hash C exchange_id initiator_id responder_id initiator_pub_b64 responder_pub_b64 =
     try_then (decode_key32 C initiator_pub_b64 ''initiator_public_key'') (\<lambda>initiator_pub.
     try_then (decode_key32 C responder_pub_b64 ''responder_public_key'') (\<lambda>responder_pub.
     Inr (sha256 C ([EXCHANGE_VERSION] @ as_bytes exchange_id @ as_bytes initiator_id @ as_bytes responder_id @
       initiator_pub @ responder_pub))))"

text \<open>The first three bytes of the hash, as six decimal digits.\<close>

definition fingerprint_from_hash :: "bytes \<Rightarrow> string" where
  "fingerprint_from_hash hash =
     (let raw = (ucast (hash ! 0) * 65536 OR ucast (hash ! 1) * 256 OR ucast (hash ! 2)) mod (1000000 :: u32);
          text = show_nat (unat raw)
      in replicate (6 - length text) CHR ''0'' @ text)"

definition fingerprint_for_payloads :: "crypto_env \<Rightarrow> exchange_payload \<Rightarrow> exchange_payload \<Rightarrow> u64 \<Rightarrow> string res" where
  "fingerprint_for_payloads C i r now =
     try_then (validate_payload C i ROLE_INITIATOR now) (\<lambda>_.
     try_then (validate_payload C r ROLE_RESPONDER now) (\<lambda>_.
     try_then (validate_payload_pair i r) (\<lambda>_.
     try_then (transcript_hash C (xp_exchange_id i) (xp_initiator_id i) (xp_responder_id r) (xp_public_key_b64 i) (xp_public_key_b64 r)) (\<lambda>h.
     Inr (fingerprint_from_hash h)))))"

section \<open>The three steps\<close>

definition generate_x25519_keypair :: "'r exchange_env \<Rightarrow> 'r \<Rightarrow> (bytes \<times> bytes) \<times> 'r" where
  "generate_x25519_keypair E r =
     (let (private, r') = fill_bytes (xe_rng E) 32 r in ((private, x_public (xe_x E) private), r'))"

definition exchange_pair :: "crypto_env \<Rightarrow> string \<Rightarrow> string \<Rightarrow> string \<Rightarrow> string \<Rightarrow> bytes \<times> bytes \<Rightarrow> u64 \<Rightarrow> exchange_bundle" where
  "exchange_pair C role exchange_id initiator_id responder_id keypair expires =
     \<lparr>bundle_state = \<lparr>xs_protocol = EXCHANGE_PROTOCOL, xs_version = EXCHANGE_VERSION, xs_role = role, xs_exchange_id = exchange_id,
        xs_initiator_id = initiator_id, xs_responder_id = responder_id, xs_private_key_b64 = b64_encode C (fst keypair),
        xs_public_key_b64 = b64_encode C (snd keypair), xs_expires_at_unix = expires, xs_ecdh = ECDH_ALG, xs_kdf = KDF_ALG\<rparr>,
      bundle_payload = \<lparr>xp_protocol = EXCHANGE_PROTOCOL, xp_version = EXCHANGE_VERSION, xp_role = role, xp_exchange_id = exchange_id,
        xp_initiator_id = initiator_id, xp_responder_id = responder_id, xp_public_key_b64 = b64_encode C (snd keypair),
        xp_expires_at_unix = expires, xp_ecdh = ECDH_ALG, xp_kdf = KDF_ALG\<rparr>\<rparr>"

definition create_invitation :: "'r exchange_env \<Rightarrow> string \<Rightarrow> u64 \<Rightarrow> 'r \<Rightarrow> exchange_bundle res \<times> 'r" where
  "create_invitation E initiator_id now r =
     (case validate_id ''initiator_id'' initiator_id of
        Inl e \<Rightarrow> (Inl e, r)
      | Inr _ \<Rightarrow>
          let (exchange_id, r) = xe_uuid E r; (keypair, r) = generate_x25519_keypair E r
          in (Inr (exchange_pair (xe_crypto E) ROLE_INITIATOR exchange_id initiator_id [] keypair (now + EXCHANGE_TTL_SECS)), r))"

definition create_response :: "'r exchange_env \<Rightarrow> exchange_payload \<Rightarrow> string \<Rightarrow> u64 \<Rightarrow> 'r \<Rightarrow> exchange_bundle res \<times> 'r" where
  "create_response E invitation responder_id now r =
     (case try_then (validate_payload (xe_crypto E) invitation ROLE_INITIATOR now) (\<lambda>_. validate_id ''responder_id'' responder_id) of
        Inl e \<Rightarrow> (Inl e, r)
      | Inr _ \<Rightarrow>
          if xp_responder_id invitation \<noteq> [] \<and> xp_responder_id invitation \<noteq> responder_id then (Inl ''responder_id mismatch'', r)
          else let (keypair, r) = generate_x25519_keypair E r
               in (Inr (exchange_pair (xe_crypto E) ROLE_RESPONDER (xp_exchange_id invitation) (xp_initiator_id invitation) responder_id
                     keypair (now + EXCHANGE_TTL_SECS)), r))"

definition complete_exchange :: "'r exchange_env \<Rightarrow> exchange_state \<Rightarrow> exchange_payload \<Rightarrow> u64 \<Rightarrow> completed_exchange res" where
  "complete_exchange E s p now =
     (let C = xe_crypto E in
      try_then (validate_state C s now) (\<lambda>_.
      try_then (if xs_role s = ROLE_INITIATOR then Inr ROLE_RESPONDER
                else if xs_role s = ROLE_RESPONDER then Inr ROLE_INITIATOR else Inl ''invalid local role'') (\<lambda>expected_peer_role.
      try_then (validate_payload C p expected_peer_role now) (\<lambda>_.
      try_then (validate_pair s p) (\<lambda>_.
      try_then (decode_key32 C (xs_private_key_b64 s) ''private_key'') (\<lambda>private.
      if b64_encode C (x_public (xe_x E) private) \<noteq> xs_public_key_b64 s then Inl ''local public key does not match private key''
      else try_then (decode_key32 C (xp_public_key_b64 p) ''public_key'') (\<lambda>peer_public.
        let shared = x_shared (xe_x E) private peer_public
        in if list_all (\<lambda>b. b = 0) shared then Inl ''non-contributory x25519 shared secret''
           else
             let (initiator_pub, responder_pub) =
                   (if xs_role s = ROLE_INITIATOR then (xs_public_key_b64 s, xp_public_key_b64 p)
                    else (xp_public_key_b64 p, xs_public_key_b64 s));
                 responder_id = (if xs_role s = ROLE_INITIATOR then xp_responder_id p else xs_responder_id s)
             in try_then (transcript_hash C (xs_exchange_id s) (xs_initiator_id s) responder_id initiator_pub responder_pub) (\<lambda>hash.
                Inr \<lparr>cx_exchange_id = xs_exchange_id s, cx_initiator_id = xs_initiator_id s, cx_responder_id = responder_id,
                  cx_session_key_b64 = b64_encode C (xe_hkdf E hash shared KDF_INFO),
                  cx_fingerprint = fingerprint_from_hash hash\<rparr>))))))))"

definition session_key :: "crypto_env \<Rightarrow> completed_exchange \<Rightarrow> bytes res" where
  "session_key C c = decode_key32 C (cx_session_key_b64 c) ''session_key''"

section \<open>Transport form\<close>

definition exchange_payload_json :: "exchange_payload \<Rightarrow> json" where
  "exchange_payload_json p = J_Obj [(''protocol'', J_Str (xp_protocol p)), (''version'', json_of_u8 (xp_version p)), (''role'', J_Str (xp_role p)),
     (''exchange_id'', J_Str (xp_exchange_id p)), (''initiator_id'', J_Str (xp_initiator_id p)), (''responder_id'', J_Str (xp_responder_id p)),
     (''public_key_b64'', J_Str (xp_public_key_b64 p)), (''expires_at_unix'', json_of_i64 (xp_expires_at_unix p)),
     (''ecdh'', J_Str (xp_ecdh p)), (''kdf'', J_Str (xp_kdf p))]"

definition exchange_payload_of_json :: "json \<Rightarrow> exchange_payload res" where
  "exchange_payload_of_json v =
     try_then (struct_fields [''protocol'', ''version'', ''role'', ''exchange_id'', ''initiator_id'', ''responder_id'', ''public_key_b64'',
       ''expires_at_unix'', ''ecdh'', ''kdf''] v) (\<lambda>m.
     try_then (field de_str None ''protocol'' m) (\<lambda>a. try_then (field de_small None ''version'' m) (\<lambda>b.
     try_then (field de_str None ''role'' m) (\<lambda>c. try_then (field de_str None ''exchange_id'' m) (\<lambda>d.
     try_then (field de_str None ''initiator_id'' m) (\<lambda>e. try_then (field de_str None ''responder_id'' m) (\<lambda>f.
     try_then (field de_str None ''public_key_b64'' m) (\<lambda>g. try_then (field de_i64 None ''expires_at_unix'' m) (\<lambda>h.
     try_then (field de_str None ''ecdh'' m) (\<lambda>i. try_then (field de_str None ''kdf'' m) (\<lambda>j.
     Inr \<lparr>xp_protocol = a, xp_version = b, xp_role = c, xp_exchange_id = d, xp_initiator_id = e, xp_responder_id = f,
       xp_public_key_b64 = g, xp_expires_at_unix = h, xp_ecdh = i, xp_kdf = j\<rparr>)))))))))))"

definition payload_from_json :: "'r exchange_env \<Rightarrow> bytes \<Rightarrow> exchange_payload res" where
  "payload_from_json E text =
     try_then (with_context ''invalid exchange payload json'' (try_then (from_slice (xe_json E) text) exchange_payload_of_json)) (\<lambda>p.
     try_then (validate_static_fields (xp_protocol p) (xp_version p) (xp_ecdh p) (xp_kdf p)) (\<lambda>_. Inr p))"

definition exchange_state_json :: "exchange_state \<Rightarrow> json" where
  "exchange_state_json s = J_Obj [(''protocol'', J_Str (xs_protocol s)), (''version'', json_of_u8 (xs_version s)), (''role'', J_Str (xs_role s)),
     (''exchange_id'', J_Str (xs_exchange_id s)), (''initiator_id'', J_Str (xs_initiator_id s)), (''responder_id'', J_Str (xs_responder_id s)),
     (''private_key_b64'', J_Str (xs_private_key_b64 s)), (''public_key_b64'', J_Str (xs_public_key_b64 s)),
     (''expires_at_unix'', json_of_i64 (xs_expires_at_unix s)), (''ecdh'', J_Str (xs_ecdh s)), (''kdf'', J_Str (xs_kdf s))]"

definition exchange_state_of_json :: "json \<Rightarrow> exchange_state res" where
  "exchange_state_of_json v =
     try_then (struct_fields [''protocol'', ''version'', ''role'', ''exchange_id'', ''initiator_id'', ''responder_id'', ''private_key_b64'',
       ''public_key_b64'', ''expires_at_unix'', ''ecdh'', ''kdf''] v) (\<lambda>m.
     try_then (field de_str None ''protocol'' m) (\<lambda>a. try_then (field de_small None ''version'' m) (\<lambda>b.
     try_then (field de_str None ''role'' m) (\<lambda>c. try_then (field de_str None ''exchange_id'' m) (\<lambda>d.
     try_then (field de_str None ''initiator_id'' m) (\<lambda>e. try_then (field de_str None ''responder_id'' m) (\<lambda>f.
     try_then (field de_str None ''private_key_b64'' m) (\<lambda>k. try_then (field de_str None ''public_key_b64'' m) (\<lambda>g.
     try_then (field de_i64 None ''expires_at_unix'' m) (\<lambda>h.
     try_then (field de_str None ''ecdh'' m) (\<lambda>i. try_then (field de_str None ''kdf'' m) (\<lambda>j.
     Inr \<lparr>xs_protocol = a, xs_version = b, xs_role = c, xs_exchange_id = d, xs_initiator_id = e, xs_responder_id = f,
       xs_private_key_b64 = k, xs_public_key_b64 = g, xs_expires_at_unix = h, xs_ecdh = i, xs_kdf = j\<rparr>))))))))))))"

definition state_from_json :: "'r exchange_env \<Rightarrow> bytes \<Rightarrow> exchange_state res" where
  "state_from_json E text =
     try_then (with_context ''invalid exchange state json'' (try_then (from_slice (xe_json E) text) exchange_state_of_json)) (\<lambda>s.
     try_then (validate_static_fields (xs_protocol s) (xs_version s) (xs_ecdh s) (xs_kdf s)) (\<lambda>_. Inr s))"

section \<open>What the checks accept\<close>

lemma decode_key32_Inr: "decode_key32 C e n = Inr k \<longleftrightarrow> b64_decode C e = Inr k \<and> length k = 32"
  by (auto simp: decode_key32_def split: sum.splits)

lemma decode_key32_encode [simp]:
  "crypto_ok C \<Longrightarrow> length k = 32 \<Longrightarrow> decode_key32 C (b64_encode C k) n = Inr k"
  by (simp add: decode_key32_Inr crypto_ok_def)

lemma validate_id_Inr [simp]: "validate_id n i = Inr u \<longleftrightarrow> i \<noteq> []"
  by (simp add: validate_id_def)

definition static_ok :: "string \<Rightarrow> byte \<Rightarrow> string \<Rightarrow> string \<Rightarrow> bool" where
  "static_ok protocol ver ecdh kdf \<longleftrightarrow> protocol = EXCHANGE_PROTOCOL \<and> ver = EXCHANGE_VERSION \<and> ecdh = ECDH_ALG \<and> kdf = KDF_ALG"

lemma validate_static_Inr [simp]: "validate_static_fields a b c d = Inr u \<longleftrightarrow> static_ok a b c d"
  by (simp add: validate_static_fields_def static_ok_def)

definition payload_ok :: "crypto_env \<Rightarrow> exchange_payload \<Rightarrow> string \<Rightarrow> u64 \<Rightarrow> bool" where
  "payload_ok C p role now \<longleftrightarrow> static_ok (xp_protocol p) (xp_version p) (xp_ecdh p) (xp_kdf p) \<and> xp_role p = role \<and>
     xp_exchange_id p \<noteq> [] \<and> xp_initiator_id p \<noteq> [] \<and> (role \<noteq> ROLE_INITIATOR \<longrightarrow> xp_responder_id p \<noteq> []) \<and>
     (\<exists>k. b64_decode C (xp_public_key_b64 p) = Inr k \<and> length k = 32) \<and> sint now \<le> sint (xp_expires_at_unix p)"

lemma validate_payload_Inr: "validate_payload C p role now = Inr u \<longleftrightarrow> payload_ok C p role now"
  by (auto simp: validate_payload_def payload_ok_def try_then_Inr_iff decode_key32_Inr validate_not_expired_def)

definition state_ok :: "crypto_env \<Rightarrow> exchange_state \<Rightarrow> u64 \<Rightarrow> bool" where
  "state_ok C s now \<longleftrightarrow> static_ok (xs_protocol s) (xs_version s) (xs_ecdh s) (xs_kdf s) \<and> xs_role s \<in> {ROLE_INITIATOR, ROLE_RESPONDER} \<and>
     xs_exchange_id s \<noteq> [] \<and> xs_initiator_id s \<noteq> [] \<and> (xs_role s \<noteq> ROLE_INITIATOR \<longrightarrow> xs_responder_id s \<noteq> []) \<and>
     (\<exists>k. b64_decode C (xs_private_key_b64 s) = Inr k \<and> length k = 32) \<and>
     (\<exists>k. b64_decode C (xs_public_key_b64 s) = Inr k \<and> length k = 32) \<and> sint now \<le> sint (xs_expires_at_unix s)"

lemma validate_state_Inr: "validate_state C s now = Inr u \<longleftrightarrow> state_ok C s now"
  by (auto simp: validate_state_def state_ok_def try_then_Inr_iff decode_key32_Inr validate_not_expired_def)

lemma payload_text:
  assumes "json_codec_ok (xe_json E)" "json_fits 127 (exchange_payload_json p)"
    and "static_ok (xp_protocol p) (xp_version p) (xp_ecdh p) (xp_kdf p)"
  shows "payload_from_json E (to_vec (xe_json E) (exchange_payload_json p)) = Inr p"
proof -
  have "exchange_payload_of_json (exchange_payload_json p) = Inr p"
    by (simp add: exchange_payload_of_json_def exchange_payload_json_def field_def)
  with assms show ?thesis
    by (auto simp: payload_from_json_def json_codec_ok_def with_context_def validate_static_fields_def static_ok_def)
qed

lemma state_text:
  assumes "json_codec_ok (xe_json E)" "json_fits 127 (exchange_state_json s)"
    and "static_ok (xs_protocol s) (xs_version s) (xs_ecdh s) (xs_kdf s)"
  shows "state_from_json E (to_vec (xe_json E) (exchange_state_json s)) = Inr s"
proof -
  have "exchange_state_of_json (exchange_state_json s) = Inr s"
    by (simp add: exchange_state_of_json_def exchange_state_json_def field_def)
  with assms show ?thesis
    by (auto simp: state_from_json_def json_codec_ok_def with_context_def validate_static_fields_def static_ok_def)
qed

section \<open>Completion\<close>

text \<open>What a completion is made of, once state and payload have passed the checks.\<close>

definition completed_by :: "'r exchange_env \<Rightarrow> string \<Rightarrow> string \<Rightarrow> string \<Rightarrow> bytes \<Rightarrow> bytes \<Rightarrow> bytes \<Rightarrow> completed_exchange" where
  "completed_by E exchange_id initiator_id responder_id initiator_pub responder_pub shared =
     (let hash = sha256 (xe_crypto E) ([EXCHANGE_VERSION] @ as_bytes exchange_id @ as_bytes initiator_id @ as_bytes responder_id @
            initiator_pub @ responder_pub)
      in \<lparr>cx_exchange_id = exchange_id, cx_initiator_id = initiator_id, cx_responder_id = responder_id,
          cx_session_key_b64 = b64_encode (xe_crypto E) (xe_hkdf E hash shared KDF_INFO), cx_fingerprint = fingerprint_from_hash hash\<rparr>)"

lemma refused_iff: "(if b then Inl e else m) = Inr y \<longleftrightarrow> \<not> b \<and> m = Inr y"
  by simp

lemma complete_exact:
  "complete_exchange E s p now = Inr c \<longleftrightarrow>
     state_ok (xe_crypto E) s now \<and>
     payload_ok (xe_crypto E) p (if xs_role s = ROLE_INITIATOR then ROLE_RESPONDER else ROLE_INITIATOR) now \<and>
     validate_pair s p = Inr () \<and>
     (\<exists>private own peer. b64_decode (xe_crypto E) (xs_private_key_b64 s) = Inr private \<and> length private = 32 \<and>
        b64_encode (xe_crypto E) (x_public (xe_x E) private) = xs_public_key_b64 s \<and>
        b64_decode (xe_crypto E) (xs_public_key_b64 s) = Inr own \<and> length own = 32 \<and>
        b64_decode (xe_crypto E) (xp_public_key_b64 p) = Inr peer \<and> length peer = 32 \<and>
        \<not> list_all (\<lambda>b. b = 0) (x_shared (xe_x E) private peer) \<and>
        c = (if xs_role s = ROLE_INITIATOR
             then completed_by E (xs_exchange_id s) (xs_initiator_id s) (xp_responder_id p) own peer (x_shared (xe_x E) private peer)
             else completed_by E (xs_exchange_id s) (xs_initiator_id s) (xs_responder_id s) peer own (x_shared (xe_x E) private peer)))"
proof (cases "xs_role s = ROLE_INITIATOR")
  case True
  then show ?thesis
    by (auto simp: complete_exchange_def Let_def try_then_Inr_iff refused_iff validate_state_Inr validate_payload_Inr decode_key32_Inr transcript_hash_def
        completed_by_def)
next
  case False
  then show ?thesis
    by (auto simp: complete_exchange_def Let_def try_then_Inr_iff refused_iff validate_state_Inr validate_payload_Inr decode_key32_Inr transcript_hash_def
        completed_by_def state_ok_def)
qed

section \<open>The agreement\<close>

lemma invitation_Inr:
  "create_invitation E me now r = (Inr invite, r') \<longleftrightarrow> me \<noteq> [] \<and>
     (let (i, r1) = xe_uuid E r; (k, r2) = generate_x25519_keypair E r1
      in invite = exchange_pair (xe_crypto E) ROLE_INITIATOR i me [] k (now + EXCHANGE_TTL_SECS) \<and> r' = r2)"
  by (auto simp: create_invitation_def validate_id_def split: prod.split)

lemma response_Inr:
  "create_response E p other now r = (Inr resp, r') \<longleftrightarrow> payload_ok (xe_crypto E) p ROLE_INITIATOR now \<and> other \<noteq> [] \<and>
     (xp_responder_id p = [] \<or> xp_responder_id p = other) \<and>
     (let (k, r1) = generate_x25519_keypair E r
      in resp = exchange_pair (xe_crypto E) ROLE_RESPONDER (xp_exchange_id p) (xp_initiator_id p) other k (now + EXCHANGE_TTL_SECS) \<and> r' = r1)"
proof -
  let ?v = "try_then (validate_payload (xe_crypto E) p ROLE_INITIATOR now) (\<lambda>_. validate_id ''responder_id'' other)"
  have "?v = Inr () \<longleftrightarrow> payload_ok (xe_crypto E) p ROLE_INITIATOR now \<and> other \<noteq> []"
    by (auto simp: try_then_Inr_iff validate_payload_Inr)
  moreover have "?v = Inr () \<or> (\<exists>e. ?v = Inl e)" by (cases ?v) auto
  ultimately show ?thesis by (auto simp: create_response_def split: prod.split sum.split)
qed

lemma generated_key:
  assumes "exchange_ok E" "generate_x25519_keypair E r = (k, r')"
  shows "length (fst k) = 32" and "snd k = x_public (xe_x E) (fst k)" and "length (snd k) = 32"
proof -
  obtain s r2 where f: "fill_bytes (xe_rng E) 32 r = (s, r2)" by fastforce
  with assms show k: "length (fst k) = 32" "snd k = x_public (xe_x E) (fst k)"
    unfolding generate_x25519_keypair_def exchange_ok_def rng_ok_def by (auto dest: spec [of _ 32] simp: split_beta) (metis fst_conv)
  with assms(1) show "length (snd k) = 32" by (simp add: exchange_ok_def x25519_ok_def)
qed

lemma invitation_payload_ok:
  assumes E: "exchange_ok E" and i: "create_invitation E me now r = (Inr invite, r')" and alive: "sint t \<le> sint (now + EXCHANGE_TTL_SECS)"
  shows "payload_ok (xe_crypto E) (bundle_payload invite) ROLE_INITIATOR t" and "xp_responder_id (bundle_payload invite) = []"
proof -
  obtain u s k where u: "xe_uuid E r = (u, s)" and k: "generate_x25519_keypair E s = (k, r')" and me: "me \<noteq> []"
    and invite: "invite = exchange_pair (xe_crypto E) ROLE_INITIATOR u me [] k (now + EXCHANGE_TTL_SECS)"
    using i by (auto simp: invitation_Inr split: prod.splits)
  from u E have "u \<noteq> []" unfolding exchange_ok_def by (metis fst_conv)
  moreover have "b64_decode (xe_crypto E) (b64_encode (xe_crypto E) (snd k)) = Inr (snd k)"
    using E by (simp add: exchange_ok_def crypto_ok_def)
  ultimately show "payload_ok (xe_crypto E) (bundle_payload invite) ROLE_INITIATOR t"
    using generated_key [OF E k] me alive by (simp add: invite exchange_pair_def payload_ok_def static_ok_def)
  show "xp_responder_id (bundle_payload invite) = []" by (simp add: invite exchange_pair_def)
qed

text \<open>The names are hashed without separators, so the fingerprint does not tell where one ends.\<close>

lemma transcript_ambiguous:
  "transcript_hash C i (a @ b) c p q = transcript_hash C i a (b @ c) p q"
  by (simp add: transcript_hash_def as_bytes_def)

text \<open>
  C14. An invitation and the response to it, completed on both sides while neither has expired, give
  both sides the same completion: one session key and one fingerprint, which is also the one
  computed from the two payloads, and the names of the two users.
\<close>

theorem exchange_agrees:
  assumes E: "exchange_ok E" and invite: "create_invitation E me now r0 = (Inr invite, r1)"
    and resp: "create_response E (bundle_payload invite) other now' r2 = (Inr resp, r3)"
    and alive: "sint t \<le> sint (now + EXCHANGE_TTL_SECS)" "sint t \<le> sint (now' + EXCHANGE_TTL_SECS)"
      "sint t' \<le> sint (now + EXCHANGE_TTL_SECS)" "sint t' \<le> sint (now' + EXCHANGE_TTL_SECS)"
  shows "\<exists>c key. complete_exchange E (bundle_state invite) (bundle_payload resp) t = Inr c \<and>
    complete_exchange E (bundle_state resp) (bundle_payload invite) t' = Inr c \<and>
    fingerprint_for_payloads (xe_crypto E) (bundle_payload invite) (bundle_payload resp) t = Inr (cx_fingerprint c) \<and>
    cx_initiator_id c = me \<and> cx_responder_id c = other \<and> session_key (xe_crypto E) c = Inr key"
proof -
  let ?C = "xe_crypto E"
  obtain i s1 where u: "xe_uuid E r0 = (i, s1)" by fastforce
  obtain k where k: "generate_x25519_keypair E s1 = (k, r1)" and me: "me \<noteq> []"
    and invite': "invite = exchange_pair ?C ROLE_INITIATOR i me [] k (now + EXCHANGE_TTL_SECS)"
    using invite u by (auto simp: invitation_Inr split: prod.splits)
  obtain l where l: "generate_x25519_keypair E r2 = (l, r3)" and other: "other \<noteq> []"
    and resp': "resp = exchange_pair ?C ROLE_RESPONDER i me other l (now' + EXCHANGE_TTL_SECS)"
    using resp by (auto simp: response_Inr invite' exchange_pair_def split: prod.splits)
  note keys = generated_key [OF E k] generated_key [OF E l]
  have C: "crypto_ok ?C" and i: "i \<noteq> []" using E u unfolding exchange_ok_def by (simp, metis fst_conv)
  have b64: "b64_decode ?C (b64_encode ?C bs) = Inr bs" for bs using C by (simp add: crypto_ok_def)
  have static: "static_ok EXCHANGE_PROTOCOL EXCHANGE_VERSION ECDH_ALG KDF_ALG" by (simp add: static_ok_def)
  have shared: "x_shared (xe_x E) (fst k) (snd l) = x_shared (xe_x E) (fst l) (snd k)"
      "\<not> list_all (\<lambda>b. b = 0) (x_shared (xe_x E) (fst l) (snd k))"
    using E keys by (auto simp: exchange_ok_def x25519_ok_def)
  define c where "c = completed_by E i me other (snd k) (snd l) (x_shared (xe_x E) (fst l) (snd k))"
  have "complete_exchange E (bundle_state invite) (bundle_payload resp) t = Inr c"
    unfolding complete_exact using keys me other i static shared alive
    by (simp add: invite' resp' exchange_pair_def state_ok_def payload_ok_def validate_pair_def b64 c_def)
  moreover have "complete_exchange E (bundle_state resp) (bundle_payload invite) t' = Inr c"
    unfolding complete_exact using keys me other i static shared alive
    by (simp add: invite' resp' exchange_pair_def state_ok_def payload_ok_def validate_pair_def b64 c_def)
  moreover have "fingerprint_for_payloads ?C (bundle_payload invite) (bundle_payload resp) t = Inr (cx_fingerprint c)"
    using keys me other i static alive
    by (simp add: fingerprint_for_payloads_def try_then_Inr_iff validate_payload_Inr invite' resp' exchange_pair_def payload_ok_def
        validate_payload_pair_def transcript_hash_def decode_key32_Inr b64 c_def completed_by_def Let_def)
  moreover have "session_key ?C c = Inr (xe_hkdf E (sha256 ?C ([EXCHANGE_VERSION] @ as_bytes i @ as_bytes me @ as_bytes other @ snd k @ snd l))
      (x_shared (xe_x E) (fst l) (snd k)) KDF_INFO)"
    using E by (simp add: session_key_def c_def completed_by_def Let_def decode_key32_Inr b64 exchange_ok_def)
  moreover have "cx_initiator_id c = me" "cx_responder_id c = other" by (simp_all add: c_def completed_by_def Let_def)
  ultimately show ?thesis by blast
qed

section \<open>Example\<close>

definition demo_x25519 :: x25519 where
  "demo_x25519 = \<lparr>x_public = (\<lambda>a. take 32 (a @ replicate 32 0)), x_shared = (\<lambda>a p. 1 # map2 (+) a p)\<rparr>"

lemma demo_x25519_ok: "x25519_ok demo_x25519"
proof -
  have "map2 (+) a b = map2 (+) b a" for a b :: bytes
    by (induction a b rule: list_induct2') (simp_all add: add.commute)
  moreover have "length (take 32 (a @ replicate 32 0) :: bytes) = 32" for a :: bytes by (cases "length a \<le> 32") auto
  ultimately show ?thesis by (simp add: x25519_ok_def demo_x25519_def)
qed

definition demo_exchange :: "nat exchange_env" where
  "demo_exchange = \<lparr>xe_crypto = demo_crypto, xe_x = demo_x25519, xe_hkdf = demo_hkdf, xe_rng = demo_rng, xe_uuid = (\<lambda>r. (''u1'', Suc r)),
     xe_json = demo_json\<rparr>"

lemma demo_exchange_ok: "exchange_ok demo_exchange"
  using demo_hkdf_ok by (simp add: exchange_ok_def demo_exchange_def demo_x25519_ok demo_json_ok hkdf_ok_def VOIP_KEY_LEN_def)

theorem exchange_agrees_witness:
  "\<exists>invite resp r1 r3 c. create_invitation demo_exchange ''alice'' 1000 1 = (Inr invite, r1) \<and>
     create_response demo_exchange (bundle_payload invite) ''bob'' 1010 7 = (Inr resp, r3) \<and>
     complete_exchange demo_exchange (bundle_state invite) (bundle_payload resp) 1020 = Inr c \<and>
     complete_exchange demo_exchange (bundle_state resp) (bundle_payload invite) 1030 = Inr c"
proof -
  let ?E = demo_exchange
  obtain invite r1 where i: "create_invitation ?E ''alice'' 1000 1 = (Inr invite, r1)"
    by (fastforce simp: create_invitation_def validate_id_def split: prod.split)
  have late: "sint (1010 :: u64) \<le> sint (1000 + EXCHANGE_TTL_SECS)" by (simp add: EXCHANGE_TTL_SECS_def)
  obtain k s where "generate_x25519_keypair ?E 7 = (k, s)" by fastforce
  with invitation_payload_ok [OF demo_exchange_ok i late] obtain resp r3 where r: "create_response ?E (bundle_payload invite) ''bob'' 1010 7 = (Inr resp, r3)"
    by (simp add: response_Inr)
  have "sint (1030 :: u64) \<le> sint (1000 + EXCHANGE_TTL_SECS)" "sint (1030 :: u64) \<le> sint (1010 + EXCHANGE_TTL_SECS)"
    "sint (1020 :: u64) \<le> sint (1000 + EXCHANGE_TTL_SECS)" "sint (1020 :: u64) \<le> sint (1010 + EXCHANGE_TTL_SECS)"
    by (simp_all add: EXCHANGE_TTL_SECS_def)
  with exchange_agrees [OF demo_exchange_ok i r] i r show ?thesis by blast
qed

end
