(* ===== verification/Key_Export.thy ===== *)
theory Key_Export
  imports Key_Exchange
begin

text \<open>
  The export of keyrings to another device (\<open>ParanoiaLibrary/src/export.rs\<close>): the encryption for the
  public key of the device and the validation of what is imported; and the sealed bundles of the
  corporate distribution (\<open>corp.rs\<close>).
\<close>

section \<open>Encryption for a device\<close>

record 'r ecies_env =
  ec_crypto :: crypto_env
  ec_x :: x25519
  ec_hkdf :: hkdf
  ec_aead :: aead
  ec_rng :: "'r rng"
  ec_json :: json_codec

definition ECIES_VERSION :: byte where "ECIES_VERSION = 1"
definition ECIES_INFO :: bytes where "ECIES_INFO = as_bytes ''Paranoia ECIES v1''"

record ecies_envelope =
  ev_v :: byte
  ev_eph_pub :: string
  ev_nonce :: string
  ev_ct :: string

definition ecies_envelope_json :: "ecies_envelope \<Rightarrow> json" where
  "ecies_envelope_json e = J_Obj [(''v'', json_of_u8 (ev_v e)), (''eph_pub'', J_Str (ev_eph_pub e)), (''nonce'', J_Str (ev_nonce e)),
     (''ct'', J_Str (ev_ct e))]"

definition ecies_envelope_of_json :: "json \<Rightarrow> ecies_envelope res" where
  "ecies_envelope_of_json v = try_then (struct_fields [''v'', ''eph_pub'', ''nonce'', ''ct''] v) (\<lambda>m.
     try_then (field de_small None ''v'' m) (\<lambda>a. try_then (field de_str None ''eph_pub'' m) (\<lambda>b.
     try_then (field de_str None ''nonce'' m) (\<lambda>c. try_then (field de_str None ''ct'' m) (\<lambda>d.
     Inr \<lparr>ev_v = a, ev_eph_pub = b, ev_nonce = c, ev_ct = d\<rparr>)))))"

definition pubkey_from_private_key :: "'r ecies_env \<Rightarrow> bytes \<Rightarrow> bytes" where
  "pubkey_from_private_key E priv = x_public (ec_x E) priv"

definition generate_device_keypair :: "'r ecies_env \<Rightarrow> 'r \<Rightarrow> (bytes \<times> bytes) \<times> 'r" where
  "generate_device_keypair E r = (let (priv, r') = fill_bytes (ec_rng E) 32 r in ((priv, x_public (ec_x E) priv), r'))"

definition derive_enc_key :: "'r ecies_env \<Rightarrow> bytes \<Rightarrow> bytes \<Rightarrow> bytes \<Rightarrow> bytes" where
  "derive_enc_key E shared eph_pub receiver_pub = ec_hkdf E (eph_pub @ receiver_pub) shared ECIES_INFO"

definition ecies_encrypt :: "'r ecies_env \<Rightarrow> bytes \<Rightarrow> bytes \<Rightarrow> 'r \<Rightarrow> bytes res \<times> 'r" where
  "ecies_encrypt E receiver_pub plaintext r =
     (let (eph_priv, r) = fill_bytes (ec_rng E) 32 r; eph_pub = x_public (ec_x E) eph_priv;
          shared = x_shared (ec_x E) eph_priv receiver_pub
      in if list_all (\<lambda>b. b = 0) shared then (Inl ''non-contributory ECDH shared secret'', r)
         else
           let enc_key = derive_enc_key E shared eph_pub receiver_pub; (nonce, r) = fill_bytes (ec_rng E) 12 r
           in (case aead_seal (ec_aead E) enc_key nonce [] plaintext of
                 None \<Rightarrow> Inl ''ECIES encryption failed''
               | Some ct \<Rightarrow> Inr (to_vec (ec_json E) (ecies_envelope_json
                   \<lparr>ev_v = ECIES_VERSION, ev_eph_pub = b64_encode (ec_crypto E) eph_pub, ev_nonce = b64_encode (ec_crypto E) nonce,
                    ev_ct = b64_encode (ec_crypto E) ct\<rparr>)), r))"

text \<open>\<open>B64.decode(..).context(..)?.try_into().map_err(..)\<close>\<close>

definition decode_exact :: "crypto_env \<Rightarrow> string \<Rightarrow> nat \<Rightarrow> string \<Rightarrow> bytes res" where
  "decode_exact C name n encoded =
     try_then (with_context (''invalid '' @ name @ '' base64'') (b64_decode C encoded)) (\<lambda>bs.
     if length bs = n then Inr bs else Inl (''invalid '' @ name @ '' length''))"

definition ecies_decrypt :: "'r ecies_env \<Rightarrow> bytes \<Rightarrow> bytes \<Rightarrow> bytes res" where
  "ecies_decrypt E device_priv text =
     try_then (with_context ''invalid ECIES envelope JSON'' (try_then (from_slice (ec_json E) text) ecies_envelope_of_json)) (\<lambda>e.
     if ev_v e \<noteq> ECIES_VERSION then Inl (''unsupported ECIES version '' @ show_nat (unat (ev_v e)))
     else try_then (decode_exact (ec_crypto E) ''eph_pub'' 32 (ev_eph_pub e)) (\<lambda>eph_pub.
       try_then (decode_exact (ec_crypto E) ''nonce'' 12 (ev_nonce e)) (\<lambda>nonce.
       try_then (with_context ''invalid ciphertext base64'' (b64_decode (ec_crypto E) (ev_ct e))) (\<lambda>ct.
       let device_pub = x_public (ec_x E) device_priv; shared = x_shared (ec_x E) device_priv eph_pub
       in if list_all (\<lambda>b. b = 0) shared then Inl ''non-contributory ECDH shared secret''
          else case aead_open (ec_aead E) (derive_enc_key E shared eph_pub device_pub) nonce [] ct of
                 None \<Rightarrow> Inl ''ECIES decryption failed''
               | Some plaintext \<Rightarrow> Inr plaintext))))"

section \<open>What is exported\<close>

definition EXPORT_PAYLOAD_VERSION :: byte where "EXPORT_PAYLOAD_VERSION = 1"
definition MAX_EXPORT_SERVERS :: nat where "MAX_EXPORT_SERVERS = 16"
definition MAX_EXPORT_ADMIN_SERVERS :: nat where "MAX_EXPORT_ADMIN_SERVERS = 16"
definition MAX_EXPORT_DIALOGUES :: nat where "MAX_EXPORT_DIALOGUES = 1024"
definition MAX_EXPORT_KEY_ENTRIES :: nat where "MAX_EXPORT_KEY_ENTRIES = 8192"

record export_key_entry =
  ek_start_seq :: u64
  ek_key :: string

record export_dialogue =
  ed_peer :: string
  ed_peer_server_id :: "string option"
  ed_keyring :: "export_key_entry list"

record export_server =
  es_url :: string
  es_username :: string
  es_signing_key_b64 :: string
  es_dialogues :: "export_dialogue list"

record export_admin_server =
  ea_url :: string
  ea_private_key_b64 :: string

datatype export_profile_type = Export_Client | Export_Admin | Export_Full

record export_payload =
  ex_format_version :: byte
  ex_profile_type :: export_profile_type
  ex_servers :: "export_server list"
  ex_admin_servers :: "export_admin_server list"

record export_stats =
  xs_servers :: nat
  xs_admin_servers :: nat
  xs_dialogues :: nat
  xs_key_entries :: nat

definition decode_fixed_b64 :: "crypto_env \<Rightarrow> string \<Rightarrow> nat \<Rightarrow> bytes res" where
  "decode_fixed_b64 C v expected_len =
     try_then (with_context ''invalid base64'' (b64_decode C (trim v))) (\<lambda>decoded.
     if length decoded \<noteq> expected_len then Inl ''invalid decoded length'' else Inr decoded)"

fun check_entries :: "crypto_env \<Rightarrow> u64 set \<Rightarrow> export_key_entry list \<Rightarrow> unit res" where
  "check_entries C start_seqs [] = Inr ()"
| "check_entries C start_seqs (e # es) =
     (if ek_start_seq e = 0 then Inl ''invalid export keyring start_seq''
      else if ek_start_seq e \<in> start_seqs then Inl ''duplicate export keyring start_seq''
      else try_then (with_context ''invalid export dialogue key'' (decode_fixed_b64 C (ek_key e) 32)) (\<lambda>_.
           check_entries C (insert (ek_start_seq e) start_seqs) es))"

fun check_dialogues :: "crypto_env \<Rightarrow> string set \<Rightarrow> export_dialogue list \<Rightarrow> export_stats \<Rightarrow> export_stats res" where
  "check_dialogues C peers [] st = Inr st"
| "check_dialogues C peers (d # ds) st =
     (if trim (ed_peer d) = [] then Inl ''empty export dialogue peer''
      else if ed_peer d \<in> peers then Inl ''duplicate export dialogue peer''
      else if ed_keyring d = [] then Inl ''empty export dialogue keyring''
      else if xs_key_entries st + length (ed_keyring d) > MAX_EXPORT_KEY_ENTRIES then Inl ''too many export keyring entries''
      else try_then (check_entries C {} (ed_keyring d)) (\<lambda>_.
           check_dialogues C (insert (ed_peer d) peers) ds (st\<lparr>xs_key_entries := xs_key_entries st + length (ed_keyring d)\<rparr>)))"

fun check_servers :: "crypto_env \<Rightarrow> export_server list \<Rightarrow> export_stats \<Rightarrow> export_stats res" where
  "check_servers C [] st = Inr st"
| "check_servers C (s # ss) st =
     (if trim (es_url s) = [] \<or> trim (es_username s) = [] then Inl ''empty export server identity''
      else try_then (with_context ''invalid client signing key'' (decode_fixed_b64 C (es_signing_key_b64 s) 32)) (\<lambda>_.
        if xs_dialogues st + length (es_dialogues s) > MAX_EXPORT_DIALOGUES then Inl ''too many export dialogues''
        else try_then (check_dialogues C {} (es_dialogues s) (st\<lparr>xs_dialogues := xs_dialogues st + length (es_dialogues s)\<rparr>))
             (check_servers C ss)))"

fun check_admins :: "crypto_env \<Rightarrow> export_admin_server list \<Rightarrow> unit res" where
  "check_admins C [] = Inr ()"
| "check_admins C (a # as) =
     (if trim (ea_url a) = [] then Inl ''empty export admin server url''
      else try_then (with_context ''invalid export admin private key'' (decode_fixed_b64 C (ea_private_key_b64 a) 32)) (\<lambda>_.
           check_admins C as))"

definition validate_export_payload :: "crypto_env \<Rightarrow> export_payload \<Rightarrow> export_stats res" where
  "validate_export_payload C p =
     (if ex_format_version p \<noteq> EXPORT_PAYLOAD_VERSION then Inl ''unsupported export payload version''
      else if length (ex_servers p) > MAX_EXPORT_SERVERS then Inl ''too many export servers''
      else if length (ex_admin_servers p) > MAX_EXPORT_ADMIN_SERVERS then Inl ''too many export admin servers''
      else try_then (check_servers C (ex_servers p) \<lparr>xs_servers = length (ex_servers p), xs_admin_servers = length (ex_admin_servers p),
             xs_dialogues = 0, xs_key_entries = 0\<rparr>) (\<lambda>st.
           try_then (check_admins C (ex_admin_servers p)) (\<lambda>_. Inr st)))"

section \<open>Corporate bundles\<close>

definition CORP_MAGIC :: bytes where "CORP_MAGIC = as_bytes ''PCB1''"
definition CORP_ENC_INFO :: bytes where "CORP_ENC_INFO = as_bytes ''paranoia:corp:enc:v1''"
definition CTX_KEYRING :: bytes where "CTX_KEYRING = []"
definition CTX_ROSTER :: bytes where "CTX_ROSTER = as_bytes ''roster''"

definition ctx_dialogue :: "string \<Rightarrow> bytes" where
  "ctx_dialogue partner_server_id = as_bytes ''dlg:'' @ as_bytes partner_server_id"

definition corp_enc_key :: "hkdf \<Rightarrow> bytes \<Rightarrow> string \<Rightarrow> bytes" where
  "corp_enc_key H psk server_id = H (as_bytes server_id) psk CORP_ENC_INFO"

definition u64_to_le :: "u64 \<Rightarrow> bytes" where "u64_to_le n = rev (u64_to_be n)"
definition u64_from_le :: "bytes \<Rightarrow> u64" where "u64_from_le bs = u64_from_be (rev bs)"

definition corp_aad :: "string \<Rightarrow> u64 \<Rightarrow> bytes \<Rightarrow> bytes" where
  "corp_aad server_id ver context = CORP_MAGIC @ as_bytes server_id @ u64_to_le ver @ context"

definition corp_seal :: "aead \<Rightarrow> hkdf \<Rightarrow> 'r rng \<Rightarrow> bytes \<Rightarrow> string \<Rightarrow> u64 \<Rightarrow> bytes \<Rightarrow> bytes \<Rightarrow> 'r \<Rightarrow> bytes res \<times> 'r" where
  "corp_seal A H R psk server_id ver context plaintext r =
     (if psk = [] then (Inl ''empty psk'', r)
      else let (nonce, r) = fill_bytes R 12 r
           in (case aead_seal A (corp_enc_key H psk server_id) nonce (corp_aad server_id ver context) plaintext of
                 None \<Rightarrow> Inl ''corp seal: aead::Error''
               | Some ct \<Rightarrow> Inr (CORP_MAGIC @ u64_to_le ver @ nonce @ ct), r))"

definition corp_open :: "aead \<Rightarrow> hkdf \<Rightarrow> bytes \<Rightarrow> string \<Rightarrow> bytes \<Rightarrow> bytes \<Rightarrow> (u64 \<times> bytes) res" where
  "corp_open A H psk server_id context blob =
     (if length blob < 4 + 8 + 12 + 16 then Inl ''corp blob too short''
      else if take 4 blob \<noteq> CORP_MAGIC then Inl ''corp blob bad magic''
      else
        let ver = u64_from_le (take 8 (drop 4 blob)); nonce = take 12 (drop 12 blob); ct = drop 24 blob
        in case aead_open A (corp_enc_key H psk server_id) nonce (corp_aad server_id ver context) ct of
             None \<Rightarrow> Inl ''corp open: wrong psk or tampered blob''
           | Some pt \<Rightarrow> Inr (ver, pt))"

section \<open>A device reads what was encrypted for it\<close>

definition ecies_ok :: "'r ecies_env \<Rightarrow> bool" where
  "ecies_ok E \<longleftrightarrow> crypto_ok (ec_crypto E) \<and> x25519_ok (ec_x E) \<and> aead_ok (ec_aead E) \<and> rng_ok (ec_rng E) \<and> json_codec_ok (ec_json E) \<and>
     (\<forall>bs. utf8_valid (b64_encode (ec_crypto E) bs))"

lemma envelope_text:
  assumes "ecies_ok E"
  shows "try_then (from_slice (ec_json E) (to_vec (ec_json E) (ecies_envelope_json \<lparr>ev_v = v, ev_eph_pub = b64_encode (ec_crypto E) a,
      ev_nonce = b64_encode (ec_crypto E) b, ev_ct = b64_encode (ec_crypto E) c\<rparr>))) ecies_envelope_of_json =
    Inr \<lparr>ev_v = v, ev_eph_pub = b64_encode (ec_crypto E) a, ev_nonce = b64_encode (ec_crypto E) b, ev_ct = b64_encode (ec_crypto E) c\<rparr>"
proof -
  have "utf8_valid ''v''" "utf8_valid ''eph_pub''" "utf8_valid ''nonce''" "utf8_valid ''ct''" by (simp_all add: utf8_valid_def)
  then have "json_fits 127 (ecies_envelope_json \<lparr>ev_v = v, ev_eph_pub = b64_encode (ec_crypto E) a,
      ev_nonce = b64_encode (ec_crypto E) b, ev_ct = b64_encode (ec_crypto E) c\<rparr>)"
    using assms by (simp add: ecies_envelope_json_def ecies_ok_def json_of_u8_def)
  with assms have "from_slice (ec_json E) (to_vec (ec_json E) (ecies_envelope_json \<lparr>ev_v = v, ev_eph_pub = b64_encode (ec_crypto E) a,
      ev_nonce = b64_encode (ec_crypto E) b, ev_ct = b64_encode (ec_crypto E) c\<rparr>)) =
      Inr (ecies_envelope_json \<lparr>ev_v = v, ev_eph_pub = b64_encode (ec_crypto E) a, ev_nonce = b64_encode (ec_crypto E) b,
        ev_ct = b64_encode (ec_crypto E) c\<rparr>)"
    by (simp add: ecies_ok_def json_codec_ok_def)
  then show ?thesis by (simp add: ecies_envelope_of_json_def ecies_envelope_json_def field_def)
qed

lemma ecies_roundtrip:
  assumes E: "ecies_ok E" and priv: "length priv = 32" and short: "length plaintext < 2 ^ 32"
  shows "\<exists>text r'. ecies_encrypt E (pubkey_from_private_key E priv) plaintext r = (Inr text, r') \<and> ecies_decrypt E priv text = Inr plaintext"
proof -
  let ?C = "ec_crypto E" and ?X = "ec_x E"
  obtain eph r1 where eph: "fill_bytes (ec_rng E) 32 r = (eph, r1)" by fastforce
  obtain nonce r2 where nonce: "fill_bytes (ec_rng E) 12 r1 = (nonce, r2)" by fastforce
  have len: "length eph = 32" "length nonce = 12" "length (x_public ?X eph) = 32"
    using E eph nonce unfolding ecies_ok_def rng_ok_def x25519_ok_def by (metis fst_conv)+
  have shared: "x_shared ?X eph (x_public ?X priv) = x_shared ?X priv (x_public ?X eph)"
      "\<not> list_all (\<lambda>b. b = 0) (x_shared ?X priv (x_public ?X eph))"
    using E len priv by (auto simp: ecies_ok_def x25519_ok_def)
  let ?key = "derive_enc_key E (x_shared ?X priv (x_public ?X eph)) (x_public ?X eph) (x_public ?X priv)"
  have A: "aead_ok (ec_aead E)" using E by (simp add: ecies_ok_def)
  obtain ct where ct: "aead_seal (ec_aead E) ?key nonce [] plaintext = Some ct"
    using aead_okD(1) [OF A short] by blast
  then have "aead_open (ec_aead E) ?key nonce [] ct = Some plaintext" by (simp add: aead_okD(3) [OF A])
  moreover have "b64_decode ?C (b64_encode ?C bs) = Inr bs" for bs using E by (simp add: ecies_ok_def crypto_ok_def)
  ultimately show ?thesis using len shared
    by (simp add: ecies_encrypt_def ecies_decrypt_def eph nonce ct pubkey_from_private_key_def envelope_text [OF E] with_context_def
        decode_exact_def ECIES_VERSION_def Let_def)
qed

section \<open>What the validation accepts\<close>

definition key32 :: "crypto_env \<Rightarrow> string \<Rightarrow> bool" where
  "key32 C v \<longleftrightarrow> (\<exists>k. b64_decode C (trim v) = Inr k \<and> length k = 32)"

definition keyring_ok :: "crypto_env \<Rightarrow> export_key_entry list \<Rightarrow> bool" where
  "keyring_ok C es \<longleftrightarrow> distinct (map ek_start_seq es) \<and> (\<forall>e \<in> set es. ek_start_seq e \<noteq> 0 \<and> key32 C (ek_key e))"

definition server_ok :: "crypto_env \<Rightarrow> export_server \<Rightarrow> bool" where
  "server_ok C s \<longleftrightarrow> trim (es_url s) \<noteq> [] \<and> trim (es_username s) \<noteq> [] \<and> key32 C (es_signing_key_b64 s) \<and>
     distinct (map ed_peer (es_dialogues s)) \<and>
     (\<forall>d \<in> set (es_dialogues s). trim (ed_peer d) \<noteq> [] \<and> ed_keyring d \<noteq> [] \<and> keyring_ok C (ed_keyring d))"

definition entries_of :: "export_dialogue list \<Rightarrow> nat" where
  "entries_of ds = sum_list (map (\<lambda>d. length (ed_keyring d)) ds)"

definition all_dialogues :: "export_server list \<Rightarrow> export_dialogue list" where
  "all_dialogues ss = concat (map es_dialogues ss)"

lemma entries_of_simps [simp]: "entries_of [] = 0" "entries_of (d # ds) = length (ed_keyring d) + entries_of ds"
    "entries_of (ds @ ds') = entries_of ds + entries_of ds'"
  by (simp_all add: entries_of_def)

lemma decode_fixed_Inr: "(\<exists>k. with_context e (decode_fixed_b64 C v 32) = Inr k) \<longleftrightarrow> key32 C v"
  by (auto simp: decode_fixed_b64_def with_context_def key32_def split: sum.splits)

lemma then_fixed_Inr:
  "try_then (with_context e (decode_fixed_b64 C v 32)) (\<lambda>_. m) = Inr y \<longleftrightarrow> key32 C v \<and> m = Inr y"
  using decode_fixed_Inr [of e C v] by (auto simp: try_then_Inr_iff)

lemma check_entries_Inr:
  "check_entries C seen es = Inr () \<longleftrightarrow> keyring_ok C es \<and> seen \<inter> ek_start_seq ` set es = {}"
  by (induction es arbitrary: seen) (auto simp: refused_iff then_fixed_Inr keyring_ok_def)

lemma check_dialogues_Inr:
  "check_dialogues C seen ds st = Inr st' \<longleftrightarrow>
     distinct (map ed_peer ds) \<and> seen \<inter> ed_peer ` set ds = {} \<and>
     (\<forall>d \<in> set ds. trim (ed_peer d) \<noteq> [] \<and> ed_keyring d \<noteq> [] \<and> keyring_ok C (ed_keyring d)) \<and>
     (ds \<noteq> [] \<longrightarrow> xs_key_entries st + entries_of ds \<le> MAX_EXPORT_KEY_ENTRIES) \<and>
     st' = st\<lparr>xs_key_entries := xs_key_entries st + entries_of ds\<rparr>"
proof (induction ds arbitrary: seen st)
  case (Cons d ds)
  let ?st = "st\<lparr>xs_key_entries := xs_key_entries st + length (ed_keyring d)\<rparr>"
  have "check_dialogues C seen (d # ds) st = Inr st' \<longleftrightarrow> trim (ed_peer d) \<noteq> [] \<and> ed_peer d \<notin> seen \<and> ed_keyring d \<noteq> [] \<and>
      xs_key_entries st + length (ed_keyring d) \<le> MAX_EXPORT_KEY_ENTRIES \<and> keyring_ok C (ed_keyring d) \<and>
      check_dialogues C (insert (ed_peer d) seen) ds ?st = Inr st'"
    by (simp add: refused_iff try_then_Inr_iff check_entries_Inr not_less)
  then show ?case unfolding Cons.IH by (cases "ds = []") (auto simp: add.assoc)
qed auto

lemma all_dialogues_simps [simp]: "all_dialogues [] = []" "all_dialogues (s # ss) = es_dialogues s @ all_dialogues ss"
  by (simp_all add: all_dialogues_def)

lemma check_servers_Inr:
  "check_servers C ss st = Inr st' \<longleftrightarrow>
     (\<forall>s \<in> set ss. server_ok C s) \<and>
     (all_dialogues ss \<noteq> [] \<longrightarrow> xs_dialogues st + length (all_dialogues ss) \<le> MAX_EXPORT_DIALOGUES \<and>
        xs_key_entries st + entries_of (all_dialogues ss) \<le> MAX_EXPORT_KEY_ENTRIES) \<and>
     (ss \<noteq> [] \<longrightarrow> xs_dialogues st \<le> MAX_EXPORT_DIALOGUES) \<and>
     st' = st\<lparr>xs_dialogues := xs_dialogues st + length (all_dialogues ss), xs_key_entries := xs_key_entries st + entries_of (all_dialogues ss)\<rparr>"
proof (induction ss arbitrary: st)
  case (Cons s ss)
  let ?st = "st\<lparr>xs_dialogues := xs_dialogues st + length (es_dialogues s), xs_key_entries := xs_key_entries st + entries_of (es_dialogues s)\<rparr>"
  have step: "check_servers C (s # ss) st = Inr st' \<longleftrightarrow> server_ok C s \<and> xs_dialogues st + length (es_dialogues s) \<le> MAX_EXPORT_DIALOGUES \<and>
      (es_dialogues s \<noteq> [] \<longrightarrow> xs_key_entries st + entries_of (es_dialogues s) \<le> MAX_EXPORT_KEY_ENTRIES) \<and>
      check_servers C ss ?st = Inr st'"
    using decode_fixed_Inr [of "''invalid client signing key''" C "es_signing_key_b64 s"]
    by (auto simp: refused_iff server_ok_def try_then_Inr_iff check_dialogues_Inr not_less)
  show ?case unfolding step Cons.IH
    by (cases "all_dialogues ss = []"; cases "es_dialogues s = []") (auto simp: add.assoc)
qed auto

lemma check_admins_Inr: "check_admins C as = Inr () \<longleftrightarrow> (\<forall>a \<in> set as. trim (ea_url a) \<noteq> [] \<and> key32 C (ea_private_key_b64 a))"
  by (induction as) (auto simp: refused_iff then_fixed_Inr)

text \<open>
  C15. A payload passes the validation exactly when its version and sizes are right, every server, peer
  and key is well formed, no number or peer is given twice, and the dialogues and key entries of all servers
  together stay within the limits; the statistics are the true totals.
\<close>

theorem export_validation_exact:
  "validate_export_payload C p = Inr st \<longleftrightarrow>
     ex_format_version p = EXPORT_PAYLOAD_VERSION \<and>
     length (ex_servers p) \<le> MAX_EXPORT_SERVERS \<and> length (ex_admin_servers p) \<le> MAX_EXPORT_ADMIN_SERVERS \<and>
     list_all (server_ok C) (ex_servers p) \<and>
     list_all (\<lambda>a. trim (ea_url a) \<noteq> [] \<and> key32 C (ea_private_key_b64 a)) (ex_admin_servers p) \<and>
     length (all_dialogues (ex_servers p)) \<le> MAX_EXPORT_DIALOGUES \<and>
     entries_of (all_dialogues (ex_servers p)) \<le> MAX_EXPORT_KEY_ENTRIES \<and>
     st = \<lparr>xs_servers = length (ex_servers p), xs_admin_servers = length (ex_admin_servers p),
        xs_dialogues = length (all_dialogues (ex_servers p)), xs_key_entries = entries_of (all_dialogues (ex_servers p))\<rparr>"
  by (cases "all_dialogues (ex_servers p) = []")
    (auto simp: validate_export_payload_def refused_iff try_then_Inr_iff check_servers_Inr check_admins_Inr not_less list_all_iff)

section \<open>Corporate bundles are what was sealed\<close>

lemma u64_le_roundtrip [simp]: "u64_from_le (u64_to_le n) = n" "length (u64_to_le n) = 8"
  by (simp_all add: u64_from_le_def u64_to_le_def u64_be_roundtrip del: u64_to_be.simps)

lemma u64_le_back:
  assumes "length bs = 8"
  shows "u64_to_le (u64_from_le bs) = bs"
proof -
  have "u64_to_be (u64_from_be (rev bs)) = rev bs"
    using be64.dec_sound [of "rev bs" "u64_from_be (rev bs)"] assms by simp
  then show ?thesis by (simp add: u64_to_le_def u64_from_le_def del: u64_to_be.simps)
qed

lemma corp_open_exact:
  assumes A: "aead_ok A"
  shows "corp_open A H psk server_id context blob = Inr (ver, p) \<longleftrightarrow>
    (\<exists>nonce ct. length nonce = 12 \<and> blob = CORP_MAGIC @ u64_to_le ver @ nonce @ ct \<and>
       aead_seal A (corp_enc_key H psk server_id) nonce (corp_aad server_id ver context) p = Some ct)"
proof
  assume opened: "corp_open A H psk server_id context blob = Inr (ver, p)"
  let ?nonce = "take 12 (drop 12 blob)" and ?ct = "drop 24 blob"
  from opened have len: "40 \<le> length blob" and magic: "take 4 blob = CORP_MAGIC" and ver: "ver = u64_from_le (take 8 (drop 4 blob))"
    and seal: "aead_seal A (corp_enc_key H psk server_id) ?nonce (corp_aad server_id ver context) p = Some ?ct"
    by (auto simp: corp_open_def Let_def aead_okD(3) [OF A] split: if_splits option.splits)
  have "blob = take 4 blob @ take 8 (drop 4 blob) @ take 12 (drop 12 blob) @ drop 24 blob"
    using append_take_drop_id [of 4 blob] append_take_drop_id [of 8 "drop 4 blob"] append_take_drop_id [of 12 "drop 12 blob"] by simp
  moreover have "u64_to_le ver = take 8 (drop 4 blob)" using len by (simp add: ver u64_le_back)
  ultimately have "blob = CORP_MAGIC @ u64_to_le ver @ ?nonce @ ?ct" using magic by simp
  with len seal show "\<exists>nonce ct. length nonce = 12 \<and> blob = CORP_MAGIC @ u64_to_le ver @ nonce @ ct \<and>
       aead_seal A (corp_enc_key H psk server_id) nonce (corp_aad server_id ver context) p = Some ct"
    by (intro exI [of _ ?nonce] exI [of _ ?ct]) simp
next
  assume "\<exists>nonce ct. length nonce = 12 \<and> blob = CORP_MAGIC @ u64_to_le ver @ nonce @ ct \<and>
       aead_seal A (corp_enc_key H psk server_id) nonce (corp_aad server_id ver context) p = Some ct"
  then obtain nonce ct where n: "length nonce = 12" and blob: "blob = CORP_MAGIC @ u64_to_le ver @ nonce @ ct"
    and seal: "aead_seal A (corp_enc_key H psk server_id) nonce (corp_aad server_id ver context) p = Some ct" by blast
  have "length CORP_MAGIC = 4" by (simp add: CORP_MAGIC_def)
  moreover have "aead_open A (corp_enc_key H psk server_id) nonce (corp_aad server_id ver context) ct = Some p"
    using seal by (simp add: aead_okD(3) [OF A])
  ultimately show "corp_open A H psk server_id context blob = Inr (ver, p)"
    using n aead_okD(2) [OF A seal] by (simp add: corp_open_def blob VOIP_TAG_LEN_def)
qed

lemma corp_roundtrip:
  assumes "aead_ok A" "rng_ok R" and "corp_seal A H R psk server_id ver context p r = (Inr blob, r')"
  shows "corp_open A H psk server_id context blob = Inr (ver, p)"
proof -
  obtain nonce r2 where n: "fill_bytes R 12 r = (nonce, r2)" by fastforce
  with assms(2) have "length nonce = 12" unfolding rng_ok_def by (metis fst_conv)
  with assms(3) n show ?thesis
    by (subst corp_open_exact [OF assms(1)]) (auto simp: corp_seal_def split: if_splits option.splits)
qed

end
